(* ===== verification/Prelude.thy ===== *)
theory Prelude
  imports Main "HOL-Library.List_Lexorder" "HOL-Library.Char_ord" "HOL-Library.Multiset"
begin

text \<open>
  Shared vocabulary of the development: Python exceptions as values of a sum type, the sequencing
  of fallible statements, the \<^verbatim>\<open>for\<close> loop of a script as a monadic fold with its
  invariant rule, Python dictionaries as association lists in insertion order, and the list
  lemmas that the components share.

  The message of an exception is modelled without the interpolated location (path and line
  number), which only serves the operator.
\<close>

section \<open>Errors and sequencing\<close>

datatype py_error =
    ValueError string
  | InputError string
  | KeyError string
  | IndexError
  | FileExistsError string
  | FileNotFoundError string
  | OSError string
  | TypeError string
  | AttributeError string
  | OverflowError string
  | ZeroDivisionError
  | DecimalOverflow
  | ArgumentTypeError string
  | RuntimeError string
  | SystemExit string

type_synonym 'a result = "py_error + 'a"

named_theorems result_simps \<open>inversion of successful fallible computations\<close>

fun bindR :: "'a result \<Rightarrow> ('a \<Rightarrow> 'b result) \<Rightarrow> 'b result" where
  "bindR (Inl e) f = Inl e"
| "bindR (Inr x) f = f x"

definition require :: "bool \<Rightarrow> py_error \<Rightarrow> unit result" where
  "require b e = (if b then Inr () else Inl e)"

definition of_option :: "py_error \<Rightarrow> 'a option \<Rightarrow> 'a result" where
  "of_option e x = (case x of None \<Rightarrow> Inl e | Some v \<Rightarrow> Inr v)"

lemma bindR_cong [fundef_cong]:
  "m = m' \<Longrightarrow> (\<And>x. m' = Inr x \<Longrightarrow> f x = g x) \<Longrightarrow> bindR m f = bindR m' g"
  by (cases m') auto

lemma bindR_assoc: "bindR (bindR m f) g = bindR m (\<lambda>x. bindR (f x) g)"
  by (cases m) simp_all

lemma bindR_Inr_iff [result_simps]:
  "bindR m f = Inr y \<longleftrightarrow> (\<exists>x. m = Inr x \<and> f x = Inr y)"
  by (cases m) auto

lemma bindR_Inl_iff:
  "bindR m f = Inl e \<longleftrightarrow> m = Inl e \<or> (\<exists>x. m = Inr x \<and> f x = Inl e)"
  by (cases m) auto

lemma require_Inr_iff [result_simps]: "require b e = Inr u \<longleftrightarrow> b"
  by (simp add: require_def)

lemma require_simps [simp]: "require True e = Inr ()" "require False e = Inl e"
  by (simp_all add: require_def)

lemma of_option_simps [simp]: "of_option e None = Inl e" "of_option e (Some v) = Inr v"
  by (simp_all add: of_option_def)

lemma of_option_Inr_iff [result_simps]: "of_option e x = Inr v \<longleftrightarrow> x = Some v"
  by (cases x) auto

lemma if_Inl_Inr_iff [result_simps]:
  "(if b then Inl e else m) = Inr y \<longleftrightarrow> \<not> b \<and> m = Inr y"
  "(if b then m else Inl e) = Inr y \<longleftrightarrow> b \<and> m = Inr y"
  by auto

section \<open>Loops over rows\<close>

text \<open>
  A \<^verbatim>\<open>for row in rows\<close> loop whose body may raise is a fold that stops at the first
  error; a comprehension whose element expression may raise is a \<open>mapM\<close>.
\<close>

fun foldM :: "('s \<Rightarrow> 'a \<Rightarrow> 's result) \<Rightarrow> 's \<Rightarrow> 'a list \<Rightarrow> 's result" where
  "foldM f s [] = Inr s"
| "foldM f s (x # xs) = bindR (f s x) (\<lambda>s'. foldM f s' xs)"

fun mapM :: "('a \<Rightarrow> 'b result) \<Rightarrow> 'a list \<Rightarrow> 'b list result" where
  "mapM f [] = Inr []"
| "mapM f (x # xs) = bindR (f x) (\<lambda>y. bindR (mapM f xs) (\<lambda>ys. Inr (y # ys)))"

lemma foldM_cong [fundef_cong]:
  "s = s' \<Longrightarrow> xs = xs' \<Longrightarrow> (\<And>x t. x \<in> set xs' \<Longrightarrow> f t x = g t x) \<Longrightarrow> foldM f s xs = foldM g s' xs'"
proof (induction xs arbitrary: s s' xs')
  case (Cons a xs)
  then show ?case by (cases "g s' a") auto
qed simp

lemma foldM_append: "foldM f s (xs @ ys) = bindR (foldM f s xs) (\<lambda>t. foldM f t ys)"
proof (induction xs arbitrary: s)
  case (Cons a xs)
  then show ?case by (cases "f s a") auto
qed simp

text \<open>
  The invariant rule of a loop: \<open>I\<close> relates the rows consumed so far to the state. The
  step may use that every earlier row was accepted, and from which state.
\<close>

lemma foldM_invariant:
  assumes run: "foldM f s xs = Inr t"
    and init: "I [] s"
    and step: "\<And>seen x s s'. I seen s \<Longrightarrow> x \<in> set xs \<Longrightarrow> f s x = Inr s' \<Longrightarrow> I (seen @ [x]) s'"
  shows "I xs t"
proof -
  have "I (seen @ xs') t"
    if "foldM f s xs' = Inr t" "I seen s" "set xs' \<subseteq> set xs" for seen xs' s
    using that
  proof (induction xs' arbitrary: s seen)
    case (Cons a xs')
    then obtain s' where s': "f s a = Inr s'" and rest: "foldM f s' xs' = Inr t"
      by (auto simp: result_simps)
    have "I (seen @ [a]) s'" using step [OF Cons.prems(2) _ s'] Cons.prems(3) by simp
    from Cons.IH [OF rest this] Cons.prems(3) show ?case by simp
  qed simp
  from this [OF run init] show ?thesis by simp
qed

text \<open>A loop returns whenever its body does on every state the invariant allows.\<close>

lemma foldM_total:
  assumes init: "I [] s"
    and step: "\<And>seen x s. I seen s \<Longrightarrow> x \<in> set xs \<Longrightarrow> prefix_of seen x \<Longrightarrow>
      \<exists>s'. f s x = Inr s' \<and> I (seen @ [x]) s'"
    and pre: "\<And>ys x zs. xs = ys @ x # zs \<Longrightarrow> prefix_of ys x"
  shows "\<exists>t. foldM f s xs = Inr t \<and> I xs t"
proof -
  have "\<exists>t. foldM f s xs' = Inr t \<and> I (seen @ xs') t"
    if "I seen s" "xs = seen @ xs'" for seen xs' s
    using that
  proof (induction xs' arbitrary: s seen)
    case (Cons a xs')
    have "prefix_of seen a" using pre Cons.prems(2) by blast
    then obtain s' where "f s a = Inr s'" and "I (seen @ [a]) s'"
      using step [OF Cons.prems(1), of a] Cons.prems(2) by auto
    with Cons.IH [of "seen @ [a]" s'] Cons.prems(2) show ?case by auto
  qed simp
  from this [OF init] show ?thesis by simp
qed

lemma mapM_Inr_iff [result_simps]:
  "mapM f xs = Inr ys \<longleftrightarrow> list_all2 (\<lambda>x y. f x = Inr y) xs ys"
  by (induction xs arbitrary: ys) (auto simp: result_simps list_all2_Cons1)

lemma mapM_map: "(\<And>x. x \<in> set xs \<Longrightarrow> f x = Inr (g x)) \<Longrightarrow> mapM f xs = Inr (map g xs)"
  by (induction xs) auto

lemma mapM_length: "mapM f xs = Inr ys \<Longrightarrow> length ys = length xs"
  by (auto simp: result_simps dest: list_all2_lengthD)

lemma mapM_mem: "mapM f xs = Inr ys \<Longrightarrow> y \<in> set ys \<Longrightarrow> \<exists>x \<in> set xs. f x = Inr y"
  by (induction xs arbitrary: ys) (fastforce simp: result_simps list_all2_Cons1)+

section \<open>Slices\<close>

text \<open>
  The comprehension \<^verbatim>\<open>[xs[i:i + n] for i in range(0, len(xs), n)]\<close>, for a positive step.
\<close>

definition range_step :: "nat \<Rightarrow> nat \<Rightarrow> nat list" where
  "range_step hi step = map (\<lambda>j. j * step) [0..<(hi + step - 1) div step]"

definition slices :: "nat \<Rightarrow> 'a list \<Rightarrow> 'a list list" where
  "slices n xs = map (\<lambda>i. take n (drop i xs)) (range_step (length xs) n)"

lemma slices_Nil [simp]: "slices n [] = []"
  by (cases n) (simp_all add: slices_def range_step_def)

lemma slices_step:
  assumes "0 < n" "xs \<noteq> []"
  shows "slices n xs = take n xs # slices n (drop n xs)"
proof -
  have "(length xs + n - 1) div n = Suc ((length xs - n + n - 1) div n)"
  proof (cases "n \<le> length xs")
    case True
    then have "length xs + n - 1 = (length xs - n + n - 1) + n" using assms(1) by simp
    then show ?thesis using assms(1) by (metis Suc_eq_plus1 div_add_self2 less_numeral_extra(3))
  next
    case False
    have "length xs + n - 1 = (length xs - 1) + n" using assms(2) by (cases xs) simp_all
    then have "(length xs + n - 1) div n = (length xs - 1) div n + 1" using assms(1) by (metis div_add_self2 less_numeral_extra(3))
    then show ?thesis using False assms(1) by simp
  qed
  then show ?thesis by (simp add: slices_def range_step_def upt_conv_Cons map_Suc_upt [symmetric] o_def
      add.commute drop_drop del: upt_Suc)
qed

lemma slices_induct [consumes 1, case_names Nil step]:
  assumes "0 < n" "P []" "\<And>xs. xs \<noteq> [] \<Longrightarrow> P (drop n xs) \<Longrightarrow> P xs"
  shows "P xs"
proof (induction "length xs" arbitrary: xs rule: less_induct)
  case less
  then show ?case using assms by (cases "xs = []") auto
qed

lemma concat_slices [simp]:
  assumes "0 < n"
  shows "concat (slices n xs) = xs"
  by (induction xs rule: slices_induct [OF assms]) (simp_all add: slices_step [OF assms])

lemma slices_length:
  assumes "0 < n"
  shows "b \<in> set (slices n xs) \<Longrightarrow> b \<noteq> [] \<and> length b \<le> n"
  by (induction xs rule: slices_induct [OF assms]) (use assms in \<open>auto simp: slices_step [OF assms]\<close>)

lemma slices_map: "slices n (map f xs) = map (map f) (slices n xs)"
  by (simp add: slices_def take_map drop_map)

lemma slices_concat:
  "0 < n \<Longrightarrow> \<forall>b \<in> set bs. length b = n \<Longrightarrow> slices n (concat bs) = bs"
proof (induction bs)
  case (Cons b bs)
  then show ?case using slices_step [of n "concat (b # bs)"] by (cases "b = []") auto
qed simp

section \<open>Dictionaries in insertion order\<close>

text \<open>
  A Python \<^verbatim>\<open>dict\<close> keeps insertion order and an update of a present key keeps its
  place; the model is an association list with distinct keys.
\<close>

type_synonym ('k, 'v) dict = "('k \<times> 'v) list"

fun dict_set :: "'k \<Rightarrow> 'v \<Rightarrow> ('k, 'v) dict \<Rightarrow> ('k, 'v) dict" where
  "dict_set k v [] = [(k, v)]"
| "dict_set k v ((k', v') # d) = (if k = k' then (k, v) # d else (k', v') # dict_set k v d)"

abbreviation dict_get :: "('k, 'v) dict \<Rightarrow> 'k \<Rightarrow> 'v option" where
  "dict_get \<equiv> map_of"

abbreviation dict_keys :: "('k, 'v) dict \<Rightarrow> 'k list" where
  "dict_keys d \<equiv> map fst d"

abbreviation dict_values :: "('k, 'v) dict \<Rightarrow> 'v list" where
  "dict_values d \<equiv> map snd d"

lemma map_of_dict_set [simp]: "map_of (dict_set k v d) = (map_of d)(k \<mapsto> v)"
  by (induction d) auto

lemma set_keys_dict_set [simp]: "fst ` set (dict_set k v d) = insert k (fst ` set d)"
proof (induction d)
  case (Cons p d)
  obtain a b where "p = (a, b)" by (cases p)
  with Cons show ?case by (simp add: insert_commute)
qed simp

lemma distinct_dict_set: "distinct (dict_keys d) \<Longrightarrow> distinct (dict_keys (dict_set k v d))"
  by (induction d) (auto simp del: set_map simp: set_map)

lemma dict_set_new: "k \<notin> fst ` set d \<Longrightarrow> dict_set k v d = d @ [(k, v)]"
  by (induction d) auto

lemma dict_set_keys_old: "k \<in> fst ` set d \<Longrightarrow> dict_keys (dict_set k v d) = dict_keys d"
proof (induction d)
  case (Cons p d)
  obtain a b where "p = (a, b)" by (cases p)
  with Cons show ?case by (cases "k = a") simp_all
qed simp

text \<open>Updating one entry changes a sum over the values by the difference of the two weights.\<close>

lemma sum_list_dict_set:
  fixes w :: "'v \<Rightarrow> int"
  assumes "distinct (dict_keys d)"
  shows "sum_list (map (\<lambda>p. w (snd p)) (dict_set k v d)) =
    sum_list (map (\<lambda>p. w (snd p)) d) + w v - (case map_of d k of None \<Rightarrow> 0 | Some u \<Rightarrow> w u)"
  using assms
proof (induction d)
  case (Cons p d)
  obtain a b where p: "p = (a, b)" by (cases p)
  show ?case
  proof (cases "k = a")
    case True
    then show ?thesis by (simp add: p)
  next
    case False
    with Cons p show ?thesis by (auto split: option.splits)
  qed
qed simp

section \<open>List lemmas shared by the components\<close>

lemma sorted_wrt_snoc [simp]:
  "sorted_wrt P (xs @ [x]) \<longleftrightarrow> sorted_wrt P xs \<and> (\<forall>y \<in> set xs. P y x)"
  by (auto simp: sorted_wrt_append)

lemma strict_sorted_snoc_last:
  fixes x :: "'a :: linorder"
  assumes "sorted_wrt (<) xs" "xs \<noteq> [] \<Longrightarrow> last xs < x"
  shows "sorted_wrt (<) (xs @ [x])"
proof (cases xs rule: rev_cases)
  case (snoc ys y)
  with assms show ?thesis by (auto simp: sorted_wrt_append intro: less_trans)
qed simp

lemma sum_list_map_add:
  fixes f g :: "'a \<Rightarrow> int"
  shows "sum_list (map (\<lambda>x. f x + g x) xs) = sum_list (map f xs) + sum_list (map g xs)"
  by (induction xs) auto

lemma sum_list_nonneg_int:
  fixes f :: "'a \<Rightarrow> int"
  shows "(\<And>x. x \<in> set xs \<Longrightarrow> 0 \<le> f x) \<Longrightarrow> 0 \<le> sum_list (map f xs)"
  by (induction xs) force+

lemma sum_list_map_mono_int:
  fixes f g :: "'a \<Rightarrow> int"
  shows "(\<And>x. x \<in> set xs \<Longrightarrow> f x \<le> g x) \<Longrightarrow> sum_list (map f xs) \<le> sum_list (map g xs)"
  by (induction xs) force+

lemma sum_list_partition:
  fixes f :: "'a \<Rightarrow> int"
  shows "sum_list (map f xs) = sum_list (map f (filter P xs)) + sum_list (map f (filter (\<lambda>x. \<not> P x) xs))"
  by (induction xs) auto

lemma sum_list_map_mset:
  fixes f :: "'a \<Rightarrow> int"
  assumes "mset xs = mset ys"
  shows "sum_list (map f xs) = sum_list (map f ys)"
  using assms by (metis mset_map sum_mset_sum_list)

text \<open>Grouping by a key: the sums of the groups add up to the sum of the whole.\<close>

lemma sum_list_pick:
  fixes w :: int
  shows "distinct ks \<Longrightarrow> sum_list (map (\<lambda>k. if k = a then w else 0) ks) = (if a \<in> set ks then w else 0)"
  by (induction ks) auto

lemma sum_list_groups:
  fixes w :: "'a \<Rightarrow> int"
  assumes "distinct ks" "\<forall>x \<in> set xs. f x \<in> set ks"
  shows "sum_list (map (\<lambda>k. sum_list (map w (filter (\<lambda>x. f x = k) xs))) ks) = sum_list (map w xs)"
  using assms(2)
proof (induction xs)
  case (Cons x xs)
  have "(\<lambda>k. sum_list (map w (filter (\<lambda>x. f x = k) (x # xs)))) =
      (\<lambda>k. (if k = f x then w x else 0) + sum_list (map w (filter (\<lambda>x. f x = k) xs)))"
    by auto
  then show ?case
    using Cons by (simp only: sum_list_map_add sum_list_pick [OF assms(1)]) simp
qed simp

section \<open>Shared facts of the ledger loops\<close>

lemma dict_set_mem: "x \<in> set (dict_set k v d) \<Longrightarrow> x = (k, v) \<or> x \<in> set d"
  by (induction d) (auto split: if_splits)

lemma foldM_keeps:
  "foldM f st xs = Inr st' \<Longrightarrow> (\<And>s x s'. f s x = Inr s' \<Longrightarrow> I s \<Longrightarrow> I s') \<Longrightarrow> I st \<Longrightarrow> I st'"
  by (induction xs arbitrary: st) (auto simp: bindR_Inr_iff)

lemma mapM_cong: "xs = ys \<Longrightarrow> (\<And>x. x \<in> set ys \<Longrightarrow> f x = g x) \<Longrightarrow> mapM f xs = mapM g ys"
  by (induction xs arbitrary: ys) auto

lemma list_all2_sums:
  assumes "list_all2 (\<lambda>g e. P g e) gs es" "\<And>g e. P g e \<Longrightarrow> f e = (d g :: int)"
  shows "sum_list (map f es) = sum_list (map d gs)"
  using assms by (induction rule: list_all2_induct) simp_all

lemma list_all2_map_eq:
  assumes "list_all2 P gs es" "\<And>g e. P g e \<Longrightarrow> f e = d g"
  shows "map f es = map d gs"
  using assms by (induction rule: list_all2_induct) simp_all

lemma sum_list_if: "sum_list (map (\<lambda>x. if P x then f x else (0 :: int)) xs) = sum_list (map f (filter P xs))"
  by (induction xs) simp_all

lemma sum_list_of_bool: "sum_list (map (\<lambda>x. of_bool (P x)) xs) = int (length (filter P xs))"
  by (induction xs) simp_all

end
