(* ===== verification/PyText.thy ===== *)
theory PyText
  imports Prelude
begin

text \<open>
  The string operations of Python that the tools use, on Latin-1 text: \<^verbatim>\<open>str.strip\<close>,
  \<^verbatim>\<open>lower\<close>, \<^verbatim>\<open>isdigit\<close>, \<^verbatim>\<open>partition\<close>, \<^verbatim>\<open>removeprefix\<close>,
  \<^verbatim>\<open>int()\<close> with signs, underscores and surrounding white space,
  \<^verbatim>\<open>str()\<close> of an integer, zero padding, and digit strings in base 10 and 16. A
  \<open>string\<close> is a list of 8-bit characters. White space is what \<^verbatim>\<open>str.strip\<close> removes of them; letters and
  digits are the ASCII ones, which is what addresses, amounts and column names are made of.
\<close>

section \<open>Characters\<close>

abbreviation code :: "char \<Rightarrow> nat" where
  "code c \<equiv> of_char c"

definition is_space :: "char \<Rightarrow> bool" where
  "is_space c \<longleftrightarrow> (9 \<le> code c \<and> code c \<le> 13) \<or> (28 \<le> code c \<and> code c \<le> 32) \<or> code c \<in> {133, 160}"

definition is_digit :: "char \<Rightarrow> bool" where
  "is_digit c \<longleftrightarrow> 48 \<le> code c \<and> code c \<le> 57"

definition is_upper :: "char \<Rightarrow> bool" where
  "is_upper c \<longleftrightarrow> 65 \<le> code c \<and> code c \<le> 90"

definition is_lower :: "char \<Rightarrow> bool" where
  "is_lower c \<longleftrightarrow> 97 \<le> code c \<and> code c \<le> 122"

definition lower_char :: "char \<Rightarrow> char" where
  "lower_char c = (if is_upper c then char_of (code c + 32) else c)"

definition upper_char :: "char \<Rightarrow> char" where
  "upper_char c = (if is_lower c then char_of (code c - 32) else c)"

definition lower :: "string \<Rightarrow> string" where
  "lower s = map lower_char s"

definition upper :: "string \<Rightarrow> string" where
  "upper s = map upper_char s"

definition strip :: "string \<Rightarrow> string" where
  "strip s = rev (dropWhile is_space (rev (dropWhile is_space s)))"

definition isdigit :: "string \<Rightarrow> bool" where
  "isdigit s \<longleftrightarrow> s \<noteq> [] \<and> list_all is_digit s"

definition startswith :: "string \<Rightarrow> string \<Rightarrow> bool" where
  "startswith s p \<longleftrightarrow> take (length p) s = p"

definition endswith :: "string \<Rightarrow> string \<Rightarrow> bool" where
  "endswith s p \<longleftrightarrow> length p \<le> length s \<and> drop (length s - length p) s = p"

definition removeprefix :: "string \<Rightarrow> string \<Rightarrow> string" where
  "removeprefix s p = (if startswith s p then drop (length p) s else s)"

definition remove_char :: "char \<Rightarrow> string \<Rightarrow> string" where
  "remove_char c s = filter (\<lambda>x. x \<noteq> c) s"

text \<open>\<^verbatim>\<open>text.partition(sep)\<close> for a one-character separator: head, whether the separator
  occurs, tail.\<close>

fun partition_at :: "char \<Rightarrow> string \<Rightarrow> string \<times> bool \<times> string" where
  "partition_at c [] = ([], False, [])"
| "partition_at c (x # xs) =
     (if x = c then ([], True, xs)
      else (case partition_at c xs of (h, b, t) \<Rightarrow> (x # h, b, t)))"

lemma length_lower [simp]: "length (lower s) = length s"
  by (simp add: lower_def)

lemma lower_append [simp]: "lower (s @ t) = lower s @ lower t"
  by (simp add: lower_def)

lemma lower_Cons [simp]: "lower (c # s) = lower_char c # lower s"
  by (simp add: lower_def)

lemma lower_Nil [simp]: "lower [] = []"
  by (simp add: lower_def)

lemma code_char_of: "n < 256 \<Longrightarrow> code (char_of n) = n"
  by simp

lemma lower_char_idem [simp]: "lower_char (lower_char c) = lower_char c"
  by (auto simp: lower_char_def is_upper_def)

lemma lower_idem [simp]: "lower (lower s) = lower s"
  by (simp add: lower_def)

lemma lower_upper_char: "lower_char (upper_char c) = lower_char c"
  by (auto simp: lower_char_def upper_char_def is_upper_def is_lower_def)

lemma strip_no_space:
  assumes "list_all (\<lambda>c. \<not> is_space c) s"
  shows "strip s = s"
proof -
  have "dropWhile is_space s = s" using assms by (cases s) auto
  moreover have "dropWhile is_space (rev s) = rev s"
    using assms by (cases s rule: rev_cases) auto
  ultimately show ?thesis by (simp add: strip_def)
qed

lemma is_digit_not_space: "is_digit c \<Longrightarrow> \<not> is_space c"
  by (simp add: is_digit_def is_space_def)

lemma partition_at_append:
  "c \<notin> set h \<Longrightarrow> partition_at c (h @ c # t) = (h, True, t)"
  by (induction h) auto

lemma partition_at_none: "c \<notin> set h \<Longrightarrow> partition_at c h = (h, False, [])"
  by (induction h) auto

section \<open>Decimal digit strings\<close>

definition digit_value :: "char \<Rightarrow> nat" where
  "digit_value c = code c - 48"

definition digit_char :: "nat \<Rightarrow> char" where
  "digit_char d = char_of (48 + d)"

lemma is_digit_digit_char [simp]: "d < 10 \<Longrightarrow> is_digit (digit_char d)"
  by (simp add: is_digit_def digit_char_def)

lemma digit_value_char [simp]: "d < 10 \<Longrightarrow> digit_value (digit_char d) = d"
  by (simp add: digit_value_def digit_char_def)

lemma digit_char_value [simp]: "is_digit c \<Longrightarrow> digit_char (digit_value c) = c"
  by (simp add: is_digit_def digit_value_def digit_char_def)

lemma digit_value_less [simp]: "is_digit c \<Longrightarrow> digit_value c < 10"
  by (simp add: is_digit_def digit_value_def) arith

text \<open>The value of a string of digits and the digits of a natural number.\<close>

definition digits_value :: "string \<Rightarrow> nat" where
  "digits_value s = foldl (\<lambda>a c. 10 * a + digit_value c) 0 s"

fun str_nat :: "nat \<Rightarrow> string" where
  "str_nat n = (if n < 10 then [digit_char n] else str_nat (n div 10) @ [digit_char (n mod 10)])"

declare str_nat.simps [simp del]

definition str_int :: "int \<Rightarrow> string" where
  "str_int n = (if n < 0 then CHR ''-'' # str_nat (nat (- n)) else str_nat (nat n))"

text \<open>Zero padding to a width, as the format \<^verbatim>\<open>{n:0{w}d}\<close> and \<^verbatim>\<open>rjust(w, '0')\<close> do.\<close>

definition zfill :: "nat \<Rightarrow> string \<Rightarrow> string" where
  "zfill w s = replicate (w - length s) (CHR ''0'') @ s"

definition ljust_zero :: "nat \<Rightarrow> string \<Rightarrow> string" where
  "ljust_zero w s = s @ replicate (w - length s) (CHR ''0'')"

lemma digits_value_Nil [simp]: "digits_value [] = 0"
  by (simp add: digits_value_def)

lemma digits_value_snoc [simp]: "digits_value (s @ [c]) = 10 * digits_value s + digit_value c"
  by (simp add: digits_value_def)

lemma digits_value_append: "digits_value (s @ t) = digits_value s * 10 ^ length t + digits_value t"
proof (induction t rule: rev_induct)
  case (snoc c t)
  have "digits_value (s @ t @ [c]) = digits_value ((s @ t) @ [c])" by simp
  then show ?case using snoc by (simp only: digits_value_snoc) (simp add: algebra_simps)
qed simp

lemma digits_value_bound: "list_all is_digit s \<Longrightarrow> digits_value s < 10 ^ length s"
proof (induction s rule: rev_induct)
  case (snoc c s)
  then have "digits_value s < 10 ^ length s" and "digit_value c < 10" by auto
  then show ?case by simp
qed simp

lemma digits_value_zeros [simp]: "digits_value (replicate k (CHR ''0'') @ s) = digits_value s"
proof -
  have "digits_value (replicate k (CHR ''0'')) = 0"
  proof (induction k)
    case (Suc k)
    have "replicate (Suc k) (CHR ''0'') = replicate k (CHR ''0'') @ [CHR ''0'']"
      by (simp add: replicate_append_same)
    with Suc show ?case by (simp only: digits_value_snoc) (simp add: digit_value_def)
  qed simp
  then show ?thesis by (simp add: digits_value_append)
qed

lemma str_nat_neq_Nil [simp]: "str_nat n \<noteq> []"
  by (subst str_nat.simps) simp

lemma str_nat_digits: "list_all is_digit (str_nat n)"
proof (induction n rule: str_nat.induct)
  case (1 n)
  show ?case by (subst str_nat.simps) (use 1 in auto)
qed

lemma digits_value_str_nat [simp]: "digits_value (str_nat n) = n"
proof (induction n rule: str_nat.induct)
  case (1 n)
  show ?case
  proof (cases "n < 10")
    case True
    then show ?thesis using digits_value_snoc [of "[]" "digit_char n"]
      by (subst str_nat.simps) simp
  next
    case False
    with 1 show ?thesis by (subst str_nat.simps) simp
  qed
qed

lemma isdigit_str_nat [simp]: "isdigit (str_nat n)"
  by (simp add: isdigit_def str_nat_digits)

lemma length_str_nat_le: "n < 10 ^ k \<Longrightarrow> 0 < k \<Longrightarrow> length (str_nat n) \<le> k"
proof (induction k arbitrary: n)
  case (Suc k)
  show ?case
  proof (cases "n < 10")
    case True
    then show ?thesis by (subst str_nat.simps) simp
  next
    case False
    with Suc.prems have "n div 10 < 10 ^ k" and "0 < k" by (auto intro: gr0I)
    then have "length (str_nat (n div 10)) \<le> k" by (rule Suc.IH)
    with False show ?thesis by (subst str_nat.simps) simp
  qed
qed simp

lemma length_zfill [simp]: "length (zfill w s) = max w (length s)"
  by (simp add: zfill_def)

lemma zfill_digits: "list_all is_digit s \<Longrightarrow> list_all is_digit (zfill w s)"
  by (auto simp: zfill_def is_digit_def list_all_iff)

lemma digits_value_zfill [simp]: "digits_value (zfill w s) = digits_value s"
  by (simp add: zfill_def)

lemma digits_value_ljust:
  "length s \<le> w \<Longrightarrow> digits_value (ljust_zero w s) = digits_value s * 10 ^ (w - length s)"
  using digits_value_zeros [of "w - length s" "[]"]
  by (simp add: ljust_zero_def digits_value_append)

section \<open>Python's int()\<close>

text \<open>
  \<^verbatim>\<open>int(text)\<close> strips white space, takes an optional sign and digits, and single
  underscores between digits; anything else is a \<^verbatim>\<open>ValueError\<close>.
\<close>

fun digits_us :: "bool \<Rightarrow> nat \<Rightarrow> string \<Rightarrow> nat option" where
  "digits_us p acc [] = (if p then Some acc else None)"
| "digits_us p acc (c # cs) =
     (if is_digit c then digits_us True (10 * acc + digit_value c) cs
      else if c = CHR ''_'' \<and> p then digits_us False acc cs
      else None)"

definition py_int_opt :: "string \<Rightarrow> int option" where
  "py_int_opt s =
     (case strip s of
        [] \<Rightarrow> None
      | c # cs \<Rightarrow>
          if c = CHR ''-'' then map_option (\<lambda>n. - int n) (digits_us False 0 cs)
          else if c = CHR ''+'' then map_option int (digits_us False 0 cs)
          else map_option int (digits_us False 0 (c # cs)))"

definition py_int :: "string \<Rightarrow> int result" where
  "py_int s = of_option (ValueError ''invalid literal for int()'') (py_int_opt s)"

lemma digits_us_digits:
  "list_all is_digit s \<Longrightarrow> digits_us p acc s =
     (if s = [] \<and> \<not> p then None else Some (acc * 10 ^ length s + digits_value s))"
proof (induction s arbitrary: p acc)
  case (Cons c s)
  have "digits_value (c # s) = digit_value c * 10 ^ length s + digits_value s"
    using digits_value_append [of "[c]" s] digits_value_snoc [of "[]" c] by simp
  with Cons show ?case by (simp add: algebra_simps)
qed simp

lemma is_digit_sign: "is_digit c \<Longrightarrow> c \<noteq> CHR ''-'' \<and> c \<noteq> CHR ''+''"
  by (auto simp: is_digit_def)

lemma py_int_digits: "isdigit s \<Longrightarrow> py_int s = Inr (int (digits_value s))"
proof -
  assume s: "isdigit s"
  then have "strip s = s"
    by (intro strip_no_space) (auto simp: isdigit_def list_all_iff is_digit_not_space)
  with s show ?thesis
    by (cases s) (auto simp: py_int_def py_int_opt_def isdigit_def digits_us_digits is_digit_sign
        simp del: digits_us.simps)
qed

text \<open>Reading back a printed integer.\<close>

lemma py_int_str_int [simp]: "py_int (str_int n) = Inr n"
proof (cases "n < 0")
  case True
  let ?t = "str_nat (nat (- n))"
  have "strip (CHR ''-'' # ?t) = CHR ''-'' # ?t"
    using str_nat_digits [of "nat (- n)"]
    by (intro strip_no_space) (auto simp: list_all_iff is_digit_not_space, simp add: is_space_def)
  with True show ?thesis
    by (simp add: str_int_def py_int_def py_int_opt_def digits_us_digits str_nat_digits)
next
  case False
  then show ?thesis by (simp add: str_int_def py_int_digits)
qed

lemma str_int_inject [simp]: "str_int m = str_int n \<longleftrightarrow> m = n"
  by (metis py_int_str_int sum.inject(2))

section \<open>Evaluation on integers\<close>

text \<open>Code equations that read and print through \<^typ>\<open>int\<close>, whose numerals are binary.\<close>

fun str_pos :: "int \<Rightarrow> string" where
  "str_pos n = (if n < 10 then [digit_char (nat n)] else str_pos (n div 10) @ [digit_char (nat (n mod 10))])"

declare str_pos.simps [simp del]

lemma str_pos_nat: "0 \<le> n \<Longrightarrow> str_nat (nat n) = str_pos n"
proof (induction n rule: str_pos.induct)
  case (1 n)
  show ?case
  proof (cases "n < 10")
    case True
    with 1 show ?thesis by (subst str_nat.simps, subst str_pos.simps) simp
  next
    case False
    then have "str_nat (nat (n div 10)) = str_pos (n div 10)" using 1 by (intro "1.IH") simp_all
    moreover have "\<not> nat n < 10" using False by linarith
    ultimately show ?thesis using False by (subst str_nat.simps, subst str_pos.simps) (simp add: nat_div_distrib nat_mod_distrib)
  qed
qed

lemma str_int_code [code]: "str_int n = (if n < 0 then CHR ''-'' # str_pos (- n) else str_pos n)"
  by (simp add: str_int_def str_pos_nat)

fun digits_us_int :: "bool \<Rightarrow> int \<Rightarrow> string \<Rightarrow> int option" where
  "digits_us_int p acc [] = (if p then Some acc else None)"
| "digits_us_int p acc (c # cs) =
     (if is_digit c then digits_us_int True (10 * acc + int (digit_value c)) cs
      else if c = CHR ''_'' \<and> p then digits_us_int False acc cs
      else None)"

lemma digits_us_int: "map_option int (digits_us p acc s) = digits_us_int p (int acc) s"
  by (induction p acc s rule: digits_us.induct) simp_all

lemma digits_us_neg: "map_option (\<lambda>n. - int n) x = map_option uminus (map_option int x)"
  by (cases x) simp_all

lemma py_int_opt_code [code]:
  "py_int_opt s =
     (case strip s of
        [] \<Rightarrow> None
      | c # cs \<Rightarrow>
          if c = CHR ''-'' then map_option uminus (digits_us_int False 0 cs)
          else if c = CHR ''+'' then digits_us_int False 0 cs
          else digits_us_int False 0 (c # cs))"
  unfolding py_int_opt_def digits_us_neg digits_us_int of_nat_0 ..

section \<open>Hexadecimal text\<close>

definition hex_digit_value :: "char \<Rightarrow> nat option" where
  "hex_digit_value c =
     (if is_digit c then Some (code c - 48)
      else if 97 \<le> code c \<and> code c \<le> 102 then Some (code c - 87)
      else if 65 \<le> code c \<and> code c \<le> 70 then Some (code c - 55)
      else None)"

definition is_hex :: "char \<Rightarrow> bool" where
  "is_hex c \<longleftrightarrow> hex_digit_value c \<noteq> None"

definition hex_char :: "nat \<Rightarrow> char" where
  "hex_char d = (if d < 10 then char_of (48 + d) else char_of (87 + d))"

fun hex_value_acc :: "nat \<Rightarrow> string \<Rightarrow> nat option" where
  "hex_value_acc acc [] = Some acc"
| "hex_value_acc acc (c # cs) =
     (case hex_digit_value c of None \<Rightarrow> None | Some d \<Rightarrow> hex_value_acc (16 * acc + d) cs)"

text \<open>\<^verbatim>\<open>int(text, 16)\<close> of a text of hex digits; a leading \<^verbatim>\<open>0x\<close> is accepted as Python accepts
  it. Restriction: Python also accepts a sign, surrounding white space and single underscores between digits; the model
  refuses such a text. The callers pass addresses and ABI words, which are plain hex digits.\<close>

definition hex_int :: "string \<Rightarrow> nat option" where
  "hex_int s = (let b = (if startswith (lower s) ''0x'' then drop 2 s else s)
     in if b = [] then None else hex_value_acc 0 b)"

lemma hex_digit_value_less: "hex_digit_value c = Some d \<Longrightarrow> d < 16"
  by (auto simp: hex_digit_value_def is_digit_def split: if_splits)

lemma hex_digit_value_char [simp]: "d < 16 \<Longrightarrow> hex_digit_value (hex_char d) = Some d"
  by (auto simp: hex_digit_value_def hex_char_def is_digit_def)

lemma hex_digit_lower: "hex_digit_value (lower_char c) = hex_digit_value c"
  by (auto simp: hex_digit_value_def lower_char_def is_upper_def is_digit_def)

lemma is_hex_lower [simp]: "is_hex (lower_char c) = is_hex c"
  by (simp add: is_hex_def hex_digit_lower)

lemma hex_char_of_value: "hex_digit_value c = Some d \<Longrightarrow> hex_char d = lower_char c"
  by (auto simp: hex_digit_value_def lower_char_def hex_char_def is_upper_def is_digit_def
      split: if_splits)

end
