(* ===== verification/Keccak.thy ===== *)
theory Keccak
  imports PyText "HOL-Library.Word"
begin

unbundle bit_operations_syntax

text \<open>
  The pure-Python keccak-256 of \<^verbatim>\<open>airdrop/tools/common.py\<close> and
  \<^verbatim>\<open>contract_review_lib.py\<close> (the two copies are the same code). Bytes are 8-bit words and
  the 25 lanes of the sponge are 64-bit words: every lane of the source is masked to 64 bits.
\<close>

type_synonym byte = "8 word"
type_synonym bytes = "byte list"
type_synonym lane = "64 word"

section \<open>Byte strings\<close>

text \<open>\<^verbatim>\<open>int.from_bytes(b, "little")\<close>, \<^verbatim>\<open>int.from_bytes(b, "big")\<close> and
  \<^verbatim>\<open>n.to_bytes(k, ...)\<close> for a value that fits.\<close>

fun from_bytes_little :: "bytes \<Rightarrow> nat" where
  "from_bytes_little [] = 0"
| "from_bytes_little (b # bs) = unat b + 256 * from_bytes_little bs"

fun to_bytes_little :: "nat \<Rightarrow> nat \<Rightarrow> bytes" where
  "to_bytes_little 0 n = []"
| "to_bytes_little (Suc k) n = word_of_nat (n mod 256) # to_bytes_little k (n div 256)"

definition from_bytes_big :: "bytes \<Rightarrow> nat" where
  "from_bytes_big bs = from_bytes_little (rev bs)"

definition to_bytes_big :: "nat \<Rightarrow> nat \<Rightarrow> bytes" where
  "to_bytes_big k n = rev (to_bytes_little k n)"

text \<open>The same little-endian conversions for a 64-bit lane.\<close>

fun lane_of_bytes :: "bytes \<Rightarrow> lane" where
  "lane_of_bytes [] = 0"
| "lane_of_bytes (b # bs) = ucast b + 256 * lane_of_bytes bs"

definition bytes_of_lane :: "lane \<Rightarrow> bytes" where
  "bytes_of_lane w = map (\<lambda>k. ucast (drop_bit (8 * k) w)) [0..<8]"

definition hex_byte :: "byte \<Rightarrow> string" where
  "hex_byte b = [hex_char (unat b div 16), hex_char (unat b mod 16)]"

text \<open>\<^verbatim>\<open>data.hex()\<close> and \<^verbatim>\<open>bytes.fromhex(text)\<close>; the latter skips ASCII white space
  between bytes.\<close>

definition hex_of :: "bytes \<Rightarrow> string" where
  "hex_of bs = concat (map hex_byte bs)"

definition is_hex_space :: "char \<Rightarrow> bool" where
  "is_hex_space c \<longleftrightarrow> (9 \<le> code c \<and> code c \<le> 13) \<or> code c = 32"

fun fromhex :: "string \<Rightarrow> bytes option" where
  "fromhex [] = Some []"
| "fromhex [c] = (if is_hex_space c then Some [] else None)"
| "fromhex (c # d # cs) =
     (if is_hex_space c then fromhex (d # cs)
      else (case (hex_digit_value c, hex_digit_value d, fromhex cs) of
        (Some h, Some l, Some bs) \<Rightarrow> Some (word_of_nat (16 * h + l) # bs)
      | _ \<Rightarrow> None))"

section \<open>The permutation\<close>

definition KECCAK_RC :: "lane list" where
  "KECCAK_RC =
    [0x0000000000000001, 0x0000000000008082, 0x800000000000808A, 0x8000000080008000,
     0x000000000000808B, 0x0000000080000001, 0x8000000080008081, 0x8000000000008009,
     0x000000000000008A, 0x0000000000000088, 0x0000000080008009, 0x000000008000000A,
     0x000000008000808B, 0x800000000000008B, 0x8000000000008089, 0x8000000000008003,
     0x8000000000008002, 0x8000000000000080, 0x000000000000800A, 0x800000008000000A,
     0x8000000080008081, 0x8000000000008080, 0x0000000080000001, 0x8000000080008008]"

definition KECCAK_ROT :: "nat list list" where
  "KECCAK_ROT =
    [[0, 36, 3, 41, 18],
     [1, 44, 10, 45, 2],
     [62, 6, 43, 15, 61],
     [28, 55, 25, 21, 56],
     [27, 20, 39, 8, 14]]"

definition MASK64 :: lane where
  "MASK64 = 0xFFFFFFFFFFFFFFFF"

definition rotl64 :: "lane \<Rightarrow> nat \<Rightarrow> lane" where
  "rotl64 v shift =
     (let s = shift mod 64 in (push_bit s v OR drop_bit (64 - s) v) AND MASK64)"

text \<open>The nested loop that fills \<^verbatim>\<open>b\<close>: one assignment per pair \<open>(x, y)\<close>.\<close>

definition rho_pi :: "lane list \<Rightarrow> lane list" where
  "rho_pi state =
     foldl (\<lambda>b (x, y). b[y + 5 * ((2 * x + 3 * y) mod 5) :=
               rotl64 (state ! (x + 5 * y)) (KECCAK_ROT ! x ! y)])
       (replicate 25 0) (List.product [0..<5] [0..<5])"

text \<open>The three other comprehensions of a round: column parities \<^verbatim>\<open>c\<close>, the mask
  \<^verbatim>\<open>d\<close>, and the last row step.\<close>

definition theta_c :: "lane list \<Rightarrow> lane list" where
  "theta_c state =
     map (\<lambda>x. state ! x XOR state ! (x + 5) XOR state ! (x + 10) XOR state ! (x + 15)
            XOR state ! (x + 20)) [0..<5]"

definition theta_d :: "lane list \<Rightarrow> lane list" where
  "theta_d c = map (\<lambda>x. c ! ((x + 4) mod 5) XOR rotl64 (c ! ((x + 1) mod 5)) 1) [0..<5]"

definition theta :: "lane list \<Rightarrow> lane list \<Rightarrow> lane list" where
  "theta state d = map (\<lambda>i. state ! i XOR d ! (i mod 5)) [0..<25]"

definition chi :: "lane list \<Rightarrow> lane list" where
  "chi b = map (\<lambda>i. b ! i XOR
       (NOT (b ! ((i mod 5 + 1) mod 5 + 5 * (i div 5))) AND
        b ! ((i mod 5 + 2) mod 5 + 5 * (i div 5)))) [0..<25]"

definition iota :: "lane \<Rightarrow> lane list \<Rightarrow> lane list" where
  "iota rc state = state[0 := state ! 0 XOR rc]"

definition keccak_round :: "lane list \<Rightarrow> lane \<Rightarrow> lane list" where
  "keccak_round state rc =
     iota rc (chi (rho_pi (theta state (theta_d (theta_c state)))))"

definition keccak_f :: "lane list \<Rightarrow> lane list" where
  "keccak_f state = foldl keccak_round state KECCAK_RC"

section \<open>The sponge\<close>

function pad_zeros :: "bytes \<Rightarrow> bytes" where
  "pad_zeros padded = (if length padded mod 136 \<noteq> 0 then pad_zeros (padded @ [0]) else padded)"
  by pat_completeness auto
termination
proof (relation "measure (\<lambda>p. (136 - length p mod 136) mod 136)")
  fix padded :: bytes
  assume "length padded mod 136 \<noteq> 0"
  then show "(padded @ [0], padded) \<in> measure (\<lambda>p. (136 - length p mod 136) mod 136)"
    by (auto simp: mod_Suc)
qed simp

declare pad_zeros.simps [simp del]

definition keccak_pad :: "bytes \<Rightarrow> bytes" where
  "keccak_pad data =
     (let padded = pad_zeros (data @ [0x01])
      in padded[length padded - 1 := last padded OR 0x80])"

definition absorb_block :: "lane list \<Rightarrow> bytes \<Rightarrow> lane list" where
  "absorb_block state block =
     keccak_f (foldl (\<lambda>s i. s[i := s ! i XOR
         lane_of_bytes (take 8 (drop (8 * i) block))]) state [0..<17])"

function absorb :: "lane list \<Rightarrow> bytes \<Rightarrow> lane list" where
  "absorb state padded =
     (if padded = [] then state
      else absorb (absorb_block state (take 136 padded)) (drop 136 padded))"
  by pat_completeness auto
termination
  by (relation "measure (\<lambda>(s, p). length p)") auto

declare absorb.simps [simp del]

definition keccak256_pure :: "bytes \<Rightarrow> bytes" where
  "keccak256_pure data =
     (let state = absorb (replicate 25 0) (keccak_pad data)
      in take 32 (concat (map (\<lambda>i. bytes_of_lane (state ! i)) [0..<4])))"

text \<open>The code hash that the scripts take as the mark of an account without code.\<close>

definition EMPTY_CODE_HASH :: string where
  "EMPTY_CODE_HASH = ''0xc5d2460186f7233c927e7db2dcc703c0e500b653ca82273b7bfad8045d85a470''"

section \<open>Shape of the sponge\<close>

lemma length_to_bytes_little [simp]: "length (to_bytes_little k n) = k"
  by (induction k arbitrary: n) simp_all

lemma length_to_bytes_big [simp]: "length (to_bytes_big k n) = k"
  by (simp add: to_bytes_big_def)

lemma length_rho_pi [simp]: "length (rho_pi s) = 25"
proof -
  have "length (foldl (\<lambda>b (x, y). b[f x y := g x y]) b xs) = length b"
    for f :: "nat \<Rightarrow> nat \<Rightarrow> nat" and g :: "nat \<Rightarrow> nat \<Rightarrow> lane" and b xs
    by (induction xs arbitrary: b) auto
  then show ?thesis by (simp add: rho_pi_def)
qed

lemma length_keccak_round [simp]: "length (keccak_round s rc) = 25"
  by (simp add: keccak_round_def iota_def chi_def)

lemma length_keccak_f: "length (keccak_f s) = 25"
proof -
  have "rcs \<noteq> [] \<Longrightarrow> length (foldl keccak_round s rcs) = 25" for rcs s
    by (induction rcs rule: rev_induct) auto
  then show ?thesis by (simp add: keccak_f_def KECCAK_RC_def)
qed

lemma length_absorb: "length s = 25 \<Longrightarrow> length (absorb s p) = 25"
proof (induction s p rule: absorb.induct)
  case (1 s p)
  show ?case
    by (subst absorb.simps) (use 1 in \<open>simp add: absorb_block_def length_keccak_f\<close>)
qed

lemma length_bytes_of_lane [simp]: "length (bytes_of_lane w) = 8"
  by (simp add: bytes_of_lane_def)

lemma length_keccak256_pure [simp]: "length (keccak256_pure d) = 32"
  by (simp add: keccak256_pure_def Let_def length_concat o_def numeral_eq_Suc)

lemma pad_zeros_eq: "pad_zeros p = p @ replicate ((136 - length p mod 136) mod 136) 0"
proof (induction p rule: pad_zeros.induct)
  case (1 p)
  show ?case
  proof (cases "length p mod 136 = 0")
    case True
    then show ?thesis by (subst pad_zeros.simps) simp
  next
    case False
    let ?n = "136 - length p mod 136"
    have n: "0 < ?n" "?n < 136" using False by auto
    have "(136 - length (p @ [0]) mod 136) mod 136 = ?n - 1" by (simp add: mod_Suc)
    with 1 False have "pad_zeros p = p @ 0 # replicate (?n - 1) 0"
      by (simp add: pad_zeros.simps [of p])
    also have "0 # replicate (?n - 1) 0 = replicate ?n (0 :: byte)"
      using n(1) by (cases ?n) simp_all
    finally show ?thesis using n(2) by simp
  qed
qed

lemma length_pad_zeros: "length (pad_zeros p) mod 136 = 0"
proof (induction p rule: pad_zeros.induct)
  case (1 p)
  then show ?case by (cases "length p mod 136 = 0") (simp_all add: pad_zeros.simps [of p])
qed

text \<open>The bytes that follow the data: \<open>0x81\<close> alone, or \<open>0x01\<close>, zeros and \<open>0x80\<close>.\<close>

lemma keccak_pad_cases:
  "keccak_pad d = d @ [0x81] \<or> (\<exists>k. keccak_pad d = d @ [0x01] @ replicate k 0 @ [0x80])"
proof -
  obtain k where k: "pad_zeros (d @ [0x01]) = (d @ [0x01]) @ replicate k 0"
    using pad_zeros_eq by blast
  show ?thesis
  proof (cases k)
    case 0
    with k show ?thesis by (simp add: keccak_pad_def list_update_append)
  next
    case (Suc j)
    then have "pad_zeros (d @ [0x01]) = (d @ [0x01] @ replicate j 0) @ [0]"
      using k by (simp add: replicate_append_same)
    then show ?thesis by (auto simp: keccak_pad_def list_update_append)
  qed
qed

lemma length_keccak_pad: "length (keccak_pad d) mod 136 = 0"
  using length_pad_zeros by (simp add: keccak_pad_def Let_def)

end
