(* ===== verification/KeccakRounds.thy ===== *)
theory KeccakRounds
  imports Keccak
begin

unbundle bit_operations_syntax

text \<open>
  Lemmas for known-answer tests of the pure-Python keccak-256 in the kernel. They write one round of
  the permutation out over 25 variables, so that the simplifier only has to compute on 64-bit numerals.
\<close>

lemma upto_5: "[0..<5] = [0, 1, 2, 3, 4 :: nat]"
  by code_simp

lemma upto_25: "[0..<25] =
   [0, 1, 2, 3, 4, 5, 6, 7, 8, 9, 10, 11, 12, 13, 14, 15, 16, 17, 18, 19, 20, 21, 22, 23, 24 :: nat]"
  by code_simp

lemma index_pairs: "List.product [0..<5] [0..<5 :: nat] =
   [(0, 0), (0, 1), (0, 2), (0, 3), (0, 4), (1, 0), (1, 1), (1, 2), (1, 3), (1, 4),
    (2, 0), (2, 1), (2, 2), (2, 3), (2, 4), (3, 0), (3, 1), (3, 2), (3, 3), (3, 4),
    (4, 0), (4, 1), (4, 2), (4, 3), (4, 4)]"
  by code_simp

lemma zero_lanes: "replicate 25 (0 :: lane) = [0, 0, 0, 0, 0, 0, 0, 0, 0, 0, 0, 0, 0, 0, 0, 0, 0, 0, 0, 0, 0, 0, 0, 0, 0]"
  by code_simp

lemma rho_pi_lanes:
  "rho_pi
   [a0, a1, a2, a3, a4, a5, a6, a7, a8, a9, a10, a11, a12,
    a13, a14, a15, a16, a17, a18, a19, a20, a21, a22, a23, a24] =
   [rotl64 a0 0, rotl64 a6 44, rotl64 a12 43, rotl64 a18 21,
    rotl64 a24 14, rotl64 a3 28, rotl64 a9 20, rotl64 a10 3,
    rotl64 a16 45, rotl64 a22 61, rotl64 a1 1, rotl64 a7 6,
    rotl64 a13 25, rotl64 a19 8, rotl64 a20 18, rotl64 a4 27,
    rotl64 a5 36, rotl64 a11 10, rotl64 a17 15, rotl64 a23 56,
    rotl64 a2 62, rotl64 a8 55, rotl64 a14 39, rotl64 a15 41,
    rotl64 a21 2]"
  by (simp add: rho_pi_def index_pairs zero_lanes KECCAK_ROT_def)

lemma chi_lanes:
  "chi
   [a0, a1, a2, a3, a4, a5, a6, a7, a8, a9, a10, a11, a12,
    a13, a14, a15, a16, a17, a18, a19, a20, a21, a22, a23, a24] =
   [a0 XOR (NOT a1 AND a2), a1 XOR (NOT a2 AND a3), a2 XOR (NOT a3 AND a4),
    a3 XOR (NOT a4 AND a0), a4 XOR (NOT a0 AND a1), a5 XOR (NOT a6 AND a7),
    a6 XOR (NOT a7 AND a8), a7 XOR (NOT a8 AND a9), a8 XOR (NOT a9 AND a5),
    a9 XOR (NOT a5 AND a6), a10 XOR (NOT a11 AND a12), a11 XOR (NOT a12 AND a13),
    a12 XOR (NOT a13 AND a14), a13 XOR (NOT a14 AND a10), a14 XOR (NOT a10 AND a11),
    a15 XOR (NOT a16 AND a17), a16 XOR (NOT a17 AND a18), a17 XOR (NOT a18 AND a19),
    a18 XOR (NOT a19 AND a15), a19 XOR (NOT a15 AND a16), a20 XOR (NOT a21 AND a22),
    a21 XOR (NOT a22 AND a23), a22 XOR (NOT a23 AND a24), a23 XOR (NOT a24 AND a20),
    a24 XOR (NOT a20 AND a21)]"
  by (simp add: chi_def upto_25)

lemma theta_lanes:
  "theta
   [a0, a1, a2, a3, a4, a5, a6, a7, a8, a9, a10, a11, a12,
    a13, a14, a15, a16, a17, a18, a19, a20, a21, a22, a23, a24]
   [d0, d1, d2, d3, d4] =
   [a0 XOR d0, a1 XOR d1, a2 XOR d2, a3 XOR d3, a4 XOR d4, a5 XOR d0,
    a6 XOR d1, a7 XOR d2, a8 XOR d3, a9 XOR d4, a10 XOR d0, a11 XOR d1,
    a12 XOR d2, a13 XOR d3, a14 XOR d4, a15 XOR d0, a16 XOR d1, a17 XOR d2,
    a18 XOR d3, a19 XOR d4, a20 XOR d0, a21 XOR d1, a22 XOR d2, a23 XOR d3,
    a24 XOR d4]"
  by (simp add: theta_def upto_25)

lemma theta_c_lanes:
  "theta_c
   [a0, a1, a2, a3, a4, a5, a6, a7, a8, a9, a10, a11, a12,
    a13, a14, a15, a16, a17, a18, a19, a20, a21, a22, a23, a24] =
   [a0 XOR a5 XOR a10 XOR a15 XOR a20, a1 XOR a6 XOR a11 XOR a16 XOR a21,
    a2 XOR a7 XOR a12 XOR a17 XOR a22, a3 XOR a8 XOR a13 XOR a18 XOR a23,
    a4 XOR a9 XOR a14 XOR a19 XOR a24]"
  by (simp add: theta_c_def upto_5)

lemma theta_d_lanes:
  "theta_d [a0, a1, a2, a3, a4] =
   [a4 XOR rotl64 a1 1, a0 XOR rotl64 a2 1, a1 XOR rotl64 a3 1,
    a2 XOR rotl64 a4 1, a3 XOR rotl64 a0 1]"
  by (simp add: theta_d_def upto_5)

lemmas keccak_eval = keccak_round_def iota_def rho_pi_lanes chi_lanes theta_lanes theta_c_lanes
  theta_d_lanes rotl64_def MASK64_def Let_def

lemma upto_17: "[0..<17] = [0, 1, 2, 3, 4, 5, 6, 7, 8, 9, 10, 11, 12, 13, 14, 15, 16 :: nat]"
  by code_simp

lemma lane_of_bytes_zeros [simp]: "lane_of_bytes (replicate k 0) = 0"
  by (induction k) simp_all

lemma lane_of_bytes_last: "lane_of_bytes (replicate 7 0 @ [0x80]) = 0x8000000000000000"
  by code_simp

text \<open>A message whose padding is one block.\<close>

lemma keccak256_pure_one_block:
  assumes "length (keccak_pad d) = 136" "take 4 (absorb_block (replicate 25 0) (keccak_pad d)) = ls" "length ls = 4"
  shows "keccak256_pure d = concat (map bytes_of_lane ls)"
proof -
  let ?state = "absorb (replicate 25 0) (keccak_pad d)"
  have state: "?state = absorb_block (replicate 25 0) (keccak_pad d)"
    using assms(1) by (subst absorb.simps, subst absorb.simps) auto
  have four: "map (\<lambda>i. bytes_of_lane (?state ! i)) [0..<4] = map bytes_of_lane (take 4 ?state)"
    by (rule nth_equalityI) (simp_all add: length_absorb)
  obtain a b c e where "ls = [a, b, c, e]" using assms(3) by (auto simp: eval_nat_numeral length_Suc_conv)
  then have len: "length (concat (map bytes_of_lane ls)) = 32" by simp
  have "keccak256_pure d = take 32 (concat (map bytes_of_lane (take 4 ?state)))"
    by (simp only: keccak256_pure_def Let_def four)
  then show ?thesis unfolding state assms(2) using len by simp
qed

end
