(* ===== verification/KeccakVector.thy ===== *)
theory KeccakVector
  imports KeccakRounds
begin

unbundle bit_operations_syntax

text \<open>
  A known-answer test of the pure-Python keccak-256, evaluated in the kernel: the hash of the empty
  byte string.
\<close>

lemma keccak_f_empty_block:
  "take 4 (foldl keccak_round
     [1, 0, 0, 0, 0, 0, 0, 0, 0, 0, 0, 0, 0, 0, 0, 0, 0x8000000000000000, 0, 0, 0, 0, 0, 0, 0, 0]
     KECCAK_RC) =
   [0x3c23f7860146d2c5, 0xc003c7dcb27d7e92, 0x3b2782ca53b600e5, 0x70a4855d04d8fa7b]"
  unfolding KECCAK_RC_def by (simp add: keccak_eval)

lemma empty_padded: "keccak_pad [] = 0x01 # replicate 134 0 @ [0x80]"
proof -
  have "pad_zeros [0x01] = (0x01 # replicate 134 0) @ [0]"
    using replicate_Suc [of 134 "0 :: byte"] by (simp add: pad_zeros_eq replicate_append_same)
  then show ?thesis by (simp add: keccak_pad_def list_update_append)
qed

lemma empty_block_lanes:
  "foldl (\<lambda>s i. s[i := s ! i XOR lane_of_bytes (take 8 (drop (8 * i) (0x01 # replicate 134 0 @ [0x80])))])
     (replicate 25 0) [0..<17] =
   [1, 0, 0, 0, 0, 0, 0, 0, 0, 0, 0, 0, 0, 0, 0, 0, 0x8000000000000000, 0, 0, 0, 0, 0, 0, 0, 0]"
  by (simp add: upto_17 zero_lanes take_Cons' lane_of_bytes_zeros lane_of_bytes_last)

lemma keccak256_pure_empty_lanes:
  "take 4 (absorb_block (replicate 25 0) (keccak_pad [])) =
   [0x3c23f7860146d2c5, 0xc003c7dcb27d7e92, 0x3b2782ca53b600e5, 0x70a4855d04d8fa7b]"
  using keccak_f_empty_block by (simp add: absorb_block_def empty_padded empty_block_lanes keccak_f_def)

lemma empty_digest_hex:
  "''0x'' @ hex_of (concat (map bytes_of_lane
     [0x3c23f7860146d2c5, 0xc003c7dcb27d7e92, 0x3b2782ca53b600e5, 0x70a4855d04d8fa7b])) = EMPTY_CODE_HASH"
  by code_simp

text \<open>The pure Python hash of the empty code is the constant that the census and the eligibility
  policy compare code hashes with: the padding, the absorption of one block, the 24 rounds and the
  little-endian output of the implementation agree with Ethereum's Keccak-256 on it.\<close>

theorem keccak256_pure_empty_code: "''0x'' @ hex_of (keccak256_pure []) = EMPTY_CODE_HASH"
proof -
  have "length (keccak_pad []) = 136" by (simp add: empty_padded)
  from keccak256_pure_one_block [OF this keccak256_pure_empty_lanes] show ?thesis using empty_digest_hex by simp
qed

end
