(* ===== verification/Amounts.thy ===== *)
theory Amounts
  imports PyText
begin

text \<open>
  Token amounts as text: the recipient-list parser and printer of
  \<^verbatim>\<open>airdrop/tools/common.py\<close> (with the arithmetic of Python's \<^verbatim>\<open>decimal\<close> in its
  default context), the exact threshold parser \<^verbatim>\<open>parse_one\<close> of the claim scripts, the
  fixed-point printers of the ledgers, and the signed ONE strings of the contract review.
\<close>

definition ATTO_PER_ONE :: int where
  "ATTO_PER_ONE = 10 ^ 18"

section \<open>Exact ONE text\<close>

definition parse_one :: "string \<Rightarrow> int result" where
  "parse_one value =
     (let text = strip value in
      case partition_at (CHR ''.'') text of (whole, dot, fraction) \<Rightarrow>
        if \<not> isdigit whole \<or> (dot \<and> \<not> isdigit fraction) \<or> length fraction > 18
        then Inl (ArgumentTypeError ''invalid exact ONE value'')
        else bindR (py_int whole) (\<lambda>w.
          bindR (py_int (ljust_zero 18 fraction)) (\<lambda>f. Inr (w * ATTO_PER_ONE + f))))"

definition decimal_string :: "int \<Rightarrow> nat \<Rightarrow> string result" where
  "decimal_string value scale =
     (if value < 0 then Inl (ValueError ''negative decimal value'')
      else Inr (str_int (value div 10 ^ scale) @ CHR ''.'' #
                zfill scale (str_int (value mod 10 ^ scale))))"

definition one_string :: "int \<Rightarrow> string result" where
  "one_string atto = decimal_string atto 18"

definition PRICE_NUMERATOR :: int where
  "PRICE_NUMERATOR = 74801"

definition usd_string :: "int \<Rightarrow> string result" where
  "usd_string atto = decimal_string (atto * PRICE_NUMERATOR) 26"

definition strict_over_one_usd :: "int \<Rightarrow> bool" where
  "strict_over_one_usd atto \<longleftrightarrow> atto * PRICE_NUMERATOR > 10 ^ 26"

definition atto_to_one_str :: "int \<Rightarrow> string" where
  "atto_to_one_str value =
     (let v = \<bar>value\<bar>;
          text = str_int (v div 10 ^ 18) @ CHR ''.'' # zfill 18 (str_int (v mod 10 ^ 18))
      in if value < 0 then CHR ''-'' # text else text)"

definition one_str_to_atto :: "string \<Rightarrow> int result" where
  "one_str_to_atto value =
     (let text = strip (if value = [] then ''0'' else value);
          negative = startswith text ''-'';
          text = (if negative then drop 1 text else text)
      in case partition_at (CHR ''.'') text of (whole, separator, fraction) \<Rightarrow>
        if whole = [] \<or> \<not> isdigit whole then Inl (ValueError ''invalid ONE amount'')
        else if separator \<and> (fraction = [] \<or> \<not> isdigit fraction)
        then Inl (ValueError ''invalid ONE amount'')
        else if length fraction > 18 then Inl (ValueError ''ONE amount exceeds 18 decimals'')
        else bindR (py_int whole) (\<lambda>w. bindR (py_int (ljust_zero 18 fraction)) (\<lambda>f.
          let atto = w * 10 ^ 18 + f in Inr (if negative then - atto else atto))))"

definition format_units :: "int \<Rightarrow> nat \<Rightarrow> string" where
  "format_units raw decimals =
     (let sign = (if raw < 0 then ''-'' else []);
          whole = \<bar>raw\<bar> div 10 ^ decimals; fraction = \<bar>raw\<bar> mod 10 ^ decimals
      in if decimals = 0 then sign @ str_int whole
         else sign @ str_int whole @ CHR ''.'' # zfill decimals (str_int fraction))"

section \<open>Python's decimal arithmetic\<close>

text \<open>
  A finite \<^verbatim>\<open>Decimal\<close> is a sign, a coefficient and an exponent. \<^verbatim>\<open>Decimal(text)\<close>
  is exact; the product is finalised in the default context: 28 digits, round half to even,
  exponents between \<open>-999999\<close> and \<open>999999\<close>, overflow raised.
\<close>

datatype pydec = Finite bool nat int | NotFinite

definition split_exponent :: "string \<Rightarrow> string \<times> string option" where
  "split_exponent s =
     (case partition_at (CHR ''e'') (lower s) of (m, b, x) \<Rightarrow> (m, if b then Some x else None))"

definition exponent_value :: "string option \<Rightarrow> int option" where
  "exponent_value x =
     (case x of None \<Rightarrow> Some 0
      | Some [] \<Rightarrow> None
      | Some (c # cs) \<Rightarrow>
          if c = CHR ''-'' then (if isdigit cs then Some (- int (digits_value cs)) else None)
          else if c = CHR ''+'' then (if isdigit cs then Some (int (digits_value cs)) else None)
          else (if isdigit (c # cs) then Some (int (digits_value (c # cs))) else None))"

definition dec_body :: "bool \<Rightarrow> string \<Rightarrow> pydec option" where
  "dec_body neg s =
     (let l = lower s; n = (if startswith l ''s'' then drop 1 l else l) in
      if l = ''inf'' \<or> l = ''infinity'' then Some NotFinite
      else if startswith n ''nan'' \<and> list_all is_digit (drop 3 n) then Some NotFinite
      else (case split_exponent s of (m, x) \<Rightarrow>
        case partition_at (CHR ''.'') m of (w, d, f) \<Rightarrow>
          if list_all is_digit w \<and> list_all is_digit f \<and> (w \<noteq> [] \<or> f \<noteq> [])
          then map_option (\<lambda>e. Finite neg (digits_value (w @ f)) (e - int (length f)))
                 (exponent_value x)
          else None))"

definition dec_parse :: "string \<Rightarrow> pydec option" where
  "dec_parse s =
     (case s of
        [] \<Rightarrow> None
      | c # cs \<Rightarrow>
          if c = CHR ''-'' then dec_body True cs
          else if c = CHR ''+'' then dec_body False cs
          else dec_body False s)"

definition ndigits :: "nat \<Rightarrow> nat" where
  "ndigits n = length (str_nat n)"

definition round_half_even :: "nat \<Rightarrow> nat \<Rightarrow> nat" where
  "round_half_even c d =
     (let q = c div 10 ^ d; r = c mod 10 ^ d in
      if 2 * r > 10 ^ d \<or> (2 * r = 10 ^ d \<and> odd q) then q + 1 else q)"

definition dec_fix :: "nat \<Rightarrow> int \<Rightarrow> (nat \<times> int) result" where
  "dec_fix c e =
     (let Emax = 999999; Etiny = -1000026; Etop = 999972 in
      if c = 0 then Inr (0, min (max e Etiny) Emax)
      else let exp_min = int (ndigits c) + e - 28 in
        if exp_min > Etop then Inl DecimalOverflow
        else let em = max exp_min Etiny in
          if e < em then
            let q = round_half_even c (nat (em - e)) in
            if ndigits q > 28 then
              if em + 1 > Etop then Inl DecimalOverflow else Inr (q div 10, em + 1)
            else Inr (q, em)
          else Inr (c, e))"

definition dec_is_integral :: "nat \<times> int \<Rightarrow> bool" where
  "dec_is_integral x = (case x of (c, e) \<Rightarrow> e \<ge> 0 \<or> c mod 10 ^ nat (- e) = 0)"

definition dec_to_int :: "bool \<Rightarrow> nat \<times> int \<Rightarrow> int" where
  "dec_to_int neg x =
     (case x of (c, e) \<Rightarrow>
        let m = int (if e \<ge> 0 then c * 10 ^ nat e else c div 10 ^ nat (- e))
        in if neg then - m else m)"

section \<open>Recipient amounts\<close>

definition parse_amount :: "string \<Rightarrow> string \<Rightarrow> int result" where
  "parse_amount value unit =
     (let text = remove_char (CHR ''_'') (remove_char (CHR '','') (strip value)) in
      if text = [] then Inl (InputError ''empty amount'')
      else bindR
        (if unit = ''atto'' then
           if \<not> isdigit text then Inl (InputError ''atto amounts must be whole numbers'')
           else py_int text
         else if unit = ''one'' then
           (case dec_parse text of
              None \<Rightarrow> Inl (InputError ''not a decimal number'')
            | Some NotFinite \<Rightarrow> Inl (InputError ''not a finite number'')
            | Some (Finite neg c e) \<Rightarrow>
                bindR (dec_fix (c * 10 ^ 18) e) (\<lambda>scaled.
                  if \<not> dec_is_integral scaled
                  then Inl (InputError ''more than 18 decimal places'')
                  else Inr (dec_to_int neg scaled)))
         else Inl (InputError ''unknown amount unit''))
        (\<lambda>amount. if amount \<le> 0 then Inl (InputError ''amount must be positive'')
                  else Inr amount))"

text \<open>Thousands separators, as the format \<^verbatim>\<open>{n:,}\<close> writes them (on reversed digits).\<close>

fun group3 :: "string \<Rightarrow> string" where
  "group3 (a # b # c # d # rest) = a # b # c # CHR '','' # group3 (d # rest)"
| "group3 xs = xs"

definition commas :: "int \<Rightarrow> string" where
  "commas n = (if n < 0 then CHR ''-'' # rev (group3 (rev (str_nat (nat (- n)))))
               else rev (group3 (rev (str_nat (nat n)))))"

definition rstrip_zero :: "string \<Rightarrow> string" where
  "rstrip_zero s = rev (dropWhile (\<lambda>c. c = CHR ''0'') (rev s))"

definition format_one :: "int \<Rightarrow> string" where
  "format_one atto =
     (let whole = atto div ATTO_PER_ONE; frac = atto mod ATTO_PER_ONE in
      if frac = 0 then commas whole
      else commas whole @ CHR ''.'' # rstrip_zero (zfill 18 (str_int frac)))"

section \<open>Digit counts\<close>

lemma ndigits_le_iff: "0 < k \<Longrightarrow> ndigits n \<le> k \<longleftrightarrow> n < 10 ^ k"
proof
  assume "0 < k" "ndigits n \<le> k"
  have "n < 10 ^ ndigits n"
    using digits_value_bound [OF str_nat_digits, of n] by (simp add: ndigits_def)
  also have "\<dots> \<le> 10 ^ k" using \<open>ndigits n \<le> k\<close> by simp
  finally show "n < 10 ^ k" .
qed (simp add: ndigits_def length_str_nat_le)

lemma ndigits_pos [simp]: "0 < ndigits n"
  by (simp add: ndigits_def)

lemma ndigits_mult_10: "0 < n \<Longrightarrow> ndigits (n * 10) = Suc (ndigits n)"
  unfolding ndigits_def by (subst str_nat.simps) simp

lemma ndigits_mult_pow: "0 < n \<Longrightarrow> ndigits (n * 10 ^ k) = ndigits n + k"
proof (induction k)
  case (Suc k)
  have "ndigits (n * 10 ^ k * 10) = Suc (ndigits (n * 10 ^ k))"
    using Suc.prems by (intro ndigits_mult_10) simp
  with Suc show ?case by (simp add: ac_simps)
qed simp

text \<open>A product whose significant digits fit the context is not rounded.\<close>

lemma dec_fix_exact:
  assumes m: "m < 10 ^ 28" and e: "-1000026 \<le> e" "e + int k \<le> 999900"
  shows "\<exists>q e'. dec_fix (m * 10 ^ k) e = Inr (q, e') \<and> e \<le> e' \<and> q * 10 ^ nat (e' - e) = m * 10 ^ k"
proof (cases "m = 0")
  case True
  have "dec_fix 0 e = Inr (0, e)" using e by (simp add: dec_fix_def)
  with True show ?thesis by simp
next
  case False
  then have "0 < m" by simp
  define c where "c = m * 10 ^ k"
  have nm: "ndigits m \<le> 28" using m by (simp add: ndigits_le_iff)
  have nc: "ndigits c = ndigits m + k" unfolding c_def by (rule ndigits_mult_pow [OF \<open>0 < m\<close>])
  have c0: "c \<noteq> 0" using False by (simp add: c_def)
  show ?thesis
  proof (cases "ndigits c \<le> 28")
    case True
    then have "dec_fix c e = Inr (c, e)"
      using c0 e nc nm by (auto simp: dec_fix_def Let_def max_def)
    then show ?thesis by (auto simp: c_def)
  next
    case False
    define d where "d = ndigits c - 28"
    have dk: "d \<le> k" using nm nc by (simp add: d_def)
    have dpos: "0 < d" using False by (simp add: d_def)
    have cd: "c = (m * 10 ^ (k - d)) * 10 ^ d"
      using dk by (simp add: c_def mult.assoc flip: power_add)
    let ?q = "m * 10 ^ (k - d)"
    have r: "round_half_even c d = ?q"
      unfolding cd by (simp add: round_half_even_def)
    have nq: "ndigits ?q = 28"
      using ndigits_mult_pow [OF \<open>0 < m\<close>, of "k - d"] dk nc False by (simp add: d_def)
    have em: "max (int (ndigits c) + e - 28) (-1000026) = e + int d"
      using e False by (simp add: d_def)
    have top: "\<not> int (ndigits c) + e - 28 > 999972" using e nc nm by linarith
    have "dec_fix c e = Inr (?q, e + int d)"
      unfolding dec_fix_def Let_def em using c0 top dpos by (simp add: r nq)
    moreover have "?q * 10 ^ d = m * 10 ^ k" unfolding cd [symmetric] c_def ..
    ultimately show ?thesis by (auto simp: c_def)
  qed
qed

text \<open>A product with more digits is rounded to 28 of them, half to even.\<close>

lemma round_half_even_scale: "round_half_even (n * 10 ^ j) (k + j) = round_half_even n k"
proof -
  have p: "10 ^ (k + j) = (10 ^ k * 10 ^ j :: nat)" by (simp add: power_add)
  have "n * 10 ^ j div 10 ^ (k + j) = n div 10 ^ k" "n * 10 ^ j mod 10 ^ (k + j) = n mod 10 ^ k * 10 ^ j"
    unfolding p by (simp_all add: mult_mod_left)
  then show ?thesis by (simp add: round_half_even_def p Let_def)
qed

lemma round_half_even_near:
  fixes n k :: nat
  defines "v \<equiv> int (round_half_even n k) * 10 ^ k"
  shows "10 ^ k dvd v" "2 * \<bar>v - int n\<bar> \<le> 10 ^ k" "2 * \<bar>v - int n\<bar> = 10 ^ k \<longrightarrow> even (v div 10 ^ k)" "v = int n \<longleftrightarrow> 10 ^ k dvd n"
proof -
  define q r where "q = n div 10 ^ k" and "r = n mod 10 ^ k"
  have n: "int n = int q * 10 ^ k + int r" unfolding q_def r_def
    by (metis (no_types, lifting) div_mult_mod_eq mult.commute of_nat_add of_nat_mult of_nat_numeral of_nat_power)
  have r: "int r < 10 ^ k" unfolding r_def by (metis mod_less_divisor of_nat_less_iff of_nat_numeral of_nat_power zero_less_numeral zero_less_power)
  have up: "round_half_even n k = (if 2 * r > 10 ^ k \<or> (2 * r = 10 ^ k \<and> odd q) then q + 1 else q)"
    by (simp add: round_half_even_def q_def r_def Let_def)
  have lt: "2 * r > 10 ^ k \<longleftrightarrow> 2 * int r > 10 ^ k" "2 * r = 10 ^ k \<longleftrightarrow> 2 * int r = 10 ^ k"
    using of_nat_less_iff [of "10 ^ k" "2 * r", where 'a = int] of_nat_eq_iff [of "2 * r" "10 ^ k", where 'a = int] by simp_all
  show "10 ^ k dvd v" by (simp add: v_def)
  have diff: "v - int n = (if 2 * int r > 10 ^ k \<or> (2 * int r = 10 ^ k \<and> odd q) then 10 ^ k - int r else - int r)"
    unfolding v_def up lt n by (simp add: algebra_simps)
  show "2 * \<bar>v - int n\<bar> \<le> 10 ^ k" unfolding diff using r by auto
  have half: "v div 10 ^ k = int (round_half_even n k)" by (simp add: v_def)
  show "2 * \<bar>v - int n\<bar> = 10 ^ k \<longrightarrow> even (v div 10 ^ k)" unfolding half diff up lt using r by auto
  have "10 ^ k dvd n \<longleftrightarrow> r = 0" by (simp add: r_def dvd_eq_mod_eq_0)
  moreover have "v = int n \<longleftrightarrow> r = 0"
  proof -
    have "v = int n \<longleftrightarrow> v - int n = 0" by simp
    then show ?thesis unfolding diff using r by (cases "r = 0") auto
  qed
  ultimately show "v = int n \<longleftrightarrow> 10 ^ k dvd n" by simp
qed

lemma dec_fix_rounds:
  assumes n: "10 ^ (27 + k) \<le> n" "n < 10 ^ (28 + k)" and k: "0 < k" "k \<le> 900000" and l: "l \<le> 18"
  shows "\<exists>q e. dec_fix (n * 10 ^ 18) (- int l) = Inr (q, e) \<and> 0 \<le> e \<and> q * 10 ^ nat e = round_half_even n k * 10 ^ (k + 18 - l)"
proof -
  have pos: "0 < n" by (rule less_le_trans [OF _ n(1)]) simp
  have "ndigits n = 28 + k"
    using ndigits_le_iff [of "28 + k" n] ndigits_le_iff [of "27 + k" n] n k by fastforce
  then have nd: "ndigits (n * 10 ^ 18) = 46 + k" using ndigits_mult_pow [OF pos, of 18] by simp
  define c where "c = n * 10 ^ 18"
  have c: "c \<noteq> 0" "round_half_even c (k + 18) = round_half_even n k" using pos unfolding c_def round_half_even_scale by simp_all
  note nd = nd [folded c_def]
  let ?q = "round_half_even n k"
  have em: "max (int (ndigits c) + - int l - 28) (-1000026) = int (k + 18 - l)" using l by (simp add: nd)
  have d: "nat (int (k + 18 - l) - - int l) = k + 18" using l by simp
  have top: "\<not> int (ndigits c) + - int l - 28 > 999972" using k l by (simp add: nd)
  have low: "- int l < int (k + 18 - l)" using k l by simp
  have fix': "dec_fix (n * 10 ^ 18) (- int l) =
      (if ndigits ?q > 28 then Inr (?q div 10, int (k + 18 - l) + 1) else Inr (?q, int (k + 18 - l)))"
    unfolding c_def [symmetric] dec_fix_def Let_def em d using c top low k l by simp
  show ?thesis
  proof (cases "ndigits ?q > 28")
    case True
    have "n div 10 ^ k < 10 ^ 28" using n(2) by (simp add: less_mult_imp_div_less power_add)
    then have "?q \<le> 10 ^ 28" by (simp add: round_half_even_def Let_def)
    moreover have "\<not> ?q < 10 ^ 28" using True ndigits_le_iff [of 28 ?q] by simp
    ultimately have q: "?q = 10 ^ 28" by simp
    have e: "nat (int (k + 18 - l) + 1) = Suc (k + 18 - l)" by simp
    show ?thesis unfolding fix' using True by (intro exI [of _ "?q div 10"] exI [of _ "int (k + 18 - l) + 1"]) (simp add: q e)
  next
    case False
    then show ?thesis unfolding fix' by (intro exI [of _ ?q] exI [of _ "int (k + 18 - l)"]) simp
  qed
qed

lemma scaled_value:
  assumes q: "q * 10 ^ nat (e' - - int l) = c * 10 ^ 18" and l: "l \<le> 18" and e: "- int l \<le> e'"
  shows "dec_is_integral (q, e') \<and> dec_to_int False (q, e') = int (c * 10 ^ (18 - l))"
proof (cases "0 \<le> e'")
  case True
  then have n: "nat (e' - - int l) = nat e' + l" by simp
  have "q * 10 ^ nat e' * 10 ^ l = c * 10 ^ (18 - l) * 10 ^ l"
    using q l unfolding n by (simp add: power_add mult.assoc flip: power_add)
  then have "q * 10 ^ nat e' = c * 10 ^ (18 - l)" by simp
  with True show ?thesis by (simp add: dec_is_integral_def dec_to_int_def)
next
  case False
  define j where "j = nat (- e')"
  have jl: "j \<le> l" and n: "nat (e' - - int l) = l - j" using False e by (auto simp: j_def)
  have "q * 10 ^ (l - j) = c * 10 ^ (18 - l) * 10 ^ j * 10 ^ (l - j)"
    using q l jl unfolding n by (simp add: mult.assoc flip: power_add)
  then have qq: "q = c * 10 ^ (18 - l) * 10 ^ j" by simp
  with False show ?thesis by (simp add: dec_is_integral_def dec_to_int_def flip: j_def)
qed

section \<open>Plain decimal text\<close>

text \<open>The shape that amounts have in recipient lists: digits, and optionally a point and digits.\<close>

definition plain_text :: "string \<Rightarrow> string \<Rightarrow> string" where
  "plain_text w f = (if f = [] then w else w @ CHR ''.'' # f)"

lemma digits_lower: "list_all is_digit s \<Longrightarrow> lower s = s"
  by (induction s) (auto simp: lower_char_def is_upper_def is_digit_def)

lemma digit_neq_chars:
  "is_digit c \<Longrightarrow> c \<noteq> CHR ''.'' \<and> c \<noteq> CHR ''e'' \<and> c \<noteq> CHR '','' \<and> c \<noteq> CHR ''_'' \<and> c \<noteq> CHR ''i'' \<and> c \<noteq> CHR ''n'' \<and> c \<noteq> CHR ''s''"
  by (auto simp: is_digit_def)

lemma plain_lower: "list_all is_digit w \<Longrightarrow> list_all is_digit f \<Longrightarrow> lower (plain_text w f) = plain_text w f"
  by (auto simp: plain_text_def digits_lower lower_char_def is_upper_def)

lemma plain_chars:
  assumes "list_all is_digit w" "list_all is_digit f" "c \<in> set (plain_text w f)"
  shows "is_digit c \<or> c = CHR ''.''"
  using assms by (auto simp: plain_text_def list_all_iff split: if_splits)

lemma plain_not_in:
  assumes "list_all is_digit w" "list_all is_digit f" "c \<in> {CHR ''e'', CHR '','', CHR ''_''}"
  shows "c \<notin> set (plain_text w f)"
  using plain_chars [OF assms(1,2), of c] assms(3) by (auto simp: is_digit_def)

lemma partition_plain:
  assumes "list_all is_digit w"
  shows "partition_at (CHR ''.'') (plain_text w f) = (w, f \<noteq> [], f)"
proof -
  have "CHR ''.'' \<notin> set w" using assms by (auto simp: list_all_iff is_digit_def)
  then show ?thesis by (simp add: plain_text_def partition_at_append partition_at_none)
qed

lemma plain_no_space:
  assumes "list_all is_digit w" "list_all is_digit f"
  shows "list_all (\<lambda>c. \<not> is_space c) (plain_text w f)"
  unfolding list_all_iff
proof
  fix c assume "c \<in> set (plain_text w f)"
  from plain_chars [OF assms this] show "\<not> is_space c"
    using is_digit_not_space [of c] by (auto simp: is_space_def)
qed

lemma strip_plain:
  "list_all is_digit w \<Longrightarrow> list_all is_digit f \<Longrightarrow> strip (plain_text w f) = plain_text w f"
  by (intro strip_no_space plain_no_space)

lemma dec_parse_plain:
  assumes w: "isdigit w" and f: "list_all is_digit f"
  shows "dec_parse (plain_text w f) = Some (Finite False (digits_value (w @ f)) (- int (length f)))"
proof -
  from w have wd: "list_all is_digit w" and w0: "w \<noteq> []" by (auto simp: isdigit_def)
  obtain c cs where t: "plain_text w f = c # cs" and c: "is_digit c"
  proof (cases w)
    case (Cons a v)
    then have "plain_text w f = a # plain_text v f" by (simp add: plain_text_def)
    then show thesis using that Cons wd by simp
  qed (use w0 in simp)
  have l: "lower (plain_text w f) = plain_text w f" by (rule plain_lower [OF wd f])
  have x: "split_exponent (plain_text w f) = (plain_text w f, None)"
    using plain_not_in [OF wd f] by (simp add: split_exponent_def l partition_at_none)
  have "dec_body False (plain_text w f) = Some (Finite False (digits_value (w @ f)) (- int (length f)))"
    using digit_neq_chars [OF c] wd f w0
    by (simp add: dec_body_def l x Let_def partition_plain exponent_value_def)
       (simp add: t startswith_def)
  moreover have "dec_parse (plain_text w f) = dec_body False (plain_text w f)"
    using is_digit_sign [OF c] by (simp add: dec_parse_def t)
  ultimately show ?thesis by simp
qed

lemma remove_char_id: "c \<notin> set s \<Longrightarrow> remove_char c s = s"
  unfolding remove_char_def by (rule filter_True) auto

lemma remove_commas_plain:
  assumes "list_all is_digit w" "list_all is_digit f" "remove_char (CHR '','') t = plain_text w f"
  shows "remove_char (CHR ''_'') (remove_char (CHR '','') t) = plain_text w f"
  using plain_not_in [OF assms(1,2), of "CHR ''_''"] by (simp add: assms(3) remove_char_id)

text \<open>The recipient-list parser is exact on plain text of at most 28 digits.\<close>

lemma parse_amount_plain:
  assumes w: "isdigit w" and f: "list_all is_digit f" and lf: "length f \<le> 18"
    and n: "length w + length f \<le> 28"
    and t: "remove_char (CHR '','') (strip t) = plain_text w f"
    and pos: "0 < digits_value (w @ f)"
  shows "parse_amount t ''one'' =
    Inr (int (digits_value w) * ATTO_PER_ONE + int (digits_value f) * 10 ^ (18 - length f))"
proof -
  from w have wd: "list_all is_digit w" and w0: "w \<noteq> []" by (auto simp: isdigit_def)
  let ?c = "digits_value (w @ f)"
  have "?c < 10 ^ length (w @ f)" using wd f by (intro digits_value_bound) simp
  also have "\<dots> \<le> 10 ^ 28" using n by (intro power_increasing) simp_all
  finally have c: "?c < 10 ^ 28" .
  obtain q e' where fixq: "dec_fix (?c * 10 ^ 18) (- int (length f)) = Inr (q, e')"
    and e': "- int (length f) \<le> e'"
    and q: "q * 10 ^ nat (e' - - int (length f)) = ?c * 10 ^ 18"
    using dec_fix_exact [OF c, of "- int (length f)" 18] lf by auto
  from scaled_value [OF q lf e'] have int: "dec_is_integral (q, e')"
    and val: "dec_to_int False (q, e') = int (?c * 10 ^ (18 - length f))" by auto
  have t': "remove_char (CHR ''_'') (remove_char (CHR '','') (strip t)) = plain_text w f"
    by (rule remove_commas_plain [OF wd f t])
  have ne: "plain_text w f \<noteq> []" using w0 by (simp add: plain_text_def)
  have split: "int (?c * 10 ^ (18 - length f)) =
      int (digits_value w) * ATTO_PER_ONE + int (digits_value f) * 10 ^ (18 - length f)"
    using lf by (simp add: digits_value_append ATTO_PER_ONE_def distrib_right mult.assoc
        flip: power_add)
  have "0 < ?c * 10 ^ (18 - length f)" using pos by simp
  then have pos': "\<not> int (?c * 10 ^ (18 - length f)) \<le> 0" by linarith
  have "parse_amount t ''one'' = Inr (int (?c * 10 ^ (18 - length f)))"
    unfolding parse_amount_def t' Let_def dec_parse_plain [OF w f]
    using ne int val pos' by (simp add: fixq del: of_nat_mult power_numeral numeral_power_eq_of_nat_cancel_iff)
  then show ?thesis by (simp only: split)
qed

lemma parse_one_plain:
  assumes w: "isdigit w" and f: "list_all is_digit f" and lf: "length f \<le> 18"
    and t: "strip t = plain_text w f"
  shows "parse_one t =
    Inr (int (digits_value w) * ATTO_PER_ONE + int (digits_value f) * 10 ^ (18 - length f))"
proof -
  from w have wd: "list_all is_digit w" by (simp add: isdigit_def)
  have fd: "isdigit (ljust_zero 18 f)" using f lf
    by (auto simp: isdigit_def ljust_zero_def list_all_iff is_digit_def)
  have fi: "f = [] \<or> isdigit f" using f by (auto simp: isdigit_def)
  show ?thesis
    using w fi lf
    by (simp add: parse_one_def t Let_def partition_plain [OF wd] py_int_digits [OF w]
        py_int_digits [OF fd] digits_value_ljust)
qed

section \<open>Printed amounts\<close>

lemma remove_comma_group3: "CHR '','' \<notin> set s \<Longrightarrow> remove_char (CHR '','') (group3 s) = s"
  by (induction s rule: group3.induct) (auto simp: remove_char_def)

lemma remove_char_rev: "remove_char c (rev s) = rev (remove_char c s)"
  by (simp add: remove_char_def rev_filter)

lemma remove_char_append: "remove_char c (s @ t) = remove_char c s @ remove_char c t"
  by (simp add: remove_char_def)

lemma str_nat_no_comma: "CHR '','' \<notin> set (str_nat n)"
  using str_nat_digits [of n] by (auto simp: list_all_iff is_digit_def)

lemma remove_comma_commas: "0 \<le> n \<Longrightarrow> remove_char (CHR '','') (commas n) = str_nat (nat n)"
  using str_nat_no_comma [of "nat n"]
  by (simp add: commas_def remove_char_rev remove_comma_group3)

lemma set_group3: "set (group3 s) \<subseteq> insert (CHR '','') (set s)"
  by (induction s rule: group3.induct) auto

lemma commas_chars: "0 \<le> n \<Longrightarrow> c \<in> set (commas n) \<Longrightarrow> is_digit c \<or> c = CHR '',''"
  using set_group3 [of "rev (str_nat (nat n))"] str_nat_digits [of "nat n"]
  by (auto simp: commas_def list_all_iff)

lemma rstrip_zero_decomp: "\<exists>k. s = rstrip_zero s @ replicate k (CHR ''0'')"
proof -
  let ?t = "takeWhile (\<lambda>c. c = CHR ''0'') (rev s)"
  have "?t = replicate (length ?t) (CHR ''0'')"
    by (rule replicate_eqI) (auto dest: set_takeWhileD)
  then have "rev ?t = replicate (length ?t) (CHR ''0'')"
    by (metis rev_replicate)
  moreover have "s = rev (dropWhile (\<lambda>c. c = CHR ''0'') (rev s)) @ rev ?t"
    by (metis rev_append rev_rev_ident takeWhile_dropWhile_id)
  ultimately show ?thesis unfolding rstrip_zero_def by metis
qed

lemma rstrip_zero_frac:
  assumes "0 < n" "n < 10 ^ 18"
  shows "\<exists>k. length (rstrip_zero (zfill 18 (str_nat n))) + k = 18 \<and>
    list_all is_digit (rstrip_zero (zfill 18 (str_nat n))) \<and>
    digits_value (rstrip_zero (zfill 18 (str_nat n))) * 10 ^ k = n \<and>
    rstrip_zero (zfill 18 (str_nat n)) \<noteq> []"
proof -
  let ?z = "zfill 18 (str_nat n)"
  obtain k where k: "?z = rstrip_zero ?z @ replicate k (CHR ''0'')"
    using rstrip_zero_decomp by blast
  have "length (str_nat n) \<le> 18" using assms by (intro length_str_nat_le) simp_all
  then have len: "length ?z = 18" by simp
  then have l: "length (rstrip_zero ?z) + k = 18"
    by (metis k length_append length_replicate)
  have v: "digits_value (rstrip_zero ?z) * 10 ^ k = n"
  proof -
    have "digits_value ?z = digits_value (rstrip_zero ?z) * 10 ^ k"
      by (subst k) (use digits_value_zeros [of k "[]"] in \<open>simp add: digits_value_append\<close>)
    then show ?thesis by simp
  qed
  have "list_all is_digit ?z" by (intro zfill_digits str_nat_digits)
  then have "list_all is_digit (rstrip_zero ?z)" by (metis k list_all_append)
  moreover have "rstrip_zero ?z \<noteq> []" using v assms(1) by auto
  ultimately show ?thesis using l v by blast
qed

lemma strip_chars: "(\<And>c. c \<in> set s \<Longrightarrow> is_digit c \<or> c = CHR '','' \<or> c = CHR ''.'') \<Longrightarrow> strip s = s"
  by (rule strip_no_space) (force simp: list_all_iff is_space_def is_digit_def)

lemma plain_text_Cons:
  assumes "isdigit w"
  shows "\<exists>c cs. plain_text w f = c # cs \<and> is_digit c"
proof (cases w)
  case (Cons a v)
  then have "plain_text w f = a # plain_text v f" by (simp add: plain_text_def)
  then show ?thesis using Cons assms by (simp add: isdigit_def)
qed (use assms in \<open>simp add: isdigit_def\<close>)

text \<open>What \<^verbatim>\<open>format_one\<close> prints, up to the separators, is plain decimal text.\<close>

lemma format_one_text:
  assumes w0: "0 \<le> atto div ATTO_PER_ONE"
  shows "\<exists>f. list_all is_digit f \<and> length f \<le> 18 \<and>
    int (digits_value f) * 10 ^ (18 - length f) = atto mod ATTO_PER_ONE \<and>
    remove_char (CHR '','') (strip (format_one atto)) =
      plain_text (str_nat (nat (atto div ATTO_PER_ONE))) f"
proof (cases "atto mod ATTO_PER_ONE = 0")
  case True
  have "strip (commas (atto div ATTO_PER_ONE)) = commas (atto div ATTO_PER_ONE)"
    by (rule strip_chars) (use commas_chars [OF w0] in blast)
  with True w0 show ?thesis
    by (intro exI [of _ "[]"]) (simp add: format_one_def remove_comma_commas plain_text_def)
next
  case False
  define n where "n = nat (atto mod ATTO_PER_ONE)"
  have m: "0 \<le> atto mod ATTO_PER_ONE" "atto mod ATTO_PER_ONE < 10 ^ 18"
    by (simp_all add: ATTO_PER_ONE_def)
  then have n: "0 < n" "n < 10 ^ 18" using False by (simp_all add: n_def nat_less_iff)
  let ?f = "rstrip_zero (zfill 18 (str_nat n))"
  obtain k where k: "length ?f + k = 18" "list_all is_digit ?f" "digits_value ?f * 10 ^ k = n" "?f \<noteq> []"
    using rstrip_zero_frac [OF n] by blast
  have shape: "format_one atto = commas (atto div ATTO_PER_ONE) @ CHR ''.'' # ?f"
    using False m by (simp add: format_one_def str_int_def n_def Let_def)
  have "strip (format_one atto) = format_one atto"
    unfolding shape using commas_chars [OF w0] k(2)
    by (intro strip_chars) (auto simp: list_all_iff)
  moreover have "remove_char (CHR '','') (CHR ''.'' # ?f) = CHR ''.'' # ?f"
    using k(2) by (intro remove_char_id) (auto simp: list_all_iff is_digit_def)
  ultimately have "remove_char (CHR '','') (strip (format_one atto)) =
      plain_text (str_nat (nat (atto div ATTO_PER_ONE))) ?f"
    using k(4) w0
    by (simp add: shape remove_char_append remove_comma_commas plain_text_def)
  moreover have "int (digits_value ?f) * 10 ^ (18 - length ?f) = atto mod ATTO_PER_ONE"
    using k(1,3) m(1) by (metis add_diff_cancel_left' int_nat_eq n_def of_nat_mult of_nat_numeral of_nat_power)
  ultimately show ?thesis using k by (intro exI [of _ ?f]) auto
qed

lemma decimal_string_plain:
  assumes "0 \<le> v" "0 < scale"
  shows "\<exists>f. decimal_string v scale = Inr (plain_text (str_nat (nat (v div 10 ^ scale))) f) \<and>
    list_all is_digit f \<and> length f = scale \<and> int (digits_value f) = v mod 10 ^ scale"
proof -
  let ?n = "nat (v mod 10 ^ scale)"
  let ?f = "zfill scale (str_nat ?n)"
  have "v mod 10 ^ scale < 10 ^ scale" by simp
  then have "?n < 10 ^ scale" by (simp add: nat_less_iff)
  then have "length (str_nat ?n) \<le> scale" using assms(2) by (rule length_str_nat_le)
  then have l: "length ?f = scale" by simp
  then have ne: "?f \<noteq> []" using assms(2) by (metis length_0_conv less_irrefl)
  have "v div 10 ^ scale \<ge> 0" using assms(1) by (simp add: pos_imp_zdiv_nonneg_iff)
  moreover have "\<not> v mod 10 ^ scale < 0" by (simp add: not_less)
  ultimately have "decimal_string v scale = Inr (plain_text (str_nat (nat (v div 10 ^ scale))) ?f)"
    using assms ne by (simp add: decimal_string_def plain_text_def str_int_def)
  moreover have "list_all is_digit ?f" by (intro zfill_digits str_nat_digits)
  ultimately show ?thesis using l by (intro exI [of _ ?f]) simp
qed

section \<open>Properties\<close>

text \<open>
  C40. Printing an amount for an operator and reading it back as a recipient amount gives the same
  number of atto, for every positive amount below \<open>10 ^ 28\<close> atto: the thousands separators are
  ignored, the trailing zeros restored and the \<^verbatim>\<open>decimal\<close> product not rounded.
\<close>

theorem parse_amount_format_one:
  assumes "0 < atto" "atto < 10 ^ 28"
  shows "parse_amount (format_one atto) ''one'' = Inr atto"
proof -
  let ?w = "str_nat (nat (atto div ATTO_PER_ONE))"
  have w0: "0 \<le> atto div ATTO_PER_ONE"
    using assms(1) by (simp add: ATTO_PER_ONE_def pos_imp_zdiv_nonneg_iff)
  have "atto div ATTO_PER_ONE < 10 ^ 10"
    using assms(2) by (simp add: ATTO_PER_ONE_def)
  then have "nat (atto div ATTO_PER_ONE) < 10 ^ 10" using w0 by (simp add: nat_less_iff)
  then have lw: "length ?w \<le> 10" by (rule length_str_nat_le) simp
  have dm: "atto = atto div ATTO_PER_ONE * ATTO_PER_ONE + atto mod ATTO_PER_ONE" by simp
  obtain f where f: "list_all is_digit f" "length f \<le> 18"
    "int (digits_value f) * 10 ^ (18 - length f) = atto mod ATTO_PER_ONE"
    and t: "remove_char (CHR '','') (strip (format_one atto)) = plain_text ?w f"
    using format_one_text [OF w0] by blast
  have val: "int (digits_value ?w) * ATTO_PER_ONE + int (digits_value f) * 10 ^ (18 - length f) = atto"
    using f(3) w0 dm by simp
  have "0 < digits_value (?w @ f)"
  proof (rule ccontr)
    assume "\<not> 0 < digits_value (?w @ f)"
    then have "digits_value ?w = 0" "digits_value f = 0" by (auto simp: digits_value_append simp del: digits_value_str_nat)
    then show False using val assms(1) by (simp del: digits_value_str_nat)
  qed
  with parse_amount_plain [OF isdigit_str_nat f(1,2) _ t] f(2) lw val show ?thesis by simp
qed

theorem parse_amount_format_one_witness:
  "(0::int) < 1234567000000000000000 \<and> (1234567000000000000000::int) < 10 ^ 28 \<and>
   parse_amount (format_one 1234567000000000000000) ''one'' = Inr 1234567000000000000000"
  using parse_amount_format_one [of 1234567000000000000000] by simp

text \<open>
  On a plain decimal text of at most 28 digits, 18 of them after the point, the recipient-list
  parser and the exact threshold parser of the claim scripts agree, so an operator may copy a
  threshold from one tool to another.
\<close>

theorem parse_amount_agrees_parse_one:
  assumes "isdigit w" "list_all is_digit f" "length f \<le> 18" "length w + length f \<le> 28"
    and "0 < digits_value (w @ f)"
  shows "parse_amount (plain_text w f) ''one'' = parse_one (plain_text w f)"
proof -
  have wd: "list_all is_digit w" using assms(1) by (simp add: isdigit_def)
  have s: "strip (plain_text w f) = plain_text w f" by (rule strip_plain [OF wd assms(2)])
  have r: "remove_char (CHR '','') (strip (plain_text w f)) = plain_text w f"
    using plain_not_in [OF wd assms(2)] by (simp add: s remove_char_id)
  show ?thesis
    by (simp only: parse_amount_plain [OF assms(1-4) r assms(5)] parse_one_plain [OF assms(1-3) s])
qed

theorem parse_amount_agrees_parse_one_witness:
  "isdigit ''1000'' \<and> list_all is_digit ''5'' \<and> 0 < digits_value (''1000'' @ ''5'') \<and>
   parse_amount ''1000.5'' ''one'' = parse_one ''1000.5''"
proof -
  have h: "isdigit ''1000''" "list_all is_digit ''5''" "0 < digits_value (''1000'' @ ''5'')"
    by code_simp+
  then show ?thesis
    using parse_amount_agrees_parse_one [of "''1000''" "''5''"] by (simp add: plain_text_def)
qed

text \<open>
  C39. Beyond 28 significant digits the recipient-list parser silently rounds, because a \<^verbatim>\<open>Decimal\<close> product is
  rounded in the default context. A plain decimal text of \<open>28 + k\<close> digits, at most 18 of them after the point, is
  accepted, and the amount is the multiple of its \<open>k\<close>-th last digit's unit that is nearest to the amount that the exact
  parser of the claim scripts reads, the even one of two. It is the exact amount only if the last \<open>k\<close> digits are zero.
\<close>

theorem parse_amount_rounds:
  assumes "isdigit w" "list_all is_digit f" "length f \<le> 18" "0 < k" "k \<le> 900000"
    and "10 ^ (27 + k) \<le> digits_value (w @ f)" "digits_value (w @ f) < 10 ^ (28 + k)"
  shows "\<exists>exact v. parse_one (plain_text w f) = Inr exact \<and> parse_amount (plain_text w f) ''one'' = Inr v \<and>
    (let unit = 10 ^ (k + 18 - length f) in
      unit dvd v \<and> 2 * \<bar>v - exact\<bar> \<le> unit \<and> (2 * \<bar>v - exact\<bar> = unit \<longrightarrow> even (v div unit)) \<and>
      (v = exact \<longleftrightarrow> 10 ^ k dvd digits_value (w @ f)))"
proof -
  define n where "n = digits_value (w @ f)"
  have wd: "list_all is_digit w" using assms(1) by (simp add: isdigit_def)
  have s: "strip (plain_text w f) = plain_text w f" by (rule strip_plain [OF wd assms(2)])
  have r: "remove_char (CHR ''_'') (remove_char (CHR '','') (plain_text w f)) = plain_text w f"
    using plain_not_in [OF wd assms(2)] by (simp add: remove_char_id)
  obtain q e where q: "dec_fix (n * 10 ^ 18) (- int (length f)) = Inr (q, e)" "0 \<le> e"
      "q * 10 ^ nat e = round_half_even n k * 10 ^ (k + 18 - length f)"
    using dec_fix_rounds [OF _ _ assms(4, 5, 3), of n] assms(6, 7) by (auto simp: n_def)
  define u where "u = (10 ^ (18 - length f) :: int)"
  define v where "v = int (round_half_even n k) * 10 ^ k"
  note near = round_half_even_near [where n = n and k = k, folded v_def]
  have unit: "10 ^ (k + 18 - length f) = 10 ^ k * u" using assms(3) by (simp add: u_def flip: power_add)
  have u: "0 < u" by (simp add: u_def)
  have val: "int (q * 10 ^ nat e) = v * u" unfolding q(3) v_def by (simp add: unit [symmetric] mult.assoc)
  have "0 < v"
  proof -
    have "2 * (10 ^ k :: nat) \<le> 10 ^ (27 + k)" by (simp add: power_add)
    then have "2 * 10 ^ k \<le> n" using assms(6) unfolding n_def by (rule le_trans)
    then have "2 * 10 ^ k \<le> int n" using of_nat_le_iff [of "2 * 10 ^ k" n, where 'a = int] by simp
    moreover have "0 < v" if "2 * p \<le> m" "2 * \<bar>v - m\<bar> \<le> p" "0 < p" for p m :: int using that by arith
    ultimately show ?thesis using near(2) by simp
  qed
  have amount: "parse_amount (plain_text w f) ''one'' = Inr (v * u)"
  proof -
    have "dec_to_int False (q, e) = v * u" "dec_is_integral (q, e)"
      using q(2) val by (simp_all add: dec_to_int_def dec_is_integral_def Let_def)
    moreover have "\<not> v * u \<le> 0" using \<open>0 < v\<close> u by (simp add: not_le)
    moreover have "plain_text w f \<noteq> []" using assms(1) by (auto simp: plain_text_def isdigit_def)
    ultimately show ?thesis
      unfolding parse_amount_def s r Let_def dec_parse_plain [OF assms(1, 2)] n_def [symmetric] by (simp add: q(1) del: power_numeral)
  qed
  have "int n * u = int (digits_value w) * ATTO_PER_ONE + int (digits_value f) * 10 ^ (18 - length f)"
    using assms(3) by (simp add: n_def u_def digits_value_append ATTO_PER_ONE_def distrib_right mult.assoc flip: power_add)
  then have exact: "parse_one (plain_text w f) = Inr (int n * u)" by (simp only: parse_one_plain [OF assms(1-3) s])
  have diff: "\<bar>v * u - int n * u\<bar> = \<bar>v - int n\<bar> * u" using u by (simp add: abs_mult flip: left_diff_distrib)
  have cancel: "2 * \<bar>v * u - int n * u\<bar> \<le> 10 ^ k * u" "2 * \<bar>v * u - int n * u\<bar> = 10 ^ k * u \<longrightarrow> even (v * u div (10 ^ k * u))"
    using near(2, 3) u unfolding diff by (simp_all add: mult.assoc [symmetric] mult_right_mono)
  show ?thesis
    unfolding Let_def unit
    by (rule exI [of _ "int n * u"], rule exI [of _ "v * u"]) (use near(1, 4) cancel amount exact u in \<open>simp add: n_def\<close>)
qed

theorem parse_amount_rounds_witness:
  "parse_one ''10000000000.000000000000000015'' = Inr (10 ^ 28 + 15) \<and>
   parse_amount ''10000000000.000000000000000015'' ''one'' = Inr (10 ^ 28 + 20)"
proof -
  define w f where "w = ''10000000000''" and "f = ''000000000000000015''"
  have t: "''10000000000.000000000000000015'' = plain_text w f" by (simp add: plain_text_def w_def f_def)
  have w: "isdigit w" and f: "list_all is_digit f" "length f = 18" by (simp_all add: isdigit_def is_digit_def w_def f_def)
  have v: "digits_value (w @ f) = 10 ^ 28 + 15" "digits_value w = 10 ^ 10" "digits_value f = 15"
    by (simp_all add: digits_value_def digit_value_def w_def f_def)
  have "strip (plain_text w f) = plain_text w f" using w f(1) by (intro strip_plain) (simp_all add: isdigit_def)
  then have one: "parse_one (plain_text w f) = Inr (10 ^ 28 + 15)"
    by (subst parse_one_plain [OF w f(1)]) (simp_all add: v ATTO_PER_ONE_def f(2))
  have "10 ^ (27 + 1) \<le> digits_value (w @ f)" "digits_value (w @ f) < 10 ^ (28 + 1)" unfolding v(1) by simp_all
  from parse_amount_rounds [OF w f(1) _ _ _ this] obtain e v where p: "parse_one (plain_text w f) = Inr e"
    "parse_amount (plain_text w f) ''one'' = Inr v" "10 dvd v" "2 * \<bar>v - e\<bar> \<le> 10" "2 * \<bar>v - e\<bar> = 10 \<longrightarrow> even (v div 10)"
    by (auto simp: Let_def f(2))
  have e: "e = 10 ^ 28 + 15" using one p(1) by simp
  obtain d where d: "v = 10 * d" using p(3) by (elim dvdE)
  then have "\<bar>d - 10 ^ 27 - 2\<bar> \<le> 1" "d \<noteq> 10 ^ 27 + 1" using p(4, 5) by (auto simp: e)
  then have "d = 10 ^ 27 + 2" using p(4) by (simp add: d e)
  with p(2) one show ?thesis unfolding t by (simp add: d)
qed

text \<open>
  Every non-negative amount printed by the ledger writers with 18 decimals is read back exactly
  by the threshold parser.
\<close>

theorem parse_one_one_string:
  assumes "0 \<le> atto"
  shows "bindR (one_string atto) parse_one = Inr atto"
proof -
  obtain f where f: "one_string atto = Inr (plain_text (str_nat (nat (atto div 10 ^ 18))) f)"
    "list_all is_digit f" "length f = 18" "int (digits_value f) = atto mod 10 ^ 18"
    using decimal_string_plain [OF assms, of 18] by (auto simp: one_string_def)
  let ?w = "str_nat (nat (atto div 10 ^ 18))"
  have "strip (plain_text ?w f) = plain_text ?w f"
    by (rule strip_plain [OF str_nat_digits f(2)])
  from parse_one_plain [OF isdigit_str_nat f(2) _ this] f(3,4) assms show ?thesis
    by (simp add: f(1) ATTO_PER_ONE_def pos_imp_zdiv_nonneg_iff)
qed

theorem parse_one_one_string_witness:
  "(0::int) \<le> 1500000000000000000 \<and>
   bindR (one_string 1500000000000000000) parse_one = Inr 1500000000000000000"
  using parse_one_one_string [of 1500000000000000000] by simp

text \<open>
  The signed ONE strings of the contract review read back to the atto amount they were printed
  from, for every integer.
\<close>

theorem one_str_to_atto_roundtrip: "one_str_to_atto (atto_to_one_str value) = Inr value"
proof -
  obtain f where f: "decimal_string \<bar>value\<bar> 18 = Inr (plain_text (str_nat (nat (\<bar>value\<bar> div 10 ^ 18))) f)"
    "list_all is_digit f" "length f = 18" "int (digits_value f) = \<bar>value\<bar> mod 10 ^ 18"
    using decimal_string_plain [of "\<bar>value\<bar>" 18] by auto
  define n where "n = nat (\<bar>value\<bar> div 10 ^ 18)"
  let ?t = "plain_text (str_nat n) f"
  have shape: "atto_to_one_str value = (if value < 0 then CHR ''-'' # ?t else ?t)"
    using f(1) unfolding n_def atto_to_one_str_def decimal_string_def Let_def by (cases "value < 0") simp_all
  obtain c cs where t: "?t = c # cs" and c: "is_digit c"
    using plain_text_Cons [OF isdigit_str_nat] by blast
  have s: "strip (atto_to_one_str value) = atto_to_one_str value"
    unfolding shape using plain_no_space [OF str_nat_digits f(2)]
    by (intro strip_no_space) (simp add: is_space_def)
  have v: "int n * 10 ^ 18 + int (digits_value f) = \<bar>value\<bar>"
    using f(4) by (simp add: n_def pos_imp_zdiv_nonneg_iff)
  have lj: "ljust_zero 18 f = f" using f(3) by (simp add: ljust_zero_def)
  have fd: "isdigit f" using f(2,3) by (auto simp: isdigit_def)
  have neg: "startswith (atto_to_one_str value) ''-'' \<longleftrightarrow> value < 0"
    using is_digit_sign [OF c] by (simp add: shape t startswith_def)
  have ne: "atto_to_one_str value \<noteq> []" by (simp add: shape t)
  have body: "(if value < 0 then drop 1 (atto_to_one_str value) else atto_to_one_str value) = ?t"
    by (simp add: shape)
  show ?thesis
    unfolding one_str_to_atto_def Let_def using ne
    by (simp only: if_False s neg body partition_plain [OF str_nat_digits])
       (simp add: f(3) fd py_int_digits lj, use v in auto)
qed

end
