(* ===== verification/Bech32.thy ===== *)
theory Bech32
  imports Keccak
begin

unbundle bit_operations_syntax

text \<open>
  The bech32 code of Harmony's \<^verbatim>\<open>one1\<close> addresses: checksum polynomial, bit regrouping,
  and their algebra. The functions here are the parts that the encoders and decoders of
  \<^verbatim>\<open>airdrop/tools/common.py\<close> and \<^verbatim>\<open>contract_review_lib.py\<close> have in common;
  Python's unbounded integers are natural numbers.
\<close>

definition BECH32_CHARSET :: string where
  "BECH32_CHARSET = ''qpzry9x8gf2tvdw0s3jn54khce6mua7l''"

section \<open>Checksum polynomial\<close>

definition bech32_generator :: "nat list" where
  "bech32_generator = [0x3B6A57B2, 0x26508E6D, 0x1EA119FA, 0x3D4233DD, 0x2A1462B3]"

definition polymod_step :: "nat \<Rightarrow> nat \<Rightarrow> nat" where
  "polymod_step chk value =
     (let hi = drop_bit 25 chk;
          chk = push_bit 5 (chk AND 0x1FFFFFF) XOR value
      in foldl (\<lambda>chk i. if drop_bit i hi AND 1 \<noteq> 0 then chk XOR bech32_generator ! i else chk)
           chk [0..<5])"

definition bech32_polymod :: "nat list \<Rightarrow> nat" where
  "bech32_polymod values = foldl polymod_step 1 values"

definition hrp_expand :: "string \<Rightarrow> nat list" where
  "hrp_expand hrp = map (\<lambda>c. drop_bit 5 (code c)) hrp @ [0] @ map (\<lambda>c. code c AND 31) hrp"

definition bech32_checksum :: "nat list \<Rightarrow> nat list" where
  "bech32_checksum values =
     (let polymod = bech32_polymod (values @ replicate 6 0) XOR 1
      in map (\<lambda>i. drop_bit (5 * (5 - i)) polymod AND 31) [0..<6])"

section \<open>Regrouping of bits\<close>

text \<open>
  Both directions are the same loop: shift a value into the accumulator, then, while enough bits are
  there, append the top group (\<^verbatim>\<open>(acc >> bits) & mask\<close>). The accumulator is never masked.
\<close>

function drain :: "nat \<Rightarrow> nat \<Rightarrow> nat \<Rightarrow> nat list \<Rightarrow> nat \<times> nat list" where
  "drain w acc bits out =
     (if 0 < w \<and> w \<le> bits
      then drain w acc (bits - w) (out @ [drop_bit (bits - w) acc AND mask w])
      else (bits, out))"
  by pat_completeness auto
termination by (relation "measure (\<lambda>(w, acc, bits, out). bits)") auto

declare drain.simps [simp del]

definition regroup_step :: "nat \<Rightarrow> nat \<Rightarrow> nat \<times> nat \<times> nat list \<Rightarrow> nat \<Rightarrow> nat \<times> nat \<times> nat list" where
  "regroup_step win wout st v =
     (case st of (acc, bits, out) \<Rightarrow>
        let acc = push_bit win acc OR v
        in (acc, drain wout acc (bits + win) out))"

definition regroup :: "nat \<Rightarrow> nat \<Rightarrow> nat list \<Rightarrow> nat \<times> nat \<times> nat list" where
  "regroup win wout values = foldl (regroup_step win wout) (0, 0, []) values"

text \<open>The five-bit groups of a byte string, with the last group padded.\<close>

definition to_groups :: "nat list \<Rightarrow> nat list" where
  "to_groups bytes =
     (case regroup 8 5 bytes of (acc, bits, out) \<Rightarrow>
        if bits \<noteq> 0 then out @ [push_bit (5 - bits) acc AND 31] else out)"

definition from_groups :: "nat list \<Rightarrow> nat list" where
  "from_groups values = (case regroup 5 8 values of (acc, bits, out) \<Rightarrow> out)"

section \<open>Linearity of the checksum\<close>

definition gen_mix :: "nat \<Rightarrow> nat" where
  "gen_mix hi = foldl (\<lambda>c i. if drop_bit i hi AND 1 \<noteq> 0 then c XOR bech32_generator ! i else c)
     0 [0..<5]"

lemma foldl_xor_start:
  "foldl (\<lambda>c i. if P i then c XOR g i else c) (a XOR b) xs =
   a XOR foldl (\<lambda>c i. if P i then c XOR (g i :: nat) else c) b xs"
proof (induction xs arbitrary: b)
  case (Cons i xs)
  show ?case using Cons [of "b XOR g i"] Cons [of b] by (simp add: xor.assoc)
qed simp

lemma polymod_step_mix:
  "polymod_step c v = push_bit 5 (c AND 0x1FFFFFF) XOR v XOR gen_mix (drop_bit 25 c)"
  using foldl_xor_start [of _ _ "push_bit 5 (c AND 0x1FFFFFF) XOR v" 0 "[0..<5]"]
  by (simp add: polymod_step_def gen_mix_def Let_def xor.assoc)

lemma and_1_bit: "(n AND 1 \<noteq> 0) = odd (n :: nat)"
  by (simp add: and_one_eq odd_iff_mod_2_eq_one)

lemma foldl_xor_split:
  assumes "\<And>i. R i \<longleftrightarrow> P i \<noteq> Q i"
  shows "foldl (\<lambda>c i. if R i then c XOR g i else c) (x XOR y) xs =
    foldl (\<lambda>c i. if P i then c XOR g i else c) x xs XOR
    foldl (\<lambda>c i. if Q i then c XOR (g i :: nat) else c) y xs"
proof (induction xs arbitrary: x y)
  case (Cons i xs)
  have e: "(x XOR y) XOR g i = x XOR (y XOR g i)" "(x XOR y) XOR g i = (x XOR g i) XOR y"
    "x XOR y = (x XOR g i) XOR (y XOR g i)"
    by (simp_all add: ac_simps xor.left_commute)
  show ?case
    using Cons [of x y] Cons [of "x XOR g i" y, folded e(2)] Cons [of x "y XOR g i", folded e(1)]
      Cons [of "x XOR g i" "y XOR g i", folded e(3)]
    by (cases "P i"; cases "Q i") (simp_all add: assms)
qed simp

lemma gen_mix_xor: "gen_mix (a XOR b) = gen_mix a XOR gen_mix b"
proof -
  have "odd (drop_bit i (a XOR b)) \<longleftrightarrow> odd (drop_bit i a) \<noteq> odd (drop_bit i b)" for i
    by (simp add: drop_bit_xor even_xor_iff)
  from foldl_xor_split [OF this, where x = 0 and y = 0] show ?thesis
    by (simp only: gen_mix_def and_1_bit xor.right_neutral)
qed

lemma polymod_step_xor:
  "polymod_step (a XOR b) (v XOR w) = polymod_step a v XOR polymod_step b w"
proof -
  have "push_bit 5 ((a XOR b) AND m) = push_bit 5 (a AND m) XOR push_bit 5 (b AND m)" for m :: nat
    by (simp add: bit_eq_iff bit_simps) blast
  then show ?thesis
    unfolding polymod_step_mix drop_bit_xor gen_mix_xor
    by (simp only: xor.assoc xor.commute xor.left_commute)
qed

lemma foldl_polymod_xor:
  "length vs = length ws \<Longrightarrow>
   foldl polymod_step (a XOR b) (map2 (XOR) vs ws) =
   foldl polymod_step a vs XOR foldl polymod_step b ws"
  by (induction vs ws arbitrary: a b rule: list_induct2) (simp_all add: polymod_step_xor)

lemma nat_xor_eq_0: "a XOR b = 0 \<Longrightarrow> a = (b :: nat)"
  by (metis xor.assoc xor.left_neutral xor.right_neutral xor_self_eq)

lemma nat_xor_less: "a < 2 ^ n \<Longrightarrow> b < 2 ^ n \<Longrightarrow> a XOR b < (2 :: nat) ^ n"
  by (metis take_bit_nat_eq_self_iff take_bit_xor)

lemma foldl_xor_less:
  assumes "\<And>i. i \<in> set xs \<Longrightarrow> g i < 2 ^ n" "x < 2 ^ n"
  shows "foldl (\<lambda>c i. if P i then c XOR g i else c) x xs < (2 :: nat) ^ n"
  using assms by (induction xs arbitrary: x) (simp_all add: nat_xor_less)

lemma gen_mix_less: "gen_mix t < 2 ^ 30"
proof -
  have "list_all (\<lambda>g. g < 2 ^ 30) bech32_generator" by (simp add: bech32_generator_def)
  then have "i < 5 \<Longrightarrow> bech32_generator ! i < 2 ^ 30" for i
    by (simp add: list_all_length bech32_generator_def)
  then show ?thesis unfolding gen_mix_def by (intro foldl_xor_less) simp_all
qed

lemma polymod_step_less:
  assumes "v < 2 ^ 30"
  shows "polymod_step c v < 2 ^ 30"
proof -
  have "push_bit 5 (c AND 0x1FFFFFF) = push_bit 5 (take_bit 25 c)"
    by (simp add: take_bit_eq_mask mask_eq_exp_minus_1)
  also have "\<dots> < 2 ^ 30"
    using take_bit_nat_less_exp [of 25 c] by (simp add: push_bit_eq_mult)
  finally show ?thesis
    unfolding polymod_step_mix using assms gen_mix_less by (intro nat_xor_less) auto
qed

lemma foldl_polymod_less:
  "c < 2 ^ 30 \<Longrightarrow> list_all (\<lambda>v. v < 2 ^ 30) vs \<Longrightarrow> foldl polymod_step c vs < 2 ^ 30"
proof (induction vs arbitrary: c)
  case (Cons v vs)
  then have "polymod_step c v < 2 ^ 30" by (intro polymod_step_less) simp
  with Cons show ?case by simp
qed simp

section \<open>Big-endian digits\<close>

definition be_value :: "nat \<Rightarrow> nat list \<Rightarrow> nat" where
  "be_value w vs = foldl (\<lambda>a v. 2 ^ w * a + v) 0 vs"

fun be_digits :: "nat \<Rightarrow> nat \<Rightarrow> nat \<Rightarrow> nat list" where
  "be_digits w 0 m = []"
| "be_digits w (Suc k) m = be_digits w k (m div 2 ^ w) @ [m mod 2 ^ w]"

lemma be_value_snoc [simp]: "be_value w (vs @ [v]) = 2 ^ w * be_value w vs + v"
  by (simp add: be_value_def)

lemma be_value_Nil [simp]: "be_value w [] = 0"
  by (simp add: be_value_def)

lemma length_be_digits [simp]: "length (be_digits w k m) = k"
  by (induction k arbitrary: m) simp_all

lemma be_digits_less: "v \<in> set (be_digits w k m) \<Longrightarrow> v < 2 ^ w"
  by (induction k arbitrary: m) auto

lemma be_value_digits: "be_value w (be_digits w k m) = m mod 2 ^ (w * k)"
proof (induction k arbitrary: m)
  case (Suc k)
  show ?case
    by (simp add: Suc power_add mod_mult2_eq ac_simps)
qed simp

lemma be_digits_value:
  "list_all (\<lambda>v. v < 2 ^ w) vs \<Longrightarrow> be_digits w (length vs) (be_value w vs) = vs"
  by (induction vs rule: rev_induct) simp_all

lemma be_value_less: "list_all (\<lambda>v. v < 2 ^ w) vs \<Longrightarrow> be_value w vs < 2 ^ (w * length vs)"
proof (induction vs rule: rev_induct)
  case (snoc v vs)
  then have "be_value w vs + 1 \<le> 2 ^ (w * length vs)" and "v < 2 ^ w" by auto
  then have "2 ^ w * (be_value w vs + 1) \<le> 2 ^ w * 2 ^ (w * length vs)"
    by (intro mult_le_mono2) simp
  with \<open>v < 2 ^ w\<close> show ?case by (simp add: power_add)
qed simp

section \<open>The checksum of a message verifies\<close>

lemma polymod_step_small: "c < 2 ^ 25 \<Longrightarrow> v < 2 ^ 5 \<Longrightarrow> polymod_step c v = 2 ^ 5 * c + v"
proof -
  assume c: "c < 2 ^ 25" and v: "v < 2 ^ 5"
  have "drop_bit 25 c = 0" using c by (simp add: drop_bit_eq_div)
  moreover have "gen_mix 0 = 0" using gen_mix_xor [of 0 0] by simp
  moreover have "c AND 0x1FFFFFF = c"
    using c take_bit_nat_eq_self_iff [of 25 c] by (simp add: take_bit_eq_mask mask_eq_exp_minus_1)
  moreover have "push_bit 5 c XOR v = push_bit 5 c + v"
  proof -
    have "push_bit 5 c AND v = push_bit 5 c AND take_bit 5 v"
      using v by (simp add: take_bit_nat_eq_self)
    also have "\<dots> = 0" by (auto simp: bit_eq_iff bit_simps)
    finally show ?thesis by (simp add: disjunctive_add_eq_xor)
  qed
  ultimately show ?thesis by (simp add: polymod_step_mix push_bit_eq_mult)
qed

lemma foldl_polymod_small:
  "list_all (\<lambda>v. v < 2 ^ 5) vs \<Longrightarrow> length vs \<le> 6 \<Longrightarrow>
   foldl polymod_step 0 vs = be_value 5 vs"
proof (induction vs rule: rev_induct)
  case (snoc v vs)
  then have IH: "foldl polymod_step 0 vs = be_value 5 vs" and v: "v < 2 ^ 5"
    and vs: "list_all (\<lambda>v. v < 2 ^ 5) vs" and l: "length vs \<le> 5" by auto
  have "be_value 5 vs < 2 ^ (5 * length vs)" by (rule be_value_less [OF vs])
  also have "\<dots> \<le> 2 ^ 25" using l by (intro power_increasing) simp_all
  finally show ?case using IH v polymod_step_small by simp
qed simp

lemma be_digits_map: "be_digits w k m = map (\<lambda>i. m div 2 ^ (w * (k - 1 - i)) mod 2 ^ w) [0..<k]"
proof (induction k arbitrary: m)
  case (Suc k)
  have "m div 2 ^ w div 2 ^ (w * (k - 1 - i)) = m div 2 ^ (w * (k - i))" if "i < k" for i
  proof -
    have "w * (k - i) = w + w * (k - 1 - i)"
      using that by (metis Suc_diff_Suc diff_Suc_eq_diff_pred mult_Suc_right)
    then show ?thesis by (simp add: power_add div_mult2_eq)
  qed
  then show ?case by (simp add: Suc)
qed simp

lemma bech32_checksum_digits:
  "bech32_checksum vs = be_digits 5 6 (bech32_polymod (vs @ replicate 6 0) XOR 1)"
proof -
  have "n AND 31 = n mod 2 ^ 5" for n :: nat
    using take_bit_eq_mask [of 5 n] by (simp add: take_bit_eq_mod mask_eq_exp_minus_1)
  then show ?thesis
    by (simp add: bech32_checksum_def be_digits_map drop_bit_eq_div Let_def)
qed

text \<open>A message followed by its checksum has checksum polynomial 1.\<close>

lemma polymod_checksum: "bech32_polymod (vs @ bech32_checksum vs) = 1"
  if "list_all (\<lambda>v. v < 2 ^ 30) vs"
proof -
  let ?c = "foldl polymod_step 1 vs"
  let ?cs = "bech32_checksum vs"
  define q where "q = bech32_polymod (vs @ replicate 6 0) XOR 1"
  have cs: "?cs = be_digits 5 6 q" by (simp add: bech32_checksum_digits q_def)
  have "bech32_polymod (vs @ replicate 6 0) < 2 ^ 30"
    unfolding bech32_polymod_def using that by (intro foldl_polymod_less) (simp_all add: list_all_iff)
  then have q: "q < 2 ^ 30" unfolding q_def by (intro nat_xor_less) simp_all
  have small: "foldl polymod_step 0 ?cs = q"
  proof -
    have "foldl polymod_step 0 ?cs = be_value 5 ?cs"
      by (rule foldl_polymod_small) (simp_all add: cs list_all_iff be_digits_less [where w = 5, simplified])
    then show ?thesis using q be_value_digits [of 5 6 q] by (simp add: cs)
  qed
  have "map2 (XOR) (replicate 6 0) ?cs = ?cs"
    by (simp add: map2_map_map zip_replicate1 cs o_def)
  then have "foldl polymod_step (?c XOR 0) ?cs =
      foldl polymod_step ?c (replicate 6 0) XOR foldl polymod_step 0 ?cs"
    using foldl_polymod_xor [of "replicate 6 0" ?cs ?c 0] by (simp add: cs)
  also have "foldl polymod_step ?c (replicate 6 0) = q XOR 1"
    by (simp add: q_def bech32_polymod_def xor.assoc)
  also have "(q XOR 1) XOR foldl polymod_step 0 ?cs = 1"
    unfolding small by (metis xor.commute xor.left_commute xor.right_neutral xor_self_eq)
  finally show ?thesis by (simp add: bech32_polymod_def)
qed

section \<open>Error detection\<close>

text \<open>Shifting a nonzero checksum difference by a symbol never loses it: the low five bits of the
  generator terms are independent.\<close>

lemma gen_mix_low:
  assumes "t < 32" "gen_mix t mod 32 = 0"
  shows "t = 0"
proof -
  have "[0..<5] = [0, 1, 2, 3, 4 :: nat]" and
    "[0..<32] = [0, 1, 2, 3, 4, 5, 6, 7, 8, 9, 10, 11, 12, 13, 14, 15, 16, 17, 18, 19, 20, 21, 22, 23,
       24, 25, 26, 27, 28, 29, 30, 31 :: nat]"
    by code_simp+
  then have "list_all (\<lambda>t. t = 0 \<or> gen_mix t mod 32 \<noteq> 0) [0..<32]"
    by (simp add: gen_mix_def bech32_generator_def)
  with assms show ?thesis by (auto simp: list_all_iff)
qed

lemma polymod_step_nonzero:
  assumes "c \<noteq> 0" "c < 2 ^ 30"
  shows "polymod_step c 0 \<noteq> 0"
proof
  assume z: "polymod_step c 0 = 0"
  let ?t = "drop_bit 25 c"
  have t: "?t < 32" using assms(2) by (simp add: drop_bit_eq_div)
  have eq: "gen_mix ?t = push_bit 5 (c AND 0x1FFFFFF)"
    using z unfolding polymod_step_mix
    by (metis xor.left_neutral xor.right_neutral xor.assoc xor_self_eq)
  have "push_bit 5 (c AND 0x1FFFFFF) mod 32 = 0" by (simp only: push_bit_eq_mult) simp
  then have t0: "?t = 0" using gen_mix_low [OF t] eq by simp
  then have c: "c < 2 ^ 25" by (simp add: drop_bit_eq_div div_eq_0_iff)
  with z polymod_step_small [of c 0] assms(1) show False by simp
qed

lemma foldl_polymod_zeros_nonzero:
  "c \<noteq> 0 \<Longrightarrow> c < 2 ^ 30 \<Longrightarrow> foldl polymod_step c (replicate k 0) \<noteq> 0"
proof (induction k arbitrary: c)
  case (Suc k)
  have "polymod_step c 0 \<noteq> 0" "polymod_step c 0 < 2 ^ 30"
    using polymod_step_nonzero polymod_step_less Suc.prems by auto
  with Suc.IH show ?case by simp
qed simp

lemma polymod_single_error:
  assumes "a \<noteq> b" "a < 2 ^ 5" "b < 2 ^ 5"
  shows "bech32_polymod (u @ a # v) \<noteq> bech32_polymod (u @ b # v)"
proof
  assume eq: "bech32_polymod (u @ a # v) = bech32_polymod (u @ b # v)"
  let ?c = "foldl polymod_step 1 u"
  have vv: "map2 (XOR) v v = replicate (length v) (0 :: nat)" by (induction v) simp_all
  have "foldl polymod_step (polymod_step ?c a XOR polymod_step ?c b) (map2 (XOR) v v) = 0"
    using eq by (subst foldl_polymod_xor) (simp_all add: bech32_polymod_def)
  moreover have "polymod_step ?c a XOR polymod_step ?c b = polymod_step 0 (a XOR b)"
    by (simp flip: polymod_step_xor)
  moreover have ab: "a XOR b < 2 ^ 5" "a XOR b \<noteq> 0"
    using assms nat_xor_less nat_xor_eq_0 by blast+
  then have "polymod_step 0 (a XOR b) = a XOR b" using polymod_step_small by simp
  ultimately show False
    using foldl_polymod_zeros_nonzero [of "a XOR b" "length v"] ab vv by simp
qed

section \<open>Regrouping is lossless\<close>

lemma drain_digits:
  assumes "0 < w" "out = be_digits w (length out) (acc div 2 ^ bits)"
  shows "\<exists>b out'. drain w acc bits out = (b, out') \<and> b < w \<and>
    w * length out' + b = w * length out + bits \<and> out' = be_digits w (length out') (acc div 2 ^ b)"
  using assms
proof (induction w acc bits out rule: drain.induct)
  case (1 w acc bits out)
  show ?case
  proof (cases "w \<le> bits")
    case True
    let ?b = "bits - w"
    let ?out = "out @ [drop_bit ?b acc AND mask w]"
    have "acc div 2 ^ ?b div 2 ^ w = acc div 2 ^ bits"
      using True by (simp flip: div_mult2_eq power_add)
    then have "?out = be_digits w (length ?out) (acc div 2 ^ ?b)"
      using "1.prems"(2) by (simp add: drop_bit_eq_div flip: take_bit_eq_mask add: take_bit_eq_mod)
    from "1.IH" [OF _ "1.prems"(1) this] True "1.prems"(1) show ?thesis
      by (subst drain.simps) auto
  next
    case False
    with "1.prems" show ?thesis by (subst drain.simps) auto
  qed
qed

lemma push_or_value: "v < 2 ^ w \<Longrightarrow> push_bit w a OR v = 2 ^ w * a + (v :: nat)"
proof -
  assume v: "v < 2 ^ w"
  have "push_bit w a AND v = push_bit w a AND take_bit w v" using v by (simp add: take_bit_nat_eq_self)
  also have "\<dots> = 0" by (auto simp: bit_eq_iff bit_simps)
  finally show ?thesis
    using disjunctive_add_eq_or [of "push_bit w a" v] by (simp add: push_bit_eq_mult ac_simps)
qed

lemma regroup_digits:
  assumes "0 < wout" "list_all (\<lambda>v. v < 2 ^ win) vs"
  shows "\<exists>bits out. regroup win wout vs = (be_value win vs, bits, out) \<and> bits < wout \<and>
    wout * length out + bits = win * length vs \<and>
    out = be_digits wout (length out) (be_value win vs div 2 ^ bits)"
  using assms(2)
proof (induction vs rule: rev_induct)
  case Nil
  then show ?case using assms(1) by (simp add: regroup_def)
next
  case (snoc v vs)
  then obtain bits out where r: "regroup win wout vs = (be_value win vs, bits, out)"
    and n: "wout * length out + bits = win * length vs"
    and out: "out = be_digits wout (length out) (be_value win vs div 2 ^ bits)" by auto
  let ?acc = "be_value win (vs @ [v])"
  have v: "v < 2 ^ win" using snoc.prems by simp
  have "?acc div 2 ^ win = be_value win vs" using v by simp
  then have "?acc div 2 ^ (bits + win) = be_value win vs div 2 ^ bits"
    by (simp add: add.commute [of bits] power_add div_mult2_eq)
  then have "out = be_digits wout (length out) (?acc div 2 ^ (bits + win))" using out by simp
  from drain_digits [OF assms(1) this] obtain b out' where
    "drain wout ?acc (bits + win) out = (b, out')" "b < wout"
    "wout * length out' + b = wout * length out + (bits + win)"
    "out' = be_digits wout (length out') (?acc div 2 ^ b)" by auto
  moreover have "regroup win wout (vs @ [v]) = (?acc, drain wout ?acc (bits + win) out)"
    using r v by (simp add: regroup_def regroup_step_def push_or_value Let_def)
  ultimately show ?case using n by simp
qed

text \<open>A byte string whose bits fill whole groups survives the two conversions.\<close>

lemma from_to_groups:
  assumes "list_all (\<lambda>v. v < 2 ^ 8) bs" "5 dvd length bs"
  shows "length (to_groups bs) = 8 * length bs div 5 \<and> list_all (\<lambda>v. v < 2 ^ 5) (to_groups bs) \<and>
    from_groups (to_groups bs) = bs"
proof -
  obtain k where k: "length bs = 5 * k" using assms(2) by (auto simp: dvd_def)
  obtain bits out where r: "regroup 8 5 bs = (be_value 8 bs, bits, out)" and b: "bits < 5"
    and n: "5 * length out + bits = 8 * length bs"
    and out: "out = be_digits 5 (length out) (be_value 8 bs div 2 ^ bits)"
    using regroup_digits [of 5 8 bs] assms(1) by auto
  have b0: "bits = 0" and l: "length out = 8 * k" using b n k by presburger+
  have tg: "to_groups bs = out" by (simp add: to_groups_def r b0)
  have out': "out = be_digits 5 (8 * k) (be_value 8 bs)" using out b0 l by simp
  have lt: "list_all (\<lambda>v. v < 2 ^ 5) out"
    by (subst out') (auto simp: list_all_iff dest: be_digits_less)
  have "be_value 8 bs < 2 ^ (8 * (5 * k))" using be_value_less [OF assms(1)] k by simp
  then have v: "be_value 5 out = be_value 8 bs"
    using be_value_digits [of 5 "8 * k" "be_value 8 bs"] out' by (simp add: mult.left_commute)
  obtain bits2 out2 where r2: "regroup 5 8 out = (be_value 5 out, bits2, out2)" and b2: "bits2 < 8"
    and n2: "8 * length out2 + bits2 = 5 * length out"
    and o2: "out2 = be_digits 8 (length out2) (be_value 5 out div 2 ^ bits2)"
    using regroup_digits [of 8 5 out] lt by auto
  have "bits2 = 0" and "length out2 = 5 * k" using b2 n2 l by presburger+
  with o2 v k have "out2 = be_digits 8 (length bs) (be_value 8 bs)" by simp
  then have "out2 = bs" using be_digits_value [OF assms(1)] by simp
  then show ?thesis using r2 lt l k by (simp add: tg from_groups_def)
qed

end
