(* ===== verification/Addresses.thy ===== *)
theory Addresses
  imports Bech32
begin

unbundle bit_operations_syntax

text \<open>
  Address text: EIP-55 checksums and validation (\<^verbatim>\<open>airdrop/tools/common.py\<close>), the
  \<^verbatim>\<open>one1\<close> form in both directions, and the secure-key check of
  \<^verbatim>\<open>contract_review_lib.py\<close>, which every ledger script applies to its rows.

  \<^verbatim>\<open>common.keccak256\<close> is pycryptodome's when that package is installed and the pure-Python
  one otherwise. Functions that use it take it as the parameter \<open>keccak256\<close>; what they rely on is
  the locale \<open>hash32\<close>: a digest has 32 bytes. \<^verbatim>\<open>contract_review_lib\<close> has only the
  pure-Python one.
\<close>

section \<open>Definitions\<close>

definition encode :: "string \<Rightarrow> bytes" where
  "encode s = map (\<lambda>c. word_of_nat (code c)) s"

definition hex0x :: "bytes \<Rightarrow> string" where
  "hex0x data = ''0x'' @ hex_of data"

definition unhex :: "string \<Rightarrow> bytes result" where
  "unhex text = of_option (ValueError ''non-hexadecimal number found'') (fromhex (removeprefix text ''0x''))"

definition checksum_char :: "string \<Rightarrow> nat \<Rightarrow> char \<Rightarrow> char" where
  "checksum_char digest i ch =
     (case hex_digit_value (digest ! i) of
        Some v \<Rightarrow> if v \<ge> 8 then upper_char ch else ch
      | None \<Rightarrow> ch)"

definition to_checksum :: "(bytes \<Rightarrow> bytes) \<Rightarrow> string \<Rightarrow> string result" where
  "to_checksum keccak256 address =
     (let raw = removeprefix (lower address) ''0x'';
          digest = hex_of (keccak256 (encode raw))
      in if length digest < length raw then Inl IndexError
         else Inr (''0x'' @ map2 (checksum_char digest) [0..<length raw] raw))"

definition normalize_address :: "(bytes \<Rightarrow> bytes) \<Rightarrow> string \<Rightarrow> string result" where
  "normalize_address keccak256 value =
     (let text = strip value in
      if \<not> (startswith text ''0x'' \<or> startswith text ''0X'')
      then Inl (InputError ''address must start with 0x'')
      else
        let body = drop 2 text; text = ''0x'' @ body in
        if length body \<noteq> 40 \<or> \<not> list_all is_hex body
        then Inl (InputError ''not a 20-byte hex address'')
        else if hex_int body = Some 0
        then Inl (InputError ''the zero address is not allowed'')
        else bindR (to_checksum keccak256 text) (\<lambda>checksummed.
          if body \<noteq> lower body \<and> body \<noteq> upper body \<and> text \<noteq> checksummed
          then Inl (InputError ''address checksum is wrong (typo?)'')
          else Inr checksummed))"

definition charset_text :: "nat list \<Rightarrow> string" where
  "charset_text values = map (\<lambda>d. BECH32_CHARSET ! d) values"

fun index_of :: "'a list \<Rightarrow> 'a \<Rightarrow> nat option" where
  "index_of [] x = None"
| "index_of (y # ys) x = (if y = x then Some 0 else map_option Suc (index_of ys x))"

definition charset_index :: "string \<Rightarrow> nat list option" where
  "charset_index s = those (map (index_of BECH32_CHARSET) s)"

definition to_one1 :: "string \<Rightarrow> string \<Rightarrow> string result" where
  "to_one1 address hrp =
     bindR (unhex address) (\<lambda>raw.
       let data = to_groups (map unat raw);
           checksum = bech32_checksum (hrp_expand hrp @ data)
       in Inr (hrp @ ''1'' @ charset_text (data @ checksum)))"

definition from_one1 :: "(bytes \<Rightarrow> bytes) \<Rightarrow> string \<Rightarrow> string \<Rightarrow> bool \<Rightarrow> string result" where
  "from_one1 keccak256 value hrp checksum =
     (let text = lower (strip value); body = drop (length hrp + 1) text in
      if \<not> startswith text (hrp @ ''1'') \<or> charset_index body = None
      then Inl (InputError ''not a one1 address'')
      else
        let data = the (charset_index body) in
        if length data \<noteq> 38 \<or> bech32_polymod (hrp_expand hrp @ data) \<noteq> 1
        then Inl (InputError ''bad one1 address checksum'')
        else
          let out = ''0x'' @ hex_of (map word_of_nat (from_groups (take (length data - 6) data)))
          in if checksum then to_checksum keccak256 out else Inr out)"

text \<open>\<^verbatim>\<open>contract_review_lib\<close>: \<^verbatim>\<open>None\<close> results are \<open>None\<close>.\<close>

definition crl_normalize_address :: "string \<Rightarrow> string option" where
  "crl_normalize_address value =
     (let value = lower value;
          value = (if startswith value ''0x'' then value else ''0x'' @ value)
      in if length value \<noteq> 42 then None else Some value)"

text \<open>\<^verbatim>\<open>text.rsplit("1", 1)\<close> of a text that contains a one.\<close>

definition rsplit_one :: "string \<Rightarrow> string \<times> string" where
  "rsplit_one s =
     (rev (tl (dropWhile (\<lambda>c. c \<noteq> CHR ''1'') (rev s))),
      rev (takeWhile (\<lambda>c. c \<noteq> CHR ''1'') (rev s)))"

definition bech32_to_hex :: "string \<Rightarrow> string option" where
  "bech32_to_hex text =
     (let text = strip text in
      if startswith (lower text) ''0x'' then crl_normalize_address text
      else
        let text = lower text in
        if CHR ''1'' \<notin> set text then None
        else (case rsplit_one text of (hrp, data) \<Rightarrow>
          (case charset_index data of
             None \<Rightarrow> None
           | Some values \<Rightarrow>
               if bech32_polymod (hrp_expand hrp @ values) \<noteq> 1 then None
               else
                 let out = from_groups (take (length values - 6) values) in
                 if length out \<noteq> 20 then None
                 else Some (''0x'' @ hex_of (map word_of_nat out)))))"

definition any_to_hex :: "string \<Rightarrow> string option" where
  "any_to_hex value =
     (if value = [] then None
      else if startswith (lower value) ''0x'' then crl_normalize_address value
      else bech32_to_hex value)"

definition hex_to_bech32 :: "string \<Rightarrow> string \<Rightarrow> string option" where
  "hex_to_bech32 address hrp =
     (case crl_normalize_address address of
        None \<Rightarrow> None
      | Some norm \<Rightarrow>
          map_option (\<lambda>raw.
            let values = to_groups (map unat raw);
                checksum = bech32_checksum (hrp_expand hrp @ values)
            in hrp @ ''1'' @ charset_text (values @ checksum)) (fromhex (drop 2 norm)))"

definition require_address_secure_key :: "string \<Rightarrow> string \<Rightarrow> string result" where
  "require_address_secure_key address secure_key =
     (case any_to_hex address of
        None \<Rightarrow> Inl (ValueError ''invalid address'')
      | Some normalized \<Rightarrow>
          (case fromhex (drop 2 normalized) of
             None \<Rightarrow> Inl (ValueError ''invalid address'')
           | Some raw \<Rightarrow>
               let expected = ''0x'' @ hex_of (keccak256_pure raw) in
               if lower secure_key \<noteq> expected
               then Inl (ValueError ''address does not match secure key'')
               else Inr normalized))"

section \<open>The hash interface\<close>

locale hash32 =
  fixes keccak256 :: "bytes \<Rightarrow> bytes"
  assumes digest_length: "length (keccak256 d) = 32"

interpretation pure_keccak: hash32 keccak256_pure
  by unfold_locales (rule length_keccak256_pure)

section \<open>Hexadecimal bytes\<close>

lemma length_hex_of [simp]: "length (hex_of bs) = 2 * length bs"
  by (induction bs) (simp_all add: hex_of_def hex_byte_def)

lemma hex_of_Cons: "hex_of (b # bs) = hex_byte b @ hex_of bs"
  by (simp add: hex_of_def)

lemma is_hex_not_space: "is_hex c \<Longrightarrow> \<not> is_hex_space c"
  by (auto simp: is_hex_def hex_digit_value_def is_digit_def is_hex_space_def split: if_splits)

lemma is_hex_hex_char [simp]: "d < 16 \<Longrightarrow> is_hex (hex_char d)"
  by (simp add: is_hex_def)

lemma unat_byte_less: "unat (b :: byte) < 256"
  using unsigned_less [of b] by simp

lemma unat_byte_of_nat: "n < 256 \<Longrightarrow> unat (word_of_nat n :: byte) = n"
  by (simp add: unat_of_nat)

lemma fromhex_hex_of [simp]: "fromhex (hex_of bs) = Some bs"
proof (induction bs)
  case (Cons b bs)
  have "word_of_nat (16 * (unat b div 16) + unat b mod 16) = b" by simp
  with Cons unat_byte_less [of b] show ?case
    by (simp add: hex_of_Cons hex_byte_def is_hex_not_space)
qed (simp add: hex_of_def)

lemma hex_of_is_hex: "list_all is_hex (hex_of bs)"
proof (induction bs)
  case (Cons b bs)
  then show ?case using unat_byte_less [of b] by (simp add: hex_of_Cons hex_byte_def less_mult_imp_div_less)
qed (simp add: hex_of_def)

lemma hex_of_fromhex:
  "fromhex s = Some bs \<Longrightarrow> list_all is_hex s \<Longrightarrow> hex_of bs = lower s"
proof (induction s arbitrary: bs rule: fromhex.induct)
  case (3 c d cs)
  then obtain h l r where h: "hex_digit_value c = Some h" and l: "hex_digit_value d = Some l"
    and r: "fromhex cs = Some r" and bs: "bs = word_of_nat (16 * h + l) # r"
    by (auto simp: is_hex_not_space split: option.splits)
  have hl: "h < 16" "l < 16" using h l hex_digit_value_less by auto
  then have u: "unat (word_of_nat (16 * h + l) :: byte) = 16 * h + l"
    by (intro unat_byte_of_nat) simp
  have "hex_of r = lower cs" using "3.IH"(2) "3.prems" h l r by (auto simp: is_hex_not_space)
  moreover have "hex_byte (word_of_nat (16 * h + l)) = [hex_char h, hex_char l]"
    unfolding hex_byte_def u using hl by simp
  ultimately show ?case
    unfolding bs hex_of_Cons using hex_char_of_value [OF h] hex_char_of_value [OF l] by simp
qed (auto simp: hex_of_def is_hex_not_space)

lemma fromhex_total:
  "list_all is_hex s \<Longrightarrow> even (length s) \<Longrightarrow> \<exists>bs. fromhex s = Some bs \<and> length bs = length s div 2"
  by (induction s rule: fromhex.induct) (auto simp: is_hex_not_space, auto simp: is_hex_def)

section \<open>The character set\<close>

lemma index_of_nth: "index_of xs x = Some i \<Longrightarrow> i < length xs \<and> xs ! i = x"
  by (induction xs arbitrary: i) (auto split: if_splits)

lemma index_of_distinct: "distinct xs \<Longrightarrow> i < length xs \<Longrightarrow> index_of xs (xs ! i) = Some i"
proof (induction xs arbitrary: i)
  case (Cons y ys)
  then show ?case by (cases i) auto
qed simp

lemma charset_distinct: "distinct BECH32_CHARSET"
  by (simp add: BECH32_CHARSET_def)

lemma charset_length: "length BECH32_CHARSET = 32"
  by (simp add: BECH32_CHARSET_def)

lemma those_map_Some: "those (map (\<lambda>x. Some (f x)) xs) = Some (map f xs)"
  by (induction xs) simp_all

lemma charset_roundtrip:
  assumes "list_all (\<lambda>v. v < 2 ^ 5) vs"
  shows "charset_index (charset_text vs) = Some vs"
proof -
  have "map (index_of BECH32_CHARSET) (charset_text vs) = map Some vs"
    using assms charset_distinct charset_length
    by (simp add: charset_text_def list_all_iff index_of_distinct)
  then show ?thesis using those_map_Some [of id vs] by (simp add: charset_index_def)
qed

lemma charset_text_chars: "list_all (\<lambda>v. v < 2 ^ 5) vs \<Longrightarrow> c \<in> set (charset_text vs) \<Longrightarrow> c \<in> set BECH32_CHARSET"
  using charset_length by (auto simp: charset_text_def list_all_iff)

lemma charset_chars: "c \<in> set BECH32_CHARSET \<Longrightarrow> lower_char c = c \<and> \<not> is_space c \<and> c \<noteq> CHR ''1''"
proof -
  have "list_all (\<lambda>c. lower_char c = c \<and> \<not> is_space c \<and> c \<noteq> CHR ''1'') BECH32_CHARSET" by code_simp
  then show "c \<in> set BECH32_CHARSET \<Longrightarrow> ?thesis" by (simp add: list_all_iff)
qed

lemma hrp_expand_less: "v \<in> set (hrp_expand hrp) \<Longrightarrow> v < 2 ^ 30"
proof -
  have b: "code c < 256" for c by (simp add: of_char_def)
  have "drop_bit 5 (code c) < 2 ^ 30" for c
  proof -
    have "code c div 32 \<le> code c" by (rule div_le_dividend)
    then have "code c div 32 < 256" using b [of c] by linarith
    then show ?thesis by (simp add: drop_bit_eq_div)
  qed
  moreover have "code c AND 31 < 2 ^ 30" for c
    using take_bit_eq_mask [of 5 "code c"] by (simp add: take_bit_eq_mod mask_eq_exp_minus_1)
  ultimately show "v \<in> set (hrp_expand hrp) \<Longrightarrow> v < 2 ^ 30"
    by (auto simp: hrp_expand_def)
qed

section \<open>EIP-55\<close>

lemma lower_checksum_char: "lower_char (checksum_char d i c) = lower_char c"
  by (simp add: checksum_char_def lower_upper_char split: option.splits)

lemma is_hex_checksum_char: "is_hex (checksum_char d i c) = is_hex c"
  by (metis is_hex_lower lower_checksum_char)

lemma lower_map2_checksum:
  "length is = length raw \<Longrightarrow> lower (map2 (checksum_char d) is raw) = lower raw"
  by (induction "is" raw rule: list_induct2) (simp_all add: lower_checksum_char)

lemma hex_map2_checksum:
  "length is = length raw \<Longrightarrow> list_all is_hex (map2 (checksum_char d) is raw) = list_all is_hex raw"
  by (induction "is" raw rule: list_induct2) (simp_all add: is_hex_checksum_char)

lemma hex_value_lower: "hex_value_acc a (lower s) = hex_value_acc a s"
  by (induction s arbitrary: a) (simp_all add: hex_digit_lower split: option.split)

lemma lower_hex_prefix: "list_all is_hex s \<Longrightarrow> \<not> startswith (lower s) ''0x''"
proof
  assume h: "list_all is_hex s" and x: "startswith (lower s) ''0x''"
  then have "CHR ''x'' \<in> set (lower s)" by (metis insertI1 insert_commute list.simps(15) set_take_subset startswith_def subsetD)
  then obtain c where c: "c \<in> set s" "lower_char c = CHR ''x''" by (auto simp: lower_def)
  from h c(1) have "is_hex (lower_char c)" by (simp add: list_all_iff)
  with c(2) show False by (simp add: is_hex_def hex_digit_value_def is_digit_def)
qed

lemma hex_int_lower: "list_all is_hex s \<Longrightarrow> hex_int s = (if s = [] then None else hex_value_acc 0 s)"
  using lower_hex_prefix [of s] by (simp add: hex_int_def)

lemma hex_strip: "list_all is_hex s \<Longrightarrow> strip (''0x'' @ s) = ''0x'' @ s"
proof (rule strip_no_space)
  have "is_hex c \<Longrightarrow> \<not> is_space c" for c
    by (auto simp: is_hex_def hex_digit_value_def is_digit_def is_space_def split: if_splits)
  then show "list_all is_hex s \<Longrightarrow> list_all (\<lambda>c. \<not> is_space c) (''0x'' @ s)"
    by (auto simp: list_all_iff is_space_def)
qed

lemma lower_char_0x [simp]: "lower_char (CHR ''0'') = CHR ''0''" "lower_char (CHR ''x'') = CHR ''x''"
  by (simp_all add: lower_char_def is_upper_def)

lemma removeprefix_0x [simp]: "removeprefix (''0x'' @ s) ''0x'' = s"
  by (simp add: removeprefix_def startswith_def)

context hash32
begin

lemma to_checksum_hex:
  assumes "list_all is_hex s" "length s \<le> 64"
  shows "\<exists>c. to_checksum keccak256 (''0x'' @ s) = Inr (''0x'' @ c) \<and> lower c = lower s \<and>
    list_all is_hex c \<and> length c = length s"
proof -
  have l: "lower (''0x'' @ s) = ''0x'' @ lower s" by simp
  have h: "list_all is_hex (lower s)" using assms(1) by (simp add: lower_def list_all_iff)
  show ?thesis
    using assms h lower_map2_checksum [of "[0..<length s]" "lower s"]
      hex_map2_checksum [of "[0..<length s]" "lower s"]
    by (simp add: to_checksum_def l removeprefix_def startswith_def digest_length Let_def)
qed

lemma to_checksum_lower: "to_checksum keccak256 (lower a) = to_checksum keccak256 a"
  by (simp add: to_checksum_def)

text \<open>What an accepted address looks like, and that its checksum form is a fixed point.\<close>

lemma normalize_address_shape:
  assumes "normalize_address keccak256 v = Inr a"
  shows "\<exists>c. a = ''0x'' @ c \<and> length c = 40 \<and> list_all is_hex c \<and> to_checksum keccak256 a = Inr a \<and>
    lower a = ''0x'' @ lower (drop 2 (strip v)) \<and> hex_int c \<noteq> Some 0"
proof -
  let ?b = "drop 2 (strip v)"
  from assms have b: "length ?b = 40" "list_all is_hex ?b" "hex_int ?b \<noteq> Some 0"
    and a: "to_checksum keccak256 (''0x'' @ ?b) = Inr a"
    by (auto simp: normalize_address_def Let_def result_simps split: if_splits)
  obtain c where c: "a = ''0x'' @ c" "lower c = lower ?b" "list_all is_hex c" "length c = 40"
    using to_checksum_hex [OF b(2)] b(1) a by auto
  have la: "lower a = ''0x'' @ lower ?b" by (simp add: c(1,2))
  have "lower a = lower (''0x'' @ ?b)" by (simp add: la)
  then have "to_checksum keccak256 a = Inr a" using to_checksum_lower a by metis
  moreover have "hex_int c = hex_int ?b"
  proof -
    have "hex_value_acc 0 c = hex_value_acc 0 ?b" using c(2) hex_value_lower by metis
    then show ?thesis using hex_int_lower [OF c(3)] hex_int_lower [OF b(2)] c(4) b(1) by auto
  qed
  ultimately show ?thesis using c b la by auto
qed

lemma normalize_address_idem:
  assumes "normalize_address keccak256 v = Inr a"
  shows "normalize_address keccak256 a = Inr a"
proof -
  obtain c where c: "a = ''0x'' @ c" "length c = 40" "list_all is_hex c"
    "to_checksum keccak256 a = Inr a" "hex_int c \<noteq> Some 0"
    using normalize_address_shape [OF assms] by blast
  have "strip a = a" using hex_strip c(1,3) by simp
  then show ?thesis using c by (simp add: normalize_address_def startswith_def Let_def)
qed

end

section \<open>The one1 form\<close>

lemma unat_list_less: "list_all (\<lambda>v. v < 2 ^ 8) (map unat (raw :: bytes))"
  using unat_byte_less by (simp add: list_all_iff)

lemma map_word_unat: "map word_of_nat (map unat (raw :: bytes)) = raw"
  by (simp add: map_idI)

lemma bech32_body:
  fixes raw :: bytes and hrp :: string
  assumes "length raw = 20"
  defines "data \<equiv> to_groups (map unat raw)"
  defines "cs \<equiv> bech32_checksum (hrp_expand hrp @ data)"
  shows "length data = 32 \<and> list_all (\<lambda>v. v < 2 ^ 5) (data @ cs) \<and> length cs = 6 \<and>
    bech32_polymod (hrp_expand hrp @ data @ cs) = 1 \<and> map word_of_nat (from_groups data) = raw"
proof -
  have g: "length data = 32 \<and> list_all (\<lambda>v. v < 2 ^ 5) data \<and> from_groups data = map unat raw"
    using from_to_groups [OF unat_list_less, of raw] assms(1) by (simp add: data_def)
  have c: "cs = be_digits 5 6 (bech32_polymod ((hrp_expand hrp @ data) @ replicate 6 0) XOR 1)"
    by (simp add: cs_def bech32_checksum_digits)
  have "list_all (\<lambda>v. v < 2 ^ 30) (hrp_expand hrp @ data)"
    using g hrp_expand_less by (force simp: list_all_iff)
  from polymod_checksum [OF this] have "bech32_polymod (hrp_expand hrp @ data @ cs) = 1"
    by (simp add: cs_def)
  moreover have "list_all (\<lambda>v. v < 2 ^ 5) (data @ cs)"
    using g be_digits_less [of _ 5 6] c by (auto simp: list_all_iff)
  moreover have "map word_of_nat (from_groups data) = raw" using g by (simp only: map_word_unat)
  ultimately show ?thesis using g c by simp
qed

lemma charset_strip_lower:
  assumes "list_all (\<lambda>v. v < 2 ^ 5) vs" "lower hrp = hrp" "list_all (\<lambda>c. \<not> is_space c) hrp"
  shows "lower (strip (hrp @ ''1'' @ charset_text vs)) = hrp @ ''1'' @ charset_text vs"
proof -
  have t: "lower_char c = c \<and> \<not> is_space c" if "c \<in> set (charset_text vs)" for c
    using charset_chars charset_text_chars [OF assms(1) that] by blast
  have "strip (hrp @ ''1'' @ charset_text vs) = hrp @ ''1'' @ charset_text vs"
    using t assms(3) by (intro strip_no_space) (auto simp: list_all_iff, simp add: is_space_def)
  moreover have "lower (charset_text vs) = charset_text vs"
    using t by (simp add: lower_def map_idI)
  ultimately show ?thesis using assms(2) by (simp add: lower_char_def is_upper_def)
qed

lemma one_hrp: "lower ''one'' = ''one''" "list_all (\<lambda>c. \<not> is_space c) ''one''"
  by code_simp+

text \<open>What the decoder does with the text of 38 symbols.\<close>

lemma from_one1_symbols:
  assumes "list_all (\<lambda>v. v < 2 ^ 5) vs" "length vs = 38"
  shows "from_one1 k (''one1'' @ charset_text vs) ''one'' False =
    (if bech32_polymod (hrp_expand ''one'' @ vs) \<noteq> 1 then Inl (InputError ''bad one1 address checksum'')
     else Inr (''0x'' @ hex_of (map word_of_nat (from_groups (take 32 vs)))))"
  using charset_strip_lower [OF assms(1) one_hrp] charset_roundtrip [OF assms(1)] assms(2)
  by (simp add: from_one1_def startswith_def Let_def)

section \<open>Properties\<close>

text \<open>
  C35. Converting a 20-byte address to its \<^verbatim>\<open>one1\<close> form and back gives the same address, in
  lower case: the checksum that the encoder appends is accepted by the decoder and the regrouping of
  bits loses nothing.
\<close>

theorem from_one1_to_one1:
  assumes "unhex address = Inr raw" "length raw = 20"
  shows "bindR (to_one1 address ''one'') (\<lambda>t. from_one1 keccak256 t ''one'' False) =
    Inr (''0x'' @ hex_of raw)"
proof -
  let ?data = "to_groups (map unat raw)"
  let ?cs = "bech32_checksum (hrp_expand ''one'' @ ?data)"
  note b = bech32_body [OF assms(2), of "''one''"]
  have "to_one1 address ''one'' = Inr (''one1'' @ charset_text (?data @ ?cs))"
    by (simp add: to_one1_def assms(1) Let_def)
  moreover have "from_one1 keccak256 (''one1'' @ charset_text (?data @ ?cs)) ''one'' False =
      Inr (''0x'' @ hex_of raw)"
    using b by (subst from_one1_symbols) simp_all
  ultimately show ?thesis by simp
qed

theorem from_one1_to_one1_witness:
  "bindR (to_one1 ''0x0102030405060708090a0b0c0d0e0f1011121314'' ''one'')
     (\<lambda>t. from_one1 (\<lambda>d. []) t ''one'' False) =
   Inr ''0x0102030405060708090a0b0c0d0e0f1011121314''"
proof -
  let ?raw = "[1, 2, 3, 4, 5, 6, 7, 8, 9, 10, 11, 12, 13, 14, 15, 16, 17, 18, 19, 20] :: bytes"
  have "unhex ''0x0102030405060708090a0b0c0d0e0f1011121314'' = Inr ?raw" by code_simp
  moreover have "length ?raw = 20" by simp
  moreover have "''0x'' @ hex_of ?raw = ''0x0102030405060708090a0b0c0d0e0f1011121314''" by code_simp
  ultimately show ?thesis using from_one1_to_one1 [of _ ?raw "\<lambda>d. []"] by simp
qed

text \<open>
  C36. The decoder refuses every \<^verbatim>\<open>one1\<close> text that is an accepted one with exactly one of its 38 data
  characters replaced by another character of the bech32 alphabet, wherever it is.
\<close>

theorem from_one1_single_error:
  assumes ok: "from_one1 keccak256 (''one1'' @ charset_text (u @ a # v)) ''one'' False = Inr x"
    and sym: "list_all (\<lambda>s. s < 32) (u @ a # v)" "length (u @ a # v) = 38" "b < 32" "a \<noteq> b"
  shows "from_one1 keccak256 (''one1'' @ charset_text (u @ b # v)) ''one'' False =
    Inl (InputError ''bad one1 address checksum'')"
proof -
  have a: "list_all (\<lambda>s. s < 2 ^ 5) (u @ a # v)" and b: "list_all (\<lambda>s. s < 2 ^ 5) (u @ b # v)"
    using sym by simp_all
  have "bech32_polymod ((hrp_expand ''one'' @ u) @ a # v) = 1"
    using ok from_one1_symbols [OF a sym(2)] by (simp split: if_splits)
  moreover have "bech32_polymod ((hrp_expand ''one'' @ u) @ a # v) \<noteq>
      bech32_polymod ((hrp_expand ''one'' @ u) @ b # v)"
    using sym(3,4) a by (intro polymod_single_error) simp_all
  ultimately have "bech32_polymod (hrp_expand ''one'' @ u @ b # v) \<noteq> 1" by simp
  then show ?thesis using from_one1_symbols [OF b] sym(2) by simp
qed

theorem from_one1_single_error_witness:
  "from_one1 (\<lambda>d. []) (''one1'' @ charset_text (1 # replicate 31 0 @
     bech32_checksum (hrp_expand ''one'' @ replicate 32 0))) ''one'' False =
   Inl (InputError ''bad one1 address checksum'')"
proof -
  let ?cs = "bech32_checksum (hrp_expand ''one'' @ replicate 32 0)"
  have g: "to_groups (map unat (replicate 20 0 :: bytes)) = 0 # replicate 31 0" by code_simp
  have z: "replicate 32 0 = 0 # replicate 31 (0 :: nat)" by code_simp
  note b = bech32_body [of "replicate 20 0" "''one''", unfolded g, folded z]
  have sym: "list_all (\<lambda>s. s < 32) ([] @ 0 # replicate 31 0 @ ?cs)"
    "length ([] @ 0 # replicate 31 0 @ ?cs) = 38"
    using b by (simp_all add: z)
  have "from_one1 (\<lambda>d. []) (''one1'' @ charset_text ([] @ 0 # replicate 31 0 @ ?cs)) ''one'' False =
      Inr (''0x'' @ hex_of (map word_of_nat (from_groups (take 32 (replicate 32 0 @ ?cs)))))"
    using sym b by (subst from_one1_symbols) (simp_all add: z)
  from from_one1_single_error [OF this sym, of 1] show ?thesis by simp
qed

text \<open>
  A validated address is a fixed point of validation: reading an address that the tools wrote
  (\<^verbatim>\<open>distribution.csv\<close>, batch files) never changes it and never fails, for every hash with
  32-byte digests.
\<close>

theorem normalize_address_fixpoint:
  assumes "\<And>d. length (keccak256 d) = 32" "normalize_address keccak256 v = Inr a"
  shows "normalize_address keccak256 a = Inr a \<and> to_checksum keccak256 a = Inr a \<and> length a = 42"
proof -
  have h: "hash32 keccak256" using assms(1) by (rule hash32.intro)
  show ?thesis
    using hash32.normalize_address_idem [OF h assms(2)] hash32.normalize_address_shape [OF h assms(2)]
    by auto
qed

theorem normalize_address_fixpoint_witness:
  "normalize_address (\<lambda>d. replicate 32 0) ''0x00000000000000000000000000000000000000aB'' =
     Inl (InputError ''address checksum is wrong (typo?)'') \<and>
   normalize_address (\<lambda>d. replicate 32 0) '' 0X00000000000000000000000000000000000000AB'' =
     Inr ''0x00000000000000000000000000000000000000ab'' \<and>
   normalize_address (\<lambda>d. replicate 32 0) ''0x00000000000000000000000000000000000000ab'' =
     Inr ''0x00000000000000000000000000000000000000ab''"
proof -
  have "normalize_address (\<lambda>d. replicate 32 0) '' 0X00000000000000000000000000000000000000AB'' =
     Inr ''0x00000000000000000000000000000000000000ab''" by code_simp
  moreover have "normalize_address (\<lambda>d. replicate 32 0) ''0x00000000000000000000000000000000000000aB'' =
     Inl (InputError ''address checksum is wrong (typo?)'')" by code_simp
  ultimately show ?thesis
    using normalize_address_fixpoint [of "\<lambda>d. replicate 32 0"] by simp
qed

end
