(* ===== verification/Csv.thy ===== *)
theory Csv
  imports PyText
begin

text \<open>
  Text files and the \<^verbatim>\<open>csv\<close> module in its default dialect, as the scripts use them: lines
  with their terminators, the reader as the character automaton of CPython, the writer with minimal
  quoting. Rows whose fields need no quotes survive a round trip.
\<close>

section \<open>Lines\<close>

abbreviation LF :: char where "LF \<equiv> CHR 0x0A"

abbreviation CR :: char where "CR \<equiv> CHR 0x0D"

text \<open>
  The lines of a file opened with \<^verbatim>\<open>newline=""\<close>: terminated by LF, CR or CR LF, which stay on
  the line.
\<close>

fun raw_lines_acc :: "string \<Rightarrow> string \<Rightarrow> string list" where
  "raw_lines_acc acc [] = (if acc = [] then [] else [rev acc])"
| "raw_lines_acc acc (c # cs) =
     (if c = LF then rev (c # acc) # raw_lines_acc [] cs
      else if c = CR then
        (case cs of
           d # ds \<Rightarrow> if d = LF then rev (d # c # acc) # raw_lines_acc [] ds
                     else rev (c # acc) # raw_lines_acc [] cs
         | [] \<Rightarrow> [rev (c # acc)])
      else raw_lines_acc (c # acc) cs)"

definition raw_lines :: "string \<Rightarrow> string list" where
  "raw_lines t = raw_lines_acc [] t"

section \<open>The reader\<close>

datatype csv_mode = StartRecord | StartField | InField | InQuoted | QuoteInQuoted | EatNewline

record csv_parser =
  csv_mode :: csv_mode
  csv_field :: string
  csv_fields :: "string list"

definition csv_start :: csv_parser where
  "csv_start = \<lparr>csv_mode = StartRecord, csv_field = [], csv_fields = []\<rparr>"

definition save_field :: "csv_mode \<Rightarrow> csv_parser \<Rightarrow> csv_parser" where
  "save_field m p = p\<lparr>csv_mode := m, csv_field := [], csv_fields := csv_fields p @ [csv_field p]\<rparr>"

definition add_char :: "csv_mode \<Rightarrow> char \<Rightarrow> csv_parser \<Rightarrow> csv_parser" where
  "add_char m c p = p\<lparr>csv_mode := m, csv_field := csv_field p @ [c]\<rparr>"

definition is_newline :: "char \<Rightarrow> bool" where
  "is_newline c \<longleftrightarrow> c = LF \<or> c = CR"

text \<open>
  One step of the automaton. The end of a line is \<open>None\<close>. A character after the terminator of
  a line does not occur, because \<open>raw_lines\<close> splits there.
\<close>

definition start_field :: "csv_parser \<Rightarrow> char \<Rightarrow> csv_parser" where
  "start_field p c =
     (if is_newline c then save_field EatNewline p
      else if c = CHR 0x22 then p\<lparr>csv_mode := InQuoted\<rparr>
      else if c = CHR '','' then save_field StartField p
      else add_char InField c p)"

fun csv_step :: "csv_parser \<Rightarrow> char option \<Rightarrow> csv_parser" where
  "csv_step p None =
     (case csv_mode p of
        StartRecord \<Rightarrow> p
      | EatNewline \<Rightarrow> p\<lparr>csv_mode := StartRecord\<rparr>
      | InQuoted \<Rightarrow> p
      | _ \<Rightarrow> save_field StartRecord p)"
| "csv_step p (Some c) =
     (case csv_mode p of
        StartRecord \<Rightarrow> if is_newline c then p\<lparr>csv_mode := EatNewline\<rparr> else start_field p c
      | StartField \<Rightarrow> start_field p c
      | InField \<Rightarrow> (if is_newline c then save_field EatNewline p
          else if c = CHR '','' then save_field StartField p else add_char InField c p)
      | InQuoted \<Rightarrow> (if c = CHR 0x22 then p\<lparr>csv_mode := QuoteInQuoted\<rparr> else add_char InQuoted c p)
      | QuoteInQuoted \<Rightarrow> (if c = CHR 0x22 then add_char InQuoted c p
          else if is_newline c then save_field EatNewline p
          else if c = CHR '','' then save_field StartField p else add_char InField c p)
      | EatNewline \<Rightarrow> p)"

fun csv_records_from :: "csv_parser \<Rightarrow> string list \<Rightarrow> string list list" where
  "csv_records_from p [] =
     (if csv_field p \<noteq> [] \<or> csv_mode p = InQuoted then [csv_fields p @ [csv_field p]] else [])"
| "csv_records_from p (line # rest) =
     (let p' = foldl csv_step p (map Some line @ [None])
      in if csv_mode p' = StartRecord then csv_fields p' # csv_records_from csv_start rest
         else csv_records_from p' rest)"

definition csv_reader :: "string \<Rightarrow> string list list" where
  "csv_reader t = csv_records_from csv_start (raw_lines t)"

section \<open>The writer\<close>

definition is_special :: "char \<Rightarrow> bool" where
  "is_special c \<longleftrightarrow> c = CHR '','' \<or> c = CHR 0x22 \<or> is_newline c"

definition needs_quotes :: "string \<Rightarrow> bool" where
  "needs_quotes field \<longleftrightarrow> (\<exists>c \<in> set field. is_special c)"

definition quoted :: "string \<Rightarrow> string" where
  "quoted field = CHR 0x22 # concat (map (\<lambda>c. if c = CHR 0x22 then [c, c] else [c]) field) @ [CHR 0x22]"

definition csv_cell :: "string \<Rightarrow> string" where
  "csv_cell field = (if needs_quotes field then quoted field else field)"

fun join_cells :: "string list \<Rightarrow> string" where
  "join_cells [] = []"
| "join_cells [c] = csv_cell c"
| "join_cells (c # cs) = csv_cell c @ CHR '','' # join_cells cs"

text \<open>\<^verbatim>\<open>writerow\<close> with \<^verbatim>\<open>lineterminator="\n"\<close>; a single empty field is written quoted.\<close>

definition writerow :: "string list \<Rightarrow> string" where
  "writerow row = (if row = [''''] then [CHR 0x22, CHR 0x22] else join_cells row) @ [LF]"

definition csv_text :: "string list list \<Rightarrow> string" where
  "csv_text rows = concat (map writerow rows)"

section \<open>Round trip of plain rows\<close>

definition plain_row :: "string list \<Rightarrow> bool" where
  "plain_row row \<longleftrightarrow> row \<noteq> [] \<and> row \<noteq> [[]] \<and> (\<forall>f \<in> set row. \<not> needs_quotes f)"

lemma raw_lines_acc_line:
  assumes "\<forall>c \<in> set line. \<not> is_newline c"
  shows "raw_lines_acc acc (line @ LF # rest) = (rev acc @ line @ [LF]) # raw_lines_acc [] rest"
  using assms by (induction line arbitrary: acc) (auto simp: is_newline_def)

lemma not_special: "\<not> is_special c \<Longrightarrow> c \<noteq> CHR '','' \<and> c \<noteq> CHR 0x22 \<and> \<not> is_newline c"
  by (simp add: is_special_def)

lemma needs_quotes_Cons [simp]: "needs_quotes (c # f) \<longleftrightarrow> is_special c \<or> needs_quotes f"
  by (simp add: needs_quotes_def)

lemma no_quotes_no_newline: "\<not> needs_quotes f \<Longrightarrow> c \<in> set f \<Longrightarrow> \<not> is_newline c"
  by (auto simp: needs_quotes_def is_special_def)

lemma comma_no_newline: "\<not> is_newline (CHR '','')"
  by (simp add: is_newline_def)

lemma join_cells_no_newline:
  "\<forall>f \<in> set row. \<not> needs_quotes f \<Longrightarrow> \<forall>c \<in> set (join_cells row). \<not> is_newline c"
  by (induction row rule: join_cells.induct) (auto simp: csv_cell_def no_quotes_no_newline comma_no_newline)

lemma csv_steps_in_field:
  "\<not> needs_quotes f \<Longrightarrow> foldl csv_step \<lparr>csv_mode = InField, csv_field = acc, csv_fields = fs\<rparr> (map Some f) =
   \<lparr>csv_mode = InField, csv_field = acc @ f, csv_fields = fs\<rparr>"
  by (induction f arbitrary: acc) (simp_all add: not_special add_char_def)

lemma csv_steps_field:
  assumes "f \<noteq> []" "\<not> needs_quotes f" "m = StartRecord \<or> m = StartField"
  shows "foldl csv_step \<lparr>csv_mode = m, csv_field = [], csv_fields = fs\<rparr> (map Some f) =
    \<lparr>csv_mode = InField, csv_field = f, csv_fields = fs\<rparr>"
proof -
  obtain c cs where f: "f = c # cs" using assms(1) by (cases f) auto
  then have "csv_step \<lparr>csv_mode = m, csv_field = [], csv_fields = fs\<rparr> (Some c) =
      \<lparr>csv_mode = InField, csv_field = [c], csv_fields = fs\<rparr>"
    using assms(2, 3) by (auto simp: start_field_def add_char_def dest: not_special)
  moreover have "\<not> needs_quotes cs" using assms(2) f by simp
  ultimately show ?thesis using csv_steps_in_field [of cs "[c]" fs] f by simp
qed

lemma csv_steps_cell:
  assumes "\<not> needs_quotes f" "m = StartRecord \<or> m = StartField"
  shows "foldl csv_step \<lparr>csv_mode = m, csv_field = [], csv_fields = fs\<rparr> (map Some (f @ '','')) =
    \<lparr>csv_mode = StartField, csv_field = [], csv_fields = fs @ [f]\<rparr>"
proof (cases "f = []")
  case True
  then show ?thesis using assms(2) by (auto simp: start_field_def save_field_def is_newline_def)
next
  case False
  then show ?thesis using assms by (simp add: csv_steps_field is_newline_def save_field_def)
qed

lemma csv_steps_row:
  assumes "row \<noteq> []" "\<forall>f \<in> set row. \<not> needs_quotes f" "m = StartField \<or> m = StartRecord \<and> row \<noteq> [[]]"
  shows "foldl csv_step \<lparr>csv_mode = m, csv_field = [], csv_fields = fs\<rparr> (map Some (join_cells row @ [LF]) @ [None]) =
    \<lparr>csv_mode = StartRecord, csv_field = [], csv_fields = fs @ row\<rparr>"
  using assms
proof (induction row arbitrary: fs m rule: join_cells.induct)
  case (2 c)
  then show ?case
    by (cases "c = []") (auto simp: csv_cell_def csv_steps_field is_newline_def save_field_def start_field_def)
next
  case (3 c d cs)
  have "foldl csv_step \<lparr>csv_mode = m, csv_field = [], csv_fields = fs\<rparr> (map Some (c @ '','')) =
      \<lparr>csv_mode = StartField, csv_field = [], csv_fields = fs @ [c]\<rparr>"
    using 3 by (intro csv_steps_cell) auto
  with 3 show ?case by (simp add: csv_cell_def)
qed simp

lemma csv_reader_writerow:
  assumes "plain_row row"
  shows "csv_reader (writerow row @ rest) = row # csv_reader rest"
proof -
  have "row \<noteq> ['''']" using assms by (auto simp: plain_row_def)
  then have "raw_lines (writerow row @ rest) = (join_cells row @ [LF]) # raw_lines rest"
    using raw_lines_acc_line [OF join_cells_no_newline, of row "[]" rest] assms
    by (simp add: raw_lines_def writerow_def plain_row_def)
  then show ?thesis
    using csv_steps_row [of row StartRecord "[]"] assms by (simp add: csv_reader_def csv_start_def plain_row_def)
qed

lemma csv_reader_text: "\<forall>row \<in> set rows. plain_row row \<Longrightarrow> csv_reader (csv_text rows) = rows"
proof (induction rows)
  case Nil
  then show ?case by (simp add: csv_text_def csv_reader_def raw_lines_def csv_start_def)
next
  case (Cons row rows)
  then show ?case using csv_reader_writerow [of row "csv_text rows"] by (simp add: csv_text_def)
qed

end
