(* ===== verification/Sha256.thy ===== *)
theory Sha256
  imports Keccak
begin

unbundle bit_operations_syntax

text \<open>
  SHA-256 of \<^verbatim>\<open>hashlib\<close>, as the scripts use it for the fingerprints of their files and for
  the reproducible draw of recipients: message schedule and compression on 32-bit words.
\<close>

type_synonym word32 = "32 word"

text \<open>The 64 round constants, eight to a row of 256 bits, the first in the most significant place.\<close>

definition SHA256_K_rows :: "256 word list" where
  "SHA256_K_rows =
    [0x428a2f9871374491b5c0fbcfe9b5dba53956c25b59f111f1923f82a4ab1c5ed5,
     0xd807aa9812835b01243185be550c7dc372be5d7480deb1fe9bdc06a7c19bf174,
     0xe49b69c1efbe47860fc19dc6240ca1cc2de92c6f4a7484aa5cb0a9dc76f988da,
     0x983e5152a831c66db00327c8bf597fc7c6e00bf3d5a7914706ca635114292967,
     0x27b70a852e1b21384d2c6dfc53380d13650a7354766a0abb81c2c92e92722c85,
     0xa2bfe8a1a81a664bc24b8b70c76c51a3d192e819d6990624f40e3585106aa070,
     0x19a4c1161e376c082748774c34b0bcb5391c0cb34ed8aa4a5b9cca4f682e6ff3,
     0x748f82ee78a5636f84c878148cc7020890befffaa4506cebbef9a3f7c67178f2]"

definition SHA256_K :: "word32 list" where
  "SHA256_K = concat (map (\<lambda>row. map (\<lambda>i. ucast (drop_bit (32 * (7 - i)) row)) [0..<8]) SHA256_K_rows)"

record sha256_state =
  sha_a :: word32
  sha_b :: word32
  sha_c :: word32
  sha_d :: word32
  sha_e :: word32
  sha_f :: word32
  sha_g :: word32
  sha_h :: word32

definition sha256_init :: sha256_state where
  "sha256_init = \<lparr>sha_a = 0x6a09e667, sha_b = 0xbb67ae85, sha_c = 0x3c6ef372, sha_d = 0xa54ff53a,
     sha_e = 0x510e527f, sha_f = 0x9b05688c, sha_g = 0x1f83d9ab, sha_h = 0x5be0cd19\<rparr>"

definition rotr32 :: "word32 \<Rightarrow> nat \<Rightarrow> word32" where
  "rotr32 w n = drop_bit n w OR push_bit (32 - n) w"

text \<open>The schedule is extended from its 16 latest words, kept newest first.\<close>

definition schedule_next :: "word32 list \<Rightarrow> word32" where
  "schedule_next ws =
     (let w15 = ws ! 14; w2 = ws ! 1;
          s0 = rotr32 w15 7 XOR rotr32 w15 18 XOR drop_bit 3 w15;
          s1 = rotr32 w2 17 XOR rotr32 w2 19 XOR drop_bit 10 w2
      in ws ! 15 + s0 + ws ! 6 + s1)"

fun schedule_extend :: "nat \<Rightarrow> word32 list \<Rightarrow> word32 list" where
  "schedule_extend 0 ws = ws"
| "schedule_extend (Suc n) ws = schedule_extend n (schedule_next ws # ws)"

definition schedule :: "word32 list \<Rightarrow> word32 list" where
  "schedule block = rev (schedule_extend 48 (rev block))"

definition sha256_round :: "sha256_state \<Rightarrow> word32 \<times> word32 \<Rightarrow> sha256_state" where
  "sha256_round s kw =
     (let e = sha_e s; a = sha_a s;
          s1 = rotr32 e 6 XOR rotr32 e 11 XOR rotr32 e 25;
          ch = (e AND sha_f s) XOR (NOT e AND sha_g s);
          t1 = sha_h s + s1 + ch + fst kw + snd kw;
          s0 = rotr32 a 2 XOR rotr32 a 13 XOR rotr32 a 22;
          maj = (a AND sha_b s) XOR (a AND sha_c s) XOR (sha_b s AND sha_c s)
      in \<lparr>sha_a = t1 + (s0 + maj), sha_b = a, sha_c = sha_b s, sha_d = sha_c s,
          sha_e = sha_d s + t1, sha_f = e, sha_g = sha_f s, sha_h = sha_g s\<rparr>)"

definition sha256_add :: "sha256_state \<Rightarrow> sha256_state \<Rightarrow> sha256_state" where
  "sha256_add s t = \<lparr>sha_a = sha_a s + sha_a t, sha_b = sha_b s + sha_b t, sha_c = sha_c s + sha_c t,
     sha_d = sha_d s + sha_d t, sha_e = sha_e s + sha_e t, sha_f = sha_f s + sha_f t,
     sha_g = sha_g s + sha_g t, sha_h = sha_h s + sha_h t\<rparr>"

definition word32_of_bytes :: "bytes \<Rightarrow> word32" where
  "word32_of_bytes bs = word_of_nat (from_bytes_big bs)"

definition bytes_of_word32 :: "word32 \<Rightarrow> bytes" where
  "bytes_of_word32 w = map (\<lambda>i. ucast (drop_bit (8 * (3 - i)) w)) [0..<4]"

definition sha256_block :: "sha256_state \<Rightarrow> bytes \<Rightarrow> sha256_state" where
  "sha256_block s block =
     sha256_add s (foldl sha256_round s
       (zip SHA256_K (schedule (map (\<lambda>i. word32_of_bytes (take 4 (drop (4 * i) block))) [0..<16]))))"

function sha256_blocks :: "sha256_state \<Rightarrow> bytes \<Rightarrow> sha256_state" where
  "sha256_blocks s bs = (if bs = [] then s else sha256_blocks (sha256_block s (take 64 bs)) (drop 64 bs))"
  by pat_completeness auto
termination by (relation "measure (\<lambda>(s, bs). length bs)") auto

declare sha256_blocks.simps [simp del]

definition sha256_pad :: "bytes \<Rightarrow> bytes" where
  "sha256_pad bs = bs @ 0x80 # replicate ((119 - length bs mod 64) mod 64) 0 @ to_bytes_big 8 (8 * length bs)"

definition sha256 :: "bytes \<Rightarrow> bytes" where
  "sha256 bs =
     (let s = sha256_blocks sha256_init (sha256_pad bs)
      in concat (map bytes_of_word32
           [sha_a s, sha_b s, sha_c s, sha_d s, sha_e s, sha_f s, sha_g s, sha_h s]))"

lemma length_sha256 [simp]: "length (sha256 bs) = 32"
  by (simp add: sha256_def Let_def bytes_of_word32_def)

text \<open>\<^verbatim>\<open>sha256_file\<close> of the scripts: the fingerprint of a file's bytes.\<close>

definition sha256_hex :: "bytes \<Rightarrow> string" where
  "sha256_hex bs = hex_of (sha256 bs)"

definition sha256_file :: "bytes \<Rightarrow> string" where
  "sha256_file bs = ''0x'' @ sha256_hex bs"

end
