(* ===== verification/Recipients.thy ===== *)
theory Recipients
  imports Amounts Addresses Csv Sha256
begin

text \<open>
  Recipient lists of \<^verbatim>\<open>airdrop/tools/common.py\<close>: column detection, the review of claim portal
  exports, reading CSV files into rows, merging and ordering the rows, and cutting them into batches.
  A file is its path and its decoded text.
\<close>

section \<open>Input files\<close>

record row =
  row_address :: string
  row_amount :: int
  row_source :: string

abbreviation row_key :: "row \<Rightarrow> string" where
  "row_key r \<equiv> lower (row_address r)"

type_synonym text_file = "string \<times> string"

text \<open>What \<^verbatim>\<open>--input\<close> names: a file, a directory with its regular files, or nothing.\<close>

datatype input_path = InputFile string string | InputDir string "text_file list" | InputMissing

definition path_suffix :: "string \<Rightarrow> string" where
  "path_suffix name =
     (let tail = rev (takeWhile (\<lambda>c. c \<noteq> CHR ''.'') (rev name));
          before = take (length name - length tail - 1) name
      in if CHR ''.'' \<notin> set name \<or> before = [] \<or> tail = [] then [] else CHR ''.'' # tail)"

fun csv_sources :: "input_path \<Rightarrow> text_file list result" where
  "csv_sources (InputDir dir entries) =
     (let files = sort_key fst (filter (\<lambda>(name, _). lower (path_suffix name) = ''.csv'') entries)
      in if files = [] then Inl (InputError ''no .csv files in directory'')
         else Inr (map (\<lambda>(name, content). (dir @ CHR ''/'' # name, content)) files))"
| "csv_sources InputMissing = Inl (InputError ''input not found'')"
| "csv_sources (InputFile path content) = Inr [(path, content)]"

section \<open>Columns\<close>

definition ADDRESS_COLUMNS :: "string list" where
  "ADDRESS_COLUMNS = [''address'', ''destination_address'', ''recipient'', ''recipient_address'', ''to'', ''wallet'']"

definition ATTO_COLUMNS :: "string list" where
  "ATTO_COLUMNS = [''amount_atto'', ''amount_wei'', ''atto'', ''wei'', ''amount_smallest_unit'']"

definition ONE_COLUMNS :: "string list" where
  "ONE_COLUMNS = [''amount_one'', ''amount_ether'', ''one'', ''ether'']"

definition GENERIC_AMOUNT_COLUMNS :: "string list" where
  "GENERIC_AMOUNT_COLUMNS = [''amount'', ''value'']"

text \<open>An optional argument is used only when it is given and not empty.\<close>

definition given :: "string option \<Rightarrow> string option" where
  "given x = (case x of None \<Rightarrow> None | Some s \<Rightarrow> if s = [] then None else Some s)"

definition lowered_header :: "string list \<Rightarrow> (string, string) dict" where
  "lowered_header header = foldl (\<lambda>d h. dict_set (lower (strip h)) h d) [] header"

definition pick_column :: "string list \<Rightarrow> string option \<Rightarrow> string list \<Rightarrow> string result" where
  "pick_column header wanted candidates =
     (let lowered = lowered_header header in
      case given wanted of
        Some w \<Rightarrow> of_option (InputError ''column not found'') (dict_get lowered (lower w))
      | None \<Rightarrow>
          let hits = List.map_filter (dict_get lowered) candidates in
          (case hits of
             [h] \<Rightarrow> Inr h
           | [] \<Rightarrow> Inl (InputError ''could not find the column'')
           | _ \<Rightarrow> Inl (InputError ''several possible columns'')))"

definition detect_amount_unit :: "string \<Rightarrow> string option \<Rightarrow> string result" where
  "detect_amount_unit column explicit =
     (case given explicit of
        Some u \<Rightarrow> Inr u
      | None \<Rightarrow>
          let name = lower (strip column) in
          if name \<in> set ATTO_COLUMNS \<or> endswith name ''_atto'' \<or> endswith name ''_wei'' then Inr ''atto''
          else if name \<in> set ONE_COLUMNS \<or> endswith name ''_one'' then Inr ''one''
          else Inl (InputError ''cannot tell whether column is in atto (smallest unit) or ONE''))"

section \<open>Claim portal exports\<close>

definition PORTAL_DECISION_COLUMN :: string where "PORTAL_DECISION_COLUMN = ''decision''"

definition PORTAL_WALLET_STATUS_COLUMN :: string where "PORTAL_WALLET_STATUS_COLUMN = ''wallet_status''"

definition PORTAL_VAULT_STATUS_COLUMN :: string where "PORTAL_VAULT_STATUS_COLUMN = ''sent_status''"

record portal_review =
  pr_decision :: "nat option"
  pr_status :: "nat option"
  pr_status_column :: string

definition make_review :: "string list \<Rightarrow> string \<Rightarrow> portal_review" where
  "make_review header status_column =
     (let lowered = map (\<lambda>h. lower (strip h)) header
      in \<lparr>pr_decision = index_of lowered PORTAL_DECISION_COLUMN,
          pr_status = index_of lowered status_column, pr_status_column = status_column\<rparr>)"

definition review_columns :: "portal_review \<Rightarrow> string list" where
  "review_columns p = (if pr_decision p = None then [] else [PORTAL_DECISION_COLUMN]) @
     (if pr_status p = None then [] else [pr_status_column p])"

definition review_cell :: "string list \<Rightarrow> nat \<Rightarrow> string" where
  "review_cell record index = (if index < length record then lower (strip (record ! index)) else [])"

definition review_check :: "portal_review \<Rightarrow> string list \<Rightarrow> unit result" where
  "review_check p record =
     bindR (case pr_decision p of
        Some d \<Rightarrow> require (review_cell record d = ''approved'') (InputError ''decision is not approved'')
      | None \<Rightarrow> Inr ()) (\<lambda>_.
     case pr_status p of
        Some s \<Rightarrow> require (review_cell record s = ''pending'') (InputError ''status is not pending'')
      | None \<Rightarrow> Inr ())"

section \<open>Reading rows\<close>

record source_info =
  si_path :: string
  si_sha256 :: string
  si_rows :: nat
  si_review_columns :: "string list"

record read_info =
  ri_sources :: "source_info list"
  ri_address_column :: string
  ri_amount_column :: string
  ri_amount_unit :: string

definition blank_record :: "string list \<Rightarrow> bool" where
  "blank_record record \<longleftrightarrow> (\<forall>cell \<in> set record. strip cell = [])"

definition read_list_record :: "(bytes \<Rightarrow> bytes) \<Rightarrow> string \<Rightarrow> string \<Rightarrow> nat \<Rightarrow> nat \<Rightarrow>
    portal_review option \<Rightarrow> row list \<Rightarrow> nat \<times> string list \<Rightarrow> row list result" where
  "read_list_record keccak256 path unit ai mi review rows numbered =
     (case numbered of (line_no, record) \<Rightarrow>
        if blank_record record then Inr rows
        else if length record \<le> max ai mi then Inl (InputError ''too few columns'')
        else bindR (case review of None \<Rightarrow> Inr () | Some p \<Rightarrow> review_check p record) (\<lambda>_.
          bindR (normalize_address keccak256 (record ! ai)) (\<lambda>address.
          bindR (parse_amount (record ! mi) unit) (\<lambda>amount.
            Inr (rows @ [\<lparr>row_address = address, row_amount = amount,
                           row_source = path @ CHR '':'' # str_nat line_no\<rparr>])))))"

record read_state =
  rs_rows :: "row list"
  rs_sources :: "source_info list"
  rs_unit :: "string option"
  rs_columns :: "(string \<times> string) option"

definition read_list_file :: "(bytes \<Rightarrow> bytes) \<Rightarrow> string option \<Rightarrow> string option \<Rightarrow> string option \<Rightarrow> bool \<Rightarrow>
    read_state \<Rightarrow> text_file \<Rightarrow> read_state result" where
  "read_list_file keccak256 address_column amount_column amount_unit review_portal st file =
     (case file of (path, content) \<Rightarrow>
      case csv_reader content of
        [] \<Rightarrow> Inl (InputError ''empty file'')
      | header # records \<Rightarrow>
          if review_portal \<and> PORTAL_VAULT_STATUS_COLUMN \<in> set (map (\<lambda>h. lower (strip h)) header)
          then Inl (InputError ''this is the claim portal's vault-shares export'')
          else
            let review = (if review_portal then Some (make_review header PORTAL_WALLET_STATUS_COLUMN) else None) in
            bindR (pick_column header address_column ADDRESS_COLUMNS) (\<lambda>addr_col.
            bindR (pick_column header amount_column (ATTO_COLUMNS @ ONE_COLUMNS @ GENERIC_AMOUNT_COLUMNS)) (\<lambda>amt_col.
            bindR (detect_amount_unit amt_col amount_unit) (\<lambda>unit.
            if rs_unit st \<noteq> None \<and> rs_unit st \<noteq> Some unit
            then Inl (InputError ''amount unit differs from earlier files'')
            else
              bindR (of_option (ValueError ''not in list'') (index_of header addr_col)) (\<lambda>ai.
              bindR (of_option (ValueError ''not in list'') (index_of header amt_col)) (\<lambda>mi.
              bindR (foldM (read_list_record keccak256 path unit ai mi review) [] (enumerate 2 records)) (\<lambda>rows.
                Inr \<lparr>rs_rows = rs_rows st @ rows,
                     rs_sources = rs_sources st @ [\<lparr>si_path = path, si_sha256 = sha256_file (encode content),
                       si_rows = length rows,
                       si_review_columns = (case review of None \<Rightarrow> [] | Some p \<Rightarrow> review_columns p)\<rparr>],
                     rs_unit = Some unit, rs_columns = Some (addr_col, amt_col)\<rparr>)))))))"

definition read_rows :: "(bytes \<Rightarrow> bytes) \<Rightarrow> input_path \<Rightarrow> string option \<Rightarrow> string option \<Rightarrow> string option \<Rightarrow> bool \<Rightarrow>
    (row list \<times> read_info) result" where
  "read_rows keccak256 input address_column amount_column amount_unit review_portal =
     bindR (csv_sources input) (\<lambda>files.
     bindR (foldM (read_list_file keccak256 address_column amount_column amount_unit review_portal)
        \<lparr>rs_rows = [], rs_sources = [], rs_unit = None, rs_columns = None\<rparr> files) (\<lambda>st.
       if rs_rows st = [] then Inl (InputError ''the input contains no recipients'')
       else bindR (of_option (InputError ''the input contains no recipients'') (rs_columns st)) (\<lambda>(a, m).
         bindR (of_option (InputError ''the input contains no recipients'') (rs_unit st)) (\<lambda>u.
           Inr (rs_rows st, \<lparr>ri_sources = rs_sources st, ri_address_column = a, ri_amount_column = m,
                             ri_amount_unit = u\<rparr>)))))"

section \<open>Consolidation\<close>

fun consolidate_step :: "bool \<Rightarrow> (string, row) dict \<times> string list \<Rightarrow> row \<Rightarrow> (string, row) dict \<times> string list" where
  "consolidate_step merge_duplicates (by_address, duplicates) r =
     (let key = row_key r in
      case dict_get by_address key of
        Some prev \<Rightarrow>
          if merge_duplicates
          then (dict_set key \<lparr>row_address = row_address prev, row_amount = row_amount prev + row_amount r,
                   row_source = row_source prev @ CHR ''+'' # row_source r\<rparr> by_address, duplicates)
          else (by_address, duplicates @ [row_address r])
      | None \<Rightarrow> (dict_set key r by_address, duplicates))"

definition consolidate :: "row list \<Rightarrow> string \<Rightarrow> bool \<Rightarrow> row list result" where
  "consolidate rows order merge_duplicates =
     (case foldl (consolidate_step merge_duplicates) ([], []) rows of (by_address, duplicates) \<Rightarrow>
        if duplicates \<noteq> [] then Inl (InputError ''duplicate address(es)'')
        else
          let out = dict_values by_address in
          if order = ''address'' then Inr (sort_key row_key out)
          else if order \<noteq> ''input'' then Inl (InputError ''unknown order'')
          else Inr out)"

definition chunk :: "row list \<Rightarrow> int \<Rightarrow> row list list result" where
  "chunk rows sz =
     (if sz = 0 then Inl (ValueError ''range() arg 3 must not be zero'')
      else if sz < 0 then Inr []
      else Inr (slices (nat sz) rows))"

section \<open>What reading promises\<close>

text \<open>
  An accepted row: its address has passed validation and its amount is positive.
\<close>

definition row_ok :: "(bytes \<Rightarrow> bytes) \<Rightarrow> row \<Rightarrow> bool" where
  "row_ok keccak256 r \<longleftrightarrow> normalize_address keccak256 (row_address r) = Inr (row_address r) \<and> 0 < row_amount r"

lemma parse_amount_positive: "parse_amount v u = Inr a \<Longrightarrow> 0 < a"
  by (auto simp: parse_amount_def Let_def result_simps)

lemma read_list_record_ok:
  assumes k: "\<And>d. length (keccak256 d) = 32"
    and step: "read_list_record keccak256 path unit ai mi review rows numbered = Inr rows'"
    and rows: "\<forall>r \<in> set rows. row_ok keccak256 r"
  shows "\<forall>r \<in> set rows'. row_ok keccak256 r"
proof -
  have h: "hash32 keccak256" using k by (rule hash32.intro)
  obtain n rec where n: "numbered = (n, rec)" by (cases numbered)
  show ?thesis
  proof (cases "blank_record rec")
    case True
    then show ?thesis using step rows by (simp add: read_list_record_def n)
  next
    case False
    then obtain a m where a: "normalize_address keccak256 (rec ! ai) = Inr a"
      and m: "parse_amount (rec ! mi) unit = Inr m"
      and r: "rows' = rows @ [\<lparr>row_address = a, row_amount = m, row_source = path @ CHR '':'' # str_nat n\<rparr>]"
      using step by (auto simp: read_list_record_def n result_simps split: if_splits)
    then show ?thesis
      using rows hash32.normalize_address_idem [OF h a] parse_amount_positive [OF m] by (simp add: row_ok_def)
  qed
qed

lemma read_list_file_ok:
  assumes k: "\<And>d. length (keccak256 d) = 32"
    and step: "read_list_file keccak256 ac mc u review st src = Inr st'"
    and rows: "\<forall>r \<in> set (rs_rows st). row_ok keccak256 r"
  shows "\<forall>r \<in> set (rs_rows st'). row_ok keccak256 r"
proof -
  obtain path content where f: "src = (path, content)" by (cases src)
  from step obtain unit ai mi rv recs rows' where
    new: "foldM (read_list_record keccak256 path unit ai mi rv) [] (enumerate 2 recs) = Inr rows'"
    and st': "rs_rows st' = rs_rows st @ rows'"
    by (auto simp: read_list_file_def f Let_def result_simps split: list.splits if_splits)
  have "\<forall>r \<in> set rows'. row_ok keccak256 r"
    using new by (rule foldM_invariant [where I = "\<lambda>_ rs. \<forall>r \<in> set rs. row_ok keccak256 r"])
      (simp, rule read_list_record_ok [OF k])
  with rows st' show ?thesis by auto
qed

lemma read_rows_ok:
  assumes k: "\<And>d. length (keccak256 d) = 32"
    and run: "read_rows keccak256 input ac mc u review = Inr (rows, info)"
  shows "rows \<noteq> [] \<and> (\<forall>r \<in> set rows. row_ok keccak256 r)"
proof -
  from run obtain files st where
    st: "foldM (read_list_file keccak256 ac mc u review)
        \<lparr>rs_rows = [], rs_sources = [], rs_unit = None, rs_columns = None\<rparr> files = Inr st"
    and rows: "rows = rs_rows st" "rows \<noteq> []"
    by (auto simp: read_rows_def result_simps split: if_splits option.splits prod.splits)
  from st have "\<forall>r \<in> set (rs_rows st). row_ok keccak256 r"
    by (rule foldM_invariant [where I = "\<lambda>_ s. \<forall>r \<in> set (rs_rows s). row_ok keccak256 r"])
      (simp, rule read_list_file_ok [OF k])
  with rows show ?thesis by simp
qed

section \<open>What consolidation promises\<close>

definition key_total :: "row list \<Rightarrow> string \<Rightarrow> int" where
  "key_total rows k = sum_list (map row_amount (filter (\<lambda>s. row_key s = k) rows))"

lemma key_total_snoc: "key_total (rows @ [r]) k = key_total rows k + (if row_key r = k then row_amount r else 0)"
  by (simp add: key_total_def)

lemma key_total_absent: "k \<notin> row_key ` set rows \<Longrightarrow> key_total rows k = 0"
  by (induction rows) (auto simp: key_total_def)

definition consolidated :: "row list \<Rightarrow> (string, row) dict \<Rightarrow> bool" where
  "consolidated rows d \<longleftrightarrow> distinct (dict_keys d) \<and> fst ` set d = row_key ` set rows \<and>
     (\<forall>k r. map_of d k = Some r \<longrightarrow> row_key r = k \<and> row_amount r = key_total rows k \<and>
        row_address r \<in> row_address ` set rows)"

lemma map_of_None_key: "map_of d k = None \<longleftrightarrow> k \<notin> fst ` set d"
  by (simp add: map_of_eq_None_iff)

lemma consolidated_new:
  assumes d: "consolidated rows d" and k: "map_of d (row_key r) = None"
  shows "consolidated (rows @ [r]) (dict_set (row_key r) r d)"
proof -
  have "row_key r \<notin> row_key ` set rows" using d k by (metis consolidated_def map_of_None_key)
  then have "key_total rows (row_key r) = 0" by (rule key_total_absent)
  then show ?thesis using d by (auto simp: consolidated_def distinct_dict_set key_total_snoc)
qed

lemma consolidated_merge:
  assumes d: "consolidated rows d" and k: "map_of d (row_key r) = Some prev"
    and new: "row_address new = row_address prev" "row_amount new = row_amount prev + row_amount r"
  shows "consolidated (rows @ [r]) (dict_set (row_key r) new d)"
proof -
  have "row_key prev = row_key r" "row_amount prev = key_total rows (row_key r)" "row_address prev \<in> row_address ` set rows"
    using d k by (auto simp: consolidated_def)
  moreover have "row_key r \<in> row_key ` set rows" using d k by (metis consolidated_def map_of_None_key option.distinct(1))
  ultimately show ?thesis using d new by (auto simp: consolidated_def distinct_dict_set key_total_snoc)
qed

lemma consolidate_fold:
  assumes "foldl (consolidate_step m) ([], []) rows = (d, dups)"
  shows "(dups = [] \<longleftrightarrow> m \<or> distinct (map row_key rows)) \<and> (dups = [] \<longrightarrow> consolidated rows d)"
  using assms
proof (induction rows arbitrary: d dups rule: rev_induct)
  case Nil
  then show ?case by (simp add: consolidated_def)
next
  case (snoc r rows)
  obtain d0 dups0 where f: "foldl (consolidate_step m) ([], []) rows = (d0, dups0)" by fastforce
  note IH = snoc.IH [OF f]
  have keys: "consolidated rows d0 \<Longrightarrow> fst ` set d0 = row_key ` set rows" by (simp add: consolidated_def)
  show ?case
  proof (cases "map_of d0 (row_key r)")
    case None
    then have "d = dict_set (row_key r) r d0" "dups = dups0" using snoc.prems f by (simp_all add: Let_def)
    then show ?thesis using IH consolidated_new [OF _ None, of rows] keys None
      by (auto simp: map_of_None_key)
  next
    case (Some prev)
    then have old: "row_key r \<in> fst ` set d0" by (metis map_of_None_key option.distinct(1))
    show ?thesis
    proof (cases m)
      case True
      then show ?thesis using snoc.prems f Some IH consolidated_merge [OF _ Some, of rows] by (auto simp: Let_def)
    next
      case False
      then have "dups = dups0 @ [row_address r]" using snoc.prems f Some by (simp add: Let_def)
      then show ?thesis using IH old keys False by auto
    qed
  qed
qed

lemma consolidate_Inr:
  assumes "consolidate rows order m = Inr out"
  obtains d where "consolidated rows d" "mset out = mset (dict_values d)" "order = ''address'' \<longrightarrow> sorted (map row_key out)"
proof -
  obtain d dups where f: "foldl (consolidate_step m) ([], []) rows = (d, dups)" by fastforce
  with assms have e: "dups = []"
    "out = (if order = ''address'' then sort_key row_key (dict_values d) else dict_values d)"
    by (auto simp: consolidate_def Let_def split: if_splits)
  with consolidate_fold [OF f] that [of d] show thesis by simp
qed

lemma consolidated_values:
  assumes "consolidated rows d" "mset out = mset (dict_values d)"
  shows "distinct (map row_key out)" "row_key ` set out = row_key ` set rows"
    "r \<in> set out \<Longrightarrow> row_amount r = key_total rows (row_key r) \<and> row_address r \<in> row_address ` set rows"
proof -
  have entry: "(k, r) \<in> set d \<Longrightarrow> row_key r = k \<and> row_amount r = key_total rows k \<and>
      row_address r \<in> row_address ` set rows" for k r
    using assms(1) by (auto simp: consolidated_def)
  then have keys: "map row_key (dict_values d) = dict_keys d" by (auto simp: o_def)
  have s: "set out = set (dict_values d)" using assms(2) by (metis set_mset_mset)
  have "mset (map row_key out) = mset (dict_keys d)" using assms(2) by (metis keys mset_map)
  then show "distinct (map row_key out)" using assms(1) by (metis consolidated_def mset_eq_imp_distinct_iff)
  show "row_key ` set out = row_key ` set rows"
    unfolding s set_map [symmetric] keys using assms(1) by (simp add: consolidated_def)
  show "r \<in> set out \<Longrightarrow> row_amount r = key_total rows (row_key r) \<and> row_address r \<in> row_address ` set rows"
    using entry unfolding s by fastforce
qed

lemma consolidated_total:
  assumes "consolidated rows d" "mset out = mset (dict_values d)"
  shows "sum_list (map row_amount out) = sum_list (map row_amount rows)"
proof -
  note v = consolidated_values [OF assms]
  have "sum_list (map row_amount out) = sum_list (map (key_total rows) (map row_key out))"
    unfolding map_map o_def by (rule arg_cong [of _ _ sum_list]) (use v(3) in auto)
  also have "\<dots> = sum_list (map row_amount rows)"
    unfolding key_total_def by (rule sum_list_groups) (use v(1, 2) in auto)
  finally show ?thesis .
qed

lemma key_total_pos: "\<forall>r \<in> set rows. 0 < row_amount r \<Longrightarrow> k \<in> row_key ` set rows \<Longrightarrow> 0 < key_total rows k"
proof (induction rows)
  case (Cons r rows)
  have "0 \<le> key_total rows k" unfolding key_total_def by (rule sum_list_nonneg_int) (use Cons.prems in fastforce)
  with Cons show ?case by (auto simp: key_total_def)
qed simp

lemma consolidate_row_ok:
  assumes "consolidate rows order m = Inr out" "\<forall>r \<in> set rows. row_ok keccak256 r"
  shows "\<forall>r \<in> set out. row_ok keccak256 r"
proof
  fix r assume r: "r \<in> set out"
  obtain d where d: "consolidated rows d" "mset out = mset (dict_values d)" using assms(1) by (rule consolidate_Inr)
  note v = consolidated_values [OF d]
  have "row_key r \<in> row_key ` set rows" using r v(2) by blast
  then have "0 < row_amount r" using v(3) [OF r] key_total_pos [of rows] assms(2) by (auto simp: row_ok_def)
  then show "row_ok keccak256 r" using v(3) [OF r] assms(2) by (auto simp: row_ok_def)
qed

text \<open>C27. Consolidating a recipient list neither loses nor creates value: every address of the list
  appears exactly once, case-insensitively, with the sum of its rows; the total is unchanged; and in
  address order the result is sorted.\<close>

theorem consolidate_conserves:
  assumes "consolidate rows order merge = Inr out"
  shows "distinct (map row_key out) \<and> row_key ` set out = row_key ` set rows \<and>
    list_all (\<lambda>r. row_amount r = sum_list (map row_amount (filter (\<lambda>s. row_key s = row_key r) rows))) out \<and>
    sum_list (map row_amount out) = sum_list (map row_amount rows) \<and>
    (order = ''address'' \<longrightarrow> sorted (map row_key out))"
proof -
  obtain d where d: "consolidated rows d" "mset out = mset (dict_values d)"
    and srt: "order = ''address'' \<longrightarrow> sorted (map row_key out)" using assms by (rule consolidate_Inr)
  note v = consolidated_values [OF d]
  show ?thesis using v srt consolidated_total [OF d] by (auto simp: list_all_iff key_total_def)
qed

theorem consolidate_conserves_witness:
  "(let a = \<lparr>row_address = ''0xB'', row_amount = 5, row_source = ''f:2''\<rparr>;
        b = \<lparr>row_address = ''0xa'', row_amount = 7, row_source = ''f:3''\<rparr>;
        c = \<lparr>row_address = ''0xb'', row_amount = 1, row_source = ''f:4''\<rparr>;
        out = [b, \<lparr>row_address = ''0xB'', row_amount = 6, row_source = ''f:2+f:4''\<rparr>]
    in consolidate [a, b, c] ''address'' True = Inr out \<and> sum_list (map row_amount out) = 13 \<and>
       sorted (map row_key out))"
proof -
  let ?a = "\<lparr>row_address = ''0xB'', row_amount = 5, row_source = ''f:2''\<rparr>"
  let ?b = "\<lparr>row_address = ''0xa'', row_amount = 7, row_source = ''f:3''\<rparr>"
  let ?c = "\<lparr>row_address = ''0xb'', row_amount = 1, row_source = ''f:4''\<rparr>"
  let ?out = "[?b, \<lparr>row_address = ''0xB'', row_amount = 6, row_source = ''f:2+f:4''\<rparr>]"
  have run: "consolidate [?a, ?b, ?c] ''address'' True = Inr ?out" by code_simp
  have "sum_list (map row_amount ?out) = sum_list (map row_amount [?a, ?b, ?c])" "sorted (map row_key ?out)"
    using consolidate_conserves [OF run] by blast+
  then show ?thesis unfolding Let_def by (intro conjI run) simp_all
qed

text \<open>Without \<^verbatim>\<open>--merge-duplicates\<close> a list is refused exactly when two of its rows name
  the same address, whatever the spelling.\<close>

theorem consolidate_rejects_duplicates:
  "consolidate rows order False = Inl (InputError ''duplicate address(es)'') \<longleftrightarrow> \<not> distinct (map row_key rows)"
proof -
  obtain d dups where f: "foldl (consolidate_step False) ([], []) rows = (d, dups)" by fastforce
  then show ?thesis using consolidate_fold [OF f] by (auto simp: consolidate_def Let_def)
qed

section \<open>A concrete list\<close>

definition zero_hash :: "bytes \<Rightarrow> bytes" where
  "zero_hash d = replicate 32 0"

definition sample_input :: input_path where
  "sample_input = InputFile ''r.csv'' (''address,amount_atto'' @ LF # ''0x00000000000000000000000000000000000000a1,5'' @ [LF])"

abbreviation sample_row :: row where
  "sample_row \<equiv> \<lparr>row_address = ''0x00000000000000000000000000000000000000a1'', row_amount = 5, row_source = ''r.csv:2''\<rparr>"

lemma length_zero_hash: "length (zero_hash d) = 32"
  by (simp add: zero_hash_def)

lemma sample_read:
  "\<exists>info. read_rows zero_hash sample_input None None None True = Inr ([sample_row], info)"
proof -
  let ?text = "''address,amount_atto'' @ LF # ''0x00000000000000000000000000000000000000a1,5'' @ [LF]"
  let ?header = "[''address'', ''amount_atto'']" and ?rec = "[''0x00000000000000000000000000000000000000a1'', ''5'']"
  have csv: "csv_reader ?text = [?header, ?rec]" by code_simp
  have vault: "PORTAL_VAULT_STATUS_COLUMN \<notin> set (map (\<lambda>h. lower (strip h)) ?header)" by code_simp
  have cols: "pick_column ?header None ADDRESS_COLUMNS = Inr ''address''"
    "pick_column ?header None (ATTO_COLUMNS @ ONE_COLUMNS @ GENERIC_AMOUNT_COLUMNS) = Inr ''amount_atto''"
    "detect_amount_unit ''amount_atto'' None = Inr ''atto''" by code_simp+
  have idx: "index_of ?header ''address'' = Some 0" "index_of ?header ''amount_atto'' = Some 1" by code_simp+
  have rows: "foldM (read_list_record zero_hash ''r.csv'' ''atto'' 0 1 (Some (make_review ?header PORTAL_WALLET_STATUS_COLUMN))) []
      (enumerate 2 [?rec]) = Inr [sample_row]" by code_simp
  have "\<exists>st. read_list_file zero_hash None None None True \<lparr>rs_rows = [], rs_sources = [], rs_unit = None, rs_columns = None\<rparr> (''r.csv'', ?text) = Inr st
      \<and> rs_rows st = [sample_row] \<and> rs_unit st \<noteq> None \<and> rs_columns st \<noteq> None"
    unfolding read_list_file_def prod.case csv list.case Let_def using vault cols idx rows by simp
  then show ?thesis by (auto simp: read_rows_def sample_input_def)
qed

end
