(* ===== verification/HashTree.thy ===== *)
theory HashTree
  imports Prelude "HOL-Library.Word"
begin

unbundle bit_operations_syntax

text \<open>
  The hash tree that the batch tree of \<^verbatim>\<open>airdrop/tools/common.py\<close> and the claim tree of
  \<^verbatim>\<open>bridge-claims/tools/claim_tree.py\<close> share, over an abstract pair hash: levels, root and
  proof. Clients reach its lemmas through the locales \<open>pair_hash\<close> (every proof of the tree
  verifies) and \<open>binding_pair_hash\<close> (whatever verifies is a leaf).
\<close>

section \<open>Levels, root and proof\<close>

fun next_level :: "('b \<Rightarrow> 'b \<Rightarrow> 'b) \<Rightarrow> 'b list \<Rightarrow> 'b list" where
  "next_level h [] = []"
| "next_level h [x] = [x]"
| "next_level h (x # y # rest) = h x y # next_level h rest"

lemma length_next_level [simp]: "length (next_level h xs) = (length xs + 1) div 2"
  by (induction h xs rule: next_level.induct) auto

function levels_from :: "('b \<Rightarrow> 'b \<Rightarrow> 'b) \<Rightarrow> 'b list \<Rightarrow> 'b list list" where
  "levels_from h prev =
     (if length prev > 1 then prev # levels_from h (next_level h prev) else [prev])"
  by pat_completeness auto
termination by (relation "measure (\<lambda>(h, prev). length prev)") auto

declare levels_from.simps [simp del]

definition tree_root :: "'b list list \<Rightarrow> 'b result" where
  "tree_root levels =
     (case rev levels of
        [] \<Rightarrow> Inl IndexError
      | level # _ \<Rightarrow> (case level of [] \<Rightarrow> Inl IndexError | r # _ \<Rightarrow> Inr r))"

text \<open>The loop of \<^verbatim>\<open>tree_proof\<close> over the levels without the root.\<close>

fun proof_from :: "'b list list \<Rightarrow> nat \<Rightarrow> 'b list" where
  "proof_from [] idx = []"
| "proof_from (level # rest) idx =
     (let sibling = idx XOR 1 in
      (if sibling < length level then [level ! sibling] else []) @ proof_from rest (drop_bit 1 idx))"

definition tree_proof :: "'b list list \<Rightarrow> nat \<Rightarrow> 'b list" where
  "tree_proof levels index = proof_from (butlast levels) index"

section \<open>Proofs of membership\<close>

lemma levels_from_ne [simp]: "levels_from h xs \<noteq> []"
  by (subst levels_from.simps) simp

lemma butlast_levels_from:
  "1 < length xs \<Longrightarrow> butlast (levels_from h xs) = xs # butlast (levels_from h (next_level h xs))"
  "\<not> 1 < length xs \<Longrightarrow> butlast (levels_from h xs) = []"
  by (subst levels_from.simps; simp)+

lemma last_levels_from:
  "1 < length xs \<Longrightarrow> last (levels_from h xs) = last (levels_from h (next_level h xs))"
  "\<not> 1 < length xs \<Longrightarrow> last (levels_from h xs) = xs"
  by (subst levels_from.simps; simp)+

lemma xor_one: "n XOR 1 = (if even n then Suc n else n - Suc 0)" for n :: nat
  by (simp add: xor_one_eq flip: One_nat_def)

lemma next_level_Nil_iff [simp]: "next_level h xs = [] \<longleftrightarrow> xs = []"
  by (induction h xs rule: next_level.induct) auto

lemma nth_next_level:
  "j < (length xs + 1) div 2 \<Longrightarrow>
   next_level h xs ! j = (if 2 * j + 1 < length xs then h (xs ! (2 * j)) (xs ! (2 * j + 1)) else xs ! (2 * j))"
proof (induction h xs arbitrary: j rule: next_level.induct)
  case (3 h x y rest)
  then show ?case by (cases j) auto
qed auto

lemma last_levels_from_single: "xs \<noteq> [] \<Longrightarrow> \<exists>r. last (levels_from h xs) = [r]"
proof (induction "length xs" arbitrary: xs rule: less_induct)
  case less
  show ?case
  proof (cases "1 < length xs")
    case True
    with less.hyps [of "next_level h xs"] less.prems show ?thesis
      by (simp add: last_levels_from(1) [OF True])
  next
    case False
    with less.prems show ?thesis
      unfolding last_levels_from(2) [OF False] by (cases xs) auto
  qed
qed

lemma tree_root_levels_from: "xs \<noteq> [] \<Longrightarrow> tree_root (levels_from h xs) = Inr (hd (last (levels_from h xs)))"
proof -
  assume "xs \<noteq> []"
  then obtain r where r: "last (levels_from h xs) = [r]" using last_levels_from_single by blast
  have "rev (levels_from h xs) = last (levels_from h xs) # rev (butlast (levels_from h xs))"
    by (subst append_butlast_last_id [OF levels_from_ne, symmetric]) (simp only: rev_append rev.simps append.simps)
  then show ?thesis by (simp only: tree_root_def r list.case list.sel)
qed

locale pair_hash =
  fixes h :: "'b \<Rightarrow> 'b \<Rightarrow> 'b"
  assumes commute: "h a b = h b a"
begin

lemma next_level_step:
  assumes "i < length xs"
  shows "next_level h xs ! (i div 2) =
    foldl h (xs ! i) (if i XOR 1 < length xs then [xs ! (i XOR 1)] else [])"
proof (cases "even i")
  case True
  then obtain j where "i = 2 * j" by (auto elim: evenE)
  then show ?thesis using assms by (simp add: xor_one nth_next_level del: One_nat_def flip: Suc_eq_plus1)
next
  case False
  then obtain j where j: "i = 2 * j + 1" by (auto elim: oddE)
  then show ?thesis using assms commute [of "xs ! i" "xs ! (i - 1)"] by (simp add: xor_one nth_next_level del: One_nat_def)
qed

lemma proof_verifies:
  "i < length xs \<Longrightarrow>
   foldl h (xs ! i) (proof_from (butlast (levels_from h xs)) i) = hd (last (levels_from h xs))"
proof (induction "length xs" arbitrary: xs i rule: less_induct)
  case less
  show ?case
  proof (cases "1 < length xs")
    case True
    have "foldl h (xs ! i) (proof_from (butlast (levels_from h xs)) i) =
        foldl h (next_level h xs ! (i div 2)) (proof_from (butlast (levels_from h (next_level h xs))) (i div 2))"
      by (simp add: butlast_levels_from(1) [OF True] next_level_step [OF less.prems] drop_bit_eq_div Let_def)
    also have "\<dots> = hd (last (levels_from h (next_level h xs)))"
      using True less.prems by (intro less.hyps) simp_all
    finally show ?thesis by (simp add: last_levels_from(1) [OF True])
  next
    case False
    with less.prems show ?thesis 
      unfolding butlast_levels_from(2) [OF False] last_levels_from(2) [OF False] by (cases xs) auto
  qed
qed

end

section \<open>Binding\<close>

text \<open>The pairs that are hashed while the levels are built and while a proof is checked.\<close>

fun level_pairs :: "'b list \<Rightarrow> ('b \<times> 'b) list" where
  "level_pairs (x # y # rest) = (x, y) # level_pairs rest"
| "level_pairs _ = []"

definition tree_pairs :: "'b list list \<Rightarrow> ('b \<times> 'b) list" where
  "tree_pairs levels = concat (map level_pairs levels)"

fun verify_pairs :: "('b \<Rightarrow> 'b \<Rightarrow> 'b) \<Rightarrow> 'b \<Rightarrow> 'b list \<Rightarrow> ('b \<times> 'b) list" where
  "verify_pairs h x [] = []"
| "verify_pairs h x (p # ps) = (x, p) # verify_pairs h (h x p) ps"

lemma verify_pairs_snoc [simp]: "verify_pairs h x (ps @ [p]) = verify_pairs h x ps @ [(foldl h x ps, p)]"
  by (induction ps arbitrary: x) auto

lemma level_pairs_mem: "(a, b) \<in> set (level_pairs xs) \<Longrightarrow> a \<in> set xs \<and> b \<in> set xs"
  by (induction xs rule: level_pairs.induct) auto

lemma next_level_nodes:
  "x \<in> set (next_level h xs) \<Longrightarrow> x \<in> set xs \<or> (\<exists>(a, b) \<in> set (level_pairs xs). x = h a b)"
  by (induction h xs rule: next_level.induct) auto

lemma levels_nodes:
  "level \<in> set (levels_from h xs) \<Longrightarrow> x \<in> set level \<Longrightarrow>
   x \<in> set xs \<or> (\<exists>(a, b) \<in> set (tree_pairs (levels_from h xs)).
     x = h a b \<and> (\<exists>below \<in> set (levels_from h xs). a \<in> set below \<and> b \<in> set below))"
proof (induction "length xs" arbitrary: xs rule: less_induct)
  case less
  show ?case
  proof (cases "1 < length xs")
    case True
    let ?up = "levels_from h (next_level h xs)"
    have split: "levels_from h xs = xs # ?up" using True by (subst levels_from.simps) simp
    consider "level = xs" | "level \<in> set ?up" using less.prems(1) split by auto
    then show ?thesis
    proof cases
      case 1
      then show ?thesis using less.prems by simp
    next
      case 2
      have "x \<in> set (next_level h xs) \<or> (\<exists>(a, b) \<in> set (tree_pairs ?up).
          x = h a b \<and> (\<exists>below \<in> set ?up. a \<in> set below \<and> b \<in> set below))"
        using True 2 less.prems(2) by (intro less.hyps) simp_all
      then show ?thesis
        using next_level_nodes [of x h xs] level_pairs_mem [of _ _ xs]
        by (fastforce simp: split tree_pairs_def)
    qed
  next
    case False
    then have "levels_from h xs = [xs]" by (subst levels_from.simps) simp
    with less.prems show ?thesis by simp
  qed
qed

text \<open>
  \<open>P\<close> is the set of hashed pairs on which the pair hash has no collision and \<open>L\<close> the values
  a leaf may take, none of which is the hash of a pair of \<open>P\<close>.
\<close>

locale binding_pair_hash = pair_hash h for h :: "'b \<Rightarrow> 'b \<Rightarrow> 'b" +
  fixes P :: "('b \<times> 'b) set" and L :: "'b set"
  assumes pair_inj: "(a, b) \<in> P \<Longrightarrow> (c, d) \<in> P \<Longrightarrow> h a b = h c d \<Longrightarrow> {a, b} = {c, d}"
    and leaf_no_pair: "x \<in> L \<Longrightarrow> (a, b) \<in> P \<Longrightarrow> h a b \<noteq> x"
begin

lemma verified_is_leaf:
  assumes leaves: "xs \<noteq> []" "set xs \<subseteq> L" "set (tree_pairs (levels_from h xs)) \<subseteq> P"
    and checked: "x \<in> L" "set (verify_pairs h x ps) \<subseteq> P"
      "foldl h x ps = hd (last (levels_from h xs))"
  shows "x \<in> set xs"
proof -
  let ?node = "\<lambda>z. \<exists>level \<in> set (levels_from h xs). z \<in> set level"
  have down: "?node (foldl h x ps) \<Longrightarrow> set (verify_pairs h x ps) \<subseteq> P \<Longrightarrow> x \<in> set xs" for ps
  proof (induction ps rule: rev_induct)
    case Nil
    then show ?case using levels_nodes [of _ h xs x] leaf_no_pair [OF checked(1)] leaves(3) by fastforce
  next
    case (snoc p ps)
    then have pair: "(foldl h x ps, p) \<in> P" and top: "?node (h (foldl h x ps) p)" by auto
    then have "h (foldl h x ps) p \<notin> set xs" using leaf_no_pair leaves(2) by blast
    with top obtain a b where ab: "(a, b) \<in> set (tree_pairs (levels_from h xs))"
      "h (foldl h x ps) p = h a b" "?node a" "?node b"
      using levels_nodes [of _ h xs "h (foldl h x ps) p"] by fastforce
    then have "{foldl h x ps, p} = {a, b}" using pair_inj [OF pair] leaves(3) by blast
    then have "?node (foldl h x ps)" using ab by (auto simp: doubleton_eq_iff)
    with snoc show ?case by simp
  qed
  obtain r where "last (levels_from h xs) = [r]" using last_levels_from_single leaves(1) by blast
  then have "?node (foldl h x ps)" using checked(3) last_in_set [OF levels_from_ne, of h xs] by force
  from down [OF this checked(2)] show ?thesis .
qed

end

end
