(* ===== verification/BatchTree.thy ===== *)
theory BatchTree
  imports Addresses HashTree
begin

unbundle bit_operations_syntax

text \<open>
  The ABI encoding of a batch, its leaf, and the batch tree of \<^verbatim>\<open>airdrop/tools/common.py\<close>
  on the shared hash tree. The batch leaf commits to the batch number, the recipients and the amounts:
  every batch of the tree is provable, and what is provable is a batch of the tree.
\<close>

section \<open>ABI encoding\<close>

definition word :: "int \<Rightarrow> bytes result" where
  "word value = (if value < 0 \<or> value \<ge> 2 ^ 256 then Inl (ValueError ''value does not fit in 256 bits'')
                 else Inr (to_bytes_big 32 (nat value)))"

definition address_int :: "string \<Rightarrow> int result" where
  "address_int addr = of_option (ValueError ''invalid literal for int()'') (map_option int (hex_int addr))"

definition abi_encode_batch :: "int \<Rightarrow> string list \<Rightarrow> int list \<Rightarrow> bytes result" where
  "abi_encode_batch batch_index recipients amounts =
     (if length recipients \<noteq> length amounts
      then Inl (ValueError ''recipients and amounts differ in length'')
      else let n = int (length recipients) in
        bindR (mapM word [batch_index, 3 * 32, 3 * 32 + 32 + 32 * n]) (\<lambda>head.
        bindR (word n) (\<lambda>wn.
        bindR (mapM (\<lambda>addr. bindR (address_int addr) word) recipients) (\<lambda>addrs.
        bindR (mapM word amounts) (\<lambda>ams.
          Inr (concat head @ (wn @ concat addrs) @ (wn @ concat ams)))))))"

definition batch_leaf :: "(bytes \<Rightarrow> bytes) \<Rightarrow> int \<Rightarrow> string list \<Rightarrow> int list \<Rightarrow> bytes result" where
  "batch_leaf keccak256 batch_index recipients amounts =
     bindR (abi_encode_batch batch_index recipients amounts) (\<lambda>b. Inr (keccak256 (keccak256 b)))"

section \<open>The tree\<close>

definition hash_pair :: "(bytes \<Rightarrow> bytes) \<Rightarrow> bytes \<Rightarrow> bytes \<Rightarrow> bytes" where
  "hash_pair keccak256 a b = (if a < b then keccak256 (a @ b) else keccak256 (b @ a))"

definition tree_levels :: "(bytes \<Rightarrow> bytes) \<Rightarrow> bytes list \<Rightarrow> bytes list list result" where
  "tree_levels keccak256 leaves =
     (if leaves = [] then Inl (ValueError ''no leaves'')
      else Inr (levels_from (hash_pair keccak256) leaves))"

definition tree_verify :: "(bytes \<Rightarrow> bytes) \<Rightarrow> bytes list \<Rightarrow> bytes \<Rightarrow> bytes \<Rightarrow> bool" where
  "tree_verify keccak256 nodes root leaf = (foldl (hash_pair keccak256) leaf nodes = root)"

section \<open>Fixed-width words\<close>

lemma from_to_bytes_little: "from_bytes_little (to_bytes_little k n) = n mod 256 ^ k"
proof (induction k arbitrary: n)
  case (Suc k)
  have "unat (word_of_nat (n mod 256) :: byte) = n mod 256" by (rule unat_byte_of_nat) simp
  with Suc show ?case by (simp add: mod_mult2_eq)
qed simp

lemma to_bytes_big_inj: "m < 256 ^ k \<Longrightarrow> n < 256 ^ k \<Longrightarrow> to_bytes_big k m = to_bytes_big k n \<Longrightarrow> m = n"
  by (metis from_to_bytes_little mod_less rev_swap to_bytes_big_def)

lemma word_length: "word v = Inr w \<Longrightarrow> length w = 32"
  by (auto simp: word_def split: if_splits)

lemma word_inj: "word v = Inr w \<Longrightarrow> word v' = Inr w \<Longrightarrow> v = v'"
proof -
  assume a: "word v = Inr w" and b: "word v' = Inr w"
  have r: "0 \<le> v" "v < 2 ^ 256" "0 \<le> v'" "v' < 2 ^ 256"
    using a b by (auto simp: word_def split: if_splits)
  have "to_bytes_big 32 (nat v) = to_bytes_big 32 (nat v')" using a b by (auto simp: word_def split: if_splits)
  moreover have "nat v < 256 ^ 32" "nat v' < 256 ^ 32" using r by (simp_all add: nat_less_iff)
  ultimately have "nat v = nat v'" using to_bytes_big_inj by blast
  then show "v = v'" using r by simp
qed

lemma concat_fixed_width_inj:
  assumes "0 < k" "list_all (\<lambda>x. length x = k) xs" "list_all (\<lambda>y. length y = k) ys"
    "concat xs = concat ys"
  shows "xs = ys"
  using assms(2-4)
proof (induction xs arbitrary: ys)
  case Nil
  then show ?case using assms(1) by (cases ys) auto
next
  case (Cons x xs)
  show ?case
  proof (cases ys)
    case Nil
    with Cons assms(1) show ?thesis by auto
  next
    case (Cons y ys')
    with Cons.prems Cons.IH [of ys'] show ?thesis by auto
  qed
qed

lemma mapM_word_lengths: "mapM word vs = Inr ws \<Longrightarrow> list_all (\<lambda>w. length w = 32) ws \<and> length ws = length vs"
proof -
  assume "mapM word vs = Inr ws"
  then have "list_all2 (\<lambda>v w. word v = Inr w) vs ws" by (simp add: result_simps)
  then show "list_all (\<lambda>w. length w = 32) ws \<and> length ws = length vs"
    by (induction rule: list_all2_induct) (auto dest: word_length)
qed

lemma mapM_word_inj: "mapM word vs = Inr ws \<Longrightarrow> mapM word vs' = Inr ws \<Longrightarrow> vs = vs'"
proof (induction vs arbitrary: ws vs')
  case Nil
  then show ?case by (cases vs') (auto simp: result_simps)
next
  case (Cons v vs)
  then show ?case by (cases vs') (auto simp: result_simps list_all2_Cons1 dest: word_inj)
qed

text \<open>The encoding is the concatenation of the words of the flattened batch.\<close>

definition batch_words :: "int \<Rightarrow> int list \<Rightarrow> int list \<Rightarrow> int list" where
  "batch_words i addrs amounts =
     [i, 96, 128 + 32 * int (length addrs), int (length addrs)] @ addrs @
     int (length addrs) # amounts"

lemma mapM_append:
  "mapM f (xs @ ys) = bindR (mapM f xs) (\<lambda>a. bindR (mapM f ys) (\<lambda>b. Inr (a @ b)))"
proof (induction xs)
  case Nil
  then show ?case by (cases "mapM f ys") auto
next
  case (Cons x xs)
  then show ?case by (cases "f x"; cases "mapM f xs"; cases "mapM f ys") auto
qed

lemma mapM_bindR: "mapM (\<lambda>x. bindR (f x) g) xs = Inr zs \<longleftrightarrow> (\<exists>ys. mapM f xs = Inr ys \<and> mapM g ys = Inr zs)"
proof (induction xs arbitrary: zs)
  case (Cons x xs)
  show ?case
    by (cases "f x") (auto simp: Cons bindR_Inr_iff simp del: mapM_Inr_iff)
qed auto

lemma abi_encode_batch_words:
  assumes "abi_encode_batch i rs as = Inr b"
  obtains addrs ws where "mapM address_int rs = Inr addrs" "length rs = length as"
    "mapM word (batch_words i addrs as) = Inr ws" "b = concat ws"
proof -
  from assms obtain head wn aw am where l: "length rs = length as"
    and head: "mapM word [i, 96, 128 + 32 * int (length rs)] = Inr head"
    and wn: "word (int (length rs)) = Inr wn"
    and aw: "mapM (\<lambda>addr. bindR (address_int addr) word) rs = Inr aw"
    and am: "mapM word as = Inr am" and b: "b = concat head @ (wn @ concat aw) @ (wn @ concat am)"
    by (auto simp: abi_encode_batch_def Let_def bindR_Inr_iff algebra_simps simp del: mapM.simps mapM_Inr_iff
        split: if_splits)
  from aw obtain addrs where addrs: "mapM address_int rs = Inr addrs" "mapM word addrs = Inr aw"
    by (auto simp: mapM_bindR simp del: mapM_Inr_iff)
  have n: "length addrs = length rs" using addrs(1) by (rule mapM_length)
  have "mapM word (batch_words i addrs as) = Inr (head @ [wn] @ aw @ [wn] @ am)"
  proof -
    have "batch_words i addrs as = [i, 96, 128 + 32 * int (length rs)] @ [int (length rs)] @ addrs @
        [int (length rs)] @ as" by (simp add: batch_words_def n)
    then show ?thesis by (simp only: mapM_append head addrs am) (simp add: wn)
  qed
  with that addrs l show thesis by (simp add: b)
qed

lemma abi_encode_batch_inj:
  assumes "abi_encode_batch i rs as = Inr b" "abi_encode_batch j ss bs = Inr b"
  shows "i = j \<and> mapM address_int rs = mapM address_int ss \<and> as = bs"
proof -
  obtain addrs ws where a: "mapM address_int rs = Inr addrs" "length rs = length as"
    "mapM word (batch_words i addrs as) = Inr ws" "b = concat ws"
    using assms(1) by (rule abi_encode_batch_words)
  obtain addrs' ws' where a': "mapM address_int ss = Inr addrs'" "length ss = length bs"
    "mapM word (batch_words j addrs' bs) = Inr ws'" "b = concat ws'"
    using assms(2) by (rule abi_encode_batch_words)
  have "ws = ws'"
    using mapM_word_lengths [OF a(3)] mapM_word_lengths [OF a'(3)] a(4) a'(4)
    by (intro concat_fixed_width_inj [of 32]) auto
  then have w: "batch_words i addrs as = batch_words j addrs' bs"
    using a(3) a'(3) mapM_word_inj by blast
  then have "length addrs = length addrs'" by (simp add: batch_words_def)
  with w have "i = j \<and> addrs = addrs' \<and> as = bs" by (simp add: batch_words_def)
  then show ?thesis using a(1) a'(1) by simp
qed

section \<open>The batch tree\<close>

definition sorted_cat :: "bytes \<times> bytes \<Rightarrow> bytes" where
  "sorted_cat p = (if fst p < snd p then fst p @ snd p else snd p @ fst p)"

lemma hash_pair_sorted_cat: "hash_pair k a b = k (sorted_cat (a, b))"
  by (simp add: hash_pair_def sorted_cat_def)

lemma sorted_cat_commute: "sorted_cat (a, b) = sorted_cat (b, a)"
  by (auto simp: sorted_cat_def)

lemma sorted_cat_inj:
  "length a = n \<Longrightarrow> length b = n \<Longrightarrow> length c = n \<Longrightarrow> length d = n \<Longrightarrow>
   sorted_cat (a, b) = sorted_cat (c, d) \<Longrightarrow> {a, b} = {c, d}"
  by (auto simp: sorted_cat_def split: if_splits)

interpretation batch_pair: pair_hash "hash_pair k" for k
  by unfold_locales (simp add: hash_pair_sorted_cat sorted_cat_commute)

text \<open>
  The part of a set of byte strings on which a hash is used without collision, the pairs of nodes
  and the leaves it covers. They provide the binding contract for every hash.
\<close>

definition uncollided :: "(bytes \<Rightarrow> bytes) \<Rightarrow> bytes set \<Rightarrow> bytes set" where
  "uncollided k S = (if inj_on k S then S else {})"

definition node_pairs :: "(bytes \<Rightarrow> bytes) \<Rightarrow> bytes set \<Rightarrow> (bytes \<times> bytes) set" where
  "node_pairs k S = {(a, b). length a = 32 \<and> length b = 32 \<and> sorted_cat (a, b) \<in> uncollided k S}"

definition leaf_values :: "(bytes \<Rightarrow> bytes) \<Rightarrow> bytes set \<Rightarrow> bytes set" where
  "leaf_values k S = k ` {x \<in> uncollided k S. length x = 32}"

lemma uncollided_inj: "x \<in> uncollided k S \<Longrightarrow> y \<in> uncollided k S \<Longrightarrow> k x = k y \<Longrightarrow> x = y"
  by (auto simp: uncollided_def inj_on_def split: if_splits)

interpretation batch_binding: binding_pair_hash "hash_pair k" "node_pairs k S" "leaf_values k S" for k S
proof unfold_locales
  fix a b c d
  assume "(a, b) \<in> node_pairs k S" "(c, d) \<in> node_pairs k S" "hash_pair k a b = hash_pair k c d"
  then show "{a, b} = {c, d}"
    by (intro sorted_cat_inj [of _ 32]) (auto simp: node_pairs_def hash_pair_sorted_cat dest: uncollided_inj)
next
  fix x a b
  assume "x \<in> leaf_values k S" "(a, b) \<in> node_pairs k S"
  then obtain y where "x = k y" "y \<in> uncollided k S" "length y = 32" "length (sorted_cat (a, b)) = 64"
    "sorted_cat (a, b) \<in> uncollided k S" by (auto simp: leaf_values_def node_pairs_def sorted_cat_def)
  then show "hash_pair k a b \<noteq> x" using uncollided_inj by (fastforce simp: hash_pair_sorted_cat)
qed

lemma tree_levels_root:
  assumes "tree_levels k leaves = Inr levels" "tree_root levels = Inr root"
  shows "leaves \<noteq> []" "levels = levels_from (hash_pair k) leaves" "root = hd (last levels)"
proof -
  show ne: "leaves \<noteq> []" and l: "levels = levels_from (hash_pair k) leaves"
    using assms(1) by (auto simp: tree_levels_def split: if_splits)
  show "root = hd (last levels)" using assms(2) by (simp add: l tree_root_levels_from ne)
qed

lemma tree_proof_reaches_root:
  assumes "tree_levels k leaves = Inr levels" "tree_root levels = Inr root" "i < length leaves"
  shows "tree_verify k (tree_proof levels i) root (leaves ! i)"
  using batch_pair.proof_verifies [OF assms(3), of k]
  by (simp add: tree_verify_def tree_proof_def tree_levels_root [OF assms(1, 2)])

text \<open>C26. Every batch of a tree is provable: the proof that \<^verbatim>\<open>tree_proof\<close> returns for a
  leaf verifies against the root, whatever the number of leaves, including levels with an unpaired
  last node, and whatever the hash.\<close>

theorem tree_proof_verifies:
  assumes "tree_levels k leaves = Inr levels" "tree_root levels = Inr root" "i < length leaves"
  shows "tree_verify k (tree_proof levels i) root (leaves ! i)"
  using assms by (rule tree_proof_reaches_root)

text \<open>The witness is a tree of three leaves, whose last leaf is carried up.\<close>

theorem tree_proof_verifies_witness:
  "(let k = (\<lambda>d. take 2 (rev d)); leaves = [[1, 2], [3, 4], [5, 6]] :: bytes list;
        levels = [leaves, [[4, 3], [5, 6]], [[6, 5]]]
    in tree_levels k leaves = Inr levels \<and> tree_root levels = Inr [6, 5] \<and>
       tree_proof levels 2 = [[4, 3]] \<and> tree_verify k (tree_proof levels 2) [6, 5] (leaves ! 2))"
proof -
  let ?k = "\<lambda>d :: bytes. take 2 (rev d)" and ?leaves = "[[1, 2], [3, 4], [5, 6]] :: bytes list"
  let ?levels = "[?leaves, [[4, 3], [5, 6]], [[6, 5]]]"
  have a: "tree_levels ?k ?leaves = Inr ?levels" by code_simp
  have b: "tree_root ?levels = Inr [6, 5]" by code_simp
  have "tree_proof ?levels 2 = [[4, 3]]" by code_simp
  with a b tree_proof_verifies [OF a b, of 2] show ?thesis by simp
qed

text \<open>The byte strings hashed to build a tree and to check a proof against its root.\<close>

definition commit_inputs :: "(bytes \<Rightarrow> bytes) \<Rightarrow> bytes list \<Rightarrow> bytes \<Rightarrow> bytes list \<Rightarrow> bytes list" where
  "commit_inputs k encs e ps =
     e # k e # encs @ map k encs @ map sorted_cat
       (tree_pairs (levels_from (hash_pair k) (map (\<lambda>x. k (k x)) encs)) @ verify_pairs (hash_pair k) (k (k e)) ps)"

definition encode_batches :: "(int \<times> string list \<times> int list) list \<Rightarrow> bytes list result" where
  "encode_batches = mapM (\<lambda>(i, rs, as). abi_encode_batch i rs as)"

lemma hash_pair_length: "(\<And>d. length (k d) = 32) \<Longrightarrow> length (hash_pair k a b) = 32"
  by (simp add: hash_pair_def)

lemma levels_from_all:
  assumes "\<And>a b. Q (h a b)" "\<forall>x \<in> set xs. Q x" "level \<in> set (levels_from h xs)" "x \<in> set level"
  shows "Q x"
  using levels_nodes [OF assms(3, 4)] assms(1, 2) by auto

lemma tree_pairs_mem:
  "(a, b) \<in> set (tree_pairs levels) \<Longrightarrow> \<exists>level \<in> set levels. a \<in> set level \<and> b \<in> set level"
  by (auto simp: tree_pairs_def dest: level_pairs_mem)

lemma verify_pairs_all:
  assumes "\<And>a b. Q (h a b)" "Q x" "\<forall>p \<in> set ps. Q p"
  shows "(a, b) \<in> set (verify_pairs h x ps) \<Longrightarrow> Q a \<and> Q b"
  using assms(2, 3) by (induction ps arbitrary: x) (auto simp: assms(1))

lemma leaf_committed:
  assumes k: "\<And>d. length (k d) = 32" and ne: "encs \<noteq> []" and ps: "\<forall>p \<in> set ps. length p = 32"
    and inj: "inj_on k (set (commit_inputs k encs e ps))"
    and root: "foldl (hash_pair k) (k (k e)) ps = hd (last (levels_from (hash_pair k) (map (\<lambda>x. k (k x)) encs)))"
  shows "e \<in> set encs"
proof -
  let ?S = "set (commit_inputs k encs e ps)" and ?h = "hash_pair k" and ?xs = "map (\<lambda>x. k (k x)) encs"
  have S: "x \<in> ?S \<Longrightarrow> x \<in> uncollided k ?S" for x using inj by (simp add: uncollided_def)
  have h32: "length (?h a b) = 32" for a b using k by (rule hash_pair_length)
  have "k (k e) \<in> set ?xs"
  proof (rule batch_binding.verified_is_leaf [where S = ?S])
    show "set (tree_pairs (levels_from ?h ?xs)) \<subseteq> node_pairs k ?S"
    proof
      fix p assume p: "p \<in> set (tree_pairs (levels_from ?h ?xs))"
      obtain a b where ab: "p = (a, b)" by (cases p)
      have "length a = 32 \<and> length b = 32"
        using tree_pairs_mem [OF p [unfolded ab]] levels_from_all [of "\<lambda>x. length x = 32" ?h ?xs] h32 k by auto
      moreover have "sorted_cat (a, b) \<in> ?S" using p ab by (auto simp: commit_inputs_def)
      ultimately show "p \<in> node_pairs k ?S" unfolding ab node_pairs_def using S by blast
    qed
    show "set (verify_pairs ?h (k (k e)) ps) \<subseteq> node_pairs k ?S"
    proof
      fix p assume p: "p \<in> set (verify_pairs ?h (k (k e)) ps)"
      obtain a b where ab: "p = (a, b)" by (cases p)
      have "length a = 32 \<and> length b = 32"
        using verify_pairs_all [of "\<lambda>x. length x = 32" ?h, OF h32 k ps p [unfolded ab]] .
      moreover have "sorted_cat (a, b) \<in> ?S" using p ab by (auto simp: commit_inputs_def)
      ultimately show "p \<in> node_pairs k ?S" unfolding ab node_pairs_def using S by blast
    qed
    have "k x \<in> ?S \<Longrightarrow> k (k x) \<in> leaf_values k ?S" for x unfolding leaf_values_def using S k by blast
    moreover have "k e \<in> ?S" "\<And>x. x \<in> set encs \<Longrightarrow> k x \<in> ?S" by (simp_all add: commit_inputs_def)
    ultimately show "set ?xs \<subseteq> leaf_values k ?S" "k (k e) \<in> leaf_values k ?S" by auto
  qed (use ne root in auto)
  then obtain e' where e': "e' \<in> set encs" "k (k e) = k (k e')" by auto
  have mem: "e \<in> ?S" "k e \<in> ?S" "e' \<in> ?S" "k e' \<in> ?S" using e'(1) by (simp_all add: commit_inputs_def)
  have "k e = k e'" by (rule inj_onD [OF inj e'(2) mem(2, 4)])
  then have "e = e'" by (rule inj_onD [OF inj _ mem(1, 3)])
  with e' show ?thesis by simp
qed

lemma batch_leaves_encode:
  "mapM (\<lambda>(i, rs, as). batch_leaf k i rs as) batches = Inr leaves \<Longrightarrow>
   \<exists>encs. encode_batches batches = Inr encs \<and> leaves = map (\<lambda>x. k (k x)) encs"
  unfolding encode_batches_def
proof (induction batches arbitrary: leaves)
  case (Cons b batches)
  obtain i rs as where b: "b = (i, rs, as)" by (cases b)
  from Cons.prems obtain e ls where e: "abi_encode_batch i rs as = Inr e" "leaves = k (k e) # ls"
    "mapM (\<lambda>(i, rs, as). batch_leaf k i rs as) batches = Inr ls"
    by (auto simp: b batch_leaf_def bindR_Inr_iff simp del: mapM_Inr_iff)
  with Cons.IH [of ls] show ?case by (auto simp: b simp del: mapM_Inr_iff)
qed simp

text \<open>C23. The root commits to the batches: for a hash with 32-byte digests and no collision among
  the byte strings hashed to build the tree and to check the proof, a batch whose leaf verifies against
  the root with a proof of 32-byte nodes is a batch of the run, with the same number, recipients and amounts.\<close>

theorem batch_root_binding:
  assumes "mapM (\<lambda>(i, rs, as). batch_leaf k i rs as) batches = Inr leaves"
    and "tree_levels k leaves = Inr levels" "tree_root levels = Inr root"
    and "encode_batches batches = Inr encs" "abi_encode_batch j ss bs = Inr e"
    and "batch_leaf k j ss bs = Inr leaf" "tree_verify k ps root leaf"
    and "\<And>d. length (k d) = 32" "\<forall>p \<in> set ps. length p = 32"
    and "inj_on k (set (commit_inputs k encs e ps))"
  shows "\<exists>(i, rs, as) \<in> set batches. i = j \<and> mapM address_int rs = mapM address_int ss \<and> as = bs"
proof -
  have leaves: "leaves = map (\<lambda>x. k (k x)) encs" using batch_leaves_encode [OF assms(1)] assms(4) by auto
  note root = tree_levels_root [OF assms(2, 3)]
  have "root = hd (last levels)" by (rule root(3))
  moreover have "leaf = k (k e)" using assms(5, 6) by (simp add: batch_leaf_def)
  ultimately have "e \<in> set encs"
    using leaf_committed [OF assms(8) _ assms(9, 10)] assms(7) root(1) by (simp add: tree_verify_def root(2) leaves)
  then obtain b where b: "b \<in> set batches" "(case b of (i, rs, as) \<Rightarrow> abi_encode_batch i rs as) = Inr e"
    using mapM_mem [OF assms(4) [unfolded encode_batches_def]] by blast
  obtain i rs as where "b = (i, rs, as)" by (cases b)
  with b abi_encode_batch_inj [OF _ assms(5), of i rs as] show ?thesis by auto
qed

theorem batch_root_binding_witness:
  "(let k = (\<lambda>d. to_bytes_big 32 (length d));
        batches = [(7 :: int, [''0x00000000000000000000000000000000000000A1''], [5 :: int])]
    in \<exists>(i, rs, as) \<in> set batches. i = 7 \<and>
       mapM address_int rs = mapM address_int [''0x00000000000000000000000000000000000000a1''] \<and> as = [5])"
proof -
  let ?k = "\<lambda>d :: bytes. to_bytes_big 32 (length d)"
  let ?rs = "[''0x00000000000000000000000000000000000000A1'']"
  let ?ss = "[''0x00000000000000000000000000000000000000a1'']"
  have same: "mapM address_int ?rs = Inr [161]" "mapM address_int ?ss = Inr [161]" by code_simp+
  then have addr: "address_int (hd ?rs) = Inr 161" "address_int (hd ?ss) = Inr 161"
    by (simp_all add: bindR_Inr_iff del: mapM_Inr_iff)
  define e where "e = concat (map (to_bytes_big 32) [7, 96, 160, 1, 161, 1, 5])"
  have e: "abi_encode_batch 7 ?rs [5] = Inr e" "abi_encode_batch 7 ?ss [5] = Inr e"
    using addr by (simp_all add: abi_encode_batch_def word_def e_def)
  have len: "length e = 224" by (simp add: e_def)
  have inputs: "commit_inputs ?k [e] e [] = [e, ?k e, e, ?k e]"
    by (simp add: commit_inputs_def tree_pairs_def levels_from.simps)
  have "to_bytes_big 32 224 \<noteq> to_bytes_big 32 32" using to_bytes_big_inj [of 224 32 32] by auto
  then have inj: "inj_on ?k (set (commit_inputs ?k [e] e []))" unfolding inputs by (auto simp: inj_on_def len)
  have "\<exists>(i, rs, as) \<in> set [(7 :: int, ?rs, [5 :: int])]. i = 7 \<and> mapM address_int rs = mapM address_int ?ss \<and> as = [5]"
  proof (rule batch_root_binding [where k = ?k and ps = "[]" and e = e and encs = "[e]"])
    show "mapM (\<lambda>(i, rs, as). batch_leaf ?k i rs as) [(7, ?rs, [5])] = Inr [?k (?k e)]"
      by (simp add: batch_leaf_def e del: mapM_Inr_iff)
    show "tree_levels ?k [?k (?k e)] = Inr [[?k (?k e)]]" by (simp add: tree_levels_def levels_from.simps)
    show "tree_root [[?k (?k e)]] = Inr (?k (?k e))" by (simp add: tree_root_def)
    show "batch_leaf ?k 7 ?ss [5] = Inr (?k (?k e))" by (simp add: batch_leaf_def e)
    show "tree_verify ?k [] (?k (?k e)) (?k (?k e))" by (simp add: tree_verify_def)
    show "encode_batches [(7, ?rs, [5])] = Inr [e]" by (simp add: encode_batches_def e del: mapM_Inr_iff)
  qed (use e inj in simp_all)
  then show ?thesis by (simp only: Let_def)
qed

end
