(* ===== verification/RunDir.thy ===== *)
theory RunDir
  imports Recipients BatchTree
begin

text \<open>
  Run directories of the airdrop: \<^verbatim>\<open>build.py\<close> writes one from a recipient list
  (\<^verbatim>\<open>write_run\<close> of \<^verbatim>\<open>common.py\<close>), \<^verbatim>\<open>verify.py\<close> rebuilds every batch, leaf and the root
  from its \<^verbatim>\<open>distribution.csv\<close> and compares. The CSV file is its text. A JSON document is the record
  of the values that the writer puts into it, or \<open>Torn\<close> when a write stopped before the end of the
  document. The files are written one after the other, and any of the writes may fail.
\<close>

section \<open>The directory\<close>

definition MAX_BATCH_SIZE :: int where "MAX_BATCH_SIZE = 500"

definition DEFAULT_BATCH_SIZE :: int where "DEFAULT_BATCH_SIZE = 400"

definition RUN_FORMAT :: string where "RUN_FORMAT = ''committed-batch-airdrop/v1''"

definition LEAF_SCHEME :: string where
  "LEAF_SCHEME = ''keccak256(keccak256(abi.encode(uint256 batchIndex, address[] recipients, uint256[] amounts)))''"

definition TREE_SCHEME :: string where
  "TREE_SCHEME = ''binary tree over batch leaves in index order; pairs hashed keccak256(min || max); unpaired node carried up''"

record batch_payload =
  bp_index :: int
  bp_leaf :: string
  bp_proof :: "string list"
  bp_recipients :: "string list"
  bp_amounts :: "string list"

record batch_summary =
  bs_index :: int
  bs_leaf :: string
  bs_recipients :: int
  bs_amount :: string

record manifest =
  mf_format :: string
  mf_created_utc :: string
  mf_label :: string
  mf_keccak_backend :: string
  mf_sources :: "source_info list"
  mf_address_column :: string
  mf_amount_column :: string
  mf_amount_unit :: string
  mf_order :: string
  mf_batch_size :: int
  mf_batch_count :: int
  mf_recipient_count :: int
  mf_total_amount :: string
  mf_total_amount_display :: string
  mf_root :: string
  mf_list_sha256 :: string
  mf_leaf_scheme :: string
  mf_tree_scheme :: string
  mf_batches :: "batch_summary list"

datatype 'a doc = Whole 'a | Torn

record run_dir =
  rd_path :: string
  rd_distribution :: "string option"
  rd_batches :: "(string, batch_payload doc) dict"
  rd_manifest :: "manifest doc option"

definition batch_file :: "nat \<Rightarrow> string" where
  "batch_file index = ''batch-'' @ zfill 5 (str_nat index) @ ''.json''"

section \<open>Writing\<close>

text \<open>The batches, their leaves, the levels and the root, as the writer and the verifier compute them.\<close>

definition run_levels :: "(bytes \<Rightarrow> bytes) \<Rightarrow> row list \<Rightarrow> int \<Rightarrow>
    (row list list \<times> bytes list \<times> bytes list list \<times> bytes) result" where
  "run_levels keccak256 rows batch_size =
     bindR (chunk rows batch_size) (\<lambda>batches.
     bindR (mapM (\<lambda>(i, b). batch_leaf keccak256 (int i) (map row_address b) (map row_amount b)) (enumerate 0 batches)) (\<lambda>leaves.
     bindR (tree_levels keccak256 leaves) (\<lambda>levels.
     bindR (tree_root levels) (\<lambda>root. Inr (batches, leaves, levels, root)))))"

definition distribution_text :: "row list \<Rightarrow> string" where
  "distribution_text rows = csv_text ([''address'', ''amount''] # map (\<lambda>r. [row_address r, str_int (row_amount r)]) rows)"

definition make_payload :: "bytes list \<Rightarrow> bytes list list \<Rightarrow> nat \<Rightarrow> row list \<Rightarrow> batch_payload" where
  "make_payload leaves levels i b =
     \<lparr>bp_index = int i, bp_leaf = hex0x (leaves ! i), bp_proof = map hex0x (tree_proof levels i),
      bp_recipients = map row_address b, bp_amounts = map (\<lambda>r. str_int (row_amount r)) b\<rparr>"

definition make_summary :: "bytes list \<Rightarrow> nat \<Rightarrow> row list \<Rightarrow> batch_summary" where
  "make_summary leaves i b =
     \<lparr>bs_index = int i, bs_leaf = hex0x (leaves ! i), bs_recipients = int (length b),
      bs_amount = str_int (sum_list (map row_amount b))\<rparr>"

definition make_manifest :: "string \<Rightarrow> string \<Rightarrow> row list \<Rightarrow> int \<Rightarrow> read_info \<Rightarrow> string \<Rightarrow> string \<Rightarrow>
    row list list \<Rightarrow> bytes list \<Rightarrow> bytes \<Rightarrow> manifest" where
  "make_manifest now backend rows batch_size info label order batches leaves root =
     (let total = sum_list (map row_amount rows) in
      \<lparr>mf_format = RUN_FORMAT, mf_created_utc = now, mf_label = label, mf_keccak_backend = backend,
       mf_sources = ri_sources info, mf_address_column = ri_address_column info,
       mf_amount_column = ri_amount_column info, mf_amount_unit = ri_amount_unit info, mf_order = order,
       mf_batch_size = batch_size, mf_batch_count = int (length batches),
       mf_recipient_count = int (length rows), mf_total_amount = str_int total,
       mf_total_amount_display = format_one total, mf_root = hex0x root,
       mf_list_sha256 = sha256_file (encode (distribution_text rows)),
       mf_leaf_scheme = LEAF_SCHEME, mf_tree_scheme = TREE_SCHEME,
       mf_batches = map (\<lambda>(i, b). make_summary leaves i b) (enumerate 0 batches)\<rparr>)"

text \<open>
  How a write can fail: the file is not created; it is cut off after some characters; or all of it is
  on the disk and the call fails nevertheless. \<open>faults\<close> says for each name in the run directory
  whether the call that creates it fails. A JSON document that is cut off has no closing brace; a file
  that lacks only the newline after it counts as whole.
\<close>

datatype write_fault = NotCreated | CutShort nat | NotClosed

type_synonym faults = "string \<Rightarrow> write_fault option"

definition text_left :: "write_fault option \<Rightarrow> string \<Rightarrow> string option" where
  "text_left f content =
     (case f of
        Some NotCreated \<Rightarrow> None
      | Some (CutShort n) \<Rightarrow> Some (take n content)
      | _ \<Rightarrow> Some content)"

definition doc_left :: "write_fault option \<Rightarrow> 'a \<Rightarrow> 'a doc option" where
  "doc_left f content =
     (case f of
        Some NotCreated \<Rightarrow> None
      | Some (CutShort n) \<Rightarrow> Some Torn
      | _ \<Rightarrow> Some (Whole content))"

definition io_result :: "write_fault option \<Rightarrow> string \<Rightarrow> unit result" where
  "io_result f name = require (f = None) (OSError name)"

text \<open>One file after the other: the batch files in the order of their batches, then the manifest. The
  first failure ends the run with what is on the disk so far.\<close>

definition put_batch :: "write_fault option \<Rightarrow> string \<Rightarrow> batch_payload \<Rightarrow> run_dir \<Rightarrow> run_dir" where
  "put_batch f name payload dir =
     (case doc_left f payload of
        None \<Rightarrow> dir
      | Some d \<Rightarrow> dir\<lparr>rd_batches := dict_set name d (rd_batches dir)\<rparr>)"

fun write_batches :: "faults \<Rightarrow> bytes list \<Rightarrow> bytes list list \<Rightarrow> run_dir \<Rightarrow> (nat \<times> row list) list \<Rightarrow>
    run_dir \<times> unit result" where
  "write_batches faults leaves levels dir [] = (dir, Inr ())"
| "write_batches faults leaves levels dir ((i, b) # rest) =
     (let name = batch_file i;
          dir = put_batch (faults name) name (make_payload leaves levels i b) dir
      in case io_result (faults name) name of
           Inl e \<Rightarrow> (dir, Inl e)
         | Inr _ \<Rightarrow> write_batches faults leaves levels dir rest)"

text \<open>
  The directory after the call, and what the call returns or raises. \<open>existing\<close> is the directory
  that is already there, if any.
\<close>

definition write_run :: "(bytes \<Rightarrow> bytes) \<Rightarrow> string \<Rightarrow> string \<Rightarrow> faults \<Rightarrow> string \<Rightarrow> run_dir option \<Rightarrow> row list \<Rightarrow>
    int \<Rightarrow> read_info \<Rightarrow> string \<Rightarrow> string \<Rightarrow> run_dir option \<times> manifest result" where
  "write_run keccak256 now backend faults path existing rows batch_size info label order =
     (if batch_size < 1 \<or> batch_size > MAX_BATCH_SIZE
      then (existing, Inl (InputError ''batch size out of range''))
      else case existing of
        Some _ \<Rightarrow> (existing, Inl (FileExistsError path))
      | None \<Rightarrow>
          if faults [] \<noteq> None then (None, Inl (OSError path))
          else
            let dir = \<lparr>rd_path = path, rd_distribution = None, rd_batches = [], rd_manifest = None\<rparr> in
            if faults ''batches'' \<noteq> None then (Some dir, Inl (OSError ''batches''))
            else
              let dir = dir\<lparr>rd_distribution := text_left (faults ''distribution.csv'') (distribution_text rows)\<rparr> in
              case bindR (io_result (faults ''distribution.csv'') ''distribution.csv'')
                  (\<lambda>_. run_levels keccak256 rows batch_size) of
                Inl e \<Rightarrow> (Some dir, Inl e)
              | Inr (batches, leaves, levels, root) \<Rightarrow>
                  (case write_batches faults leaves levels dir (enumerate 0 batches) of
                     (dir, Inl e) \<Rightarrow> (Some dir, Inl e)
                   | (dir, Inr _) \<Rightarrow>
                       let m = make_manifest now backend rows batch_size info label order batches leaves root in
                       (Some (dir\<lparr>rd_manifest := doc_left (faults ''manifest.json'') m\<rparr>),
                        bindR (io_result (faults ''manifest.json'') ''manifest.json'') (\<lambda>_. Inr m))))"

section \<open>Reading\<close>

text \<open>Reading a document of JSON; a missing key of a document that is whole is outside the model.\<close>

definition load_doc :: "'a doc \<Rightarrow> 'a result" where
  "load_doc d = (case d of Whole x \<Rightarrow> Inr x | Torn \<Rightarrow> Inl (ValueError ''JSONDecodeError''))"

definition read_manifest :: "run_dir \<Rightarrow> manifest result" where
  "read_manifest dir =
     (case rd_manifest dir of
        None \<Rightarrow> Inl (InputError ''manifest.json not found; is this a run directory?'')
      | Some d \<Rightarrow> bindR (load_doc d) (\<lambda>m.
          if mf_format m \<noteq> RUN_FORMAT then Inl (InputError ''unexpected format'') else Inr m))"

definition read_distribution_record :: "string \<Rightarrow> nat \<times> string list \<Rightarrow> row result" where
  "read_distribution_record path numbered =
     (case numbered of
        (line_no, address # amount # _) \<Rightarrow>
          bindR (py_int amount) (\<lambda>n.
            Inr \<lparr>row_address = address, row_amount = n, row_source = path @ CHR '':'' # str_nat line_no\<rparr>)
      | _ \<Rightarrow> Inl IndexError)"

definition read_distribution :: "run_dir \<Rightarrow> row list result" where
  "read_distribution dir =
     bindR (of_option (FileNotFoundError ''distribution.csv'') (rd_distribution dir)) (\<lambda>content.
       case csv_reader content of
         [] \<Rightarrow> Inl (RuntimeError ''StopIteration'')
       | header # records \<Rightarrow>
           if header \<noteq> [''address'', ''amount''] then Inl (InputError ''unexpected header'')
           else mapM (read_distribution_record (rd_path dir @ ''/distribution.csv'')) (enumerate 2 records))"

definition read_batch :: "run_dir \<Rightarrow> nat \<Rightarrow> batch_payload result" where
  "read_batch dir index =
     bindR (of_option (FileNotFoundError (batch_file index)) (dict_get (rd_batches dir) (batch_file index))) (\<lambda>d.
     bindR (load_doc d) (\<lambda>payload.
       if bp_index payload \<noteq> int index then Inl (InputError ''unexpected batch_index'') else Inr payload))"

section \<open>Verification\<close>

datatype problem =
    NotChecksummed string
  | DuplicateAddress string
  | NonPositiveAmount string
  | BatchCountDiffers
  | RecipientCountDiffers
  | TotalDiffers
  | RootDiffers
  | ListHashDiffers
  | BatchUnreadable nat
  | RecipientsDiffer nat
  | AmountsDiffer nat
  | LeafDiffers nat
  | ProofDiffers nat
  | ProofMissesRoot nat

definition note_if :: "bool \<Rightarrow> problem \<Rightarrow> problem list" where
  "note_if b p = (if b then [p] else [])"

definition check_row :: "(bytes \<Rightarrow> bytes) \<Rightarrow> string list \<times> problem list \<Rightarrow> row \<Rightarrow> (string list \<times> problem list) result" where
  "check_row keccak256 st r =
     (case st of (seen, problems) \<Rightarrow>
        bindR (to_checksum keccak256 (row_address r)) (\<lambda>c.
          Inr (row_key r # seen,
               problems @ note_if (row_address r \<noteq> c) (NotChecksummed (row_source r))
                 @ note_if (row_key r \<in> set seen) (DuplicateAddress (row_source r))
                 @ note_if (row_amount r \<le> 0) (NonPositiveAmount (row_source r)))))"

text \<open>The errors of \<^verbatim>\<open>read_batch\<close> that the verifier reports as a problem; it raises any other.\<close>

definition caught :: "py_error \<Rightarrow> bool" where
  "caught e = (case e of FileNotFoundError _ \<Rightarrow> True | InputError _ \<Rightarrow> True | _ \<Rightarrow> False)"

definition check_batch :: "(bytes \<Rightarrow> bytes) \<Rightarrow> run_dir \<Rightarrow> bytes list \<Rightarrow> bytes list list \<Rightarrow> bytes \<Rightarrow>
    problem list \<Rightarrow> nat \<times> row list \<Rightarrow> problem list result" where
  "check_batch keccak256 dir leaves levels root problems numbered =
     (case numbered of (i, b) \<Rightarrow>
        case read_batch dir i of
          Inl e \<Rightarrow> if caught e then Inr (problems @ [BatchUnreadable i]) else Inl e
        | Inr payload \<Rightarrow>
            bindR (mapM py_int (bp_amounts payload)) (\<lambda>amounts.
            bindR (mapM unhex (bp_proof payload)) (\<lambda>nodes.
              Inr (problems
                @ note_if (bp_recipients payload \<noteq> map row_address b) (RecipientsDiffer i)
                @ note_if (amounts \<noteq> map row_amount b) (AmountsDiffer i)
                @ note_if (bp_leaf payload \<noteq> hex0x (leaves ! i)) (LeafDiffers i)
                @ note_if (nodes \<noteq> tree_proof levels i) (ProofDiffers i)
                @ note_if (\<not> tree_verify keccak256 nodes root (leaves ! i)) (ProofMissesRoot i)))))"

record verify_result =
  vr_manifest :: manifest
  vr_root :: string
  vr_batch_count :: int
  vr_recipient_count :: int
  vr_total_amount :: int
  vr_list_sha256 :: string
  vr_problems :: "problem list"

definition check_totals :: "manifest \<Rightarrow> row list list \<Rightarrow> row list \<Rightarrow> string \<Rightarrow> string \<Rightarrow> problem list" where
  "check_totals m batches rows root list_sha256 =
     note_if (int (length batches) \<noteq> mf_batch_count m) BatchCountDiffers
     @ note_if (int (length rows) \<noteq> mf_recipient_count m) RecipientCountDiffers
     @ note_if (str_int (sum_list (map row_amount rows)) \<noteq> mf_total_amount m) TotalDiffers
     @ note_if (root \<noteq> mf_root m) RootDiffers
     @ note_if (list_sha256 \<noteq> mf_list_sha256 m) ListHashDiffers"

definition verify_run :: "(bytes \<Rightarrow> bytes) \<Rightarrow> run_dir \<Rightarrow> verify_result result" where
  "verify_run keccak256 dir =
     bindR (read_manifest dir) (\<lambda>m.
     bindR (read_distribution dir) (\<lambda>rows.
     bindR (foldM (check_row keccak256) ([], []) rows) (\<lambda>(_, row_problems).
     bindR (run_levels keccak256 rows (mf_batch_size m)) (\<lambda>(batches, leaves, levels, root).
       let list_sha256 = sha256_file (encode (the (rd_distribution dir))) in
       bindR (foldM (check_batch keccak256 dir leaves levels root)
           (row_problems @ check_totals m batches rows (hex0x root) list_sha256) (enumerate 0 batches)) (\<lambda>problems.
         Inr \<lparr>vr_manifest = m, vr_root = hex0x root, vr_batch_count = int (length batches),
              vr_recipient_count = int (length rows), vr_total_amount = sum_list (map row_amount rows),
              vr_list_sha256 = list_sha256, vr_problems = problems\<rparr>)))))"

section \<open>The build command\<close>

record build_args =
  ba_input :: input_path
  ba_run_dir :: string
  ba_label :: string
  ba_batch_size :: int
  ba_address_column :: "string option"
  ba_amount_column :: "string option"
  ba_amount_unit :: "string option"
  ba_order :: string
  ba_merge_duplicates :: bool
  ba_force :: bool

text \<open>With \<^verbatim>\<open>--force\<close> the existing directory is removed before \<^verbatim>\<open>write_run\<close> is called; the removal
  itself is taken as a whole.\<close>

definition build :: "(bytes \<Rightarrow> bytes) \<Rightarrow> string \<Rightarrow> string \<Rightarrow> faults \<Rightarrow> build_args \<Rightarrow> run_dir option \<Rightarrow> run_dir option \<times> manifest result" where
  "build keccak256 now backend faults args existing =
     (case bindR (read_rows keccak256 (ba_input args) (ba_address_column args) (ba_amount_column args)
                    (ba_amount_unit args) True)
             (\<lambda>(rows, info). bindR (consolidate rows (ba_order args) (ba_merge_duplicates args)) (\<lambda>rows.
               if existing \<noteq> None \<and> \<not> ba_force args then Inl (InputError ''already exists; pass --force to replace it'')
               else Inr (rows, info))) of
        Inl e \<Rightarrow> (existing, Inl e)
      | Inr (rows, info) \<Rightarrow>
          write_run keccak256 now backend faults (ba_run_dir args) None rows (ba_batch_size args) info (ba_label args) (ba_order args))"

section \<open>A written run reads back\<close>

definition pay :: "row \<Rightarrow> string \<times> int" where
  "pay r = (row_address r, row_amount r)"

lemma map_row_pay: "row_address r = fst (pay r)" "row_amount r = snd (pay r)"
  by (simp_all add: pay_def)

lemma map_pay_eqD:
  assumes "map pay xs = map pay ys"
  shows "map row_address xs = map row_address ys" "map row_amount xs = map row_amount ys"
    "map row_key xs = map row_key ys" "length xs = length ys"
proof -
  have "map fst (map pay xs) = map fst (map pay ys)" "map snd (map pay xs) = map snd (map pay ys)"
    "map (lower \<circ> fst) (map pay xs) = map (lower \<circ> fst) (map pay ys)"
    using assms by simp_all
  then show "map row_address xs = map row_address ys" "map row_amount xs = map row_amount ys"
    "map row_key xs = map row_key ys" by (simp_all add: pay_def o_def)
  show "length xs = length ys" using assms by (rule map_eq_imp_length_eq)
qed

lemma is_hex_not_special: "is_hex c \<Longrightarrow> \<not> is_special c"
  by (auto simp: is_hex_def hex_digit_value_def is_digit_def is_special_def is_newline_def split: if_splits)

lemma is_digit_not_special: "is_digit c \<Longrightarrow> \<not> is_special c"
  by (auto simp: is_digit_def is_special_def is_newline_def)

lemma normalized_plain:
  assumes h: "hash32 keccak256" and "normalize_address keccak256 a = Inr a"
  shows "a \<noteq> [] \<and> \<not> needs_quotes a"
proof -
  obtain c where c: "a = ''0x'' @ c" "list_all is_hex c"
    using hash32.normalize_address_shape [OF h assms(2)] by blast
  have "\<not> is_special (CHR ''0'')" "\<not> is_special (CHR ''x'')" by (simp_all add: is_special_def is_newline_def)
  with c show ?thesis by (auto simp: needs_quotes_def list_all_iff is_hex_not_special)
qed

lemma str_int_plain:
  assumes "0 < n"
  shows "str_int n \<noteq> [] \<and> \<not> needs_quotes (str_int n)"
  using assms str_nat_digits [of "nat n"]
  by (auto simp: str_int_def needs_quotes_def list_all_iff is_digit_not_special)

lemma read_distribution_record_pay:
  "\<exists>r'. read_distribution_record path (n, [row_address r, str_int (row_amount r)]) = Inr r' \<and> pay r' = pay r"
  by (simp add: read_distribution_record_def pay_def)

lemma mapM_read_distribution:
  "\<exists>rows'. mapM (read_distribution_record path) (enumerate n (map (\<lambda>r. [row_address r, str_int (row_amount r)]) rows)) = Inr rows'
     \<and> map pay rows' = map pay rows"
proof (induction rows arbitrary: n)
  case (Cons r rows)
  obtain r' where r: "read_distribution_record path (n, [row_address r, str_int (row_amount r)]) = Inr r'" "pay r' = pay r"
    using read_distribution_record_pay by blast
  obtain rows' where "mapM (read_distribution_record path) (enumerate (Suc n) (map (\<lambda>r. [row_address r, str_int (row_amount r)]) rows)) = Inr rows'"
    "map pay rows' = map pay rows" using Cons by blast
  with r show ?case by (simp del: mapM_Inr_iff)
qed simp

lemma read_distribution_text:
  assumes h: "hash32 keccak256" and rows: "\<forall>r \<in> set rows. row_ok keccak256 r"
    and dir: "rd_distribution dir = Some (distribution_text rows)"
  obtains rows' where "read_distribution dir = Inr rows'" "map pay rows' = map pay rows"
proof -
  have "plain_row [row_address r, str_int (row_amount r)]" if "r \<in> set rows" for r
    using that rows normalized_plain [OF h] str_int_plain by (simp add: plain_row_def row_ok_def)
  moreover have "plain_row [''address'', ''amount'']" by code_simp
  ultimately have "csv_reader (distribution_text rows) =
      [''address'', ''amount''] # map (\<lambda>r. [row_address r, str_int (row_amount r)]) rows"
    unfolding distribution_text_def by (intro csv_reader_text) auto
  then have eq: "read_distribution dir = mapM (read_distribution_record (rd_path dir @ ''/distribution.csv''))
      (enumerate 2 (map (\<lambda>r. [row_address r, str_int (row_amount r)]) rows))"
    by (simp add: read_distribution_def dir of_option_def)
  obtain rows' where "read_distribution dir = Inr rows'" "map pay rows' = map pay rows"
    unfolding eq using mapM_read_distribution by blast
  then show thesis by (rule that)
qed

lemma mapM_comp: "mapM (\<lambda>x. g (f x)) xs = mapM g (map f xs)"
  by (induction xs) auto

lemma enumerate_map: "enumerate n (map f xs) = map (\<lambda>(i, x). (i, f x)) (enumerate n xs)"
  by (induction xs arbitrary: n) auto

lemma run_levels_pay:
  assumes same: "map pay rows' = map pay rows" and run: "run_levels k rows n = Inr (batches, leaves, levels, root)"
  obtains batches' where "run_levels k rows' n = Inr (batches', leaves, levels, root)"
    "map (map pay) batches' = map (map pay) batches"
proof -
  let ?g = "\<lambda>(i, p). batch_leaf k (int i) (map fst p) (map snd p)"
  have leaf: "mapM (\<lambda>(i, b). batch_leaf k (int i) (map row_address b) (map row_amount b)) (enumerate 0 bs) =
      mapM ?g (enumerate 0 (map (map pay) bs))" for bs
    unfolding enumerate_map mapM_comp [symmetric]
    by (rule arg_cong [of _ _ "\<lambda>f. mapM f (enumerate 0 bs)"]) (auto simp: pay_def o_def)
  from run obtain c: "chunk rows n = Inr batches" by (auto simp: run_levels_def result_simps)
  obtain batches' where c': "chunk rows' n = Inr batches'" and b: "map (map pay) batches' = map (map pay) batches"
    using c same slices_map [of "nat n" pay] by (auto simp: chunk_def split: if_splits) (metis slices_map)
  have "run_levels k rows' n = Inr (batches', leaves, levels, root)"
    using run by (simp add: run_levels_def c c' leaf b bindR_Inr_iff del: mapM_Inr_iff)
  with b that show thesis by blast
qed


lemma check_rows_clean:
  assumes "hash32 k" "\<forall>r \<in> set rows. row_ok k r" "distinct (map row_key rows)"
    "set seen \<inter> row_key ` set rows = {}"
  shows "foldM (check_row k) (seen, []) rows = Inr (rev (map row_key rows) @ seen, [])"
  using assms(2-4)
proof (induction rows arbitrary: seen)
  case (Cons r rows)
  have "to_checksum k (row_address r) = Inr (row_address r)"
    using hash32.normalize_address_shape [OF assms(1)] Cons.prems(1) by (auto simp: row_ok_def)
  then have "check_row k (seen, []) r = Inr (row_key r # seen, [])"
    using Cons.prems by (auto simp: check_row_def note_if_def row_ok_def)
  with Cons show ?case by simp
qed simp

lemma row_ok_pay: "pay r = pay r' \<Longrightarrow> row_ok k r = row_ok k r'"
  by (simp add: row_ok_def pay_def)

lemma rows_ok_pay: "map pay rows' = map pay rows \<Longrightarrow> \<forall>r \<in> set rows. row_ok k r \<Longrightarrow> \<forall>r \<in> set rows'. row_ok k r"
  by (metis (no_types, lifting) image_iff list.set_map row_ok_pay)

lemma batch_file_inj: "batch_file i = batch_file j \<Longrightarrow> i = j"
proof -
  assume "batch_file i = batch_file j"
  then have "zfill 5 (str_nat i) = zfill 5 (str_nat j)" by (simp add: batch_file_def)
  then have "digits_value (zfill 5 (str_nat i)) = digits_value (zfill 5 (str_nat j))" by simp
  then show "i = j" by simp
qed

lemma put_batch_None [simp]:
  "put_batch None name payload dir = dir\<lparr>rd_batches := dict_set name (Whole payload) (rd_batches dir)\<rparr>"
  by (simp add: put_batch_def doc_left_def)

lemma io_result_None [simp]: "io_result None name = Inr ()"
  by (simp add: io_result_def)

lemma io_result_Inr: "io_result f name = Inr u \<longleftrightarrow> f = None"
  by (auto simp: io_result_def require_def)

text \<open>The loop writes no other part of the directory; when it ends, every batch has its file.\<close>

lemma write_batches_frame:
  "write_batches faults leaves levels dir bs = (dir', r) \<Longrightarrow>
   rd_path dir' = rd_path dir \<and> rd_distribution dir' = rd_distribution dir \<and> rd_manifest dir' = rd_manifest dir"
  by (induction faults leaves levels dir bs rule: write_batches.induct)
    (auto simp: put_batch_def Let_def split: sum.splits option.splits)

lemma write_batches_Inr:
  assumes "write_batches faults leaves levels dir (enumerate n bs) = (dir', Inr u)"
  shows "dict_get (rd_batches dir') (batch_file j) =
    (if n \<le> j \<and> j < n + length bs then Some (Whole (make_payload leaves levels j (bs ! (j - n))))
     else dict_get (rd_batches dir) (batch_file j))"
  using assms
proof (induction bs arbitrary: n dir)
  case (Cons b bs)
  then have ok: "faults (batch_file n) = None"
    and w: "write_batches faults leaves levels
      (dir\<lparr>rd_batches := dict_set (batch_file n) (Whole (make_payload leaves levels n b)) (rd_batches dir)\<rparr>)
      (enumerate (Suc n) bs) = (dir', Inr u)"
    by (auto simp: Let_def io_result_Inr split: sum.splits)
  show ?case
    using Cons.IH [OF w] batch_file_inj [of j n] by (cases "j = n") (auto simp: nth_Cons' Suc_le_eq)
qed auto

lemma unhex_hex0x [simp]: "unhex (hex0x b) = Inr b"
  unfolding unhex_def hex0x_def removeprefix_0x by simp

lemma mapM_unhex_hex0x: "mapM unhex (map hex0x xs) = Inr xs"
  by (induction xs) simp_all

lemma mapM_py_int_str: "mapM py_int (map (\<lambda>r. str_int (f r)) xs) = Inr (map f xs)"
  by (induction xs) simp_all

lemma foldM_fixed: "(\<And>x. x \<in> set xs \<Longrightarrow> f s x = Inr s) \<Longrightarrow> foldM f s xs = Inr s"
  by (induction xs) simp_all

lemma check_batch_clean:
  assumes batch: "dict_get (rd_batches dir) (batch_file i) = Some (Whole (make_payload leaves levels i b))"
    and same: "map pay b' = map pay b" and verified: "tree_verify k (tree_proof levels i) root (leaves ! i)"
  shows "check_batch k dir leaves levels root [] (i, b') = Inr []"
proof -
  have "read_batch dir i = Inr (make_payload leaves levels i b)"
    by (simp add: read_batch_def batch load_doc_def make_payload_def)
  with verified show ?thesis
    using mapM_py_int_str [of row_amount b] map_pay_eqD [OF same]
    by (simp add: check_batch_def make_payload_def note_if_def mapM_unhex_hex0x del: mapM_Inr_iff)
qed


lemma run_levels_Inr:
  assumes "run_levels k rows n = Inr (batches, leaves, levels, root)"
  shows "chunk rows n = Inr batches" "length leaves = length batches"
    "tree_levels k leaves = Inr levels" "tree_root levels = Inr root"
  using assms by (auto simp: run_levels_def result_simps dest: list_all2_lengthD)

text \<open>A directory whose files are all there; its manifest comes from the same rows.\<close>

definition complete_run :: "(bytes \<Rightarrow> bytes) \<Rightarrow> row list \<Rightarrow> manifest \<Rightarrow> run_dir \<Rightarrow> bool" where
  "complete_run k rows m dir \<longleftrightarrow>
     rd_distribution dir = Some (distribution_text rows) \<and> rd_manifest dir = Some (Whole m) \<and>
     (\<exists>now backend n info label order batches leaves levels root.
        run_levels k rows n = Inr (batches, leaves, levels, root) \<and>
        m = make_manifest now backend rows n info label order batches leaves root \<and>
        (\<forall>i < length batches. dict_get (rd_batches dir) (batch_file i) = Some (Whole (make_payload leaves levels i (batches ! i)))))"

text \<open>What a call on a free path leaves: no directory, one that has no whole manifest, or a complete
  run; and a call that returns has left a complete run.\<close>

lemma write_run_leaves:
  assumes "write_run k now backend faults path None rows n info label order = (Some dir, r)"
  shows "rd_manifest dir = None \<and> isl r \<or> rd_manifest dir = Some Torn \<and> isl r \<or>
    (\<exists>m. complete_run k rows m dir \<and> (r = Inr m \<or> isl r \<and> faults ''manifest.json'' = Some NotClosed))"
proof (cases "bindR (io_result (faults ''distribution.csv'') ''distribution.csv'') (\<lambda>_. run_levels k rows n)")
  case (Inl e)
  then show ?thesis using assms by (auto simp: write_run_def Let_def split: if_splits)
next
  case (Inr lv)
  obtain batches leaves levels root where lv: "lv = (batches, leaves, levels, root)" by (cases lv) auto
  with Inr have ok: "faults ''distribution.csv'' = None" "run_levels k rows n = Inr (batches, leaves, levels, root)"
    by (auto simp: bindR_Inr_iff io_result_Inr)
  define start where "start = \<lparr>rd_path = path, rd_distribution = Some (distribution_text rows), rd_batches = [], rd_manifest = None\<rparr>"
  obtain dir' u where w: "write_batches faults leaves levels start (enumerate 0 batches) = (dir', u)"
    by (cases "write_batches faults leaves levels start (enumerate 0 batches)") auto
  note frame = write_batches_frame [OF w]
  show ?thesis
  proof (cases u)
    case (Inl e)
    then show ?thesis using assms w ok frame
      by (auto simp: write_run_def Let_def text_left_def start_def split: if_splits)
  next
    case (Inr x)
    let ?m = "make_manifest now backend rows n info label order batches leaves root"
    have dir: "dir = dir'\<lparr>rd_manifest := doc_left (faults ''manifest.json'') ?m\<rparr> \<or> rd_manifest dir = None \<and> isl r"
      and r: "rd_manifest dir = None \<and> isl r \<or> r = bindR (io_result (faults ''manifest.json'') ''manifest.json'') (\<lambda>_. Inr ?m)"
      using assms w ok Inr by (auto simp: write_run_def Let_def text_left_def start_def split: if_splits)
    have "complete_run k rows ?m (dir'\<lparr>rd_manifest := Some (Whole ?m)\<rparr>)"
      using frame ok(2) write_batches_Inr [OF w [unfolded Inr]] by (fastforce simp: complete_run_def start_def)
    then show ?thesis using dir r
      by (auto simp: doc_left_def io_result_def require_def split: option.splits write_fault.splits)
  qed
qed

lemma write_run_Inr:
  assumes "write_run k now backend faults path existing rows n info label order = (dir, Inr m)"
  obtains d where "dir = Some d" "existing = None" "complete_run k rows m d"
proof -
  have e: "existing = None" using assms by (auto simp: write_run_def split: if_splits option.splits)
  moreover obtain d where d: "dir = Some d"
    using assms by (auto simp: write_run_def Let_def split: if_splits option.splits sum.splits prod.splits)
  ultimately show thesis using write_run_leaves [OF assms [unfolded d e]] that by auto
qed

lemma complete_run_verifies:
  assumes h: "hash32 k" and rows: "\<forall>r \<in> set rows. row_ok k r" "distinct (map row_key rows)"
    and run: "complete_run k rows m dir"
  shows "\<exists>res. verify_run k dir = Inr res \<and> vr_problems res = [] \<and> vr_manifest res = m \<and>
    vr_total_amount res = sum_list (map row_amount rows)"
proof -
  obtain now backend n info label order batches leaves levels root where
    lv: "run_levels k rows n = Inr (batches, leaves, levels, root)"
    and m: "m = make_manifest now backend rows n info label order batches leaves root"
    and d: "rd_distribution dir = Some (distribution_text rows)" "rd_manifest dir = Some (Whole m)"
    and files: "\<And>i. i < length batches \<Longrightarrow> dict_get (rd_batches dir) (batch_file i) = Some (Whole (make_payload leaves levels i (batches ! i)))"
    using run unfolding complete_run_def by blast
  note r = run_levels_Inr [OF lv]
  have mf: "read_manifest dir = Inr m" by (simp add: read_manifest_def load_doc_def d m make_manifest_def Let_def)
  obtain rows' where rd: "read_distribution dir = Inr rows'" and same: "map pay rows' = map pay rows"
    using read_distribution_text [OF h rows(1) d(1)] by blast
  note same' = map_pay_eqD [OF same]
  have clean: "foldM (check_row k) ([], []) rows' = Inr (rev (map row_key rows'), [])"
    using check_rows_clean [OF h rows_ok_pay [OF same rows(1)], of "[]"] rows(2) same' by simp
  obtain batches' where lv': "run_levels k rows' n = Inr (batches', leaves, levels, root)"
    and bs: "map (map pay) batches' = map (map pay) batches"
    using run_levels_pay [OF same lv] by blast
  have n: "length batches' = length batches" using bs by (rule map_eq_imp_length_eq)
  have "check_batch k dir leaves levels root [] (i, b') = Inr []" if "(i, b') \<in> set (enumerate 0 batches')" for i b'
  proof (rule check_batch_clean)
    have i: "i < length batches" "b' = batches' ! i" using that n by (auto simp: in_set_enumerate_eq)
    then show "dict_get (rd_batches dir) (batch_file i) = Some (Whole (make_payload leaves levels i (batches ! i)))"
      using files by simp
    show "map pay b' = map pay (batches ! i)" using bs i n by (metis nth_map)
    show "tree_verify k (tree_proof levels i) root (leaves ! i)"
      using i r by (intro tree_proof_reaches_root) auto
  qed
  then have batches_clean: "foldM (check_batch k dir leaves levels root) [] (enumerate 0 batches') = Inr []"
    by (intro foldM_fixed) auto
  have totals: "check_totals m batches' rows' (hex0x root) (sha256_file (encode (the (rd_distribution dir)))) = []"
    by (simp add: check_totals_def note_if_def m make_manifest_def Let_def n same' d)
  have "mf_batch_size m = n" by (simp add: m make_manifest_def Let_def)
  then show ?thesis
    by (simp add: verify_run_def mf rd clean lv' totals batches_clean Let_def same')
qed

section \<open>A run without problems\<close>

lemma note_if_Nil [simp]: "note_if b p = [] \<longleftrightarrow> \<not> b"
  by (simp add: note_if_def)

lemma check_row_Inr:
  assumes "check_row k (seen, ps) r = Inr (seen', ps')"
  shows "seen' = row_key r # seen" "ps' = [] \<Longrightarrow> ps = [] \<and> row_key r \<notin> set seen \<and> 0 < row_amount r"
  using assms by (auto simp: check_row_def result_simps)

lemma check_rows_Inr:
  "foldM (check_row k) (seen, ps) rows = Inr (seen', []) \<Longrightarrow>
   ps = [] \<and> distinct (map row_key rows) \<and> set seen \<inter> row_key ` set rows = {} \<and> list_all (\<lambda>r. 0 < row_amount r) rows"
proof (induction rows arbitrary: seen ps)
  case (Cons r rows)
  then obtain s p where s: "check_row k (seen, ps) r = Inr (s, p)" "foldM (check_row k) (s, p) rows = Inr (seen', [])"
    by (auto simp: bindR_Inr_iff)
  with Cons.IH [OF s(2)] check_row_Inr [OF s(1)] show ?case by auto
qed simp

lemma foldM_problems:
  assumes "foldM f ps xs = Inr []" and grow: "\<And>s x s'. f s x = Inr s' \<Longrightarrow> s' = [] \<Longrightarrow> s = []"
  shows "ps = [] \<and> (\<forall>x \<in> set xs. f [] x = Inr [])"
  using assms(1)
proof (induction xs arbitrary: ps)
  case (Cons x xs)
  then obtain s where s: "f ps x = Inr s" "foldM f s xs = Inr []" by (auto simp: bindR_Inr_iff)
  with Cons.IH [OF s(2)] grow [OF s(1)] show ?case by auto
qed simp

lemma check_batch_Inr:
  assumes "check_batch k dir leaves levels root [] (i, b) = Inr []"
  obtains payload nodes where "read_batch dir i = Inr payload" "bp_recipients payload = map row_address b"
    "mapM py_int (bp_amounts payload) = Inr (map row_amount b)" "mapM unhex (bp_proof payload) = Inr nodes"
    "tree_verify k nodes root (leaves ! i)"
  using assms by (auto simp: check_batch_def bindR_Inr_iff simp del: mapM_Inr_iff split: sum.splits if_splits)

lemma check_batch_grows: "check_batch k dir leaves levels root s x = Inr s' \<Longrightarrow> s' = [] \<Longrightarrow> s = []"
  by (cases x) (auto simp: check_batch_def bindR_Inr_iff simp del: mapM_Inr_iff split: sum.splits if_splits)

lemma verify_run_clean:
  assumes "verify_run k dir = Inr res" "vr_problems res = []"
  obtains rows batches leaves levels root where
    "read_distribution dir = Inr rows" "distinct (map row_key rows)" "list_all (\<lambda>r. 0 < row_amount r) rows"
    "run_levels k rows (mf_batch_size (vr_manifest res)) = Inr (batches, leaves, levels, root)"
    "read_manifest dir = Inr (vr_manifest res)" "vr_batch_count res = int (length batches)"
    "check_totals (vr_manifest res) batches rows (hex0x root) (sha256_file (encode (the (rd_distribution dir)))) = []"
    "\<And>i. i < length batches \<Longrightarrow> check_batch k dir leaves levels root [] (i, batches ! i) = Inr []"
proof -
  from assms(1) obtain m rows seen ps batches leaves levels root problems where
    m: "read_manifest dir = Inr m" and rd: "read_distribution dir = Inr rows"
    and cr: "foldM (check_row k) ([], []) rows = Inr (seen, ps)"
    and lv: "run_levels k rows (mf_batch_size m) = Inr (batches, leaves, levels, root)"
    and cb: "foldM (check_batch k dir leaves levels root)
        (ps @ check_totals m batches rows (hex0x root) (sha256_file (encode (the (rd_distribution dir))))) (enumerate 0 batches) = Inr problems"
    and res: "vr_manifest res = m" "vr_problems res = problems" "vr_batch_count res = int (length batches)"
    unfolding verify_run_def by (auto simp: bindR_Inr_iff Let_def split: prod.splits)
  from cb have "ps @ check_totals m batches rows (hex0x root) (sha256_file (encode (the (rd_distribution dir)))) = [] \<and>
      (\<forall>x \<in> set (enumerate 0 batches). check_batch k dir leaves levels root [] x = Inr [])"
    using assms(2) check_batch_grows res(2) by (intro foldM_problems) auto
  then show thesis
    using that [OF rd _ _ lv [folded res(1)] m [folded res(1)] res(3)] check_rows_Inr [of k "[]" "[]" rows seen] cr res(1)
    by (auto simp: in_set_enumerate_eq)
qed

lemma run_levels_leaf:
  assumes "run_levels k rows n = Inr (batches, leaves, levels, root)" "i < length batches"
  shows "batch_leaf k (int i) (map row_address (batches ! i)) (map row_amount (batches ! i)) = Inr (leaves ! i)"
proof -
  have "list_all2 (\<lambda>x l. batch_leaf k (int (fst x)) (map row_address (snd x)) (map row_amount (snd x)) = Inr l)
      (enumerate 0 batches) leaves"
    using assms(1) by (auto simp: run_levels_def result_simps case_prod_beta)
  from list_all2_nthD [OF this, of i] assms(2) show ?thesis by (simp add: nth_enumerate_eq)
qed

lemma run_levels_concat:
  assumes "run_levels k rows n = Inr (batches, leaves, levels, root)"
  shows "concat batches = rows"
proof -
  note r = run_levels_Inr [OF assms]
  have "batches \<noteq> []" using tree_levels_root(1) [OF r(3, 4)] r(2) by auto
  then have "0 < n" "batches = slices (nat n) rows" using r(1) by (auto simp: chunk_def split: if_splits)
  then show ?thesis by simp
qed

section \<open>Built runs\<close>

lemma build_rows:
  assumes "build k now backend faults args existing = (dir, r)"
  obtains (refused) e where "dir = existing" "r = Inl e"
  | (written) rows info out where
    "read_rows k (ba_input args) (ba_address_column args) (ba_amount_column args) (ba_amount_unit args) True = Inr (rows, info)"
    "consolidate rows (ba_order args) (ba_merge_duplicates args) = Inr out"
    "write_run k now backend faults (ba_run_dir args) None out (ba_batch_size args) info (ba_label args) (ba_order args) = (dir, r)"
  using assms by (auto simp: build_def bindR_Inr_iff bindR_Inl_iff split: sum.splits prod.splits if_splits)

lemma rows_run_verifies:
  assumes k: "\<And>d. length (k d) = 32"
    and rd: "read_rows k path a b c True = Inr (rows, info)" and c: "consolidate rows ord merge = Inr out"
    and run: "complete_run k out m dir"
  shows "\<exists>res. verify_run k dir = Inr res \<and> vr_problems res = [] \<and> vr_manifest res = m \<and>
    vr_total_amount res = sum_list (map row_amount rows)"
proof -
  have h: "hash32 k" using k by (rule hash32.intro)
  have ok: "\<forall>r \<in> set out. row_ok k r" using consolidate_row_ok [OF c] read_rows_ok [OF k rd] by blast
  obtain d where d: "consolidated rows d" "mset out = mset (dict_values d)" using c by (rule consolidate_Inr)
  show ?thesis
    using complete_run_verifies [OF h ok consolidated_values(1) [OF d] run] consolidated_total [OF d] by simp
qed

lemma build_verifies:
  assumes "\<And>d. length (k d) = 32" "build k now backend faults args existing = (Some dir, Inr m)"
  shows "\<exists>res rows info. verify_run k dir = Inr res \<and> vr_problems res = [] \<and> vr_manifest res = m \<and>
    read_rows k (ba_input args) (ba_address_column args) (ba_amount_column args) (ba_amount_unit args) True = Inr (rows, info) \<and>
    vr_total_amount res = sum_list (map row_amount rows)"
  using assms(2)
proof (cases rule: build_rows)
  case (written rows info out)
  then show ?thesis using rows_run_verifies [OF assms(1) written(1, 2)] by (elim write_run_Inr) blast
qed simp

section \<open>A concrete run\<close>

definition sample_args :: "int \<Rightarrow> build_args" where
  "sample_args n = \<lparr>ba_input = sample_input,
     ba_run_dir = ''runs/a'', ba_label = [], ba_batch_size = n, ba_address_column = None,
     ba_amount_column = None, ba_amount_unit = None, ba_order = ''address'', ba_merge_duplicates = False, ba_force = True\<rparr>"

lemma sample_args_read:
  "\<exists>info. read_rows zero_hash (ba_input (sample_args n)) (ba_address_column (sample_args n)) (ba_amount_column (sample_args n))
     (ba_amount_unit (sample_args n)) True = Inr ([sample_row], info)"
  using sample_read by (simp add: sample_args_def)

lemma sample_consolidate: "consolidate [sample_row] (ba_order (sample_args n)) (ba_merge_duplicates (sample_args n)) = Inr [sample_row]"
proof -
  have "consolidate [sample_row] ''address'' False = Inr [sample_row]" by code_simp
  then show ?thesis by (simp add: sample_args_def)
qed

lemma sample_levels:
  obtains b leaves levels root where "run_levels zero_hash [sample_row] 2 = Inr ([b], leaves, levels, root)"
proof -
  have "(case run_levels zero_hash [sample_row] 2 of Inr (bs, l) \<Rightarrow> length bs = 1 | Inl e \<Rightarrow> False)" by code_simp
  then show thesis using that by (auto simp: length_Suc_conv split: sum.splits)
qed

lemma sample_build: "\<exists>dir m. build zero_hash now backend (\<lambda>_. None) (sample_args 2) None = (Some dir, Inr m)"
proof -
  obtain info where rd: "read_rows zero_hash (ba_input (sample_args 2)) (ba_address_column (sample_args 2)) (ba_amount_column (sample_args 2))
     (ba_amount_unit (sample_args 2)) True = Inr ([sample_row], info)" using sample_args_read by blast
  obtain b l v r where "run_levels zero_hash [sample_row] 2 = Inr ([b], l, v, r)" by (rule sample_levels)
  then show ?thesis
    using rd sample_consolidate [of 2] by (simp add: build_def write_run_def MAX_BATCH_SIZE_def sample_args_def Let_def)
qed

text \<open>A disk that is full when the first batch file is written.\<close>

definition full_disk :: faults where
  "full_disk name = (if name = batch_file 0 then Some (CutShort 3) else None)"

lemma sample_torn_build:
  "\<exists>d. build zero_hash now backend full_disk (sample_args 2) None = (Some d, Inl (OSError (batch_file 0))) \<and>
     dict_get (rd_batches d) (batch_file 0) = Some Torn \<and> rd_manifest d = None"
proof -
  obtain info where rd: "read_rows zero_hash (ba_input (sample_args 2)) (ba_address_column (sample_args 2)) (ba_amount_column (sample_args 2))
     (ba_amount_unit (sample_args 2)) True = Inr ([sample_row], info)" using sample_args_read by blast
  obtain b l v r where lv: "run_levels zero_hash [sample_row] 2 = Inr ([b], l, v, r)" by (rule sample_levels)
  have names: "full_disk [] = None" "full_disk ''batches'' = None" "full_disk ''distribution.csv'' = None"
    "full_disk (batch_file 0) = Some (CutShort 3)" by (simp_all add: full_disk_def batch_file_def)
  show ?thesis
    using rd lv sample_consolidate [of 2]
    by (simp add: build_def write_run_def MAX_BATCH_SIZE_def sample_args_def Let_def names io_result_def require_def
        put_batch_def doc_left_def text_left_def)
qed

section \<open>Properties\<close>

text \<open>C2. What \<^verbatim>\<open>build.py\<close> writes, \<^verbatim>\<open>verify.py\<close> accepts: for every input that the build
  accepts, the verifier finds no problem in the directory, reads the same manifest, and its total is
  the total of the rows that were read. The hash only needs 32-byte digests.\<close>

theorem built_run_verifies:
  assumes "\<And>d. length (k d) = 32" "build k now backend faults args existing = (Some dir, Inr m)"
  shows "\<exists>res rows info. verify_run k dir = Inr res \<and> vr_problems res = [] \<and> vr_manifest res = m \<and>
    read_rows k (ba_input args) (ba_address_column args) (ba_amount_column args) (ba_amount_unit args) True = Inr (rows, info) \<and>
    vr_total_amount res = sum_list (map row_amount rows)"
  using assms by (rule build_verifies)

theorem built_run_verifies_witness:
  "\<exists>dir m res. build zero_hash ''2026'' ''pure-python'' (\<lambda>_. None) (sample_args 2) None = (Some dir, Inr m) \<and>
     verify_run zero_hash dir = Inr res \<and> vr_problems res = [] \<and> vr_total_amount res = 5"
proof -
  obtain dir m where b: "build zero_hash ''2026'' ''pure-python'' (\<lambda>_. None) (sample_args 2) None = (Some dir, Inr m)"
    using sample_build by blast
  from built_run_verifies [OF length_zero_hash b] sample_args_read [of 2] b show ?thesis by fastforce
qed

text \<open>C1. What a clean verification promises: every recipient of the list is in exactly one batch
  file, in list order, with its amount; no address occurs twice; every amount is positive; the
  manifest's total is their sum; and every batch file carries a proof that its recipients and amounts
  are committed under the manifest's root.\<close>

theorem verified_run_pays_list:
  assumes "verify_run k dir = Inr res" "vr_problems res = []"
  shows "\<exists>rows payloads amounts root.
    read_distribution dir = Inr rows \<and> distinct (map row_key rows) \<and> list_all (\<lambda>r. 0 < row_amount r) rows \<and>
    mapM (read_batch dir) [0..<nat (vr_batch_count res)] = Inr payloads \<and>
    concat (map bp_recipients payloads) = map row_address rows \<and>
    mapM (\<lambda>p. mapM py_int (bp_amounts p)) payloads = Inr amounts \<and> concat amounts = map row_amount rows \<and>
    mf_total_amount (vr_manifest res) = str_int (sum_list (map row_amount rows)) \<and>
    mf_root (vr_manifest res) = hex0x root \<and>
    list_all (\<lambda>i. \<exists>leaf nodes. batch_leaf k (int i) (bp_recipients (payloads ! i)) (amounts ! i) = Inr leaf \<and>
      mapM unhex (bp_proof (payloads ! i)) = Inr nodes \<and> tree_verify k nodes root leaf) [0..<length payloads]"
proof -
  obtain rows batches leaves levels root where rd: "read_distribution dir = Inr rows"
    and clean: "distinct (map row_key rows)" "list_all (\<lambda>r. 0 < row_amount r) rows"
    and lv: "run_levels k rows (mf_batch_size (vr_manifest res)) = Inr (batches, leaves, levels, root)"
    and n: "vr_batch_count res = int (length batches)"
    and totals: "check_totals (vr_manifest res) batches rows (hex0x root) (sha256_file (encode (the (rd_distribution dir)))) = []"
    and cb: "\<And>i. i < length batches \<Longrightarrow> check_batch k dir leaves levels root [] (i, batches ! i) = Inr []"
    using verify_run_clean [OF assms] by metis
  define pay_of where "pay_of i = (SOME p. read_batch dir i = Inr p)" for i
  have each: "read_batch dir i = Inr (pay_of i) \<and> bp_recipients (pay_of i) = map row_address (batches ! i) \<and>
      mapM py_int (bp_amounts (pay_of i)) = Inr (map row_amount (batches ! i)) \<and>
      (\<exists>nodes. mapM unhex (bp_proof (pay_of i)) = Inr nodes \<and> tree_verify k nodes root (leaves ! i))"
    if i: "i < length batches" for i
  proof -
    obtain payload nodes where p: "read_batch dir i = Inr payload" "bp_recipients payload = map row_address (batches ! i)"
      "mapM py_int (bp_amounts payload) = Inr (map row_amount (batches ! i))" "mapM unhex (bp_proof payload) = Inr nodes"
      "tree_verify k nodes root (leaves ! i)"
      using cb [OF i] by (rule check_batch_Inr)
    moreover have "pay_of i = payload" by (simp add: pay_of_def p(1))
    ultimately show ?thesis by (simp del: mapM_Inr_iff)
  qed
  define ps where "ps = map pay_of [0..<length batches]"
  have len: "length ps = length batches" by (simp add: ps_def)
  have cat: "concat (map (map f) batches) = map f rows" for f
    using run_levels_concat [OF lv] by (metis map_concat)
  have recips: "map bp_recipients ps = map (map row_address) batches"
    by (rule nth_equalityI) (use each in \<open>simp_all add: ps_def\<close>)
  have proofs: "\<exists>leaf nodes. batch_leaf k (int i) (bp_recipients (ps ! i)) (map (map row_amount) batches ! i) = Inr leaf \<and>
      mapM unhex (bp_proof (ps ! i)) = Inr nodes \<and> tree_verify k nodes root leaf" if "i < length batches" for i
    using run_levels_leaf [OF lv that] each [OF that] that by (simp add: ps_def del: mapM_Inr_iff)
  show ?thesis
  proof (intro exI conjI)
    show "mapM (read_batch dir) [0..<nat (vr_batch_count res)] = Inr ps"
      unfolding n ps_def nat_int by (rule mapM_map) (use each in simp)
    show "mapM (\<lambda>p. mapM py_int (bp_amounts p)) ps = Inr (map (map row_amount) batches)"
      by (rule mapM_Inr_iff [THEN iffD2], rule list_all2_all_nthI)
        (use each in \<open>simp_all add: ps_def del: mapM_Inr_iff\<close>)
    show "concat (map bp_recipients ps) = map row_address rows" by (simp only: recips cat)
    show "list_all (\<lambda>i. \<exists>leaf nodes. batch_leaf k (int i) (bp_recipients (ps ! i)) (map (map row_amount) batches ! i) = Inr leaf \<and>
        mapM unhex (bp_proof (ps ! i)) = Inr nodes \<and> tree_verify k nodes root leaf) [0..<length ps]"
      unfolding list_all_iff len using proofs by simp
  qed (use rd clean cat totals in \<open>simp_all add: check_totals_def\<close>)
qed

theorem verified_run_pays_list_witness:
  "\<exists>dir res payloads. verify_run zero_hash dir = Inr res \<and> vr_problems res = [] \<and>
     mapM (read_batch dir) [0..<nat (vr_batch_count res)] = Inr payloads \<and>
     concat (map bp_recipients payloads) \<noteq> []"
proof -
  obtain dir m where b: "build zero_hash ''2026'' ''pure-python'' (\<lambda>_. None) (sample_args 2) None = (Some dir, Inr m)"
    using sample_build by blast
  obtain res where v: "verify_run zero_hash dir = Inr res" "vr_problems res = []" "vr_total_amount res = 5"
    using build_verifies [OF length_zero_hash b] sample_args_read [of 2] by fastforce
  obtain rows payloads where p: "read_distribution dir = Inr rows"
    "mapM (read_batch dir) [0..<nat (vr_batch_count res)] = Inr payloads"
    "concat (map bp_recipients payloads) = map row_address rows"
    using verified_run_pays_list [OF v(1, 2)] by blast
  have "rows \<noteq> []" using v(1, 3) p(1) by (auto simp: verify_run_def bindR_Inr_iff Let_def split: prod.splits)
  then have "concat (map bp_recipients payloads) \<noteq> []" unfolding p(3) by simp
  with v(1, 2) p(2) show ?thesis by blast
qed

text \<open>C30. A build that fails leaves nothing that verifies as a run with missing parts, whichever
  write failed and however much of that file is on the disk: the directory is the one that was there
  before, or there is none, or the verifier raises because its manifest is missing or torn. Only when
  the failure is that of closing a manifest already written in full does the directory verify, and
  then without a problem and with the total of the rows that were read: every batch file was
  finished before the manifest was begun.\<close>

theorem failed_build_not_verifiable:
  assumes "\<And>d. length (k d) = 32" "build k now backend faults args existing = (dir, Inl e)"
  shows "dir = existing \<or> dir = None \<or>
    (\<exists>d. dir = Some d \<and>
      (verify_run k d = Inl (InputError ''manifest.json not found; is this a run directory?'') \<or>
       verify_run k d = Inl (ValueError ''JSONDecodeError'') \<or>
       faults ''manifest.json'' = Some NotClosed \<and>
       (\<exists>res rows info. verify_run k d = Inr res \<and> vr_problems res = [] \<and>
         read_rows k (ba_input args) (ba_address_column args) (ba_amount_column args) (ba_amount_unit args) True = Inr (rows, info) \<and>
         vr_total_amount res = sum_list (map row_amount rows))))"
  using assms(2)
proof (cases rule: build_rows)
  case (written rows info out)
  show ?thesis
  proof (cases dir)
    case (Some d)
    have "verify_run k d = Inl (InputError ''manifest.json not found; is this a run directory?'')" if "rd_manifest d = None"
      using that by (simp add: verify_run_def read_manifest_def)
    moreover have "verify_run k d = Inl (ValueError ''JSONDecodeError'')" if "rd_manifest d = Some Torn"
      using that by (simp add: verify_run_def read_manifest_def load_doc_def)
    ultimately show ?thesis
      using write_run_leaves [OF written(3) [unfolded Some]] rows_run_verifies [OF assms(1) written(1, 2)] written(1) Some
      by fastforce
  qed simp
qed simp

theorem failed_build_not_verifiable_witness:
  "\<exists>d. build zero_hash [] [] full_disk (sample_args 2) None = (Some d, Inl (OSError (batch_file 0))) \<and>
     dict_get (rd_batches d) (batch_file 0) = Some Torn \<and> isl (verify_run zero_hash d)"
proof -
  obtain d where d: "build zero_hash [] [] full_disk (sample_args 2) None = (Some d, Inl (OSError (batch_file 0)))"
    "dict_get (rd_batches d) (batch_file 0) = Some Torn"
    using sample_torn_build by blast
  have "full_disk ''manifest.json'' = None" by (simp add: full_disk_def batch_file_def)
  with failed_build_not_verifiable [OF length_zero_hash d(1)] have "isl (verify_run zero_hash d)" by auto
  with d show ?thesis by blast
qed

text \<open>C31. With \<^verbatim>\<open>--force\<close> the existing run directory is removed before the batch size is checked:
  a batch size out of range, below 1 or above the maximum, loses the old run, whatever it held,
  although nothing replaces it.\<close>

theorem force_build_loses_run:
  assumes "read_rows k (ba_input args) (ba_address_column args) (ba_amount_column args) (ba_amount_unit args) True = Inr (rows, info)"
    and "consolidate rows (ba_order args) (ba_merge_duplicates args) = Inr out"
    and "ba_force args" "ba_batch_size args < 1 \<or> 500 < ba_batch_size args"
  shows "build k now backend faults args (Some old) = (None, Inl (InputError ''batch size out of range''))"
  using assms by (auto simp: build_def write_run_def MAX_BATCH_SIZE_def)

theorem force_build_loses_run_witness:
  "\<exists>old m res. build zero_hash [] [] (\<lambda>_. None) (sample_args 2) None = (Some old, Inr m) \<and>
     verify_run zero_hash old = Inr res \<and> vr_problems res = [] \<and>
     build zero_hash [] [] (\<lambda>_. None) (sample_args 0) (Some old) = (None, Inl (InputError ''batch size out of range'')) \<and>
     build zero_hash [] [] (\<lambda>_. None) (sample_args 501) (Some old) = (None, Inl (InputError ''batch size out of range''))"
proof -
  obtain old m where old: "build zero_hash [] [] (\<lambda>_. None) (sample_args 2) None = (Some old, Inr m)"
    using sample_build by blast
  obtain res where res: "verify_run zero_hash old = Inr res" "vr_problems res = []"
    using build_verifies [OF length_zero_hash old] by blast
  have "build zero_hash [] [] (\<lambda>_. None) (sample_args n) (Some old) = (None, Inl (InputError ''batch size out of range''))"
    if "n < 1 \<or> 500 < n" for n
  proof -
    obtain info where "read_rows zero_hash (ba_input (sample_args n)) (ba_address_column (sample_args n)) (ba_amount_column (sample_args n))
       (ba_amount_unit (sample_args n)) True = Inr ([sample_row], info)" using sample_args_read by blast
    from force_build_loses_run [OF this sample_consolidate] that show ?thesis by (simp add: sample_args_def)
  qed
  with old res show ?thesis by simp
qed

end
