(* ===== verification/SelectBatch.thy ===== *)
theory SelectBatch
  imports Recipients "HOL-Library.Product_Lexorder"
begin

text \<open>
  \<^verbatim>\<open>airdrop/tools/select_batch.py\<close>: which recipients go into the next payment batch. The
  candidates are what is neither paid nor held nor required; they are filled greedily in the order of
  the strategy or drawn at random from a seed, in three tiers, under a budget and a recipient limit.
\<close>

section \<open>Tiers, weights and draws\<close>

datatype tier = Large | Medium | Small

fun tier_name :: "tier \<Rightarrow> string" where
  "tier_name Large = ''large''"
| "tier_name Medium = ''medium''"
| "tier_name Small = ''small''"

definition TIERS :: "tier list" where "TIERS = [Large, Medium, Small]"

definition WEIGHT_SCALE :: int where "WEIGHT_SCALE = 10 ^ 80"

definition tier_of :: "int \<Rightarrow> int \<Rightarrow> int \<Rightarrow> int option \<Rightarrow> tier option" where
  "tier_of amount medium_from large_from large_to =
     (if (case large_to of Some t \<Rightarrow> amount \<ge> t | None \<Rightarrow> False) then None
      else if amount \<ge> large_from then Some Large
      else if amount \<ge> medium_from then Some Medium else Some Small)"

text \<open>\<^verbatim>\<open>math.isqrt\<close>.\<close>

fun isqrt :: "nat \<Rightarrow> nat" where
  "isqrt n = (if n = 0 then 0 else
     let r = 2 * isqrt (n div 4) in if (r + 1) * (r + 1) \<le> n then r + 1 else r)"

declare isqrt.simps [simp del]

datatype small_weight = Uniform | InverseSqrt | Inverse | InverseSquare

fun small_weight_base :: "small_weight \<Rightarrow> int \<Rightarrow> int" where
  "small_weight_base Uniform amount = 1"
| "small_weight_base InverseSqrt amount = int (isqrt (nat amount))"
| "small_weight_base Inverse amount = amount"
| "small_weight_base InverseSquare amount = amount * amount"

definition tier_weight :: "small_weight \<Rightarrow> tier \<Rightarrow> row \<Rightarrow> int result" where
  "tier_weight sw t r =
     (if t = Small then
        let base = small_weight_base sw (row_amount r) in
        if base = 0 then Inl ZeroDivisionError else Inr (max 1 (WEIGHT_SCALE div base))
      else Inr 1)"

definition draw_value :: "string \<Rightarrow> tier \<Rightarrow> nat \<Rightarrow> int" where
  "draw_value seed t k =
     int (from_bytes_big (sha256 (encode (seed @ CHR ''|'' # tier_name t @ CHR ''|'' # str_nat k))))"

section \<open>The random draw\<close>

record draw_entry =
  de_tier :: tier
  de_draw :: nat
  de_address :: string
  de_amount :: int
  de_selected :: bool

text \<open>The state that survives a tier, and the one of the loop in a tier; a pool entry carries its weight.\<close>

record select_state =
  ss_budget :: "int option"
  ss_slots :: "int option"
  ss_chosen :: "row list"
  ss_log :: "draw_entry list"

record draw_state = select_state +
  ds_pool :: "(row \<times> int) list"
  ds_total :: int
  ds_taken :: int
  ds_k :: nat

fun pick_index :: "int \<Rightarrow> int \<Rightarrow> int list \<Rightarrow> nat" where
  "pick_index r running (w # v # ws) = (if running + w > r then 0 else Suc (pick_index r (running + w) (v # ws)))"
| "pick_index r running _ = 0"

definition pop :: "nat \<Rightarrow> 'a list \<Rightarrow> 'a list" where
  "pop i xs = take i xs @ drop (Suc i) xs"

lemma length_pop: "i < length xs \<Longrightarrow> length (pop i xs) < length xs"
  by (simp add: pop_def)

definition under :: "int option \<Rightarrow> int \<Rightarrow> bool" where
  "under limit n = (case limit of None \<Rightarrow> True | Some l \<Rightarrow> n \<le> l)"

definition draw_step :: "string \<Rightarrow> tier \<Rightarrow> draw_state \<Rightarrow> draw_state" where
  "draw_step seed t s =
     (let r = draw_value seed t (ds_k s) mod ds_total s;
          index = pick_index r 0 (map snd (ds_pool s));
          (rw, weight) = ds_pool s ! index;
          fits = under (ss_budget s) (row_amount rw);
          s = s\<lparr>ds_pool := pop index (ds_pool s), ds_total := ds_total s - weight, ds_k := ds_k s + 1,
                ss_log := ss_log s @ [\<lparr>de_tier = t, de_draw = ds_k s, de_address = row_address rw,
                  de_amount = row_amount rw, de_selected = fits\<rparr>]\<rparr>
      in if \<not> fits then s
         else s\<lparr>ss_chosen := ss_chosen s @ [rw], ds_taken := ds_taken s + 1,
                ss_budget := map_option (\<lambda>b. b - row_amount rw) (ss_budget s),
                ss_slots := map_option (\<lambda>n. n - 1) (ss_slots s)\<rparr>)"

definition draw_more :: "int option \<Rightarrow> draw_state \<Rightarrow> bool" where
  "draw_more wanted s \<longleftrightarrow> ds_pool s \<noteq> [] \<and>
     (case wanted of None \<Rightarrow> True | Some w \<Rightarrow> ds_taken s < w) \<and>
     (case ss_slots s of None \<Rightarrow> True | Some n \<Rightarrow> n > 0)"

lemma pick_index_less: "ws \<noteq> [] \<Longrightarrow> pick_index r running ws < length ws"
  by (induction r running ws rule: pick_index.induct) auto

lemma pool_draw_step: "ds_pool (draw_step seed t s) =
    pop (pick_index (draw_value seed t (ds_k s) mod ds_total s) 0 (map snd (ds_pool s))) (ds_pool s)"
  by (simp add: draw_step_def Let_def case_prod_beta)

function draw_loop :: "string \<Rightarrow> tier \<Rightarrow> int option \<Rightarrow> draw_state \<Rightarrow> draw_state" where
  "draw_loop seed t wanted s = (if draw_more wanted s then draw_loop seed t wanted (draw_step seed t s) else s)"
  by pat_completeness auto
termination
proof (relation "measure (\<lambda>(seed, t, wanted, s). length (ds_pool s))")
  fix seed t wanted s
  assume "draw_more wanted s"
  then have "ds_pool s \<noteq> []" by (simp add: draw_more_def)
  then show "((seed, t, wanted, draw_step seed t s), (seed, t, wanted, s)) \<in> measure (\<lambda>(seed, t, wanted, s). length (ds_pool s))"
    using pick_index_less [of "map snd (ds_pool s)"] by (simp add: pool_draw_step length_pop)
qed simp

declare draw_loop.simps [simp del]

definition tier_pool :: "row list \<Rightarrow> int \<Rightarrow> int \<Rightarrow> int option \<Rightarrow> tier \<Rightarrow> row list" where
  "tier_pool candidates medium_from large_from large_to t =
     sort_key row_key (filter (\<lambda>r. tier_of (row_amount r) medium_from large_from large_to = Some t) candidates)"

definition draw_tier :: "row list \<Rightarrow> string \<Rightarrow> int \<Rightarrow> int \<Rightarrow> (tier \<Rightarrow> int option) \<Rightarrow> small_weight \<Rightarrow> int option \<Rightarrow>
    select_state \<Rightarrow> tier \<Rightarrow> select_state result" where
  "draw_tier candidates seed medium_from large_from counts sw large_to st t =
     (let pool = tier_pool candidates medium_from large_from large_to t in
      bindR (mapM (tier_weight sw t) pool) (\<lambda>weights.
        Inr (select_state.truncate (draw_loop seed t (counts t)
          (select_state.extend st (draw_state.fields (zip pool weights) (sum_list weights) 0 0))))))"

definition random_select :: "row list \<Rightarrow> string \<Rightarrow> int \<Rightarrow> int \<Rightarrow> (tier \<Rightarrow> int option) \<Rightarrow> small_weight \<Rightarrow> int option \<Rightarrow>
    int option \<Rightarrow> int option \<Rightarrow> (row list \<times> draw_entry list) result" where
  "random_select candidates seed medium_from large_from counts sw budget_left slots_left large_to =
     bindR (foldM (draw_tier candidates seed medium_from large_from counts sw large_to)
        \<lparr>ss_budget = budget_left, ss_slots = slots_left, ss_chosen = [], ss_log = []\<rparr> TIERS) (\<lambda>st.
       Inr (ss_chosen st, ss_log st))"

section \<open>Address lists\<close>

definition is_line_break :: "char \<Rightarrow> bool" where
  "is_line_break c \<longleftrightarrow> code c \<in> {10, 11, 12, 13, 28, 29, 30, 133}"

text \<open>\<^verbatim>\<open>str.splitlines\<close>.\<close>

fun splitlines_acc :: "string \<Rightarrow> string \<Rightarrow> string list" where
  "splitlines_acc acc [] = (if acc = [] then [] else [rev acc])"
| "splitlines_acc acc (c # cs) =
     (if is_line_break c
      then rev acc # splitlines_acc [] (if c = CR \<and> cs \<noteq> [] \<and> hd cs = LF then tl cs else cs)
      else splitlines_acc (c # acc) cs)"

definition is_address_text :: "string \<Rightarrow> bool" where
  "is_address_text t \<longleftrightarrow> length t = 42 \<and> t ! 0 = CHR ''0'' \<and> (t ! 1 = CHR ''x'' \<or> t ! 1 = CHR ''X'') \<and> list_all is_hex (drop 2 t)"

definition read_address_line :: "(bytes \<Rightarrow> bytes) \<Rightarrow> string list \<Rightarrow> string \<Rightarrow> string list result" where
  "read_address_line keccak256 out raw =
     (let line = strip (takeWhile (\<lambda>c. c \<noteq> CHR ''#'') raw) in
      if line = [] then Inr out
      else
        let token = takeWhile (\<lambda>c. \<not> is_space c \<and> c \<noteq> CHR '','') line in
        if \<not> is_address_text token then Inl (InputError ''expected an address at the start of the line'')
        else bindR (normalize_address keccak256 token) (\<lambda>a. Inr (out @ [a])))"

definition read_address_record :: "(bytes \<Rightarrow> bytes) \<Rightarrow> nat \<Rightarrow> string list \<Rightarrow> string list \<Rightarrow> string list result" where
  "read_address_record keccak256 index out record =
     (if blank_record record then Inr out
      else if length record \<le> index then Inl IndexError
      else bindR (normalize_address keccak256 (record ! index)) (\<lambda>a. Inr (out @ [a])))"

definition path_name :: "string \<Rightarrow> string" where
  "path_name path = rev (takeWhile (\<lambda>c. c \<noteq> CHR ''/'') (rev path))"

definition read_address_file :: "(bytes \<Rightarrow> bytes) \<Rightarrow> (string \<rightharpoonup> string) \<Rightarrow> string \<Rightarrow> string list result" where
  "read_address_file keccak256 files path =
     (case files path of
        None \<Rightarrow> Inl (InputError ''address list not found'')
      | Some content \<Rightarrow>
          if lower (path_suffix (path_name path)) = ''.csv'' then
            (case csv_reader content of
               [] \<Rightarrow> Inl (InputError ''empty file'')
             | header # records \<Rightarrow>
                 bindR (pick_column header None ADDRESS_COLUMNS) (\<lambda>column.
                 bindR (of_option (ValueError ''not in list'') (index_of header column)) (\<lambda>index.
                   foldM (read_address_record keccak256 index) [] records)))
          else foldM (read_address_line keccak256) [] (splitlines_acc [] content))"

fun unique_by_lower :: "string list \<Rightarrow> string list \<Rightarrow> string list" where
  "unique_by_lower seen [] = []"
| "unique_by_lower seen (a # as) =
     (if lower a \<in> set seen then unique_by_lower seen as else a # unique_by_lower (lower a # seen) as)"

definition resolve_includes :: "(bytes \<Rightarrow> bytes) \<Rightarrow> (string \<rightharpoonup> string) \<Rightarrow> string list \<Rightarrow> string list result" where
  "resolve_includes keccak256 files values =
     bindR (mapM (\<lambda>value.
         if is_address_text (strip value) then bindR (normalize_address keccak256 value) (\<lambda>a. Inr [a])
         else read_address_file keccak256 files value) values) (\<lambda>lists.
       Inr (unique_by_lower [] (concat lists)))"

section \<open>Paid and held recipients\<close>

definition add_paid :: "(string, row) dict \<Rightarrow> (string, row) dict \<Rightarrow> row \<Rightarrow> (string, row) dict result" where
  "add_paid by_address paid r =
     (case dict_get by_address (row_key r) of
        None \<Rightarrow> Inl (InputError ''was paid but is not in the input list'')
      | Some listed \<Rightarrow>
          if row_amount listed \<noteq> row_amount r then Inl (InputError ''paid amount differs from the list'')
          else if dict_get paid (row_key r) \<noteq> None then Inl (InputError ''appears in more than one paid file'')
          else Inr (dict_set (row_key r) listed paid))"

definition read_paid :: "(bytes \<Rightarrow> bytes) \<Rightarrow> (string, row) dict \<Rightarrow> (string, row) dict \<Rightarrow> input_path \<Rightarrow> (string, row) dict result" where
  "read_paid keccak256 by_address paid path =
     bindR (read_rows keccak256 path None None None False) (\<lambda>(rows, _). foldM (add_paid by_address) paid rows)"

definition read_hold :: "(bytes \<Rightarrow> bytes) \<Rightarrow> (string \<rightharpoonup> string) \<Rightarrow> (string, row) dict \<Rightarrow> (string, row) dict \<Rightarrow>
    (string, string) dict \<Rightarrow> string \<Rightarrow> (string, string) dict result" where
  "read_hold keccak256 files by_address paid held path =
     bindR (read_address_file keccak256 files path) (\<lambda>addresses.
       Inr (foldl (\<lambda>held a.
         if dict_get by_address (lower a) \<noteq> None \<and> dict_get paid (lower a) = None
         then dict_set (lower a) path held else held) held addresses))"

definition check_include :: "(string, row) dict \<Rightarrow> (string, row) dict \<Rightarrow> (string, string) dict \<Rightarrow> string \<Rightarrow> row result" where
  "check_include by_address paid held a =
     (case dict_get by_address (lower a) of
        None \<Rightarrow> Inl (InputError ''--include is not in the input list'')
      | Some r \<Rightarrow>
          if dict_get paid (lower a) \<noteq> None then Inl (InputError ''--include is already paid'')
          else if dict_get held (lower a) \<noteq> None then Inl (InputError ''--include is also on hold list'')
          else Inr r)"

section \<open>The selection\<close>

datatype strategy = SmallestFirst | LargestFirst | InputOrder | RandomDraw

record select_args =
  sa_input :: input_path
  sa_address_column :: "string option"
  sa_amount_column :: "string option"
  sa_amount_unit :: "string option"
  sa_budget :: "string option"
  sa_max_recipients :: "int option"
  sa_include :: "string list"
  sa_hold :: "string list"
  sa_paid :: "input_path list"
  sa_strategy :: strategy
  sa_seed :: "string option"
  sa_large_from :: string
  sa_large_to :: "string option"
  sa_medium_from :: string
  sa_large_count :: int
  sa_medium_count :: int
  sa_small_count :: "int option"
  sa_small_weight :: small_weight
  sa_force :: bool

definition optional_amount :: "string option \<Rightarrow> int option result" where
  "optional_amount x = (case given x of None \<Rightarrow> Inr None | Some t \<Rightarrow> bindR (parse_amount t ''one'') (\<lambda>a. Inr (Some a)))"

record tier_limits =
  tl_medium_from :: int
  tl_large_from :: int
  tl_large_to :: "int option"
  tl_counts :: "tier \<Rightarrow> int option"

definition tier_counts :: "select_args \<Rightarrow> tier \<Rightarrow> int option" where
  "tier_counts args t = (case t of Large \<Rightarrow> Some (sa_large_count args) | Medium \<Rightarrow> Some (sa_medium_count args)
     | Small \<Rightarrow> sa_small_count args)"

definition random_limits :: "select_args \<Rightarrow> int option \<Rightarrow> tier_limits result" where
  "random_limits args budget =
     (if given (sa_seed args) = None then Inl (InputError ''--strategy random needs --seed'')
      else
        bindR (parse_amount (sa_medium_from args) ''one'') (\<lambda>medium_from.
        bindR (parse_amount (sa_large_from args) ''one'') (\<lambda>large_from.
        if medium_from \<ge> large_from then Inl (InputError ''--medium-from must be smaller than --large-from'')
        else bindR (optional_amount (sa_large_to args)) (\<lambda>large_to.
          if (case large_to of None \<Rightarrow> False | Some t \<Rightarrow> t \<le> large_from)
          then Inl (InputError ''--large-to must be larger than --large-from'')
          else if \<exists>t \<in> set TIERS. (case tier_counts args t of None \<Rightarrow> False | Some c \<Rightarrow> c < 0)
          then Inl (InputError ''tier counts cannot be negative'')
          else if budget = None \<and> sa_small_count args = None \<and> sa_max_recipients args = None
          then Inl (InputError ''--strategy random needs --budget, --small-count or --max-recipients'')
          else Inr \<lparr>tl_medium_from = medium_from, tl_large_from = large_from, tl_large_to = large_to,
                    tl_counts = tier_counts args\<rparr>))))"

text \<open>The greedy loop over the ordered candidates; \<open>n\<close> counts the selected recipients so far.\<close>

fun fill :: "bool \<Rightarrow> int option \<Rightarrow> int option \<Rightarrow> int \<Rightarrow> int \<Rightarrow> row list \<Rightarrow> row list" where
  "fill stop budget max_recipients n spent [] = []"
| "fill stop budget max_recipients n spent (r # rs) =
     (if (case max_recipients of None \<Rightarrow> False | Some m \<Rightarrow> n \<ge> m) then []
      else if \<not> under budget (spent + row_amount r)
      then (if stop then [] else fill stop budget max_recipients n spent rs)
      else r # fill stop budget max_recipients (n + 1) (spent + row_amount r) rs)"

definition order_candidates :: "strategy \<Rightarrow> row list \<Rightarrow> row list" where
  "order_candidates st candidates =
     (case st of
        SmallestFirst \<Rightarrow> sort_key (\<lambda>r. (row_amount r, row_key r)) candidates
      | LargestFirst \<Rightarrow> sort_key (\<lambda>r. (- row_amount r, row_key r)) candidates
      | _ \<Rightarrow> candidates)"

definition rows_by_address :: "row list \<Rightarrow> (string, row) dict" where
  "rows_by_address rows = foldl (\<lambda>d r. dict_set (row_key r) r d) [] rows"

record selection =
  sl_rows :: "row list"
  sl_paid :: "(string, row) dict"
  sl_held :: "(string, string) dict"
  sl_budget :: "int option"
  sl_forced :: "row list"
  sl_chosen :: "row list"
  sl_selected :: "row list"
  sl_remaining :: "row list"
  sl_draws :: "draw_entry list"

definition fill_candidates :: "select_args \<Rightarrow> int option \<Rightarrow> row list \<Rightarrow> row list \<Rightarrow> (row list \<times> draw_entry list) result" where
  "fill_candidates args budget forced candidates =
     (let forced_total = sum_list (map row_amount forced) in
      if sa_strategy args = RandomDraw then
        bindR (random_limits args budget) (\<lambda>tl.
          random_select candidates (the (given (sa_seed args))) (tl_medium_from tl) (tl_large_from tl) (tl_counts tl)
            (sa_small_weight args) (map_option (\<lambda>b. b - forced_total) budget)
            (map_option (\<lambda>m. m - int (length forced)) (sa_max_recipients args)) (tl_large_to tl))
      else Inr (fill (sa_strategy args = SmallestFirst) budget (sa_max_recipients args) (int (length forced)) forced_total
                  (order_candidates (sa_strategy args) candidates), []))"

definition check_parameters :: "select_args \<Rightarrow> int option \<Rightarrow> unit result" where
  "check_parameters args budget =
     (if (case sa_max_recipients args of None \<Rightarrow> False | Some m \<Rightarrow> m < 1)
      then Inl (InputError ''--max-recipients must be at least 1'')
      else if sa_strategy args = RandomDraw then bindR (random_limits args budget) (\<lambda>_. Inr ())
      else if given (sa_seed args) \<noteq> None then Inl (InputError ''--seed is only used with --strategy random'')
      else Inr ())"

definition select :: "(bytes \<Rightarrow> bytes) \<Rightarrow> (string \<rightharpoonup> string) \<Rightarrow> bool \<Rightarrow> select_args \<Rightarrow> selection result" where
  "select keccak256 files targets_exist args =
     bindR (read_rows keccak256 (sa_input args) (sa_address_column args) (sa_amount_column args) (sa_amount_unit args) True) (\<lambda>(rows, info).
     bindR (consolidate rows ''input'' False) (\<lambda>rows.
     let by_address = rows_by_address rows in
     bindR (foldM (read_paid keccak256 by_address) [] (sa_paid args)) (\<lambda>paid.
     bindR (foldM (read_hold keccak256 files by_address paid) [] (sa_hold args)) (\<lambda>held.
     bindR (resolve_includes keccak256 files (sa_include args)) (\<lambda>includes.
     bindR (mapM (check_include by_address paid held) includes) (\<lambda>forced.
     bindR (optional_amount (sa_budget args)) (\<lambda>budget.
     bindR (check_parameters args budget) (\<lambda>_.
     if \<not> under budget (sum_list (map row_amount forced)) then Inl (InputError ''the --include addresses need more than the budget'')
     else if (case sa_max_recipients args of None \<Rightarrow> False | Some m \<Rightarrow> int (length forced) > m)
     then Inl (InputError ''--include addresses exceed --max-recipients'')
     else
       let candidates = filter (\<lambda>r. dict_get paid (row_key r) = None \<and> dict_get held (row_key r) = None \<and>
              row_key r \<notin> row_key ` set forced) rows in
       bindR (fill_candidates args budget forced candidates) (\<lambda>(chosen, draws).
         let chosen = sort_key row_key chosen;
             selected = forced @ chosen;
             remaining = sort_key row_key (filter (\<lambda>r. dict_get paid (row_key r) = None \<and> row_key r \<notin> row_key ` set selected) rows)
         in if targets_exist \<and> \<not> sa_force args then Inl (InputError ''already exist; pass --force to overwrite'')
            else Inr \<lparr>sl_rows = rows, sl_paid = paid, sl_held = held, sl_budget = budget, sl_forced = forced,
                 sl_chosen = chosen, sl_selected = selected, sl_remaining = remaining, sl_draws = draws\<rparr>)))))))))"

definition write_list :: "row list \<Rightarrow> string" where
  "write_list rows = csv_text ([''address'', ''amount_atto''] # map (\<lambda>r. [row_address r, str_int (row_amount r)]) rows)"

section \<open>Bounds of the fill\<close>

abbreviation row_total :: "row list \<Rightarrow> int" where
  "row_total rows \<equiv> sum_list (map row_amount rows)"

lemma total_mset: "mset xs = mset ys \<Longrightarrow> row_total xs = row_total ys"
  by (rule sum_list_map_mset)

text \<open>
  \<open>advance\<close>: the recipients \<open>new\<close> were added, the remaining budget and slots went down by what
  they use, and neither went below zero.
\<close>

definition advance :: "'a select_state_scheme \<Rightarrow> row list \<Rightarrow> 'b select_state_scheme \<Rightarrow> bool" where
  "advance s new s' \<longleftrightarrow> ss_chosen s' = ss_chosen s @ new \<and>
     ss_budget s' = map_option (\<lambda>b. b - row_total new) (ss_budget s) \<and>
     ss_slots s' = map_option (\<lambda>n. n - int (length new)) (ss_slots s) \<and>
     (under (ss_budget s) 0 \<longrightarrow> under (ss_budget s) (row_total new)) \<and>
     (under (ss_slots s) 0 \<longrightarrow> under (ss_slots s) (int (length new)))"

lemma advance_refl: "advance s [] s'"
  if "ss_chosen s' = ss_chosen s" "ss_budget s' = ss_budget s" "ss_slots s' = ss_slots s"
  using that by (simp add: advance_def option.map_ident)

lemma advance_trans:
  assumes "advance s a s'" "advance s' b s''" "\<forall>r \<in> set a. 0 \<le> row_amount r"
  shows "advance s (a @ b) s''"
proof -
  have "0 \<le> row_total a" by (rule sum_list_nonneg_int) (use assms(3) in blast)
  with assms(1, 2) show ?thesis
    by (cases "ss_budget s"; cases "ss_slots s") (auto simp: advance_def under_def)
qed

lemma mset_pop: "i < length xs \<Longrightarrow> mset xs = add_mset (xs ! i) (mset (pop i xs))"
  by (metis append_take_drop_id Cons_nth_drop_Suc mset.simps(2) mset_append pop_def union_mset_add_mset_right)

lemma draw_step_advance:
  assumes "draw_more wanted s"
  obtains r w where "mset (ds_pool s) = add_mset (r, w) (mset (ds_pool (draw_step seed t s)))"
    "advance s (if under (ss_budget s) (row_amount r) then [r] else []) (draw_step seed t s)"
proof -
  let ?i = "pick_index (draw_value seed t (ds_k s) mod ds_total s) 0 (map snd (ds_pool s))"
  obtain r w where rw: "ds_pool s ! ?i = (r, w)" by fastforce
  have ne: "ds_pool s \<noteq> []" and slots: "\<forall>n. ss_slots s = Some n \<longrightarrow> 0 < n"
    using assms by (auto simp: draw_more_def split: option.splits)
  have "?i < length (ds_pool s)" using pick_index_less [of "map snd (ds_pool s)"] ne by simp
  then have "mset (ds_pool s) = add_mset (r, w) (mset (ds_pool (draw_step seed t s)))"
    using mset_pop [of ?i "ds_pool s"] rw by (simp add: pool_draw_step)
  moreover have "advance s (if under (ss_budget s) (row_amount r) then [r] else []) (draw_step seed t s)"
    using slots by (cases "ss_budget s"; cases "ss_slots s")
      (auto simp: draw_step_def Let_def rw advance_def under_def)
  ultimately show thesis by (rule that)
qed

text \<open>The whole draw of a tier: what it adds comes from its pool.\<close>

lemma draw_loop_advance:
  assumes "\<forall>p \<in> set (ds_pool s). 0 \<le> row_amount (fst p)"
  shows "\<exists>new. advance s new (draw_loop seed t wanted s) \<and> mset new \<subseteq># mset (map fst (ds_pool s))"
  using assms
proof (induction seed t wanted s rule: draw_loop.induct)
  case (1 seed t wanted s)
  show ?case
  proof (cases "draw_more wanted s")
    case True
    obtain r w where pool: "mset (ds_pool s) = add_mset (r, w) (mset (ds_pool (draw_step seed t s)))"
      and adv: "advance s (if under (ss_budget s) (row_amount r) then [r] else []) (draw_step seed t s)"
      using True by (rule draw_step_advance)
    have pos: "0 \<le> row_amount r" "\<forall>p \<in> set (ds_pool (draw_step seed t s)). 0 \<le> row_amount (fst p)"
      using "1.prems" pool by (metis fst_conv insert_iff set_mset_add_mset_insert set_mset_mset)+
    obtain new where new: "advance (draw_step seed t s) new (draw_loop seed t wanted (draw_step seed t s))"
      "mset new \<subseteq># mset (map fst (ds_pool (draw_step seed t s)))" using "1.IH" [OF True pos(2)] by blast
    let ?a = "if under (ss_budget s) (row_amount r) then [r] else []"
    have "advance s (?a @ new) (draw_loop seed t wanted s)"
      using advance_trans [OF adv new(1)] pos(1) True by (simp add: draw_loop.simps [of seed t wanted s])
    moreover have "mset (?a @ new) \<subseteq># mset (map fst (ds_pool s))"
      using new(2) pool by (auto intro: subset_mset.order_trans)
    ultimately show ?thesis by blast
  next
    case False
    then show ?thesis by (intro exI [of _ "[]"]) (simp add: draw_loop.simps [of seed t wanted s] advance_refl)
  qed
qed

lemma draw_tier_advance:
  assumes "draw_tier candidates seed mf lf counts sw lt st t = Inr st'" "\<forall>r \<in> set candidates. 0 \<le> row_amount r"
  shows "\<exists>new. advance st new st' \<and> mset new \<subseteq># mset (filter (\<lambda>r. tier_of (row_amount r) mf lf lt = Some t) candidates)"
proof -
  let ?pool = "tier_pool candidates mf lf lt t"
  from assms(1) obtain weights where w: "mapM (tier_weight sw t) ?pool = Inr weights"
    and st': "st' = select_state.truncate (draw_loop seed t (counts t)
        (select_state.extend st (draw_state.fields (zip ?pool weights) (sum_list weights) 0 0)))"
    by (auto simp: draw_tier_def Let_def bindR_Inr_iff simp del: mapM_Inr_iff)
  let ?s = "select_state.extend st (draw_state.fields (zip ?pool weights) (sum_list weights) 0 0)"
  have len: "length weights = length ?pool" using w by (rule mapM_length)
  have s: "ds_pool ?s = zip ?pool weights" "ss_budget ?s = ss_budget st" "ss_slots ?s = ss_slots st" "ss_chosen ?s = ss_chosen st"
    by (simp_all add: select_state.defs draw_state.defs)
  have "\<forall>p \<in> set (ds_pool ?s). 0 \<le> row_amount (fst p)"
    unfolding s(1) using assms(2) by (auto simp: tier_pool_def dest!: set_zip_leftD)
  from draw_loop_advance [OF this, of seed t "counts t"] obtain new where
    n: "advance ?s new (draw_loop seed t (counts t) ?s)" "mset new \<subseteq># mset ?pool"
    unfolding s(1) using len by auto
  have "advance st new st'" using n(1) by (simp add: st' advance_def s select_state.defs)
  then show ?thesis using n(2) by (auto simp: tier_pool_def)
qed

lemma filter_tiers:
  "mset (filter (\<lambda>r. f r = Some Large) xs) + mset (filter (\<lambda>r. f r = Some Medium) xs) +
   mset (filter (\<lambda>r. f r = Some Small) xs) \<subseteq># mset xs"
  by (induction xs) (auto simp: add.assoc intro: subset_mset.order_trans)

lemma random_select_bounds:
  assumes "random_select candidates seed mf lf counts sw budget slots lt = Inr (chosen, draws)"
    and "\<forall>r \<in> set candidates. 0 \<le> row_amount r"
  shows "mset chosen \<subseteq># mset candidates" "under budget 0 \<Longrightarrow> under budget (row_total chosen)"
    "under slots 0 \<Longrightarrow> under slots (int (length chosen))"
proof -
  let ?s0 = "\<lparr>ss_budget = budget, ss_slots = slots, ss_chosen = [], ss_log = []\<rparr>"
  let ?tier = "\<lambda>t. filter (\<lambda>r. tier_of (row_amount r) mf lf lt = Some t) candidates"
  from assms(1) obtain s1 s2 s3 where
    d: "draw_tier candidates seed mf lf counts sw lt ?s0 Large = Inr s1"
      "draw_tier candidates seed mf lf counts sw lt s1 Medium = Inr s2"
      "draw_tier candidates seed mf lf counts sw lt s2 Small = Inr s3" and c: "chosen = ss_chosen s3"
    by (auto simp: random_select_def TIERS_def bindR_Inr_iff)
  obtain a b e where
    a: "advance ?s0 a s1" "mset a \<subseteq># mset (?tier Large)" and
    b: "advance s1 b s2" "mset b \<subseteq># mset (?tier Medium)" and
    e: "advance s2 e s3" "mset e \<subseteq># mset (?tier Small)"
    using draw_tier_advance [OF d(1) assms(2)] draw_tier_advance [OF d(2) assms(2)] draw_tier_advance [OF d(3) assms(2)]
    by blast
  have sub: "mset (a @ b @ e) \<subseteq># mset candidates"
    using subset_mset.order_trans [OF subset_mset.add_mono [OF subset_mset.add_mono [OF a(2) b(2)] e(2)]
      filter_tiers [of "\<lambda>r. tier_of (row_amount r) mf lf lt" candidates]] by (simp add: ac_simps)
  then have pos: "\<forall>r \<in> set (a @ b @ e). 0 \<le> row_amount r" using assms(2) by (metis mset_subset_eqD set_mset_mset)
  have adv: "advance ?s0 (a @ b @ e) s3"
    using advance_trans [OF a(1) advance_trans [OF b(1) e(1)]] pos by auto
  then show "mset chosen \<subseteq># mset candidates" "under budget 0 \<Longrightarrow> under budget (row_total chosen)"
    "under slots 0 \<Longrightarrow> under slots (int (length chosen))"
    using sub by (auto simp: advance_def c)
qed

lemma fill_sub: "mset (fill stop budget m n spent rs) \<subseteq># mset rs"
  by (induction stop budget m n spent rs rule: fill.induct) (auto intro: subset_mset.order_trans)

lemma fill_budget:
  "under budget spent \<Longrightarrow> under budget (spent + row_total (fill stop budget m n spent rs))"
  by (induction stop budget m n spent rs rule: fill.induct) (auto simp: add.assoc)

lemma fill_count:
  "under m n \<Longrightarrow> under m (n + int (length (fill stop budget m n spent rs)))"
  by (induction stop budget m n spent rs rule: fill.induct) (auto simp: under_def algebra_simps split: option.splits)

lemma order_candidates_mset [simp]: "mset (order_candidates st xs) = mset xs"
  by (simp add: order_candidates_def split: strategy.split)

lemma under_diff: "under (map_option (\<lambda>b. b - x) limit) y = under limit (x + y)"
  by (cases limit) (auto simp: under_def)

lemma fill_candidates_bounds:
  assumes "fill_candidates args budget forced candidates = Inr (chosen, draws)"
    and "\<forall>r \<in> set candidates. 0 \<le> row_amount r" "under budget (row_total forced)"
    and "under (sa_max_recipients args) (int (length forced))"
  shows "mset chosen \<subseteq># mset candidates" "under budget (row_total forced + row_total chosen)"
    "under (sa_max_recipients args) (int (length forced) + int (length chosen))"
proof -
  have "mset chosen \<subseteq># mset candidates \<and> under budget (row_total forced + row_total chosen) \<and>
    under (sa_max_recipients args) (int (length forced) + int (length chosen))"
  proof (cases "sa_strategy args = RandomDraw")
    case True
    then obtain tl :: tier_limits where "random_select candidates (the (given (sa_seed args))) (tl_medium_from tl) (tl_large_from tl)
        (tl_counts tl) (sa_small_weight args) (map_option (\<lambda>b. b - row_total forced) budget)
        (map_option (\<lambda>m. m - int (length forced)) (sa_max_recipients args)) (tl_large_to tl) = Inr (chosen, draws)"
      using assms(1) by (auto simp: fill_candidates_def Let_def bindR_Inr_iff)
    from random_select_bounds [OF this assms(2)] show ?thesis using assms(3, 4) by (simp add: under_diff)
  next
    case False
    then have greedy: "chosen = fill (sa_strategy args = SmallestFirst) budget (sa_max_recipients args) (int (length forced))
        (row_total forced) (order_candidates (sa_strategy args) candidates)"
      using assms(1) by (simp add: fill_candidates_def Let_def)
    show ?thesis unfolding greedy
      using fill_sub [where rs = "order_candidates (sa_strategy args) candidates"] fill_budget [OF assms(3)] fill_count [OF assms(4)]
      by auto
  qed
  then show "mset chosen \<subseteq># mset candidates" "under budget (row_total forced + row_total chosen)"
    "under (sa_max_recipients args) (int (length forced) + int (length chosen))" by auto
qed

section \<open>The parts of the list\<close>

lemma rows_by_address_get:
  assumes "distinct (map row_key rows)"
  shows "map_of (rows_by_address rows) k = Some r \<longleftrightarrow> r \<in> set rows \<and> row_key r = k"
  using assms
proof (induction rows arbitrary: r rule: rev_induct)
  case (snoc x rows)
  then show ?case by (force simp: rows_by_address_def image_iff)
qed (simp add: rows_by_address_def)

text \<open>Paid entries: distinct keys, each with its row of the list.\<close>

definition paid_ok :: "row list \<Rightarrow> (string, row) dict \<Rightarrow> bool" where
  "paid_ok rows paid \<longleftrightarrow> distinct (dict_keys paid) \<and> (\<forall>(k, r) \<in> set paid. r \<in> set rows \<and> row_key r = k)"

lemma add_paid_ok:
  assumes "distinct (map row_key rows)" "paid_ok rows paid" "add_paid (rows_by_address rows) paid r = Inr paid'"
  shows "paid_ok rows paid'"
proof -
  obtain listed where l: "map_of (rows_by_address rows) (row_key r) = Some listed" "map_of paid (row_key r) = None"
    "paid' = dict_set (row_key r) listed paid"
    using assms(3) by (auto simp: add_paid_def split: option.splits if_splits)
  then have "paid' = paid @ [(row_key r, listed)]" by (simp add: dict_set_new map_of_eq_None_iff)
  then show ?thesis
    using assms(2) l rows_by_address_get [OF assms(1)] by (auto simp: paid_ok_def map_of_eq_None_iff)
qed

lemma read_paid_ok:
  assumes "distinct (map row_key rows)" "paid_ok rows paid" "read_paid k (rows_by_address rows) paid path = Inr paid'"
  shows "paid_ok rows paid'"
proof -
  obtain new where "foldM (add_paid (rows_by_address rows)) paid new = Inr paid'"
    using assms(3) by (auto simp: read_paid_def bindR_Inr_iff)
  then show ?thesis
    by (rule foldM_invariant [where I = "\<lambda>_. paid_ok rows"]) (use assms(1, 2) add_paid_ok in auto)
qed

lemma unique_by_lower_distinct:
  "distinct (map lower (unique_by_lower seen as)) \<and> set seen \<inter> set (map lower (unique_by_lower seen as)) = {}"
proof (induction as arbitrary: seen)
  case (Cons a as)
  show ?case using Cons [of seen] Cons [of "lower a # seen"] by auto
qed simp

lemma check_include_Inr:
  assumes "distinct (map row_key rows)" "check_include (rows_by_address rows) paid held a = Inr r"
  shows "r \<in> set rows" "row_key r = lower a" "map_of paid (row_key r) = None" "map_of held (row_key r) = None"
  using assms rows_by_address_get [OF assms(1)] by (auto simp: check_include_def split: option.splits if_splits)

lemma forced_ok:
  assumes "distinct (map row_key rows)" "mapM (check_include (rows_by_address rows) paid held) wanted = Inr forced"
    and "distinct (map lower wanted)"
  shows "distinct (map row_key forced)"
    "r \<in> set forced \<Longrightarrow> r \<in> set rows \<and> map_of paid (row_key r) = None \<and> map_of held (row_key r) = None"
proof -
  have "list_all2 (\<lambda>a r. check_include (rows_by_address rows) paid held a = Inr r) wanted forced"
    using assms(2) by (simp add: result_simps)
  then have "map row_key forced = map lower wanted \<and>
      (\<forall>r \<in> set forced. r \<in> set rows \<and> map_of paid (row_key r) = None \<and> map_of held (row_key r) = None)"
    by (induction rule: list_all2_induct) (auto dest: check_include_Inr [OF assms(1)])
  then show "distinct (map row_key forced)"
    "r \<in> set forced \<Longrightarrow> r \<in> set rows \<and> map_of paid (row_key r) = None \<and> map_of held (row_key r) = None"
    using assms(3) by auto
qed

definition candidate :: "(string, row) dict \<Rightarrow> (string, string) dict \<Rightarrow> row list \<Rightarrow> row \<Rightarrow> bool" where
  "candidate paid held forced r \<longleftrightarrow> map_of paid (row_key r) = None \<and> map_of held (row_key r) = None \<and>
     row_key r \<notin> row_key ` set forced"

lemma select_Inr:
  assumes "select k files te args = Inr sel"
  obtains rows0 info wanted chosen draws where
    "read_rows k (sa_input args) (sa_address_column args) (sa_amount_column args) (sa_amount_unit args) True = Inr (rows0, info)"
    "consolidate rows0 ''input'' False = Inr (sl_rows sel)"
    "foldM (read_paid k (rows_by_address (sl_rows sel))) [] (sa_paid args) = Inr (sl_paid sel)"
    "resolve_includes k files (sa_include args) = Inr wanted"
    "mapM (check_include (rows_by_address (sl_rows sel)) (sl_paid sel) (sl_held sel)) wanted = Inr (sl_forced sel)"
    "optional_amount (sa_budget args) = Inr (sl_budget sel)"
    "under (sl_budget sel) (row_total (sl_forced sel))"
    "under (sa_max_recipients args) (int (length (sl_forced sel)))"
    "fill_candidates args (sl_budget sel) (sl_forced sel)
       (filter (candidate (sl_paid sel) (sl_held sel) (sl_forced sel)) (sl_rows sel)) = Inr (chosen, draws)"
    "sl_chosen sel = sort_key row_key chosen" "sl_selected sel = sl_forced sel @ sl_chosen sel"
    "sl_remaining sel = sort_key row_key (filter (\<lambda>r. map_of (sl_paid sel) (row_key r) = None \<and>
       row_key r \<notin> row_key ` set (sl_selected sel)) (sl_rows sel))"
proof -
  have c: "candidate paid held forced = (\<lambda>r. map_of paid (row_key r) = None \<and> map_of held (row_key r) = None \<and>
     row_key r \<notin> row_key ` set forced)" for paid held forced by (auto simp: candidate_def)
  show thesis
    using assms that unfolding select_def c
    by (auto simp: bindR_Inr_iff Let_def under_def simp del: mapM_Inr_iff split: if_splits option.splits)
qed

lemma distinct_submset:
  assumes "mset xs \<subseteq># mset ys" "distinct ys"
  shows "distinct xs"
proof -
  have "count (mset xs) x = (if x \<in> set xs then 1 else 0)" for x
  proof (cases "x \<in> set xs")
    case True
    then have "0 < count (mset xs) x" by simp
    moreover have "count (mset xs) x \<le> 1"
      using mset_subset_eq_count [OF assms(1), of x] assms(2) by (metis distinct_count_atmost_1 le_trans zero_le_one order_refl)
    ultimately have "count (mset xs) x = 1" by linarith
    with True show ?thesis by (simp only: if_True)
  next
    case False
    then show ?thesis by simp
  qed
  then show ?thesis by (simp add: distinct_count_atmost_1)
qed

lemma distinct_map_filter: "distinct (map f xs) \<Longrightarrow> distinct (map f (filter P xs))"
  by (induction xs) auto

lemma select_parts:
  assumes h: "\<And>d. length (k d) = 32" and run: "select k files te args = Inr sel"
  shows "distinct (map row_key (sl_rows sel))" "paid_ok (sl_rows sel) (sl_paid sel)"
    "distinct (map row_key (sl_selected sel))"
    "r \<in> set (sl_selected sel) \<Longrightarrow> r \<in> set (sl_rows sel) \<and> map_of (sl_paid sel) (row_key r) = None \<and>
       map_of (sl_held sel) (row_key r) = None"
    "set (sl_remaining sel) = {r \<in> set (sl_rows sel). map_of (sl_paid sel) (row_key r) = None \<and>
       row_key r \<notin> row_key ` set (sl_selected sel)}" "distinct (sl_remaining sel)"
    "under (sl_budget sel) (row_total (sl_selected sel))" "under (sa_max_recipients args) (int (length (sl_selected sel)))"
    "set (sl_forced sel) \<subseteq> set (sl_selected sel)"
proof -
  obtain rows0 info wanted chosen draws where
    rd: "read_rows k (sa_input args) (sa_address_column args) (sa_amount_column args) (sa_amount_unit args) True = Inr (rows0, info)"
    and c: "consolidate rows0 ''input'' False = Inr (sl_rows sel)"
    and paid: "foldM (read_paid k (rows_by_address (sl_rows sel))) [] (sa_paid args) = Inr (sl_paid sel)"
    and w: "resolve_includes k files (sa_include args) = Inr wanted"
    and f: "mapM (check_include (rows_by_address (sl_rows sel)) (sl_paid sel) (sl_held sel)) wanted = Inr (sl_forced sel)"
    and under: "under (sl_budget sel) (row_total (sl_forced sel))" "under (sa_max_recipients args) (int (length (sl_forced sel)))"
    and fill: "fill_candidates args (sl_budget sel) (sl_forced sel)
       (filter (candidate (sl_paid sel) (sl_held sel) (sl_forced sel)) (sl_rows sel)) = Inr (chosen, draws)"
    and sel: "sl_chosen sel = sort_key row_key chosen" "sl_selected sel = sl_forced sel @ sl_chosen sel"
    "sl_remaining sel = sort_key row_key (filter (\<lambda>r. map_of (sl_paid sel) (row_key r) = None \<and>
       row_key r \<notin> row_key ` set (sl_selected sel)) (sl_rows sel))"
    using run by (rule select_Inr)
  obtain d where d: "consolidated rows0 d" "mset (sl_rows sel) = mset (dict_values d)" using c by (rule consolidate_Inr)
  show dist: "distinct (map row_key (sl_rows sel))" using consolidated_values(1) [OF d] .
  show "paid_ok (sl_rows sel) (sl_paid sel)"
    using paid by (rule foldM_invariant [where I = "\<lambda>_. paid_ok (sl_rows sel)"])
      (simp add: paid_ok_def, rule read_paid_ok [OF dist])
  let ?cand = "filter (candidate (sl_paid sel) (sl_held sel) (sl_forced sel)) (sl_rows sel)"
  have "\<forall>r \<in> set (sl_rows sel). row_ok k r" using consolidate_row_ok [OF c] read_rows_ok [OF h rd] by blast
  then have pos: "\<forall>r \<in> set ?cand. 0 \<le> row_amount r" by (force simp: row_ok_def)
  note b = fill_candidates_bounds [OF fill pos under]
  show "under (sl_budget sel) (row_total (sl_selected sel))" "under (sa_max_recipients args) (int (length (sl_selected sel)))"
    using b(2, 3) total_mset [of chosen "sl_chosen sel"] by (simp_all add: sel)
  have "mset chosen = mset (sl_chosen sel)" by (simp add: sel)
  then have sub: "mset (sl_chosen sel) \<subseteq># mset ?cand" using b(1) by simp
  then have ch: "set (sl_chosen sel) \<subseteq> set ?cand" by (metis mset_subset_eqD set_mset_mset subsetI)
  have "mset (map row_key (sl_chosen sel)) \<subseteq># mset (map row_key ?cand)"
    using image_mset_subseteq_mono [OF sub, of row_key] by simp
  moreover have "distinct (map row_key ?cand)" using dist by (rule distinct_map_filter)
  ultimately have dch: "distinct (map row_key (sl_chosen sel))" by (rule distinct_submset)
  have "distinct (map lower wanted)" using w unique_by_lower_distinct by (auto simp: resolve_includes_def bindR_Inr_iff)
  note fo = forced_ok [OF dist f this]
  show "distinct (map row_key (sl_selected sel))"
  proof -
    have "\<forall>r \<in> set (sl_chosen sel). row_key r \<notin> row_key ` set (sl_forced sel)"
      using ch by (auto simp: candidate_def)
    then have "row_key ` set (sl_forced sel) \<inter> row_key ` set (sl_chosen sel) = {}"
      unfolding disjoint_iff image_iff by metis
    then show ?thesis using dch fo(1) by (simp add: sel(2))
  qed
  show "r \<in> set (sl_selected sel) \<Longrightarrow> r \<in> set (sl_rows sel) \<and> map_of (sl_paid sel) (row_key r) = None \<and>
       map_of (sl_held sel) (row_key r) = None"
    using fo(2) ch by (auto simp: sel(2) candidate_def)
  show "set (sl_remaining sel) = {r \<in> set (sl_rows sel). map_of (sl_paid sel) (row_key r) = None \<and>
       row_key r \<notin> row_key ` set (sl_selected sel)}" by (simp add: sel(3))
  show "distinct (sl_remaining sel)" using dist by (simp add: sel(3) distinct_map)
  show "set (sl_forced sel) \<subseteq> set (sl_selected sel)" by (simp add: sel(2))
qed

lemma select_smallest:
  assumes h: "\<And>d. length (k d) = 32" and run: "select k files te args = Inr sel" and st: "sa_strategy args = SmallestFirst"
  shows "length (sl_chosen sel) = length (fill True (sl_budget sel) (sa_max_recipients args) (int (length (sl_forced sel)))
      (row_total (sl_forced sel)) (order_candidates SmallestFirst (filter (candidate (sl_paid sel) (sl_held sel) (sl_forced sel)) (sl_rows sel))))"
    "\<forall>r \<in> set (sl_rows sel). 0 < row_amount r"
proof -
  obtain rows0 info chosen draws where
    rd: "read_rows k (sa_input args) (sa_address_column args) (sa_amount_column args) (sa_amount_unit args) True = Inr (rows0, info)"
    and c: "consolidate rows0 ''input'' False = Inr (sl_rows sel)"
    and fill: "fill_candidates args (sl_budget sel) (sl_forced sel)
       (filter (candidate (sl_paid sel) (sl_held sel) (sl_forced sel)) (sl_rows sel)) = Inr (chosen, draws)"
    and ch: "sl_chosen sel = sort_key row_key chosen"
    using run by (rule select_Inr)
  show "\<forall>r \<in> set (sl_rows sel). 0 < row_amount r"
    using consolidate_row_ok [OF c] read_rows_ok [OF h rd] by (auto simp: row_ok_def)
  show "length (sl_chosen sel) = length (fill True (sl_budget sel) (sa_max_recipients args) (int (length (sl_forced sel)))
      (row_total (sl_forced sel)) (order_candidates SmallestFirst (filter (candidate (sl_paid sel) (sl_held sel) (sl_forced sel)) (sl_rows sel))))"
    using fill st by (simp add: fill_candidates_def Let_def ch)
qed

text \<open>The greedy fill of an ascending list serves at least as many rows as any other choice.\<close>

lemma fill_ascending_optimal:
  assumes "sorted (map row_amount rs)" "\<forall>r \<in> set rs. 0 \<le> row_amount r" "T \<subseteq># mset rs"
    "under budget (spent + sum_mset (image_mset row_amount T))" "under m (n + int (size T))"
  shows "size T \<le> length (fill True budget m n spent rs)"
  using assms
proof (induction rs arbitrary: T n spent)
  case (Cons r rs)
  show ?case
  proof (cases "T = {#}")
    case False
    define t where "t = (if r \<in># T then r else (SOME x. x \<in># T))"
    have "\<exists>x. x \<in># T" using False by auto
    then have t: "t \<in># T" using someI_ex [of "\<lambda>x. x \<in># T"] by (simp add: t_def)
    then obtain T' where T: "T = add_mset t T'" by (rule mset_add)
    have T': "T' \<subseteq># mset rs"
    proof (cases "r \<in># T")
      case True
      then have "t = r" by (simp add: t_def)
      moreover have "add_mset t T' \<subseteq># mset (r # rs)" using Cons.prems(3) by (simp only: T)
      ultimately show ?thesis by simp
    next
      case False
      have "count T x \<le> count (mset rs) x" for x
        using mset_subset_eq_count [OF Cons.prems(3), of x] False by (cases "x = r") (simp_all add: not_in_iff)
      then have "T \<subseteq># mset rs" by (rule mset_subset_eqI)
      then show ?thesis using T subset_mset.order_trans [of T' T] by simp
    qed
    have rt: "row_amount r \<le> row_amount t"
      using t Cons.prems(1, 3) by (auto dest!: mset_subset_eqD)
    have "\<forall>x \<in># T'. 0 \<le> row_amount x" using T' Cons.prems(2) by (auto dest!: mset_subset_eqD)
    then have "0 \<le> sum_mset (image_mset row_amount T')" by (induction T') auto
    then have fits: "under budget (spent + row_amount r)" "under budget (spent + row_amount r + sum_mset (image_mset row_amount T'))"
      using Cons.prems(4) rt by (auto simp: T under_def split: option.splits)
    have room: "\<not> (case m of None \<Rightarrow> False | Some m \<Rightarrow> n \<ge> m)" "under m (n + 1 + int (size T'))"
      using Cons.prems(5) by (auto simp: T under_def split: option.splits)
    have "size T' \<le> length (fill True budget m (n + 1) (spent + row_amount r) rs)"
      using Cons.IH [OF _ _ T' fits(2) room(2)] Cons.prems(1, 2) by simp
    then show ?thesis using fits(1) room(1) by (simp add: T)
  qed simp
qed simp

lemma sorted_order_candidates: "sorted (map row_amount (order_candidates SmallestFirst rs))"
proof -
  have "sorted (map (\<lambda>r. (row_amount r, row_key r)) (order_candidates SmallestFirst rs))"
    by (simp add: order_candidates_def)
  then show ?thesis unfolding sorted_map by (rule sorted_wrt_mono_rel [rotated]) auto
qed

lemma sort_key_unique:
  assumes "mset xs = mset ys" "inj_on f (set xs)"
  shows "sort_key f xs = sort_key f ys"
proof (rule map_inj_on [of f])
  have "mset (map f (sort_key f xs)) = mset (map f (sort_key f ys))" using assms(1) by simp
  then show "map f (sort_key f xs) = map f (sort_key f ys)"
    by (metis properties_for_sort sorted_sort_key sort_key_id_if_sorted)
  show "inj_on f (set (sort_key f xs) \<union> set (sort_key f ys))" using assms by (metis set_mset_mset set_sort sup.idem)
qed

lemma paid_values:
  assumes "distinct (map row_key rows)" "paid_ok rows paid"
  shows "distinct (dict_values paid)" "set (dict_values paid) = {r \<in> set rows. map_of paid (row_key r) \<noteq> None}"
proof -
  have entry: "(k, r) \<in> set paid \<Longrightarrow> r \<in> set rows \<and> row_key r = k" for k r using assms(2) by (auto simp: paid_ok_def)
  then have keys: "map row_key (dict_values paid) = dict_keys paid" by auto
  then show "distinct (dict_values paid)" using assms(2) by (metis distinct_map paid_ok_def)
  have "r \<in> set (dict_values paid)" if "r \<in> set rows" "map_of paid (row_key r) = Some s" for r s
  proof -
    have mem: "(row_key r, s) \<in> set paid" using that(2) by (rule map_of_SomeD)
    moreover have "s = r" using entry [OF mem] that(1) assms(1) by (auto simp: distinct_map inj_on_def)
    ultimately show ?thesis by force
  qed
  moreover have "map_of paid (row_key r) \<noteq> None" if r: "r \<in> set (dict_values paid)" for r
  proof -
    obtain k where k: "(k, r) \<in> set paid" using r by auto
    then have "row_key r \<in> fst ` set paid" using entry [OF k] by (metis fst_conv image_eqI)
    then show ?thesis by (simp add: map_of_eq_None_iff)
  qed
  ultimately show "set (dict_values paid) = {r \<in> set rows. map_of paid (row_key r) \<noteq> None}"
    using entry by fastforce
qed

section \<open>A concrete selection\<close>

definition sample_select :: select_args where
  "sample_select = \<lparr>sa_input = sample_input, sa_address_column = None, sa_amount_column = None, sa_amount_unit = None,
     sa_budget = None, sa_max_recipients = Some 1, sa_include = [], sa_hold = [], sa_paid = [], sa_strategy = SmallestFirst,
     sa_seed = None, sa_large_from = ''10000000'', sa_large_to = None, sa_medium_from = ''100000'', sa_large_count = 1,
     sa_medium_count = 5, sa_small_count = None, sa_small_weight = Inverse, sa_force = False\<rparr>"

lemma sample_selection:
  "\<exists>sel. select zero_hash (\<lambda>_. None) False sample_select = Inr sel \<and> sl_rows sel = [sample_row] \<and>
     sl_paid sel = [] \<and> sl_held sel = [] \<and> sl_forced sel = [] \<and> sl_budget sel = None \<and>
     sl_selected sel = [sample_row] \<and> sl_chosen sel = [sample_row]"
proof -
  obtain info where rd: "read_rows zero_hash sample_input None None None True = Inr ([sample_row], info)"
    using sample_read by blast
  have c: "consolidate [sample_row] ''input'' False = Inr [sample_row]" by code_simp
  show ?thesis
    by (simp add: select_def sample_select_def rd c resolve_includes_def optional_amount_def given_def check_parameters_def
        under_def fill_candidates_def order_candidates_def Let_def)
qed

section \<open>Properties\<close>

text \<open>C4. A selection splits the list: every row of the input list is either already paid, selected
  or remaining, and never two of these, so nobody is paid twice and nobody is lost, for every strategy.\<close>

theorem selection_partitions:
  assumes "\<And>d. length (k d) = 32" "select k files targets_exist args = Inr sel"
  shows "mset (sl_rows sel) = mset (dict_values (sl_paid sel)) + mset (sl_selected sel) + mset (sl_remaining sel)"
proof -
  note p = select_parts [OF assms]
  have paid_rows: "distinct (dict_values (sl_paid sel))" "set (dict_values (sl_paid sel)) = {r \<in> set (sl_rows sel). map_of (sl_paid sel) (row_key r) \<noteq> None}"
    using paid_values [OF p(1, 2)] by auto
  have inj: "inj_on row_key (set (sl_rows sel))" using p(1) by (simp add: distinct_map)
  have sel: "set (sl_selected sel) = {r \<in> set (sl_rows sel). map_of (sl_paid sel) (row_key r) = None \<and> row_key r \<in> row_key ` set (sl_selected sel)}"
    using p(4) inj by (auto simp: inj_on_def)
  have "distinct (sl_rows sel)" "distinct (sl_selected sel)" using p(1, 3) by (auto simp: distinct_map)
  moreover have "distinct (dict_values (sl_paid sel) @ sl_selected sel @ sl_remaining sel)"
    using paid_rows p(4, 5, 6) \<open>distinct (sl_selected sel)\<close> by auto
  moreover have "set (sl_rows sel) = set (dict_values (sl_paid sel) @ sl_selected sel @ sl_remaining sel)"
    unfolding set_append paid_rows(2) p(5) by (subst sel) auto
  ultimately have "mset (sl_rows sel) = mset (dict_values (sl_paid sel) @ sl_selected sel @ sl_remaining sel)"
    using set_eq_iff_mset_eq_distinct by blast
  then show ?thesis by simp
qed

theorem selection_partitions_witness:
  "\<exists>sel. select zero_hash (\<lambda>_. None) False sample_select = Inr sel \<and> sl_selected sel = [sample_row] \<and>
     mset (sl_rows sel) = mset (dict_values (sl_paid sel)) + mset (sl_selected sel) + mset (sl_remaining sel)"
  using sample_selection selection_partitions [of zero_hash "\<lambda>_. None" False sample_select, OF length_zero_hash] by blast

text \<open>C5. A selection stays within its limits: the selected amounts add up to at most the budget, the
  selected recipients are at most the limit, every required address is selected, and no held or paid one is.\<close>

theorem selection_within_limits:
  assumes "\<And>d. length (k d) = 32" "select k files targets_exist args = Inr sel"
  shows "under (sl_budget sel) (sum_list (map row_amount (sl_selected sel))) \<and>
    under (sa_max_recipients args) (int (length (sl_selected sel))) \<and> set (sl_forced sel) \<subseteq> set (sl_selected sel) \<and>
    list_all (\<lambda>r. dict_get (sl_held sel) (row_key r) = None \<and> dict_get (sl_paid sel) (row_key r) = None) (sl_selected sel)"
  using select_parts [OF assms] by (auto simp: list_all_iff)

theorem selection_within_limits_witness:
  "\<exists>sel. select zero_hash (\<lambda>_. None) False sample_select = Inr sel \<and> sl_selected sel = [sample_row] \<and>
     under (sa_max_recipients sample_select) (int (length (sl_selected sel))) \<and> sa_max_recipients sample_select = Some 1"
proof -
  obtain sel where s: "select zero_hash (\<lambda>_. None) False sample_select = Inr sel" "sl_selected sel = [sample_row]"
    using sample_selection by blast
  from selection_within_limits [OF length_zero_hash s(1)] s show ?thesis by (auto simp: sample_select_def)
qed

text \<open>C28. Smallest first pays the most recipients: no other choice \<open>T\<close> of candidates that respects the
  budget and the recipient limit has more members than the filled part of the selection.\<close>

theorem smallest_first_pays_most:
  assumes "\<And>d. length (k d) = 32" "select k files targets_exist args = Inr sel" "sa_strategy args = SmallestFirst"
    and "T \<subseteq># mset (filter (candidate (sl_paid sel) (sl_held sel) (sl_forced sel)) (sl_rows sel))"
    and "under (sl_budget sel) (sum_list (map row_amount (sl_forced sel)) + sum_mset (image_mset row_amount T))"
    and "under (sa_max_recipients args) (int (length (sl_forced sel)) + int (size T))"
  shows "size T \<le> length (sl_chosen sel)"
proof -
  let ?cand = "filter (candidate (sl_paid sel) (sl_held sel) (sl_forced sel)) (sl_rows sel)"
  note s = select_smallest [OF assms(1-3)]
  have "set (order_candidates SmallestFirst ?cand) = set ?cand" by (metis order_candidates_mset set_mset_mset)
  then have "\<forall>r \<in> set (order_candidates SmallestFirst ?cand). 0 \<le> row_amount r" using s(2) by auto
  then show ?thesis
    unfolding s(1) using assms(4-6) by (intro fill_ascending_optimal sorted_order_candidates) simp_all
qed

theorem smallest_first_pays_most_witness:
  "\<exists>sel. select zero_hash (\<lambda>_. None) False sample_select = Inr sel \<and> size {#sample_row#} \<le> length (sl_chosen sel)"
proof -
  obtain sel where s: "select zero_hash (\<lambda>_. None) False sample_select = Inr sel" "sl_rows sel = [sample_row]"
    "sl_paid sel = []" "sl_held sel = []" "sl_forced sel = []" "sl_budget sel = None"
    using sample_selection by blast
  have "size {#sample_row#} \<le> length (sl_chosen sel)"
    by (rule smallest_first_pays_most [OF length_zero_hash s(1)]) (simp_all add: s candidate_def under_def sample_select_def)
  with s show ?thesis by blast
qed

text \<open>C29. The random draw is reproducible from the seed and the list alone: it does not depend on the
  order in which the candidates are given.\<close>

theorem random_select_reproducible:
  assumes "mset candidates = mset candidates'" "distinct (map row_key candidates)"
  shows "random_select candidates seed medium_from large_from counts sw budget slots large_to =
    random_select candidates' seed medium_from large_from counts sw budget slots large_to"
proof -
  have "tier_pool candidates medium_from large_from large_to t = tier_pool candidates' medium_from large_from large_to t" for t
    unfolding tier_pool_def using assms by (intro sort_key_unique) (auto simp: distinct_map inj_on_def)
  then have "draw_tier candidates seed medium_from large_from counts sw large_to =
      draw_tier candidates' seed medium_from large_from counts sw large_to"
    unfolding draw_tier_def by (intro ext) (simp only:)
  then show ?thesis by (simp only: random_select_def)
qed

theorem random_select_reproducible_witness:
  "(let a = sample_row; b = \<lparr>row_address = ''0xB0'', row_amount = 9, row_source = ''r.csv:3''\<rparr>
    in random_select [a, b] ''seed'' 100 1000 (\<lambda>_. Some 1) Inverse (Some 7) None None =
       random_select [b, a] ''seed'' 100 1000 (\<lambda>_. Some 1) Inverse (Some 7) None None)"
  unfolding Let_def by (rule random_select_reproducible) (simp add: add_mset_commute, code_simp)

end
