(* ===== verification/Merge.thy ===== *)
theory Merge
  imports Csv
begin

text \<open>
  The ledger scripts read sorted CSV exports with generators and merge them by secure key. A generator
  is the list of what its successive \<^verbatim>\<open>next\<close> calls give: rows, and possibly an error as the last
  entry; an error is raised when it is pulled. The merge loop takes the least key at the heads of its
  cursors, advances the cursors that have it and hands the rows of that key to the body of the loop.
  For streams that run through, it is the fold of the body over the union of the keys in increasing
  order, each with its row per stream: the reference that the properties of the scripts use.
\<close>

section \<open>Rows of a CSV file with a header\<close>

type_synonym csv_row = "(string, string option) dict"

text \<open>
  \<^verbatim>\<open>csv.DictReader\<close>: blank records are skipped, the cells beyond the header are not reached by a column
  name, and a record that is too short has \<^verbatim>\<open>None\<close> in its last columns.
\<close>

definition fieldnames :: "string \<Rightarrow> string list" where
  "fieldnames content = (case csv_reader content of [] \<Rightarrow> [] | header # _ \<Rightarrow> header)"

definition dict_of_record :: "string list \<Rightarrow> string list \<Rightarrow> csv_row" where
  "dict_of_record header record =
     foldl (\<lambda>d (f, v). dict_set f v d) []
       (zip header (map Some record @ replicate (length header - length record) None))"

definition dict_reader :: "string \<Rightarrow> csv_row list" where
  "dict_reader content =
     (case csv_reader content of
        [] \<Rightarrow> []
      | header # records \<Rightarrow> map (dict_of_record header) (filter (\<lambda>r. r \<noteq> []) records))"

text \<open>
  Three ways to use \<^verbatim>\<open>row[name]\<close>: as a value that is only written or tested, where \<^verbatim>\<open>None\<close> counts as
  the empty string; as a string whose methods are called; as the argument of \<^verbatim>\<open>int()\<close>.
\<close>

definition field :: "csv_row \<Rightarrow> string \<Rightarrow> string option result" where
  "field r name = of_option (KeyError name) (dict_get r name)"

definition value_field :: "csv_row \<Rightarrow> string \<Rightarrow> string result" where
  "value_field r name = bindR (field r name) (\<lambda>v. Inr (case v of None \<Rightarrow> [] | Some s \<Rightarrow> s))"

definition text_field :: "csv_row \<Rightarrow> string \<Rightarrow> string result" where
  "text_field r name = bindR (field r name) (of_option (AttributeError name))"

definition int_of_field :: "csv_row \<Rightarrow> string \<Rightarrow> int result" where
  "int_of_field r name = bindR (field r name) (\<lambda>v. bindR (of_option (TypeError name) v) py_int)"

text \<open>\<^verbatim>\<open>row.get(name)\<close> with \<^verbatim>\<open>None\<close> read as the empty string.\<close>

definition get_or_empty :: "csv_row \<Rightarrow> string \<Rightarrow> string" where
  "get_or_empty r name = (case dict_get r name of Some (Some v) \<Rightarrow> v | _ \<Rightarrow> [])"

text \<open>The integer in a column, for the rows where it is read without an error.\<close>

definition field_value :: "string \<Rightarrow> csv_row \<Rightarrow> int" where
  "field_value name r = (case int_of_field r name of Inr v \<Rightarrow> v | Inl _ \<Rightarrow> 0)"

text \<open>\<^verbatim>\<open>row.get(name, "")\<close> as a string whose methods are called.\<close>

definition get_text :: "csv_row \<Rightarrow> string \<Rightarrow> string result" where
  "get_text r name =
     (case dict_get r name of None \<Rightarrow> Inr [] | Some None \<Rightarrow> Inl (AttributeError name) | Some (Some v) \<Rightarrow> Inr v)"

text \<open>
  The records with their rows, and \<^verbatim>\<open>DictWriter.writerow\<close> of such a row under the header it was read with: the
  cells beyond the header are an unknown field of the row, which the writer refuses.
\<close>

definition dict_records :: "string \<Rightarrow> (string list \<times> csv_row) list" where
  "dict_records content =
     (case csv_reader content of
        [] \<Rightarrow> []
      | header # records \<Rightarrow> map (\<lambda>r. (r, dict_of_record header r)) (filter (\<lambda>r. r \<noteq> []) records))"

definition rewrite_record :: "string list \<Rightarrow> string list \<times> csv_row \<Rightarrow> string list result" where
  "rewrite_record header r =
     (if length (fst r) > length header then Inl (ValueError ''dict contains fields not in fieldnames'')
      else Inr (map (get_or_empty (snd r)) header))"

section \<open>Sorted generators\<close>

fun sorted_gen :: "('raw \<Rightarrow> 'k :: linorder result) \<Rightarrow> ('k \<Rightarrow> 'raw \<Rightarrow> 'v result) \<Rightarrow> 'k option \<Rightarrow> 'raw list \<Rightarrow>
    ('k \<times> 'v) result list" where
  "sorted_gen key check previous [] = []"
| "sorted_gen key check previous (r # rs) =
     (case key r of
        Inl e \<Rightarrow> [Inl e]
      | Inr k \<Rightarrow>
          if (case previous of None \<Rightarrow> False | Some p \<Rightarrow> k \<le> p)
          then [Inl (ValueError ''secure keys are not strictly increasing'')]
          else case check k r of
            Inl e \<Rightarrow> [Inl e]
          | Inr v \<Rightarrow> Inr (k, v) # sorted_gen key check (Some k) rs)"

text \<open>The rows that a generator yields before it ends or raises.\<close>

fun yielded :: "'a result list \<Rightarrow> 'a list" where
  "yielded (Inr x # rest) = x # yielded rest"
| "yielded _ = []"

definition increasing :: "('k :: linorder \<times> 'v) result list \<Rightarrow> bool" where
  "increasing s \<longleftrightarrow> sorted_wrt (<) (map fst (yielded s))"

lemma value_field_get: "value_field r name = Inr v \<Longrightarrow> get_or_empty r name = v"
  by (cases "dict_get r name") (auto simp: value_field_def field_def of_option_def get_or_empty_def split: option.split)

lemma yielded_map_Inr [simp]: "yielded (map Inr xs) = xs"
  by (induction xs) simp_all

text \<open>What every client of a generator relies on: its keys increase.\<close>

locale sorted_source =
  fixes gen :: "'raw list \<Rightarrow> ('k :: linorder \<times> 'v) result list"
  assumes gen_increasing: "increasing (gen raw)"
begin

lemma drained_sorted: "gen raw = map Inr xs \<Longrightarrow> sorted_wrt (<) (map fst xs)"
  using gen_increasing [of raw] by (simp add: increasing_def)

lemma drained_distinct: "gen raw = map Inr xs \<Longrightarrow> distinct (map fst xs)"
  using drained_sorted strict_sorted_iff by blast

end

lemma sorted_gen_above:
  "x \<in> set (yielded (sorted_gen key check previous rs)) \<Longrightarrow> previous = Some p \<Longrightarrow> p < fst x"
proof (induction rs arbitrary: previous p)
  case (Cons r rs)
  then show ?case
    by (auto simp: not_le split: sum.splits if_splits) (blast intro: less_trans)
qed simp

lemma increasing_sorted_gen: "increasing (sorted_gen key check previous rs)"
proof (induction rs arbitrary: previous)
  case (Cons r rs)
  then show ?case using sorted_gen_above [of _ key check _ rs]
    by (auto simp: increasing_def split: sum.splits)
qed (simp add: increasing_def)

interpretation sorted_gen_source: sorted_source "sorted_gen key check previous" for key check previous
  by unfold_locales (rule increasing_sorted_gen)

section \<open>Cursors and the merge loop\<close>

type_synonym ('k, 'v) cursor = "('k \<times> 'v) option \<times> ('k \<times> 'v) result list"

fun next_or_none :: "('k \<times> 'v) result list \<Rightarrow> ('k, 'v) cursor result" where
  "next_or_none [] = Inr (None, [])"
| "next_or_none (Inl e # rest) = Inl e"
| "next_or_none (Inr x # rest) = Inr (Some x, rest)"

definition current :: "'k \<Rightarrow> ('k, 'v) cursor \<Rightarrow> 'v option" where
  "current key c = (case fst c of Some (k, v) \<Rightarrow> if k = key then Some v else None | None \<Rightarrow> None)"

definition step_cursor :: "'k \<Rightarrow> ('k, 'v) cursor \<Rightarrow> ('k, 'v) cursor result" where
  "step_cursor key c = (if current key c = None then Inr c else next_or_none (snd c))"

definition heads :: "('k, 'v) cursor list \<Rightarrow> 'k list" where
  "heads cs = List.map_filter (\<lambda>c. map_option fst (fst c)) cs"

definition cursor_weight :: "('k, 'v) cursor \<Rightarrow> nat" where
  "cursor_weight c = (if fst c = None then 0 else 1) + length (snd c)"

lemma set_heads: "set (heads cs) = {k. \<exists>c \<in> set cs. \<exists>v. fst c = Some (k, v)}"
  by (force simp: heads_def map_filter_def)

lemma step_cursor_weight:
  assumes "step_cursor key c = Inr c'"
  shows "cursor_weight c' \<le> cursor_weight c" "current key c \<noteq> None \<Longrightarrow> cursor_weight c' < cursor_weight c"
proof -
  have "cursor_weight c' < cursor_weight c" if "current key c \<noteq> None"
    using assms that by (cases "snd c" rule: next_or_none.cases)
      (auto simp: step_cursor_def cursor_weight_def current_def split: option.splits)
  then show "cursor_weight c' \<le> cursor_weight c" "current key c \<noteq> None \<Longrightarrow> cursor_weight c' < cursor_weight c"
    using assms by (auto simp: step_cursor_def split: if_splits)
qed

lemma step_cursors_weight:
  assumes "list_all2 (\<lambda>c c'. step_cursor key c = Inr c') cs cs'" "key \<in> set (heads cs)"
  shows "sum_list (map cursor_weight cs') < sum_list (map cursor_weight cs)"
proof -
  have le: "sum_list (map cursor_weight cs') \<le> sum_list (map cursor_weight cs)"
    if "list_all2 (\<lambda>c c'. step_cursor key c = Inr c') cs cs'" for cs cs'
    using that by (induction rule: list_all2_induct) (auto dest: step_cursor_weight(1))
  show ?thesis using assms
  proof (induction rule: list_all2_induct)
    case (Cons c cs c' cs')
    show ?case
    proof (cases "current key c = None")
      case True
      then have "key \<in> set (heads cs)" using Cons.prems
        by (auto simp: set_heads current_def split: option.splits if_splits)
      then show ?thesis using Cons.IH step_cursor_weight(1) [OF Cons.hyps(1)] by simp
    next
      case False
      then show ?thesis using step_cursor_weight(2) [OF Cons.hyps(1)] le [OF Cons.hyps(2)] by simp
    qed
  qed (simp add: set_heads)
qed

function merge_fold :: "('s \<Rightarrow> 'k :: linorder \<Rightarrow> 'v option list \<Rightarrow> 's result) \<Rightarrow> 's \<Rightarrow> ('k, 'v) cursor list \<Rightarrow> 's result" where
  "merge_fold body st cs =
     (if heads cs = [] then Inr st
      else
        let key = Min (set (heads cs)) in
        bindR (mapM (step_cursor key) cs) (\<lambda>cs'.
        bindR (body st key (map (current key) cs)) (\<lambda>st'.
          merge_fold body st' cs')))"
  by pat_completeness auto
termination
proof (relation "measure (\<lambda>(body, st, cs). sum_list (map cursor_weight cs))")
  fix body :: "'s \<Rightarrow> 'k :: linorder \<Rightarrow> 'v option list \<Rightarrow> 's result" and st st' key and cs cs' :: "('k, 'v) cursor list"
  assume "heads cs \<noteq> []" "key = Min (set (heads cs))" "mapM (step_cursor key) cs = Inr cs'"
  then show "((body, st', cs'), (body, st, cs)) \<in> measure (\<lambda>(body, st, cs). sum_list (map cursor_weight cs))"
    using step_cursors_weight [of key cs cs'] by (simp add: mapM_Inr_iff)
qed simp

declare merge_fold.simps [simp del]

text \<open>Opening the streams pulls their first rows, in order.\<close>

definition merge_streams :: "('s \<Rightarrow> 'k :: linorder \<Rightarrow> 'v option list \<Rightarrow> 's result) \<Rightarrow> 's \<Rightarrow> ('k \<times> 'v) result list list \<Rightarrow> 's result" where
  "merge_streams body st streams = bindR (mapM next_or_none streams) (merge_fold body st)"

section \<open>The reference\<close>

definition group_keys :: "('k :: linorder \<times> 'v) list list \<Rightarrow> 'k list" where
  "group_keys xss = sorted_list_of_set (\<Union>xs \<in> set xss. fst ` set xs)"

definition groups :: "('k :: linorder \<times> 'v) list list \<Rightarrow> ('k \<times> 'v option list) list" where
  "groups xss = map (\<lambda>k. (k, map (\<lambda>xs. map_of xs k) xss)) (group_keys xss)"

fun represents :: "('k, 'v) cursor \<Rightarrow> ('k \<times> 'v) list \<Rightarrow> bool" where
  "represents (None, rest) xs \<longleftrightarrow> xs = [] \<and> rest = []"
| "represents (Some x, rest) xs \<longleftrightarrow> xs \<noteq> [] \<and> hd xs = x \<and> rest = map Inr (tl xs)"

lemma heads_represent: "list_all2 represents cs xss \<Longrightarrow> set (heads cs) = (\<lambda>xs. fst (hd xs)) ` {xs \<in> set xss. xs \<noteq> []}"
proof (induction rule: list_all2_induct)
  case (Cons c cs xs xss)
  then show ?case by (cases "fst c"; cases c) (auto simp: heads_def map_filter_def)
qed (simp add: heads_def map_filter_def)

lemma heads_Nil_iff: "list_all2 represents cs xss \<Longrightarrow> heads cs = [] \<longleftrightarrow> (\<forall>xs \<in> set xss. xs = [])"
  using heads_represent [of cs xss] by (metis (mono_tags, lifting) empty_iff image_is_empty mem_Collect_eq set_empty subsetI subset_empty)

text \<open>One round: the rows of the least key are the heads that have it, and the rest is represented again.\<close>

definition behead :: "'k \<Rightarrow> ('k \<times> 'v) list \<Rightarrow> ('k \<times> 'v) list" where
  "behead key xs = (if xs \<noteq> [] \<and> fst (hd xs) = key then tl xs else xs)"

lemma step_represents:
  assumes "represents c xs"
  shows "\<exists>c'. step_cursor key c = Inr c' \<and> represents c' (behead key xs)"
    "current key c = (if xs \<noteq> [] \<and> fst (hd xs) = key then Some (snd (hd xs)) else None)"
proof -
  show "current key c = (if xs \<noteq> [] \<and> fst (hd xs) = key then Some (snd (hd xs)) else None)"
    using assms by (cases "fst c"; cases c) (auto simp: current_def case_prod_beta)
  then show "\<exists>c'. step_cursor key c = Inr c' \<and> represents c' (behead key xs)"
    using assms by (cases "fst c"; cases c; cases "tl xs") (auto simp: step_cursor_def behead_def)
qed

lemma map_of_behead: "sorted_wrt (<) (map fst xs) \<Longrightarrow> k \<noteq> key \<Longrightarrow> map_of (behead key xs) k = map_of xs k"
  by (cases xs) (auto simp: behead_def)

lemma map_of_head:
  fixes key :: "'k :: linorder"
  assumes "sorted_wrt (<) (map fst xs)" "\<forall>k \<in> fst ` set xs. key \<le> k"
  shows "map_of xs key = (if xs \<noteq> [] \<and> fst (hd xs) = key then Some (snd (hd xs)) else None)"
proof (cases xs)
  case (Cons x ys)
  then have "key \<notin> fst ` set ys" using assms by force
  then show ?thesis using Cons by (cases x) (auto simp: map_of_eq_None_iff)
qed simp

lemma keys_behead:
  fixes key :: "'k :: linorder"
  assumes "sorted_wrt (<) (map fst xs)" "\<forall>k \<in> fst ` set xs. key \<le> k"
  shows "fst ` set (behead key xs) = fst ` set xs - {key}"
proof (cases xs)
  case (Cons x ys)
  show ?thesis
  proof (cases "fst x = key")
    case True
    then have "key \<notin> fst ` set ys" using assms Cons by force
    then show ?thesis using Cons True by (auto simp: behead_def)
  next
    case False
    have "key \<notin> fst ` set xs"
    proof
      assume "key \<in> fst ` set xs"
      then have "key \<in> fst ` set ys" using Cons False by auto
      then have "fst x < key" using assms(1) Cons by auto
      moreover have "key \<le> fst x" using assms(2) Cons by simp
      ultimately show False by simp
    qed
    then show ?thesis using Cons False by (auto simp: behead_def)
  qed
qed (simp add: behead_def)

lemma sorted_behead: "sorted_wrt (<) (map fst xs) \<Longrightarrow> sorted_wrt (<) (map fst (behead key xs))"
  by (cases xs) (auto simp: behead_def)

lemma sorted_list_of_set_least:
  assumes "finite A" "a \<notin> A" "\<forall>x \<in> A. a \<le> x"
  shows "sorted_list_of_set (insert a A) = a # sorted_list_of_set A"
  using assms by (simp add: sorted_list_of_set_insert insort_is_Cons)

lemma hd_least:
  fixes xs :: "('k :: linorder \<times> 'v) list"
  shows "sorted_wrt (<) (map fst xs) \<Longrightarrow> k \<in> fst ` set xs \<Longrightarrow> xs \<noteq> [] \<and> fst (hd xs) \<le> k"
  by (cases xs) (auto intro: less_imp_le)

lemma groups_round:
  assumes "\<forall>xs \<in> set xss. sorted_wrt (<) (map fst xs)" "\<exists>xs \<in> set xss. xs \<noteq> []"
    and key: "key = Min ((\<lambda>xs. fst (hd xs)) ` {xs \<in> set xss. xs \<noteq> []})"
  shows "\<forall>xs \<in> set xss. \<forall>k \<in> fst ` set xs. key \<le> k"
    "groups xss = (key, map (\<lambda>xs. map_of xs key) xss) # groups (map (behead key) xss)"
proof -
  let ?H = "(\<lambda>xs. fst (hd xs)) ` {xs \<in> set xss. xs \<noteq> []}"
  have H: "finite ?H" "?H \<noteq> {}" using assms(2) by auto
  show least: "\<forall>xs \<in> set xss. \<forall>k \<in> fst ` set xs. key \<le> k"
  proof (intro ballI)
    fix xs k assume "xs \<in> set xss" "k \<in> fst ` set xs"
    then have "fst (hd xs) \<in> ?H" "fst (hd xs) \<le> k" using hd_least [of xs k] assms(1) by auto
    then show "key \<le> k" using H(1) unfolding key by (meson Min_le order_trans)
  qed
  let ?K = "\<Union>xs \<in> set xss. fst ` set xs" and ?K' = "\<Union>xs \<in> set (map (behead key) xss). fst ` set xs"
  have "key \<in> ?H" unfolding key using H by (rule Min_in)
  then have "key \<in> ?K" by force
  have "fst ` set (behead key xs) = fst ` set xs - {key}" if "xs \<in> set xss" for xs
    using keys_behead [of xs key] assms(1) least that by blast
  then have "?K' = (\<Union>xs \<in> set xss. fst ` set xs - {key})" by (simp add: image_image)
  then have K': "?K' = ?K - {key}" by blast
  have ins: "?K = insert key ?K'" using K' \<open>key \<in> ?K\<close> by blast
  have keys: "group_keys xss = key # group_keys (map (behead key) xss)"
    unfolding group_keys_def ins using K' least by (intro sorted_list_of_set_least) auto
  have look: "map (\<lambda>xs. map_of xs k) (map (behead key) xss) = map (\<lambda>xs. map_of xs k) xss" if "k \<in> ?K'" for k
    using that K' assms(1) by (auto intro!: map_of_behead)
  have "set (group_keys (map (behead key) xss)) = ?K'" by (simp add: group_keys_def)
  then have "groups (map (behead key) xss) = map (\<lambda>k. (k, map (\<lambda>xs. map_of xs k) xss)) (group_keys (map (behead key) xss))"
    unfolding groups_def using look by (intro map_cong) (simp_all only:)
  then show "groups xss = (key, map (\<lambda>xs. map_of xs key) xss) # groups (map (behead key) xss)"
    by (simp only: groups_def [of xss] keys list.map)
qed

lemma merge_fold_groups:
  assumes "list_all2 represents cs xss" "\<forall>xs \<in> set xss. sorted_wrt (<) (map fst xs)"
  shows "merge_fold body st cs = foldM (\<lambda>s (k, vs). body s k vs) st (groups xss)"
  using assms
proof (induction body st cs arbitrary: xss rule: merge_fold.induct)
  case (1 body st cs)
  show ?case
  proof (cases "heads cs = []")
    case True
    then have "group_keys xss = []" using heads_Nil_iff [OF "1.prems"(1)] by (auto simp: group_keys_def)
    then show ?thesis using True by (subst merge_fold.simps) (simp add: groups_def)
  next
    case False
    define key where "key = Min (set (heads cs))"
    have ne: "\<exists>xs \<in> set xss. xs \<noteq> []" using False heads_Nil_iff [OF "1.prems"(1)] by blast
    have k: "key = Min ((\<lambda>xs. fst (hd xs)) ` {xs \<in> set xss. xs \<noteq> []})"
      using heads_represent [OF "1.prems"(1)] by (simp add: key_def)
    note round = groups_round [OF "1.prems"(2) ne k]
    have cur: "map (current key) cs = map (\<lambda>xs. map_of xs key) xss"
      using "1.prems" round(1)
      by (induction rule: list_all2_induct) (simp_all add: step_represents(2) map_of_head)
    obtain cs' where cs': "mapM (step_cursor key) cs = Inr cs'" "list_all2 represents cs' (map (behead key) xss)"
    proof -
      have "\<exists>cs'. list_all2 (\<lambda>c c'. step_cursor key c = Inr c') cs cs' \<and> list_all2 represents cs' (map (behead key) xss)"
        using "1.prems"(1)
      proof (induction rule: list_all2_induct)
        case (Cons c cs xs xss)
        obtain c' where "step_cursor key c = Inr c'" "represents c' (behead key xs)"
          using step_represents(1) [OF Cons.hyps(1)] by blast
        moreover obtain cs'' where "list_all2 (\<lambda>c c'. step_cursor key c = Inr c') cs cs''"
          "list_all2 represents cs'' (map (behead key) xss)" using Cons.IH by blast
        ultimately show ?case by (intro exI [of _ "c' # cs''"]) simp
      qed simp
      then show thesis using that by (auto simp: mapM_Inr_iff)
    qed
    have "\<forall>xs \<in> set (map (behead key) xss). sorted_wrt (<) (map fst xs)"
      using sorted_behead "1.prems"(2) by auto
    then have IH: "merge_fold body st' cs' = foldM (\<lambda>s (k, vs). body s k vs) st' (groups (map (behead key) xss))"
      if "body st key (map (current key) cs) = Inr st'" for st'
      using "1.IH" [OF False key_def cs'(1) that cs'(2)] by blast
    have "merge_fold body st cs = bindR (body st key (map (current key) cs)) (\<lambda>st'. merge_fold body st' cs')"
      by (subst merge_fold.simps) (simp add: False key_def [symmetric] cs'(1))
    also have "\<dots> = bindR (body st key (map (current key) cs)) (\<lambda>st'. foldM (\<lambda>s (k, vs). body s k vs) st' (groups (map (behead key) xss)))"
      using IH by (intro bindR_cong) auto
    finally show ?thesis by (simp add: round(2) cur)
  qed
qed

text \<open>A merge that returns has drained every stream without an error.\<close>

definition opened :: "('k, 'v) cursor \<Rightarrow> bool" where
  "opened c \<longleftrightarrow> (fst c = None \<longrightarrow> snd c = [])"

lemma opened_next: "next_or_none s = Inr c \<Longrightarrow> opened c"
  by (cases s rule: next_or_none.cases) (auto simp: opened_def)

lemma represents_next: "next_or_none s = Inr c \<Longrightarrow> represents c xs \<Longrightarrow> s = map Inr xs"
  by (cases s rule: next_or_none.cases; cases xs) auto

lemma step_represents_back:
  assumes "step_cursor key c = Inr c'" "represents c' xs'" "opened c"
  shows "\<exists>xs. represents c xs"
proof (cases "current key c = None")
  case True
  then show ?thesis using assms(1, 2) by (auto simp: step_cursor_def)
next
  case False
  then obtain x where c: "c = (Some x, snd c)" by (cases c) (auto simp: current_def split: option.splits)
  have "snd c = map Inr xs'" using assms(1, 2) False by (auto simp: step_cursor_def intro: represents_next)
  then have "represents c (x # xs')" by (subst c) simp
  then show ?thesis by blast
qed

lemma merge_fold_represents:
  assumes "merge_fold body st cs = Inr st'" "\<forall>c \<in> set cs. opened c"
  shows "\<exists>xss. list_all2 represents cs xss"
  using assms
proof (induction body st cs rule: merge_fold.induct)
  case (1 body st cs)
  show ?case
  proof (cases "heads cs = []")
    case True
    have "represents c []" if "c \<in> set cs" for c
    proof -
      have "fst c = None" using True that set_heads [of cs] by (cases "fst c") auto
      then show ?thesis using "1.prems"(2) that by (cases c) (auto simp: opened_def)
    qed
    then show ?thesis by (intro exI [of _ "map (\<lambda>_. []) cs"]) (simp add: list_all2_map2 list_all2_same)
  next
    case False
    define key where "key = Min (set (heads cs))"
    obtain cs' st2 where cs': "mapM (step_cursor key) cs = Inr cs'" and b: "body st key (map (current key) cs) = Inr st2"
      and run: "merge_fold body st2 cs' = Inr st'"
      using "1.prems"(1) False by (subst (asm) merge_fold.simps) (auto simp: key_def [symmetric] bindR_Inr_iff simp del: mapM_Inr_iff)
    have steps: "list_all2 (\<lambda>c c'. step_cursor key c = Inr c') cs cs'" using cs' by (simp add: mapM_Inr_iff)
    then have "\<forall>c \<in> set cs'. opened c" using "1.prems"(2)
      by (induction rule: list_all2_induct) (auto simp: step_cursor_def dest: opened_next split: if_splits)
    from "1.IH" [OF False key_def cs' b run this] obtain xss where "list_all2 represents cs' xss" by blast
    with steps "1.prems"(2) show ?thesis
    proof (induction arbitrary: xss rule: list_all2_induct)
      case (Cons c cs c' cs')
      then obtain xs ys where "represents c' xs" "list_all2 represents cs' ys" by (auto simp: list_all2_Cons1)
      with Cons obtain xs0 ys0 where "represents c xs0" "list_all2 represents cs ys0"
        by (metis list.set_intros(1) list.set_intros(2) step_represents_back)
      then show ?case by (intro exI [of _ "xs0 # ys0"]) simp
    qed (auto intro: exI [of _ "[]"])
  qed
qed

lemma merge_streams_Inr:
  assumes "merge_streams body st streams = Inr st'" "\<forall>s \<in> set streams. increasing s"
  obtains xss where "streams = map (map Inr) xss" "\<forall>xs \<in> set xss. sorted_wrt (<) (map fst xs)"
    "foldM (\<lambda>s (k, vs). body s k vs) st (groups xss) = Inr st'"
proof -
  from assms(1) obtain cs where cs: "list_all2 (\<lambda>s c. next_or_none s = Inr c) streams cs"
    and run: "merge_fold body st cs = Inr st'"
    by (auto simp: merge_streams_def bindR_Inr_iff mapM_Inr_iff)
  have "\<forall>c \<in> set cs. opened c" using cs by (induction rule: list_all2_induct) (auto dest: opened_next)
  then obtain xss where xss: "list_all2 represents cs xss" using merge_fold_represents [OF run] by blast
  have "list_all2 (\<lambda>s xs. s = map Inr xs) streams xss"
    by (rule list_all2_trans [OF _ cs xss]) (rule represents_next)
  then have eq: "streams = map (map Inr) xss" by (induction rule: list_all2_induct) auto
  then have sorted: "\<forall>xs \<in> set xss. sorted_wrt (<) (map fst xs)" using assms(2) by (auto simp: increasing_def)
  show thesis by (rule that [OF eq sorted]) (use merge_fold_groups [OF xss sorted, of body st] run in simp)
qed

text \<open>Conservation: over the groups, the rows of one stream add up to that stream.\<close>

definition weigh :: "('v \<Rightarrow> int) \<Rightarrow> 'v option \<Rightarrow> int" where
  "weigh w x = (case x of None \<Rightarrow> 0 | Some v \<Rightarrow> w v)"

lemma weigh_simps [simp]: "weigh w None = 0" "weigh w (Some v) = w v"
  by (simp_all add: weigh_def)

lemma filter_key: "distinct (map fst xs) \<Longrightarrow> filter (\<lambda>x. fst x = k) xs = (case map_of xs k of None \<Rightarrow> [] | Some v \<Rightarrow> [(k, v)])"
proof (induction xs)
  case (Cons x xs)
  then have "fst x \<notin> fst ` set xs" "map_of xs (fst x) = None" by (auto simp: map_of_eq_None_iff)
  with Cons show ?case by (cases x) (auto simp: filter_empty_conv)
qed simp

lemma sum_lookup:
  assumes "distinct (map fst xs)" "distinct ks" "fst ` set xs \<subseteq> set ks"
  shows "sum_list (map (\<lambda>k. weigh w (map_of xs k)) ks) = sum_list (map (\<lambda>x. w (snd x)) xs)"
proof -
  have "weigh w (map_of xs k) = sum_list (map (\<lambda>x. w (snd x)) (filter (\<lambda>x. fst x = k) xs))" for k
    unfolding filter_key [OF assms(1)] by (simp split: option.split)
  then show ?thesis using sum_list_groups [OF assms(2), of xs fst "\<lambda>x. w (snd x)"] assms(3) by (simp add: subset_iff)
qed

lemma sum_groups:
  assumes "\<forall>xs \<in> set xss. sorted_wrt (<) (map fst xs)" "i < length xss"
  shows "sum_list (map (\<lambda>g. weigh w (snd g ! i)) (groups xss)) = sum_list (map (\<lambda>x. w (snd x)) (xss ! i))"
proof -
  have "xss ! i \<in> set xss" using assms(2) by simp
  then have sub: "fst ` set (xss ! i) \<subseteq> set (group_keys xss)" 
    unfolding group_keys_def by (subst set_sorted_list_of_set, simp) (rule UN_upper)
  have "distinct (map fst (xss ! i))" using assms strict_sorted_iff nth_mem by blast
  then have "sum_list (map (\<lambda>k. weigh w (map_of (xss ! i) k)) (group_keys xss)) = sum_list (map (\<lambda>x. w (snd x)) (xss ! i))"
    using sub by (intro sum_lookup) (simp_all add: group_keys_def)
  then show ?thesis using assms(2) by (simp add: groups_def o_def)
qed

lemma groups_keys [simp]: "map fst (groups xss) = group_keys xss"
  by (simp add: groups_def o_def)

lemma group_keys_sorted: "sorted_wrt (<) (group_keys xss)"
  by (simp add: group_keys_def)

lemma length_groups_snd: "g \<in> set (groups xss) \<Longrightarrow> length (snd g) = length xss"
  by (auto simp: groups_def)

text \<open>The rows of one stream, taken from the groups, are that stream.\<close>

lemma strictly_sorted_lookup:
  fixes ks :: "'k :: linorder list"
  assumes "sorted_wrt (<) (map fst xs)" "sorted_wrt (<) ks" "fst ` set xs \<subseteq> set ks"
  shows "map (\<lambda>k. (k, the (map_of xs k))) (filter (\<lambda>k. map_of xs k \<noteq> None) ks) = xs"
proof -
  have d: "distinct (map fst xs)" using assms(1) by (simp add: strict_sorted_iff)
  have "filter (\<lambda>k. map_of xs k \<noteq> None) ks = map fst xs"
  proof (rule sorted_distinct_set_unique)
    show "set (filter (\<lambda>k. map_of xs k \<noteq> None) ks) = set (map fst xs)" using assms(3) by (auto simp: map_of_eq_None_iff)
  qed (use assms(1, 2) in \<open>auto simp: strict_sorted_iff intro: sorted_wrt_filter\<close>)
  moreover have "map (\<lambda>k. (k, the (map_of xs k))) (map fst xs) = xs"
    unfolding map_map o_def by (rule map_idI) (use d in auto)
  ultimately show ?thesis by simp
qed

lemma groups_stream:
  assumes "\<forall>xs \<in> set xss. sorted_wrt (<) (map fst xs)" "i < length xss"
  shows "map (\<lambda>g. (fst g, the (snd g ! i))) (filter (\<lambda>g. snd g ! i \<noteq> None) (groups xss)) = xss ! i"
proof -
  have "xss ! i \<in> set xss" using assms(2) by simp
  then have "fst ` set (xss ! i) \<subseteq> set (group_keys xss)"
    unfolding group_keys_def by (subst set_sorted_list_of_set, simp) (rule UN_upper)
  then show ?thesis
    using strictly_sorted_lookup [OF _ group_keys_sorted, of "xss ! i" xss] assms
    by (simp add: groups_def filter_map o_def)
qed

lemma sorted_gen_checked:
  "Inr (k, v) \<in> set (sorted_gen key check previous rs) \<Longrightarrow> \<exists>r \<in> set rs. key r = Inr k \<and> check k r = Inr v"
  by (induction rs arbitrary: previous) (auto split: sum.splits if_splits)

text \<open>Streams that read to their end.\<close>

lemma represents_drained: "\<exists>c. next_or_none (map Inr xs) = Inr c \<and> represents c xs"
  by (cases xs) auto

lemma merge_streams_groups:
  assumes "\<forall>xs \<in> set xss. sorted_wrt (<) (map fst xs)"
  shows "merge_streams body st (map (map Inr) xss) = foldM (\<lambda>s (k, vs). body s k vs) st (groups xss)"
proof -
  have "\<exists>cs. mapM next_or_none (map (map Inr) xss) = Inr cs \<and> list_all2 represents cs xss"
  proof (induction xss)
    case (Cons xs xss)
    then show ?case using represents_drained [of xs] by (fastforce simp del: mapM_Inr_iff)
  qed simp
  then obtain cs where "mapM next_or_none (map (map Inr) xss) = Inr cs" "list_all2 represents cs xss" by blast
  then show ?thesis using merge_fold_groups assms by (auto simp: merge_streams_def simp del: mapM_Inr_iff)
qed

text \<open>Two streams.\<close>

lemma bindR_mapM_two: "bindR (mapM f [x, y]) g = bindR (f x) (\<lambda>a. bindR (f y) (\<lambda>b. g [a, b]))"
  by (cases "f x"; cases "f y") auto

lemma merge_fold_two:
  "merge_fold body st [c0, c1] =
     (if heads [c0, c1] = [] then Inr st
      else let key = Min (set (heads [c0, c1])) in
        bindR (step_cursor key c0) (\<lambda>c0'. bindR (step_cursor key c1) (\<lambda>c1'.
        bindR (body st key [current key c0, current key c1]) (\<lambda>st'. merge_fold body st' [c0', c1']))))"
  by (subst merge_fold.simps) (simp only: Let_def list.map bindR_mapM_two)

lemma heads_two:
  "heads [(None, s0), (None, s1)] = []" "heads [(Some x, s0), (None, s1)] = [fst x]"
  "heads [(None, s0), (Some y, s1)] = [fst y]" "heads [(Some x, s0), (Some y, s1)] = [fst x, fst y]"
  by (simp_all add: heads_def map_filter_def)

lemma current_simps:
  "current key (None, s) = None" "current (fst x) (Some x, s) = Some (snd x)"
  "fst x \<noteq> key \<Longrightarrow> current key (Some x, s) = None"
  by (auto simp: current_def case_prod_beta)

end
