(* ===== verification/Json.thy ===== *)
theory Json
  imports PyText "HOL-Library.Char_ord" "HOL-Library.List_Lexorder"
begin

text \<open>
  What the tools use of Python's \<^verbatim>\<open>json\<close>: the values, \<^verbatim>\<open>json.dumps\<close> with an indentation and with
  or without sorted keys, and \<^verbatim>\<open>json.loads\<close>. An object is the list of its items in insertion order. The characters of the model are the
  code points below 256; \<^verbatim>\<open>ensure_ascii\<close> escapes the ones that are not ASCII.
  A number with a fraction or an exponent is kept as its text: no tool computes with one.
\<close>

datatype json = JNull | JBool bool | JInt int | JFloat string | JStr string | JArr "json list" | JObj "(string \<times> json) list"

definition escape_char :: "char \<Rightarrow> string" where
  "escape_char c =
     (if c = CHR 0x22 then [CHR 0x5C, CHR 0x22]
      else if c = CHR 0x5C then [CHR 0x5C, CHR 0x5C]
      else if c = CHR 0x0A then [CHR 0x5C, CHR ''n'']
      else if c = CHR 0x0D then [CHR 0x5C, CHR ''r'']
      else if c = CHR 0x09 then [CHR 0x5C, CHR ''t'']
      else if c = CHR 0x0C then [CHR 0x5C, CHR ''f'']
      else if c = CHR 0x08 then [CHR 0x5C, CHR ''b'']
      else if code c < 32 \<or> 126 < code c
        then CHR 0x5C # ''u00'' @ [hex_char (code c div 16), hex_char (code c mod 16)]
      else [c])"

definition json_string :: "string \<Rightarrow> string" where
  "json_string s = CHR 0x22 # concat (map escape_char s) @ [CHR 0x22]"

definition newline_indent :: "nat \<Rightarrow> nat \<Rightarrow> string" where
  "newline_indent width level = CHR 0x0A # replicate (width * level) (CHR '' '')"

fun join_with :: "string \<Rightarrow> string list \<Rightarrow> string" where
  "join_with sep [] = []"
| "join_with sep [x] = x"
| "join_with sep (x # y # ys) = x @ sep @ join_with sep (y # ys)"

definition bracketed :: "nat \<Rightarrow> nat \<Rightarrow> char \<Rightarrow> char \<Rightarrow> string list \<Rightarrow> string" where
  "bracketed width level opening closing items =
     (if items = [] then [opening, closing]
      else opening # newline_indent width (level + 1) @ join_with (CHR '','' # newline_indent width (level + 1)) items
        @ newline_indent width level @ [closing])"

fun dump :: "nat \<Rightarrow> nat \<Rightarrow> json \<Rightarrow> string" where
  "dump width level JNull = ''null''"
| "dump width level (JBool b) = (if b then ''true'' else ''false'')"
| "dump width level (JInt n) = str_int n"
| "dump width level (JFloat s) = s"
| "dump width level (JStr s) = json_string s"
| "dump width level (JArr xs) = bracketed width level (CHR ''['') (CHR '']'') (map (dump width (level + 1)) xs)"
| "dump width level (JObj items) =
     bracketed width level (CHR ''{'') (CHR ''}'')
       (map (\<lambda>(k, v). json_string k @ '': '' @ dump width (level + 1) v) items)"

fun sort_keys :: "json \<Rightarrow> json" where
  "sort_keys (JArr xs) = JArr (map sort_keys xs)"
| "sort_keys (JObj items) = JObj (sort_key fst (map (\<lambda>(k, v). (k, sort_keys v)) items))"
| "sort_keys j = j"

definition dumps :: "nat \<Rightarrow> json \<Rightarrow> string" where
  "dumps width j = dump width 0 j"

section \<open>Reading\<close>

definition json_space :: "char \<Rightarrow> bool" where
  "json_space c \<longleftrightarrow> c \<in> {CHR '' '', CHR 0x09, CHR 0x0A, CHR 0x0D}"

definition skip_space :: "string \<Rightarrow> string" where
  "skip_space s = dropWhile json_space s"

definition simple_escape :: "char \<Rightarrow> char option" where
  "simple_escape c = map_of [(CHR 0x22, CHR 0x22), (CHR 0x5C, CHR 0x5C), (CHR ''/'', CHR ''/''), (CHR ''b'', CHR 0x08),
     (CHR ''f'', CHR 0x0C), (CHR ''n'', CHR 0x0A), (CHR ''r'', CHR 0x0D), (CHR ''t'', CHR 0x09)] c"

definition escape_digits :: "string \<Rightarrow> char option" where
  "escape_digits ds =
     (if length ds = 4 then
        (case hex_value_acc 0 ds of Some n \<Rightarrow> if n < 256 then Some (char_of n) else None | None \<Rightarrow> None)
      else None)"

fun scan_string :: "string \<Rightarrow> string \<Rightarrow> (string \<times> string) option" where
  "scan_string acc [] = None"
| "scan_string acc (c # cs) =
     (if c = CHR 0x22 then Some (rev acc, cs)
      else if code c < 32 then None
      else if c \<noteq> CHR 0x5C then scan_string (c # acc) cs
      else (case cs of
          [] \<Rightarrow> None
        | e # es \<Rightarrow>
            if e = CHR ''u'' then
              (case escape_digits (take 4 es) of None \<Rightarrow> None | Some d \<Rightarrow> scan_string (d # acc) (drop 4 es))
            else (case simple_escape e of None \<Rightarrow> None | Some d \<Rightarrow> scan_string (d # acc) es)))"

text \<open>A number: its sign, its digits without a leading zero, then a fraction and an exponent if they are there.\<close>

definition scan_fraction :: "string \<Rightarrow> string \<times> string" where
  "scan_fraction s =
     (case s of
        c # cs \<Rightarrow>
          let ds = takeWhile is_digit cs in
          if c = CHR ''.'' \<and> ds \<noteq> [] then (c # ds, drop (length ds) cs) else ([], s)
      | [] \<Rightarrow> ([], s))"

definition scan_exponent :: "string \<Rightarrow> string \<times> string" where
  "scan_exponent s =
     (case s of
        c # cs \<Rightarrow>
          let sign = (if cs \<noteq> [] \<and> hd cs \<in> {CHR ''+'', CHR ''-''} then [hd cs] else []);
              ds = takeWhile is_digit (drop (length sign) cs)
          in if c \<in> {CHR ''e'', CHR ''E''} \<and> ds \<noteq> [] then (c # sign @ ds, drop (length sign + length ds) cs) else ([], s)
      | [] \<Rightarrow> ([], s))"

definition scan_number :: "string \<Rightarrow> (json \<times> string) option" where
  "scan_number s =
     (let sign = (if startswith s ''-'' then ''-'' else []);
          body = drop (length sign) s;
          ds = (if startswith body ''0'' then ''0'' else takeWhile is_digit body)
      in if ds = [] then None
         else
           let rest = drop (length ds) body in
           case scan_fraction rest of (frac, rest') \<Rightarrow>
           case scan_exponent rest' of (ex, rest'') \<Rightarrow>
             if frac = [] \<and> ex = []
             then Some (JInt (if sign = [] then int (digits_value ds) else - int (digits_value ds)), rest'')
             else Some (JFloat (sign @ ds @ frac @ ex), rest''))"

definition scan_constant :: "string \<Rightarrow> (json \<times> string) option" where
  "scan_constant s =
     (if startswith s ''null'' then Some (JNull, drop 4 s)
      else if startswith s ''true'' then Some (JBool True, drop 4 s)
      else if startswith s ''false'' then Some (JBool False, drop 5 s)
      else if startswith s ''NaN'' then Some (JFloat ''NaN'', drop 3 s)
      else if startswith s ''Infinity'' then Some (JFloat ''Infinity'', drop 8 s)
      else if startswith s ''-Infinity'' then Some (JFloat ''-Infinity'', drop 9 s)
      else None)"

text \<open>
  The recursive descent. Every recursive call has consumed a character, so the length of the text is
  enough fuel: \<open>loads\<close> never runs out of it.
\<close>

fun scan_value :: "nat \<Rightarrow> string \<Rightarrow> (json \<times> string) option"
  and scan_items :: "nat \<Rightarrow> json list \<Rightarrow> string \<Rightarrow> (json list \<times> string) option"
  and scan_members :: "nat \<Rightarrow> (string, json) dict \<Rightarrow> string \<Rightarrow> ((string, json) dict \<times> string) option" where
  "scan_value 0 s = None"
| "scan_value (Suc n) s =
     (case s of
        [] \<Rightarrow> None
      | c # cs \<Rightarrow>
          if c = CHR 0x22 then map_option (\<lambda>(t, rest). (JStr t, rest)) (scan_string [] cs)
          else if c = CHR ''['' then
            (let cs = skip_space cs in
             if startswith cs '']'' then Some (JArr [], tl cs)
             else map_option (\<lambda>(xs, rest). (JArr xs, rest)) (scan_items n [] cs))
          else if c = CHR ''{'' then
            (let cs = skip_space cs in
             if startswith cs ''}'' then Some (JObj [], tl cs)
             else map_option (\<lambda>(xs, rest). (JObj xs, rest)) (scan_members n [] cs))
          else (case scan_constant s of Some r \<Rightarrow> Some r | None \<Rightarrow> scan_number s))"
| "scan_items 0 acc s = None"
| "scan_items (Suc n) acc s =
     (case scan_value n (skip_space s) of
        None \<Rightarrow> None
      | Some (x, rest) \<Rightarrow>
          (let rest = skip_space rest in
           if startswith rest '']'' then Some (acc @ [x], tl rest)
           else if startswith rest '','' then scan_items n (acc @ [x]) (tl rest)
           else None))"
| "scan_members 0 acc s = None"
| "scan_members (Suc n) acc s =
     (case skip_space s of
        [] \<Rightarrow> None
      | c # cs \<Rightarrow>
          if c \<noteq> CHR 0x22 then None
          else (case scan_string [] cs of
              None \<Rightarrow> None
            | Some (k, rest) \<Rightarrow>
                let rest = skip_space rest in
                if \<not> startswith rest '':'' then None
                else (case scan_value n (skip_space (tl rest)) of
                    None \<Rightarrow> None
                  | Some (v, rest) \<Rightarrow>
                      (let rest = skip_space rest in
                       if startswith rest ''}'' then Some (dict_set k v acc, tl rest)
                       else if startswith rest '','' then scan_members n (dict_set k v acc) (tl rest)
                       else None))))"

definition loads :: "string \<Rightarrow> json result" where
  "loads s =
     (case scan_value (2 * length s + 1) (skip_space s) of
        Some (j, rest) \<Rightarrow> if skip_space rest = [] then Inr j else Inl (ValueError ''JSONDecodeError: Extra data'')
      | None \<Rightarrow> Inl (ValueError ''JSONDecodeError''))"

section \<open>Using a value\<close>

text \<open>
  \<^verbatim>\<open>j[key]\<close>, \<^verbatim>\<open>j.get(key)\<close>, a loop over \<^verbatim>\<open>j\<close> or over \<^verbatim>\<open>j or []\<close>, and the conversions \<^verbatim>\<open>int(j)\<close> and
  to a string whose methods are called. A missing key of \<^verbatim>\<open>get\<close> is \<open>JNull\<close>, Python's \<^verbatim>\<open>None\<close>.
\<close>

definition json_item :: "json \<Rightarrow> string \<Rightarrow> json result" where
  "json_item j key =
     (case j of JObj items \<Rightarrow> of_option (KeyError key) (map_of items key) | _ \<Rightarrow> Inl (TypeError key))"

definition json_get :: "json \<Rightarrow> string \<Rightarrow> json result" where
  "json_get j key =
     (case j of
        JObj items \<Rightarrow> Inr (case map_of items key of None \<Rightarrow> JNull | Some v \<Rightarrow> v)
      | _ \<Rightarrow> Inl (AttributeError ''get''))"

definition json_falsy :: "json \<Rightarrow> bool" where
  "json_falsy j \<longleftrightarrow> j \<in> {JNull, JBool False, JInt 0, JStr [], JArr [], JObj []}"

definition json_list :: "json \<Rightarrow> json list result" where
  "json_list j =
     (case j of
        JArr xs \<Rightarrow> Inr xs
      | JObj items \<Rightarrow> Inr (map (\<lambda>(k, v). JStr k) items)
      | JStr s \<Rightarrow> Inr (map (\<lambda>c. JStr [c]) s)
      | _ \<Rightarrow> Inl (TypeError ''not iterable''))"

definition json_list_or_empty :: "json \<Rightarrow> json list result" where
  "json_list_or_empty j = (if json_falsy j then Inr [] else json_list j)"

definition json_text :: "json \<Rightarrow> string result" where
  "json_text j = (case j of JStr s \<Rightarrow> Inr s | _ \<Rightarrow> Inl (AttributeError ''not a string''))"

text \<open>\<^verbatim>\<open>int()\<close> of a value of a document. Restriction: a float keeps its text in \<open>JFloat\<close>; Python truncates it here and the
  model stops with an error. The documents the tools read have integers or integer texts in these places.\<close>

definition json_int :: "json \<Rightarrow> int result" where
  "json_int j =
     (case j of
        JInt n \<Rightarrow> Inr n
      | JBool b \<Rightarrow> Inr (if b then 1 else 0)
      | JStr s \<Rightarrow> py_int s
      | _ \<Rightarrow> Inl (TypeError ''int()''))"

end
