(* ===== verification/Files.thy ===== *)
theory Files
  imports Csv Json Sha256 Addresses
begin

text \<open>
  The files that the ledger scripts read and write, by path, with their text. A script refuses to
  overwrite: an output path is free when neither it nor its \<^verbatim>\<open>.partial\<close> name exists. The outputs are
  written under their partial names and renamed when they are complete.
\<close>

type_synonym files = "string \<rightharpoonup> string"

definition partial :: "string \<Rightarrow> string" where
  "partial path = path @ ''.partial''"

lemma partial_simps [simp]: "partial p = partial q \<longleftrightarrow> p = q" "partial p \<noteq> p" "p \<noteq> partial p"
  by (simp_all add: partial_def)

definition taken :: "files \<Rightarrow> string \<Rightarrow> bool" where
  "taken fs path \<longleftrightarrow> fs path \<noteq> None \<or> fs (partial path) \<noteq> None"

definition read_text :: "files \<Rightarrow> string \<Rightarrow> string result" where
  "read_text fs path = of_option (FileNotFoundError path) (fs path)"

definition text_sha256 :: "string \<Rightarrow> string" where
  "text_sha256 content = sha256_hex (encode content)"

definition json_file :: "nat \<Rightarrow> json \<Rightarrow> string" where
  "json_file width j = dumps width (sort_keys j) @ [CHR 0x0A]"

end
