(* ===== verification/Census.thy ===== *)
theory Census
  imports Merge Files
begin

text \<open>
  \<^verbatim>\<open>toolkit/scripts/census/account-balance-merge.py\<close>: the two shards' account exports are merged by
  secure key into one row per account, with the sum of its balances, and counted against a threshold.
  The loop is written as in the source; it is shown equal to the shared merge loop.
\<close>

section \<open>Rows\<close>

record account =
  ac_address :: string
  ac_balance :: int
  ac_nonce :: string
  ac_code_hash :: string

definition account_row :: "string \<Rightarrow> csv_row \<Rightarrow> account result" where
  "account_row key r =
     bindR (int_of_field r ''balance_atto'') (\<lambda>balance.
     if balance \<le> 0 then Inl (ValueError ''non-positive exported balance'')
     else
       bindR (value_field r ''address'') (\<lambda>address.
       bindR (value_field r ''nonce'') (\<lambda>nonce.
       bindR (text_field r ''code_hash'') (\<lambda>code_hash.
         Inr \<lparr>ac_address = address, ac_balance = balance, ac_nonce = nonce, ac_code_hash = lower code_hash\<rparr>))))"

definition account_rows :: "csv_row list \<Rightarrow> (string \<times> account) result list" where
  "account_rows = sorted_gen (\<lambda>r. text_field r ''secure_key'') account_row None"

section \<open>The body of the loop\<close>

record census_summary =
  cs_shard0_positive :: int
  cs_shard1_positive :: int
  cs_unique_positive :: int
  cs_positive_overlap :: int
  cs_shard0_individually_qualifying :: int
  cs_shard1_individually_qualifying :: int
  cs_qualifying_overlap :: int
  cs_new_cross_shard_threshold_crossers :: int
  cs_unique_qualifying_after_sum :: int
  cs_qualifying_code_less :: int
  cs_qualifying_code_bearing :: int
  cs_qualifying_with_address :: int
  cs_qualifying_missing_address :: int
  cs_total_balance_atto :: int
  cs_qualifying_balance_atto :: int

definition empty_summary :: census_summary where
  "empty_summary = \<lparr>cs_shard0_positive = 0, cs_shard1_positive = 0, cs_unique_positive = 0, cs_positive_overlap = 0,
     cs_shard0_individually_qualifying = 0, cs_shard1_individually_qualifying = 0, cs_qualifying_overlap = 0,
     cs_new_cross_shard_threshold_crossers = 0, cs_unique_qualifying_after_sum = 0, cs_qualifying_code_less = 0,
     cs_qualifying_code_bearing = 0, cs_qualifying_with_address = 0, cs_qualifying_missing_address = 0,
     cs_total_balance_atto = 0, cs_qualifying_balance_atto = 0\<rparr>"

record census_state =
  ce_summary :: census_summary
  ce_rows :: "string list list"

definition opt_field :: "(account \<Rightarrow> string) \<Rightarrow> account option \<Rightarrow> string" where
  "opt_field f a = (case a of None \<Rightarrow> [] | Some x \<Rightarrow> f x)"

definition opt_balance :: "account option \<Rightarrow> int" where
  "opt_balance a = weigh ac_balance a"

definition has_code :: "account option \<Rightarrow> bool" where
  "has_code a = (case a of None \<Rightarrow> False | Some x \<Rightarrow> ac_code_hash x \<noteq> EMPTY_CODE_HASH)"

definition bump :: "bool \<Rightarrow> int \<Rightarrow> int" where
  "bump b n = (if b then n + 1 else n)"

definition count_account :: "int \<Rightarrow> account option \<Rightarrow> account option \<Rightarrow> string \<Rightarrow> census_summary \<Rightarrow> census_summary" where
  "count_account threshold current0 current1 address s =
     (let balance0 = opt_balance current0; balance1 = opt_balance current1;
          total = balance0 + balance1;
          qualifies0 = balance0 > threshold; qualifies1 = balance1 > threshold; qualifies = total > threshold;
          code_bearing = has_code current0 \<or> has_code current1
      in \<lparr>cs_shard0_positive = bump (current0 \<noteq> None) (cs_shard0_positive s),
          cs_shard1_positive = bump (current1 \<noteq> None) (cs_shard1_positive s),
          cs_unique_positive = cs_unique_positive s + 1,
          cs_positive_overlap = bump (current0 \<noteq> None \<and> current1 \<noteq> None) (cs_positive_overlap s),
          cs_shard0_individually_qualifying = bump qualifies0 (cs_shard0_individually_qualifying s),
          cs_shard1_individually_qualifying = bump qualifies1 (cs_shard1_individually_qualifying s),
          cs_qualifying_overlap = bump (qualifies0 \<and> qualifies1) (cs_qualifying_overlap s),
          cs_new_cross_shard_threshold_crossers =
            bump (qualifies \<and> \<not> qualifies0 \<and> \<not> qualifies1) (cs_new_cross_shard_threshold_crossers s),
          cs_unique_qualifying_after_sum = bump qualifies (cs_unique_qualifying_after_sum s),
          cs_qualifying_code_less = bump (qualifies \<and> \<not> code_bearing) (cs_qualifying_code_less s),
          cs_qualifying_code_bearing = bump (qualifies \<and> code_bearing) (cs_qualifying_code_bearing s),
          cs_qualifying_with_address = bump (qualifies \<and> address \<noteq> []) (cs_qualifying_with_address s),
          cs_qualifying_missing_address = bump (qualifies \<and> address = []) (cs_qualifying_missing_address s),
          cs_total_balance_atto = cs_total_balance_atto s + total,
          cs_qualifying_balance_atto = cs_qualifying_balance_atto s + (if qualifies then total else 0)\<rparr>)"

definition census_row :: "string \<Rightarrow> account option \<Rightarrow> account option \<Rightarrow> string \<Rightarrow> string list" where
  "census_row key current0 current1 address =
     [key, address, str_int (opt_balance current0), str_int (opt_balance current1),
      str_int (opt_balance current0 + opt_balance current1),
      opt_field ac_nonce current0, opt_field ac_nonce current1,
      opt_field ac_code_hash current0, opt_field ac_code_hash current1]"

definition census_body :: "int \<Rightarrow> census_state \<Rightarrow> string \<Rightarrow> account option \<Rightarrow> account option \<Rightarrow> census_state result" where
  "census_body threshold st key current0 current1 =
     (let address0 = opt_field ac_address current0; address1 = opt_field ac_address current1 in
      if address0 \<noteq> [] \<and> address1 \<noteq> [] \<and> lower address0 \<noteq> lower address1
      then Inl (ValueError ''address mismatch'')
      else
        let address = (if address0 \<noteq> [] then address0 else address1) in
        Inr \<lparr>ce_summary = count_account threshold current0 current1 address (ce_summary st),
             ce_rows = ce_rows st @ [census_row key current0 current1 address]\<rparr>)"

section \<open>The loop\<close>

lemma next_weight: "next_or_none s = Inr c \<Longrightarrow> cursor_weight c = length s"
  by (cases s rule: next_or_none.cases) (auto simp: cursor_weight_def)

function census_loop :: "int \<Rightarrow> census_state \<Rightarrow> (string, account) cursor \<Rightarrow> (string, account) cursor \<Rightarrow> census_state result" where
  "census_loop threshold st (row0, shard0) (row1, shard1) =
     (if row0 = None \<and> row1 = None then Inr st
      else if row1 = None \<or> (row0 \<noteq> None \<and> fst (the row0) < fst (the row1)) then
        bindR (next_or_none shard0) (\<lambda>c0.
        bindR (census_body threshold st (fst (the row0)) (Some (snd (the row0))) None) (\<lambda>st'.
          census_loop threshold st' c0 (row1, shard1)))
      else if row0 = None \<or> fst (the row1) < fst (the row0) then
        bindR (next_or_none shard1) (\<lambda>c1.
        bindR (census_body threshold st (fst (the row1)) None (Some (snd (the row1)))) (\<lambda>st'.
          census_loop threshold st' (row0, shard0) c1))
      else
        bindR (next_or_none shard0) (\<lambda>c0.
        bindR (next_or_none shard1) (\<lambda>c1.
        bindR (census_body threshold st (fst (the row0)) (Some (snd (the row0))) (Some (snd (the row1)))) (\<lambda>st'.
          census_loop threshold st' c0 c1))))"
  by pat_completeness auto
termination
  by (relation "measure (\<lambda>(threshold, st, c0, c1). cursor_weight c0 + cursor_weight c1)")
    (auto simp: next_weight, auto simp: cursor_weight_def)

declare census_loop.simps [simp del]

section \<open>The command\<close>

record census_args =
  ca_shard0 :: string
  ca_shard1 :: string
  ca_threshold_atto :: int
  ca_output :: string
  ca_summary_output :: string

definition CENSUS_HEADER :: "string list" where
  "CENSUS_HEADER = [''secure_key'', ''address'', ''balance_shard_0_atto'', ''balance_shard_1_atto'', ''balance_total_atto'',
     ''nonce_shard_0'', ''nonce_shard_1'', ''code_hash_shard_0'', ''code_hash_shard_1'']"

definition census_json :: "census_args \<Rightarrow> string \<Rightarrow> string \<Rightarrow> string \<Rightarrow> census_summary \<Rightarrow> json" where
  "census_json args text0 text1 output s = JObj
     [(''input_sha256'', JObj [(''shard0'', JStr (text_sha256 text0)), (''shard1'', JStr (text_sha256 text1))]),
      (''threshold_atto'', JStr (str_int (ca_threshold_atto args))),
      (''shard0_positive'', JInt (cs_shard0_positive s)),
      (''shard1_positive'', JInt (cs_shard1_positive s)),
      (''unique_positive'', JInt (cs_unique_positive s)),
      (''positive_overlap'', JInt (cs_positive_overlap s)),
      (''shard0_individually_qualifying'', JInt (cs_shard0_individually_qualifying s)),
      (''shard1_individually_qualifying'', JInt (cs_shard1_individually_qualifying s)),
      (''qualifying_overlap'', JInt (cs_qualifying_overlap s)),
      (''new_cross_shard_threshold_crossers'', JInt (cs_new_cross_shard_threshold_crossers s)),
      (''unique_qualifying_after_sum'', JInt (cs_unique_qualifying_after_sum s)),
      (''qualifying_code_less'', JInt (cs_qualifying_code_less s)),
      (''qualifying_code_bearing'', JInt (cs_qualifying_code_bearing s)),
      (''qualifying_with_address'', JInt (cs_qualifying_with_address s)),
      (''qualifying_missing_address'', JInt (cs_qualifying_missing_address s)),
      (''total_balance_atto'', JStr (str_int (cs_total_balance_atto s))),
      (''qualifying_balance_atto'', JStr (str_int (cs_qualifying_balance_atto s))),
      (''output_path'', JStr (ca_output args)),
      (''output_sha256'', JStr (text_sha256 output))]"

text \<open>
  The files after the call, and the summary. The outputs are written under their partial names and renamed when
  they are complete; an error removes the partial files, so it leaves the files as they were. The partial file
  of the summary is opened for exclusive creation after the output got its name, so the call fails when the output path is that
  partial path, and then the cleanup removes the output.
\<close>

definition census_run :: "files \<Rightarrow> census_args \<Rightarrow> (string \<times> string \<times> census_state) result" where
  "census_run fs args =
     (if taken fs (ca_output args) \<or> taken fs (ca_summary_output args)
      then Inl (FileExistsError ''refusing to overwrite'')
      else
        bindR (read_text fs (ca_shard0 args)) (\<lambda>text0.
        bindR (read_text fs (ca_shard1 args)) (\<lambda>text1.
        bindR (next_or_none (account_rows (dict_reader text0))) (\<lambda>c0.
        bindR (next_or_none (account_rows (dict_reader text1))) (\<lambda>c1.
        bindR (census_loop (ca_threshold_atto args) \<lparr>ce_summary = empty_summary, ce_rows = []\<rparr> c0 c1) (\<lambda>st.
          Inr (text0, text1, st)))))))"

definition census_merge :: "files \<Rightarrow> census_args \<Rightarrow> files \<times> census_summary result" where
  "census_merge fs args =
     (case census_run fs args of
        Inl e \<Rightarrow> (fs, Inl e)
      | Inr (text0, text1, st) \<Rightarrow>
          let output = csv_text (CENSUS_HEADER # ce_rows st);
              fs' = fs(ca_output args \<mapsto> output)
          in if fs' (partial (ca_summary_output args)) \<noteq> None
             then (fs'(partial (ca_output args) := None, partial (ca_summary_output args) := None),
                   Inl (FileExistsError (partial (ca_summary_output args))))
             else (fs'(ca_summary_output args \<mapsto> json_file 2 (census_json args text0 text1 output (ce_summary st))),
                   Inr (ce_summary st)))"

section \<open>The loop is the shared merge\<close>

definition census_step :: "int \<Rightarrow> census_state \<Rightarrow> string \<Rightarrow> account option list \<Rightarrow> census_state result" where
  "census_step threshold st key currents = census_body threshold st key (currents ! 0) (currents ! 1)"

lemma census_step_two: "census_step threshold st key [a, b] = census_body threshold st key a b"
  by (simp add: census_step_def)

lemma census_loop_merge: "census_loop threshold st c0 c1 = merge_fold (census_step threshold) st [c0, c1]"
proof (induction threshold st c0 c1 rule: census_loop.induct)
  case (1 threshold st row0 shard0 row1 shard1)
  show ?case
  proof (cases row0)
    case None
    show ?thesis
    proof (cases row1)
      case None
      with \<open>row0 = None\<close> show ?thesis by (subst census_loop.simps, subst merge_fold_two) (simp add: heads_two)
    next
      case (Some y)
      with None "1.IH"(2) show ?thesis
        by (subst census_loop.simps, subst merge_fold_two) (auto simp: heads_two step_cursor_def current_simps census_step_two intro!: bindR_cong)
    qed
  next
    case (Some x)
    show ?thesis
    proof (cases row1)
      case None
      with Some "1.IH"(1) show ?thesis
        by (subst census_loop.simps, subst merge_fold_two) (auto simp: heads_two step_cursor_def current_simps census_step_two intro!: bindR_cong)
    next
      case (Some y)
      consider "fst x < fst y" | "fst y < fst x" | "fst x = fst y" by fastforce
      then show ?thesis
      proof cases
        case 1
        with Some \<open>row0 = Some x\<close> "1.IH"(1) show ?thesis
          by (subst census_loop.simps, subst merge_fold_two) (auto simp: heads_two step_cursor_def current_simps census_step_two min_def intro!: bindR_cong)
      next
        case 2
        with Some \<open>row0 = Some x\<close> "1.IH"(2) show ?thesis
          by (subst census_loop.simps, subst merge_fold_two) (auto simp: heads_two step_cursor_def current_simps census_step_two min_def intro!: bindR_cong)
      next
        case 3
        with Some \<open>row0 = Some x\<close> "1.IH"(3) show ?thesis
          by (subst census_loop.simps, subst merge_fold_two) (auto simp: heads_two step_cursor_def current_def case_prod_beta census_step_two intro!: bindR_cong)
      qed
    qed
  qed
qed

section \<open>What the census counts\<close>

definition shown_address :: "account option \<Rightarrow> account option \<Rightarrow> string" where
  "shown_address a b = (let address0 = opt_field ac_address a in if address0 \<noteq> [] then address0 else opt_field ac_address b)"

definition addresses_agree :: "account option \<Rightarrow> account option \<Rightarrow> bool" where
  "addresses_agree a b \<longleftrightarrow>
     (let address0 = opt_field ac_address a; address1 = opt_field ac_address b
      in address0 = [] \<or> address1 = [] \<or> lower address0 = lower address1)"

lemma census_body_eq:
  "census_body threshold st key a b =
     (if addresses_agree a b
      then Inr \<lparr>ce_summary = count_account threshold a b (shown_address a b) (ce_summary st),
                ce_rows = ce_rows st @ [census_row key a b (shown_address a b)]\<rparr>
      else Inl (ValueError ''address mismatch''))"
  by (auto simp: census_body_def addresses_agree_def shown_address_def Let_def)

text \<open>One counted account per key; the tally of a list of them.\<close>

type_synonym entry = "string \<times> account option list"

abbreviation entry0 :: "entry \<Rightarrow> account option" where
  "entry0 g \<equiv> snd g ! 0"

abbreviation entry1 :: "entry \<Rightarrow> account option" where
  "entry1 g \<equiv> snd g ! 1"

definition entry_total :: "entry \<Rightarrow> int" where
  "entry_total g = opt_balance (entry0 g) + opt_balance (entry1 g)"

definition entry_row :: "entry \<Rightarrow> string list" where
  "entry_row g = census_row (fst g) (entry0 g) (entry1 g) (shown_address (entry0 g) (entry1 g))"

definition count_if :: "('a \<Rightarrow> bool) \<Rightarrow> 'a list \<Rightarrow> int" where
  "count_if P xs = int (length (filter P xs))"

lemma count_if_simps [simp]: "count_if P [] = 0" "count_if P (x # xs) = of_bool (P x) + count_if P xs"
  by (simp_all add: count_if_def)

lemma count_if_weigh: "count_if (\<lambda>x. f x \<noteq> None) xs = sum_list (map (\<lambda>x. weigh (\<lambda>_. 1) (f x)) xs)"
  by (induction xs) (auto simp: weigh_def split: option.splits)

lemma bump_alt: "bump b n = n + of_bool b"
  by (simp add: bump_def)

abbreviation census_fold :: "int \<Rightarrow> census_state \<Rightarrow> entry list \<Rightarrow> census_state result" where
  "census_fold threshold \<equiv> foldM (\<lambda>s (k, vs). census_step threshold s k vs)"

lemma census_fold_rows:
  assumes "census_fold threshold st gs = Inr st'"
  shows "ce_rows st' = ce_rows st @ map entry_row gs" "\<forall>g \<in> set gs. addresses_agree (entry0 g) (entry1 g)"
  using assms
  by (induction gs arbitrary: st)
    (auto simp: census_step_def census_body_eq entry_row_def case_prod_beta bindR_Inr_iff split: if_splits)

lemma census_fold_field:
  fixes f :: "census_summary \<Rightarrow> int"
  assumes "\<And>a b s. f (count_account threshold a b (shown_address a b) s) = f s + d a b"
    and "census_fold threshold st gs = Inr st'"
  shows "f (ce_summary st') = f (ce_summary st) + sum_list (map (\<lambda>g. d (entry0 g) (entry1 g)) gs)"
  using assms(2)
  by (induction gs arbitrary: st)
    (auto simp: census_step_def census_body_eq assms(1) case_prod_beta bindR_Inr_iff split: if_splits)

lemma count_if_sum: "count_if P xs = sum_list (map (\<lambda>x. of_bool (P x)) xs)"
  by (induction xs) simp_all

lemma sum_filter: "sum_list (map f (filter P xs)) = sum_list (map (\<lambda>x. if P x then f x else (0 :: int)) xs)"
  by (induction xs) simp_all

lemmas count_account_unfold = count_account_def Let_def bump_alt

lemma census_fold_counts:
  assumes "census_fold threshold st gs = Inr st'"
  shows "cs_shard0_positive (ce_summary st') = cs_shard0_positive (ce_summary st) + count_if (\<lambda>g. entry0 g \<noteq> None) gs"
    "cs_shard1_positive (ce_summary st') = cs_shard1_positive (ce_summary st) + count_if (\<lambda>g. entry1 g \<noteq> None) gs"
    "cs_unique_positive (ce_summary st') = cs_unique_positive (ce_summary st) + int (length gs)"
    "cs_positive_overlap (ce_summary st') = cs_positive_overlap (ce_summary st) + count_if (\<lambda>g. entry0 g \<noteq> None \<and> entry1 g \<noteq> None) gs"
    "cs_unique_qualifying_after_sum (ce_summary st') =
       cs_unique_qualifying_after_sum (ce_summary st) + count_if (\<lambda>g. entry_total g > threshold) gs"
    "cs_total_balance_atto (ce_summary st') = cs_total_balance_atto (ce_summary st) + sum_list (map entry_total gs)"
    "cs_qualifying_balance_atto (ce_summary st') =
       cs_qualifying_balance_atto (ce_summary st) + sum_list (map entry_total (filter (\<lambda>g. entry_total g > threshold) gs))"
proof -
  note field = census_fold_field [OF _ assms]
  show "cs_shard0_positive (ce_summary st') = cs_shard0_positive (ce_summary st) + count_if (\<lambda>g. entry0 g \<noteq> None) gs"
    unfolding count_if_sum by (rule field) (simp add: count_account_unfold)
  show "cs_shard1_positive (ce_summary st') = cs_shard1_positive (ce_summary st) + count_if (\<lambda>g. entry1 g \<noteq> None) gs"
    unfolding count_if_sum by (rule field) (simp add: count_account_unfold)
  show "cs_unique_positive (ce_summary st') = cs_unique_positive (ce_summary st) + int (length gs)"
    using field [of cs_unique_positive "\<lambda>_ _. 1"] by (simp add: count_account_unfold sum_list_triv)
  show "cs_positive_overlap (ce_summary st') = cs_positive_overlap (ce_summary st) + count_if (\<lambda>g. entry0 g \<noteq> None \<and> entry1 g \<noteq> None) gs"
    unfolding count_if_sum by (rule field) (simp add: count_account_unfold)
  show "cs_unique_qualifying_after_sum (ce_summary st') =
     cs_unique_qualifying_after_sum (ce_summary st) + count_if (\<lambda>g. entry_total g > threshold) gs"
    unfolding count_if_sum entry_total_def by (rule field) (simp add: count_account_unfold)
  show "cs_total_balance_atto (ce_summary st') = cs_total_balance_atto (ce_summary st) + sum_list (map entry_total gs)"
    unfolding entry_total_def by (rule field) (simp add: count_account_unfold)
  show "cs_qualifying_balance_atto (ce_summary st') =
     cs_qualifying_balance_atto (ce_summary st) + sum_list (map entry_total (filter (\<lambda>g. entry_total g > threshold) gs))"
    unfolding sum_filter entry_total_def by (rule field) (simp add: count_account_unfold)
qed

lemma census_fold_classes:
  assumes "census_fold threshold st gs = Inr st'"
    "cs_qualifying_code_less (ce_summary st) + cs_qualifying_code_bearing (ce_summary st) = cs_unique_qualifying_after_sum (ce_summary st)"
    "cs_qualifying_with_address (ce_summary st) + cs_qualifying_missing_address (ce_summary st) = cs_unique_qualifying_after_sum (ce_summary st)"
  shows "cs_qualifying_code_less (ce_summary st') + cs_qualifying_code_bearing (ce_summary st') = cs_unique_qualifying_after_sum (ce_summary st')"
    "cs_qualifying_with_address (ce_summary st') + cs_qualifying_missing_address (ce_summary st') = cs_unique_qualifying_after_sum (ce_summary st')"
  using assms
    census_fold_field [of "\<lambda>s. cs_qualifying_code_less s + cs_qualifying_code_bearing s - cs_unique_qualifying_after_sum s"
      threshold "\<lambda>_ _. 0", OF _ assms(1)]
    census_fold_field [of "\<lambda>s. cs_qualifying_with_address s + cs_qualifying_missing_address s - cs_unique_qualifying_after_sum s"
      threshold "\<lambda>_ _. 0", OF _ assms(1)]
  by (auto simp: count_account_unfold)

lemma census_fold_total:
  "\<forall>g \<in> set gs. addresses_agree (entry0 g) (entry1 g) \<Longrightarrow> \<exists>st'. census_fold threshold st gs = Inr st'"
  by (induction gs arbitrary: st) (auto simp: census_step_def census_body_eq case_prod_beta)

interpretation account_source: sorted_source account_rows
  unfolding account_rows_def by (rule sorted_gen_source.sorted_source_axioms)

lemma census_run_merge:
  "census_run fs args =
     (if taken fs (ca_output args) \<or> taken fs (ca_summary_output args)
      then Inl (FileExistsError ''refusing to overwrite'')
      else
        bindR (read_text fs (ca_shard0 args)) (\<lambda>text0.
        bindR (read_text fs (ca_shard1 args)) (\<lambda>text1.
        bindR (merge_streams (census_step (ca_threshold_atto args)) \<lparr>ce_summary = empty_summary, ce_rows = []\<rparr>
                 [account_rows (dict_reader text0), account_rows (dict_reader text1)]) (\<lambda>st.
          Inr (text0, text1, st)))))"
proof -
  show ?thesis by (simp only: census_run_def census_loop_merge merge_streams_def bindR_mapM_two bindR_assoc)
qed

definition both_keys :: "(string \<times> account) list \<Rightarrow> (string \<times> account) list \<Rightarrow> string list" where
  "both_keys A0 A1 = sorted_list_of_set (fst ` set A0 \<union> fst ` set A1)"

lemma groups_two: "groups [A0, A1] = map (\<lambda>k. (k, [map_of A0 k, map_of A1 k])) (both_keys A0 A1)"
  by (simp add: groups_def group_keys_def both_keys_def)

lemma filter_map_len: "count_if P (map f xs) = int (length (filter (\<lambda>x. P (f x)) xs))"
  by (simp add: count_if_def filter_map o_def)

lemma census_run_Inr:
  assumes "census_run fs args = Inr (text0, text1, st)"
  obtains A0 A1 where "fs (ca_shard0 args) = Some text0" "fs (ca_shard1 args) = Some text1"
    "account_rows (dict_reader text0) = map Inr A0" "account_rows (dict_reader text1) = map Inr A1"
    "census_fold (ca_threshold_atto args) \<lparr>ce_summary = empty_summary, ce_rows = []\<rparr> (groups [A0, A1]) = Inr st"
proof -
  from assms have r: "fs (ca_shard0 args) = Some text0" "fs (ca_shard1 args) = Some text1"
    and m: "merge_streams (census_step (ca_threshold_atto args)) \<lparr>ce_summary = empty_summary, ce_rows = []\<rparr>
                 [account_rows (dict_reader text0), account_rows (dict_reader text1)] = Inr st"
    by (auto simp: census_run_merge read_text_def bindR_Inr_iff of_option_Inr_iff split: if_splits)
  obtain xss where "[account_rows (dict_reader text0), account_rows (dict_reader text1)] = map (map Inr) xss"
    "census_fold (ca_threshold_atto args) \<lparr>ce_summary = empty_summary, ce_rows = []\<rparr> (groups xss) = Inr st"
  proof (rule merge_streams_Inr [OF m])
    show "\<forall>s \<in> set [account_rows (dict_reader text0), account_rows (dict_reader text1)]. increasing s"
      by (simp add: account_source.gen_increasing)
  qed (rule that)
  moreover from this(1) obtain A0 A1 where "xss = [A0, A1]" by (auto simp: Cons_eq_map_conv)
  ultimately show thesis using that r by auto
qed

lemma census_run_returns:
  assumes "\<not> taken fs (ca_output args)" "\<not> taken fs (ca_summary_output args)"
    and "fs (ca_shard0 args) = Some text0" "fs (ca_shard1 args) = Some text1"
    and "account_rows (dict_reader text0) = map Inr A0" "account_rows (dict_reader text1) = map Inr A1"
    and "\<forall>k \<in> fst ` set A0 \<inter> fst ` set A1. addresses_agree (map_of A0 k) (map_of A1 k)"
  shows "\<exists>st. census_run fs args = Inr (text0, text1, st)"
proof -
  have agree: "addresses_agree (map_of A0 k) (map_of A1 k)" for k
  proof (cases "k \<in> fst ` set A0 \<inter> fst ` set A1")
    case True
    then show ?thesis using assms(7) by blast
  next
    case False
    then have "map_of A0 k = None \<or> map_of A1 k = None" by (auto simp: map_of_eq_None_iff)
    then show ?thesis by (auto simp: addresses_agree_def opt_field_def)
  qed
  obtain st where fold: "census_fold (ca_threshold_atto args) \<lparr>ce_summary = empty_summary, ce_rows = []\<rparr> (groups [A0, A1]) = Inr st"
  proof -
    have "\<forall>g \<in> set (groups [A0, A1]). addresses_agree (entry0 g) (entry1 g)" using agree by (auto simp: groups_two)
    then show thesis using census_fold_total that by blast
  qed
  have sorted: "\<forall>xs \<in> set [A0, A1]. sorted_wrt (<) (map fst xs)"
    using assms(5, 6) account_source.drained_sorted by simp
  have "merge_streams (census_step (ca_threshold_atto args)) \<lparr>ce_summary = empty_summary, ce_rows = []\<rparr> (map (map Inr) [A0, A1]) = Inr st"
    using fold by (simp only: merge_streams_groups [OF sorted])
  then show ?thesis
    using assms by (simp add: census_run_merge read_text_def)
qed

definition sample_shard :: "string \<Rightarrow> string \<Rightarrow> string" where
  "sample_shard key balance = csv_text [[''secure_key'', ''address'', ''balance_atto'', ''nonce'', ''code_hash''],
     [''k1'', ''0xAb'', balance, ''0'', ''0xc0de''], [key, [], ''5'', ''1'', ''0xc0de'']]"

definition sample_census :: census_args where
  "sample_census = \<lparr>ca_shard0 = ''s0.csv'', ca_shard1 = ''s1.csv'', ca_threshold_atto = 8, ca_output = ''out.csv'',
     ca_summary_output = ''out.json''\<rparr>"

definition sample_shards :: files where
  "sample_shards = [''s0.csv'' \<mapsto> sample_shard ''k2'' ''7'', ''s1.csv'' \<mapsto> sample_shard ''k3'' ''2'']"

definition sample_accounts :: "string \<Rightarrow> int \<Rightarrow> (string \<times> account) list" where
  "sample_accounts key balance =
     [(''k1'', \<lparr>ac_address = ''0xAb'', ac_balance = balance, ac_nonce = ''0'', ac_code_hash = ''0xc0de''\<rparr>),
      (key, \<lparr>ac_address = [], ac_balance = 5, ac_nonce = ''1'', ac_code_hash = ''0xc0de''\<rparr>)]"

lemma sample_shard_rows:
  "account_rows (dict_reader (sample_shard ''k2'' ''7'')) = map Inr (sample_accounts ''k2'' 7)"
  "account_rows (dict_reader (sample_shard ''k3'' ''2'')) = map Inr (sample_accounts ''k3'' 2)"
  by code_simp+

lemma sample_census_free:
  "\<not> taken sample_shards (ca_output sample_census)" "\<not> taken sample_shards (ca_summary_output sample_census)"
  "sample_shards (ca_shard0 sample_census) = Some (sample_shard ''k2'' ''7'')"
  "sample_shards (ca_shard1 sample_census) = Some (sample_shard ''k3'' ''2'')"
  by (simp_all add: taken_def partial_def sample_shards_def sample_census_def)

lemma sample_census_paths:
  "partial (ca_summary_output sample_census) \<noteq> ca_output sample_census" "sample_shards (partial (ca_summary_output sample_census)) = None"
  by (simp_all add: partial_def sample_shards_def sample_census_def)

lemma sample_counts:
  "both_keys (sample_accounts ''k2'' 7) (sample_accounts ''k3'' 2) = [''k1'', ''k2'', ''k3'']"
  "card (fst ` set (sample_accounts ''k2'' 7) \<union> fst ` set (sample_accounts ''k3'' 2)) = 3"
  "card (fst ` set (sample_accounts ''k2'' 7) \<inter> fst ` set (sample_accounts ''k3'' 2)) = 1"
  by code_simp+

lemma sample_agree:
  "\<forall>k \<in> fst ` set (sample_accounts ''k2'' 7) \<inter> fst ` set (sample_accounts ''k3'' 2).
     addresses_agree (map_of (sample_accounts ''k2'' 7) k) (map_of (sample_accounts ''k3'' 2) k)"
  by code_simp

text \<open>
  C6. The census of two shards. When the merge returns, both exports were read to their end; the output has one row per
  secure key of either shard, in increasing order of the keys, with that account's rows of the two shards; the total
  is the sum of the two exports, every account is counted once, the overlap is what the shards have in common, and the
  qualifying accounts are the ones whose summed balance is above the threshold, each in one class by code and in one by address.
\<close>

theorem census_merge_counts:
  assumes "census_merge fs args = (fs', Inr s)" "ca_output args \<noteq> ca_summary_output args"
  shows "\<exists>text0 text1 A0 A1.
    fs (ca_shard0 args) = Some text0 \<and> fs (ca_shard1 args) = Some text1 \<and>
    account_rows (dict_reader text0) = map Inr A0 \<and> account_rows (dict_reader text1) = map Inr A1 \<and>
    fs' (ca_output args) = Some (csv_text (CENSUS_HEADER #
      map (\<lambda>k. census_row k (map_of A0 k) (map_of A1 k) (shown_address (map_of A0 k) (map_of A1 k))) (both_keys A0 A1))) \<and>
    cs_total_balance_atto s = sum_list (map (\<lambda>a. ac_balance (snd a)) A0) + sum_list (map (\<lambda>a. ac_balance (snd a)) A1) \<and>
    cs_shard0_positive s = int (length A0) \<and> cs_shard1_positive s = int (length A1) \<and>
    cs_unique_positive s = int (card (fst ` set A0 \<union> fst ` set A1)) \<and>
    cs_positive_overlap s = int (card (fst ` set A0 \<inter> fst ` set A1)) \<and>
    cs_unique_qualifying_after_sum s =
      int (length (filter (\<lambda>k. opt_balance (map_of A0 k) + opt_balance (map_of A1 k) > ca_threshold_atto args) (both_keys A0 A1))) \<and>
    cs_qualifying_code_less s + cs_qualifying_code_bearing s = cs_unique_qualifying_after_sum s \<and>
    cs_qualifying_with_address s + cs_qualifying_missing_address s = cs_unique_qualifying_after_sum s"
proof -
  from assms(1) obtain text0 text1 st where run: "census_run fs args = Inr (text0, text1, st)" and s: "s = ce_summary st"
    and fs': "fs' (ca_output args) = Some (csv_text (CENSUS_HEADER # ce_rows st))"
    using assms(2) by (auto simp: census_merge_def Let_def split: sum.splits if_splits)
  from run obtain A0 A1 where A: "fs (ca_shard0 args) = Some text0" "fs (ca_shard1 args) = Some text1"
    "account_rows (dict_reader text0) = map Inr A0" "account_rows (dict_reader text1) = map Inr A1"
    and fold: "census_fold (ca_threshold_atto args) \<lparr>ce_summary = empty_summary, ce_rows = []\<rparr> (groups [A0, A1]) = Inr st"
    by (rule census_run_Inr)
  have sorted: "\<forall>xs \<in> set [A0, A1]. sorted_wrt (<) (map fst xs)"
    using A(3, 4) account_source.drained_sorted by simp
  note counts = census_fold_counts [OF fold] and classes = census_fold_classes [OF fold]
  have sum0: "sum_list (map (\<lambda>g. weigh w (entry0 g)) (groups [A0, A1])) = sum_list (map (\<lambda>x. w (snd x)) A0)"
    and sum1: "sum_list (map (\<lambda>g. weigh w (entry1 g)) (groups [A0, A1])) = sum_list (map (\<lambda>x. w (snd x)) A1)" for w
    using sum_groups [OF sorted, of 0 w] sum_groups [OF sorted, of 1 w] by simp_all
  have rows: "ce_rows st = map (\<lambda>k. census_row k (map_of A0 k) (map_of A1 k) (shown_address (map_of A0 k) (map_of A1 k))) (both_keys A0 A1)"
    using census_fold_rows(1) [OF fold] by (simp add: groups_two entry_row_def)
  have total: "cs_total_balance_atto s = sum_list (map (\<lambda>a. ac_balance (snd a)) A0) + sum_list (map (\<lambda>a. ac_balance (snd a)) A1)"
    unfolding s counts(6) entry_total_def opt_balance_def by (simp only: sum_list_addf sum0 sum1) (simp add: empty_summary_def)
  have len: "cs_shard0_positive s = int (length A0)" "cs_shard1_positive s = int (length A1)"
    unfolding s counts(1, 2) count_if_weigh sum0 sum1 by (simp_all add: empty_summary_def sum_list_triv)
  have uniq: "cs_unique_positive s = int (card (fst ` set A0 \<union> fst ` set A1))"
    unfolding s counts(3) by (simp add: empty_summary_def groups_two both_keys_def)
  have dom: "{k. map_of A0 k \<noteq> None \<and> map_of A1 k \<noteq> None} = fst ` set A0 \<inter> fst ` set A1"
    by (auto simp: map_of_eq_None_iff)
  have "set (filter (\<lambda>k. map_of A0 k \<noteq> None \<and> map_of A1 k \<noteq> None) (both_keys A0 A1)) = fst ` set A0 \<inter> fst ` set A1"
    using dom by (auto simp: both_keys_def)
  moreover have "distinct (filter (\<lambda>k. map_of A0 k \<noteq> None \<and> map_of A1 k \<noteq> None) (both_keys A0 A1))"
    by (simp add: both_keys_def)
  ultimately have over: "cs_positive_overlap s = int (card (fst ` set A0 \<inter> fst ` set A1))"
    unfolding s counts(4) groups_two filter_map_len by (simp add: empty_summary_def flip: distinct_card)
  have qual: "cs_unique_qualifying_after_sum s =
      int (length (filter (\<lambda>k. opt_balance (map_of A0 k) + opt_balance (map_of A1 k) > ca_threshold_atto args) (both_keys A0 A1)))"
    unfolding s counts(5) groups_two filter_map_len by (simp add: empty_summary_def entry_total_def)
  show ?thesis using A fs' rows total len uniq over qual classes [folded s] by (auto simp: empty_summary_def)
qed

theorem census_merge_counts_witness:
  "\<exists>fs' s. census_merge sample_shards sample_census = (fs', Inr s) \<and> cs_total_balance_atto s = 19 \<and>
     cs_unique_positive s = 3 \<and> cs_positive_overlap s = 1 \<and> cs_unique_qualifying_after_sum s = 1"
proof -
  obtain st where "census_run sample_shards sample_census = Inr (sample_shard ''k2'' ''7'', sample_shard ''k3'' ''2'', st)"
    using census_run_returns [OF sample_census_free sample_shard_rows sample_agree] by blast
  then obtain fs' s where run: "census_merge sample_shards sample_census = (fs', Inr s)"
    using sample_census_paths by (simp add: census_merge_def Let_def)
  have inj: "map Inr xs = map Inr ys \<longleftrightarrow> xs = ys" for xs ys :: "(string \<times> account) list"
    by (simp add: inj_map_eq_map inj_on_def)
  have "ca_output sample_census \<noteq> ca_summary_output sample_census" by (simp add: sample_census_def)
  from census_merge_counts [OF run this] show ?thesis
    unfolding sample_census_free(3, 4)
    by (clarsimp simp: run sample_shard_rows inj sample_counts)
      (simp add: sample_accounts_def sample_census_def opt_balance_def)
qed

text \<open>
  C34. The census stops only for the reasons the code names: with free output paths and two exports that read to their
  end, it returns exactly when the accounts agree on the address wherever both shards give one and the output path is not
  the partial path of the summary. When it does not return, every file is as it was before.
\<close>

theorem census_merge_returns:
  assumes "\<not> taken fs (ca_output args)" "\<not> taken fs (ca_summary_output args)"
    and "fs (ca_shard0 args) = Some text0" "fs (ca_shard1 args) = Some text1"
    and "account_rows (dict_reader text0) = map Inr A0" "account_rows (dict_reader text1) = map Inr A1"
  shows "((\<exists>fs' s. census_merge fs args = (fs', Inr s)) \<longleftrightarrow>
      list_all (\<lambda>k. addresses_agree (map_of A0 k) (map_of A1 k)) (both_keys A0 A1) \<and>
      ca_output args \<noteq> ca_summary_output args @ ''.partial'') \<and>
    (isl (snd (census_merge fs args)) \<longrightarrow> fst (census_merge fs args) = fs)"
proof (rule conjI)
  have free: "fs (partial (ca_summary_output args)) = None" "fs (partial (ca_output args)) = None" "fs (ca_output args) = None"
    using assms(1, 2) by (simp_all add: taken_def)
  have agree: "list_all (\<lambda>k. addresses_agree (map_of A0 k) (map_of A1 k)) (both_keys A0 A1)"
    if "census_run fs args = Inr (t0, t1, st)" for t0 t1 st
  proof -
    from that obtain B0 B1 where "account_rows (dict_reader text0) = map Inr B0" "account_rows (dict_reader text1) = map Inr B1"
      and fold: "census_fold (ca_threshold_atto args) \<lparr>ce_summary = empty_summary, ce_rows = []\<rparr> (groups [B0, B1]) = Inr st"
      using assms(3, 4) by (auto elim: census_run_Inr)
    then have "B0 = A0" "B1 = A1" using assms(5, 6) by (simp_all add: inj_map_eq_map inj_on_def)
    with census_fold_rows(2) [OF fold] show ?thesis by (simp add: groups_two list_all_iff)
  qed
  have returns: "\<exists>st. census_run fs args = Inr (text0, text1, st)"
    if "list_all (\<lambda>k. addresses_agree (map_of A0 k) (map_of A1 k)) (both_keys A0 A1)"
    using that by (intro census_run_returns [OF assms]) (auto simp: list_all_iff both_keys_def)
  show "(\<exists>fs' s. census_merge fs args = (fs', Inr s)) \<longleftrightarrow>
      list_all (\<lambda>k. addresses_agree (map_of A0 k) (map_of A1 k)) (both_keys A0 A1) \<and>
      ca_output args \<noteq> ca_summary_output args @ ''.partial''"
    using agree returns free(1)
    by (cases "census_run fs args") (fastforce simp: census_merge_def Let_def partial_def split: if_splits)+
  show "isl (snd (census_merge fs args)) \<longrightarrow> fst (census_merge fs args) = fs"
  proof (cases "census_run fs args")
    case (Inr x)
    have "(fs(ca_output args := v))(partial (ca_output args) := None, partial (ca_summary_output args) := None) = fs"
      if "partial (ca_summary_output args) = ca_output args" for v
      using that free by (auto simp: fun_eq_iff)
    with Inr free(1) show ?thesis by (cases x) (auto simp: census_merge_def Let_def)
  qed (simp add: census_merge_def)
qed

theorem census_merge_returns_witness:
  "(\<exists>fs' s. census_merge sample_shards sample_census = (fs', Inr s)) \<and>
   \<not> (\<exists>fs' s. census_merge sample_shards (sample_census\<lparr>ca_output := ''out.json.partial''\<rparr>) = (fs', Inr s))"
proof -
  have agree: "list_all (\<lambda>k. addresses_agree (map_of (sample_accounts ''k2'' 7) k) (map_of (sample_accounts ''k3'' 2) k))
      (both_keys (sample_accounts ''k2'' 7) (sample_accounts ''k3'' 2))"
    unfolding sample_counts by code_simp
  have free: "\<not> taken sample_shards (ca_output (sample_census\<lparr>ca_output := ''out.json.partial''\<rparr>))"
    "\<not> taken sample_shards (ca_summary_output (sample_census\<lparr>ca_output := ''out.json.partial''\<rparr>))"
    "sample_shards (ca_shard0 (sample_census\<lparr>ca_output := ''out.json.partial''\<rparr>)) = Some (sample_shard ''k2'' ''7'')"
    "sample_shards (ca_shard1 (sample_census\<lparr>ca_output := ''out.json.partial''\<rparr>)) = Some (sample_shard ''k3'' ''2'')"
    by (simp_all add: taken_def partial_def sample_shards_def sample_census_def)
  have out: "ca_output sample_census \<noteq> ca_summary_output sample_census @ ''.partial''"
    "ca_summary_output sample_census @ ''.partial'' = ''out.json.partial''" by (simp_all add: sample_census_def)
  show ?thesis
    using census_merge_returns [OF sample_census_free sample_shard_rows] census_merge_returns [OF free sample_shard_rows] agree out
    by simp
qed

end
