(* ===== verification/Supply.thy ===== *)
theory Supply
  imports Merge Files
begin

text \<open>
  \<^verbatim>\<open>toolkit/scripts/claims/actual-supply-ledger.py\<close>: the liquid balances of the two shards, the staking
  positions and the pending cross-shard receipts are merged by secure key into one claim per account, split into
  what is paid to the wallet and what goes to the staking vault. The loop over the four cursors is the shared merge;
  the receipts take part with their sorted keys, and their claim is looked up by key as in the source.
\<close>

section \<open>Inputs\<close>

definition supply_key :: "csv_row \<Rightarrow> string result" where
  "supply_key r = bindR (text_field r ''secure_key'') (\<lambda>k. Inr (lower k))"

definition supply_row :: "string \<Rightarrow> csv_row \<Rightarrow> csv_row result" where
  "supply_row key r =
     bindR (if get_or_empty r ''address'' \<noteq> []
            then bindR (require_address_secure_key (get_or_empty r ''address'') key) (\<lambda>_. Inr ()) else Inr ()) (\<lambda>_.
       Inr (dict_set ''secure_key'' (Some key) r))"

definition supply_rows :: "csv_row list \<Rightarrow> (string \<times> csv_row) result list" where
  "supply_rows = sorted_gen supply_key supply_row None"

record pending_claim =
  pc_address :: string
  pc_amount :: int

definition json_address :: "json \<Rightarrow> string result" where
  "json_address j = (if json_falsy j then Inl (ValueError ''invalid address'') else json_text j)"

definition add_receipt :: "(string, pending_claim) dict \<times> int \<Rightarrow> json \<Rightarrow> ((string, pending_claim) dict \<times> int) result" where
  "add_receipt st receipt =
     (case st of (pending, tot) \<Rightarrow>
        bindR (bindR (json_item receipt ''secure_key'') json_text) (\<lambda>k.
        let key = lower k in
        bindR (bindR (json_item receipt ''to'') json_address) (\<lambda>address.
        bindR (require_address_secure_key address key) (\<lambda>_.
        bindR (bindR (json_item receipt ''amount_atto'') json_int) (\<lambda>amount.
        if amount < 0 then Inl (ValueError ''negative receipt amount'')
        else
          let entry = (case dict_get pending key of Some e \<Rightarrow> e | None \<Rightarrow> \<lparr>pc_address = address, pc_amount = 0\<rparr>) in
          if lower (pc_address entry) \<noteq> lower address then Inl (ValueError ''receipt address mismatch'')
          else Inr (dict_set key (entry\<lparr>pc_amount := pc_amount entry + amount\<rparr>) pending, tot + amount))))))"

definition add_group :: "(string, pending_claim) dict \<times> int \<Rightarrow> json \<Rightarrow> ((string, pending_claim) dict \<times> int) result" where
  "add_group st grp = bindR (bindR (json_get grp ''receipts'') json_list_or_empty) (foldM add_receipt st)"

definition add_direction :: "(string, pending_claim) dict \<times> int \<Rightarrow> json \<Rightarrow> ((string, pending_claim) dict \<times> int) result" where
  "add_direction st direction = bindR (bindR (json_get direction ''pending_groups'') json_list_or_empty) (foldM add_group st)"

definition load_pending_receipts :: "string \<Rightarrow> ((string, pending_claim) dict \<times> json) result" where
  "load_pending_receipts content =
     bindR (loads content) (\<lambda>report.
     bindR (bindR (json_item report ''directions'') json_list) (\<lambda>directions.
     bindR (foldM add_direction ([], 0) directions) (\<lambda>(pending, tot).
     bindR (bindR (json_item report ''pending_active_atto'') json_int) (\<lambda>expected.
       if tot \<noteq> expected then Inl (ValueError ''pending receipt sum differs from the report'')
       else Inr (pending, report)))))"

section \<open>One account\<close>

definition int_field :: "csv_row option \<Rightarrow> string \<Rightarrow> int result" where
  "int_field r name =
     (case r of
        None \<Rightarrow> Inr 0
      | Some r \<Rightarrow> bindR (int_of_field r name) (\<lambda>v. if v < 0 then Inl (ValueError ''negative field'') else Inr v))"

definition opt_value :: "csv_row option \<Rightarrow> string \<Rightarrow> string result" where
  "opt_value r name = (case r of None \<Rightarrow> Inr [] | Some r \<Rightarrow> value_field r name)"

record claim_entry =
  ce_key :: string
  ce_address :: string
  ce_liquid0 :: int
  ce_liquid1 :: int
  ce_active :: int
  ce_undelegation :: int
  ce_reward :: int
  ce_pending_receipt :: int
  ce_liquid :: int
  ce_wallet_airdrop :: int
  ce_staked_to_vault :: int
  ce_total_claim :: int
  ce_nonces :: "string \<times> string"
  ce_code_hashes :: "string \<times> string"

definition merged_address :: "string \<Rightarrow> string list \<Rightarrow> string result" where
  "merged_address key values =
     (case filter (\<lambda>a. a \<noteq> []) values of
        [] \<Rightarrow> Inr []
      | address # others \<Rightarrow>
          if \<exists>a \<in> set others. lower a \<noteq> lower address then Inl (ValueError ''address mismatch'')
          else bindR (require_address_secure_key address key) (\<lambda>_. Inr address))"

definition claim_of :: "(string, pending_claim) dict \<Rightarrow> string \<Rightarrow> csv_row option \<Rightarrow> csv_row option \<Rightarrow> csv_row option \<Rightarrow> claim_entry result" where
  "claim_of receipt_claims key current0 current1 current_stake =
     (let current_receipt = dict_get receipt_claims key in
      bindR (opt_value current0 ''address'') (\<lambda>address0.
      bindR (opt_value current1 ''address'') (\<lambda>address1.
      bindR (opt_value current_stake ''address'') (\<lambda>address2.
      bindR (merged_address key [address0, address1, address2,
               (case current_receipt of None \<Rightarrow> [] | Some c \<Rightarrow> pc_address c)]) (\<lambda>address.
      bindR (int_field current0 ''balance_atto'') (\<lambda>liquid0.
      bindR (int_field current1 ''balance_atto'') (\<lambda>liquid1.
      bindR (int_field current_stake ''active_delegation_atto'') (\<lambda>active.
      bindR (int_field current_stake ''pending_undelegation_atto'') (\<lambda>undelegation.
      bindR (int_field current_stake ''unclaimed_reward_atto'') (\<lambda>reward.
      let pending_receipt = weigh pc_amount current_receipt;
          liquid = liquid0 + liquid1;
          wallet_airdrop = liquid + undelegation + reward + pending_receipt;
          staked_to_vault = active;
          total_claim = wallet_airdrop + staked_to_vault
      in if total_claim \<le> 0 then Inl (ValueError ''non-positive merged claim'')
         else
           bindR (opt_value current0 ''nonce'') (\<lambda>nonce0.
           bindR (opt_value current1 ''nonce'') (\<lambda>nonce1.
           bindR (opt_value current0 ''code_hash'') (\<lambda>code0.
           bindR (opt_value current1 ''code_hash'') (\<lambda>code1.
             Inr \<lparr>ce_key = key, ce_address = address, ce_liquid0 = liquid0, ce_liquid1 = liquid1, ce_active = active,
                  ce_undelegation = undelegation, ce_reward = reward, ce_pending_receipt = pending_receipt,
                  ce_liquid = liquid, ce_wallet_airdrop = wallet_airdrop, ce_staked_to_vault = staked_to_vault,
                  ce_total_claim = total_claim, ce_nonces = (nonce0, nonce1), ce_code_hashes = (code0, code1)\<rparr>))))))))))))))"

definition claim_row :: "claim_entry \<Rightarrow> string list" where
  "claim_row e =
     [ce_key e, ce_address e, str_int (ce_liquid0 e), str_int (ce_liquid1 e), str_int (ce_liquid e), str_int (ce_active e),
      str_int (ce_undelegation e), str_int (ce_reward e), str_int (ce_pending_receipt e), str_int (ce_wallet_airdrop e),
      str_int (ce_staked_to_vault e), str_int (ce_total_claim e),
      fst (ce_nonces e), snd (ce_nonces e), fst (ce_code_hashes e), snd (ce_code_hashes e)]"

section \<open>The loop\<close>

record supply_summary =
  su_rows :: int
  su_rows_without_address :: int
  su_liquid_shard0_atto :: int
  su_liquid_shard1_atto :: int
  su_active_delegation_atto :: int
  su_pending_undelegation_atto :: int
  su_unclaimed_reward_atto :: int
  su_pending_cross_shard_atto :: int
  su_wallet_airdrop_atto :: int
  su_staked_to_vault_atto :: int
  su_total_claim_atto :: int

definition zero_supply :: supply_summary where
  "zero_supply = \<lparr>su_rows = 0, su_rows_without_address = 0, su_liquid_shard0_atto = 0, su_liquid_shard1_atto = 0,
     su_active_delegation_atto = 0, su_pending_undelegation_atto = 0, su_unclaimed_reward_atto = 0,
     su_pending_cross_shard_atto = 0, su_wallet_airdrop_atto = 0, su_staked_to_vault_atto = 0, su_total_claim_atto = 0\<rparr>"

definition add_claim :: "supply_summary \<Rightarrow> claim_entry \<Rightarrow> supply_summary" where
  "add_claim s e =
     \<lparr>su_rows = su_rows s + 1,
      su_rows_without_address = su_rows_without_address s + of_bool (ce_address e = []),
      su_liquid_shard0_atto = su_liquid_shard0_atto s + ce_liquid0 e,
      su_liquid_shard1_atto = su_liquid_shard1_atto s + ce_liquid1 e,
      su_active_delegation_atto = su_active_delegation_atto s + ce_active e,
      su_pending_undelegation_atto = su_pending_undelegation_atto s + ce_undelegation e,
      su_unclaimed_reward_atto = su_unclaimed_reward_atto s + ce_reward e,
      su_pending_cross_shard_atto = su_pending_cross_shard_atto s + ce_pending_receipt e,
      su_wallet_airdrop_atto = su_wallet_airdrop_atto s + ce_wallet_airdrop e,
      su_staked_to_vault_atto = su_staked_to_vault_atto s + ce_staked_to_vault e,
      su_total_claim_atto = su_total_claim_atto s + ce_total_claim e\<rparr>"

definition supply_step :: "(string, pending_claim) dict \<Rightarrow> supply_summary \<times> string list list \<Rightarrow> string \<Rightarrow> csv_row option list \<Rightarrow>
    (supply_summary \<times> string list list) result" where
  "supply_step receipt_claims st key currents =
     bindR (claim_of receipt_claims key (currents ! 0) (currents ! 1) (currents ! 2)) (\<lambda>e.
       Inr (add_claim (fst st) e, snd st @ [claim_row e]))"

definition receipt_stream :: "(string, pending_claim) dict \<Rightarrow> (string \<times> csv_row) result list" where
  "receipt_stream receipt_claims = map (\<lambda>k. Inr (k, [])) (sort (dict_keys receipt_claims))"

section \<open>The command\<close>

record supply_args =
  pa_shard0_liquid :: string
  pa_shard1_liquid :: string
  pa_staking :: string
  pa_receipts :: string
  pa_output :: string
  pa_summary_output :: string

definition SUPPLY_HEADER :: "string list" where
  "SUPPLY_HEADER = [''secure_key'', ''address'', ''liquid_shard0_atto'', ''liquid_shard1_atto'', ''liquid_total_atto'',
     ''active_delegation_atto'', ''pending_undelegation_atto'', ''unclaimed_reward_atto'', ''pending_cross_shard_atto'',
     ''wallet_airdrop_atto'', ''staked_to_vault_atto'', ''total_claim_atto'', ''nonce_shard0'', ''nonce_shard1'',
     ''code_hash_shard0'', ''code_hash_shard1'']"

definition supply_json :: "supply_args \<Rightarrow> string list \<Rightarrow> json \<Rightarrow> string \<Rightarrow> supply_summary \<Rightarrow> json" where
  "supply_json args texts unknown output s = JObj
     [(''input_sha256'', JObj (zip [''shard0_liquid'', ''shard1_liquid'', ''staking'', ''receipts'']
        (map (\<lambda>t. JStr (text_sha256 t)) texts))),
      (''rows'', JInt (su_rows s)),
      (''rows_without_address'', JInt (su_rows_without_address s)),
      (''liquid_shard0_atto'', JStr (str_int (su_liquid_shard0_atto s))),
      (''liquid_shard1_atto'', JStr (str_int (su_liquid_shard1_atto s))),
      (''active_delegation_atto'', JStr (str_int (su_active_delegation_atto s))),
      (''pending_undelegation_atto'', JStr (str_int (su_pending_undelegation_atto s))),
      (''unclaimed_reward_atto'', JStr (str_int (su_unclaimed_reward_atto s))),
      (''pending_cross_shard_atto'', JStr (str_int (su_pending_cross_shard_atto s))),
      (''wallet_airdrop_atto'', JStr (str_int (su_wallet_airdrop_atto s))),
      (''staked_to_vault_atto'', JStr (str_int (su_staked_to_vault_atto s))),
      (''total_claim_atto'', JStr (str_int (su_total_claim_atto s))),
      (''retired_shard_receipt_status_unknown_atto'', unknown),
      (''output_path'', JStr (pa_output args)),
      (''output_sha256'', JStr (text_sha256 output))]"

definition supply_run :: "files \<Rightarrow> supply_args \<Rightarrow> (string list \<times> json \<times> supply_summary \<times> string list list) result" where
  "supply_run fs args =
     (if taken fs (pa_output args) \<or> taken fs (pa_summary_output args)
      then Inl (FileExistsError ''refusing to overwrite'')
      else
        bindR (read_text fs (pa_shard0_liquid args)) (\<lambda>text0.
        bindR (read_text fs (pa_shard1_liquid args)) (\<lambda>text1.
        bindR (read_text fs (pa_staking args)) (\<lambda>text2.
        bindR (read_text fs (pa_receipts args)) (\<lambda>text3.
        bindR (load_pending_receipts text3) (\<lambda>(receipt_claims, receipt_report).
        bindR (mapM next_or_none [supply_rows (dict_reader text0), supply_rows (dict_reader text1),
                 supply_rows (dict_reader text2), receipt_stream receipt_claims]) (\<lambda>cursors.
        bindR (json_item receipt_report ''unsupported_pending_atto'') (\<lambda>unknown.
        bindR (merge_fold (supply_step receipt_claims) (zero_supply, []) cursors) (\<lambda>(s, rows).
          Inr ([text0, text1, text2, text3], unknown, s, rows))))))))))"

text \<open>As in the census, the partial file of the summary is opened after the output got its name, and an error removes
  both partial names.\<close>

definition supply_merge :: "files \<Rightarrow> supply_args \<Rightarrow> files \<times> supply_summary result" where
  "supply_merge fs args =
     (case supply_run fs args of
        Inl e \<Rightarrow> (fs, Inl e)
      | Inr (texts, unknown, s, rows) \<Rightarrow>
          let output = csv_text (SUPPLY_HEADER # rows);
              fs' = fs(pa_output args \<mapsto> output)
          in if fs' (partial (pa_summary_output args)) \<noteq> None
             then (fs'(partial (pa_output args) := None, partial (pa_summary_output args) := None),
                   Inl (FileExistsError (partial (pa_summary_output args))))
             else (fs'(pa_summary_output args \<mapsto> json_file 2 (supply_json args texts unknown output s)), Inr s))"

section \<open>Conservation\<close>

interpretation supply_source: sorted_source supply_rows
  unfolding supply_rows_def by (rule sorted_gen_source.sorted_source_axioms)

text \<open>The claims of the receipts add up to the total that the loader checks against the report.\<close>

definition receipts_ok :: "(string, pending_claim) dict \<times> int \<Rightarrow> bool" where
  "receipts_ok st \<longleftrightarrow> distinct (dict_keys (fst st)) \<and> snd st = sum_list (map (\<lambda>x. pc_amount (snd x)) (fst st))
     \<and> (\<forall>x \<in> set (fst st). 0 \<le> pc_amount (snd x))"

lemma add_receipt_ok:
  assumes "add_receipt st r = Inr st'" "receipts_ok st"
  shows "receipts_ok st'"
proof -
  obtain pending tot where st: "st = (pending, tot)" by (cases st)
  from assms(1) obtain key amount address where amount: "0 \<le> amount"
    and st': "st' = (dict_set key ((case dict_get pending key of Some e \<Rightarrow> e | None \<Rightarrow> \<lparr>pc_address = address, pc_amount = 0\<rparr>)
        \<lparr>pc_amount := pc_amount (case dict_get pending key of Some e \<Rightarrow> e | None \<Rightarrow> \<lparr>pc_address = address, pc_amount = 0\<rparr>) + amount\<rparr>)
        pending, tot + amount)"
    unfolding st add_receipt_def
    by (auto simp: bindR_Inr_iff Let_def simp del: option.case_eq_if split: if_splits)
  define entry where "entry = (case dict_get pending key of Some e \<Rightarrow> e | None \<Rightarrow> \<lparr>pc_address = address, pc_amount = 0\<rparr>)"
  note e = entry_def and st' = st' [folded entry_def]
  have "0 \<le> pc_amount entry" using assms(2) e by (cases "dict_get pending key") (auto simp: receipts_ok_def st dest: map_of_SomeD)
  moreover have "(case map_of pending key of None \<Rightarrow> 0 | Some u \<Rightarrow> pc_amount u) = pc_amount entry"
    using e by (cases "dict_get pending key") auto
  ultimately show ?thesis
    using assms(2) amount by (auto simp: receipts_ok_def st st' distinct_dict_set sum_list_dict_set dest!: dict_set_mem)
qed

lemma add_group_ok: "add_group st g = Inr st' \<Longrightarrow> receipts_ok st \<Longrightarrow> receipts_ok st'"
  by (auto simp: add_group_def bindR_Inr_iff elim: foldM_keeps [where I = receipts_ok] intro: add_receipt_ok)

lemma add_direction_ok: "add_direction st d = Inr st' \<Longrightarrow> receipts_ok st \<Longrightarrow> receipts_ok st'"
  by (auto simp: add_direction_def bindR_Inr_iff elim: foldM_keeps [where I = receipts_ok] intro: add_group_ok)

lemma load_pending_receipts_ok:
  assumes "load_pending_receipts content = Inr (claims, report)"
  shows "distinct (dict_keys claims)" "\<forall>x \<in> set claims. 0 \<le> pc_amount (snd x)"
    "bindR (json_item report ''pending_active_atto'') json_int = Inr (sum_list (map (\<lambda>x. pc_amount (snd x)) claims))"
    "loads content = Inr report"
proof -
  from assms obtain directions tot where f: "foldM add_direction ([], 0) directions = Inr (claims, tot)"
    and r: "bindR (json_item report ''pending_active_atto'') json_int = Inr tot" "loads content = Inr report"
    by (auto simp: load_pending_receipts_def bindR_Inr_iff split: if_splits)
  have "receipts_ok (claims, tot)"
    by (rule foldM_keeps [OF f add_direction_ok]) (auto simp: receipts_ok_def)
  with r show "distinct (dict_keys claims)" "\<forall>x \<in> set claims. 0 \<le> pc_amount (snd x)"
    "bindR (json_item report ''pending_active_atto'') json_int = Inr (sum_list (map (\<lambda>x. pc_amount (snd x)) claims))"
    "loads content = Inr report"
    by (auto simp: receipts_ok_def)
qed

text \<open>The loop is the claims of the merged keys, added up.\<close>

abbreviation entry_claim :: "(string, pending_claim) dict \<Rightarrow> string \<times> csv_row option list \<Rightarrow> claim_entry result" where
  "entry_claim claims g \<equiv> claim_of claims (fst g) (snd g ! 0) (snd g ! 1) (snd g ! 2)"

lemma supply_fold:
  "foldM (\<lambda>s (k, vs). supply_step claims s k vs) (s, rows) gs =
     bindR (mapM (entry_claim claims) gs) (\<lambda>es. Inr (foldl add_claim s es, rows @ map claim_row es))"
  by (induction gs arbitrary: s rows) (simp_all add: supply_step_def case_prod_beta bindR_assoc)

lemma foldl_add_claim:
  "su_rows (foldl add_claim s es) = su_rows s + int (length es)"
  "su_liquid_shard0_atto (foldl add_claim s es) = su_liquid_shard0_atto s + sum_list (map ce_liquid0 es)"
  "su_liquid_shard1_atto (foldl add_claim s es) = su_liquid_shard1_atto s + sum_list (map ce_liquid1 es)"
  "su_active_delegation_atto (foldl add_claim s es) = su_active_delegation_atto s + sum_list (map ce_active es)"
  "su_pending_undelegation_atto (foldl add_claim s es) = su_pending_undelegation_atto s + sum_list (map ce_undelegation es)"
  "su_unclaimed_reward_atto (foldl add_claim s es) = su_unclaimed_reward_atto s + sum_list (map ce_reward es)"
  "su_pending_cross_shard_atto (foldl add_claim s es) = su_pending_cross_shard_atto s + sum_list (map ce_pending_receipt es)"
  "su_wallet_airdrop_atto (foldl add_claim s es) = su_wallet_airdrop_atto s + sum_list (map ce_wallet_airdrop es)"
  "su_staked_to_vault_atto (foldl add_claim s es) = su_staked_to_vault_atto s + sum_list (map ce_staked_to_vault es)"
  "su_total_claim_atto (foldl add_claim s es) = su_total_claim_atto s + sum_list (map ce_total_claim es)"
  by (induction es arbitrary: s) (simp_all add: add_claim_def)

lemma int_field_Inr: "int_field r name = Inr v \<Longrightarrow> v = weigh (field_value name) r \<and> 0 \<le> v"
  by (auto simp: int_field_def field_value_def bindR_Inr_iff split: option.splits if_splits)

text \<open>What a claim is made of.\<close>

lemma claim_of_Inr:
  assumes "claim_of claims key a b c = Inr e"
  shows "ce_key e = key"
    "ce_liquid0 e = weigh (field_value ''balance_atto'') a" "ce_liquid1 e = weigh (field_value ''balance_atto'') b"
    "ce_active e = weigh (field_value ''active_delegation_atto'') c"
    "ce_undelegation e = weigh (field_value ''pending_undelegation_atto'') c"
    "ce_reward e = weigh (field_value ''unclaimed_reward_atto'') c"
    "ce_pending_receipt e = weigh pc_amount (dict_get claims key)"
    "ce_liquid e = ce_liquid0 e + ce_liquid1 e"
    "ce_wallet_airdrop e = ce_liquid e + ce_undelegation e + ce_reward e + ce_pending_receipt e"
    "ce_staked_to_vault e = ce_active e"
    "ce_total_claim e = ce_wallet_airdrop e + ce_staked_to_vault e" "0 < ce_total_claim e"
  using assms by (auto simp: claim_of_def Let_def bindR_Inr_iff split: if_splits dest!: int_field_Inr)

definition stream_total :: "string \<Rightarrow> (string \<times> csv_row) list \<Rightarrow> int" where
  "stream_total name xs = sum_list (map (\<lambda>x. field_value name (snd x)) xs)"

lemma supply_run_Inr:
  assumes "supply_run fs args = Inr (texts, unknown, s, rows)"
  obtains text0 text1 text2 text3 claims report L0 L1 ST es where
    "fs (pa_shard0_liquid args) = Some text0" "fs (pa_shard1_liquid args) = Some text1"
    "fs (pa_staking args) = Some text2" "fs (pa_receipts args) = Some text3"
    "load_pending_receipts text3 = Inr (claims, report)"
    "supply_rows (dict_reader text0) = map Inr L0" "supply_rows (dict_reader text1) = map Inr L1"
    "supply_rows (dict_reader text2) = map Inr ST"
    "list_all2 (\<lambda>g e. entry_claim claims g = Inr e) (groups [L0, L1, ST, map (\<lambda>k. (k, [])) (sort (dict_keys claims))]) es"
    "s = foldl add_claim zero_supply es" "rows = map claim_row es"
proof -
  from assms obtain text0 text1 text2 text3 claims report where
    r: "fs (pa_shard0_liquid args) = Some text0" "fs (pa_shard1_liquid args) = Some text1"
    "fs (pa_staking args) = Some text2" "fs (pa_receipts args) = Some text3"
    "load_pending_receipts text3 = Inr (claims, report)"
    and run: "merge_streams (supply_step claims) (zero_supply, []) [supply_rows (dict_reader text0), supply_rows (dict_reader text1),
         supply_rows (dict_reader text2), receipt_stream claims] = Inr (s, rows)"
    by (auto simp: supply_run_def read_text_def merge_streams_def bindR_Inr_iff of_option_Inr_iff split: if_splits simp del: mapM_Inr_iff mapM.simps)
  note receipts = load_pending_receipts_ok [OF r(5)]
  have stream: "receipt_stream claims = map Inr (map (\<lambda>k. (k, [])) (sort (dict_keys claims)))"
    by (simp add: receipt_stream_def)
  have "sorted_wrt (<) (sort (dict_keys claims))" using receipts(1) by (simp add: strict_sorted_iff)
  then have inc: "increasing (receipt_stream claims)"
    unfolding stream increasing_def yielded_map_Inr by (simp add: o_def)
  obtain xss where xss: "[supply_rows (dict_reader text0), supply_rows (dict_reader text1),
      supply_rows (dict_reader text2), receipt_stream claims] = map (map Inr) xss"
    and fold: "foldM (\<lambda>s (k, vs). supply_step claims s k vs) (zero_supply, []) (groups xss) = Inr (s, rows)"
  proof (rule merge_streams_Inr [OF run])
    show "\<forall>s \<in> set [supply_rows (dict_reader text0), supply_rows (dict_reader text1), supply_rows (dict_reader text2),
        receipt_stream claims]. increasing s"
      using inc by (simp add: supply_source.gen_increasing)
  qed (rule that)
  from xss obtain L0 L1 ST R where L: "xss = [L0, L1, ST, R]" by (auto simp: Cons_eq_map_conv)
  have "map Inr R = map (Inr :: _ \<Rightarrow> _ result) (map (\<lambda>k. (k, [])) (sort (dict_keys claims)))"
    using xss by (simp only: L stream list.map list.inject)
  then have R: "R = map (\<lambda>k. (k, [])) (sort (dict_keys claims))" by (simp add: inj_map_eq_map inj_on_def del: map_map)
  from fold show thesis
    unfolding supply_fold L R using xss r that by (auto simp: bindR_Inr_iff mapM_Inr_iff L)
qed

lemma claim_keys:
  assumes "list_all2 (\<lambda>g e. entry_claim claims g = Inr e) (groups [L0, L1, ST, map (\<lambda>k. (k, [])) (sort (dict_keys claims))]) es"
  shows "map ce_key es = group_keys [L0, L1, ST, map (\<lambda>k. (k, [])) (sort (dict_keys claims))]"
  using list_all2_map_eq [OF assms claim_of_Inr(1)] by simp

lemma claim_sums:
  assumes es: "list_all2 (\<lambda>g e. entry_claim claims g = Inr e) (groups [L0, L1, ST, map (\<lambda>k. (k, [])) (sort (dict_keys claims))]) es"
    and sorted: "sorted_wrt (<) (map fst L0)" "sorted_wrt (<) (map fst L1)" "sorted_wrt (<) (map fst ST)"
    and claims: "distinct (dict_keys claims)"
  shows "sum_list (map ce_liquid0 es) = stream_total ''balance_atto'' L0"
    "sum_list (map ce_liquid1 es) = stream_total ''balance_atto'' L1"
    "sum_list (map ce_active es) = stream_total ''active_delegation_atto'' ST"
    "sum_list (map ce_undelegation es) = stream_total ''pending_undelegation_atto'' ST"
    "sum_list (map ce_reward es) = stream_total ''unclaimed_reward_atto'' ST"
    "sum_list (map ce_pending_receipt es) = sum_list (map (\<lambda>c. pc_amount (snd c)) claims)"
proof -
  let ?R = "map (\<lambda>k. (k, [] :: csv_row)) (sort (dict_keys claims))"
  have sorted': "\<forall>xs \<in> set [L0, L1, ST, ?R]. sorted_wrt (<) (map fst xs)"
    using sorted claims by (simp add: strict_sorted_iff o_def)
  have field: "sum_list (map f es) = stream_total name ([L0, L1, ST, ?R] ! i)"
    if "\<And>g e. entry_claim claims g = Inr e \<Longrightarrow> f e = weigh (field_value name) (snd g ! i)" "i < 4" for f name i
    unfolding stream_total_def using list_all2_sums [OF es that(1)] sum_groups [OF sorted', of i "field_value name"] that(2) by simp
  show "sum_list (map ce_liquid0 es) = stream_total ''balance_atto'' L0"
    using field [of ce_liquid0 "''balance_atto''" 0] claim_of_Inr(2) by simp
  show "sum_list (map ce_liquid1 es) = stream_total ''balance_atto'' L1"
    using field [of ce_liquid1 "''balance_atto''" 1] claim_of_Inr(3) by simp
  show "sum_list (map ce_active es) = stream_total ''active_delegation_atto'' ST"
    using field [of ce_active "''active_delegation_atto''" 2] claim_of_Inr(4) by simp
  show "sum_list (map ce_undelegation es) = stream_total ''pending_undelegation_atto'' ST"
    using field [of ce_undelegation "''pending_undelegation_atto''" 2] claim_of_Inr(5) by simp
  show "sum_list (map ce_reward es) = stream_total ''unclaimed_reward_atto'' ST"
    using field [of ce_reward "''unclaimed_reward_atto''" 2] claim_of_Inr(6) by simp
  have "sum_list (map ce_pending_receipt es) = sum_list (map (\<lambda>k. weigh pc_amount (dict_get claims k)) (group_keys [L0, L1, ST, ?R]))"
    using list_all2_sums [OF es claim_of_Inr(7)] by (simp add: o_def flip: groups_keys)
  also have "\<dots> = sum_list (map (\<lambda>c. pc_amount (snd c)) claims)"
    using claims by (intro sum_lookup) (auto simp: group_keys_def image_image)
  finally show "sum_list (map ce_pending_receipt es) = sum_list (map (\<lambda>c. pc_amount (snd c)) claims)" .
qed

lemma claims_each:
  assumes es: "list_all2 (\<lambda>g e. entry_claim claims g = Inr e) gs es" and "e \<in> set es"
  shows "0 < ce_total_claim e" "ce_wallet_airdrop e = ce_liquid0 e + ce_liquid1 e + ce_undelegation e + ce_reward e + ce_pending_receipt e"
    "ce_staked_to_vault e = ce_active e" "ce_total_claim e = ce_wallet_airdrop e + ce_staked_to_vault e"
proof -
  obtain g where "entry_claim claims g = Inr e" using assms by (induction rule: list_all2_induct) auto
  from claim_of_Inr [OF this] show "0 < ce_total_claim e"
    "ce_wallet_airdrop e = ce_liquid0 e + ce_liquid1 e + ce_undelegation e + ce_reward e + ce_pending_receipt e"
    "ce_staked_to_vault e = ce_active e" "ce_total_claim e = ce_wallet_airdrop e + ce_staked_to_vault e" by simp_all
qed

lemma claims_totals:
  assumes es: "list_all2 (\<lambda>g e. entry_claim claims g = Inr e) gs es"
  shows "sum_list (map ce_total_claim es) = sum_list (map ce_wallet_airdrop es) + sum_list (map ce_staked_to_vault es)"
    "sum_list (map ce_wallet_airdrop es) = sum_list (map ce_liquid0 es) + sum_list (map ce_liquid1 es) + sum_list (map ce_undelegation es)
       + sum_list (map ce_reward es) + sum_list (map ce_pending_receipt es)"
    "sum_list (map ce_staked_to_vault es) = sum_list (map ce_active es)"
proof -
  note each = claims_each [OF es]
  show "sum_list (map ce_total_claim es) = sum_list (map ce_wallet_airdrop es) + sum_list (map ce_staked_to_vault es)"
    using each(4) by (induction es) auto
  show "sum_list (map ce_wallet_airdrop es) = sum_list (map ce_liquid0 es) + sum_list (map ce_liquid1 es) + sum_list (map ce_undelegation es)
       + sum_list (map ce_reward es) + sum_list (map ce_pending_receipt es)"
    using each(2) by (induction es) auto
  show "sum_list (map ce_staked_to_vault es) = sum_list (map ce_active es)"
    using each(3) by (induction es) auto
qed

definition sample_supply :: supply_args where
  "sample_supply = \<lparr>pa_shard0_liquid = ''s0'', pa_shard1_liquid = ''s1'', pa_staking = ''st'', pa_receipts = ''rc'',
     pa_output = ''out'', pa_summary_output = ''sum''\<rparr>"

definition sample_liquid :: "string \<Rightarrow> string" where
  "sample_liquid amount = csv_text [[''secure_key'', ''address'', ''balance_atto'', ''nonce'', ''code_hash''],
     [''0xA1'', [], amount, ''0'', ''0xc0'']]"

definition sample_supply_files :: files where
  "sample_supply_files = [''s0'' \<mapsto> sample_liquid ''7'', ''s1'' \<mapsto> sample_liquid ''2'',
     ''st'' \<mapsto> csv_text [[''secure_key'', ''address'', ''active_delegation_atto'', ''pending_undelegation_atto'', ''unclaimed_reward_atto''],
        [''0xa1'', [], ''3'', ''1'', ''0''], [''0xb2'', [], ''5'', ''0'', ''4'']],
     ''rc'' \<mapsto> json_file 2 (JObj [(''directions'', JArr []), (''pending_active_atto'', JStr ''0''),
        (''unsupported_pending_atto'', JStr ''0'')])]"

lemma sample_supply_run:
  "bindR (supply_run sample_supply_files sample_supply) (\<lambda>(texts, unknown, s, rows). Inr (s, rows)) =
     Inr (\<lparr>su_rows = 2, su_rows_without_address = 2, su_liquid_shard0_atto = 7, su_liquid_shard1_atto = 2,
           su_active_delegation_atto = 8, su_pending_undelegation_atto = 1, su_unclaimed_reward_atto = 4,
           su_pending_cross_shard_atto = 0, su_wallet_airdrop_atto = 14, su_staked_to_vault_atto = 8, su_total_claim_atto = 22\<rparr>,
          [[''0xa1'', [], ''7'', ''2'', ''9'', ''3'', ''1'', ''0'', ''0'', ''10'', ''3'', ''13'', ''0'', ''0'', ''0xc0'', ''0xc0''],
           [''0xb2'', [], ''0'', ''0'', ''0'', ''5'', ''0'', ''4'', ''0'', ''4'', ''5'', ''9'', [], [], [], []]])"
  by code_simp

lemma sample_supply_paths:
  "partial (pa_summary_output sample_supply) \<noteq> pa_output sample_supply" "sample_supply_files (partial (pa_summary_output sample_supply)) = None"
  by (simp_all add: partial_def sample_supply_files_def sample_supply_def)

text \<open>
  C7. The supply ledger conserves every amount. When the merge returns, the four inputs were read to their end; the
  output has one claim per secure key of any of them, in increasing order; every claim is positive and is what its
  wallet receives plus what goes to the vault; the total of the claims is the liquid balances of the two shards plus the
  staking positions plus the pending receipts, the vault part is the active delegation, and the receipts are the
  amount that the receipt report states.
\<close>

theorem supply_conserves:
  assumes "supply_merge fs args = (fs', Inr s)" "pa_output args \<noteq> pa_summary_output args"
  shows "\<exists>text0 text1 text2 text3 L0 L1 ST claims report es.
    fs (pa_shard0_liquid args) = Some text0 \<and> fs (pa_shard1_liquid args) = Some text1 \<and>
    fs (pa_staking args) = Some text2 \<and> fs (pa_receipts args) = Some text3 \<and>
    supply_rows (dict_reader text0) = map Inr L0 \<and> supply_rows (dict_reader text1) = map Inr L1 \<and>
    supply_rows (dict_reader text2) = map Inr ST \<and> load_pending_receipts text3 = Inr (claims, report) \<and>
    fs' (pa_output args) = Some (csv_text (SUPPLY_HEADER # map claim_row es)) \<and>
    map ce_key es = sorted_list_of_set (fst ` set L0 \<union> fst ` set L1 \<union> fst ` set ST \<union> fst ` set claims) \<and>
    (\<forall>e \<in> set es. 0 < ce_total_claim e \<and> ce_total_claim e = ce_wallet_airdrop e + ce_staked_to_vault e) \<and>
    su_total_claim_atto s = stream_total ''balance_atto'' L0 + stream_total ''balance_atto'' L1 +
      stream_total ''active_delegation_atto'' ST + stream_total ''pending_undelegation_atto'' ST +
      stream_total ''unclaimed_reward_atto'' ST + sum_list (map (\<lambda>c. pc_amount (snd c)) claims) \<and>
    su_total_claim_atto s = su_wallet_airdrop_atto s + su_staked_to_vault_atto s \<and>
    su_staked_to_vault_atto s = stream_total ''active_delegation_atto'' ST \<and>
    su_total_claim_atto s = sum_list (map ce_total_claim es) \<and>
    bindR (json_item report ''pending_active_atto'') json_int = Inr (su_pending_cross_shard_atto s)"
proof -
  from assms(1) obtain texts unknown rows where run: "supply_run fs args = Inr (texts, unknown, s, rows)"
    and out: "fs' (pa_output args) = Some (csv_text (SUPPLY_HEADER # rows))"
    using assms(2) by (auto simp: supply_merge_def Let_def split: sum.splits if_splits)
  from run obtain text0 text1 text2 text3 claims report L0 L1 ST es where
    texts: "fs (pa_shard0_liquid args) = Some text0" "fs (pa_shard1_liquid args) = Some text1"
    "fs (pa_staking args) = Some text2" "fs (pa_receipts args) = Some text3"
    and rc: "load_pending_receipts text3 = Inr (claims, report)"
    and L: "supply_rows (dict_reader text0) = map Inr L0" "supply_rows (dict_reader text1) = map Inr L1"
    "supply_rows (dict_reader text2) = map Inr ST"
    and es: "list_all2 (\<lambda>g e. entry_claim claims g = Inr e) (groups [L0, L1, ST, map (\<lambda>k. (k, [])) (sort (dict_keys claims))]) es"
    and s: "s = foldl add_claim zero_supply es" and rows: "rows = map claim_row es"
    by (rule supply_run_Inr)
  have sorted: "sorted_wrt (<) (map fst L0)" "sorted_wrt (<) (map fst L1)" "sorted_wrt (<) (map fst ST)"
    using L supply_source.drained_sorted by blast+
  note receipts = load_pending_receipts_ok [OF rc]
  note f = claim_sums [OF es sorted receipts(1)] and each = claims_each [OF es] and sums = claims_totals [OF es]
  let ?zero = zero_supply
  have zero: "su_total_claim_atto ?zero = 0" "su_wallet_airdrop_atto ?zero = 0" "su_staked_to_vault_atto ?zero = 0" "su_pending_cross_shard_atto ?zero = 0"
    by (simp_all add: zero_supply_def)
  have s': "su_total_claim_atto s = sum_list (map ce_total_claim es)" "su_wallet_airdrop_atto s = sum_list (map ce_wallet_airdrop es)"
    "su_staked_to_vault_atto s = sum_list (map ce_staked_to_vault es)" "su_pending_cross_shard_atto s = sum_list (map ce_pending_receipt es)"
    unfolding s foldl_add_claim zero by simp_all
  have keys: "map ce_key es = sorted_list_of_set (fst ` set L0 \<union> fst ` set L1 \<union> fst ` set ST \<union> fst ` set claims)"
    unfolding claim_keys [OF es] group_keys_def by (simp add: image_image Un_assoc)
  have sum: "su_total_claim_atto s = stream_total ''balance_atto'' L0 + stream_total ''balance_atto'' L1 +
      stream_total ''active_delegation_atto'' ST + stream_total ''pending_undelegation_atto'' ST +
      stream_total ''unclaimed_reward_atto'' ST + sum_list (map (\<lambda>c. pc_amount (snd c)) claims)"
    unfolding s' sums f by simp
  have parts: "su_total_claim_atto s = su_wallet_airdrop_atto s + su_staked_to_vault_atto s"
    "su_staked_to_vault_atto s = stream_total ''active_delegation_atto'' ST"
    "bindR (json_item report ''pending_active_atto'') json_int = Inr (su_pending_cross_shard_atto s)"
    unfolding s' using sums f receipts(3) by simp_all
  show ?thesis
    by (intro exI conjI ballI; (fact texts rc L out [unfolded rows] keys each sum parts s'))
qed

theorem supply_conserves_witness:
  "\<exists>fs' s. supply_merge sample_supply_files sample_supply = (fs', Inr s) \<and> su_total_claim_atto s = 22 \<and>
     su_total_claim_atto s = su_wallet_airdrop_atto s + su_staked_to_vault_atto s"
proof -
  obtain texts unknown s rows where run: "supply_run sample_supply_files sample_supply = Inr (texts, unknown, s, rows)"
    and "su_total_claim_atto s = 22" using sample_supply_run by (auto simp: bindR_Inr_iff)
  then obtain fs' where m: "supply_merge sample_supply_files sample_supply = (fs', Inr s)"
    using sample_supply_paths by (simp add: supply_merge_def Let_def)
  have "pa_output sample_supply \<noteq> pa_summary_output sample_supply" by (simp add: sample_supply_def)
  from supply_conserves [OF m this] m \<open>su_total_claim_atto s = 22\<close> show ?thesis by blast
qed

end
