(* ===== verification/ClaimCsvs.thy ===== *)
theory ClaimCsvs
  imports Merge Files Amounts
begin

text \<open>
  \<^verbatim>\<open>toolkit/scripts/claims/migration-claim-csvs.py\<close>: the supply ledger and the list of the originally
  qualifying accounts are merged by secure key into the claim tables with ONE and USD amounts. The amounts of a ledger
  row are checked against each other before they are written.
\<close>

section \<open>The amounts of a row\<close>

definition COMPONENTS :: "string list" where
  "COMPONENTS = [''liquid_shard0'', ''liquid_shard1'', ''liquid_total'', ''active_staked_or_delegated'', ''pending_undelegation'',
     ''unclaimed_staking_reward'', ''pending_cross_shard'', ''wallet_airdrop'', ''staked_to_vault'', ''total_claim'']"

definition ACTUAL_FIELDS :: "(string, string) dict" where
  "ACTUAL_FIELDS =
     [(''liquid_shard0'', ''liquid_shard0_atto''), (''liquid_shard1'', ''liquid_shard1_atto''),
      (''liquid_total'', ''liquid_total_atto''), (''active_staked_or_delegated'', ''active_delegation_atto''),
      (''pending_undelegation'', ''pending_undelegation_atto''), (''unclaimed_staking_reward'', ''unclaimed_reward_atto''),
      (''pending_cross_shard'', ''pending_cross_shard_atto''), (''wallet_airdrop'', ''wallet_airdrop_atto''),
      (''staked_to_vault'', ''staked_to_vault_atto''), (''total_claim'', ''total_claim_atto'')]"

type_synonym amounts = "(string, int) dict"

definition component :: "amounts \<Rightarrow> string \<Rightarrow> int result" where
  "component values c = of_option (KeyError c) (dict_get values c)"

definition present :: "csv_row \<Rightarrow> string \<Rightarrow> bool" where
  "present r name \<longleftrightarrow> dict_get r name \<noteq> None \<and> dict_get r name \<noteq> Some (Some [])"

definition set_expected :: "amounts \<Rightarrow> string \<times> int \<Rightarrow> amounts result" where
  "set_expected values expected =
     (case expected of (c, amount) \<Rightarrow>
        if dict_get values c \<noteq> None \<and> dict_get values c \<noteq> Some amount then Inl (ValueError ''component mismatch'')
        else Inr (dict_set c amount values))"

definition read_amounts :: "csv_row \<Rightarrow> amounts result" where
  "read_amounts r =
     mapM (\<lambda>(c, name). bindR (int_of_field r name) (\<lambda>v. Inr (c, v)))
       (filter (\<lambda>(c, name). present r name) ACTUAL_FIELDS)"

definition actual_values :: "csv_row option \<Rightarrow> amounts result" where
  "actual_values row =
     (case row of
        None \<Rightarrow> Inr (map (\<lambda>c. (c, 0)) COMPONENTS)
      | Some r \<Rightarrow>
          bindR (read_amounts r) (\<lambda>values.
          if \<exists>v \<in> set (dict_values values). v < 0 then Inl (ValueError ''negative claim component'')
          else
            bindR (component values ''liquid_total'') (\<lambda>liquid_total.
            bindR (component values ''liquid_shard0'') (\<lambda>liquid_shard0.
            bindR (component values ''liquid_shard1'') (\<lambda>liquid_shard1.
            if liquid_total \<noteq> liquid_shard0 + liquid_shard1 then Inl (ValueError ''liquid total mismatch'')
            else
              bindR (component values ''pending_undelegation'') (\<lambda>undelegation.
              bindR (component values ''unclaimed_staking_reward'') (\<lambda>reward.
              bindR (component values ''pending_cross_shard'') (\<lambda>receipt.
              let wallet = liquid_shard0 + liquid_shard1 + undelegation + reward + receipt in
              bindR (component values ''active_staked_or_delegated'') (\<lambda>staked_to_vault.
              let total_claim = wallet + staked_to_vault in
              bindR (foldM set_expected values
                       [(''wallet_airdrop'', wallet), (''staked_to_vault'', staked_to_vault), (''total_claim'', total_claim)]) (\<lambda>values.
              if present r ''total_claim_atto'' \<and> dict_get r ''total_claim_atto'' \<noteq> Some None then
                bindR (int_of_field r ''total_claim_atto'') (\<lambda>legacy.
                  if legacy \<noteq> total_claim then Inl (ValueError ''legacy total claim mismatch'') else Inr values)
              else Inr values))))))))))"

section \<open>Output rows\<close>

definition output_fields :: "bool \<Rightarrow> string list" where
  "output_fields include_original =
     [''secure_key'', ''address'', ''address_or_secure_key'', ''address_resolved'', ''claims_shard0_block'',
      ''claims_shard1_block'', ''valuation_price_reference_shard0_block'', ''valuation_price_usd_per_one''] @
     (if include_original then
        [''original_liquid_shard0_atto'', ''original_liquid_shard1_atto'', ''original_liquid_total_atto'',
         ''original_liquid_shard0_one'', ''original_liquid_shard1_one'', ''original_liquid_total_one'', ''original_liquid_usd'']
      else []) @
     map (\<lambda>c. c @ ''_atto'') COMPONENTS @ map (\<lambda>c. c @ ''_one'') COMPONENTS @
     [''wallet_airdrop_usd'', ''total_usd'', ''nonce_shard0'', ''nonce_shard1'', ''code_hash_shard0'', ''code_hash_shard1'']"

record claim_args =
  cl_actual_ledger :: string
  cl_original_qualifying :: string
  cl_actual_recovery_summary :: string
  cl_qualifying_recovery_summary :: string
  cl_all_output :: string
  cl_over_one_usd_output :: "string option"
  cl_original_output :: string
  cl_summary_output :: string
  cl_claims_shard0_block :: int
  cl_claims_shard1_block :: int
  cl_price_reference_shard0_block :: int

text \<open>\<^verbatim>\<open>csv.DictWriter.writerow\<close>: a missing field is empty, an unknown one raises.\<close>

definition dict_record :: "string list \<Rightarrow> (string, string) dict \<Rightarrow> string list result" where
  "dict_record names d =
     (if \<exists>k \<in> set (dict_keys d). k \<notin> set names then Inl (ValueError ''dict contains fields not in fieldnames'')
      else Inr (map (\<lambda>f. case dict_get d f of None \<Rightarrow> [] | Some v \<Rightarrow> v) names))"

definition component_cells :: "amounts \<Rightarrow> string \<Rightarrow> (string \<times> string) list result" where
  "component_cells values c =
     bindR (component values c) (\<lambda>v.
     bindR (one_string v) (\<lambda>one. Inr [(c @ ''_atto'', str_int v), (c @ ''_one'', one)]))"

definition make_claim_row :: "claim_args \<Rightarrow> csv_row \<Rightarrow> amounts \<Rightarrow> (string, string) dict result" where
  "make_claim_row args row values =
     bindR (value_field row ''address'') (\<lambda>address.
     bindR (value_field row ''secure_key'') (\<lambda>key.
     bindR (bindR (component values ''wallet_airdrop'') usd_string) (\<lambda>wallet_usd.
     bindR (bindR (component values ''total_claim'') usd_string) (\<lambda>total_usd.
     bindR (value_field row ''nonce_shard0'') (\<lambda>nonce0.
     bindR (value_field row ''nonce_shard1'') (\<lambda>nonce1.
     bindR (value_field row ''code_hash_shard0'') (\<lambda>code0.
     bindR (value_field row ''code_hash_shard1'') (\<lambda>code1.
     bindR (mapM (component_cells values) COMPONENTS) (\<lambda>cells.
       Inr (foldl (\<lambda>d (k, v). dict_set k v d)
         [(''secure_key'', key), (''address'', address),
          (''address_or_secure_key'', if address \<noteq> [] then address else key),
          (''address_resolved'', if address \<noteq> [] then ''true'' else ''false''),
          (''claims_shard0_block'', str_int (cl_claims_shard0_block args)),
          (''claims_shard1_block'', str_int (cl_claims_shard1_block args)),
          (''valuation_price_reference_shard0_block'', str_int (cl_price_reference_shard0_block args)),
          (''valuation_price_usd_per_one'', ''0.00074801''),
          (''wallet_airdrop_usd'', wallet_usd), (''total_usd'', total_usd),
          (''nonce_shard0'', nonce0), (''nonce_shard1'', nonce1),
          (''code_hash_shard0'', code0), (''code_hash_shard1'', code1)] (concat cells)))))))))))"

record claim_stats =
  cs_rows :: int
  cs_with_address :: int
  cs_without_address :: int
  cs_amounts :: amounts

definition new_stats :: claim_stats where
  "new_stats = \<lparr>cs_rows = 0, cs_with_address = 0, cs_without_address = 0, cs_amounts = map (\<lambda>c. (c, 0)) COMPONENTS\<rparr>"

definition add_stats :: "claim_stats \<Rightarrow> amounts \<Rightarrow> bool \<Rightarrow> claim_stats result" where
  "add_stats stats values has_address =
     bindR (foldM (\<lambda>acc c. bindR (component values c) (\<lambda>v. bindR (component acc c) (\<lambda>a. Inr (dict_set c (a + v) acc))))
       (cs_amounts stats) COMPONENTS) (\<lambda>acc.
       Inr \<lparr>cs_rows = cs_rows stats + 1,
            cs_with_address = cs_with_address stats + of_bool has_address,
            cs_without_address = cs_without_address stats + of_bool (\<not> has_address),
            cs_amounts = acc\<rparr>)"

section \<open>The loop\<close>

record claim_table =
  ct_rows :: "string list list"
  ct_stats :: claim_stats

definition new_table :: claim_table where
  "new_table = \<lparr>ct_rows = [], ct_stats = new_stats\<rparr>"

definition add_to_table :: "string list \<Rightarrow> claim_table \<Rightarrow> (string, string) dict \<Rightarrow> amounts \<Rightarrow> bool \<Rightarrow> claim_table result" where
  "add_to_table names t row values has_address =
     bindR (dict_record names row) (\<lambda>cells.
     bindR (add_stats (ct_stats t) values has_address) (\<lambda>stats.
       Inr \<lparr>ct_rows = ct_rows t @ [cells], ct_stats = stats\<rparr>))"

record claims_state =
  cm_all :: claim_table
  cm_over :: "claim_table option"
  cm_original :: claim_table
  cm_liquid_total :: int
  cm_liquid_usd_scaled :: int

definition clean_row :: "string \<Rightarrow> csv_row \<Rightarrow> csv_row result" where
  "clean_row key r = Inr (dict_set ''secure_key'' (Some key) r)"

definition sorted_rows :: "csv_row list \<Rightarrow> (string \<times> csv_row) result list" where
  "sorted_rows = sorted_gen (\<lambda>r. bindR (text_field r ''secure_key'') (\<lambda>k. Inr (lower k))) clean_row None"

definition opt_address :: "csv_row option \<Rightarrow> string result" where
  "opt_address r = (case r of None \<Rightarrow> Inr [] | Some r \<Rightarrow> value_field r ''address'')"

text \<open>The address check, and the ledger row with the address of the original row when it has none.\<close>

definition fill_address :: "csv_row option \<Rightarrow> csv_row option \<Rightarrow> csv_row option result" where
  "fill_address actual original =
     bindR (opt_address actual) (\<lambda>address0.
     bindR (opt_address original) (\<lambda>address1.
       if address0 \<noteq> [] \<and> address1 \<noteq> [] \<and> lower address1 \<noteq> lower address0 then Inl (ValueError ''address mismatch'')
       else Inr (if address0 = [] \<and> address1 \<noteq> [] then map_option (dict_set ''address'' (Some address1)) actual else actual)))"

definition claim_actual :: "claim_args \<Rightarrow> claims_state \<Rightarrow> csv_row \<Rightarrow> claims_state result" where
  "claim_actual args st r =
     bindR (actual_values (Some r)) (\<lambda>values.
     bindR (make_claim_row args r values) (\<lambda>row.
     bindR (value_field r ''address'') (\<lambda>address.
     bindR (add_to_table (output_fields False) (cm_all st) row values (address \<noteq> [])) (\<lambda>t.
     bindR (component values ''total_claim'') (\<lambda>total_claim.
     bindR (case cm_over st of
          Some over \<Rightarrow>
            if strict_over_one_usd total_claim
            then bindR (add_to_table (output_fields False) over row values (address \<noteq> [])) (\<lambda>t. Inr (Some t))
            else Inr (Some over)
        | None \<Rightarrow> Inr None) (\<lambda>over.
       Inr (st\<lparr>cm_all := t, cm_over := over\<rparr>)))))))"

definition base_row :: "string \<Rightarrow> csv_row option \<Rightarrow> string \<Rightarrow> csv_row" where
  "base_row key actual address =
     (case actual of
        Some r \<Rightarrow> r
      | None \<Rightarrow> [(''secure_key'', Some key), (''address'', Some address), (''nonce_shard0'', Some []), (''nonce_shard1'', Some []),
          (''code_hash_shard0'', Some []), (''code_hash_shard1'', Some [])])"

definition claim_original :: "claim_args \<Rightarrow> claims_state \<Rightarrow> string \<Rightarrow> csv_row option \<Rightarrow> csv_row \<Rightarrow> claims_state result" where
  "claim_original args st key actual original =
     bindR (actual_values actual) (\<lambda>values.
     bindR (value_field original ''address'') (\<lambda>address.
     let base = base_row key actual address in
     bindR (value_field base ''address'') (\<lambda>shown.
     let base = (if shown = [] \<and> address \<noteq> [] then dict_set ''address'' (Some address) base else base) in
     bindR (make_claim_row args base values) (\<lambda>row.
     bindR (int_of_field original ''balance_shard_0_atto'') (\<lambda>original0.
     bindR (int_of_field original ''balance_shard_1_atto'') (\<lambda>original1.
     bindR (int_of_field original ''balance_total_atto'') (\<lambda>original_total.
     if original_total \<noteq> original0 + original1 then Inl (ValueError ''original liquid mismatch'')
     else
       bindR (one_string original0) (\<lambda>one0.
       bindR (one_string original1) (\<lambda>one1.
       bindR (one_string original_total) (\<lambda>one_total.
       bindR (usd_string original_total) (\<lambda>usd.
       let row = foldl (\<lambda>d (k, v). dict_set k v d) row
             [(''original_liquid_shard0_atto'', str_int original0), (''original_liquid_shard1_atto'', str_int original1),
              (''original_liquid_total_atto'', str_int original_total), (''original_liquid_shard0_one'', one0),
              (''original_liquid_shard1_one'', one1), (''original_liquid_total_one'', one_total), (''original_liquid_usd'', usd)] in
       bindR (add_to_table (output_fields True) (cm_original st) row values (dict_get row ''address'' \<noteq> Some [])) (\<lambda>t.
         Inr (st\<lparr>cm_original := t, cm_liquid_total := cm_liquid_total st + original_total,
                cm_liquid_usd_scaled := cm_liquid_usd_scaled st + original_total * PRICE_NUMERATOR\<rparr>)))))))))))))"

definition claims_step :: "claim_args \<Rightarrow> claims_state \<Rightarrow> string \<Rightarrow> csv_row option list \<Rightarrow> claims_state result" where
  "claims_step args st key currents =
     bindR (fill_address (currents ! 0) (currents ! 1)) (\<lambda>actual.
     bindR (case actual of None \<Rightarrow> Inr st | Some r \<Rightarrow> claim_actual args st r) (\<lambda>st.
       case currents ! 1 of None \<Rightarrow> Inr st | Some original \<Rightarrow> claim_original args st key actual original))"

section \<open>The command\<close>

fun open_atomic_outputs :: "files \<Rightarrow> string list \<Rightarrow> files \<times> unit result" where
  "open_atomic_outputs fs [] = (fs, Inr ())"
| "open_atomic_outputs fs (path # paths) =
     (if taken fs path then (fs, Inl (FileExistsError path))
      else open_atomic_outputs (fs(partial path \<mapsto> [])) paths)"

definition outputs :: "claim_args \<Rightarrow> (string \<times> string) list" where
  "outputs args =
     [(''all'', cl_all_output args), (''original'', cl_original_output args)] @
     (case cl_over_one_usd_output args of Some p \<Rightarrow> if p = [] then [] else [(''over_one_usd'', p)] | None \<Rightarrow> [])"

definition claims_loop :: "claim_args \<Rightarrow> string \<Rightarrow> string \<Rightarrow> claims_state result" where
  "claims_loop args ledger original =
     merge_streams (claims_step args)
       \<lparr>cm_all = new_table, cm_over = (if length (outputs args) = 3 then Some new_table else None), cm_original = new_table,
        cm_liquid_total = 0, cm_liquid_usd_scaled = 0\<rparr>
       [sorted_rows (dict_reader ledger), sorted_rows (dict_reader original)]"

definition table_text :: "claims_state \<Rightarrow> string \<Rightarrow> string" where
  "table_text st label =
     (if label = ''original'' then csv_text (output_fields True # ct_rows (cm_original st))
      else if label = ''all'' then csv_text (output_fields False # ct_rows (cm_all st))
      else csv_text (output_fields False # (case cm_over st of None \<Rightarrow> [] | Some t \<Rightarrow> ct_rows t)))"

definition stats_json :: "claim_stats \<Rightarrow> (string \<times> json) list" where
  "stats_json s =
     [(''rows'', JInt (cs_rows s)), (''rows_with_address'', JInt (cs_with_address s)),
      (''rows_without_address'', JInt (cs_without_address s))] @
     map (\<lambda>(c, v). (c @ ''_atto'', JStr (str_int v))) (cs_amounts s)"

definition claims_json :: "claim_args \<Rightarrow> (string \<times> string) list \<Rightarrow> json \<Rightarrow> json \<Rightarrow> (string \<times> string \<times> string) list \<Rightarrow>
    string \<Rightarrow> claims_state \<Rightarrow> json" where
  "claims_json args inputs actual_recovery qualifying_recovery written usd st = JObj
     [(''valuation'', JObj [(''price_usd_per_one'', JStr ''0.00074801''),
        (''price_reference_shard0_block'', JInt (cl_price_reference_shard0_block args)),
        (''strict_threshold'', JStr ''total_claim_usd > 1.00'')]),
      (''claims_snapshot'', JObj [(''shard0_block'', JInt (cl_claims_shard0_block args)),
        (''shard1_block'', JInt (cl_claims_shard1_block args))]),
      (''input_sha256'', JObj (map (\<lambda>(name, t). (name, JStr (text_sha256 t))) inputs)),
      (''preimage_recovery'', JObj [(''actual'', actual_recovery), (''original_qualifying'', qualifying_recovery)]),
      (''outputs'', JObj (map (\<lambda>(label, path, content). (label, JObj [(''path'', JStr path),
         (''bytes'', JInt (int (length (encode content)))),
         (''sha256'', JStr (text_sha256 content))])) written)),
      (''stats'', JObj ([(''all'', JObj (stats_json (ct_stats (cm_all st)))),
         (''original'', JObj (stats_json (ct_stats (cm_original st)) @
            [(''original_liquid_total_atto'', JStr (str_int (cm_liquid_total st))),
             (''original_liquid_total_usd'', JStr usd)]))] @
         (case cm_over st of None \<Rightarrow> [] | Some t \<Rightarrow> [(''over_one_usd'', JObj (stats_json (ct_stats t)))])))]"

text \<open>
  The tables are in the partial files when the loop ends; then one file after the other gets its name, and the summary
  describes what is under these names.
\<close>

definition write_partials :: "claims_state \<Rightarrow> (string \<times> string) list \<Rightarrow> files \<Rightarrow> files" where
  "write_partials st outs fs = foldl (\<lambda>m (label, path). m(partial path \<mapsto> table_text st label)) fs outs"

definition replace_partials :: "(string \<times> string) list \<Rightarrow> files \<Rightarrow> files" where
  "replace_partials outs fs = foldl (\<lambda>m (label, path). m(path := m (partial path), partial path := None)) fs outs"

definition cleanup_partials :: "(string \<times> string) list \<Rightarrow> files \<Rightarrow> files" where
  "cleanup_partials outs fs = foldl (\<lambda>m (label, path). m(partial path := None)) fs outs"

definition cleanup :: "claim_args \<Rightarrow> files \<Rightarrow> files" where
  "cleanup args fs = (cleanup_partials (outputs args) fs)(partial (cl_summary_output args) := None)"

definition publish_claims :: "claim_args \<Rightarrow> (string \<times> string) list \<Rightarrow> json \<Rightarrow> json \<Rightarrow> files \<Rightarrow> claims_state \<Rightarrow>
    files \<times> claims_state result" where
  "publish_claims args inputs actual_recovery qualifying_recovery fs st =
     (let written = replace_partials (outputs args) (write_partials st (outputs args) fs) in
      case bindR (decimal_string (cm_liquid_usd_scaled st) 26) (\<lambda>usd.
           bindR (mapM (\<lambda>(label, path). bindR (read_text written path) (\<lambda>content. Inr (label, path, content))) (outputs args)) (\<lambda>texts.
             if written (partial (cl_summary_output args)) \<noteq> None
             then Inl (FileExistsError (partial (cl_summary_output args)))
             else Inr (usd, texts))) of
        Inl e \<Rightarrow> (cleanup args written, Inl e)
      | Inr (usd, texts) \<Rightarrow>
          (written(cl_summary_output args \<mapsto>
             json_file 2 (claims_json args inputs actual_recovery qualifying_recovery texts usd st)), Inr st))"

text \<open>
  The files after the call, and the final state of the loop. A failure of \<^verbatim>\<open>open_atomic_outputs\<close> is before the
  \<^verbatim>\<open>try\<close> block, so the partial files that it has created stay; a later one removes the partial files.
\<close>

definition claims_build :: "files \<Rightarrow> claim_args \<Rightarrow> files \<times> claims_state result" where
  "claims_build fs args =
     (case
        (if taken fs (cl_summary_output args) then Inl (FileExistsError (cl_summary_output args))
         else
           bindR (read_text fs (cl_actual_ledger args)) (\<lambda>ledger.
           bindR (read_text fs (cl_original_qualifying args)) (\<lambda>original.
           bindR (read_text fs (cl_actual_recovery_summary args)) (\<lambda>recovery0.
           bindR (read_text fs (cl_qualifying_recovery_summary args)) (\<lambda>recovery1.
           bindR (loads recovery0) (\<lambda>j0.
           bindR (loads recovery1) (\<lambda>j1. Inr (ledger, original, recovery0, recovery1, j0, j1))))))))
      of Inl e \<Rightarrow> (fs, Inl e)
       | Inr (ledger, original, recovery0, recovery1, j0, j1) \<Rightarrow>
           (case open_atomic_outputs fs (map snd (outputs args)) of
              (fs', Inl e) \<Rightarrow> (fs', Inl e)
            | (fs', Inr _) \<Rightarrow>
                (case claims_loop args ledger original of
                   Inl e \<Rightarrow> (cleanup args fs', Inl e)
                 | Inr st \<Rightarrow>
                     publish_claims args [(''actual_ledger'', ledger), (''original_qualifying'', original),
                       (''actual_recovery_summary'', recovery0), (''qualifying_recovery_summary'', recovery1)] j0 j1 fs' st)))"

section \<open>The amounts add up\<close>

lemma foldM_set_expected:
  "foldM set_expected values [(a, x), (b, y), (c, z)] = Inr values' \<Longrightarrow>
     values' = dict_set c z (dict_set b y (dict_set a x values))"
  by (auto simp: set_expected_def bindR_Inr_iff split: if_splits)

lemma actual_values_Inr:
  assumes "actual_values (Some r) = Inr values"
  obtains l0 l1 un re rc st where
    "dict_get values ''liquid_shard0'' = Some l0" "dict_get values ''liquid_shard1'' = Some l1"
    "dict_get values ''liquid_total'' = Some (l0 + l1)" "dict_get values ''pending_undelegation'' = Some un"
    "dict_get values ''unclaimed_staking_reward'' = Some re" "dict_get values ''pending_cross_shard'' = Some rc"
    "dict_get values ''active_staked_or_delegated'' = Some st"
    "dict_get values ''wallet_airdrop'' = Some (l0 + l1 + un + re + rc)" "dict_get values ''staked_to_vault'' = Some st"
    "dict_get values ''total_claim'' = Some (l0 + l1 + un + re + rc + st)"
    "0 \<le> l0" "0 \<le> l1" "0 \<le> un" "0 \<le> re" "0 \<le> rc" "0 \<le> st"
proof -
  from assms obtain vs l0 l1 un re rc st where
    nonneg: "\<forall>v \<in> set (dict_values vs). 0 \<le> v"
    and vs: "dict_get vs ''liquid_shard0'' = Some l0" "dict_get vs ''liquid_shard1'' = Some l1"
    "dict_get vs ''liquid_total'' = Some (l0 + l1)" "dict_get vs ''pending_undelegation'' = Some un"
    "dict_get vs ''unclaimed_staking_reward'' = Some re" "dict_get vs ''pending_cross_shard'' = Some rc"
    "dict_get vs ''active_staked_or_delegated'' = Some st"
    and fold: "foldM set_expected vs [(''wallet_airdrop'', l0 + l1 + un + re + rc), (''staked_to_vault'', st),
        (''total_claim'', l0 + l1 + un + re + rc + st)] = Inr values"
    by (auto simp: actual_values_def Let_def component_def bindR_Inr_iff of_option_Inr_iff not_less simp del: foldM.simps set_map split: if_splits)
  have "0 \<le> v" if "dict_get vs c = Some v" for c v
    using that nonneg by (force dest: map_of_SomeD)
  then show thesis
    using vs by (intro that [of l0 l1 un re rc st]) (simp_all add: foldM_set_expected [OF fold] map_of_dict_set)
qed

lemma actual_values_get:
  assumes "\<And>n. n \<noteq> ''address'' \<Longrightarrow> dict_get r n = dict_get r' n"
  shows "actual_values (Some r) = actual_values (Some r')"
proof -
  have i: "int_of_field r n = int_of_field r' n" and p: "present r n = present r' n" if "n \<noteq> ''address''" for n
    using assms that by (simp_all add: int_of_field_def field_def present_def)
  have names: "\<forall>(c, n) \<in> set ACTUAL_FIELDS. n \<noteq> ''address''" by code_simp
  have f: "filter (\<lambda>(c, n). present r n) ACTUAL_FIELDS = filter (\<lambda>(c, n). present r' n) ACTUAL_FIELDS"
    by (rule filter_cong) (use names in \<open>auto simp: p\<close>)
  have "read_amounts r = read_amounts r'"
    unfolding read_amounts_def f using names by (intro mapM_cong) (auto simp: i)
  moreover have "dict_get r ''total_claim_atto'' = dict_get r' ''total_claim_atto''" using assms by simp
  ultimately show ?thesis by (simp add: actual_values_def i p cong: if_cong)
qed

lemma actual_values_address: "actual_values (Some (dict_set ''address'' a r)) = actual_values (Some r)"
  by (rule actual_values_get) (simp add: map_of_dict_set)

section \<open>Conservation\<close>

interpretation claim_source: sorted_source sorted_rows
  unfolding sorted_rows_def by (rule sorted_gen_source.sorted_source_axioms)

definition row_component :: "string \<Rightarrow> csv_row \<Rightarrow> int" where
  "row_component c r = (case actual_values (Some r) of Inr values \<Rightarrow> (case dict_get values c of Some v \<Rightarrow> v | None \<Rightarrow> 0) | Inl _ \<Rightarrow> 0)"

definition over_one_usd :: "csv_row \<Rightarrow> bool" where
  "over_one_usd r \<longleftrightarrow> strict_over_one_usd (row_component ''total_claim'' r)"

lemma row_component_address: "row_component c (dict_set ''address'' a r) = row_component c r"
  by (simp add: row_component_def actual_values_address)

definition table_amount :: "string \<Rightarrow> claim_table \<Rightarrow> int" where
  "table_amount c t = (case dict_get (cs_amounts (ct_stats t)) c of Some v \<Rightarrow> v | None \<Rightarrow> 0)"

lemma add_stats_fold:
  assumes "foldM (\<lambda>acc c. bindR (component values c) (\<lambda>v. bindR (component acc c) (\<lambda>a. Inr (dict_set c (a + v) acc)))) acc cs = Inr acc'"
    "distinct cs"
  shows "dict_get acc' c = (if c \<in> set cs then Some (the (dict_get acc c) + the (dict_get values c)) else dict_get acc c) \<and>
    (c \<in> set cs \<longrightarrow> dict_get acc c \<noteq> None)"
  using assms
proof (induction cs arbitrary: acc)
  case (Cons x cs)
  from Cons.prems(1) obtain v a where acc: "dict_get values x = Some v" "dict_get acc x = Some a"
    and rest: "foldM (\<lambda>acc c. bindR (component values c) (\<lambda>v. bindR (component acc c) (\<lambda>a. Inr (dict_set c (a + v) acc)))) (dict_set x (a + v) acc) cs = Inr acc'"
    by (auto simp: component_def bindR_Inr_iff of_option_Inr_iff)
  then show ?case using Cons.IH [OF rest] Cons.prems(2) by (auto split: if_splits)
qed simp

lemma distinct_COMPONENTS: "distinct COMPONENTS"
  by code_simp

lemma add_to_table_Inr:
  assumes "add_to_table names t row values b = Inr t'" "c \<in> set COMPONENTS"
  shows "table_amount c t' = table_amount c t + the (dict_get values c)" "cs_rows (ct_stats t') = cs_rows (ct_stats t) + 1"
    "length (ct_rows t') = length (ct_rows t) + 1"
proof -
  from assms(1) obtain cells stats where "add_stats (ct_stats t) values b = Inr stats"
    and t': "t' = \<lparr>ct_rows = ct_rows t @ [cells], ct_stats = stats\<rparr>"
    by (auto simp: add_to_table_def bindR_Inr_iff)
  then obtain acc where fold: "foldM (\<lambda>acc c. bindR (component values c) (\<lambda>v. bindR (component acc c) (\<lambda>a. Inr (dict_set c (a + v) acc))))
       (cs_amounts (ct_stats t)) COMPONENTS = Inr acc"
    and stats: "cs_amounts stats = acc" "cs_rows stats = cs_rows (ct_stats t) + 1"
    by (auto simp: add_stats_def bindR_Inr_iff)
  have "dict_get (cs_amounts (ct_stats t)) c \<noteq> None"
    using add_stats_fold [OF fold distinct_COMPONENTS, of c] assms(2) by blast
  then show "table_amount c t' = table_amount c t + the (dict_get values c)"
    using add_stats_fold [OF fold distinct_COMPONENTS, of c] assms(2) by (auto simp: table_amount_def t' stats)
  show "cs_rows (ct_stats t') = cs_rows (ct_stats t) + 1" "length (ct_rows t') = length (ct_rows t) + 1"
    by (simp_all add: t' stats)
qed

text \<open>What one key does to the tables: the ledger row goes to the table of all claims and, above one USD, to the filtered one.\<close>

definition adds :: "csv_row option \<Rightarrow> claims_state \<Rightarrow> claims_state \<Rightarrow> bool" where
  "adds a st st' \<longleftrightarrow>
     (\<forall>c \<in> set COMPONENTS. table_amount c (cm_all st') = table_amount c (cm_all st) + weigh (row_component c) a) \<and>
     cs_rows (ct_stats (cm_all st')) = cs_rows (ct_stats (cm_all st)) + weigh (\<lambda>_. 1) a \<and>
     (case (cm_over st, cm_over st') of
        (None, None) \<Rightarrow> True
      | (Some t, Some t') \<Rightarrow>
          (\<forall>c \<in> set COMPONENTS. table_amount c t' = table_amount c t + weigh (\<lambda>r. if over_one_usd r then row_component c r else 0) a) \<and>
          cs_rows (ct_stats t') = cs_rows (ct_stats t) + weigh (\<lambda>r. of_bool (over_one_usd r)) a
      | _ \<Rightarrow> False)"

lemma adds_None: "cm_all st' = cm_all st \<Longrightarrow> cm_over st' = cm_over st \<Longrightarrow> adds None st st'"
  by (auto simp: adds_def split: option.splits)

lemma adds_address: "adds (Some (dict_set ''address'' a r)) st st' = adds (Some r) st st'"
  by (simp add: adds_def over_one_usd_def row_component_address split: option.split)

lemma claim_actual_adds:
  assumes "claim_actual args st r = Inr st'"
  shows "adds (Some r) st st'" "cm_original st' = cm_original st" "cm_liquid_total st' = cm_liquid_total st"
proof -
  from assms obtain vs row b t tot over where v: "actual_values (Some r) = Inr vs"
    and t: "add_to_table (output_fields False) (cm_all st) row vs b = Inr t"
    and tot: "dict_get vs ''total_claim'' = Some tot"
    and over: "(case cm_over st of
          Some over \<Rightarrow>
            if strict_over_one_usd tot
            then bindR (add_to_table (output_fields False) over row vs b) (\<lambda>t. Inr (Some t))
            else Inr (Some over)
        | None \<Rightarrow> Inr None) = Inr over"
    and "st\<lparr>cm_all := t, cm_over := over\<rparr> = st'"
    unfolding claim_actual_def component_def bindR_Inr_iff of_option_Inr_iff sum.inject by blast
  note st' = this(5) [symmetric]
  have comp: "row_component c r = the (dict_get vs c)" if "c \<in> set COMPONENTS" for c
  proof -
    have "dict_get vs c \<noteq> None"
      by (rule actual_values_Inr [OF v]) (use that in \<open>auto simp: COMPONENTS_def\<close>)
    then show ?thesis by (auto simp: row_component_def v)
  qed
  have total: "over_one_usd r = strict_over_one_usd tot" by (simp add: over_one_usd_def row_component_def v tot)
  have c: "''total_claim'' \<in> set COMPONENTS" by (simp add: COMPONENTS_def)
  note new = add_to_table_Inr [OF t]
  show "adds (Some r) st st'"
  proof (cases "cm_over st")
    case None
    then show ?thesis using over new c comp by (simp add: adds_def st')
  next
    case (Some u)
    show ?thesis
    proof (cases "strict_over_one_usd tot")
      case True
      then obtain u' where u': "over = Some u'" "add_to_table (output_fields False) u row vs b = Inr u'"
        using over Some by (auto simp: bindR_Inr_iff)
      show ?thesis using new add_to_table_Inr [OF u'(2)] c comp True by (simp add: adds_def st' Some u'(1) total)
    next
      case False
      then have "over = Some u" using over Some by simp
      then show ?thesis using new c comp False by (simp add: adds_def st' Some total)
    qed
  qed
  show "cm_original st' = cm_original st" "cm_liquid_total st' = cm_liquid_total st" by (simp_all add: st')
qed

lemma claim_original_adds:
  assumes "claim_original args st key actual original = Inr st'"
  shows "cm_all st' = cm_all st" "cm_over st' = cm_over st"
    "cs_rows (ct_stats (cm_original st')) = cs_rows (ct_stats (cm_original st)) + 1"
    "cm_liquid_total st' = cm_liquid_total st + field_value ''balance_total_atto'' original"
  using assms add_to_table_Inr(2) [of _ _ _ _ _ _ "''total_claim''"]
  by (auto simp: claim_original_def Let_def bindR_Inr_iff field_value_def COMPONENTS_def split: if_splits)

lemma claims_step_adds:
  assumes "claims_step args st key currents = Inr st'"
  shows "adds (currents ! 0) st st'"
    "cs_rows (ct_stats (cm_original st')) = cs_rows (ct_stats (cm_original st)) + weigh (\<lambda>_. 1) (currents ! 1)"
    "cm_liquid_total st' = cm_liquid_total st + weigh (field_value ''balance_total_atto'') (currents ! 1)"
proof -
  from assms obtain actual st1 where a: "fill_address (currents ! 0) (currents ! 1) = Inr actual"
    and s1: "(case actual of None \<Rightarrow> Inr st | Some r \<Rightarrow> claim_actual args st r) = Inr st1"
    and s2: "(case currents ! 1 of None \<Rightarrow> Inr st1 | Some original \<Rightarrow> claim_original args st1 key actual original) = Inr st'"
    by (auto simp: claims_step_def bindR_Inr_iff)
  have "adds actual st st1" "cm_original st1 = cm_original st" "cm_liquid_total st1 = cm_liquid_total st"
    using s1 claim_actual_adds by (auto simp: adds_None split: option.splits)
  moreover from this(1) have 1: "adds (currents ! 0) st st1"
    using a by (cases "currents ! 0") (auto simp: fill_address_def bindR_Inr_iff adds_address split: if_splits)
  moreover have "cm_all st' = cm_all st1" "cm_over st' = cm_over st1" using s2 claim_original_adds by (auto split: option.splits)
  ultimately show "adds (currents ! 0) st st'" using 1 by (simp add: adds_def)
  show "cs_rows (ct_stats (cm_original st')) = cs_rows (ct_stats (cm_original st)) + weigh (\<lambda>_. 1) (currents ! 1)"
    "cm_liquid_total st' = cm_liquid_total st + weigh (field_value ''balance_total_atto'') (currents ! 1)"
    using s2 claim_original_adds \<open>cm_original st1 = cm_original st\<close> \<open>cm_liquid_total st1 = cm_liquid_total st\<close>
    by (auto split: option.splits)
qed

definition claims_start :: "claim_args \<Rightarrow> claims_state" where
  "claims_start args = \<lparr>cm_all = new_table, cm_over = (if length (outputs args) = 3 then Some new_table else None),
     cm_original = new_table, cm_liquid_total = 0, cm_liquid_usd_scaled = 0\<rparr>"

text \<open>The fold of \<open>adds\<close> over the merged keys.\<close>

lemma claims_fold_adds:
  assumes "foldM (\<lambda>s (k, vs). claims_step args s k vs) st gs = Inr st'"
  shows "\<forall>c \<in> set COMPONENTS. table_amount c (cm_all st') = table_amount c (cm_all st) + sum_list (map (\<lambda>g. weigh (row_component c) (snd g ! 0)) gs)"
    "cs_rows (ct_stats (cm_all st')) = cs_rows (ct_stats (cm_all st)) + sum_list (map (\<lambda>g. weigh (\<lambda>_. 1) (snd g ! 0)) gs)"
    "(case (cm_over st, cm_over st') of
        (None, None) \<Rightarrow> True
      | (Some t, Some t') \<Rightarrow>
          (\<forall>c \<in> set COMPONENTS. table_amount c t' = table_amount c t +
            sum_list (map (\<lambda>g. weigh (\<lambda>r. if over_one_usd r then row_component c r else 0) (snd g ! 0)) gs)) \<and>
          cs_rows (ct_stats t') = cs_rows (ct_stats t) + sum_list (map (\<lambda>g. weigh (\<lambda>r. of_bool (over_one_usd r)) (snd g ! 0)) gs)
      | _ \<Rightarrow> False)"
    "cs_rows (ct_stats (cm_original st')) = cs_rows (ct_stats (cm_original st)) + sum_list (map (\<lambda>g. weigh (\<lambda>_. 1) (snd g ! 1)) gs)"
    "cm_liquid_total st' = cm_liquid_total st + sum_list (map (\<lambda>g. weigh (field_value ''balance_total_atto'') (snd g ! 1)) gs)"
proof -
  show "\<forall>c \<in> set COMPONENTS. table_amount c (cm_all st') = table_amount c (cm_all st) + sum_list (map (\<lambda>g. weigh (row_component c) (snd g ! 0)) gs)"
    using assms claims_step_adds(1) by (induction gs arbitrary: st) (force simp: bindR_Inr_iff adds_def)+
  show "cs_rows (ct_stats (cm_all st')) = cs_rows (ct_stats (cm_all st)) + sum_list (map (\<lambda>g. weigh (\<lambda>_. 1) (snd g ! 0)) gs)"
    using assms claims_step_adds(1) by (induction gs arbitrary: st) (force simp: bindR_Inr_iff adds_def)+
  show "(case (cm_over st, cm_over st') of
        (None, None) \<Rightarrow> True
      | (Some t, Some t') \<Rightarrow>
          (\<forall>c \<in> set COMPONENTS. table_amount c t' = table_amount c t +
            sum_list (map (\<lambda>g. weigh (\<lambda>r. if over_one_usd r then row_component c r else 0) (snd g ! 0)) gs)) \<and>
          cs_rows (ct_stats t') = cs_rows (ct_stats t) + sum_list (map (\<lambda>g. weigh (\<lambda>r. of_bool (over_one_usd r)) (snd g ! 0)) gs)
      | _ \<Rightarrow> False)"
    using assms
  proof (induction gs arbitrary: st)
    case (Cons g gs)
    from Cons.prems obtain st1 where "claims_step args st (fst g) (snd g) = Inr st1"
      "foldM (\<lambda>s (k, vs). claims_step args s k vs) st1 gs = Inr st'" by (cases g) (auto simp: bindR_Inr_iff)
    with Cons.IH [OF this(2)] claims_step_adds(1) [OF this(1)] show ?case by (auto simp: adds_def split: option.splits)
  qed (auto split: option.splits)
  show "cs_rows (ct_stats (cm_original st')) = cs_rows (ct_stats (cm_original st)) + sum_list (map (\<lambda>g. weigh (\<lambda>_. 1) (snd g ! 1)) gs)"
    using assms claims_step_adds(2) by (induction gs arbitrary: st) (force simp: bindR_Inr_iff)+
  show "cm_liquid_total st' = cm_liquid_total st + sum_list (map (\<lambda>g. weigh (field_value ''balance_total_atto'') (snd g ! 1)) gs)"
    using assms claims_step_adds(3) by (induction gs arbitrary: st) (force simp: bindR_Inr_iff)+
qed

lemma table_amount_new: "c \<in> set COMPONENTS \<Longrightarrow> table_amount c new_table = 0"
  by (auto simp: table_amount_def new_table_def new_stats_def COMPONENTS_def)

lemma cs_rows_new: "cs_rows (ct_stats new_table) = 0"
  by (simp add: new_table_def new_stats_def)

lemma open_atomic_outputs_Inr:
  "open_atomic_outputs fs paths = (fs', Inr u) \<Longrightarrow> distinct paths \<and> (\<forall>p \<in> set paths. fs p = None \<and> fs (partial p) = None)"
  by (induction paths arbitrary: fs) (force simp: taken_def split: if_splits)+

text \<open>A build that returns: the loop has returned, and each output is the table of its label. No output can be the partial
  file of another: the later of the two is refused when it is opened, or the earlier is gone when the summary looks for it.\<close>

lemma replaced_outputs:
  assumes "open_atomic_outputs fs (map snd outs) = (fs', Inr u)" "length outs \<in> {2, 3}"
    and "\<forall>(label, path) \<in> set outs. replace_partials outs (write_partials st outs fs') path \<noteq> None"
  shows "\<forall>(label, path) \<in> set outs. replace_partials outs (write_partials st outs fs') path = Some (table_text st label)"
proof -
  consider l p m q where "outs = [(l, p), (m, q)]" | l p m q n r where "outs = [(l, p), (m, q), (n, r)]"
    using assms(2) by (auto simp: length_Suc_conv numeral_eq_Suc)
  then show ?thesis
  proof cases
    case 1
    have "p \<noteq> q" "q \<noteq> partial p" using assms(1) by (auto simp: 1 taken_def split: if_splits)
    with assms(3) show ?thesis by (auto simp: 1 replace_partials_def write_partials_def split: if_splits)
  next
    case 2
    have "distinct [p, q, r]" "q \<noteq> partial p" "r \<noteq> partial p" "r \<noteq> partial q" using assms(1) by (auto simp: 2 taken_def split: if_splits)
    with assms(3) show ?thesis by (auto simp: 2 replace_partials_def write_partials_def split: if_splits)
  qed
qed

lemma publish_claims_Inr:
  assumes "publish_claims args inputs j0 j1 fs1 st = (fs', Inr st')" "open_atomic_outputs fs (map snd (outputs args)) = (fs1, Inr u)"
  shows "st' = st \<and> (\<forall>(label, path) \<in> set (outputs args). path \<noteq> cl_summary_output args \<longrightarrow> fs' path = Some (table_text st label))"
proof -
  define written where "written = replace_partials (outputs args) (write_partials st (outputs args) fs1)"
  from assms(1) obtain usd texts where st: "st' = st"
    and texts: "mapM (\<lambda>(label, path). bindR (read_text written path) (\<lambda>content. Inr (label, path, content))) (outputs args) = Inr texts"
    and fs': "fs' = written(cl_summary_output args \<mapsto> json_file 2 (claims_json args inputs j0 j1 texts usd st))"
    by (auto simp: publish_claims_def written_def [symmetric] Let_def bindR_Inr_iff simp del: mapM_Inr_iff split: sum.splits if_splits)
  have "\<forall>(label, path) \<in> set outs. written path \<noteq> None"
    if "mapM (\<lambda>(label, path). bindR (read_text written path) (\<lambda>content. Inr (label, path, content))) outs = Inr ts" for outs ts
    using that by (induction outs arbitrary: ts) (auto simp: bindR_Inr_iff read_text_def of_option_Inr_iff simp del: mapM_Inr_iff)
  from this [OF texts] have "\<forall>(label, path) \<in> set (outputs args). written path = Some (table_text st label)"
    unfolding written_def by (intro replaced_outputs [OF assms(2)]) (auto simp: outputs_def split: option.splits)
  then show ?thesis by (auto simp: st fs')
qed

lemma claims_build_Inr:
  assumes "claims_build fs args = (fs', Inr st)"
  obtains ledger original where "fs (cl_actual_ledger args) = Some ledger" "fs (cl_original_qualifying args) = Some original"
    "claims_loop args ledger original = Inr st"
    "\<forall>(label, path) \<in> set (outputs args). path \<noteq> cl_summary_output args \<longrightarrow> fs' path = Some (table_text st label)"
proof -
  from assms obtain ledger original inputs j0 j1 fs1 u st1 where inputs: "fs (cl_actual_ledger args) = Some ledger" "fs (cl_original_qualifying args) = Some original"
    and opened: "open_atomic_outputs fs (map snd (outputs args)) = (fs1, Inr u)"
    and loop: "claims_loop args ledger original = Inr st1" and pub: "publish_claims args inputs j0 j1 fs1 st1 = (fs', Inr st)"
    unfolding claims_build_def
    by (auto simp: read_text_def bindR_Inr_iff of_option_Inr_iff split: sum.split_asm if_split_asm prod.split_asm)
  show thesis using publish_claims_Inr [OF pub opened] loop by (intro that [OF inputs]) auto
qed

lemma claims_build_refused:
  "open_atomic_outputs fs (map snd (outputs args)) = (fs', Inl e) \<Longrightarrow> \<exists>e. snd (claims_build fs args) = Inl e"
  by (simp add: claims_build_def split: sum.split)

lemma row_component_sum: "row_component ''total_claim'' r = row_component ''wallet_airdrop'' r + row_component ''staked_to_vault'' r"
proof (cases "actual_values (Some r)")
  case (Inr vs)
  then show ?thesis by (elim actual_values_Inr) (simp add: row_component_def Inr)
qed (simp add: row_component_def)

section \<open>The lines of the tables\<close>

definition first_address :: "csv_row option \<Rightarrow> csv_row option \<Rightarrow> string" where
  "first_address actual original =
     (let address = (case actual of None \<Rightarrow> [] | Some r \<Rightarrow> get_or_empty r ''address'')
      in if address \<noteq> [] then address else (case original of None \<Rightarrow> [] | Some r \<Rightarrow> get_or_empty r ''address''))"

text \<open>
  What a line of a claim table says, by column: the key and the address, every amount in atto and in ONE, and the
  two amounts in USD. The address is the one of the ledger row, or of the listed account where the ledger has none.
\<close>

definition claim_line :: "string list \<Rightarrow> string \<Rightarrow> string \<Rightarrow> (string \<Rightarrow> int) \<Rightarrow> string list \<Rightarrow> bool" where
  "claim_line names key address amount cells \<longleftrightarrow>
     length cells = length names \<and>
     (let cell = map_of (zip names cells) in
        cell ''secure_key'' = Some key \<and> cell ''address'' = Some address \<and>
        (\<forall>c \<in> set COMPONENTS. cell (c @ ''_atto'') = Some (str_int (amount c)) \<and>
          (\<exists>one. one_string (amount c) = Inr one \<and> cell (c @ ''_one'') = Some one)) \<and>
        (\<exists>usd. usd_string (amount ''wallet_airdrop'') = Inr usd \<and> cell ''wallet_airdrop_usd'' = Some usd) \<and>
        (\<exists>usd. usd_string (amount ''total_claim'') = Inr usd \<and> cell ''total_usd'' = Some usd))"

lemma dict_sets_get:
  "map_of (foldl (\<lambda>d (k, v). dict_set k v d) d kvs) k = (case map_of (rev kvs) k of None \<Rightarrow> map_of d k | Some v \<Rightarrow> Some v)"
  by (induction kvs arbitrary: d) (auto simp: map_add_Some_iff split: option.splits)

lemma component_cells_get:
  assumes "mapM (component_cells values) cs = Inr cells" "c \<in> set cs"
  shows "\<exists>v one. dict_get values c = Some v \<and> one_string v = Inr one \<and>
    (c @ ''_atto'', str_int v) \<in> set (concat cells) \<and> (c @ ''_one'', one) \<in> set (concat cells)"
  using assms
  by (induction cs arbitrary: cells)
    (auto simp: component_cells_def component_def bindR_Inr_iff of_option_Inr_iff simp del: mapM_Inr_iff)

lemma component_cells_keys:
  assumes "mapM (component_cells values) cs = Inr cells"
  shows "map fst (concat cells) = concat (map (\<lambda>c. [c @ ''_atto'', c @ ''_one'']) cs)"
  using assms
  by (induction cs arbitrary: cells)
    (auto simp: component_cells_def component_def bindR_Inr_iff of_option_Inr_iff simp del: mapM_Inr_iff)

lemma cell_names:
  "distinct (concat (map (\<lambda>c. [c @ ''_atto'', c @ ''_one'']) COMPONENTS))"
  "list_all (\<lambda>k. k \<notin> set (concat (map (\<lambda>c. [c @ ''_atto'', c @ ''_one'']) COMPONENTS)))
     [''secure_key'', ''address'', ''wallet_airdrop_usd'', ''total_usd'']"
  by code_simp+

lemma make_claim_row_get:
  assumes "make_claim_row args r values = Inr row"
  shows "\<exists>key address. value_field r ''secure_key'' = Inr key \<and> value_field r ''address'' = Inr address \<and>
      dict_get row ''secure_key'' = Some key \<and> dict_get row ''address'' = Some address"
    "\<And>c. c \<in> set COMPONENTS \<Longrightarrow> \<exists>v one. dict_get values c = Some v \<and> one_string v = Inr one \<and>
      dict_get row (c @ ''_atto'') = Some (str_int v) \<and> dict_get row (c @ ''_one'') = Some one"
    "\<exists>v usd. dict_get values ''wallet_airdrop'' = Some v \<and> usd_string v = Inr usd \<and> dict_get row ''wallet_airdrop_usd'' = Some usd"
    "\<exists>v usd. dict_get values ''total_claim'' = Some v \<and> usd_string v = Inr usd \<and> dict_get row ''total_usd'' = Some usd"
proof -
  from assms obtain address key wallet_usd total_usd nonce0 nonce1 code0 code1 cells where
    f: "value_field r ''address'' = Inr address" "value_field r ''secure_key'' = Inr key"
    "bindR (component values ''wallet_airdrop'') usd_string = Inr wallet_usd" "bindR (component values ''total_claim'') usd_string = Inr total_usd"
    and cells: "mapM (component_cells values) COMPONENTS = Inr cells"
    and row: "row = foldl (\<lambda>d (k, v). dict_set k v d)
         [(''secure_key'', key), (''address'', address),
          (''address_or_secure_key'', if address \<noteq> [] then address else key),
          (''address_resolved'', if address \<noteq> [] then ''true'' else ''false''),
          (''claims_shard0_block'', str_int (cl_claims_shard0_block args)),
          (''claims_shard1_block'', str_int (cl_claims_shard1_block args)),
          (''valuation_price_reference_shard0_block'', str_int (cl_price_reference_shard0_block args)),
          (''valuation_price_usd_per_one'', ''0.00074801''),
          (''wallet_airdrop_usd'', wallet_usd), (''total_usd'', total_usd),
          (''nonce_shard0'', nonce0), (''nonce_shard1'', nonce1),
          (''code_hash_shard0'', code0), (''code_hash_shard1'', code1)] (concat cells)"
    unfolding make_claim_row_def bindR_Inr_iff by blast
  note keys = component_cells_keys [OF cells]
  have distinct: "distinct (map fst (rev (concat cells)))" using keys cell_names(1) by (metis distinct_rev rev_map)
  have fixed: "map_of (rev (concat cells)) k = None"
    if "k \<in> set [''secure_key'', ''address'', ''wallet_airdrop_usd'', ''total_usd'']" for k
  proof -
    have "k \<notin> set (map fst (concat cells))" unfolding keys using cell_names(2) that unfolding list_all_iff by blast
    then show ?thesis by (simp add: map_of_eq_None_iff)
  qed
  show "\<exists>key address. value_field r ''secure_key'' = Inr key \<and> value_field r ''address'' = Inr address \<and>
      dict_get row ''secure_key'' = Some key \<and> dict_get row ''address'' = Some address"
    using f fixed by (simp add: row dict_sets_get)
  show "\<exists>v one. dict_get values c = Some v \<and> one_string v = Inr one \<and>
      dict_get row (c @ ''_atto'') = Some (str_int v) \<and> dict_get row (c @ ''_one'') = Some one" if c: "c \<in> set COMPONENTS" for c
  proof -
    obtain v one where v: "dict_get values c = Some v" "one_string v = Inr one"
      "(c @ ''_atto'', str_int v) \<in> set (rev (concat cells))" "(c @ ''_one'', one) \<in> set (rev (concat cells))"
      using component_cells_get [OF cells c] by auto
    then show ?thesis using distinct by (simp add: row dict_sets_get map_of_eq_Some_iff [THEN iffD2])
  qed
  show "\<exists>v usd. dict_get values ''wallet_airdrop'' = Some v \<and> usd_string v = Inr usd \<and> dict_get row ''wallet_airdrop_usd'' = Some usd"
    "\<exists>v usd. dict_get values ''total_claim'' = Some v \<and> usd_string v = Inr usd \<and> dict_get row ''total_usd'' = Some usd"
    using f(3, 4) fixed by (auto simp: row dict_sets_get component_def bindR_Inr_iff of_option_Inr_iff)
qed

lemma dict_record_cell:
  assumes "dict_record names row = Inr cells" "f \<in> set names" "dict_get row f = Some v"
  shows "map_of (zip names cells) f = Some v" "length cells = length names"
  using assms by (auto simp: dict_record_def map_of_zip_map split: if_splits)

text \<open>The columns that a line is about.\<close>

definition line_names :: "string list" where
  "line_names = [''secure_key'', ''address'', ''wallet_airdrop_usd'', ''total_usd''] @
     map (\<lambda>c. c @ ''_atto'') COMPONENTS @ map (\<lambda>c. c @ ''_one'') COMPONENTS"

lemma line_names_output: "set line_names \<subseteq> set (output_fields b)"
proof -
  have "set line_names \<subseteq> set (output_fields False)" "set line_names \<subseteq> set (output_fields True)" by code_simp+
  then show ?thesis by (cases b) simp_all
qed

lemma claim_lineI:
  assumes row: "make_claim_row args r values = Inr row" and rec: "dict_record (output_fields b) row' = Inr cells"
    and same: "\<And>f. f \<in> set line_names \<Longrightarrow> dict_get row' f = dict_get row f"
    and fields: "value_field r ''secure_key'' = Inr key" "value_field r ''address'' = Inr address"
    and amount: "\<And>c v. c \<in> set COMPONENTS \<Longrightarrow> dict_get values c = Some v \<Longrightarrow> amount c = v"
  shows "claim_line (output_fields b) key address amount cells"
proof -
  have cell: "map_of (zip (output_fields b) cells) f = Some v" if "f \<in> set line_names" "dict_get row f = Some v" for f v
    using dict_record_cell(1) [OF rec, of f v] same that line_names_output [of b] by auto
  have len: "length cells = length (output_fields b)" using rec by (auto simp: dict_record_def split: if_splits)
  have totals: "''wallet_airdrop'' \<in> set COMPONENTS" "''total_claim'' \<in> set COMPONENTS" by (simp_all add: COMPONENTS_def)
  note g = make_claim_row_get [OF row]
  have names: "''secure_key'' \<in> set line_names" "''address'' \<in> set line_names" "''wallet_airdrop_usd'' \<in> set line_names" "''total_usd'' \<in> set line_names"
    "\<And>c. c \<in> set COMPONENTS \<Longrightarrow> c @ ''_atto'' \<in> set line_names \<and> c @ ''_one'' \<in> set line_names"
    by (simp_all add: line_names_def)
  have comps: "map_of (zip (output_fields b) cells) (c @ ''_atto'') = Some (str_int (amount c)) \<and>
      (\<exists>one. one_string (amount c) = Inr one \<and> map_of (zip (output_fields b) cells) (c @ ''_one'') = Some one)"
    if "c \<in> set COMPONENTS" for c
    using g(2) [OF that] cell names(5) [OF that] amount [OF that] by auto
  have "map_of (zip (output_fields b) cells) ''secure_key'' = Some key" "map_of (zip (output_fields b) cells) ''address'' = Some address"
    using g(1) fields cell names(1, 2) by auto
  moreover have "\<exists>usd. usd_string (amount ''wallet_airdrop'') = Inr usd \<and> map_of (zip (output_fields b) cells) ''wallet_airdrop_usd'' = Some usd"
    "\<exists>usd. usd_string (amount ''total_claim'') = Inr usd \<and> map_of (zip (output_fields b) cells) ''total_usd'' = Some usd"
    using g(3, 4) amount totals cell names(3, 4) by blast+
  ultimately show ?thesis using len comps by (simp add: claim_line_def Let_def)
qed


lemma row_component_get:
  assumes "actual_values (Some r) = Inr vs" "dict_get vs c = Some v"
  shows "row_component c r = v"
  using assms by (simp add: row_component_def)

lemma add_to_table_rows:
  assumes "add_to_table names t row values b = Inr t'"
  obtains cells where "dict_record names row = Inr cells" "ct_rows t' = ct_rows t @ [cells]"
  using assms by (auto simp: add_to_table_def bindR_Inr_iff)

lemma claim_actual_rows:
  assumes "claim_actual args st r = Inr st'" "value_field r ''secure_key'' = Inr key"
  obtains cells where "claim_line (output_fields False) key (get_or_empty r ''address'') (\<lambda>c. row_component c r) cells"
    "ct_rows (cm_all st') = ct_rows (cm_all st) @ [cells]"
    "map_option ct_rows (cm_over st') = map_option (\<lambda>t. ct_rows t @ (if over_one_usd r then [cells] else [])) (cm_over st)"
    "cm_original st' = cm_original st"
proof -
  from assms(1) obtain vs row address t tot over where v: "actual_values (Some r) = Inr vs"
    and row: "make_claim_row args r vs = Inr row" and addr: "value_field r ''address'' = Inr address"
    and t: "add_to_table (output_fields False) (cm_all st) row vs (address \<noteq> []) = Inr t"
    and tot: "dict_get vs ''total_claim'' = Some tot"
    and over: "(case cm_over st of
          Some over \<Rightarrow>
            if strict_over_one_usd tot
            then bindR (add_to_table (output_fields False) over row vs (address \<noteq> [])) (\<lambda>t. Inr (Some t))
            else Inr (Some over)
        | None \<Rightarrow> Inr None) = Inr over"
    and "st\<lparr>cm_all := t, cm_over := over\<rparr> = st'"
    unfolding claim_actual_def component_def bindR_Inr_iff of_option_Inr_iff sum.inject by blast
  note st' = this(7) [symmetric]
  obtain cells where cells: "dict_record (output_fields False) row = Inr cells" "ct_rows t = ct_rows (cm_all st) @ [cells]"
    using t by (rule add_to_table_rows)
  have "claim_line (output_fields False) key (get_or_empty r ''address'') (\<lambda>c. row_component c r) cells"
    using value_field_get [OF addr] row_component_get [OF v] addr by (intro claim_lineI [OF row cells(1) refl assms(2)]) auto
  moreover have "over_one_usd r = strict_over_one_usd tot" by (simp add: over_one_usd_def row_component_get [OF v tot])
  then have "map_option ct_rows over = map_option (\<lambda>t. ct_rows t @ (if over_one_usd r then [cells] else [])) (cm_over st)"
    using over cells(1) by (cases "cm_over st"; cases "strict_over_one_usd tot") (auto simp: bindR_Inr_iff elim!: add_to_table_rows)
  ultimately show thesis using cells(2) by (intro that) (simp_all add: st')
qed

text \<open>A line of the table of the original list has the listed balances as well.\<close>

definition original_line :: "string \<Rightarrow> string \<Rightarrow> (string \<Rightarrow> int) \<Rightarrow> csv_row \<Rightarrow> string list \<Rightarrow> bool" where
  "original_line key address amount original cells \<longleftrightarrow>
     claim_line (output_fields True) key address amount cells \<and>
     (let cell = map_of (zip (output_fields True) cells) in
        cell ''original_liquid_shard0_atto'' = Some (str_int (field_value ''balance_shard_0_atto'' original)) \<and>
        cell ''original_liquid_shard1_atto'' = Some (str_int (field_value ''balance_shard_1_atto'' original)) \<and>
        cell ''original_liquid_total_atto'' =
          Some (str_int (field_value ''balance_shard_0_atto'' original + field_value ''balance_shard_1_atto'' original)))"

lemma original_names:
  "list_all (\<lambda>f. f \<notin> set line_names) [''original_liquid_shard0_atto'', ''original_liquid_shard1_atto'', ''original_liquid_total_atto'',
     ''original_liquid_shard0_one'', ''original_liquid_shard1_one'', ''original_liquid_total_one'', ''original_liquid_usd'']"
  "{''original_liquid_shard0_atto'', ''original_liquid_shard1_atto'', ''original_liquid_total_atto''} \<subseteq> set (output_fields True)"
  by code_simp+

lemma actual_values_amount:
  assumes "actual_values actual = Inr values" "dict_get values c = Some v"
  shows "weigh (row_component c) actual = v"
proof (cases actual)
  case None
  then have "values = map (\<lambda>c. (c, 0)) COMPONENTS" using assms(1) by (simp add: actual_values_def)
  then show ?thesis using assms(2) None by (auto dest!: map_of_SomeD)
next
  case (Some r)
  then show ?thesis using assms row_component_get by simp
qed

lemma claim_original_rows:
  assumes "claim_original args st key actual original = Inr st'" "\<And>r. actual = Some r \<Longrightarrow> value_field r ''secure_key'' = Inr key"
  obtains cells where "original_line key (first_address actual (Some original)) (\<lambda>c. weigh (row_component c) actual) original cells"
    "ct_rows (cm_original st') = ct_rows (cm_original st) @ [cells]" "cm_all st' = cm_all st" "cm_over st' = cm_over st"
    "field_value ''balance_total_atto'' original = field_value ''balance_shard_0_atto'' original + field_value ''balance_shard_1_atto'' original"
proof -
  from assms(1) obtain vs address shown row o0 o1 tot one0 one1 one_total usd t where v: "actual_values actual = Inr vs"
    and addr: "value_field original ''address'' = Inr address" "value_field (base_row key actual address) ''address'' = Inr shown"
    and row: "make_claim_row args (if shown = [] \<and> address \<noteq> [] then dict_set ''address'' (Some address) (base_row key actual address)
        else base_row key actual address) vs = Inr row"
    and liquid: "int_of_field original ''balance_shard_0_atto'' = Inr o0" "int_of_field original ''balance_shard_1_atto'' = Inr o1"
      "int_of_field original ''balance_total_atto'' = Inr tot" "\<not> tot \<noteq> o0 + o1"
    and t: "add_to_table (output_fields True) (cm_original st) (foldl (\<lambda>d (k, v). dict_set k v d) row
             [(''original_liquid_shard0_atto'', str_int o0), (''original_liquid_shard1_atto'', str_int o1),
              (''original_liquid_total_atto'', str_int tot), (''original_liquid_shard0_one'', one0),
              (''original_liquid_shard1_one'', one1), (''original_liquid_total_one'', one_total), (''original_liquid_usd'', usd)]) vs
         (dict_get (foldl (\<lambda>d (k, v). dict_set k v d) row
             [(''original_liquid_shard0_atto'', str_int o0), (''original_liquid_shard1_atto'', str_int o1),
              (''original_liquid_total_atto'', str_int tot), (''original_liquid_shard0_one'', one0),
              (''original_liquid_shard1_one'', one1), (''original_liquid_total_one'', one_total), (''original_liquid_usd'', usd)]) ''address'' \<noteq> Some []) = Inr t"
    and st': "st\<lparr>cm_original := t, cm_liquid_total := cm_liquid_total st + tot,
                cm_liquid_usd_scaled := cm_liquid_usd_scaled st + tot * PRICE_NUMERATOR\<rparr> = st'"
    unfolding claim_original_def Let_def bindR_Inr_iff if_Inl_Inr_iff sum.inject by blast
  define base where "base = (if shown = [] \<and> address \<noteq> [] then dict_set ''address'' (Some address) (base_row key actual address)
    else base_row key actual address)"
  note row = row [folded base_def]
  define row' where "row' = foldl (\<lambda>d (k, v). dict_set k v d) row
             [(''original_liquid_shard0_atto'', str_int o0), (''original_liquid_shard1_atto'', str_int o1),
              (''original_liquid_total_atto'', str_int tot), (''original_liquid_shard0_one'', one0),
              (''original_liquid_shard1_one'', one1), (''original_liquid_total_one'', one_total), (''original_liquid_usd'', usd)]"
  obtain cells where cells: "dict_record (output_fields True) row' = Inr cells" "ct_rows t = ct_rows (cm_original st) @ [cells]"
    using t unfolding row'_def [symmetric] by (rule add_to_table_rows)
  have same: "dict_get row' f = dict_get row f" if "f \<in> set line_names" for f
    using original_names(1) that by (auto simp: row'_def)
  have key: "value_field base ''secure_key'' = Inr key"
    using assms(2) by (cases actual) (auto simp: base_def base_row_def value_field_def field_def)
  have "value_field base ''address'' = Inr (first_address actual (Some original))"
    using addr value_field_get [OF addr(1)] value_field_get [OF addr(2)]
    by (cases actual) (auto simp: base_def base_row_def first_address_def value_field_def field_def get_or_empty_def Let_def)
  note line = claim_lineI [OF row cells(1) same key this, of "\<lambda>c. weigh (row_component c) actual"]
  have new: "dict_get row' ''original_liquid_shard0_atto'' = Some (str_int o0)" "dict_get row' ''original_liquid_shard1_atto'' = Some (str_int o1)"
    "dict_get row' ''original_liquid_total_atto'' = Some (str_int tot)" by (simp_all add: row'_def)
  have "original_line key (first_address actual (Some original)) (\<lambda>c. weigh (row_component c) actual) original cells"
    using line actual_values_amount [OF v] dict_record_cell(1) [OF cells(1)] new original_names(2) liquid
    by (auto simp: original_line_def Let_def field_value_def)
  then show thesis using cells(2) liquid by (intro that) (simp_all add: st' [symmetric] field_value_def)
qed


lemma fill_address_Inr:
  assumes "fill_address (Some r) original = Inr actual"
  obtains r' where "actual = Some r'" "\<And>c. row_component c r' = row_component c r"
    "value_field r' ''secure_key'' = value_field r ''secure_key''" "get_or_empty r' ''address'' = first_address (Some r) original"
proof -
  obtain address0 address1 where a: "value_field r ''address'' = Inr address0" "opt_address original = Inr address1"
    and actual: "actual = Some (if address0 = [] \<and> address1 \<noteq> [] then dict_set ''address'' (Some address1) r else r)"
    using assms by (auto simp: fill_address_def opt_address_def bindR_Inr_iff split: if_splits)
  have "address1 = (case original of None \<Rightarrow> [] | Some b \<Rightarrow> get_or_empty b ''address'')"
    using a(2) by (auto simp: opt_address_def split: option.splits dest: value_field_get)
  then show thesis
    using value_field_get [OF a(1)]
    by (intro that [OF actual])
      (auto simp: row_component_address value_field_def field_def first_address_def get_or_empty_def [of "dict_set _ _ _"] Let_def)
qed

text \<open>What one key adds to the three tables.\<close>

lemma claims_step_rows:
  assumes step: "claims_step args st key currents = Inr st'"
    and key: "\<And>r. currents ! 0 = Some r \<Longrightarrow> value_field r ''secure_key'' = Inr key"
  obtains new orig where "ct_rows (cm_all st') = ct_rows (cm_all st) @ new" "ct_rows (cm_original st') = ct_rows (cm_original st) @ orig"
    "map_option ct_rows (cm_over st') =
      map_option (\<lambda>t. ct_rows t @ (if currents ! 0 \<noteq> None \<and> over_one_usd (the (currents ! 0)) then new else [])) (cm_over st)"
    "case currents ! 0 of None \<Rightarrow> new = []
     | Some r \<Rightarrow> \<exists>cells. new = [cells] \<and>
         claim_line (output_fields False) key (first_address (currents ! 0) (currents ! 1)) (\<lambda>c. row_component c r) cells"
    "case currents ! 1 of None \<Rightarrow> orig = []
     | Some b \<Rightarrow> \<exists>cells. orig = [cells] \<and>
         original_line key (first_address (currents ! 0) (currents ! 1)) (\<lambda>c. weigh (row_component c) (currents ! 0)) b cells \<and>
         field_value ''balance_total_atto'' b = field_value ''balance_shard_0_atto'' b + field_value ''balance_shard_1_atto'' b"
proof -
  from step obtain actual st1 where fill: "fill_address (currents ! 0) (currents ! 1) = Inr actual"
    and s1: "(case actual of None \<Rightarrow> Inr st | Some r \<Rightarrow> claim_actual args st r) = Inr st1"
    and s2: "(case currents ! 1 of None \<Rightarrow> Inr st1 | Some original \<Rightarrow> claim_original args st1 key actual original) = Inr st'"
    by (auto simp: claims_step_def bindR_Inr_iff)
  have filled: "currents ! 0 = None \<and> actual = None \<or>
    (\<exists>r r'. currents ! 0 = Some r \<and> actual = Some r' \<and> (\<forall>c. row_component c r' = row_component c r) \<and>
      value_field r' ''secure_key'' = Inr key \<and> get_or_empty r' ''address'' = first_address (Some r) (currents ! 1))"
  proof (cases "currents ! 0")
    case None
    then show ?thesis using fill by (auto simp: fill_address_def opt_address_def bindR_Inr_iff split: if_splits)
  next
    case (Some r)
    show ?thesis by (rule fill_address_Inr [OF fill [unfolded Some]]) (use key Some in auto)
  qed
  then have actual: "\<And>c. weigh (row_component c) actual = weigh (row_component c) (currents ! 0)"
    "\<And>r. actual = Some r \<Longrightarrow> value_field r ''secure_key'' = Inr key" by auto
  have first: "first_address actual (Some b) = first_address (currents ! 0) (currents ! 1)" if "currents ! 1 = Some b" for b
    using filled that by (auto simp: first_address_def Let_def)
  obtain new where new: "ct_rows (cm_all st1) = ct_rows (cm_all st) @ new" "cm_original st1 = cm_original st"
    "map_option ct_rows (cm_over st1) =
      map_option (\<lambda>t. ct_rows t @ (if currents ! 0 \<noteq> None \<and> over_one_usd (the (currents ! 0)) then new else [])) (cm_over st)"
    "case currents ! 0 of None \<Rightarrow> new = []
     | Some r \<Rightarrow> \<exists>cells. new = [cells] \<and>
         claim_line (output_fields False) key (first_address (currents ! 0) (currents ! 1)) (\<lambda>c. row_component c r) cells"
  proof (cases actual)
    case None
    then show thesis using s1 filled by (intro that [of "[]"]) (auto simp: option.map_ident)
  next
    case (Some r')
    then obtain r where r: "currents ! 0 = Some r"
      and f: "\<forall>c. row_component c r' = row_component c r" "get_or_empty r' ''address'' = first_address (Some r) (currents ! 1)"
      using filled by auto
    have "claim_actual args st r' = Inr st1" using s1 Some by simp
    from claim_actual_rows [OF this actual(2) [OF Some]] obtain cells where c:
      "claim_line (output_fields False) key (get_or_empty r' ''address'') (\<lambda>c. row_component c r') cells"
      "ct_rows (cm_all st1) = ct_rows (cm_all st) @ [cells]"
      "map_option ct_rows (cm_over st1) = map_option (\<lambda>t. ct_rows t @ (if over_one_usd r' then [cells] else [])) (cm_over st)"
      "cm_original st1 = cm_original st" by metis
    have "over_one_usd r' = over_one_usd r" using f by (simp add: over_one_usd_def)
    then show thesis using c f r by (intro that [of "[cells]"]) auto
  qed
  show thesis
  proof (cases "currents ! 1")
    case None
    then have "st' = st1" using s2 by simp
    then show thesis using new None by (intro that [of new "[]"]) auto
  next
    case (Some b)
    have "claim_original args st1 key actual b = Inr st'" using s2 Some by simp
    from claim_original_rows [OF this actual(2)] obtain cells where c:
      "original_line key (first_address actual (Some b)) (\<lambda>c. weigh (row_component c) actual) b cells"
      "ct_rows (cm_original st') = ct_rows (cm_original st1) @ [cells]" "cm_all st' = cm_all st1" "cm_over st' = cm_over st1"
      "field_value ''balance_total_atto'' b = field_value ''balance_shard_0_atto'' b + field_value ''balance_shard_1_atto'' b" by metis
    show thesis using new c Some by (intro that [of new "[cells]"]) (simp_all add: actual(1) first [OF Some])
  qed
qed


lemma claims_fold_rows:
  assumes "foldM (\<lambda>s (k, vs). claims_step args s k vs) st gs = Inr st'"
    and "\<forall>g \<in> set gs. \<forall>r. snd g ! 0 = Some r \<longrightarrow> value_field r ''secure_key'' = Inr (fst g)"
  shows "\<exists>new orig. ct_rows (cm_all st') = ct_rows (cm_all st) @ new \<and> ct_rows (cm_original st') = ct_rows (cm_original st) @ orig \<and>
    map_option ct_rows (cm_over st') = map_option (\<lambda>t. ct_rows t @
      map snd (filter (\<lambda>(g, cells). over_one_usd (the (snd g ! 0))) (zip (filter (\<lambda>g. snd g ! 0 \<noteq> None) gs) new))) (cm_over st) \<and>
    list_all2 (\<lambda>g cells. claim_line (output_fields False) (fst g) (first_address (snd g ! 0) (snd g ! 1))
      (\<lambda>c. row_component c (the (snd g ! 0))) cells) (filter (\<lambda>g. snd g ! 0 \<noteq> None) gs) new \<and>
    list_all2 (\<lambda>g cells. original_line (fst g) (first_address (snd g ! 0) (snd g ! 1))
      (\<lambda>c. weigh (row_component c) (snd g ! 0)) (the (snd g ! 1)) cells \<and>
      field_value ''balance_total_atto'' (the (snd g ! 1)) =
        field_value ''balance_shard_0_atto'' (the (snd g ! 1)) + field_value ''balance_shard_1_atto'' (the (snd g ! 1)))
      (filter (\<lambda>g. snd g ! 1 \<noteq> None) gs) orig"
  using assms
proof (induction gs arbitrary: st)
  case Nil
  then show ?case by (auto simp: option.map_ident)
next
  case (Cons g gs)
  then obtain st1 where s1: "claims_step args st (fst g) (snd g) = Inr st1"
    and rest: "foldM (\<lambda>s (k, vs). claims_step args s k vs) st1 gs = Inr st'" by (cases g) (auto simp: bindR_Inr_iff)
  from Cons.IH [OF rest] Cons.prems(2) obtain new orig where IH:
    "ct_rows (cm_all st') = ct_rows (cm_all st1) @ new" "ct_rows (cm_original st') = ct_rows (cm_original st1) @ orig"
    "map_option ct_rows (cm_over st') = map_option (\<lambda>t. ct_rows t @
      map snd (filter (\<lambda>(g, cells). over_one_usd (the (snd g ! 0))) (zip (filter (\<lambda>g. snd g ! 0 \<noteq> None) gs) new))) (cm_over st1)"
    "list_all2 (\<lambda>g cells. claim_line (output_fields False) (fst g) (first_address (snd g ! 0) (snd g ! 1))
      (\<lambda>c. row_component c (the (snd g ! 0))) cells) (filter (\<lambda>g. snd g ! 0 \<noteq> None) gs) new"
    "list_all2 (\<lambda>g cells. original_line (fst g) (first_address (snd g ! 0) (snd g ! 1))
      (\<lambda>c. weigh (row_component c) (snd g ! 0)) (the (snd g ! 1)) cells \<and>
      field_value ''balance_total_atto'' (the (snd g ! 1)) =
        field_value ''balance_shard_0_atto'' (the (snd g ! 1)) + field_value ''balance_shard_1_atto'' (the (snd g ! 1)))
      (filter (\<lambda>g. snd g ! 1 \<noteq> None) gs) orig" by auto
  obtain new1 orig1 where new1: "ct_rows (cm_all st1) = ct_rows (cm_all st) @ new1" "ct_rows (cm_original st1) = ct_rows (cm_original st) @ orig1"
    "map_option ct_rows (cm_over st1) =
      map_option (\<lambda>t. ct_rows t @ (if snd g ! 0 \<noteq> None \<and> over_one_usd (the (snd g ! 0)) then new1 else [])) (cm_over st)"
    "case snd g ! 0 of None \<Rightarrow> new1 = []
     | Some r \<Rightarrow> \<exists>cells. new1 = [cells] \<and>
         claim_line (output_fields False) (fst g) (first_address (snd g ! 0) (snd g ! 1)) (\<lambda>c. row_component c r) cells"
    "case snd g ! 1 of None \<Rightarrow> orig1 = []
     | Some b \<Rightarrow> \<exists>cells. orig1 = [cells] \<and>
         original_line (fst g) (first_address (snd g ! 0) (snd g ! 1)) (\<lambda>c. weigh (row_component c) (snd g ! 0)) b cells \<and>
         field_value ''balance_total_atto'' b = field_value ''balance_shard_0_atto'' b + field_value ''balance_shard_1_atto'' b"
    by (rule claims_step_rows [OF s1]) (use Cons.prems(2) in auto)
  show ?case
    by (rule exI [of _ "new1 @ new"], rule exI [of _ "orig1 @ orig"])
      (use IH new1 in \<open>cases "cm_over st"; cases "snd g ! 0"; cases "snd g ! 1"; auto\<close>)
qed

lemma actual_values_get_component:
  assumes "actual_values (Some r) = Inr values" "c \<in> set COMPONENTS"
  shows "dict_get values c \<noteq> None"
  by (rule actual_values_Inr [OF assms(1)]) (use assms(2) in \<open>auto simp: COMPONENTS_def\<close>)

lemma read_amounts_get:
  assumes "read_amounts r = Inr vs" "dict_get vs c = Some v"
  shows "\<exists>name. (c, name) \<in> set ACTUAL_FIELDS \<and> int_of_field r name = Inr v"
proof -
  have "\<exists>name. (c, name) \<in> set fields \<and> int_of_field r name = Inr v"
    if "mapM (\<lambda>(c, name). bindR (int_of_field r name) (\<lambda>v. Inr (c, v))) fields = Inr us" "(c, v) \<in> set us" for fields us
    using mapM_mem [OF that] by (auto simp: bindR_Inr_iff)
  from this [OF assms(1) [unfolded read_amounts_def] map_of_SomeD [OF assms(2)]] show ?thesis by auto
qed

lemma actual_values_fields:
  assumes "actual_values (Some r) = Inr values" "(c, name) \<in> set ACTUAL_FIELDS"
    "c \<notin> {''wallet_airdrop'', ''staked_to_vault'', ''total_claim''}"
  shows "int_of_field r name = Inr (row_component c r)"
proof -
  obtain vs kvs where vs: "read_amounts r = Inr vs" and get: "dict_get values c = dict_get vs c"
  proof -
    from assms(1) obtain vs wallet staked total_claim where vs: "read_amounts r = Inr vs"
      and fold: "foldM set_expected vs [(''wallet_airdrop'', wallet), (''staked_to_vault'', staked), (''total_claim'', total_claim)] = Inr values"
      by (auto simp: actual_values_def Let_def component_def bindR_Inr_iff of_option_Inr_iff simp del: foldM.simps set_map split: if_splits)
    show thesis by (rule that [OF vs]) (use assms(3) in \<open>simp add: foldM_set_expected [OF fold]\<close>)
  qed
  have "c \<in> set COMPONENTS" using assms(2) by (auto simp: ACTUAL_FIELDS_def COMPONENTS_def)
  then have "dict_get values c \<noteq> None" by (rule actual_values_get_component [OF assms(1)])
  then obtain v where v: "dict_get values c = Some v" by blast
  then obtain name' where n: "(c, name') \<in> set ACTUAL_FIELDS" "int_of_field r name' = Inr v" using read_amounts_get [OF vs] get by auto
  have "distinct (map fst ACTUAL_FIELDS)" by code_simp
  then have "name' = name" using n(1) assms(2) by (metis map_of_eq_Some_iff option.inject)
  with n(2) show ?thesis by (simp add: row_component_get [OF assms(1) v])
qed

text \<open>The amounts of a ledger row: six are its cells, the others are sums of these.\<close>

definition ledger_amounts :: "csv_row \<Rightarrow> bool" where
  "ledger_amounts r \<longleftrightarrow>
     int_of_field r ''liquid_shard0_atto'' = Inr (row_component ''liquid_shard0'' r) \<and>
     int_of_field r ''liquid_shard1_atto'' = Inr (row_component ''liquid_shard1'' r) \<and>
     int_of_field r ''active_delegation_atto'' = Inr (row_component ''active_staked_or_delegated'' r) \<and>
     int_of_field r ''pending_undelegation_atto'' = Inr (row_component ''pending_undelegation'' r) \<and>
     int_of_field r ''unclaimed_reward_atto'' = Inr (row_component ''unclaimed_staking_reward'' r) \<and>
     int_of_field r ''pending_cross_shard_atto'' = Inr (row_component ''pending_cross_shard'' r) \<and>
     row_component ''liquid_total'' r = row_component ''liquid_shard0'' r + row_component ''liquid_shard1'' r \<and>
     row_component ''wallet_airdrop'' r = row_component ''liquid_total'' r + row_component ''pending_undelegation'' r +
       row_component ''unclaimed_staking_reward'' r + row_component ''pending_cross_shard'' r \<and>
     row_component ''staked_to_vault'' r = row_component ''active_staked_or_delegated'' r \<and>
     row_component ''total_claim'' r = row_component ''wallet_airdrop'' r + row_component ''staked_to_vault'' r"

lemma ledger_amountsI:
  assumes "actual_values (Some r) = Inr values"
  shows "ledger_amounts r"
proof -
  have fields: "int_of_field r ''liquid_shard0_atto'' = Inr (row_component ''liquid_shard0'' r)"
     "int_of_field r ''liquid_shard1_atto'' = Inr (row_component ''liquid_shard1'' r)"
     "int_of_field r ''active_delegation_atto'' = Inr (row_component ''active_staked_or_delegated'' r)"
     "int_of_field r ''pending_undelegation_atto'' = Inr (row_component ''pending_undelegation'' r)"
     "int_of_field r ''unclaimed_reward_atto'' = Inr (row_component ''unclaimed_staking_reward'' r)"
     "int_of_field r ''pending_cross_shard_atto'' = Inr (row_component ''pending_cross_shard'' r)"
    by (rule actual_values_fields [OF assms], simp add: ACTUAL_FIELDS_def, simp)+
  obtain l0 l1 un re rc st where get: "dict_get values ''liquid_shard0'' = Some l0" "dict_get values ''liquid_shard1'' = Some l1"
    "dict_get values ''liquid_total'' = Some (l0 + l1)" "dict_get values ''pending_undelegation'' = Some un"
    "dict_get values ''unclaimed_staking_reward'' = Some re" "dict_get values ''pending_cross_shard'' = Some rc"
    "dict_get values ''active_staked_or_delegated'' = Some st"
    "dict_get values ''wallet_airdrop'' = Some (l0 + l1 + un + re + rc)" "dict_get values ''staked_to_vault'' = Some st"
    "dict_get values ''total_claim'' = Some (l0 + l1 + un + re + rc + st)"
    by (rule actual_values_Inr [OF assms])
  show ?thesis unfolding ledger_amounts_def using fields by (simp add: get [THEN row_component_get [OF assms]])
qed

lemma claims_fold_values:
  assumes "foldM (\<lambda>s (k, vs). claims_step args s k vs) st gs = Inr st'" "g \<in> set gs" "snd g ! 0 = Some r"
  shows "ledger_amounts r"
  using assms(1, 2)
proof (induction gs arbitrary: st)
  case (Cons h gs)
  then obtain st1 where step: "claims_step args st (fst h) (snd h) = Inr st1"
    and rest: "foldM (\<lambda>s (k, vs). claims_step args s k vs) st1 gs = Inr st'" by (cases h) (auto simp: bindR_Inr_iff)
  show ?case
  proof (cases "g = h")
    case True
    then obtain r' st2 a where "claim_actual args st r' = Inr st2" "r' = r \<or> r' = dict_set ''address'' a r"
      using step assms(3) by (auto simp: claims_step_def fill_address_def opt_address_def bindR_Inr_iff split: if_splits)
    then obtain vs where "actual_values (Some r) = Inr vs"
      by (auto simp: claim_actual_def bindR_Inr_iff actual_values_address)
    then show ?thesis by (rule ledger_amountsI)
  qed (use Cons rest in auto)
qed simp

lemma sorted_rows_key:
  assumes "sorted_rows raw = map Inr A" "a \<in> set A"
  shows "value_field (snd a) ''secure_key'' = Inr (fst a)"
proof -
  have "Inr (fst a, snd a) \<in> set (sorted_rows raw)" using assms by simp
  from sorted_gen_checked [OF this [unfolded sorted_rows_def]] show ?thesis
    by (auto simp: clean_row_def value_field_def field_def dest!: sym [of _ "snd a"])
qed

text \<open>The two lists that a loop which returns has read, and the fold over their keys.\<close>

lemma claims_loop_Inr:
  assumes "claims_loop args ledger original = Inr st"
  obtains A B where "sorted_rows (dict_reader ledger) = map Inr A" "sorted_rows (dict_reader original) = map Inr B"
    "\<forall>xs \<in> set [A, B]. sorted_wrt (<) (map fst xs)"
    "foldM (\<lambda>s (k, vs). claims_step args s k vs) (claims_start args) (groups [A, B]) = Inr st"
proof -
  from assms have run: "merge_streams (claims_step args) (claims_start args) [sorted_rows (dict_reader ledger), sorted_rows (dict_reader original)] = Inr st"
    by (simp add: claims_loop_def claims_start_def)
  obtain xss where xss: "[sorted_rows (dict_reader ledger), sorted_rows (dict_reader original)] = map (map Inr) xss"
    and fold: "foldM (\<lambda>s (k, vs). claims_step args s k vs) (claims_start args) (groups xss) = Inr st"
    and sorted: "\<forall>xs \<in> set xss. sorted_wrt (<) (map fst xs)"
  proof (rule merge_streams_Inr [OF run])
    show "\<forall>s \<in> set [sorted_rows (dict_reader ledger), sorted_rows (dict_reader original)]. increasing s"
      by (simp add: claim_source.gen_increasing)
  qed (rule that)
  from xss obtain A B where "xss = [A, B]" by (auto simp: Cons_eq_map_conv)
  with xss fold sorted show thesis by (intro that) auto
qed

lemma list_all2_image:
  assumes "list_all2 P xs ys" "map h xs = zs" "\<And>x y. x \<in> set xs \<Longrightarrow> P x y \<Longrightarrow> Q (h x) y"
  shows "list_all2 Q zs ys"
  using assms by (auto simp: list_all2_conv_all_nth)

lemma claims_loop_rows:
  assumes "\<forall>xs \<in> set [A, B]. sorted_wrt (<) (map fst xs)" "\<forall>a \<in> set A. value_field (snd a) ''secure_key'' = Inr (fst a)"
    and fold: "foldM (\<lambda>s (k, vs). claims_step args s k vs) (claims_start args) (groups [A, B]) = Inr st"
  shows "list_all2 (\<lambda>a cells. claim_line (output_fields False) (fst a) (first_address (Some (snd a)) (map_of B (fst a)))
      (\<lambda>c. row_component c (snd a)) cells) A (ct_rows (cm_all st))"
    "list_all2 (\<lambda>b cells. original_line (fst b) (first_address (map_of A (fst b)) (Some (snd b)))
      (\<lambda>c. weigh (row_component c) (map_of A (fst b))) (snd b) cells) B (ct_rows (cm_original st))"
    "cm_over st = Some t \<Longrightarrow> ct_rows t = map snd (filter (\<lambda>(a, cells). over_one_usd (snd a)) (zip A (ct_rows (cm_all st))))"
proof -
  let ?gs = "groups [A, B]"
  have g: "snd g = [map_of A (fst g), map_of B (fst g)]" if "g \<in> set ?gs" for g using that by (auto simp: groups_def)
  have A: "map (\<lambda>g. (fst g, the (snd g ! 0))) (filter (\<lambda>g. snd g ! 0 \<noteq> None) ?gs) = A"
    and B: "map (\<lambda>g. (fst g, the (snd g ! 1))) (filter (\<lambda>g. snd g ! 1 \<noteq> None) ?gs) = B"
    using groups_stream [OF assms(1), of 0] groups_stream [OF assms(1), of 1] by simp_all
  have "\<forall>g \<in> set ?gs. \<forall>r. snd g ! 0 = Some r \<longrightarrow> value_field r ''secure_key'' = Inr (fst g)"
    using assms(2) by (auto simp: g dest!: map_of_SomeD)
  from claims_fold_rows [OF fold this] obtain new orig where r: "ct_rows (cm_all st) = new" "ct_rows (cm_original st) = orig"
    "map_option ct_rows (cm_over st) = map_option (\<lambda>t. ct_rows t @
      map snd (filter (\<lambda>(g, cells). over_one_usd (the (snd g ! 0))) (zip (filter (\<lambda>g. snd g ! 0 \<noteq> None) ?gs) new))) (cm_over (claims_start args))"
    and all: "list_all2 (\<lambda>g cells. claim_line (output_fields False) (fst g) (first_address (snd g ! 0) (snd g ! 1))
      (\<lambda>c. row_component c (the (snd g ! 0))) cells) (filter (\<lambda>g. snd g ! 0 \<noteq> None) ?gs) new"
    and listed: "list_all2 (\<lambda>g cells. original_line (fst g) (first_address (snd g ! 0) (snd g ! 1))
      (\<lambda>c. weigh (row_component c) (snd g ! 0)) (the (snd g ! 1)) cells \<and>
      field_value ''balance_total_atto'' (the (snd g ! 1)) =
        field_value ''balance_shard_0_atto'' (the (snd g ! 1)) + field_value ''balance_shard_1_atto'' (the (snd g ! 1)))
      (filter (\<lambda>g. snd g ! 1 \<noteq> None) ?gs) orig"
    by (auto simp: claims_start_def new_table_def)
  show "list_all2 (\<lambda>a cells. claim_line (output_fields False) (fst a) (first_address (Some (snd a)) (map_of B (fst a)))
      (\<lambda>c. row_component c (snd a)) cells) A (ct_rows (cm_all st))"
    unfolding r(1) using all A by (rule list_all2_image) (auto dest!: g)
  show "list_all2 (\<lambda>b cells. original_line (fst b) (first_address (map_of A (fst b)) (Some (snd b)))
      (\<lambda>c. weigh (row_component c) (map_of A (fst b))) (snd b) cells) B (ct_rows (cm_original st))"
    unfolding r(2) using listed B by (rule list_all2_image) (auto dest!: g)
  show "ct_rows t = map snd (filter (\<lambda>(a, cells). over_one_usd (snd a)) (zip A (ct_rows (cm_all st))))" if "cm_over st = Some t"
  proof -
    have "map snd (filter (\<lambda>(a, cells). over_one_usd (snd a)) (zip (map (\<lambda>g. (fst g, the (snd g ! 0))) gs) new)) =
        map snd (filter (\<lambda>(g, cells). over_one_usd (the (snd g ! 0))) (zip gs new))" for gs :: "(string \<times> csv_row option list) list"
      by (simp add: zip_map1 filter_map o_def case_prod_unfold)
    from this [of "filter (\<lambda>g. snd g ! 0 \<noteq> None) ?gs"] show ?thesis
      using r(3) that unfolding A r(1) by (auto simp: claims_start_def new_table_def split: if_splits)
  qed
qed

definition sample_claims :: claim_args where
  "sample_claims = \<lparr>cl_actual_ledger = ''led'', cl_original_qualifying = ''orig'', cl_actual_recovery_summary = ''r0'',
     cl_qualifying_recovery_summary = ''r1'', cl_all_output = ''all'', cl_over_one_usd_output = Some ''over'',
     cl_original_output = ''o'', cl_summary_output = ''sum'', cl_claims_shard0_block = 1, cl_claims_shard1_block = 2,
     cl_price_reference_shard0_block = 3\<rparr>"

definition sample_ledger :: string where
  "sample_ledger = csv_text [[''secure_key'', ''address'', ''liquid_shard0_atto'', ''liquid_shard1_atto'', ''liquid_total_atto'',
       ''active_delegation_atto'', ''pending_undelegation_atto'', ''unclaimed_reward_atto'', ''pending_cross_shard_atto'',
       ''nonce_shard0'', ''nonce_shard1'', ''code_hash_shard0'', ''code_hash_shard1''],
     [''0xA1'', [], ''7'', ''2'', ''9'', ''2000000000000000000000'', ''1'', ''0'', ''0'', ''0'', ''0'', [], []]]"

definition sample_originals :: string where
  "sample_originals = csv_text [[''secure_key'', ''address'', ''balance_shard_0_atto'', ''balance_shard_1_atto'', ''balance_total_atto'']]"

definition sample_claim_files :: files where
  "sample_claim_files = [''led'' \<mapsto> sample_ledger, ''orig'' \<mapsto> sample_originals, ''r0'' \<mapsto> ''{}'', ''r1'' \<mapsto> ''{}'']"

definition loop_summary :: "claims_state result \<Rightarrow> (int \<times> int \<times> int \<times> int \<times> int) result" where
  "loop_summary x = bindR x (\<lambda>st. Inr (cs_rows (ct_stats (cm_all st)), table_amount ''total_claim'' (cm_all st),
     (case cm_over st of None \<Rightarrow> 0 | Some t \<Rightarrow> cs_rows (ct_stats t)), cs_with_address (ct_stats (cm_original st)), cm_liquid_usd_scaled st))"

lemma sample_claims_loop:
  "loop_summary (claims_loop sample_claims sample_ledger sample_originals) = Inr (1, 2000000000000000000010, 1, 0, 0)"
  by code_simp

lemma sample_claims_loads: "loads ''{}'' = Inr (JObj [])"
  by code_simp

lemma sample_claims_build:
  obtains fs' st where "claims_build sample_claim_files sample_claims = (fs', Inr st)"
    "table_amount ''total_claim'' (cm_all st) = 2000000000000000000010"
proof -
  obtain st where st: "claims_loop sample_claims sample_ledger sample_originals = Inr st"
    "table_amount ''total_claim'' (cm_all st) = 2000000000000000000010" "cm_liquid_usd_scaled st = 0"
    using sample_claims_loop by (auto simp: loop_summary_def bindR_Inr_iff)
  have files: "sample_claim_files (cl_actual_ledger sample_claims) = Some sample_ledger"
    "sample_claim_files (cl_original_qualifying sample_claims) = Some sample_originals"
    "sample_claim_files (cl_actual_recovery_summary sample_claims) = Some ''{}''"
    "sample_claim_files (cl_qualifying_recovery_summary sample_claims) = Some ''{}''"
    "\<not> taken sample_claim_files (cl_summary_output sample_claims)"
    by (simp_all add: sample_claim_files_def sample_claims_def taken_def partial_def)
  define fs1 where "fs1 = sample_claim_files(partial ''all'' \<mapsto> [], partial ''o'' \<mapsto> [], partial ''over'' \<mapsto> [])"
  have opened: "open_atomic_outputs sample_claim_files (map snd (outputs sample_claims)) = (fs1, Inr ())"
    by (simp add: fs1_def sample_claim_files_def sample_claims_def outputs_def taken_def partial_def)
  obtain usd where "decimal_string (cm_liquid_usd_scaled st) 26 = Inr usd" by (simp add: st PRICE_NUMERATOR_def decimal_string_def)
  then have "\<exists>fs'. publish_claims sample_claims inputs j0 j1 fs1 st = (fs', Inr st)" for inputs j0 j1
    by (simp add: publish_claims_def outputs_def sample_claims_def replace_partials_def write_partials_def read_text_def fs1_def
        sample_claim_files_def partial_def Let_def)
  with opened show thesis
    using that st by (simp add: claims_build_def files read_text_def sample_claims_loads) metis
qed

text \<open>Sums over the two streams of the merge, and the optional table.\<close>

lemma sum_groups_two:
  assumes "\<forall>xs \<in> set [A, B]. sorted_wrt (<) (map fst xs)"
  shows "sum_list (map (\<lambda>g. weigh w (snd g ! 0)) (groups [A, B])) = sum_list (map (\<lambda>x. w (snd x)) A)"
    "sum_list (map (\<lambda>g. weigh w (snd g ! 1)) (groups [A, B])) = sum_list (map (\<lambda>x. w (snd x)) B)"
  using sum_groups [OF assms, of 0 w] sum_groups [OF assms, of 1 w] by simp_all

lemma claims_over_table:
  assumes sorted: "\<forall>xs \<in> set [A, B]. sorted_wrt (<) (map fst xs)" and keys: "\<forall>a \<in> set A. value_field (snd a) ''secure_key'' = Inr (fst a)"
    and fold: "foldM (\<lambda>s (k, vs). claims_step args s k vs) (claims_start args) (groups [A, B]) = Inr st"
    and files: "\<forall>(label, path) \<in> set (outputs args). path \<noteq> cl_summary_output args \<longrightarrow> fs' path = Some (table_text st label)"
  shows "case cm_over st of
       None \<Rightarrow> cl_over_one_usd_output args \<in> {None, Some []}
     | Some t \<Rightarrow> ct_rows t = map snd (filter (\<lambda>(a, cells). over_one_usd (snd a)) (zip A (ct_rows (cm_all st)))) \<and>
         (the (cl_over_one_usd_output args) \<noteq> cl_summary_output args \<longrightarrow>
           fs' (the (cl_over_one_usd_output args)) = Some (csv_text (output_fields False # ct_rows t))) \<and>
         cs_rows (ct_stats t) = int (length (filter (\<lambda>a. over_one_usd (snd a)) A)) \<and>
         (\<forall>c \<in> set COMPONENTS. table_amount c t = sum_list (map (\<lambda>a. row_component c (snd a)) (filter (\<lambda>a. over_one_usd (snd a)) A)))"
proof (cases "cm_over st")
  case None
  then have "length (outputs args) \<noteq> 3" using claims_fold_adds(3) [OF fold] by (auto simp: claims_start_def split: if_splits)
  then show ?thesis using None by (auto simp: outputs_def split: option.splits if_splits)
next
  case (Some u)
  then have three: "length (outputs args) = 3" using claims_fold_adds(3) [OF fold] by (auto simp: claims_start_def split: if_splits)
  then obtain p where "cl_over_one_usd_output args = Some p" "p \<noteq> []" by (auto simp: outputs_def split: option.splits if_splits)
  then have "p \<noteq> cl_summary_output args \<longrightarrow> fs' p = Some (csv_text (output_fields False # ct_rows u))"
    using files Some by (auto simp: outputs_def table_text_def)
  moreover have "cs_rows (ct_stats u) = int (length (filter (\<lambda>a. over_one_usd (snd a)) A))"
    "\<forall>c \<in> set COMPONENTS. table_amount c u = sum_list (map (\<lambda>a. row_component c (snd a)) (filter (\<lambda>a. over_one_usd (snd a)) A))"
    using claims_fold_adds(3) [OF fold] unfolding sum_groups_two(1) [OF sorted]
    by (simp_all add: Some three claims_start_def cs_rows_new table_amount_new sum_list_if sum_list_of_bool)
  ultimately show ?thesis using claims_loop_rows(3) [OF sorted keys fold Some] \<open>cl_over_one_usd_output args = Some p\<close> by (simp add: Some)
qed

text \<open>
  C9. The claim tables keep every amount of the ledger. When the build returns, both inputs were read to their end. The
  table of all claims has one line per ledger row, in order, with its key, its address and all its amounts; the filtered table
  has exactly the lines of the rows worth more than one USD at 0.00074801 USD per ONE; the table of the original list has one
  line per listed account with the amounts of its ledger row (zero if there is none) and its listed balances. These lines
  are what is in the output files. The counts and totals of the summary, component by component, are those of the
  ledger rows, and the amounts of a ledger row are its cells and their sums.
\<close>

theorem claims_conserve:
  assumes "claims_build fs args = (fs', Inr st)"
  shows "\<exists>ledger original A B.
    fs (cl_actual_ledger args) = Some ledger \<and> fs (cl_original_qualifying args) = Some original \<and>
    sorted_rows (dict_reader ledger) = map Inr A \<and> sorted_rows (dict_reader original) = map Inr B \<and>
    (\<forall>a \<in> set A. ledger_amounts (snd a)) \<and>
    list_all2 (\<lambda>a cells. claim_line (output_fields False) (fst a) (first_address (Some (snd a)) (map_of B (fst a)))
      (\<lambda>c. row_component c (snd a)) cells) A (ct_rows (cm_all st)) \<and>
    list_all2 (\<lambda>b cells. original_line (fst b) (first_address (map_of A (fst b)) (Some (snd b)))
      (\<lambda>c. weigh (row_component c) (map_of A (fst b))) (snd b) cells) B (ct_rows (cm_original st)) \<and>
    (cl_all_output args \<noteq> cl_summary_output args \<longrightarrow>
      fs' (cl_all_output args) = Some (csv_text (output_fields False # ct_rows (cm_all st)))) \<and>
    (cl_original_output args \<noteq> cl_summary_output args \<longrightarrow>
      fs' (cl_original_output args) = Some (csv_text (output_fields True # ct_rows (cm_original st)))) \<and>
    cs_rows (ct_stats (cm_all st)) = int (length A) \<and>
    (\<forall>c \<in> set COMPONENTS. table_amount c (cm_all st) = sum_list (map (\<lambda>a. row_component c (snd a)) A)) \<and>
    (let over = (\<lambda>a. 10 ^ 26 < 74801 * row_component ''total_claim'' (snd a)) in
     case cm_over st of
       None \<Rightarrow> cl_over_one_usd_output args \<in> {None, Some []}
     | Some t \<Rightarrow> ct_rows t = map snd (filter (\<lambda>(a, cells). over a) (zip A (ct_rows (cm_all st)))) \<and>
         (the (cl_over_one_usd_output args) \<noteq> cl_summary_output args \<longrightarrow>
           fs' (the (cl_over_one_usd_output args)) = Some (csv_text (output_fields False # ct_rows t))) \<and>
         cs_rows (ct_stats t) = int (length (filter over A)) \<and>
         (\<forall>c \<in> set COMPONENTS. table_amount c t = sum_list (map (\<lambda>a. row_component c (snd a)) (filter over A)))) \<and>
    cs_rows (ct_stats (cm_original st)) = int (length B) \<and>
    cm_liquid_total st = sum_list (map (\<lambda>b. field_value ''balance_total_atto'' (snd b)) B)"
proof -
  from assms obtain ledger original where t: "fs (cl_actual_ledger args) = Some ledger" "fs (cl_original_qualifying args) = Some original"
    and loop: "claims_loop args ledger original = Inr st"
    and files: "\<forall>(label, path) \<in> set (outputs args). path \<noteq> cl_summary_output args \<longrightarrow> fs' path = Some (table_text st label)"
    by (rule claims_build_Inr)
  from loop obtain A B where lists: "sorted_rows (dict_reader ledger) = map Inr A" "sorted_rows (dict_reader original) = map Inr B"
    and sorted: "\<forall>xs \<in> set [A, B]. sorted_wrt (<) (map fst xs)"
    and fold: "foldM (\<lambda>s (k, vs). claims_step args s k vs) (claims_start args) (groups [A, B]) = Inr st"
    by (rule claims_loop_Inr)
  have keys: "\<forall>a \<in> set A. value_field (snd a) ''secure_key'' = Inr (fst a)" using sorted_rows_key [OF lists(1)] by blast
  note rows = claims_loop_rows [OF sorted keys fold] and sums = claims_fold_adds [OF fold]
  have amounts: "\<forall>a \<in> set A. ledger_amounts (snd a)"
  proof
    fix a assume "a \<in> set A"
    then have "a \<in> set (map (\<lambda>g. (fst g, the (snd g ! 0))) (filter (\<lambda>g. snd g ! 0 \<noteq> None) (groups [A, B])))"
      using groups_stream [OF sorted, of 0] by simp
    then show "ledger_amounts (snd a)" using claims_fold_values [OF fold] by auto
  qed
  have all: "cs_rows (ct_stats (cm_all st)) = int (length A)" "\<forall>c \<in> set COMPONENTS. table_amount c (cm_all st) = sum_list (map (\<lambda>a. row_component c (snd a)) A)"
    using sums(1, 2) unfolding sum_groups_two(1) [OF sorted] by (simp_all add: claims_start_def cs_rows_new table_amount_new sum_list_triv)
  have usd: "over_one_usd r \<longleftrightarrow> 10 ^ 26 < 74801 * row_component ''total_claim'' r" for r
    by (simp add: over_one_usd_def strict_over_one_usd_def PRICE_NUMERATOR_def mult.commute)
  note over = claims_over_table [OF sorted keys fold files]
  have outs: "cl_all_output args \<noteq> cl_summary_output args \<longrightarrow> fs' (cl_all_output args) = Some (csv_text (output_fields False # ct_rows (cm_all st)))"
    "cl_original_output args \<noteq> cl_summary_output args \<longrightarrow> fs' (cl_original_output args) = Some (csv_text (output_fields True # ct_rows (cm_original st)))"
    using files by (auto simp: outputs_def table_text_def)
  have orig: "cs_rows (ct_stats (cm_original st)) = int (length B)"
    "cm_liquid_total st = sum_list (map (\<lambda>b. field_value ''balance_total_atto'' (snd b)) B)"
    using sums(4, 5) unfolding sum_groups_two(2) [OF sorted] by (simp_all add: claims_start_def cs_rows_new sum_list_triv)
  show ?thesis
    unfolding Let_def usd [symmetric] by (intro exI conjI; fact t lists amounts rows(1, 2) all over outs orig)
qed

theorem claims_conserve_witness:
  "\<exists>fs' st. claims_build sample_claim_files sample_claims = (fs', Inr st) \<and> length (ct_rows (cm_all st)) = 1 \<and>
     fs' ''all'' = Some (csv_text (output_fields False # ct_rows (cm_all st))) \<and> cs_rows (ct_stats (cm_all st)) = 1 \<and>
     table_amount ''total_claim'' (cm_all st) = 2000000000000000000010"
proof -
  obtain fs' st where b: "claims_build sample_claim_files sample_claims = (fs', Inr st)"
    and tot: "table_amount ''total_claim'' (cm_all st) = 2000000000000000000010" by (rule sample_claims_build)
  have "length (sorted_rows (dict_reader sample_ledger)) = 1" by code_simp
  moreover have "sample_claim_files (cl_actual_ledger sample_claims) = Some sample_ledger"
    "cl_all_output sample_claims = ''all''" "cl_summary_output sample_claims = ''sum''"
    by (simp_all add: sample_claim_files_def sample_claims_def)
  ultimately have "length (ct_rows (cm_all st)) = 1" "fs' ''all'' = Some (csv_text (output_fields False # ct_rows (cm_all st)))"
    "cs_rows (ct_stats (cm_all st)) = 1"
    using claims_conserve [OF b] by (auto dest: list_all2_lengthD)
  with b tot show ?thesis by blast
qed

text \<open>
  C32. A refused output leaves a file behind. The outputs are opened before the block that cleans up: when the path of
  the second table is taken, the build raises, the empty partial file of the first table stays, and every
  later build that writes the same first table is refused because of it.
\<close>

theorem claims_build_leaves_partial:
  assumes "\<not> taken fs (cl_summary_output args)" "\<not> taken fs (cl_all_output args)" "fs (cl_original_output args) \<noteq> None"
    and "fs (cl_actual_ledger args) \<noteq> None" "fs (cl_original_qualifying args) \<noteq> None"
    and "fs (cl_actual_recovery_summary args) = Some r0" "loads r0 = Inr j0"
    and "fs (cl_qualifying_recovery_summary args) = Some r1" "loads r1 = Inr j1"
  shows "snd (claims_build fs args) = Inl (FileExistsError (cl_original_output args)) \<and>
    fst (claims_build fs args) = fs(partial (cl_all_output args) \<mapsto> []) \<and>
    (\<forall>later. cl_all_output later = cl_all_output args \<longrightarrow> (\<exists>e. snd (claims_build (fst (claims_build fs args)) later) = Inl e))"
proof -
  have "open_atomic_outputs fs (map snd (outputs args)) = (fs(partial (cl_all_output args) \<mapsto> []), Inl (FileExistsError (cl_original_output args)))"
    using assms(2, 3) by (auto simp: outputs_def taken_def)
  then have b: "claims_build fs args = (fs(partial (cl_all_output args) \<mapsto> []), Inl (FileExistsError (cl_original_output args)))"
    using assms by (auto simp: claims_build_def read_text_def)
  have "\<exists>e. snd (claims_build (fst (claims_build fs args)) later) = Inl e" if "cl_all_output later = cl_all_output args" for later
  proof -
    have "open_atomic_outputs (fst (claims_build fs args)) (map snd (outputs later)) =
        (fst (claims_build fs args), Inl (FileExistsError (cl_all_output args)))"
      by (simp add: b outputs_def taken_def that)
    then show ?thesis by (rule claims_build_refused)
  qed
  then show ?thesis by (simp add: b)
qed

theorem claims_build_leaves_partial_witness:
  "snd (claims_build (sample_claim_files(''o'' \<mapsto> [])) sample_claims) = Inl (FileExistsError ''o'')"
  using claims_build_leaves_partial [of "sample_claim_files(''o'' \<mapsto> [])" sample_claims "''{}''" "JObj []" "''{}''" "JObj []"]
  by (simp add: sample_claim_files_def sample_claims_def taken_def partial_def sample_claims_loads)

end
