(* ===== verification/FilterClaims.thy ===== *)
theory FilterClaims
  imports Merge Files Amounts
begin

text \<open>
  \<^verbatim>\<open>toolkit/scripts/claims/filter-claims-by-one.py\<close>: keep the claims at or above a threshold, after checking
  the amounts of every row. The rows are written as they are read, to a partial file that is renamed at the end;
  unlike the other scripts this one does not remove the partial file when it fails.
\<close>

section \<open>Addresses of aggregate deliveries\<close>

definition valid_hex_address :: "string \<Rightarrow> bool" where
  "valid_hex_address a \<longleftrightarrow> length a = 42 \<and> startswith a ''0x'' \<and> (\<forall>c \<in> set (drop 2 a). c \<in> set ''0123456789abcdef'')"

definition add_delivery_row :: "string \<Rightarrow> string list \<Rightarrow> csv_row \<Rightarrow> string list result" where
  "add_delivery_row exchange_id addresses r =
     bindR (field r ''exchange_id'') (\<lambda>rid.
     if rid \<noteq> Some exchange_id then Inl (ValueError ''exchange id mismatch'')
     else
       bindR (text_field r ''address_hex'') (\<lambda>t.
       let address = lower (strip t) in
       if \<not> valid_hex_address address then Inl (ValueError ''invalid address'')
       else if address \<in> set addresses then Inl (ValueError ''duplicate exchange address'')
       else Inr (addresses @ [address])))"

definition add_exchange :: "files \<Rightarrow> string list \<Rightarrow> string \<times> json \<Rightarrow> string list result" where
  "add_exchange fs addresses item =
     (case item of (exchange_id, exchange) \<Rightarrow>
        bindR (json_get exchange ''delivery_policy'') (\<lambda>policy.
        if policy \<noteq> JStr ''manual_from_reserve'' then Inr addresses
        else
          bindR (bindR (json_item exchange ''output'') json_text) (\<lambda>output_path.
          bindR (read_text fs output_path) (\<lambda>content.
          bindR (json_item exchange ''output_sha256'') (\<lambda>sha.
          if sha \<noteq> JStr (text_sha256 content) then Inl (ValueError ''normalized exchange source hash mismatch'')
          else if \<not> {''exchange_id'', ''address_hex''} \<subseteq> set (fieldnames content)
          then Inl (ValueError ''missing normalized exchange fields'')
          else
            bindR (foldM (add_delivery_row exchange_id) addresses (dict_reader content)) (\<lambda>addresses'.
            bindR (bindR (json_item exchange ''normalized_rows'') json_int) (\<lambda>rows.
              if int (length (dict_reader content)) \<noteq> rows then Inl (ValueError ''normalized exchange row count mismatch'')
              else Inr addresses')))))))"

definition json_items :: "json \<Rightarrow> (string \<times> json) list result" where
  "json_items j = (case j of JObj items \<Rightarrow> Inr items | _ \<Rightarrow> Inl (AttributeError ''items''))"

definition load_aggregate_delivery_addresses :: "files \<Rightarrow> string option \<Rightarrow> string list result" where
  "load_aggregate_delivery_addresses fs path =
     (case path of
        None \<Rightarrow> Inr []
      | Some p \<Rightarrow>
          if p = [] then Inr []
          else
            bindR (read_text fs p) (\<lambda>content.
            bindR (loads content) (\<lambda>summary.
            bindR (json_get summary ''schema_version'') (\<lambda>version.
            if version \<noteq> JInt 2 then Inl (ValueError ''unsupported exchange normalization summary'')
            else
              bindR (json_items (case json_item summary ''exchanges'' of Inr j \<Rightarrow> j | Inl _ \<Rightarrow> JObj [])) (\<lambda>exchanges.
                foldM (add_exchange fs) [] (sort_key fst exchanges))))))"

section \<open>One row\<close>

record filter_args =
  fa_input :: string
  fa_output :: string
  fa_summary :: string
  fa_aggregate_delivery_summary :: "string option"
  fa_minimum_one :: int
  fa_comparison_ge :: bool

definition WONE_FIELDS :: "string list" where
  "WONE_FIELDS = [''native_total_claim_atto'', ''wone_balance_atto'', ''wone_airdrop_atto'', ''qualification_total_atto'']"

record filter_entry =
  fe_value :: int
  fe_wallet :: int
  fe_vault :: int
  fe_wone :: int
  fe_qualification :: int

definition wone_overlay :: "filter_args \<Rightarrow> string list \<Rightarrow> csv_row \<Rightarrow> int \<Rightarrow> (int \<times> int) result" where
  "wone_overlay args aggregate_delivery r value =
     bindR (int_of_field r ''native_total_claim_atto'') (\<lambda>native_value.
     bindR (int_of_field r ''wone_balance_atto'') (\<lambda>wone_balance.
     bindR (int_of_field r ''wone_airdrop_atto'') (\<lambda>wone_value.
     bindR (int_of_field r ''qualification_total_atto'') (\<lambda>qualification_value.
     if min native_value (min wone_balance wone_value) < 0 then Inl (ValueError ''negative WONE overlay value'')
     else if qualification_value \<noteq> native_value + wone_balance then Inl (ValueError ''qualification total mismatch'')
     else
       bindR (get_text r ''address'') (\<lambda>t.
       let address = lower (strip t);
           expected_wone = (if qualification_value \<ge> fa_minimum_one args \<or> address \<in> set aggregate_delivery then wone_balance else 0)
       in if wone_value \<noteq> expected_wone \<or> value \<noteq> native_value + wone_value then Inl (ValueError ''WONE airdrop mismatch'')
          else Inr (wone_value, qualification_value))))))"

definition filter_row :: "filter_args \<Rightarrow> string list \<Rightarrow> bool \<Rightarrow> csv_row \<Rightarrow> filter_entry result" where
  "filter_row args aggregate_delivery have_wone r =
     bindR (int_of_field r ''total_claim_atto'') (\<lambda>value.
     if value < 0 then Inl (ValueError ''negative total claim'')
     else
       bindR (int_of_field r ''wallet_airdrop_atto'') (\<lambda>wallet_value.
       bindR (int_of_field r ''staked_to_vault_atto'') (\<lambda>vault_value.
       if wallet_value < 0 \<or> vault_value < 0 \<or> wallet_value + vault_value \<noteq> value
       then Inl (ValueError ''allocation component mismatch'')
       else
         bindR (if have_wone then wone_overlay args aggregate_delivery r value else Inr (0, value)) (\<lambda>(wone_value, qualification_value).
           Inr \<lparr>fe_value = value, fe_wallet = wallet_value, fe_vault = vault_value, fe_wone = wone_value,
                fe_qualification = qualification_value\<rparr>))))"

definition includes_row :: "filter_args \<Rightarrow> filter_entry \<Rightarrow> bool" where
  "includes_row args e =
     (if fa_comparison_ge args then fe_qualification e \<ge> fa_minimum_one args else fe_qualification e > fa_minimum_one args)"

section \<open>The loop\<close>

record filter_state =
  fs_previous :: "string option"
  fs_input_rows :: int
  fs_output_rows :: int
  fs_exact :: int
  fs_total :: int
  fs_wallet :: int
  fs_vault :: int
  fs_wone :: int
  fs_written :: "string list list"

definition filter_start :: filter_state where
  "filter_start = \<lparr>fs_previous = None, fs_input_rows = 0, fs_output_rows = 0, fs_exact = 0, fs_total = 0, fs_wallet = 0,
     fs_vault = 0, fs_wone = 0, fs_written = []\<rparr>"

definition filter_step :: "filter_args \<Rightarrow> string list \<Rightarrow> bool \<Rightarrow> string list \<Rightarrow> filter_state \<Rightarrow> string list \<times> csv_row \<Rightarrow> filter_state result" where
  "filter_step args aggregate_delivery have_wone header s rr =
     bindR (text_field (snd rr) ''secure_key'') (\<lambda>k.
     let key = lower k in
     if (case fs_previous s of None \<Rightarrow> False | Some p \<Rightarrow> key \<le> p) then Inl (ValueError ''secure keys are not increasing'')
     else
       bindR (filter_row args aggregate_delivery have_wone (snd rr)) (\<lambda>e.
       let s = s\<lparr>fs_previous := Some key, fs_input_rows := fs_input_rows s + 1,
                 fs_exact := fs_exact s + of_bool (fe_qualification e = fa_minimum_one args)\<rparr>
       in if includes_row args e then
            bindR (rewrite_record header rr) (\<lambda>cells.
              Inr (s\<lparr>fs_output_rows := fs_output_rows s + 1, fs_total := fs_total s + fe_value e,
                     fs_wallet := fs_wallet s + fe_wallet e, fs_vault := fs_vault s + fe_vault e,
                     fs_wone := fs_wone s + fe_wone e, fs_written := fs_written s @ [cells]\<rparr>))
          else Inr s))"

text \<open>The loop with the state that a failing iteration leaves: what it has written so far is on the disk.\<close>

fun run_rows :: "('s \<Rightarrow> 'a \<Rightarrow> 's result) \<Rightarrow> 's \<Rightarrow> 'a list \<Rightarrow> 's \<times> unit result" where
  "run_rows f s [] = (s, Inr ())"
| "run_rows f s (x # xs) = (case f s x of Inl e \<Rightarrow> (s, Inl e) | Inr s' \<Rightarrow> run_rows f s' xs)"

section \<open>The command\<close>

definition check_columns :: "string list \<Rightarrow> unit result" where
  "check_columns header =
     (if ''secure_key'' \<notin> set header then Inl (ValueError ''input is missing secure_key'')
      else if \<not> {''total_claim_atto'', ''wallet_airdrop_atto'', ''staked_to_vault_atto''} \<subseteq> set header
      then Inl (ValueError ''input is missing fields'')
      else if set WONE_FIELDS \<inter> set header \<noteq> {} \<and> \<not> set WONE_FIELDS \<subseteq> set header
      then Inl (ValueError ''input has an incomplete WONE overlay'')
      else Inr ())"

definition have_wone :: "string list \<Rightarrow> bool" where
  "have_wone header \<longleftrightarrow> set WONE_FIELDS \<inter> set header \<noteq> {}"

definition filter_json :: "files \<Rightarrow> filter_args \<Rightarrow> string \<Rightarrow> string \<Rightarrow> bool \<Rightarrow> filter_state \<Rightarrow> json" where
  "filter_json fs args input output wone s = JObj
     [(''input'', JStr (fa_input args)), (''input_sha256'', JStr (text_sha256 input)),
      (''output'', JStr (fa_output args)), (''output_sha256'', JStr (text_sha256 output)),
      (''comparison'', JStr (if fa_comparison_ge args then ''ge'' else ''gt'')),
      (''minimum_atto'', JStr (str_int (fa_minimum_one args))),
      (''aggregate_delivery_summary'', case fa_aggregate_delivery_summary args of None \<Rightarrow> JNull | Some p \<Rightarrow> JStr p),
      (''aggregate_delivery_summary_sha256'',
         case fa_aggregate_delivery_summary args of
           Some p \<Rightarrow> if p = [] then JNull else (case fs p of Some t \<Rightarrow> JStr (text_sha256 t) | None \<Rightarrow> JNull)
         | None \<Rightarrow> JNull),
      (''input_rows'', JInt (fs_input_rows s)), (''output_rows'', JInt (fs_output_rows s)),
      (''exact_threshold_rows'', JInt (fs_exact s)), (''total_claim_atto'', JStr (str_int (fs_total s))),
      (''wallet_airdrop_atto'', JStr (str_int (fs_wallet s))), (''staked_to_vault_atto'', JStr (str_int (fs_vault s))),
      (''wone_airdrop_atto'', JStr (str_int (fs_wone s))),
      (''threshold_field'', JStr (if wone then ''qualification_total_atto'' else ''total_claim_atto''))]"

text \<open>Both partial files are opened for exclusive creation. The first cannot exist, since it was looked for; the second
  does when the output path is the partial path of the summary.\<close>

definition filter_claims :: "files \<Rightarrow> filter_args \<Rightarrow> files \<times> filter_state result" where
  "filter_claims fs args =
     (if taken fs (fa_output args) then (fs, Inl (FileExistsError (fa_output args)))
      else if taken fs (fa_summary args) then (fs, Inl (FileExistsError (fa_summary args)))
      else
        (case bindR (load_aggregate_delivery_addresses fs (fa_aggregate_delivery_summary args)) (\<lambda>aggregate.
              bindR (read_text fs (fa_input args)) (\<lambda>content. Inr (aggregate, content))) of
           Inl e \<Rightarrow> (fs, Inl e)
         | Inr (aggregate, content) \<Rightarrow>
             let header = fieldnames content in
             (case check_columns header of
                Inl e \<Rightarrow> (fs(partial (fa_output args) \<mapsto> []), Inl e)
              | Inr _ \<Rightarrow>
                  (case run_rows (filter_step args aggregate (have_wone header) header) filter_start (dict_records content) of
                     (s, Inl e) \<Rightarrow> (fs(partial (fa_output args) \<mapsto> csv_text (header # fs_written s)), Inl e)
                   | (s, Inr _) \<Rightarrow>
                       let output = csv_text (header # fs_written s);
                           fs' = fs(fa_output args \<mapsto> output)
                       in if fs' (partial (fa_summary args)) \<noteq> None
                          then (fs', Inl (FileExistsError (partial (fa_summary args))))
                          else (fs'(fa_summary args \<mapsto> json_file 2 (filter_json fs' args content output (have_wone header) s)), Inr s)))))"

section \<open>What the filter keeps\<close>

lemma run_rows_Inr: "run_rows f s xs = (s', Inr u) \<longleftrightarrow> foldM f s xs = Inr s'"
  by (induction xs arbitrary: s) (auto split: sum.split)

text \<open>The amounts of a row as its cells give them; a row that passes has exactly these.\<close>

definition entry_of :: "bool \<Rightarrow> csv_row \<Rightarrow> filter_entry" where
  "entry_of wone r = \<lparr>fe_value = field_value ''total_claim_atto'' r, fe_wallet = field_value ''wallet_airdrop_atto'' r,
     fe_vault = field_value ''staked_to_vault_atto'' r, fe_wone = (if wone then field_value ''wone_airdrop_atto'' r else 0),
     fe_qualification = (if wone then field_value ''qualification_total_atto'' r else field_value ''total_claim_atto'' r)\<rparr>"

definition row_checked :: "bool \<Rightarrow> csv_row \<Rightarrow> bool" where
  "row_checked wone r \<longleftrightarrow>
     (\<exists>w v. 0 \<le> w \<and> 0 \<le> v \<and> int_of_field r ''wallet_airdrop_atto'' = Inr w \<and> int_of_field r ''staked_to_vault_atto'' = Inr v \<and>
        int_of_field r ''total_claim_atto'' = Inr (w + v)) \<and>
     (wone \<longrightarrow> (\<exists>n b. 0 \<le> n \<and> 0 \<le> b \<and> int_of_field r ''native_total_claim_atto'' = Inr n \<and> int_of_field r ''wone_balance_atto'' = Inr b \<and>
        int_of_field r ''qualification_total_atto'' = Inr (n + b) \<and>
        (\<exists>a. int_of_field r ''wone_airdrop_atto'' = Inr a \<and> (a = b \<or> a = 0) \<and> int_of_field r ''total_claim_atto'' = Inr (n + a))))"

lemma filter_row_Inr:
  assumes "filter_row args aggregate wone r = Inr e"
  shows "e = entry_of wone r" "row_checked wone r"
  using assms
  by (auto simp: filter_row_def wone_overlay_def entry_of_def row_checked_def field_value_def bindR_Inr_iff Let_def split: if_splits)

abbreviation passes :: "filter_args \<Rightarrow> bool \<Rightarrow> string list \<times> csv_row \<Rightarrow> bool" where
  "passes args wone rr \<equiv> includes_row args (entry_of wone (snd rr))"

lemma filter_step_Inr:
  assumes "filter_step args aggregate wone header s rr = Inr s'"
  shows "row_checked wone (snd rr)" "fs_input_rows s' = fs_input_rows s + 1"
    "fs_exact s' = fs_exact s + of_bool (fe_qualification (entry_of wone (snd rr)) = fa_minimum_one args)"
    "fs_output_rows s' = fs_output_rows s + of_bool (passes args wone rr)"
    "fs_total s' = fs_total s + (if passes args wone rr then fe_value (entry_of wone (snd rr)) else 0)"
    "fs_wallet s' = fs_wallet s + (if passes args wone rr then fe_wallet (entry_of wone (snd rr)) else 0)"
    "fs_vault s' = fs_vault s + (if passes args wone rr then fe_vault (entry_of wone (snd rr)) else 0)"
    "fs_wone s' = fs_wone s + (if passes args wone rr then fe_wone (entry_of wone (snd rr)) else 0)"
    "fs_written s' = fs_written s @ (if passes args wone rr then [map (get_or_empty (snd rr)) header] else [])"
proof -
  from assms obtain k e where e: "filter_row args aggregate wone (snd rr) = Inr e"
    and s': "(let s = s\<lparr>fs_previous := Some (lower k), fs_input_rows := fs_input_rows s + 1,
                 fs_exact := fs_exact s + of_bool (fe_qualification e = fa_minimum_one args)\<rparr>
       in if includes_row args e then
            bindR (rewrite_record header rr) (\<lambda>cells.
              Inr (s\<lparr>fs_output_rows := fs_output_rows s + 1, fs_total := fs_total s + fe_value e,
                     fs_wallet := fs_wallet s + fe_wallet e, fs_vault := fs_vault s + fe_vault e,
                     fs_wone := fs_wone s + fe_wone e, fs_written := fs_written s @ [cells]\<rparr>))
          else Inr s) = Inr s'"
    unfolding filter_step_def Let_def bindR_Inr_iff if_Inl_Inr_iff by blast
  show "row_checked wone (snd rr)" by (rule filter_row_Inr(2) [OF e])
  note s' = s' [unfolded filter_row_Inr(1) [OF e]]
  show "fs_input_rows s' = fs_input_rows s + 1"
    "fs_exact s' = fs_exact s + of_bool (fe_qualification (entry_of wone (snd rr)) = fa_minimum_one args)"
    "fs_output_rows s' = fs_output_rows s + of_bool (passes args wone rr)"
    "fs_total s' = fs_total s + (if passes args wone rr then fe_value (entry_of wone (snd rr)) else 0)"
    "fs_wallet s' = fs_wallet s + (if passes args wone rr then fe_wallet (entry_of wone (snd rr)) else 0)"
    "fs_vault s' = fs_vault s + (if passes args wone rr then fe_vault (entry_of wone (snd rr)) else 0)"
    "fs_wone s' = fs_wone s + (if passes args wone rr then fe_wone (entry_of wone (snd rr)) else 0)"
    "fs_written s' = fs_written s @ (if passes args wone rr then [map (get_or_empty (snd rr)) header] else [])"
    using s' by (cases "passes args wone rr"; auto simp: Let_def bindR_Inr_iff rewrite_record_def split: if_splits)+
qed

lemma filter_fold:
  assumes "foldM (filter_step args aggregate wone header) s rrs = Inr s'"
  shows "list_all (\<lambda>rr. row_checked wone (snd rr)) rrs \<and>
    fs_input_rows s' = fs_input_rows s + int (length rrs) \<and>
    fs_exact s' = fs_exact s + int (length (filter (\<lambda>rr. fe_qualification (entry_of wone (snd rr)) = fa_minimum_one args) rrs)) \<and>
    fs_output_rows s' = fs_output_rows s + int (length (filter (passes args wone) rrs)) \<and>
    fs_total s' = fs_total s + sum_list (map (\<lambda>rr. fe_value (entry_of wone (snd rr))) (filter (passes args wone) rrs)) \<and>
    fs_wallet s' = fs_wallet s + sum_list (map (\<lambda>rr. fe_wallet (entry_of wone (snd rr))) (filter (passes args wone) rrs)) \<and>
    fs_vault s' = fs_vault s + sum_list (map (\<lambda>rr. fe_vault (entry_of wone (snd rr))) (filter (passes args wone) rrs)) \<and>
    fs_wone s' = fs_wone s + sum_list (map (\<lambda>rr. fe_wone (entry_of wone (snd rr))) (filter (passes args wone) rrs)) \<and>
    fs_written s' = fs_written s @ map (\<lambda>rr. map (get_or_empty (snd rr)) header) (filter (passes args wone) rrs)"
  using assms
proof (induction rrs arbitrary: s)
  case (Cons rr rrs)
  then obtain s1 where s1: "filter_step args aggregate wone header s rr = Inr s1"
    and rest: "foldM (filter_step args aggregate wone header) s1 rrs = Inr s'" by (auto simp: bindR_Inr_iff)
  show ?case using Cons.IH [OF rest] filter_step_Inr [OF s1] by simp
qed simp

lemma filter_claims_Inr:
  assumes "filter_claims fs args = (fs', Inr s)" "fa_output args \<noteq> fa_summary args"
  obtains content aggregate where "fs (fa_input args) = Some content" "check_columns (fieldnames content) = Inr ()"
    "load_aggregate_delivery_addresses fs (fa_aggregate_delivery_summary args) = Inr aggregate"
    "foldM (filter_step args aggregate (have_wone (fieldnames content)) (fieldnames content)) filter_start (dict_records content) = Inr s"
    "fs' (fa_output args) = Some (csv_text (fieldnames content # fs_written s))"
  using assms
  by (auto simp: filter_claims_def Let_def bindR_Inr_iff read_text_def of_option_Inr_iff run_rows_Inr
      split: if_splits sum.splits prod.splits)

definition sample_filter :: filter_args where
  "sample_filter = \<lparr>fa_input = ''in'', fa_output = ''out'', fa_summary = ''sum'', fa_aggregate_delivery_summary = None,
     fa_minimum_one = 10, fa_comparison_ge = True\<rparr>"

definition sample_table :: string where
  "sample_table = csv_text [[''secure_key'', ''total_claim_atto'', ''wallet_airdrop_atto'', ''staked_to_vault_atto''],
     [''0xA'', ''10'', ''7'', ''3''], [''0xb'', ''9'', ''9'', ''0''], [''0xc'', ''12'', ''0'', ''12'']]"

definition sample_broken :: string where
  "sample_broken = csv_text [[''secure_key'', ''total_claim_atto'', ''wallet_airdrop_atto'', ''staked_to_vault_atto''],
     [''0xA'', ''10'', ''7'', ''2'']]"

lemma sample_filter_run:
  "check_columns (fieldnames sample_table) = Inr ()"
  "run_rows (filter_step sample_filter [] (have_wone (fieldnames sample_table)) (fieldnames sample_table)) filter_start (dict_records sample_table) =
     (\<lparr>fs_previous = Some ''0xc'', fs_input_rows = 3, fs_output_rows = 2, fs_exact = 1, fs_total = 22, fs_wallet = 7, fs_vault = 15,
       fs_wone = 0, fs_written = [[''0xA'', ''10'', ''7'', ''3''], [''0xc'', ''12'', ''0'', ''12'']]\<rparr>, Inr ())"
  by code_simp+

lemma sample_filter_fails:
  "snd (run_rows (filter_step sample_filter [] (have_wone (fieldnames sample_broken)) (fieldnames sample_broken)) filter_start (dict_records sample_broken)) =
     Inl (ValueError ''allocation component mismatch'')"
  "check_columns (fieldnames sample_broken) = Inr ()"
  by code_simp+

lemma sample_filter_input:
  "fa_input sample_filter = ''in''" "partial (fa_summary sample_filter) \<noteq> fa_output sample_filter" "partial (fa_summary sample_filter) \<noteq> ''in''"
  by (simp_all add: sample_filter_def partial_def)

lemma sample_filter_free:
  "\<not> taken [''in'' \<mapsto> t] (fa_output sample_filter)" "\<not> taken [''in'' \<mapsto> t] (fa_summary sample_filter)"
  "[''in'' \<mapsto> t] (fa_input sample_filter) = Some t"
  "load_aggregate_delivery_addresses [''in'' \<mapsto> t] (fa_aggregate_delivery_summary sample_filter) = Inr []"
  by (simp_all add: sample_filter_def taken_def partial_def load_aggregate_delivery_addresses_def)

text \<open>
  C18. The threshold filter keeps exactly the rows whose amount is at or above the threshold (above it for \<^verbatim>\<open>gt\<close>), in their
  order and with every cell as it was read. The amount compared is the qualification total where the table has that
  column, and the total claim otherwise. The counts and totals of the summary are those of the input rows and of the kept rows, and
  every input row has been checked: its total is the sum of a wallet part and a vault part that are not negative.
\<close>

theorem filter_keeps_threshold:
  assumes "filter_claims fs args = (fs', Inr s)" "fa_output args \<noteq> fa_summary args"
  shows "\<exists>content. fs (fa_input args) = Some content \<and>
    (let header = fieldnames content; rows = map snd (dict_records content);
         column = (if ''qualification_total_atto'' \<in> set header then ''qualification_total_atto'' else ''total_claim_atto'');
         keeps = filter (\<lambda>r. if fa_comparison_ge args then fa_minimum_one args \<le> field_value column r
                              else fa_minimum_one args < field_value column r) rows
     in fs' (fa_output args) = Some (csv_text (header # map (\<lambda>r. map (get_or_empty r) header) keeps)) \<and>
        fs_input_rows s = int (length rows) \<and> fs_output_rows s = int (length keeps) \<and>
        fs_exact s = int (length (filter (\<lambda>r. field_value column r = fa_minimum_one args) rows)) \<and>
        fs_total s = sum_list (map (field_value ''total_claim_atto'') keeps) \<and>
        fs_wallet s = sum_list (map (field_value ''wallet_airdrop_atto'') keeps) \<and>
        fs_vault s = sum_list (map (field_value ''staked_to_vault_atto'') keeps) \<and>
        fs_wone s = (if ''wone_airdrop_atto'' \<in> set header then sum_list (map (field_value ''wone_airdrop_atto'') keeps) else 0) \<and>
        fs_total s = fs_wallet s + fs_vault s \<and>
        list_all (\<lambda>r. \<exists>w v. 0 \<le> w \<and> 0 \<le> v \<and> int_of_field r ''wallet_airdrop_atto'' = Inr w \<and>
          int_of_field r ''staked_to_vault_atto'' = Inr v \<and> int_of_field r ''total_claim_atto'' = Inr (w + v) \<and>
          (\<exists>n. int_of_field r column = Inr n)) rows)"
proof -
  from assms obtain content aggregate where c: "fs (fa_input args) = Some content" "check_columns (fieldnames content) = Inr ()"
    and fold: "foldM (filter_step args aggregate (have_wone (fieldnames content)) (fieldnames content)) filter_start (dict_records content) = Inr s"
    and out: "fs' (fa_output args) = Some (csv_text (fieldnames content # fs_written s))"
    by (rule filter_claims_Inr)
  let ?w = "have_wone (fieldnames content)"
  have wone: "?w \<longleftrightarrow> ''qualification_total_atto'' \<in> set (fieldnames content)" "?w \<longleftrightarrow> ''wone_airdrop_atto'' \<in> set (fieldnames content)"
    using c(2) by (auto simp: check_columns_def have_wone_def WONE_FIELDS_def split: if_splits)
  define column where "column = (if ''qualification_total_atto'' \<in> set (fieldnames content) then ''qualification_total_atto'' else ''total_claim_atto'')"
  define test where "test r = (if fa_comparison_ge args then fa_minimum_one args \<le> field_value column r
      else fa_minimum_one args < field_value column r)" for r
  have q: "fe_qualification (entry_of ?w r) = field_value column r" for r by (simp add: entry_of_def column_def wone(1))
  have pass: "passes args ?w = test \<circ> snd" by (rule ext) (simp add: includes_row_def test_def q)
  note f = filter_fold [OF fold, unfolded pass q]
  have checked: "list_all (row_checked ?w) (map snd (dict_records content))" using f by (simp add: list_all_iff)
  have part: "sum_list (map (field_value ''total_claim_atto'') rs) =
      sum_list (map (field_value ''wallet_airdrop_atto'') rs) + sum_list (map (field_value ''staked_to_vault_atto'') rs)"
    if "list_all (row_checked ?w) rs" for rs
    using that by (induction rs) (auto simp: row_checked_def field_value_def)
  have "list_all (row_checked ?w) (filter test (map snd (dict_records content)))" using checked by (auto simp: list_all_iff)
  note sums = part [OF this]
  have cells: "list_all (\<lambda>r. \<exists>w v. 0 \<le> w \<and> 0 \<le> v \<and> int_of_field r ''wallet_airdrop_atto'' = Inr w \<and>
      int_of_field r ''staked_to_vault_atto'' = Inr v \<and> int_of_field r ''total_claim_atto'' = Inr (w + v) \<and>
      (\<exists>n. int_of_field r column = Inr n)) (map snd (dict_records content))"
    using checked unfolding list_all_iff row_checked_def column_def wone(1) by (auto split: if_splits)
  show ?thesis
    using c(1) out f cells sums
    by (intro exI [of _ content], unfold Let_def, fold column_def, fold test_def)
      (simp add: filter_map o_def entry_of_def filter_start_def flip: wone(2))
qed

theorem filter_keeps_threshold_witness:
  "\<exists>fs' s. filter_claims [''in'' \<mapsto> sample_table] sample_filter = (fs', Inr s) \<and>
     fs' ''out'' = Some (csv_text [[''secure_key'', ''total_claim_atto'', ''wallet_airdrop_atto'', ''staked_to_vault_atto''],
       [''0xA'', ''10'', ''7'', ''3''], [''0xc'', ''12'', ''0'', ''12'']]) \<and>
     fs_total s = 22 \<and> fs_exact s = 1"
proof -
  obtain fs' s where run: "filter_claims [''in'' \<mapsto> sample_table] sample_filter = (fs', Inr s)"
    by (simp add: filter_claims_def sample_filter_input sample_filter_free sample_filter_run read_text_def Let_def)
  have "fa_output sample_filter \<noteq> fa_summary sample_filter" by (simp add: sample_filter_def)
  note keeps = filter_keeps_threshold [OF run this]
  define rows where "rows = map snd (dict_records sample_table)"
  have sample: "fieldnames sample_table = [''secure_key'', ''total_claim_atto'', ''wallet_airdrop_atto'', ''staked_to_vault_atto'']"
    "filter (\<lambda>r. 10 \<le> field_value ''total_claim_atto'' r) rows =
      [[(''secure_key'', Some ''0xA''), (''total_claim_atto'', Some ''10''), (''wallet_airdrop_atto'', Some ''7''), (''staked_to_vault_atto'', Some ''3'')],
       [(''secure_key'', Some ''0xc''), (''total_claim_atto'', Some ''12''), (''wallet_airdrop_atto'', Some ''0''), (''staked_to_vault_atto'', Some ''12'')]]"
    "length (filter (\<lambda>r. field_value ''total_claim_atto'' r = 10) rows) = 1"
    unfolding rows_def by code_simp+
  have total: "field_value ''total_claim_atto'' [(''secure_key'', Some ''0xA''), (''total_claim_atto'', Some ''10''), (''wallet_airdrop_atto'', Some ''7''), (''staked_to_vault_atto'', Some ''3'')] = 10"
    "field_value ''total_claim_atto'' [(''secure_key'', Some ''0xc''), (''total_claim_atto'', Some ''12''), (''wallet_airdrop_atto'', Some ''0''), (''staked_to_vault_atto'', Some ''12'')] = 12"
    by code_simp+
  have args: "fa_output sample_filter = ''out''" "fa_input sample_filter = ''in''" "fa_comparison_ge sample_filter" "fa_minimum_one sample_filter = 10" by (simp_all add: sample_filter_def)
  show ?thesis
    using keeps run by (intro exI [of _ fs'] exI [of _ s]) (simp add: Let_def rows_def [symmetric] args sample total get_or_empty_def del: length_filter_map)
qed

text \<open>
  C33. A failed filter blocks the next one. Once the inputs are readable and the output paths are free, every error leaves
  the partial output behind (or the output itself, when its path is the partial path of the summary): each later call for the same output path is refused, whatever its input.
\<close>

theorem filter_failure_blocks_retry:
  assumes "\<not> taken fs (fa_output args)" "\<not> taken fs (fa_summary args)"
    and "load_aggregate_delivery_addresses fs (fa_aggregate_delivery_summary args) = Inr aggregate"
    and "fs (fa_input args) = Some content"
    and failed: "filter_claims fs args = (fs', Inl e)"
    and same: "fa_output later = fa_output args"
  shows "filter_claims fs' later = (fs', Inl (FileExistsError (fa_output args)))"
proof -
  have "fs' (partial (fa_output args)) \<noteq> None \<or> fs' (fa_output args) \<noteq> None"
    using failed assms(1-4)
    by (auto simp: filter_claims_def read_text_def Let_def split: sum.splits prod.splits if_splits)
  then show ?thesis by (auto simp: filter_claims_def taken_def same)
qed

theorem filter_failure_blocks_retry_witness:
  "\<exists>fs'. filter_claims [''in'' \<mapsto> sample_broken] sample_filter = (fs', Inl (ValueError ''allocation component mismatch'')) \<and>
     filter_claims fs' sample_filter = (fs', Inl (FileExistsError ''out''))"
proof -
  obtain fs' where run: "filter_claims [''in'' \<mapsto> sample_broken] sample_filter = (fs', Inl (ValueError ''allocation component mismatch''))"
    using sample_filter_fails by (simp add: filter_claims_def sample_filter_input sample_filter_free read_text_def Let_def case_prod_beta)
  have "fa_output sample_filter = ''out''" by (simp add: sample_filter_def)
  with filter_failure_blocks_retry [OF sample_filter_free(1, 2, 4, 3) run refl] run show ?thesis by auto
qed

end
