(* ===== verification/ZeroAddress.thy ===== *)
theory ZeroAddress
  imports KeccakRounds Addresses
begin

unbundle bit_operations_syntax

text \<open>
  The secure key of the zero address, evaluated in the kernel like the hash of the empty string: a resolved
  account that the examples of the ledger scripts use.
\<close>

lemma keccak_f_zero_address:
  "take 4 (foldl keccak_round
     [0, 0, 0x100000000, 0, 0, 0, 0, 0, 0, 0, 0, 0, 0, 0, 0, 0, 0x8000000000000000, 0, 0, 0, 0, 0, 0, 0, 0]
     KECCAK_RC) =
   [0x8ea581aeb7c78053, 0xd71f4ade789c8db9, 0xbed23e95fc3595fd, 0x2a316717a4aa2d60]"
  unfolding KECCAK_RC_def by (simp add: keccak_eval)

lemma zero_address_padded: "keccak_pad (replicate 20 0) = replicate 20 0 @ 0x01 # replicate 114 0 @ [0x80]"
proof -
  have "pad_zeros (replicate 20 0 @ [0x01]) = (replicate 20 0 @ 0x01 # replicate 114 0) @ [0]"
    using replicate_Suc [of 114 "0 :: byte"] by (simp add: pad_zeros_eq replicate_append_same)
  then show ?thesis by (simp add: keccak_pad_def list_update_append)
qed

lemma zero_address_lanes:
  "foldl (\<lambda>s i. s[i := s ! i XOR lane_of_bytes (take 8 (drop (8 * i) (replicate 20 0 @ 0x01 # replicate 114 0 @ [0x80])))])
     (replicate 25 0) [0..<17] =
   [0, 0, 0x100000000, 0, 0, 0, 0, 0, 0, 0, 0, 0, 0, 0, 0, 0, 0x8000000000000000, 0, 0, 0, 0, 0, 0, 0, 0]"
proof -
  have lane: "lane_of_bytes (replicate 4 0 @ 1 # replicate 3 0) = 0x100000000" by code_simp
  show ?thesis by (simp add: upto_17 zero_lanes take_Cons' lane_of_bytes_zeros lane_of_bytes_last lane)
qed

definition ZERO_ADDRESS :: string where
  "ZERO_ADDRESS = ''0x0000000000000000000000000000000000000000''"

definition ZERO_KEY :: string where
  "ZERO_KEY = ''0x5380c7b7ae81a58eb98d9c78de4a1fd7fd9535fc953ed2be602daaa41767312a''"

lemma zero_key_hex:
  "''0x'' @ hex_of (concat (map bytes_of_lane
     [0x8ea581aeb7c78053, 0xd71f4ade789c8db9, 0xbed23e95fc3595fd, 0x2a316717a4aa2d60])) = ZERO_KEY"
  by code_simp

lemma zero_key: "''0x'' @ hex_of (keccak256_pure (replicate 20 0)) = ZERO_KEY"
proof -
  have "length (keccak_pad (replicate 20 0)) = 136" by (simp add: zero_address_padded)
  moreover have "take 4 (absorb_block (replicate 25 0) (keccak_pad (replicate 20 0))) =
      [0x8ea581aeb7c78053, 0xd71f4ade789c8db9, 0xbed23e95fc3595fd, 0x2a316717a4aa2d60]"
    unfolding absorb_block_def zero_address_padded zero_address_lanes keccak_f_def by (rule keccak_f_zero_address)
  ultimately have "keccak256_pure (replicate 20 0) = concat (map bytes_of_lane
      [0x8ea581aeb7c78053, 0xd71f4ade789c8db9, 0xbed23e95fc3595fd, 0x2a316717a4aa2d60])"
    by (rule keccak256_pure_one_block) simp
  then show ?thesis using zero_key_hex by simp
qed

lemma zero_address_bytes: "any_to_hex ZERO_ADDRESS = Some ZERO_ADDRESS" "fromhex (drop 2 ZERO_ADDRESS) = Some (replicate 20 0)"
  "lower ZERO_KEY = ZERO_KEY"
  by code_simp+

lemma zero_address_key: "require_address_secure_key ZERO_ADDRESS ZERO_KEY = Inr ZERO_ADDRESS"
  unfolding require_address_secure_key_def zero_address_bytes Let_def option.case zero_key by simp

end
