(* ===== verification/Eligibility.thy ===== *)
theory Eligibility
  imports Merge Files Amounts ZeroAddress
begin

text \<open>
  \<^verbatim>\<open>toolkit/scripts/claims/apply-eligibility-policy.py\<close>: the rows at or above the threshold are classified: addresses
  on the exclusion lists, then the independently verified code accounts, then contracts (for review), then the rest
  (automatic). Every listed address has to be found.
\<close>

definition ELIGIBILITY_COMPONENTS :: "string list" where
  "ELIGIBILITY_COMPONENTS = [''liquid_shard0'', ''liquid_shard1'', ''liquid_total'', ''active_staked_or_delegated'',
     ''pending_undelegation'', ''unclaimed_staking_reward'', ''pending_cross_shard'', ''native_wallet_airdrop'', ''wone_balance'',
     ''wone_airdrop'', ''wallet_airdrop'', ''staked_to_vault'', ''qualification_total'', ''native_total_claim'', ''total_claim'']"

definition OPTIONAL_COMPONENTS :: "string list" where
  "OPTIONAL_COMPONENTS = [''native_wallet_airdrop'', ''wone_balance'', ''wone_airdrop'', ''qualification_total'', ''native_total_claim'']"

section \<open>Address lists\<close>

record list_source =
  ls_path :: string
  ls_sha256 :: string
  ls_addresses :: int

definition union_list :: "'a list \<Rightarrow> 'a list \<Rightarrow> 'a list" where
  "union_list xs ys = xs @ filter (\<lambda>y. y \<notin> set xs) ys"

definition add_code_address :: "string list \<Rightarrow> csv_row \<Rightarrow> string list result" where
  "add_code_address source_addresses r =
     bindR (text_field r ''address'') (\<lambda>t.
     let address = lower t in
     if length address \<noteq> 42 \<or> \<not> startswith address ''0x'' then Inl (ValueError ''invalid address'')
     else if address \<in> set source_addresses then Inl (ValueError ''duplicate address'')
     else Inr (source_addresses @ [address]))"

definition load_automatic_code_addresses :: "files \<Rightarrow> string list \<Rightarrow> (string list \<times> list_source list) result" where
  "load_automatic_code_addresses fs paths =
     foldM (\<lambda>(addresses, sources) path.
       bindR (read_text fs path) (\<lambda>content.
       if ''address'' \<notin> set (fieldnames content) then Inl (ValueError ''missing address column'')
       else
         bindR (foldM add_code_address [] (dict_reader content)) (\<lambda>source_addresses.
           Inr (union_list addresses source_addresses,
                sources @ [\<lparr>ls_path = path, ls_sha256 = text_sha256 content, ls_addresses = int (length source_addresses)\<rparr>]))))
       ([], []) paths"

definition policy_normalize_address :: "string \<Rightarrow> string result" where
  "policy_normalize_address value =
     (case any_to_hex (strip value) of
        None \<Rightarrow> Inl (ValueError ''invalid address'')
      | Some address \<Rightarrow>
          (case fromhex (drop 2 address) of
             None \<Rightarrow> Inl (ValueError ''invalid address'')
           | Some raw \<Rightarrow> if length raw \<noteq> 20 then Inl (ValueError ''invalid address'') else Inr address))"

definition add_excluded :: "string list \<Rightarrow> csv_row \<Rightarrow> string list result" where
  "add_excluded source_addresses r =
     bindR (bindR (value_field r ''address'') policy_normalize_address) (\<lambda>address.
       if address \<in> set source_addresses then Inl (ValueError ''duplicate address'')
       else Inr (source_addresses @ [address]))"

definition load_excluded_addresses :: "files \<Rightarrow> string list \<Rightarrow> string list \<Rightarrow> (string list \<times> list_source list) result" where
  "load_excluded_addresses fs values paths =
     bindR (mapM policy_normalize_address values) (\<lambda>given.
       foldM (\<lambda>(addresses, sources) path.
         bindR (read_text fs path) (\<lambda>content.
         if ''address'' \<notin> set (fieldnames content) then Inl (ValueError ''missing address column'')
         else
           bindR (foldM add_excluded [] (dict_reader content)) (\<lambda>source_addresses.
             if set addresses \<inter> set source_addresses \<noteq> {} then Inl (ValueError ''duplicate exclusions across inputs'')
             else Inr (addresses @ source_addresses,
                       sources @ [\<lparr>ls_path = path, ls_sha256 = text_sha256 content, ls_addresses = int (length source_addresses)\<rparr>]))))
         (remdups given, []) paths)"

section \<open>One row\<close>

definition component_atto :: "csv_row \<Rightarrow> string \<Rightarrow> int result" where
  "component_atto r c =
     (let v = get_or_empty r (c @ ''_atto'') in
      bindR (if v = [] then Inr 0 else py_int v) (\<lambda>n. if n < 0 then Inl (ValueError ''negative component'') else Inr n))"

definition add_totals :: "(string, int) dict \<Rightarrow> csv_row \<Rightarrow> (string, int) dict result" where
  "add_totals totals r =
     mapM (\<lambda>(c, n). bindR (component_atto r c) (\<lambda>v. Inr (c, n + v))) totals"

definition code_bearing :: "csv_row \<Rightarrow> bool option result" where
  "code_bearing r =
     bindR (get_text r ''code_hash_shard0'') (\<lambda>t0.
     if strip t0 = [] then Inr None
     else
       bindR (get_text r ''code_hash_shard1'') (\<lambda>t1.
         let hashes = filter (\<lambda>h. h \<noteq> []) [lower (strip t0), lower (strip t1)]
         in Inr (if hashes = [] then None else Some (\<exists>h \<in> set hashes. h \<noteq> EMPTY_CODE_HASH))))"

record policy_args =
  ea_input :: string
  ea_automatic_output :: string
  ea_contract_review_output :: string
  ea_excluded_address_output :: string
  ea_automatic_code_addresses :: "string list"
  ea_summary :: string
  ea_minimum_one :: int
  ea_comparison_ge :: bool
  ea_exclude_address :: "string list"
  ea_exclude_addresses_file :: "string list"

record checked_row =
  ck_key :: string
  ck_address :: string
  ck_has_code :: bool
  ck_qualification :: int

definition check_policy_row :: "string option \<Rightarrow> csv_row \<Rightarrow> checked_row result" where
  "check_policy_row previous r =
     bindR (text_field r ''secure_key'') (\<lambda>k.
     let key = lower k in
     if (case previous of None \<Rightarrow> False | Some p \<Rightarrow> key \<le> p) then Inl (ValueError ''secure keys are not increasing'')
     else
       bindR (value_field r ''address'') (\<lambda>address.
       if address = [] then Inl (ValueError ''unresolved address'')
       else
         bindR (require_address_secure_key address key) (\<lambda>_.
         bindR (code_bearing r) (\<lambda>has_code.
         case has_code of
           None \<Rightarrow> Inl (ValueError ''unresolved code metadata'')
         | Some bearing \<Rightarrow>
             bindR (int_of_field r (if dict_get r ''qualification_total_atto'' = None then ''total_claim_atto''
                                    else ''qualification_total_atto'')) (\<lambda>qualification_value.
             bindR (int_of_field r ''total_claim_atto'') (\<lambda>total_claim.
             bindR (int_of_field r ''wallet_airdrop_atto'') (\<lambda>wallet.
             bindR (int_of_field r ''staked_to_vault_atto'') (\<lambda>vault.
             if wallet < 0 \<or> vault < 0 \<or> total_claim < 0 \<or> wallet + vault \<noteq> total_claim
             then Inl (ValueError ''allocation component mismatch'')
             else Inr \<lparr>ck_key = key, ck_address = lower address, ck_has_code = bearing, ck_qualification = qualification_value\<rparr>))))))))"

datatype category = Automatic | ContractReview | ExcludedAddress

definition row_category :: "string list \<Rightarrow> string list \<Rightarrow> checked_row \<Rightarrow> category result" where
  "row_category excluded active_code ck =
     (if ck_address ck \<in> set excluded then Inr ExcludedAddress
      else if ck_address ck \<in> set active_code then
        (if \<not> ck_has_code ck then Inl (ValueError ''automatic code-address override has empty code'') else Inr Automatic)
      else if ck_has_code ck then Inr ContractReview
      else Inr Automatic)"

definition above_threshold :: "policy_args \<Rightarrow> checked_row \<Rightarrow> bool" where
  "above_threshold args ck =
     (if ea_comparison_ge args then ck_qualification ck \<ge> ea_minimum_one args else ck_qualification ck > ea_minimum_one args)"

section \<open>The loop\<close>

record category_table =
  ca_rows :: "string list list"
  ca_totals :: "(string, int) dict"

record policy_state =
  po_previous :: "string option"
  po_input_rows :: int
  po_threshold_rows :: int
  po_below_threshold_rows :: int
  po_exact_threshold_rows :: int
  po_seen_excluded :: "string list"
  po_seen_automatic_code :: "string list"
  po_tables :: "category \<Rightarrow> category_table"

definition policy_start :: policy_state where
  "policy_start = \<lparr>po_previous = None, po_input_rows = 0, po_threshold_rows = 0, po_below_threshold_rows = 0,
     po_exact_threshold_rows = 0, po_seen_excluded = [], po_seen_automatic_code = [],
     po_tables = (\<lambda>_. \<lparr>ca_rows = [], ca_totals = map (\<lambda>c. (c, 0)) ELIGIBILITY_COMPONENTS\<rparr>)\<rparr>"

definition policy_step :: "policy_args \<Rightarrow> string list \<Rightarrow> string list \<Rightarrow> string list \<Rightarrow> policy_state \<Rightarrow> string list \<times> csv_row \<Rightarrow>
    policy_state result" where
  "policy_step args excluded active_code header s rr =
     bindR (check_policy_row (po_previous s) (snd rr)) (\<lambda>ck.
     let s = s\<lparr>po_previous := Some (ck_key ck), po_input_rows := po_input_rows s + 1,
               po_exact_threshold_rows := po_exact_threshold_rows s + of_bool (ck_qualification ck = ea_minimum_one args)\<rparr>
     in if \<not> above_threshold args ck then Inr (s\<lparr>po_below_threshold_rows := po_below_threshold_rows s + 1\<rparr>)
        else
          bindR (row_category excluded active_code ck) (\<lambda>c.
          bindR (rewrite_record header rr) (\<lambda>cells.
          bindR (add_totals (ca_totals (po_tables s c)) (snd rr)) (\<lambda>totals.
            Inr (s\<lparr>po_threshold_rows := po_threshold_rows s + 1,
                   po_seen_excluded := (if ck_address ck \<in> set excluded then po_seen_excluded s @ [ck_address ck] else po_seen_excluded s),
                   po_seen_automatic_code := (if ck_address ck \<notin> set excluded \<and> ck_address ck \<in> set active_code
                     then po_seen_automatic_code s @ [ck_address ck] else po_seen_automatic_code s),
                   po_tables := (po_tables s)(c := \<lparr>ca_rows = ca_rows (po_tables s c) @ [cells], ca_totals = totals\<rparr>)\<rparr>)))))"

section \<open>The command\<close>

definition policy_outputs :: "policy_args \<Rightarrow> (category \<times> string \<times> string) list" where
  "policy_outputs args = [(Automatic, ''automatic'', ea_automatic_output args),
     (ContractReview, ''contract_review'', ea_contract_review_output args),
     (ExcludedAddress, ''excluded_address'', ea_excluded_address_output args)]"

definition required_columns :: "string list" where
  "required_columns = [''secure_key'', ''address'', ''code_hash_shard0'', ''code_hash_shard1''] @
     map (\<lambda>c. c @ ''_atto'') (filter (\<lambda>c. c \<notin> set OPTIONAL_COMPONENTS) ELIGIBILITY_COMPONENTS)"

definition policy_paths :: "policy_args \<Rightarrow> string list" where
  "policy_paths args = map (\<lambda>(c, label, path). path) (policy_outputs args)"

record policy_run =
  pr_content :: string
  pr_excluded :: "string list"
  pr_excluded_sources :: "list_source list"
  pr_automatic_code :: "string list"
  pr_automatic_sources :: "list_source list"
  pr_state :: policy_state

definition active_code :: "string list \<Rightarrow> string list \<Rightarrow> string list" where
  "active_code automatic_code excluded = filter (\<lambda>a. a \<notin> set excluded) automatic_code"

definition run_policy :: "files \<Rightarrow> policy_args \<Rightarrow> policy_run result" where
  "run_policy fs args =
     (case filter (taken fs) (policy_paths args @ [ea_summary args]) of
        path # _ \<Rightarrow> Inl (FileExistsError path)
      | [] \<Rightarrow>
          bindR (load_excluded_addresses fs (ea_exclude_address args) (ea_exclude_addresses_file args)) (\<lambda>(excluded, excluded_sources).
          bindR (load_automatic_code_addresses fs (ea_automatic_code_addresses args)) (\<lambda>(automatic_code, automatic_sources).
          bindR (read_text fs (ea_input args)) (\<lambda>content.
          if \<not> set required_columns \<subseteq> set (fieldnames content) then Inl (ValueError ''input is missing fields'')
          else if \<not> distinct (policy_paths args) then Inl (FileExistsError ''partial output'')
          else
            bindR (foldM (policy_step args excluded (active_code automatic_code excluded) (fieldnames content)) policy_start
                     (dict_records content)) (\<lambda>s.
            if set (po_seen_excluded s) \<noteq> set excluded
            then Inl (ValueError ''not every requested excluded address was present above threshold'')
            else if set (po_seen_automatic_code s) \<noteq> set (active_code automatic_code excluded)
            then Inl (ValueError ''not every automatic code-address override was present above threshold'')
            else Inr \<lparr>pr_content = content, pr_excluded = excluded, pr_excluded_sources = excluded_sources,
                      pr_automatic_code = automatic_code, pr_automatic_sources = automatic_sources, pr_state = s\<rparr>)))))"

definition table_csv :: "policy_run \<Rightarrow> category \<Rightarrow> string" where
  "table_csv r c = csv_text (fieldnames (pr_content r) # ca_rows (po_tables (pr_state r) c))"

definition sources_json :: "list_source list \<Rightarrow> json" where
  "sources_json ss = JArr (map (\<lambda>s. JObj [(''path'', JStr (ls_path s)), (''sha256'', JStr (ls_sha256 s)),
     (''addresses'', JInt (ls_addresses s))]) ss)"

definition sorted_json :: "string list \<Rightarrow> json" where
  "sorted_json xs = JArr (map JStr (sort (remdups xs)))"

definition policy_json :: "policy_args \<Rightarrow> policy_run \<Rightarrow> (category \<times> string) list \<Rightarrow> json" where
  "policy_json args r texts = (let s = pr_state r in JObj
     [(''semantics'', JStr ''snapshot-threshold account and routing classification only; migration stage is assigned separately''),
      (''input'', JStr (ea_input args)), (''input_sha256'', JStr (text_sha256 (pr_content r))),
      (''input_rows'', JInt (po_input_rows s)), (''comparison'', JStr (if ea_comparison_ge args then ''ge'' else ''gt'')),
      (''minimum_atto'', JStr (str_int (ea_minimum_one args))), (''threshold_rows'', JInt (po_threshold_rows s)),
      (''exact_threshold_rows'', JInt (po_exact_threshold_rows s)), (''below_threshold_rows'', JInt (po_below_threshold_rows s)),
      (''excluded_addresses_requested'', sorted_json (pr_excluded r)), (''excluded_addresses_found'', sorted_json (po_seen_excluded s)),
      (''excluded_address_sources'', sources_json (pr_excluded_sources r)),
      (''automatic_code_address_sources'', sources_json (pr_automatic_sources r)),
      (''automatic_code_addresses_requested'', sorted_json (pr_automatic_code r)),
      (''automatic_code_addresses_found'', sorted_json (po_seen_automatic_code s)),
      (''automatic_code_addresses_suppressed_by_exclusion'',
         sorted_json (filter (\<lambda>a. a \<in> set (pr_excluded r)) (pr_automatic_code r))),
      (''categories'', JObj (map (\<lambda>(c, label, path). (label, JObj
         [(''rows'', JInt (int (length (ca_rows (po_tables s c))))),
          (''components_atto'', JObj (map (\<lambda>(k, v). (k, JStr (str_int v))) (ca_totals (po_tables s c)))),
          (''output'', JStr path), (''output_sha256'', JStr (text_sha256 (the (map_of texts c))))])) (policy_outputs args)))])"

text \<open>The tables are in the partial files when the loop ends. One after the other gets its name, and its hash is taken.\<close>

definition place_table :: "files \<times> (category \<times> string) list \<Rightarrow> category \<times> string \<times> string \<Rightarrow> files \<times> (category \<times> string) list" where
  "place_table st out =
     (case (st, out) of ((m, texts), (c, label, path)) \<Rightarrow>
        (m(path := m (partial path), partial path := None), texts @ [(c, the (m (partial path)))]))"

definition apply_policy :: "files \<Rightarrow> policy_args \<Rightarrow> files \<times> policy_run result" where
  "apply_policy fs args =
     (case run_policy fs args of
        Inl e \<Rightarrow> (fs, Inl e)
      | Inr r \<Rightarrow>
          let opened = foldl (\<lambda>m (c, label, path). m(partial path \<mapsto> table_csv r c)) fs (policy_outputs args)
          in case foldl place_table (opened, []) (policy_outputs args) of (written, texts) \<Rightarrow>
               if written (partial (ea_summary args)) \<noteq> None
               then (foldl (\<lambda>m path. m(partial path := None)) written (policy_paths args @ [ea_summary args]),
                     Inl (FileExistsError (partial (ea_summary args))))
               else (written(ea_summary args \<mapsto> json_file 2 (policy_json args r texts)), Inr r))"

section \<open>The categories partition the claims\<close>

definition component_value :: "string \<Rightarrow> csv_row \<Rightarrow> int" where
  "component_value c r = (case component_atto r c of Inr v \<Rightarrow> v | Inl _ \<Rightarrow> 0)"

lemma add_totals_Inr:
  assumes "add_totals totals r = Inr totals'"
  shows "dict_get totals' c = map_option (\<lambda>n. n + component_value c r) (dict_get totals c)"
  using assms unfolding add_totals_def
  by (induction totals arbitrary: totals') (auto simp: bindR_Inr_iff component_value_def simp del: mapM_Inr_iff)

definition table_total :: "string \<Rightarrow> category_table \<Rightarrow> int" where
  "table_total c t = (case dict_get (ca_totals t) c of Some v \<Rightarrow> v | None \<Rightarrow> 0)"

definition has_totals :: "policy_state \<Rightarrow> bool" where
  "has_totals s \<longleftrightarrow> (\<forall>cat. \<forall>c \<in> set ELIGIBILITY_COMPONENTS. dict_get (ca_totals (po_tables s cat)) c \<noteq> None)"

type_synonym policy_entry = "(string list \<times> csv_row) \<times> checked_row"

definition in_category :: "policy_args \<Rightarrow> string list \<Rightarrow> string list \<Rightarrow> category \<Rightarrow> policy_entry \<Rightarrow> bool" where
  "in_category args excluded active cat x \<longleftrightarrow> above_threshold args (snd x) \<and> row_category excluded active (snd x) = Inr cat"

abbreviation entry_cells :: "string list \<Rightarrow> policy_entry \<Rightarrow> string list" where
  "entry_cells header x \<equiv> map (get_or_empty (snd (fst x))) header"

text \<open>One row: it is below the threshold, or it goes to the table of its category and to no other.\<close>

lemma policy_step_Inr:
  assumes "policy_step args excluded active header s rr = Inr s'" "has_totals s"
  obtains ck where "check_policy_row (po_previous s) (snd rr) = Inr ck" "po_previous s' = Some (ck_key ck)"
    "po_input_rows s' = po_input_rows s + 1" "has_totals s'"
    "above_threshold args ck \<longrightarrow> (\<exists>cat. row_category excluded active ck = Inr cat)"
    "po_threshold_rows s' = po_threshold_rows s + of_bool (above_threshold args ck)"
    "po_below_threshold_rows s' = po_below_threshold_rows s + of_bool (\<not> above_threshold args ck)"
    "set (po_seen_excluded s') = set (po_seen_excluded s) \<union> (if above_threshold args ck \<and> ck_address ck \<in> set excluded then {ck_address ck} else {})"
    "\<forall>cat. ca_rows (po_tables s' cat) = ca_rows (po_tables s cat) @
       (if in_category args excluded active cat (rr, ck) then [entry_cells header (rr, ck)] else [])"
    "\<forall>cat. \<forall>c \<in> set ELIGIBILITY_COMPONENTS. table_total c (po_tables s' cat) = table_total c (po_tables s cat) +
       (if in_category args excluded active cat (rr, ck) then component_value c (snd rr) else 0)"
proof -
  from assms(1) obtain ck where ck: "check_policy_row (po_previous s) (snd rr) = Inr ck"
    by (auto simp: policy_step_def bindR_Inr_iff)
  show thesis
  proof (cases "above_threshold args ck")
    case False
    then have "s' = s\<lparr>po_previous := Some (ck_key ck), po_input_rows := po_input_rows s + 1,
        po_exact_threshold_rows := po_exact_threshold_rows s + of_bool (ck_qualification ck = ea_minimum_one args),
        po_below_threshold_rows := po_below_threshold_rows s + 1\<rparr>"
      using assms(1) by (simp add: policy_step_def ck Let_def)
    then show ?thesis using False assms(2) by (intro that [OF ck]) (simp_all add: in_category_def has_totals_def)
  next
    case True
    with assms(1) obtain cat cells totals where cat: "row_category excluded active ck = Inr cat"
      and cells: "rewrite_record header rr = Inr cells" and totals: "add_totals (ca_totals (po_tables s cat)) (snd rr) = Inr totals"
      and s': "po_previous s' = Some (ck_key ck)" "po_input_rows s' = po_input_rows s + 1" "po_threshold_rows s' = po_threshold_rows s + 1"
        "po_below_threshold_rows s' = po_below_threshold_rows s"
        "po_seen_excluded s' = (if ck_address ck \<in> set excluded then po_seen_excluded s @ [ck_address ck] else po_seen_excluded s)"
        "po_tables s' = (po_tables s)(cat := \<lparr>ca_rows = ca_rows (po_tables s cat) @ [cells], ca_totals = totals\<rparr>)"
      by (auto simp: policy_step_def ck Let_def bindR_Inr_iff)
    have "cells = entry_cells header (rr, ck)" using cells by (auto simp: rewrite_record_def split: if_splits)
    moreover have "table_total c \<lparr>ca_rows = x, ca_totals = totals\<rparr> = table_total c (po_tables s cat) + component_value c (snd rr)"
      if mem: "c \<in> set ELIGIBILITY_COMPONENTS" for c x
    proof -
      obtain n where "dict_get (ca_totals (po_tables s cat)) c = Some n" using mem assms(2) by (auto simp: has_totals_def)
      then show ?thesis using add_totals_Inr [OF totals, of c] by (simp add: table_total_def)
    qed
    ultimately show ?thesis using True assms(2) s' cat add_totals_Inr [OF totals]
      by (intro that [OF ck]) (auto simp: in_category_def has_totals_def)
  qed
qed

lemma check_policy_row_increasing:
  "check_policy_row (Some p) r = Inr ck \<Longrightarrow> p < ck_key ck"
  by (auto simp: check_policy_row_def Let_def bindR_Inr_iff split: if_splits option.splits)

lemma policy_fold:
  assumes "foldM (policy_step args excluded active header) s rrs = Inr s'" "has_totals s"
  shows "\<exists>cks. length cks = length rrs \<and>
    (\<forall>(rr, ck) \<in> set (zip rrs cks). \<exists>p. check_policy_row p (snd rr) = Inr ck) \<and>
    sorted_wrt (<) (map ck_key cks) \<and> (\<forall>p ck. po_previous s = Some p \<longrightarrow> ck \<in> set cks \<longrightarrow> p < ck_key ck) \<and>
    (\<forall>ck \<in> set cks. above_threshold args ck \<longrightarrow> (\<exists>cat. row_category excluded active ck = Inr cat)) \<and>
    po_input_rows s' = po_input_rows s + int (length cks) \<and>
    po_threshold_rows s' = po_threshold_rows s + int (length (filter (above_threshold args) cks)) \<and>
    po_below_threshold_rows s' = po_below_threshold_rows s + int (length (filter (\<lambda>ck. \<not> above_threshold args ck) cks)) \<and>
    set (po_seen_excluded s') = set (po_seen_excluded s) \<union> {ck_address ck | ck. ck \<in> set cks \<and> above_threshold args ck \<and> ck_address ck \<in> set excluded} \<and>
    (\<forall>cat. ca_rows (po_tables s' cat) = ca_rows (po_tables s cat) @
       map (entry_cells header) (filter (in_category args excluded active cat) (zip rrs cks))) \<and>
    (\<forall>cat. \<forall>c \<in> set ELIGIBILITY_COMPONENTS. table_total c (po_tables s' cat) = table_total c (po_tables s cat) +
       sum_list (map (\<lambda>x. component_value c (snd (fst x))) (filter (in_category args excluded active cat) (zip rrs cks))))"
  using assms
proof (induction rrs arbitrary: s)
  case (Cons rr rrs)
  from Cons.prems(1) obtain s1 where s1: "policy_step args excluded active header s rr = Inr s1"
    and rest: "foldM (policy_step args excluded active header) s1 rrs = Inr s'" by (auto simp: bindR_Inr_iff)
  from s1 Cons.prems(2) obtain ck where ck: "check_policy_row (po_previous s) (snd rr) = Inr ck" "po_previous s1 = Some (ck_key ck)"
    "po_input_rows s1 = po_input_rows s + 1" "has_totals s1"
    "above_threshold args ck \<longrightarrow> (\<exists>cat. row_category excluded active ck = Inr cat)"
    "po_threshold_rows s1 = po_threshold_rows s + of_bool (above_threshold args ck)"
    "po_below_threshold_rows s1 = po_below_threshold_rows s + of_bool (\<not> above_threshold args ck)"
    "set (po_seen_excluded s1) = set (po_seen_excluded s) \<union> (if above_threshold args ck \<and> ck_address ck \<in> set excluded then {ck_address ck} else {})"
    and tables: "\<forall>cat. ca_rows (po_tables s1 cat) = ca_rows (po_tables s cat) @
       (if in_category args excluded active cat (rr, ck) then [entry_cells header (rr, ck)] else [])"
    "\<forall>cat. \<forall>c \<in> set ELIGIBILITY_COMPONENTS. table_total c (po_tables s1 cat) = table_total c (po_tables s cat) +
       (if in_category args excluded active cat (rr, ck) then component_value c (snd rr) else 0)"
    by (rule policy_step_Inr)
  from Cons.IH [OF rest ck(4)] obtain cks where len: "length cks = length rrs"
    and each: "\<forall>(rr, ck) \<in> set (zip rrs cks). \<exists>p. check_policy_row p (snd rr) = Inr ck"
    and order: "sorted_wrt (<) (map ck_key cks)" "\<forall>p ck. po_previous s1 = Some p \<longrightarrow> ck \<in> set cks \<longrightarrow> p < ck_key ck"
    and cats: "\<forall>ck \<in> set cks. above_threshold args ck \<longrightarrow> (\<exists>cat. row_category excluded active ck = Inr cat)"
    and counts: "po_input_rows s' = po_input_rows s1 + int (length cks)"
    "po_threshold_rows s' = po_threshold_rows s1 + int (length (filter (above_threshold args) cks))"
    "po_below_threshold_rows s' = po_below_threshold_rows s1 + int (length (filter (\<lambda>ck. \<not> above_threshold args ck) cks))"
    and seen: "set (po_seen_excluded s') = set (po_seen_excluded s1) \<union> {ck_address ck | ck. ck \<in> set cks \<and> above_threshold args ck \<and> ck_address ck \<in> set excluded}"
    and rows: "\<forall>cat. ca_rows (po_tables s' cat) = ca_rows (po_tables s1 cat) @
       map (entry_cells header) (filter (in_category args excluded active cat) (zip rrs cks))"
    and totals: "\<forall>cat. \<forall>c \<in> set ELIGIBILITY_COMPONENTS. table_total c (po_tables s' cat) = table_total c (po_tables s1 cat) +
       sum_list (map (\<lambda>x. component_value c (snd (fst x))) (filter (in_category args excluded active cat) (zip rrs cks)))"
    by blast
  have above: "\<forall>k \<in> set cks. ck_key ck < ck_key k" using order(2) ck(2) by blast
  have prev: "p < ck_key k" if "po_previous s = Some p" "k \<in> set (ck # cks)" for p k
    using that above check_policy_row_increasing [of p "snd rr" ck] ck(1) by (auto intro: less_trans)
  show ?case
  proof (intro exI [of _ "ck # cks"] conjI allI)
    show "length (ck # cks) = length (rr # rrs)" using len by simp
    show "\<forall>(rr, ck) \<in> set (zip (rr # rrs) (ck # cks)). \<exists>p. check_policy_row p (snd rr) = Inr ck" using each ck(1) by auto
    show "sorted_wrt (<) (map ck_key (ck # cks))" using order(1) above by simp
    show "po_previous s = Some p \<longrightarrow> k \<in> set (ck # cks) \<longrightarrow> p < ck_key k" for p k using prev by blast
    show "\<forall>ck \<in> set (ck # cks). above_threshold args ck \<longrightarrow> (\<exists>cat. row_category excluded active ck = Inr cat)" using cats ck(5) by simp
    show "po_input_rows s' = po_input_rows s + int (length (ck # cks))" using counts ck by simp
    show "po_threshold_rows s' = po_threshold_rows s + int (length (filter (above_threshold args) (ck # cks)))" using counts ck by simp
    show "po_below_threshold_rows s' = po_below_threshold_rows s + int (length (filter (\<lambda>ck. \<not> above_threshold args ck) (ck # cks)))"
      using counts ck by simp
    show "set (po_seen_excluded s') = set (po_seen_excluded s) \<union>
        {ck_address k | k. k \<in> set (ck # cks) \<and> above_threshold args k \<and> ck_address k \<in> set excluded}"
      unfolding seen ck(8) by auto
    show "ca_rows (po_tables s' cat) = ca_rows (po_tables s cat) @
        map (entry_cells header) (filter (in_category args excluded active cat) (zip (rr # rrs) (ck # cks)))" for cat
      using rows tables(1) by simp
    show "\<forall>c \<in> set ELIGIBILITY_COMPONENTS. table_total c (po_tables s' cat) = table_total c (po_tables s cat) +
       sum_list (map (\<lambda>x. component_value c (snd (fst x))) (filter (in_category args excluded active cat) (zip (rr # rrs) (ck # cks))))" for cat
      using totals tables(2) by simp
  qed
qed simp

lemma run_policy_Inr:
  assumes "run_policy fs args = Inr r"
  shows "fs (ea_input args) = Some (pr_content r)" "distinct (policy_paths args)"
    "foldM (policy_step args (pr_excluded r) (active_code (pr_automatic_code r) (pr_excluded r)) (fieldnames (pr_content r))) policy_start
       (dict_records (pr_content r)) = Inr (pr_state r)"
    "set (po_seen_excluded (pr_state r)) = set (pr_excluded r)"
  using assms
  by (auto simp: run_policy_def bindR_Inr_iff read_text_def of_option_Inr_iff split: list.splits if_splits)

lemma has_totals_start: "has_totals policy_start"
  by (simp add: has_totals_def policy_start_def ELIGIBILITY_COMPONENTS_def)

lemma table_total_start: "table_total c (po_tables policy_start cat) = 0"
  by (auto simp: table_total_def policy_start_def split: option.splits dest!: map_of_SomeD)

text \<open>Where no output is the partial file of another, each output is the table of its category.\<close>

lemma placed_tables:
  assumes "distinct (policy_paths args)" "\<forall>p \<in> set (policy_paths args). partial p \<notin> set (policy_paths args)"
    and "foldl place_table (foldl (\<lambda>m (c, label, path). m(partial path \<mapsto> table_csv r c)) fs (policy_outputs args), []) (policy_outputs args) =
      (written, texts)"
  shows "\<forall>(cat, label, path) \<in> set (policy_outputs args). written path = Some (table_csv r cat)"
  using assms by (auto simp: policy_outputs_def policy_paths_def place_table_def)

section \<open>An example\<close>

definition sample_policy :: policy_args where
  "sample_policy = \<lparr>ea_input = ''in'', ea_automatic_output = ''auto'', ea_contract_review_output = ''review'',
     ea_excluded_address_output = ''excluded'', ea_automatic_code_addresses = [], ea_summary = ''sum'', ea_minimum_one = 5,
     ea_comparison_ge = True, ea_exclude_address = [], ea_exclude_addresses_file = []\<rparr>"

definition sample_cells :: "string list" where
  "sample_cells = [ZERO_KEY, ZERO_ADDRESS, EMPTY_CODE_HASH, [], ''3'', ''1'', ''4'', ''2'', ''0'', ''0'', ''0'', ''4'', ''2'', ''6'']"

definition sample_content :: string where
  "sample_content = csv_text [required_columns, sample_cells]"

definition sample_row :: csv_row where
  "sample_row = dict_of_record required_columns sample_cells"

definition sample_checked :: checked_row where
  "sample_checked = \<lparr>ck_key = ZERO_KEY, ck_address = ZERO_ADDRESS, ck_has_code = False, ck_qualification = 6\<rparr>"

lemma sample_content_read: "fieldnames sample_content = required_columns" "dict_records sample_content = [(sample_cells, sample_row)]"
  by code_simp+

lemma sample_row_fields:
  "text_field sample_row ''secure_key'' = Inr ZERO_KEY" "value_field sample_row ''address'' = Inr ZERO_ADDRESS"
  "code_bearing sample_row = Inr (Some False)" "dict_get sample_row ''qualification_total_atto'' = None"
  "int_of_field sample_row ''total_claim_atto'' = Inr 6" "int_of_field sample_row ''wallet_airdrop_atto'' = Inr 4"
  "int_of_field sample_row ''staked_to_vault_atto'' = Inr 2"
  by code_simp+

lemma sample_row_checked: "check_policy_row None sample_row = Inr sample_checked"
proof -
  have "ZERO_ADDRESS \<noteq> []" "lower ZERO_ADDRESS = ZERO_ADDRESS" by code_simp+
  then show ?thesis
    by (simp add: check_policy_row_def sample_row_fields zero_address_bytes(3) zero_address_key sample_checked_def)
qed

lemma sample_row_totals:
  "\<exists>totals. add_totals (map (\<lambda>c. (c, 0)) ELIGIBILITY_COMPONENTS) sample_row = Inr totals"
  "rewrite_record required_columns (sample_cells, sample_row) = Inr sample_cells"
proof -
  have "(case add_totals (map (\<lambda>c. (c, 0)) ELIGIBILITY_COMPONENTS) sample_row of Inr _ \<Rightarrow> True | Inl _ \<Rightarrow> False)" by code_simp
  then show "\<exists>totals. add_totals (map (\<lambda>c. (c, 0)) ELIGIBILITY_COMPONENTS) sample_row = Inr totals" by (auto split: sum.splits)
  show "rewrite_record required_columns (sample_cells, sample_row) = Inr sample_cells" by code_simp
qed

lemma sample_policy_run: "\<exists>r. run_policy [''in'' \<mapsto> sample_content] sample_policy = Inr r \<and> pr_content r = sample_content \<and> pr_excluded r = [] \<and>
    pr_automatic_code r = [] \<and> po_threshold_rows (pr_state r) = 1 \<and> ca_rows (po_tables (pr_state r) Automatic) = [sample_cells]"
proof -
  obtain totals where t: "add_totals (map (\<lambda>c. (c, 0)) ELIGIBILITY_COMPONENTS) sample_row = Inr totals" using sample_row_totals(1) by blast
  have cat: "row_category [] [] sample_checked = Inr Automatic" "above_threshold sample_policy sample_checked"
    by (simp_all add: row_category_def sample_checked_def above_threshold_def sample_policy_def)
  have step: "policy_step sample_policy [] [] required_columns policy_start (sample_cells, sample_row) = Inr (policy_start
      \<lparr>po_previous := Some ZERO_KEY, po_input_rows := 1, po_exact_threshold_rows := 0, po_threshold_rows := 1,
       po_tables := (po_tables policy_start)(Automatic := \<lparr>ca_rows = [sample_cells], ca_totals = totals\<rparr>)\<rparr>)"
    unfolding policy_step_def
    by (simp add: sample_row_checked cat sample_row_totals(2) t policy_start_def Let_def)
      (simp add: sample_checked_def sample_policy_def)
  have files: "filter (taken [''in'' \<mapsto> sample_content]) (policy_paths sample_policy @ [ea_summary sample_policy]) = []"
    "distinct (policy_paths sample_policy)" "ea_input sample_policy = ''in''"
    by (simp_all add: sample_policy_def policy_paths_def policy_outputs_def taken_def partial_def)
  have lists: "load_excluded_addresses fs (ea_exclude_address sample_policy) (ea_exclude_addresses_file sample_policy) = Inr ([], [])"
    "load_automatic_code_addresses fs (ea_automatic_code_addresses sample_policy) = Inr ([], [])" for fs
    by (simp_all add: sample_policy_def load_excluded_addresses_def load_automatic_code_addresses_def)
  show ?thesis
    unfolding run_policy_def files(1) list.case
    by (simp add: files lists read_text_def sample_content_read active_code_def step)
      (simp add: policy_start_def)
qed

text \<open>
  C8. The eligibility policy partitions the claims. When it returns, every row of the input has passed its checks and the
  secure keys increase; every row at or above the threshold (above it for \<^verbatim>\<open>gt\<close>) has exactly one category: the excluded
  addresses, else the automatic ones, which are those without code and the listed ones, else the contracts to review. Each
  category's output has its rows, in order and unchanged, provided that no output path is the partial path of another, and
  the totals of its rows; the threshold rows are the sum of the three categories; every excluded address was found among them.
\<close>

theorem eligibility_partitions:
  assumes "apply_policy fs args = (fs', Inr r)" "ea_summary args \<notin> set (policy_paths args)"
  shows "\<exists>cks. length cks = length (dict_records (pr_content r)) \<and>
    (\<forall>(rr, ck) \<in> set (zip (dict_records (pr_content r)) cks). \<exists>p. check_policy_row p (snd rr) = Inr ck) \<and>
    sorted_wrt (<) (map ck_key cks) \<and>
    ((\<forall>p \<in> set (policy_paths args). p @ ''.partial'' \<notin> set (policy_paths args)) \<longrightarrow> (\<forall>(cat, label, path) \<in> set (policy_outputs args).
       fs' path = Some (csv_text (fieldnames (pr_content r) # map (entry_cells (fieldnames (pr_content r)))
         (filter (in_category args (pr_excluded r) (active_code (pr_automatic_code r) (pr_excluded r)) cat) (zip (dict_records (pr_content r)) cks)))))) \<and>
    (\<forall>ck \<in> set cks. above_threshold args ck \<longleftrightarrow>
       (if ea_comparison_ge args then ea_minimum_one args \<le> ck_qualification ck else ea_minimum_one args < ck_qualification ck)) \<and>
    (\<forall>ck \<in> set cks. above_threshold args ck \<longrightarrow>
       row_category (pr_excluded r) (active_code (pr_automatic_code r) (pr_excluded r)) ck =
         Inr (if ck_address ck \<in> set (pr_excluded r) then ExcludedAddress
              else if ck_has_code ck \<and> ck_address ck \<notin> set (pr_automatic_code r) then ContractReview else Automatic)) \<and>
    (\<forall>cat. \<forall>c \<in> set ELIGIBILITY_COMPONENTS. table_total c (po_tables (pr_state r) cat) =
       sum_list (map (\<lambda>x. component_value c (snd (fst x)))
         (filter (in_category args (pr_excluded r) (active_code (pr_automatic_code r) (pr_excluded r)) cat) (zip (dict_records (pr_content r)) cks)))) \<and>
    po_input_rows (pr_state r) = int (length cks) \<and>
    po_threshold_rows (pr_state r) + po_below_threshold_rows (pr_state r) = po_input_rows (pr_state r) \<and>
    po_threshold_rows (pr_state r) = int (length (ca_rows (po_tables (pr_state r) Automatic))) +
      int (length (ca_rows (po_tables (pr_state r) ContractReview))) + int (length (ca_rows (po_tables (pr_state r) ExcludedAddress))) \<and>
    set (pr_excluded r) \<subseteq> ck_address ` {ck \<in> set cks. above_threshold args ck}"
proof -
  from assms(1) have run: "run_policy fs args = Inr r"
    by (auto simp: apply_policy_def Let_def split: sum.splits prod.splits if_splits)
  obtain written texts where placed: "foldl place_table (foldl (\<lambda>m (c, label, path). m(partial path \<mapsto> table_csv r c)) fs (policy_outputs args), [])
      (policy_outputs args) = (written, texts)" by fastforce
  have fs': "fs' = written(ea_summary args \<mapsto> json_file 2 (policy_json args r texts))"
    using assms(1) by (auto simp: apply_policy_def run placed split: if_splits)
  note r = run_policy_Inr [OF run]
  let ?rrs = "dict_records (pr_content r)" and ?ex = "pr_excluded r" and ?ac = "active_code (pr_automatic_code r) (pr_excluded r)"
    and ?s = "pr_state r" and ?h = "fieldnames (pr_content r)"
  from policy_fold [OF r(3) has_totals_start] obtain cks where len: "length cks = length ?rrs"
    and each: "\<forall>(rr, ck) \<in> set (zip ?rrs cks). \<exists>p. check_policy_row p (snd rr) = Inr ck" and order: "sorted_wrt (<) (map ck_key cks)"
    and cats: "\<forall>ck \<in> set cks. above_threshold args ck \<longrightarrow> (\<exists>cat. row_category ?ex ?ac ck = Inr cat)"
    and counts: "po_input_rows ?s = int (length cks)" "po_threshold_rows ?s = int (length (filter (above_threshold args) cks))"
      "po_below_threshold_rows ?s = int (length (filter (\<lambda>ck. \<not> above_threshold args ck) cks))"
    and seen: "set (po_seen_excluded ?s) = {ck_address ck | ck. ck \<in> set cks \<and> above_threshold args ck \<and> ck_address ck \<in> set ?ex}"
    and rows: "\<forall>cat. ca_rows (po_tables ?s cat) = map (entry_cells ?h) (filter (in_category args ?ex ?ac cat) (zip ?rrs cks))"
    and totals: "\<forall>cat. \<forall>c \<in> set ELIGIBILITY_COMPONENTS. table_total c (po_tables ?s cat) =
       sum_list (map (\<lambda>x. component_value c (snd (fst x))) (filter (in_category args ?ex ?ac cat) (zip ?rrs cks)))"
    unfolding table_total_start by (auto simp: policy_start_def)
  have three: "length (filter (above_threshold args) cks) = length (filter (in_category args ?ex ?ac Automatic) (zip xs cks)) +
      length (filter (in_category args ?ex ?ac ContractReview) (zip xs cks)) + length (filter (in_category args ?ex ?ac ExcludedAddress) (zip xs cks))"
    if "length cks = length xs" for xs
    using that cats by (induction cks xs rule: list_induct2) (auto simp: in_category_def row_category_def split: if_splits)
  have files: "fs' path = Some (csv_text (?h # ca_rows (po_tables ?s cat)))"
    if "(cat, label, path) \<in> set (policy_outputs args)" "\<forall>p \<in> set (policy_paths args). p @ ''.partial'' \<notin> set (policy_paths args)" for cat label path
  proof -
    have "path \<noteq> ea_summary args" using that(1) assms(2) by (auto simp: policy_paths_def image_iff)
    then show ?thesis using placed_tables [OF r(2) _ placed] that by (auto simp: fs' table_csv_def partial_def)
  qed
  have rule: "row_category ?ex ?ac ck = Inr (if ck_address ck \<in> set ?ex then ExcludedAddress
      else if ck_has_code ck \<and> ck_address ck \<notin> set (pr_automatic_code r) then ContractReview else Automatic)"
    if "ck \<in> set cks" "above_threshold args ck" for ck
    using cats that by (fastforce simp: row_category_def active_code_def split: if_splits)
  have found: "set ?ex \<subseteq> ck_address ` {ck \<in> set cks. above_threshold args ck}" using seen r(4) by auto
  show ?thesis
    using len each order cats totals counts three [OF len] files rows found rule sum_length_filter_compl [of "above_threshold args" cks]
    by (intro exI [of _ cks] conjI) (auto simp: above_threshold_def)
qed

theorem eligibility_partitions_witness:
  "\<exists>fs' r. apply_policy [''in'' \<mapsto> sample_content] sample_policy = (fs', Inr r) \<and> po_threshold_rows (pr_state r) = 1 \<and>
     po_threshold_rows (pr_state r) + po_below_threshold_rows (pr_state r) = po_input_rows (pr_state r)"
proof -
  obtain r where run: "run_policy [''in'' \<mapsto> sample_content] sample_policy = Inr r" and r: "po_threshold_rows (pr_state r) = 1"
    using sample_policy_run by blast
  let ?opened = "foldl (\<lambda>m (c, label, path). m(partial path \<mapsto> table_csv r c)) [''in'' \<mapsto> sample_content] (policy_outputs sample_policy)"
  have "fst (foldl place_table (?opened, []) (policy_outputs sample_policy)) (partial (ea_summary sample_policy)) = None"
    by (simp add: policy_outputs_def place_table_def sample_policy_def partial_def)
  then obtain fs' where a: "apply_policy [''in'' \<mapsto> sample_content] sample_policy = (fs', Inr r)"
    by (simp add: apply_policy_def run Let_def case_prod_beta)
  have "ea_summary sample_policy \<notin> set (policy_paths sample_policy)"
    by (simp add: sample_policy_def policy_paths_def policy_outputs_def)
  from eligibility_partitions [OF a this] have "po_threshold_rows (pr_state r) + po_below_threshold_rows (pr_state r) = po_input_rows (pr_state r)"
    by blast
  with a r show ?thesis by blast
qed

end
