(* ===== verification/VaultShares.thy ===== *)
theory VaultShares
  imports Merge Files Amounts ZeroAddress "HOL-Library.Product_Lexorder"
begin

text \<open>
  \<^verbatim>\<open>toolkit/scripts/claims/build-vault-share-allocation.py\<close>: the delegations of every claim become shares of the
  validators' vaults. The claims are assigned to categories, each delegation is a priority or a deferred share, the stake of every
  claim has to be covered by its delegations, and the direct wallet amounts are listed by category. The outputs are written one
  after the other; the last checks come after the outputs.
\<close>

definition DETAIL_FIELDS :: "string list" where
  "DETAIL_FIELDS = [''validator_address'', ''validator_secure_key'', ''delegator_address'', ''delegator_secure_key'',
     ''staked_to_vault_atto'', ''is_self_delegation'']"

record vault_args =
  va_all_claims :: string
  va_delegations :: string
  va_automatic_claims :: string
  va_contract_review_claims :: string
  va_excluded_claims :: string
  va_vault_deposits_output :: string
  va_priority_shares_output :: string
  va_deferred_shares_output :: string
  va_automatic_wallet_output :: string
  va_contract_wallet_output :: string
  va_excluded_wallet_output :: string
  va_summary :: string
  va_minimum_one :: int

section \<open>Claims\<close>

definition require_allocation_fields :: "csv_row \<Rightarrow> (int \<times> int \<times> int) result" where
  "require_allocation_fields r =
     bindR (int_of_field r ''total_claim_atto'') (\<lambda>total_claim.
     bindR (int_of_field r ''wallet_airdrop_atto'') (\<lambda>wallet.
     bindR (int_of_field r ''staked_to_vault_atto'') (\<lambda>staked.
     if min total_claim (min wallet staked) < 0 \<or> wallet + staked \<noteq> total_claim
     then Inl (ValueError ''allocation component mismatch'')
     else Inr (total_claim, wallet, staked))))"

record vault_claim =
  vc_address :: string
  vc_total_claim :: int
  vc_wallet :: int
  vc_wone :: int
  vc_qualification_total :: int
  vc_staked :: int

definition wone_airdrop :: "csv_row \<Rightarrow> int result" where
  "wone_airdrop r = (let v = get_or_empty r ''wone_airdrop_atto'' in if v = [] then Inr 0 else py_int v)"

definition qualification_total :: "csv_row \<Rightarrow> int \<Rightarrow> int result" where
  "qualification_total r total_claim =
     (if dict_get r ''qualification_total_atto'' = None then Inr total_claim else int_of_field r ''qualification_total_atto'')"

definition claim_step :: "string option \<times> (string, vault_claim) dict \<Rightarrow> csv_row \<Rightarrow> (string option \<times> (string, vault_claim) dict) result" where
  "claim_step s r =
     (case s of (previous, claims) \<Rightarrow>
     bindR (text_field r ''secure_key'') (\<lambda>k.
     let key = lower k in
     if (case previous of None \<Rightarrow> False | Some p \<Rightarrow> key \<le> p) then Inl (ValueError ''secure keys are not increasing'')
     else if dict_get claims key \<noteq> None then Inl (ValueError ''duplicate secure key'')
     else
       bindR (require_allocation_fields r) (\<lambda>(total_claim, wallet, staked).
       bindR (wone_airdrop r) (\<lambda>wone.
       bindR (qualification_total r total_claim) (\<lambda>qualification.
       if wone < 0 \<or> wone > wallet \<or> qualification < total_claim then Inl (ValueError ''invalid WONE overlay'')
       else
         bindR (text_field r ''address'') (\<lambda>address.
           Inr (Some key, dict_set key \<lparr>vc_address = lower address, vc_total_claim = total_claim, vc_wallet = wallet, vc_wone = wone,
                  vc_qualification_total = qualification, vc_staked = staked\<rparr> claims)))))))"

definition load_all_claims :: "files \<Rightarrow> string \<Rightarrow> (string, vault_claim) dict result" where
  "load_all_claims fs path =
     bindR (read_text fs path) (\<lambda>content.
     if \<not> {''secure_key'', ''address'', ''total_claim_atto'', ''wallet_airdrop_atto'', ''staked_to_vault_atto''} \<subseteq> set (fieldnames content)
     then Inl (ValueError ''missing fields'')
     else bindR (foldM claim_step (None, []) (dict_reader content)) (\<lambda>s. Inr (snd s)))"

section \<open>Categories\<close>

datatype share_category = AutomaticShare | ContractShare | ExcludedShare

fun category_label :: "share_category \<Rightarrow> string" where
  "category_label AutomaticShare = ''automatic''"
| "category_label ContractShare = ''contract_review''"
| "category_label ExcludedShare = ''excluded''"

fun category_status :: "share_category \<Rightarrow> string" where
  "category_status AutomaticShare = ''same-address''"
| "category_status ContractShare = ''manual-contract-recovery''"
| "category_status ExcludedShare = ''policy-routed''"

record category_totals =
  ct_rows :: int
  ct_wallet :: int
  ct_wone :: int
  ct_staked :: int
  ct_total_claim :: int

type_synonym assignments = "(string, share_category) dict"

definition category_step :: "share_category \<Rightarrow> (string, vault_claim) dict \<Rightarrow> assignments \<times> category_totals \<Rightarrow> csv_row \<Rightarrow>
    (assignments \<times> category_totals) result" where
  "category_step cat claims s r =
     (case s of (assigned, totals) \<Rightarrow>
     bindR (text_field r ''secure_key'') (\<lambda>k.
     let key = lower k in
     case dict_get claims key of
       None \<Rightarrow> Inl (ValueError ''unknown secure key'')
     | Some expected \<Rightarrow>
         if dict_get assigned key \<noteq> None then Inl (ValueError ''category overlap'')
         else
           bindR (bindR (value_field r ''address'') (\<lambda>a. require_address_secure_key a key)) (\<lambda>address.
           bindR (require_allocation_fields r) (\<lambda>(total_claim, wallet, staked).
           if total_claim \<noteq> vc_total_claim expected \<or> wallet \<noteq> vc_wallet expected \<or> staked \<noteq> vc_staked expected \<or>
              address \<noteq> vc_address expected
           then Inl (ValueError ''claim mismatch'')
           else
             bindR (wone_airdrop r) (\<lambda>wone.
             if wone \<noteq> vc_wone expected then Inl (ValueError ''claim mismatch'')
             else Inr (dict_set key cat assigned,
                       \<lparr>ct_rows = ct_rows totals + 1, ct_wallet = ct_wallet totals + wallet, ct_wone = ct_wone totals + vc_wone expected,
                        ct_staked = ct_staked totals + staked, ct_total_claim = ct_total_claim totals + total_claim\<rparr>))))))"

definition load_category :: "files \<Rightarrow> string \<Rightarrow> share_category \<Rightarrow> (string, vault_claim) dict \<Rightarrow> assignments \<Rightarrow>
    (assignments \<times> category_totals) result" where
  "load_category fs path cat claims assigned =
     bindR (read_text fs path) (\<lambda>content.
       foldM (category_step cat claims) (assigned, \<lparr>ct_rows = 0, ct_wallet = 0, ct_wone = 0, ct_staked = 0, ct_total_claim = 0\<rparr>)
         (dict_reader content))"

definition category_paths :: "vault_args \<Rightarrow> (string \<times> share_category) list" where
  "category_paths args = [(va_automatic_claims args, AutomaticShare), (va_contract_review_claims args, ContractShare),
     (va_excluded_claims args, ExcludedShare)]"

definition load_categories :: "files \<Rightarrow> vault_args \<Rightarrow> (string, vault_claim) dict \<Rightarrow>
    (assignments \<times> (share_category \<times> category_totals) list) result" where
  "load_categories fs args claims =
     foldM (\<lambda>(assigned, totals) (path, cat).
       bindR (load_category fs path cat claims assigned) (\<lambda>(assigned', t). Inr (assigned', dict_set cat t totals)))
       ([], []) (category_paths args)"

section \<open>Delegations\<close>

record vault =
  vt_address :: string
  vt_key :: string
  vt_assets :: int
  vt_priority :: int
  vt_deferred :: int
  vt_rows :: int

record share_state =
  ss_by_delegator :: "(string, int) dict"
  ss_by_validator :: "(string, vault) dict"
  ss_priority :: "csv_row list"
  ss_deferred :: "csv_row list"
  ss_seen :: "(string \<times> string) list"
  ss_total :: int

definition no_shares :: share_state where
  "no_shares = \<lparr>ss_by_delegator = [], ss_by_validator = [], ss_priority = [], ss_deferred = [], ss_seen = [], ss_total = 0\<rparr>"

definition get_int :: "(string, int) dict \<Rightarrow> string \<Rightarrow> int" where
  "get_int d k = (case dict_get d k of Some n \<Rightarrow> n | None \<Rightarrow> 0)"

definition detail_row :: "csv_row \<Rightarrow> csv_row result" where
  "detail_row r = mapM (\<lambda>f. bindR (field r f) (\<lambda>v. Inr (f, v))) DETAIL_FIELDS"

definition priority_cells :: "share_category \<Rightarrow> string \<Rightarrow> csv_row" where
  "priority_cells cat delegator_address =
     [(''allocation_category'', Some (category_label cat)),
      (''share_destination_address'', Some (if cat = AutomaticShare then delegator_address else [])),
      (''destination_status'', Some (category_status cat))]"

definition delegation_step :: "(string, vault_claim) dict \<Rightarrow> assignments \<Rightarrow> share_state \<Rightarrow> csv_row \<Rightarrow> share_state result" where
  "delegation_step claims assigned s r =
     bindR (text_field r ''validator_secure_key'') (\<lambda>vk.
     bindR (text_field r ''delegator_secure_key'') (\<lambda>dk.
     let validator_key = lower vk; delegator_key = lower dk in
     bindR (value_field r ''validator_address'') (\<lambda>validator_address.
     bindR (require_address_secure_key validator_address validator_key) (\<lambda>_.
     bindR (value_field r ''delegator_address'') (\<lambda>delegator_address.
     bindR (require_address_secure_key delegator_address delegator_key) (\<lambda>_.
     if (validator_key, delegator_key) \<in> set (ss_seen s) then Inl (ValueError ''duplicate delegation'')
     else
       bindR (int_of_field r ''staked_to_vault_atto'') (\<lambda>amount.
       if amount \<le> 0 then Inl (ValueError ''non-positive delegation'')
       else case dict_get claims delegator_key of
         None \<Rightarrow> Inl (ValueError ''unknown delegator'')
       | Some claim \<Rightarrow>
           if vc_address claim \<noteq> lower delegator_address then Inl (ValueError ''delegator address mismatch'')
           else
             let vault = (case dict_get (ss_by_validator s) validator_key of
                   Some v \<Rightarrow> v
                 | None \<Rightarrow> \<lparr>vt_address = validator_address, vt_key = validator_key, vt_assets = 0, vt_priority = 0, vt_deferred = 0, vt_rows = 0\<rparr>)
             in if lower (vt_address vault) \<noteq> lower validator_address then Inl (ValueError ''validator address mismatch'')
             else
               bindR (detail_row r) (\<lambda>base.
               let vault = vault\<lparr>vt_assets := vt_assets vault + amount, vt_rows := vt_rows vault + 1\<rparr>;
                   s = s\<lparr>ss_seen := ss_seen s @ [(validator_key, delegator_key)], ss_total := ss_total s + amount,
                         ss_by_delegator := dict_set delegator_key (get_int (ss_by_delegator s) delegator_key + amount) (ss_by_delegator s)\<rparr>
               in case dict_get assigned delegator_key of
                 None \<Rightarrow>
                   Inr (s\<lparr>ss_by_validator := dict_set validator_key (vault\<lparr>vt_deferred := vt_deferred vault + amount\<rparr>) (ss_by_validator s),
                          ss_deferred := ss_deferred s @ [base]\<rparr>)
               | Some cat \<Rightarrow>
                   Inr (s\<lparr>ss_by_validator := dict_set validator_key (vault\<lparr>vt_priority := vt_priority vault + amount\<rparr>) (ss_by_validator s),
                          ss_priority := ss_priority s @ [base @ priority_cells cat delegator_address]\<rparr>)))))))))"

definition load_delegations :: "files \<Rightarrow> string \<Rightarrow> (string, vault_claim) dict \<Rightarrow> assignments \<Rightarrow> share_state result" where
  "load_delegations fs path claims assigned =
     bindR (read_text fs path) (\<lambda>content.
     if \<not> set DETAIL_FIELDS \<subseteq> set (fieldnames content) then Inl (ValueError ''missing fields'')
     else foldM (delegation_step claims assigned) no_shares (dict_reader content))"

section \<open>The outputs\<close>

definition write_csv :: "files \<Rightarrow> string \<Rightarrow> string list \<Rightarrow> string list list \<Rightarrow> files \<times> unit result" where
  "write_csv fs path columns rows =
     (if taken fs path then (fs, Inl (FileExistsError path)) else (fs(path \<mapsto> csv_text (columns # rows)), Inr ()))"

fun write_tables :: "files \<Rightarrow> (string \<times> string list \<times> string list list) list \<Rightarrow> files \<times> unit result" where
  "write_tables fs [] = (fs, Inr ())"
| "write_tables fs ((path, columns, rows) # rest) =
     (case write_csv fs path columns rows of (fs', Inl e) \<Rightarrow> (fs', Inl e) | (fs', Inr _) \<Rightarrow> write_tables fs' rest)"

definition share_key :: "csv_row \<Rightarrow> string \<times> string" where
  "share_key r = (get_or_empty r ''validator_secure_key'', get_or_empty r ''delegator_secure_key'')"

definition VAULT_FIELDS :: "string list" where
  "VAULT_FIELDS = [''validator_address'', ''validator_secure_key'', ''vault_assets_atto'', ''priority_staked_to_vault_atto'',
     ''deferred_staked_to_vault_atto'', ''delegation_rows'']"

definition vault_row :: "vault \<Rightarrow> string list" where
  "vault_row v = [vt_address v, vt_key v, str_int (vt_assets v), str_int (vt_priority v), str_int (vt_deferred v), str_int (vt_rows v)]"

definition PRIORITY_FIELDS :: "string list" where
  "PRIORITY_FIELDS = DETAIL_FIELDS @ [''allocation_category'', ''share_destination_address'', ''destination_status'']"

definition share_tables :: "vault_args \<Rightarrow> share_state \<Rightarrow> (string \<times> string list \<times> string list list) list" where
  "share_tables args s =
     [(va_vault_deposits_output args, VAULT_FIELDS, map vault_row (sort_key vt_key (dict_values (ss_by_validator s)))),
      (va_priority_shares_output args, PRIORITY_FIELDS, map (\<lambda>r. map (get_or_empty r) PRIORITY_FIELDS) (sort_key share_key (ss_priority s))),
      (va_deferred_shares_output args, DETAIL_FIELDS, map (\<lambda>r. map (get_or_empty r) DETAIL_FIELDS) (sort_key share_key (ss_deferred s)))]"

definition WALLET_FIELDS :: "string list" where
  "WALLET_FIELDS = [''secure_key'', ''source_address'', ''native_wallet_airdrop_atto'', ''wone_airdrop_atto'', ''wallet_airdrop_atto'',
     ''staked_to_vault_atto'', ''total_claim_atto'', ''allocation_category'', ''destination_address'', ''destination_status'']"

definition wallet_row :: "string \<Rightarrow> vault_claim \<Rightarrow> share_category \<Rightarrow> csv_row" where
  "wallet_row key c cat = zip WALLET_FIELDS (map Some
     [key, vc_address c, str_int (vc_wallet c - vc_wone c), str_int (vc_wone c), str_int (vc_wallet c), str_int (vc_staked c),
      str_int (vc_total_claim c), category_label cat, if cat = AutomaticShare then vc_address c else [], category_status cat])"

definition wallet_rows :: "(string, vault_claim) dict \<Rightarrow> assignments \<Rightarrow> (share_category \<times> csv_row) list result" where
  "wallet_rows claims assigned =
     bindR (mapM (\<lambda>(key, cat). bindR (of_option (KeyError key) (dict_get claims key)) (\<lambda>c. Inr (cat, key, c)))
       (sort_key fst assigned)) (\<lambda>entries.
       Inr (map (\<lambda>(cat, key, c). (cat, wallet_row key c cat)) (filter (\<lambda>(cat, key, c). vc_wallet c \<noteq> 0) entries)))"

definition rows_of :: "share_category \<Rightarrow> (share_category \<times> csv_row) list \<Rightarrow> csv_row list" where
  "rows_of cat ws = map snd (filter (\<lambda>w. fst w = cat) ws)"

definition wallet_tables :: "vault_args \<Rightarrow> (share_category \<times> csv_row) list \<Rightarrow> (string \<times> string list \<times> string list list) list" where
  "wallet_tables args ws =
     map (\<lambda>(path, cat). (path, WALLET_FIELDS, map (\<lambda>r. map (get_or_empty r) WALLET_FIELDS) (rows_of cat ws)))
       [(va_automatic_wallet_output args, AutomaticShare), (va_contract_wallet_output args, ContractShare),
        (va_excluded_wallet_output args, ExcludedShare)]"

section \<open>The command\<close>

record vault_run =
  vr_claims :: "(string, vault_claim) dict"
  vr_assigned :: assignments
  vr_totals :: "(share_category \<times> category_totals) list"
  vr_shares :: share_state

definition vault_outputs :: "vault_args \<Rightarrow> string list" where
  "vault_outputs args = [va_vault_deposits_output args, va_priority_shares_output args, va_deferred_shares_output args,
     va_automatic_wallet_output args, va_contract_wallet_output args, va_excluded_wallet_output args, va_summary args]"

definition vault_read :: "files \<Rightarrow> vault_args \<Rightarrow> vault_run result" where
  "vault_read fs args =
     (case filter (taken fs) (vault_outputs args) of
        path # _ \<Rightarrow> Inl (FileExistsError path)
      | [] \<Rightarrow>
          bindR (load_all_claims fs (va_all_claims args)) (\<lambda>claims.
          bindR (load_categories fs args claims) (\<lambda>(assigned, totals).
          if fst ` set assigned \<noteq> fst ` {e \<in> set claims. vc_qualification_total (snd e) \<ge> va_minimum_one args}
          then Inl (ValueError ''eligibility category union does not match total-claim threshold'')
          else
            bindR (load_delegations fs (va_delegations args) claims assigned) (\<lambda>s.
            if \<exists>e \<in> set claims. get_int (ss_by_delegator s) (fst e) \<noteq> vc_staked (snd e)
            then Inl (ValueError ''vault-share detail mismatch'')
            else Inr \<lparr>vr_claims = claims, vr_assigned = assigned, vr_totals = totals, vr_shares = s\<rparr>))))"

definition sum_field :: "string \<Rightarrow> csv_row list \<Rightarrow> int result" where
  "sum_field name rows = bindR (mapM (\<lambda>r. int_of_field r name) rows) (\<lambda>ns. Inr (sum_list ns))"

definition wallet_total_ok :: "vault_run \<Rightarrow> (share_category \<times> csv_row) list \<Rightarrow> share_category \<Rightarrow> unit result" where
  "wallet_total_ok r ws cat =
     bindR (sum_field ''wallet_airdrop_atto'' (rows_of cat ws)) (\<lambda>n.
     bindR (of_option (KeyError (category_label cat)) (dict_get (vr_totals r) cat)) (\<lambda>t.
     if n \<noteq> ct_wallet t then Inl (ValueError ''direct wallet-airdrop total mismatch'') else Inr ()))"

definition final_checks :: "vault_run \<Rightarrow> (share_category \<times> csv_row) list \<Rightarrow> unit result" where
  "final_checks r ws =
     (if ss_total (vr_shares r) \<noteq> sum_list (map vc_staked (dict_values (vr_claims r)))
      then Inl (ValueError ''global vault-share detail mismatch'')
      else bindR (mapM (wallet_total_ok r ws) [AutomaticShare, ContractShare, ExcludedShare]) (\<lambda>_. Inr ()))"

definition totals_json :: "category_totals \<Rightarrow> json" where
  "totals_json t = JObj [(''rows'', JInt (ct_rows t)), (''wallet'', JStr (str_int (ct_wallet t))), (''wone'', JStr (str_int (ct_wone t))),
     (''staked'', JStr (str_int (ct_staked t))), (''total_claim'', JStr (str_int (ct_total_claim t)))]"

definition output_entry :: "files \<Rightarrow> string \<times> string \<Rightarrow> (string \<times> json) result" where
  "output_entry fs e = (case e of (label, path) \<Rightarrow> bindR (read_text fs path) (\<lambda>content.
     Inr (label, JObj [(''path'', JStr path), (''sha256'', JStr (text_sha256 content))])))"

definition vault_json :: "files \<Rightarrow> vault_args \<Rightarrow> vault_run \<Rightarrow> json result" where
  "vault_json fs args r =
     bindR (read_text fs (va_all_claims args)) (\<lambda>claims_text.
     bindR (read_text fs (va_delegations args)) (\<lambda>delegations_text.
     bindR (sum_field ''staked_to_vault_atto'' (ss_priority (vr_shares r))) (\<lambda>priority.
     bindR (sum_field ''staked_to_vault_atto'' (ss_deferred (vr_shares r))) (\<lambda>deferred.
     bindR (mapM (output_entry fs)
       [(''vault_deposits'', va_vault_deposits_output args), (''priority_shares'', va_priority_shares_output args),
        (''deferred_shares'', va_deferred_shares_output args), (''automatic_wallet_airdrop'', va_automatic_wallet_output args),
        (''contract_wallet_base'', va_contract_wallet_output args), (''excluded_wallet_routing'', va_excluded_wallet_output args)]) (\<lambda>entries.
       Inr (JObj
         [(''priority_label_semantics'',
             JStr ''legacy name for the inclusive snapshot-threshold base set; not the six-month initial migration stage''),
          (''minimum_atto'', JStr (str_int (va_minimum_one args))),
          (''all_claims_sha256'', JStr (text_sha256 claims_text)), (''delegations_sha256'', JStr (text_sha256 delegations_text)),
          (''vaults'', JInt (int (length (ss_by_validator (vr_shares r))))), (''delegation_rows'', JInt (int (length (ss_seen (vr_shares r))))),
          (''vault_assets_atto'', JStr (str_int (ss_total (vr_shares r)))),
          (''priority_staked_to_vault_atto'', JStr (str_int priority)), (''deferred_staked_to_vault_atto'', JStr (str_int deferred)),
          (''category_totals'', JObj (map (\<lambda>(cat, t). (category_label cat, totals_json t)) (vr_totals r))),
          (''outputs'', JObj entries), (''status'', JStr ''passed'')]))))))"

definition vault_allocate :: "files \<Rightarrow> vault_args \<Rightarrow> files \<times> vault_run result" where
  "vault_allocate fs args =
     (case vault_read fs args of
        Inl e \<Rightarrow> (fs, Inl e)
      | Inr r \<Rightarrow>
          (case write_tables fs (share_tables args (vr_shares r)) of
             (fs1, Inl e) \<Rightarrow> (fs1, Inl e)
           | (fs1, Inr _) \<Rightarrow>
               (case wallet_rows (vr_claims r) (vr_assigned r) of
                  Inl e \<Rightarrow> (fs1, Inl e)
                | Inr ws \<Rightarrow>
                    (case write_tables fs1 (wallet_tables args ws) of
                       (fs2, Inl e) \<Rightarrow> (fs2, Inl e)
                     | (fs2, Inr _) \<Rightarrow>
                         (case bindR (final_checks r ws) (\<lambda>_. vault_json fs2 args r) of
                            Inl e \<Rightarrow> (fs2, Inl e)
                          | Inr j \<Rightarrow>
                              if fs2 (partial (va_summary args)) \<noteq> None then (fs2, Inl (FileExistsError (partial (va_summary args))))
                              else (fs2(va_summary args \<mapsto> json_file 2 j), Inr r))))))"

section \<open>One delegation\<close>

abbreviation validator_of :: "csv_row \<Rightarrow> string" where
  "validator_of r \<equiv> lower (get_or_empty r ''validator_secure_key'')"

abbreviation delegator_of :: "csv_row \<Rightarrow> string" where
  "delegator_of r \<equiv> lower (get_or_empty r ''delegator_secure_key'')"

abbreviation amount_of :: "csv_row \<Rightarrow> int" where
  "amount_of \<equiv> field_value ''staked_to_vault_atto''"

abbreviation is_assigned :: "assignments \<Rightarrow> csv_row \<Rightarrow> bool" where
  "is_assigned assigned r \<equiv> dict_get assigned (delegator_of r) \<noteq> None"

definition detail :: "csv_row \<Rightarrow> csv_row" where
  "detail r = map (\<lambda>f. (f, the (dict_get r f))) DETAIL_FIELDS"

definition priority_share :: "assignments \<Rightarrow> csv_row \<Rightarrow> csv_row" where
  "priority_share assigned r =
     detail r @ priority_cells (the (dict_get assigned (delegator_of r))) (get_or_empty r ''delegator_address'')"

definition add_share :: "assignments \<Rightarrow> csv_row \<Rightarrow> vault \<Rightarrow> vault" where
  "add_share assigned r v = v\<lparr>vt_assets := vt_assets v + amount_of r, vt_rows := vt_rows v + 1,
     vt_priority := vt_priority v + (if is_assigned assigned r then amount_of r else 0),
     vt_deferred := vt_deferred v + (if is_assigned assigned r then 0 else amount_of r)\<rparr>"

definition share_vault :: "share_state \<Rightarrow> csv_row \<Rightarrow> vault" where
  "share_vault s r = (case dict_get (ss_by_validator s) (validator_of r) of
     Some v \<Rightarrow> v
   | None \<Rightarrow> \<lparr>vt_address = get_or_empty r ''validator_address'', vt_key = validator_of r, vt_assets = 0, vt_priority = 0, vt_deferred = 0,
       vt_rows = 0\<rparr>)"

lemma text_field_get: "text_field r n = Inr v \<Longrightarrow> v = get_or_empty r n"
  by (auto simp: text_field_def field_def get_or_empty_def bindR_Inr_iff of_option_Inr_iff)

lemma int_of_field_value: "int_of_field r n = Inr v \<Longrightarrow> v = field_value n r"
  by (simp add: field_value_def)

lemma mapM_field_Inr:
  "mapM (\<lambda>f. bindR (field r f) (\<lambda>v. Inr (f, v))) fs = Inr base \<Longrightarrow>
   base = map (\<lambda>f. (f, the (dict_get r f))) fs \<and> (\<forall>f \<in> set fs. dict_get r f \<noteq> None)"
proof (induction fs arbitrary: base)
  case (Cons f fs)
  then obtain v rest where "dict_get r f = Some v" "mapM (\<lambda>f. bindR (field r f) (\<lambda>v. Inr (f, v))) fs = Inr rest" "base = (f, v) # rest"
    by (auto simp: field_def bindR_Inr_iff of_option_Inr_iff simp del: mapM_Inr_iff)
  with Cons.IH [of rest] show ?case by simp
qed simp

lemma detail_row_Inr:
  assumes "detail_row r = Inr base"
  shows "base = detail r" "\<forall>f \<in> set DETAIL_FIELDS. dict_get r f \<noteq> None"
  using mapM_field_Inr [OF assms [unfolded detail_row_def]] by (simp_all add: detail_def)

lemma detail_int:
  "dict_get r ''staked_to_vault_atto'' \<noteq> None \<Longrightarrow> int_of_field (detail r @ x) ''staked_to_vault_atto'' = int_of_field r ''staked_to_vault_atto''"
  by (auto simp: int_of_field_def field_def detail_def DETAIL_FIELDS_def)

lemma delegation_step_Inr:
  assumes "delegation_step claims assigned s r = Inr s'"
  shows "(validator_of r, delegator_of r) \<notin> set (ss_seen s)" "0 < amount_of r" "dict_get claims (delegator_of r) \<noteq> None"
    "int_of_field r ''staked_to_vault_atto'' = Inr (amount_of r)" "dict_get r ''staked_to_vault_atto'' \<noteq> None"
    "s' = s\<lparr>ss_seen := ss_seen s @ [(validator_of r, delegator_of r)], ss_total := ss_total s + amount_of r,
       ss_by_delegator := dict_set (delegator_of r) (get_int (ss_by_delegator s) (delegator_of r) + amount_of r) (ss_by_delegator s),
       ss_by_validator := dict_set (validator_of r) (add_share assigned r (share_vault s r)) (ss_by_validator s),
       ss_priority := ss_priority s @ (if is_assigned assigned r then [priority_share assigned r] else []),
       ss_deferred := ss_deferred s @ (if is_assigned assigned r then [] else [detail r])\<rparr>"
proof -
  from assms obtain vk dk va da x y amount claim base where f: "text_field r ''validator_secure_key'' = Inr vk"
      "text_field r ''delegator_secure_key'' = Inr dk" "value_field r ''validator_address'' = Inr va"
      "value_field r ''delegator_address'' = Inr da" "require_address_secure_key va (lower vk) = Inr x"
      "require_address_secure_key da (lower dk) = Inr y"
      "(lower vk, lower dk) \<notin> set (ss_seen s)" "int_of_field r ''staked_to_vault_atto'' = Inr amount"
      "\<not> amount \<le> 0" "dict_get claims (lower dk) = Some claim" "detail_row r = Inr base"
    by (auto simp: delegation_step_def bindR_Inr_iff Let_def simp del: not_le split: if_splits option.splits)
  note g = text_field_get [OF f(1)] text_field_get [OF f(2)] value_field_get [OF f(3), symmetric] value_field_get [OF f(4), symmetric]
    int_of_field_value [OF f(8)]
  show "(validator_of r, delegator_of r) \<notin> set (ss_seen s)" "0 < amount_of r" "dict_get claims (delegator_of r) \<noteq> None"
    "int_of_field r ''staked_to_vault_atto'' = Inr (amount_of r)" using f g by auto
  show "dict_get r ''staked_to_vault_atto'' \<noteq> None" using detail_row_Inr(2) [OF f(11)] by (auto simp: DETAIL_FIELDS_def)
  have v: "(case dict_get (ss_by_validator s) (lower vk) of Some v \<Rightarrow> v
     | None \<Rightarrow> \<lparr>vt_address = va, vt_key = lower vk, vt_assets = 0, vt_priority = 0, vt_deferred = 0, vt_rows = 0\<rparr>) = share_vault s r"
    unfolding share_vault_def g by (rule refl)
  show "s' = s\<lparr>ss_seen := ss_seen s @ [(validator_of r, delegator_of r)], ss_total := ss_total s + amount_of r,
       ss_by_delegator := dict_set (delegator_of r) (get_int (ss_by_delegator s) (delegator_of r) + amount_of r) (ss_by_delegator s),
       ss_by_validator := dict_set (validator_of r) (add_share assigned r (share_vault s r)) (ss_by_validator s),
       ss_priority := ss_priority s @ (if is_assigned assigned r then [priority_share assigned r] else []),
       ss_deferred := ss_deferred s @ (if is_assigned assigned r then [] else [detail r])\<rparr>"
    using assms unfolding delegation_step_def
    by (simp add: f v Let_def add_share_def priority_share_def detail_row_Inr(1) [OF f(11), symmetric] g [symmetric]
        split: if_splits option.splits)
qed

section \<open>All delegations\<close>

abbreviation share_sum :: "(csv_row \<Rightarrow> bool) \<Rightarrow> csv_row list \<Rightarrow> int" where
  "share_sum P rows \<equiv> sum_list (map amount_of (filter P rows))"

definition vault_sums :: "assignments \<Rightarrow> csv_row list \<Rightarrow> string \<Rightarrow> vault \<Rightarrow> bool" where
  "vault_sums assigned rows k v \<longleftrightarrow> vt_key v = k \<and> vt_assets v = share_sum (\<lambda>r. validator_of r = k) rows \<and>
     vt_priority v = share_sum (\<lambda>r. validator_of r = k \<and> is_assigned assigned r) rows \<and>
     vt_deferred v = share_sum (\<lambda>r. validator_of r = k \<and> \<not> is_assigned assigned r) rows \<and>
     vt_rows v = int (length (filter (\<lambda>r. validator_of r = k) rows))"

definition shares_of :: "(string, vault_claim) dict \<Rightarrow> assignments \<Rightarrow> csv_row list \<Rightarrow> share_state \<Rightarrow> bool" where
  "shares_of claims assigned rows s \<longleftrightarrow>
     ss_seen s = map (\<lambda>r. (validator_of r, delegator_of r)) rows \<and> distinct (ss_seen s) \<and>
     ss_total s = sum_list (map amount_of rows) \<and>
     (\<forall>k. get_int (ss_by_delegator s) k = share_sum (\<lambda>r. delegator_of r = k) rows) \<and>
     (\<forall>r \<in> set rows. dict_get claims (delegator_of r) \<noteq> None \<and> 0 < amount_of r \<and> dict_get r ''staked_to_vault_atto'' \<noteq> None \<and>
        int_of_field r ''staked_to_vault_atto'' = Inr (amount_of r)) \<and>
     distinct (dict_keys (ss_by_validator s)) \<and> fst ` set (ss_by_validator s) = validator_of ` set rows \<and>
     (\<forall>k v. dict_get (ss_by_validator s) k = Some v \<longrightarrow> vault_sums assigned rows k v) \<and>
     ss_priority s = map (priority_share assigned) (filter (is_assigned assigned) rows) \<and>
     ss_deferred s = map detail (filter (\<lambda>r. \<not> is_assigned assigned r) rows)"

lemma vault_sums_new: "k \<notin> validator_of ` set rows \<Longrightarrow> vault_sums assigned rows k
    \<lparr>vt_address = a, vt_key = k, vt_assets = 0, vt_priority = 0, vt_deferred = 0, vt_rows = 0\<rparr>"
proof -
  assume "k \<notin> validator_of ` set rows"
  then have "filter (\<lambda>r. validator_of r = k) rows = []" "\<And>P. filter (\<lambda>r. validator_of r = k \<and> P r) rows = []"
    by (auto simp: filter_empty_conv)
  then show ?thesis by (simp add: vault_sums_def)
qed

lemma vault_sums_add: "vault_sums assigned rows (validator_of r) v \<Longrightarrow> vault_sums assigned (rows @ [r]) (validator_of r) (add_share assigned r v)"
  by (simp add: vault_sums_def add_share_def)

lemma vault_sums_other: "vault_sums assigned rows k v \<Longrightarrow> k \<noteq> validator_of r \<Longrightarrow> vault_sums assigned (rows @ [r]) k v"
  by (auto simp: vault_sums_def)

lemma shares_of_step:
  assumes inv: "shares_of claims assigned rows s" and step: "delegation_step claims assigned s r = Inr s'"
  shows "shares_of claims assigned (rows @ [r]) s'"
proof -
  note d = delegation_step_Inr [OF step]
  have dom: "dom (map_of (ss_by_validator s)) = validator_of ` set rows" using inv by (simp add: shares_of_def dom_map_of_conv_image_fst)
  have old: "vault_sums assigned rows (validator_of r) (share_vault s r)"
  proof (cases "dict_get (ss_by_validator s) (validator_of r)")
    case None
    then have "validator_of r \<notin> validator_of ` set rows" using dom by (metis domIff)
    then show ?thesis using None by (simp add: share_vault_def vault_sums_new)
  next
    case (Some v)
    then show ?thesis using inv by (simp add: shares_of_def share_vault_def)
  qed
  have vaults: "\<forall>k v. dict_get (ss_by_validator s') k = Some v \<longrightarrow> vault_sums assigned (rows @ [r]) k v"
  proof (intro allI impI)
    fix k v assume v: "dict_get (ss_by_validator s') k = Some v"
    show "vault_sums assigned (rows @ [r]) k v"
    proof (cases "k = validator_of r")
      case True
      then show ?thesis using v vault_sums_add [OF old] by (simp add: d(6))
    next
      case False
      then have "dict_get (ss_by_validator s) k = Some v" using v by (simp add: d(6))
      then show ?thesis using inv False by (simp add: shares_of_def vault_sums_other)
    qed
  qed
  have ints: "\<forall>k. get_int (ss_by_delegator s') k = share_sum (\<lambda>r. delegator_of r = k) (rows @ [r])"
    using inv by (auto simp: shares_of_def d(6) get_int_def)
  show ?thesis
    using inv vaults ints d(1-5) unfolding shares_of_def
    by (simp add: d(6) distinct_dict_set) auto
qed

lemma load_delegations_Inr:
  assumes "load_delegations fs path claims assigned = Inr s"
  obtains content where "fs path = Some content" "shares_of claims assigned (dict_reader content) s"
proof -
  from assms obtain content where content: "fs path = Some content"
      "foldM (delegation_step claims assigned) no_shares (dict_reader content) = Inr s"
    by (auto simp: load_delegations_def read_text_def bindR_Inr_iff of_option_Inr_iff split: if_splits)
  have "shares_of claims assigned (dict_reader content) s"
  proof (rule foldM_invariant [OF content(2)])
    show "shares_of claims assigned [] no_shares" by (simp add: shares_of_def no_shares_def get_int_def)
  qed (rule shares_of_step)
  with content(1) show thesis by (rule that)
qed

section \<open>Claims and categories\<close>

definition claim_ok :: "vault_claim \<Rightarrow> bool" where
  "claim_ok c \<longleftrightarrow> 0 \<le> vc_wallet c \<and> 0 \<le> vc_staked c \<and> vc_total_claim c = vc_wallet c + vc_staked c \<and>
     0 \<le> vc_wone c \<and> vc_wone c \<le> vc_wallet c"

definition claims_ok :: "(string, vault_claim) dict \<Rightarrow> bool" where
  "claims_ok claims \<longleftrightarrow> distinct (dict_keys claims) \<and> (\<forall>e \<in> set claims. claim_ok (snd e))"

lemma require_allocation_fields_Inr:
  "require_allocation_fields r = Inr (t, w, s) \<Longrightarrow> 0 \<le> t \<and> 0 \<le> w \<and> 0 \<le> s \<and> t = w + s"
  by (auto simp: require_allocation_fields_def bindR_Inr_iff min_def split: if_splits)

lemma claim_step_ok:
  assumes "claim_step s r = Inr s'" "claims_ok (snd s)"
  shows "claims_ok (snd s')"
proof -
  obtain previous claims where s: "s = (previous, claims)" by (cases s)
  from assms(1) obtain k c where "snd s' = dict_set k c claims" "claim_ok c"
    by (auto simp: s claim_step_def Let_def bindR_Inr_iff claim_ok_def dest!: require_allocation_fields_Inr split: if_splits)
  then show ?thesis using assms(2) dict_set_mem by (fastforce simp: s claims_ok_def distinct_dict_set)
qed

lemma load_all_claims_ok: "load_all_claims fs path = Inr claims \<Longrightarrow> claims_ok claims"
proof -
  assume "load_all_claims fs path = Inr claims"
  then obtain content s where run: "foldM claim_step (None, []) (dict_reader content) = Inr s" and claims: "claims = snd s"
    by (auto simp: load_all_claims_def bindR_Inr_iff split: if_splits)
  have "claims_ok (snd s)" by (rule foldM_keeps [OF run]) (rule claim_step_ok, assumption+, simp add: claims_ok_def)
  then show ?thesis by (simp only: claims)
qed

definition assigned_ok :: "(string, vault_claim) dict \<Rightarrow> assignments \<Rightarrow> bool" where
  "assigned_ok claims a \<longleftrightarrow> distinct (dict_keys a) \<and> (\<forall>e \<in> set a. dict_get claims (fst e) \<noteq> None)"

abbreviation claim_at :: "(string, vault_claim) dict \<Rightarrow> string \<Rightarrow> vault_claim" where
  "claim_at claims k \<equiv> the (dict_get claims k)"

lemma category_step_Inr:
  assumes "category_step cat claims (a, t) r = Inr (a', t')" "assigned_ok claims a"
  shows "\<exists>k. a' = a @ [(k, cat)] \<and> assigned_ok claims a' \<and> ct_rows t' = ct_rows t + 1 \<and>
    ct_wallet t' = ct_wallet t + vc_wallet (claim_at claims k) \<and> ct_staked t' = ct_staked t + vc_staked (claim_at claims k) \<and>
    ct_total_claim t' = ct_total_claim t + vc_total_claim (claim_at claims k)"
proof -
  from assms(1) obtain k c where k: "dict_get claims k = Some c" "dict_get a k = None" "a' = dict_set k cat a"
    "ct_rows t' = ct_rows t + 1" "ct_wallet t' = ct_wallet t + vc_wallet c"
    "ct_staked t' = ct_staked t + vc_staked c" "ct_total_claim t' = ct_total_claim t + vc_total_claim c"
    by (auto simp: category_step_def Let_def bindR_Inr_iff split: if_splits option.splits)
  then have "k \<notin> fst ` set a" by (simp add: map_of_eq_None_iff)
  then show ?thesis using k assms(2) by (auto simp: dict_set_new assigned_ok_def intro!: exI [of _ k])
qed

lemma load_category_Inr:
  assumes "load_category fs path cat claims a = Inr (a', t)" "assigned_ok claims a"
  shows "\<exists>ks. a' = a @ map (\<lambda>k. (k, cat)) ks \<and> assigned_ok claims a' \<and> ct_rows t = int (length ks) \<and>
    ct_wallet t = sum_list (map (\<lambda>k. vc_wallet (claim_at claims k)) ks) \<and>
    ct_staked t = sum_list (map (\<lambda>k. vc_staked (claim_at claims k)) ks) \<and>
    ct_total_claim t = sum_list (map (\<lambda>k. vc_total_claim (claim_at claims k)) ks)" (is "?P (a', t)")
proof -
  let ?Q = "\<lambda>s. \<exists>ks. fst s = a @ map (\<lambda>k. (k, cat)) ks \<and> assigned_ok claims (fst s) \<and> ct_rows (snd s) = int (length ks) \<and>
    ct_wallet (snd s) = sum_list (map (\<lambda>k. vc_wallet (claim_at claims k)) ks) \<and>
    ct_staked (snd s) = sum_list (map (\<lambda>k. vc_staked (claim_at claims k)) ks) \<and>
    ct_total_claim (snd s) = sum_list (map (\<lambda>k. vc_total_claim (claim_at claims k)) ks)"
  from assms(1) obtain content where
    run: "foldM (category_step cat claims) (a, \<lparr>ct_rows = 0, ct_wallet = 0, ct_wone = 0, ct_staked = 0, ct_total_claim = 0\<rparr>)
       (dict_reader content) = Inr (a', t)"
    by (auto simp: load_category_def bindR_Inr_iff)
  have "?Q (a', t)"
  proof (rule foldM_keeps [OF run])
    fix s r s' assume step: "category_step cat claims s r = Inr s'" and "?Q s"
    then obtain ks where ks: "fst s = a @ map (\<lambda>k. (k, cat)) ks" "assigned_ok claims (fst s)" "ct_rows (snd s) = int (length ks)"
      "ct_wallet (snd s) = sum_list (map (\<lambda>k. vc_wallet (claim_at claims k)) ks)"
      "ct_staked (snd s) = sum_list (map (\<lambda>k. vc_staked (claim_at claims k)) ks)"
      "ct_total_claim (snd s) = sum_list (map (\<lambda>k. vc_total_claim (claim_at claims k)) ks)" by blast
    from category_step_Inr [of cat claims "fst s" "snd s" r "fst s'" "snd s'"] step ks(2)
    obtain k where "fst s' = fst s @ [(k, cat)]" "assigned_ok claims (fst s')" "ct_rows (snd s') = ct_rows (snd s) + 1"
      "ct_wallet (snd s') = ct_wallet (snd s) + vc_wallet (claim_at claims k)"
      "ct_staked (snd s') = ct_staked (snd s) + vc_staked (claim_at claims k)"
      "ct_total_claim (snd s') = ct_total_claim (snd s) + vc_total_claim (claim_at claims k)" by auto
    with ks show "?Q s'" by (intro exI [of _ "ks @ [k]"]) simp
  qed (use assms(2) in \<open>auto intro: exI [of _ "[]"]\<close>)
  then show ?thesis by simp
qed

definition category_sum :: "(vault_claim \<Rightarrow> int) \<Rightarrow> (string, vault_claim) dict \<Rightarrow> assignments \<Rightarrow> share_category \<Rightarrow> int" where
  "category_sum f claims a cat = sum_list (map (\<lambda>e. f (claim_at claims (fst e))) (filter (\<lambda>e. snd e = cat) a))"

lemma category_sum_append: "category_sum f claims (a @ b) cat = category_sum f claims a cat + category_sum f claims b cat"
  by (simp add: category_sum_def)

lemma category_sum_keys:
  "category_sum f claims (map (\<lambda>k. (k, c)) ks) cat = (if c = cat then sum_list (map (\<lambda>k. f (claim_at claims k)) ks) else 0)"
  by (simp add: category_sum_def filter_map o_def)

lemma load_categories_Inr:
  assumes "load_categories fs args claims = Inr (assigned, totals)"
  shows "assigned_ok claims assigned" "\<exists>t. dict_get totals cat = Some t \<and>
    ct_wallet t = category_sum vc_wallet claims assigned cat \<and> ct_staked t = category_sum vc_staked claims assigned cat \<and>
    ct_total_claim t = category_sum vc_total_claim claims assigned cat"
proof -
  from assms obtain a1 t1 a2 t2 t3 where run: "load_category fs (va_automatic_claims args) AutomaticShare claims [] = Inr (a1, t1)"
      "load_category fs (va_contract_review_claims args) ContractShare claims a1 = Inr (a2, t2)"
      "load_category fs (va_excluded_claims args) ExcludedShare claims a2 = Inr (assigned, t3)"
      "totals = [(AutomaticShare, t1), (ContractShare, t2), (ExcludedShare, t3)]"
    by (auto simp: load_categories_def category_paths_def bindR_Inr_iff)
  have "assigned_ok claims []" by (simp add: assigned_ok_def)
  from load_category_Inr [OF run(1) this] obtain k1 where k1: "a1 = map (\<lambda>k. (k, AutomaticShare)) k1" "assigned_ok claims a1"
      "ct_wallet t1 = sum_list (map (\<lambda>k. vc_wallet (claim_at claims k)) k1)"
      "ct_staked t1 = sum_list (map (\<lambda>k. vc_staked (claim_at claims k)) k1)"
      "ct_total_claim t1 = sum_list (map (\<lambda>k. vc_total_claim (claim_at claims k)) k1)" by auto
  from load_category_Inr [OF run(2) k1(2)] obtain k2 where k2: "a2 = a1 @ map (\<lambda>k. (k, ContractShare)) k2" "assigned_ok claims a2"
      "ct_wallet t2 = sum_list (map (\<lambda>k. vc_wallet (claim_at claims k)) k2)"
      "ct_staked t2 = sum_list (map (\<lambda>k. vc_staked (claim_at claims k)) k2)"
      "ct_total_claim t2 = sum_list (map (\<lambda>k. vc_total_claim (claim_at claims k)) k2)" by auto
  from load_category_Inr [OF run(3) k2(2)] obtain k3 where k3: "assigned = a2 @ map (\<lambda>k. (k, ExcludedShare)) k3" "assigned_ok claims assigned"
      "ct_wallet t3 = sum_list (map (\<lambda>k. vc_wallet (claim_at claims k)) k3)"
      "ct_staked t3 = sum_list (map (\<lambda>k. vc_staked (claim_at claims k)) k3)"
      "ct_total_claim t3 = sum_list (map (\<lambda>k. vc_total_claim (claim_at claims k)) k3)" by auto
  show "assigned_ok claims assigned" by (rule k3(2))
  show "\<exists>t. dict_get totals cat = Some t \<and>
    ct_wallet t = category_sum vc_wallet claims assigned cat \<and> ct_staked t = category_sum vc_staked claims assigned cat \<and>
    ct_total_claim t = category_sum vc_total_claim claims assigned cat"
    by (cases cat) (simp_all add: run(4) k1 k2 k3 category_sum_append category_sum_keys)
qed

section \<open>The wallet tables\<close>

lemma wallet_rows_Inr:
  assumes "assigned_ok claims a"
  shows "wallet_rows claims a = Inr (map (\<lambda>(k, cat). (cat, wallet_row k (claim_at claims k) cat))
    (filter (\<lambda>(k, cat). vc_wallet (claim_at claims k) \<noteq> 0) (sort_key fst a)))"
proof -
  have "mapM (\<lambda>(key, cat). bindR (of_option (KeyError key) (dict_get claims key)) (\<lambda>c. Inr (cat, key, c))) (sort_key fst a) =
      Inr (map (\<lambda>(k, cat). (cat, k, claim_at claims k)) (sort_key fst a))"
    using assms by (intro mapM_map) (auto simp: assigned_ok_def split: prod.splits)
  then show ?thesis by (simp add: wallet_rows_def filter_map o_def case_prod_unfold del: mapM_Inr_iff)
qed

lemma wallet_row_int: "int_of_field (wallet_row k c cat) ''wallet_airdrop_atto'' = Inr (vc_wallet c)"
  by (simp add: int_of_field_def field_def wallet_row_def WALLET_FIELDS_def)

lemma sum_list_filter_zero: "sum_list (map f (filter (\<lambda>x. f x \<noteq> (0 :: int) \<and> P x) xs)) = sum_list (map f (filter P xs))"
  by (induction xs) simp_all

lemma wallet_total:
  assumes "assigned_ok claims a" "wallet_rows claims a = Inr ws"
  shows "sum_field ''wallet_airdrop_atto'' (rows_of cat ws) = Inr (category_sum vc_wallet claims a cat)"
proof -
  let ?w = "\<lambda>e. vc_wallet (claim_at claims (fst e))"
  let ?es = "filter (\<lambda>e. ?w e \<noteq> 0 \<and> snd e = cat) (sort_key fst a)"
  have rows: "rows_of cat ws = map (\<lambda>e. wallet_row (fst e) (claim_at claims (fst e)) (snd e)) ?es"
    using assms(2) by (auto simp: wallet_rows_Inr [OF assms(1)] rows_of_def filter_map o_def case_prod_unfold conj_commute)
  have "mapM (\<lambda>r. int_of_field r ''wallet_airdrop_atto'') (rows_of cat ws) = Inr (map ?w ?es)"
    unfolding rows by (simp add: mapM_Inr_iff list_all2_map1 list_all2_map2 list_all2_same wallet_row_int)
  moreover have "sum_list (map ?w ?es) = sum_list (map ?w (filter (\<lambda>e. snd e = cat) (sort_key fst a)))"
    by (rule sum_list_filter_zero)
  moreover have "\<dots> = category_sum vc_wallet claims a cat"
    unfolding category_sum_def by (rule sum_list_map_mset) simp
  ultimately show ?thesis by (simp add: sum_field_def del: mapM_Inr_iff)
qed

section \<open>The last checks pass\<close>

lemma share_rows_sum:
  assumes "shares_of claims assigned rows s"
  shows "sum_field ''staked_to_vault_atto'' (ss_priority s) = Inr (share_sum (is_assigned assigned) rows)"
    "sum_field ''staked_to_vault_atto'' (ss_deferred s) = Inr (share_sum (\<lambda>r. \<not> is_assigned assigned r) rows)"
proof -
  have int: "int_of_field (detail r @ x) ''staked_to_vault_atto'' = Inr (amount_of r)" if "r \<in> set rows" for r x
    using that assms detail_int [of r x] by (simp add: shares_of_def)
  have "mapM (\<lambda>r. int_of_field r ''staked_to_vault_atto'') (ss_priority s) = Inr (map amount_of (filter (is_assigned assigned) rows))"
    using assms int by (auto simp: shares_of_def mapM_Inr_iff list_all2_map1 list_all2_map2 list_all2_same priority_share_def)
  then show "sum_field ''staked_to_vault_atto'' (ss_priority s) = Inr (share_sum (is_assigned assigned) rows)"
    by (simp add: sum_field_def del: mapM_Inr_iff)
  have "mapM (\<lambda>r. int_of_field r ''staked_to_vault_atto'') (ss_deferred s) = Inr (map amount_of (filter (\<lambda>r. \<not> is_assigned assigned r) rows))"
    using assms int [of _ "[]"] by (auto simp: shares_of_def mapM_Inr_iff list_all2_map1 list_all2_map2 list_all2_same)
  then show "sum_field ''staked_to_vault_atto'' (ss_deferred s) = Inr (share_sum (\<lambda>r. \<not> is_assigned assigned r) rows)"
    by (simp add: sum_field_def del: mapM_Inr_iff)
qed

text \<open>What \<^verbatim>\<open>main\<close> has read and checked when it starts to write.\<close>

definition vault_ready :: "vault_args \<Rightarrow> csv_row list \<Rightarrow> vault_run \<Rightarrow> bool" where
  "vault_ready args rows r \<longleftrightarrow> claims_ok (vr_claims r) \<and> assigned_ok (vr_claims r) (vr_assigned r) \<and>
     (\<forall>cat. \<exists>t. dict_get (vr_totals r) cat = Some t \<and>
        ct_wallet t = category_sum vc_wallet (vr_claims r) (vr_assigned r) cat \<and>
        ct_staked t = category_sum vc_staked (vr_claims r) (vr_assigned r) cat \<and>
        ct_total_claim t = category_sum vc_total_claim (vr_claims r) (vr_assigned r) cat) \<and>
     fst ` set (vr_assigned r) = fst ` {e \<in> set (vr_claims r). vc_qualification_total (snd e) \<ge> va_minimum_one args} \<and>
     shares_of (vr_claims r) (vr_assigned r) rows (vr_shares r) \<and>
     (\<forall>e \<in> set (vr_claims r). vc_staked (snd e) = share_sum (\<lambda>d. delegator_of d = fst e) rows)"

lemma vault_read_Inr:
  assumes "vault_read fs args = Inr r"
  obtains claims_text content where "fs (va_all_claims args) = Some claims_text" "fs (va_delegations args) = Some content"
    "vault_ready args (dict_reader content) r" "\<forall>p \<in> set (vault_outputs args). \<not> taken fs p"
proof -
  from assms obtain claims assigned totals s where run: "filter (taken fs) (vault_outputs args) = []"
      "load_all_claims fs (va_all_claims args) = Inr claims" "load_categories fs args claims = Inr (assigned, totals)"
      "fst ` set assigned = fst ` {e \<in> set claims. vc_qualification_total (snd e) \<ge> va_minimum_one args}"
      "load_delegations fs (va_delegations args) claims assigned = Inr s"
      "\<forall>e \<in> set claims. get_int (ss_by_delegator s) (fst e) = vc_staked (snd e)"
      and r: "r = \<lparr>vr_claims = claims, vr_assigned = assigned, vr_totals = totals, vr_shares = s\<rparr>"
    by (auto simp: vault_read_def bindR_Inr_iff split: list.splits if_splits)
  obtain claims_text where input: "fs (va_all_claims args) = Some claims_text"
    using run(2) by (auto simp: load_all_claims_def read_text_def bindR_Inr_iff of_option_Inr_iff)
  from run(5) obtain content where content: "fs (va_delegations args) = Some content" and shares: "shares_of claims assigned (dict_reader content) s"
    by (rule load_delegations_Inr)
  have "\<forall>e \<in> set claims. vc_staked (snd e) = share_sum (\<lambda>d. delegator_of d = fst e) (dict_reader content)"
    using run(6) shares by (simp add: shares_of_def)
  then have "vault_ready args (dict_reader content) r"
    using load_all_claims_ok [OF run(2)] load_categories_Inr [OF run(3)] run(4) shares unfolding vault_ready_def r by simp
  with input content show thesis by (rule that) (use run(1) in \<open>simp add: filter_empty_conv\<close>)
qed

lemma covered_total:
  assumes "vault_ready args rows r"
  shows "sum_list (map vc_staked (dict_values (vr_claims r))) = sum_list (map amount_of rows)"
proof -
  have known: "\<forall>d \<in> set rows. dict_get (vr_claims r) (delegator_of d) \<noteq> None"
    using assms by (simp add: vault_ready_def shares_of_def)
  have ok: "distinct (dict_keys (vr_claims r))" "\<forall>d \<in> set rows. delegator_of d \<in> set (dict_keys (vr_claims r))"
    "\<forall>e \<in> set (vr_claims r). vc_staked (snd e) = share_sum (\<lambda>d. delegator_of d = fst e) rows"
    using assms known by (simp_all add: vault_ready_def claims_ok_def map_of_eq_None_iff)
  have "map vc_staked (dict_values (vr_claims r)) = map (\<lambda>k. share_sum (\<lambda>d. delegator_of d = k) rows) (dict_keys (vr_claims r))"
    using ok(3) by simp
  then show ?thesis by (simp only: sum_list_groups [OF ok(1, 2)])
qed

lemma final_checks_pass:
  assumes ready: "vault_ready args rows r" and ws: "wallet_rows (vr_claims r) (vr_assigned r) = Inr ws"
  shows "final_checks r ws = Inr ()"
proof -
  have "wallet_total_ok r ws cat = Inr ()" for cat
  proof -
    obtain t where "dict_get (vr_totals r) cat = Some t" "ct_wallet t = category_sum vc_wallet (vr_claims r) (vr_assigned r) cat"
      using ready unfolding vault_ready_def by blast
    moreover have "assigned_ok (vr_claims r) (vr_assigned r)" using ready by (simp add: vault_ready_def)
    ultimately show ?thesis by (simp add: wallet_total_ok_def wallet_total [OF _ ws])
  qed
  moreover have "ss_total (vr_shares r) = sum_list (map amount_of rows)" using ready by (simp add: vault_ready_def shares_of_def)
  ultimately show ?thesis unfolding final_checks_def covered_total [OF ready] by (simp del: mapM_Inr_iff)
qed

section \<open>Independent outputs\<close>

text \<open>The outputs are independent when no path is given twice and none is the partial name of another.\<close>

definition independent :: "string list \<Rightarrow> bool" where
  "independent ps \<longleftrightarrow> distinct ps \<and> (\<forall>p \<in> set ps. partial p \<notin> set ps)"

lemma write_tables_Inr:
  assumes "independent (map fst ts @ ps)" "\<forall>p \<in> set (map fst ts @ ps). \<not> taken fs p"
  shows "\<exists>fs'. write_tables fs ts = (fs', Inr ()) \<and> (\<forall>p \<in> set ps. \<not> taken fs' p) \<and>
    (\<forall>p. p \<notin> fst ` set ts \<longrightarrow> fs' p = fs p) \<and> (\<forall>(p, columns, rows) \<in> set ts. fs' p = Some (csv_text (columns # rows)))"
  using assms
proof (induction ts arbitrary: fs)
  case (Cons t ts)
  obtain p columns rows where t: "t = (p, columns, rows)" by (cases t)
  let ?fs = "fs(p \<mapsto> csv_text (columns # rows))"
  have "independent (map fst ts @ ps)" using Cons.prems(1) by (auto simp: independent_def)
  moreover have "\<forall>q \<in> set (map fst ts @ ps). \<not> taken ?fs q"
    using Cons.prems by (auto simp: t independent_def taken_def)
  ultimately obtain fs' where fs': "write_tables ?fs ts = (fs', Inr ())" "\<forall>p \<in> set ps. \<not> taken fs' p"
    "\<forall>p. p \<notin> fst ` set ts \<longrightarrow> fs' p = ?fs p" "\<forall>(p, columns, rows) \<in> set ts. fs' p = Some (csv_text (columns # rows))"
    using Cons.IH by blast
  have "p \<notin> fst ` set ts" using Cons.prems(1) by (auto simp: t independent_def)
  then have "fs' p = Some (csv_text (columns # rows))" using fs'(3) by simp
  with fs' Cons.prems(2) show ?case by (auto simp: t write_csv_def)
qed auto

lemma vault_json_Inr:
  assumes "vault_ready args rows r" "fs (va_all_claims args) \<noteq> None" "fs (va_delegations args) \<noteq> None"
    "\<forall>p \<in> set (butlast (vault_outputs args)). fs p \<noteq> None"
  shows "\<exists>j. vault_json fs args r = Inr j"
proof -
  have shares: "shares_of (vr_claims r) (vr_assigned r) rows (vr_shares r)" using assms(1) by (simp add: vault_ready_def)
  have entry: "fs p \<noteq> None \<Longrightarrow> \<exists>e. output_entry fs (l, p) = Inr e" for l p by (auto simp: output_entry_def read_text_def)
  have "\<exists>es. mapM (output_entry fs)
       [(''vault_deposits'', va_vault_deposits_output args), (''priority_shares'', va_priority_shares_output args),
        (''deferred_shares'', va_deferred_shares_output args), (''automatic_wallet_airdrop'', va_automatic_wallet_output args),
        (''contract_wallet_base'', va_contract_wallet_output args), (''excluded_wallet_routing'', va_excluded_wallet_output args)] = Inr es"
    using assms(4) entry by (simp add: vault_outputs_def bindR_Inr_iff del: mapM_Inr_iff) metis
  then show ?thesis using assms(2, 3) share_rows_sum [OF shares] by (auto simp: vault_json_def read_text_def)
qed

lemma outputs_split:
  "vault_outputs args = map fst (share_tables args s) @ map fst (wallet_tables args ws) @ [va_summary args]"
  by (simp add: vault_outputs_def share_tables_def wallet_tables_def)

lemma vault_allocate_succeeds:
  assumes ind: "independent (vault_outputs args)" and read: "vault_read fs args = Inr r"
  shows "\<exists>ws j. wallet_rows (vr_claims r) (vr_assigned r) = Inr ws \<and>
    (\<exists>fs'. vault_allocate fs args = (fs', Inr r) \<and> (\<forall>p. p \<notin> set (vault_outputs args) \<longrightarrow> fs' p = fs p) \<and>
       (\<forall>(p, columns, cells) \<in> set (share_tables args (vr_shares r) @ wallet_tables args ws). fs' p = Some (csv_text (columns # cells))) \<and>
       fs' (va_summary args) = Some (json_file 2 j))"
proof -
  from read obtain claims_text content where input: "fs (va_all_claims args) = Some claims_text" "fs (va_delegations args) = Some content"
    and ready: "vault_ready args (dict_reader content) r" and free: "\<forall>p \<in> set (vault_outputs args). \<not> taken fs p"
    by (rule vault_read_Inr)
  have "assigned_ok (vr_claims r) (vr_assigned r)" using ready by (simp add: vault_ready_def)
  then obtain ws where ws: "wallet_rows (vr_claims r) (vr_assigned r) = Inr ws" using wallet_rows_Inr by blast
  let ?st = "share_tables args (vr_shares r)" and ?wt = "wallet_tables args ws"
  note split = outputs_split [of args "vr_shares r" ws]
  from write_tables_Inr [of ?st "map fst ?wt @ [va_summary args]" fs] ind free
  obtain fs1 where fs1: "write_tables fs ?st = (fs1, Inr ())" "\<forall>p \<in> set (map fst ?wt @ [va_summary args]). \<not> taken fs1 p"
    "\<forall>p. p \<notin> fst ` set ?st \<longrightarrow> fs1 p = fs p" "\<forall>(p, columns, cells) \<in> set ?st. fs1 p = Some (csv_text (columns # cells))"
    unfolding split by auto
  have "independent (map fst ?wt @ [va_summary args])" using ind unfolding split by (auto simp: independent_def)
  from write_tables_Inr [OF this fs1(2)]
  obtain fs2 where fs2: "write_tables fs1 ?wt = (fs2, Inr ())" "\<not> taken fs2 (va_summary args)"
    "\<forall>p. p \<notin> fst ` set ?wt \<longrightarrow> fs2 p = fs1 p" "\<forall>(p, columns, cells) \<in> set ?wt. fs2 p = Some (csv_text (columns # cells))"
    by auto
  have tables: "\<forall>(p, columns, cells) \<in> set (?st @ ?wt). fs2 p = Some (csv_text (columns # cells))"
  proof -
    have "fst t \<notin> fst ` set ?wt" if "t \<in> set ?st" for t using ind that unfolding split independent_def by auto
    then show ?thesis using fs1(4) fs2(3, 4) by fastforce
  qed
  have keep: "fs2 p = fs p" if "p \<notin> set (vault_outputs args)" for p using fs1(3) fs2(3) that unfolding split by auto
  have inputs: "va_all_claims args \<notin> set (vault_outputs args)" "va_delegations args \<notin> set (vault_outputs args)"
    using free input by (auto simp: taken_def)
  have "\<forall>p \<in> set (butlast (vault_outputs args)). fs2 p \<noteq> None" using tables unfolding split by (fastforce simp: butlast_append)
  with vault_json_Inr [OF ready, of fs2] keep inputs input obtain j where j: "vault_json fs2 args r = Inr j" by auto
  let ?fs = "fs2(va_summary args \<mapsto> json_file 2 j)"
  have run: "vault_allocate fs args = (?fs, Inr r)"
    using fs2(2) by (simp add: vault_allocate_def read fs1(1) ws fs2(1) final_checks_pass [OF ready ws] j taken_def)
  have "va_summary args \<notin> fst ` set (?st @ ?wt)" using ind unfolding split independent_def by auto
  then have "fst t \<noteq> va_summary args" if "t \<in> set (?st @ ?wt)" for t using imageI [OF that, of fst] by metis
  then have "\<forall>(p, columns, cells) \<in> set (?st @ ?wt). ?fs p = Some (csv_text (columns # cells))"
    using tables by (auto simp: case_prod_unfold)
  moreover have "\<forall>p. p \<notin> set (vault_outputs args) \<longrightarrow> ?fs p = fs p" using keep by (auto simp: vault_outputs_def)
  ultimately show ?thesis using run ws by (intro exI conjI) (assumption | simp)+
qed

section \<open>A run\<close>

definition CLAIM_FIELDS :: "string list" where
  "CLAIM_FIELDS = [''secure_key'', ''address'', ''total_claim_atto'', ''wallet_airdrop_atto'', ''staked_to_vault_atto'']"

definition stake_claim_cells :: "string list" where
  "stake_claim_cells = [ZERO_KEY, ZERO_ADDRESS, ''8'', ''3'', ''5'']"

definition stake_cells :: "string list" where
  "stake_cells = [ZERO_ADDRESS, ZERO_KEY, ZERO_ADDRESS, ZERO_KEY, ''5'', ''true'']"

definition stake_files :: files where
  "stake_files = [''c'' \<mapsto> csv_text [CLAIM_FIELDS, stake_claim_cells], ''n'' \<mapsto> csv_text [CLAIM_FIELDS],
     ''d'' \<mapsto> csv_text [DETAIL_FIELDS, stake_cells]]"

definition stake_args :: vault_args where
  "stake_args = \<lparr>va_all_claims = ''c'', va_delegations = ''d'', va_automatic_claims = ''c'', va_contract_review_claims = ''n'',
     va_excluded_claims = ''n'', va_vault_deposits_output = ''o1'', va_priority_shares_output = ''o2'', va_deferred_shares_output = ''o3'',
     va_automatic_wallet_output = ''o4'', va_contract_wallet_output = ''o5'', va_excluded_wallet_output = ''o6'', va_summary = ''o7'',
     va_minimum_one = 1\<rparr>"

definition stake_claim :: vault_claim where
  "stake_claim = \<lparr>vc_address = ZERO_ADDRESS, vc_total_claim = 8, vc_wallet = 3, vc_wone = 0, vc_qualification_total = 8, vc_staked = 5\<rparr>"

abbreviation claim_record :: csv_row where
  "claim_record \<equiv> dict_of_record CLAIM_FIELDS stake_claim_cells"

abbreviation stake_record :: csv_row where
  "stake_record \<equiv> dict_of_record DETAIL_FIELDS stake_cells"

lemma stake_texts:
  "dict_reader (csv_text [CLAIM_FIELDS, stake_claim_cells]) = [claim_record]" "fieldnames (csv_text [CLAIM_FIELDS, stake_claim_cells]) = CLAIM_FIELDS"
  "dict_reader (csv_text [CLAIM_FIELDS]) = []"
  "dict_reader (csv_text [DETAIL_FIELDS, stake_cells]) = [stake_record]" "fieldnames (csv_text [DETAIL_FIELDS, stake_cells]) = DETAIL_FIELDS"
  by code_simp+

lemma stake_claim_step: "claim_step (None, []) claim_record = Inr (Some ZERO_KEY, [(ZERO_KEY, stake_claim)])"
  by code_simp

lemma claim_record_fields: "text_field claim_record ''secure_key'' = Inr ZERO_KEY" "value_field claim_record ''address'' = Inr ZERO_ADDRESS"
  "require_allocation_fields claim_record = Inr (8, 3, 5)" "wone_airdrop claim_record = Inr 0"
  by code_simp+

lemma stake_record_fields: "text_field stake_record ''validator_secure_key'' = Inr ZERO_KEY" "text_field stake_record ''delegator_secure_key'' = Inr ZERO_KEY"
  "value_field stake_record ''validator_address'' = Inr ZERO_ADDRESS" "value_field stake_record ''delegator_address'' = Inr ZERO_ADDRESS"
  "int_of_field stake_record ''staked_to_vault_atto'' = Inr 5" "lower ZERO_ADDRESS = ZERO_ADDRESS"
  "detail_row stake_record = Inr (detail stake_record)"
  by code_simp+

lemma stake_run: "\<exists>r. vault_read stake_files stake_args = Inr r \<and> vr_claims r = [(ZERO_KEY, stake_claim)] \<and> ss_total (vr_shares r) = 5"
proof -
  let ?claims = "[(ZERO_KEY, stake_claim)]" and ?assigned = "[(ZERO_KEY, AutomaticShare)]"
  have free: "filter (taken stake_files) (vault_outputs stake_args) = []"
    by (simp add: vault_outputs_def stake_args_def taken_def partial_def stake_files_def)
  have claims: "load_all_claims stake_files (va_all_claims stake_args) = Inr ?claims"
    by (simp add: load_all_claims_def read_text_def stake_files_def stake_args_def stake_texts stake_claim_step) (simp add: CLAIM_FIELDS_def)
  obtain t where "category_step AutomaticShare ?claims ([], \<lparr>ct_rows = 0, ct_wallet = 0, ct_wone = 0, ct_staked = 0, ct_total_claim = 0\<rparr>)
      claim_record = Inr (?assigned, t)"
    by (simp add: category_step_def claim_record_fields zero_address_bytes(3) zero_address_key stake_claim_def)
  then obtain totals where cats: "load_categories stake_files stake_args ?claims = Inr (?assigned, totals)"
    by (simp add: load_categories_def category_paths_def load_category_def read_text_def stake_files_def stake_args_def stake_texts)
  obtain s where step: "delegation_step ?claims ?assigned no_shares stake_record = Inr s" and s: "ss_total s = 5"
      "ss_by_delegator s = [(ZERO_KEY, 5)]"
    by (simp add: delegation_step_def stake_record_fields zero_address_bytes(3) zero_address_key no_shares_def stake_claim_def get_int_def)
  have "load_delegations stake_files (va_delegations stake_args) ?claims ?assigned = Inr s"
    by (simp add: load_delegations_def read_text_def stake_files_def stake_args_def stake_texts step)
  moreover have "{e \<in> set ?claims. va_minimum_one stake_args \<le> vc_qualification_total (snd e)} = {(ZERO_KEY, stake_claim)}"
    by (auto simp: stake_claim_def stake_args_def)
  ultimately show ?thesis
    by (simp add: vault_read_def free claims cats s get_int_def) (simp add: stake_claim_def)
qed

text \<open>C20. The allocation is all or nothing: when the seven output paths are independent, a refused run has written nothing, because every check
  that comes after the first output passes once the earlier ones have: the delegations of all claims add up to the stake of all claims, and the
  wallet tables add up to the category totals. A run whose inputs pass returns and changes no file but its outputs.\<close>

theorem vault_allocation_atomic:
  assumes "distinct (vault_outputs args)" "\<forall>p \<in> set (vault_outputs args). partial p \<notin> set (vault_outputs args)"
  shows "case vault_read fs args of
      Inl e \<Rightarrow> vault_allocate fs args = (fs, Inl e)
    | Inr r \<Rightarrow> \<exists>fs'. vault_allocate fs args = (fs', Inr r) \<and> (\<forall>p. p \<in> set (vault_outputs args) \<longleftrightarrow> fs' p \<noteq> fs p)"
proof (cases "vault_read fs args")
  case (Inl e)
  then show ?thesis by (simp add: vault_allocate_def)
next
  case (Inr r)
  have "independent (vault_outputs args)" using assms by (simp add: independent_def)
  from vault_allocate_succeeds [OF this Inr] obtain ws j fs' where
    run: "vault_allocate fs args = (fs', Inr r)" "\<forall>p. p \<notin> set (vault_outputs args) \<longrightarrow> fs' p = fs p"
      "\<forall>(p, columns, cells) \<in> set (share_tables args (vr_shares r) @ wallet_tables args ws). fs' p = Some (csv_text (columns # cells))"
      "fs' (va_summary args) = Some (json_file 2 j)" by blast
  from Inr have free: "\<forall>p \<in> set (vault_outputs args). \<not> taken fs p" by (rule vault_read_Inr)
  have "\<forall>p \<in> set (vault_outputs args). fs' p \<noteq> None"
    using run(3, 4) unfolding outputs_split [of args "vr_shares r" ws] by fastforce
  then have "\<forall>p. p \<in> set (vault_outputs args) \<longleftrightarrow> fs' p \<noteq> fs p" using run(2) free by (metis taken_def)
  with run(1) show ?thesis by (simp add: Inr)
qed

theorem vault_allocation_atomic_witness:
  "\<exists>fs' r. vault_allocate stake_files stake_args = (fs', Inr r) \<and> (\<forall>p. p \<in> set (vault_outputs stake_args) \<longleftrightarrow> fs' p \<noteq> stake_files p)"
proof -
  have "distinct (vault_outputs stake_args)" "\<forall>p \<in> set (vault_outputs stake_args). partial p \<notin> set (vault_outputs stake_args)"
    by (simp_all add: vault_outputs_def stake_args_def partial_def)
  from vault_allocation_atomic [OF this, of stake_files] stake_run show ?thesis by auto
qed

lemma vault_sum:
  assumes "shares_of claims assigned rows s" "\<And>k v. vault_sums assigned rows k v \<Longrightarrow> g v = share_sum (\<lambda>r. validator_of r = k \<and> P r) rows"
  shows "sum_list (map g (dict_values (ss_by_validator s))) = share_sum P rows"
proof -
  let ?d = "ss_by_validator s"
  have d: "distinct (dict_keys ?d)" "fst ` set ?d = validator_of ` set rows" "\<And>k v. dict_get ?d k = Some v \<Longrightarrow> vault_sums assigned rows k v"
    using assms(1) by (simp_all add: shares_of_def)
  have "g (snd e) = share_sum (\<lambda>r. validator_of r = fst e) (filter P rows)" if "e \<in> set ?d" for e
    using assms(2) [OF d(3), of "fst e" "snd e"] that d(1) by (simp add: conj_commute)
  then have "map g (dict_values ?d) = map (\<lambda>k. share_sum (\<lambda>r. validator_of r = k) (filter P rows)) (dict_keys ?d)" by simp
  moreover have "\<forall>r \<in> set (filter P rows). validator_of r \<in> set (dict_keys ?d)" using d(2) by auto
  ultimately show ?thesis by (simp only: sum_list_groups [OF d(1)])
qed

text \<open>The stake of the claims whose assignment satisfies \<open>P\<close> is covered by the delegations of those claims.\<close>

lemma covered_part:
  assumes "vault_ready args rows r"
  shows "sum_list (map (\<lambda>e. vc_staked (snd e)) (filter (\<lambda>e. P (fst e)) (vr_claims r))) = share_sum (\<lambda>d. P (delegator_of d)) rows"
proof -
  let ?es = "filter (\<lambda>e. P (fst e)) (vr_claims r)" and ?rows = "filter (\<lambda>d. P (delegator_of d)) rows"
  have known: "\<forall>d \<in> set rows. delegator_of d \<in> fst ` set (vr_claims r)"
    using assms by (simp add: vault_ready_def shares_of_def map_of_eq_None_iff)
  have dist: "distinct (dict_keys ?es)" using assms by (simp add: vault_ready_def claims_ok_def distinct_map_filter)
  have "vc_staked (snd e) = share_sum (\<lambda>d. delegator_of d = fst e) ?rows" if "e \<in> set ?es" for e
  proof -
    have "filter (\<lambda>d. delegator_of d = fst e) rows = filter (\<lambda>d. delegator_of d = fst e) ?rows" using that by (auto intro: filter_cong)
    then show ?thesis using that assms by (simp add: vault_ready_def)
  qed
  then have "map (\<lambda>e. vc_staked (snd e)) ?es = map (\<lambda>k. share_sum (\<lambda>d. delegator_of d = k) ?rows) (dict_keys ?es)" by simp
  moreover have "\<forall>d \<in> set ?rows. delegator_of d \<in> set (dict_keys ?es)" using known by (fastforce simp: image_iff)
  ultimately show ?thesis by (simp only: sum_list_groups [OF dist])
qed

text \<open>C19. The shares cover the stake exactly: when the allocation returns, exactly the claims at or above the threshold have a category; the delegations
  of each claim add up to its stake; each vault holds the delegations to its validator, split into priority and deferred shares; the priority
  shares of all vaults add up to the stake of the claims with a category, the deferred ones to the stake of the others, and both tables hold
  exactly the delegations of their kind.\<close>

theorem vault_shares_cover_stake:
  assumes "vault_allocate fs args = (fs', Inr r)"
  shows "\<exists>content. fs (va_delegations args) = Some content \<and>
    fst ` set (vr_assigned r) = fst ` {e \<in> set (vr_claims r). va_minimum_one args \<le> vc_qualification_total (snd e)} \<and>
    (\<forall>e \<in> set (vr_claims r). vc_staked (snd e) = share_sum (\<lambda>d. delegator_of d = fst e) (dict_reader content)) \<and>
    (\<forall>e \<in> set (ss_by_validator (vr_shares r)). vt_assets (snd e) = share_sum (\<lambda>d. validator_of d = fst e) (dict_reader content) \<and>
       vt_assets (snd e) = vt_priority (snd e) + vt_deferred (snd e)) \<and>
    sum_list (map vt_priority (dict_values (ss_by_validator (vr_shares r)))) =
      sum_list (map (\<lambda>e. vc_staked (snd e)) (filter (\<lambda>e. dict_get (vr_assigned r) (fst e) \<noteq> None) (vr_claims r))) \<and>
    sum_list (map vt_deferred (dict_values (ss_by_validator (vr_shares r)))) =
      sum_list (map (\<lambda>e. vc_staked (snd e)) (filter (\<lambda>e. dict_get (vr_assigned r) (fst e) = None) (vr_claims r))) \<and>
    sum_field ''staked_to_vault_atto'' (ss_priority (vr_shares r)) = Inr (sum_list (map vt_priority (dict_values (ss_by_validator (vr_shares r))))) \<and>
    sum_field ''staked_to_vault_atto'' (ss_deferred (vr_shares r)) = Inr (sum_list (map vt_deferred (dict_values (ss_by_validator (vr_shares r)))))"
proof -
  from assms have read: "vault_read fs args = Inr r"
    by (auto simp: vault_allocate_def split: sum.splits prod.splits if_splits)
  from read obtain claims_text content where content: "fs (va_delegations args) = Some content"
    and ready: "vault_ready args (dict_reader content) r"
    by (rule vault_read_Inr)
  let ?rows = "dict_reader content" and ?d = "ss_by_validator (vr_shares r)"
  have shares: "shares_of (vr_claims r) (vr_assigned r) ?rows (vr_shares r)" using ready by (simp add: vault_ready_def)
  have vaults: "vault_sums (vr_assigned r) ?rows (fst e) (snd e)" if "e \<in> set ?d" for e
    using shares that by (simp add: shares_of_def)
  have both: "share_sum P ?rows = share_sum (\<lambda>d. P d \<and> Q d) ?rows + share_sum (\<lambda>d. P d \<and> \<not> Q d) ?rows" for P Q
    using sum_list_partition [of amount_of "filter P ?rows" Q] by (simp add: conj_commute)
  have priority: "sum_list (map vt_priority (dict_values ?d)) = share_sum (is_assigned (vr_assigned r)) ?rows"
    by (rule vault_sum [OF shares]) (simp add: vault_sums_def)
  have deferred: "sum_list (map vt_deferred (dict_values ?d)) = share_sum (\<lambda>d. \<not> is_assigned (vr_assigned r) d) ?rows"
    by (rule vault_sum [OF shares]) (simp add: vault_sums_def)
  have assets: "\<forall>e \<in> set ?d. vt_assets (snd e) = share_sum (\<lambda>d. validator_of d = fst e) ?rows \<and>
       vt_assets (snd e) = vt_priority (snd e) + vt_deferred (snd e)"
    using vaults both [of "\<lambda>d. validator_of d = _" "is_assigned (vr_assigned r)"] by (simp add: vault_sums_def)
  have parts: "fst ` set (vr_assigned r) = fst ` {e \<in> set (vr_claims r). va_minimum_one args \<le> vc_qualification_total (snd e)}"
    "\<forall>e \<in> set (vr_claims r). vc_staked (snd e) = share_sum (\<lambda>d. delegator_of d = fst e) ?rows"
    using ready by (simp_all add: vault_ready_def)
  have staked: "sum_list (map vt_priority (dict_values ?d)) =
      sum_list (map (\<lambda>e. vc_staked (snd e)) (filter (\<lambda>e. dict_get (vr_assigned r) (fst e) \<noteq> None) (vr_claims r)))"
    "sum_list (map vt_deferred (dict_values ?d)) =
      sum_list (map (\<lambda>e. vc_staked (snd e)) (filter (\<lambda>e. dict_get (vr_assigned r) (fst e) = None) (vr_claims r)))"
    unfolding priority deferred covered_part [OF ready, of "\<lambda>k. dict_get (vr_assigned r) k \<noteq> None"]
      covered_part [OF ready, of "\<lambda>k. dict_get (vr_assigned r) k = None"] by simp_all
  have tables: "sum_field ''staked_to_vault_atto'' (ss_priority (vr_shares r)) = Inr (sum_list (map vt_priority (dict_values ?d)))"
    "sum_field ''staked_to_vault_atto'' (ss_deferred (vr_shares r)) = Inr (sum_list (map vt_deferred (dict_values ?d)))"
    by (simp_all only: share_rows_sum [OF shares] priority deferred)
  show ?thesis by (intro exI conjI; fact content parts assets staked tables)
qed

theorem vault_shares_cover_stake_witness:
  "\<exists>fs' r. vault_allocate stake_files stake_args = (fs', Inr r) \<and>
     sum_list (map vt_priority (dict_values (ss_by_validator (vr_shares r)))) =
       sum_list (map (\<lambda>e. vc_staked (snd e)) (filter (\<lambda>e. dict_get (vr_assigned r) (fst e) \<noteq> None) (vr_claims r)))"
proof -
  have "independent (vault_outputs stake_args)" by (simp add: independent_def vault_outputs_def stake_args_def partial_def)
  with vault_allocate_succeeds stake_run obtain fs' r where run: "vault_allocate stake_files stake_args = (fs', Inr r)" by blast
  with vault_shares_cover_stake [OF run] show ?thesis by blast
qed

end
