(* ===== verification/ClaimTree.thy ===== *)
theory ClaimTree
  imports BatchTree Csv Files
begin

text \<open>
  \<^verbatim>\<open>bridge-claims/tools/claim_tree.py\<close>: the leaves and the tree of the bridge claims, hashed in worker processes when the
  tree is large, the file that holds the tree, and the code and address of the contract that checks the
  claims. \<open>started\<close> says whether the process pool could be created. A worker returns the concatenation of its nodes, which is
  split into 32-byte nodes again: the loop over the levels shrinks only if the hash has 32-byte digests, so it is a
  partial function, and that it returns is a theorem.
\<close>

section \<open>Rows and leaves\<close>

definition CHUNK :: nat where "CHUNK = 8192"

definition PARALLEL_MIN :: nat where "PARALLEL_MIN = 4 * CHUNK"

definition NATIVE_TOKEN :: string where "NATIVE_TOKEN = ''0x'' @ replicate 40 (CHR ''0'')"

definition claim_word :: "int \<Rightarrow> bytes result" where
  "claim_word value =
     (if value < 0 then Inl (OverflowError ''can't convert negative int to unsigned'')
      else if value \<ge> 2 ^ 256 then Inl (OverflowError ''int too big to convert'')
      else Inr (to_bytes_big 32 (nat value)))"

definition encode_row :: "int \<Rightarrow> string \<Rightarrow> string \<Rightarrow> int \<Rightarrow> bytes result" where
  "encode_row index account token amount =
     bindR (claim_word index) (\<lambda>w0.
     bindR (bindR (address_int account) claim_word) (\<lambda>w1.
     bindR (bindR (address_int token) claim_word) (\<lambda>w2.
     bindR (claim_word amount) (\<lambda>w3. Inr (w0 @ w1 @ w2 @ w3)))))"

type_synonym claim_tuple = "int \<times> string \<times> string \<times> int"

definition claim_leaf :: "(bytes \<Rightarrow> bytes) \<Rightarrow> claim_tuple \<Rightarrow> bytes result" where
  "claim_leaf keccak256 row =
     (case row of (index, account, token, amount) \<Rightarrow>
        bindR (encode_row index account token amount) (\<lambda>b. Inr (keccak256 (keccak256 b))))"

definition leaf_chunk :: "(bytes \<Rightarrow> bytes) \<Rightarrow> claim_tuple list \<Rightarrow> bytes result" where
  "leaf_chunk keccak256 rows = bindR (mapM (claim_leaf keccak256) rows) (\<lambda>ls. Inr (concat ls))"

definition pair_chunk :: "(bytes \<Rightarrow> bytes) \<Rightarrow> bytes \<Rightarrow> bytes" where
  "pair_chunk keccak256 nodes = concat (map (\<lambda>b. hash_pair keccak256 (take 32 b) (take 32 (drop 32 b))) (slices 64 nodes))"

definition split_nodes :: "bytes \<Rightarrow> nat \<Rightarrow> bytes list" where
  "split_nodes blob sz = (if sz = 0 then [] else slices 32 blob)"

definition has_pool :: "bool \<Rightarrow> int \<Rightarrow> nat \<Rightarrow> bool" where
  "has_pool started workers sz \<longleftrightarrow> \<not> (workers \<le> 1 \<or> sz < PARALLEL_MIN) \<and> started"

definition claim_leaves :: "(bytes \<Rightarrow> bytes) \<Rightarrow> bool \<Rightarrow> int \<Rightarrow> claim_tuple list \<Rightarrow> bytes list result" where
  "claim_leaves keccak256 started workers rows =
     (if \<not> has_pool started workers (length rows) then mapM (claim_leaf keccak256) rows
      else bindR (mapM (leaf_chunk keccak256) (slices CHUNK rows)) (\<lambda>blobs. Inr (split_nodes (concat blobs) (length rows))))"

section \<open>Levels\<close>

definition next_nodes :: "(bytes \<Rightarrow> bytes) \<Rightarrow> bool \<Rightarrow> bytes list \<Rightarrow> bytes list" where
  "next_nodes keccak256 pool prev =
     (let paired = length prev - length prev mod 2;
          nxt = (if pool \<and> paired \<ge> PARALLEL_MIN
                 then split_nodes (concat (map (\<lambda>b. pair_chunk keccak256 (concat b)) (slices (2 * CHUNK) (take paired prev)))) (paired div 2)
                 else map (\<lambda>i. hash_pair keccak256 (prev ! i) (prev ! (i + 1))) (range_step paired 2))
      in if paired < length prev then nxt @ [last prev] else nxt)"

partial_function (option) levels_loop :: "(bytes \<Rightarrow> bytes) \<Rightarrow> bool \<Rightarrow> bytes list \<Rightarrow> bytes list list option" where
  "levels_loop keccak256 pool prev =
     (if length prev > 1
      then Option.bind (levels_loop keccak256 pool (next_nodes keccak256 pool prev)) (\<lambda>rest. Some (prev # rest))
      else Some [prev])"

definition claim_levels :: "(bytes \<Rightarrow> bytes) \<Rightarrow> bool \<Rightarrow> int \<Rightarrow> bytes list \<Rightarrow> bytes list list result option" where
  "claim_levels keccak256 started workers leaf_list =
     (if leaf_list = [] then Some (Inl (ValueError ''no leaves''))
      else map_option Inr (levels_loop keccak256 (has_pool started workers (length leaf_list)) leaf_list))"

section \<open>The tree file\<close>

definition tree_text :: "bytes list list \<Rightarrow> string" where
  "tree_text levels = concat (map (\<lambda>node. ''0x'' @ hex_of node @ [CHR 0x0A]) (concat levels))"

definition write_tree :: "files \<Rightarrow> string \<Rightarrow> bytes list list \<Rightarrow> files \<times> unit result" where
  "write_tree fs path levels =
     (if fs (partial path) \<noteq> None then (fs, Inl (FileExistsError (partial path)))
      else (fs(path \<mapsto> tree_text levels), Inr ()))"

fun cut_levels :: "nat list \<Rightarrow> 'a list \<Rightarrow> 'a list list" where
  "cut_levels [] nodes = []"
| "cut_levels (n # ns) nodes = take n nodes # cut_levels ns (drop n nodes)"

definition read_node :: "string \<Rightarrow> bytes result" where
  "read_node line = of_option (ValueError ''non-hexadecimal number found in fromhex() arg'') (fromhex (strip (drop 2 line)))"

definition read_tree :: "files \<Rightarrow> string \<Rightarrow> nat list \<Rightarrow> bytes list list result" where
  "read_tree fs path level_sizes =
     bindR (read_text fs path) (\<lambda>content.
     bindR (mapM read_node (raw_lines content)) (\<lambda>nodes.
       if length nodes \<noteq> sum_list level_sizes then Inl (ValueError ''unexpected number of nodes'')
       else Inr (cut_levels level_sizes nodes)))"

section \<open>The contract\<close>

definition constructor_args :: "string \<Rightarrow> string option \<Rightarrow> int \<Rightarrow> bytes \<Rightarrow> int \<Rightarrow> bytes \<Rightarrow> bytes result" where
  "constructor_args funder wrapped_native chain_id root_node claim_count list_hash =
     bindR (bindR (address_int funder) claim_word) (\<lambda>w0.
     bindR (bindR (address_int (case wrapped_native of Some a \<Rightarrow> if a = [] then NATIVE_TOKEN else a | None \<Rightarrow> NATIVE_TOKEN)) claim_word) (\<lambda>w1.
     bindR (claim_word chain_id) (\<lambda>w2.
     bindR (claim_word claim_count) (\<lambda>w3. Inr (w0 @ w1 @ w2 @ root_node @ w3 @ list_hash)))))"

definition claim_unhex :: "string \<Rightarrow> bytes result" where
  "claim_unhex t = of_option (ValueError ''non-hexadecimal number found in fromhex() arg'')
     (fromhex (if startswith t ''0x'' then drop 2 t else t))"

definition load_chains :: "string \<Rightarrow> json result" where
  "load_chains content =
     bindR (loads content) (\<lambda>chains.
     bindR (bindR (bindR (json_item chains ''salt'') json_text) claim_unhex) (\<lambda>salt.
     if length salt \<noteq> 32 then Inl (ValueError ''salt must be 32 bytes'')
     else
       bindR (bindR (bindR (json_item chains ''create2_deployer'') json_text) claim_unhex) (\<lambda>deployer.
         if length deployer \<noteq> 20 then Inl (ValueError ''create2_deployer must be an address'') else Inr chains)))"

definition create2_address :: "(bytes \<Rightarrow> bytes) \<Rightarrow> string \<Rightarrow> bytes \<Rightarrow> bytes \<Rightarrow> string result" where
  "create2_address keccak256 deployer salt init_code =
     bindR (of_option (ValueError ''non-hexadecimal number found in fromhex() arg'') (fromhex (drop 2 deployer))) (\<lambda>d.
       Inr (''0x'' @ hex_of (drop 12 (keccak256 ([0xFF] @ d @ salt @ keccak256 init_code)))))"

record artifact =
  af_creation_code :: bytes
  af_runtime_template :: bytes
  af_immutables :: "(nat \<times> nat) list list"

definition json_nat :: "json \<Rightarrow> nat result" where
  "json_nat j = (case j of JInt n \<Rightarrow> if n < 0 then Inl (ValueError ''negative offset'') else Inr (nat n) | _ \<Rightarrow> Inl (TypeError ''offset''))"

definition read_position :: "json \<Rightarrow> (nat \<times> nat) result" where
  "read_position r =
     bindR (bindR (json_item r ''start'') json_nat) (\<lambda>s. bindR (bindR (json_item r ''length'') json_nat) (\<lambda>n. Inr (s, n)))"

definition load_artifact :: "files \<Rightarrow> string \<Rightarrow> artifact result" where
  "load_artifact fs path =
     (case fs path of
        None \<Rightarrow> Inl (SystemExit ''no bytecode: run forge build'')
      | Some content \<Rightarrow>
          bindR (loads content) (\<lambda>j.
          bindR (json_item j ''deployedBytecode'') (\<lambda>deployed.
          bindR (json_get deployed ''immutableReferences'') (\<lambda>refs0.
          let refs = (if json_falsy refs0 then JObj [] else refs0) in
          bindR (bindR (json_item j ''bytecode'') (\<lambda>b. bindR (bindR (json_item b ''object'') json_text) claim_unhex)) (\<lambda>creation.
          bindR (bindR (bindR (json_item deployed ''object'') json_text) claim_unhex) (\<lambda>runtime.
          bindR (case refs of JObj items \<Rightarrow> Inr items | _ \<Rightarrow> Inl (TypeError ''immutableReferences'')) (\<lambda>items.
          bindR (mapM (\<lambda>(k, v). bindR (py_int k) (\<lambda>n. Inr (n, v))) items) (\<lambda>keyed.
          bindR (mapM (\<lambda>(n, v). bindR (json_list v) (mapM read_position)) (sort_key fst keyed)) (\<lambda>immutables.
            Inr \<lparr>af_creation_code = creation, af_runtime_template = runtime, af_immutables = immutables\<rparr>)))))))))"

definition write_immutable :: "bytes \<Rightarrow> bytes \<Rightarrow> nat \<times> nat \<Rightarrow> bytes result" where
  "write_immutable value code0 position =
     (case position of (start, n) \<Rightarrow>
        if n \<noteq> 32 \<or> (\<exists>b \<in> set (take 32 (drop start code0)). b \<noteq> 0) then Inl (ValueError ''no zeroed 32-byte immutable at runtime offset'')
        else Inr (take start code0 @ value @ drop (start + 32) code0))"

definition runtime_code :: "artifact \<Rightarrow> string \<Rightarrow> string option \<Rightarrow> int \<Rightarrow> bytes \<Rightarrow> int \<Rightarrow> bytes \<Rightarrow> bytes result" where
  "runtime_code a funder wrapped_native chain_id root_node claim_count list_hash =
     bindR (constructor_args funder wrapped_native chain_id root_node claim_count list_hash) (\<lambda>blob.
       let words = slices 32 blob in
       if length (af_immutables a) \<noteq> length words then Inl (ValueError ''unexpected number of immutables'')
       else foldM (\<lambda>c (positions, value). foldM (write_immutable value) c positions) (af_runtime_template a) (zip (af_immutables a) words))"

section \<open>Worker processes compute the same tree\<close>

lemma range_step_2: "even n \<Longrightarrow> range_step n 2 = map (\<lambda>j. 2 * j) [0..<n div 2]"
  by (auto simp: range_step_def mult.commute)

lemma next_level_append: "even (length xs) \<Longrightarrow> next_level h (xs @ ys) = next_level h xs @ next_level h ys"
  by (induction h xs rule: next_level.induct) auto

lemma next_level_pairs:
  "next_level h prev = map (\<lambda>i. h (prev ! i) (prev ! (i + 1))) (range_step (length prev - length prev mod 2) 2) @
     (if length prev - length prev mod 2 < length prev then [last prev] else [])"
proof (rule nth_equalityI)
  have half: "(length prev - length prev mod 2) div 2 = length prev div 2" by presburger
  show len: "length (next_level h prev) = length (map (\<lambda>i. h (prev ! i) (prev ! (i + 1))) (range_step (length prev - length prev mod 2) 2) @
     (if length prev - length prev mod 2 < length prev then [last prev] else []))"
    by (simp add: range_step_2 half) presburger
  fix j assume "j < length (next_level h prev)"
  then have j: "j < (length prev + 1) div 2" by simp
  show "next_level h prev ! j = (map (\<lambda>i. h (prev ! i) (prev ! (i + 1))) (range_step (length prev - length prev mod 2) 2) @
     (if length prev - length prev mod 2 < length prev then [last prev] else [])) ! j"
  proof (cases "j < length prev div 2")
    case True
    then have "2 * j + 1 < length prev" by presburger
    then show ?thesis using True j by (simp add: range_step_2 half nth_append nth_next_level)
  next
    case False
    then have n: "length prev = 2 * j + 1" using j by presburger
    then have "last prev = prev ! (2 * j)" by (subst last_conv_nth) auto
    then show ?thesis using n by (simp add: range_step_2 nth_append nth_next_level)
  qed
qed

lemma concat_cons_slice: "length x = 32 \<Longrightarrow> length y = 32 \<Longrightarrow> slices 64 (x @ y @ rest) = (x @ y) # slices 64 rest"
  using slices_step [of 64 "x @ y @ rest"] by (cases x) auto

lemma pair_chunk_level:
  "even (length b) \<Longrightarrow> \<forall>x \<in> set b. length x = 32 \<Longrightarrow> pair_chunk k (concat b) = concat (next_level (hash_pair k) b)"
proof (induction "hash_pair k" b rule: next_level.induct)
  case (3 x y rest)
  then show ?case by (simp add: pair_chunk_def concat_cons_slice)
qed (auto simp: pair_chunk_def)

lemma chunked_level:
  assumes "0 < n" "even n" "even (length xs)" "\<forall>x \<in> set xs. length x = 32"
  shows "concat (map (\<lambda>b. pair_chunk k (concat b)) (slices n xs)) = concat (next_level (hash_pair k) xs)"
  using assms(3, 4)
proof (induction xs rule: slices_induct [OF assms(1)])
  case 2: (2 xs)
  have even: "even (length (take n xs))" "even (length (drop n xs))" using 2(3) assms(2) by (auto simp: min_def)
  have "\<forall>x \<in> set (take n xs). length x = 32" "\<forall>x \<in> set (drop n xs). length x = 32"
    using 2(4) by (auto dest: in_set_takeD in_set_dropD)
  then have "concat (map (\<lambda>b. pair_chunk k (concat b)) (slices n xs)) =
      concat (next_level (hash_pair k) (take n xs)) @ concat (next_level (hash_pair k) (drop n xs))"
    using 2(1, 2) even by (simp add: slices_step [OF assms(1)] pair_chunk_level)
  also have "\<dots> = concat (next_level (hash_pair k) xs)"
    using next_level_append [OF even(1), of "hash_pair k" "drop n xs"] by simp
  finally show ?case .
qed simp

lemma next_level_lengths:
  assumes "\<And>d. length (k d) = 32" "\<forall>x \<in> set xs. length x = 32"
  shows "\<forall>x \<in> set (next_level (hash_pair k) xs). length x = 32"
  using assms(2) by (induction "hash_pair k" xs rule: next_level.induct) (auto simp: hash_pair_length assms(1))

lemma next_nodes_level:
  assumes k: "\<And>d. length (k d) = 32" and xs: "\<forall>x \<in> set prev. length x = 32"
  shows "next_nodes k pool prev = next_level (hash_pair k) prev"
proof -
  let ?p = "length prev - length prev mod 2" and ?h = "hash_pair k"
  have len: "length (take ?p prev) = ?p" by simp
  have even: "even ?p" "even (length (take ?p prev))" unfolding len by presburger+
  have front: "\<forall>x \<in> set (take ?p prev). length x = 32" using xs by (auto dest: in_set_takeD)
  have seq: "map (\<lambda>i. ?h (prev ! i) (prev ! (i + 1))) (range_step ?p 2) = next_level ?h (take ?p prev)"
    using next_level_pairs [of ?h "take ?p prev"] even(2)
    by (auto simp: min_def range_step_2 intro!: map_cong)
  have par: "split_nodes (concat (map (\<lambda>b. pair_chunk k (concat b)) (slices (2 * CHUNK) (take ?p prev)))) (?p div 2) =
      next_level ?h (take ?p prev)" if "?p \<noteq> 0"
  proof -
    have "concat (map (\<lambda>b. pair_chunk k (concat b)) (slices (2 * CHUNK) (take ?p prev))) = concat (next_level ?h (take ?p prev))"
      by (rule chunked_level) (use even front in \<open>auto simp: CHUNK_def\<close>)
    moreover have "?p div 2 \<noteq> 0" using that even by presburger
    ultimately show ?thesis
      using next_level_lengths [OF k front] by (simp add: split_nodes_def slices_concat)
  qed
  have whole: "next_level ?h prev = next_level ?h (take ?p prev) @ (if ?p < length prev then [last prev] else [])"
    by (subst next_level_pairs) (simp only: seq)
  show ?thesis
  proof (cases "pool \<and> PARALLEL_MIN \<le> ?p")
    case True
    moreover have "0 < PARALLEL_MIN" by (simp add: PARALLEL_MIN_def CHUNK_def)
    ultimately have "?p \<noteq> 0" by linarith
    from True show ?thesis unfolding next_nodes_def Let_def whole
      by (simp only: par [OF \<open>?p \<noteq> 0\<close>] if_True simp_thms) simp
  next
    case False
    then show ?thesis unfolding next_nodes_def Let_def whole seq by auto
  qed
qed

lemma levels_loop_levels:
  assumes k: "\<And>d. length (k d) = 32"
  shows "\<forall>x \<in> set prev. length x = 32 \<Longrightarrow> levels_loop k pool prev = Some (levels_from (hash_pair k) prev)"
proof (induction "length prev" arbitrary: prev rule: less_induct)
  case less
  show ?case
  proof (cases "1 < length prev")
    case True
    have "levels_loop k pool (next_level (hash_pair k) prev) = Some (levels_from (hash_pair k) (next_level (hash_pair k) prev))"
      using True next_level_lengths [OF k less.prems] by (intro less.hyps) simp_all
    then show ?thesis
      using True by (subst levels_loop.simps, subst levels_from.simps) (simp add: next_nodes_level [OF k less.prems])
  next
    case False
    then show ?thesis by (subst levels_loop.simps, subst levels_from.simps) simp
  qed
qed

lemma claim_leaf_length: "(\<And>d. length (k d) = 32) \<Longrightarrow> claim_leaf k row = Inr l \<Longrightarrow> length l = 32"
  by (auto simp: claim_leaf_def bindR_Inr_iff split: prod.splits)

lemma mapM_slices:
  assumes "0 < n"
  shows "bindR (mapM (leaf_chunk k) (slices n rows)) (\<lambda>bs. Inr (concat bs)) = bindR (mapM (claim_leaf k) rows) (\<lambda>ls. Inr (concat ls))"
proof (induction rows rule: slices_induct [OF assms])
  case (2 rows)
  have "bindR (mapM (leaf_chunk k) (slices n rows)) (\<lambda>bs. Inr (concat bs)) =
      bindR (mapM (claim_leaf k) (take n rows)) (\<lambda>ls. bindR (bindR (mapM (leaf_chunk k) (slices n (drop n rows))) (\<lambda>bs. Inr (concat bs)))
        (\<lambda>b. Inr (concat ls @ b)))"
    using 2(1) by (simp add: slices_step [OF assms] leaf_chunk_def bindR_assoc del: mapM_Inr_iff)
  also have "\<dots> = bindR (mapM (claim_leaf k) (take n rows @ drop n rows)) (\<lambda>ls. Inr (concat ls))"
    unfolding 2(2) mapM_append by (simp add: bindR_assoc del: append_take_drop_id)
  finally show ?case by simp
qed simp

lemma claim_leaves_sequential:
  assumes k: "\<And>d. length (k d) = 32"
  shows "claim_leaves k started workers rows = mapM (claim_leaf k) rows"
proof (cases "has_pool started workers (length rows)")
  case True
  then have ne: "length rows \<noteq> 0" by (auto simp: has_pool_def PARALLEL_MIN_def CHUNK_def)
  have "claim_leaves k started workers rows =
      bindR (bindR (mapM (leaf_chunk k) (slices CHUNK rows)) (\<lambda>bs. Inr (concat bs))) (\<lambda>b. Inr (split_nodes b (length rows)))"
    using True by (simp add: claim_leaves_def bindR_assoc)
  also have "\<dots> = bindR (mapM (claim_leaf k) rows) (\<lambda>ls. Inr (split_nodes (concat ls) (length rows)))"
    by (simp add: mapM_slices [of CHUNK, unfolded CHUNK_def] CHUNK_def bindR_assoc)
  also have "\<dots> = bindR (mapM (claim_leaf k) rows) Inr"
  proof (rule bindR_cong [OF refl])
    fix ls assume "mapM (claim_leaf k) rows = Inr ls"
    then have "\<forall>l \<in> set ls. length l = 32" by (metis claim_leaf_length k mapM_mem)
    then show "(Inr (split_nodes (concat ls) (length rows)) :: bytes list result) = Inr ls" using ne by (simp add: split_nodes_def slices_concat)
  qed
  also have "\<dots> = mapM (claim_leaf k) rows" by (cases "mapM (claim_leaf k) rows") simp_all
  finally show ?thesis .
qed (simp add: claim_leaves_def)

section \<open>Leaves commit to rows\<close>

lemma claim_word_word: "claim_word v = Inr w \<longleftrightarrow> word v = Inr w"
  by (simp add: claim_word_def word_def)

definition row_ints :: "claim_tuple \<Rightarrow> (int \<times> int \<times> int \<times> int) result" where
  "row_ints row = (case row of (index, account, token, amount) \<Rightarrow>
     bindR (address_int account) (\<lambda>a. bindR (address_int token) (\<lambda>t. Inr (index, a, t, amount))))"

abbreviation encode_tuple :: "claim_tuple \<Rightarrow> bytes result" where
  "encode_tuple row \<equiv> (case row of (index, account, token, amount) \<Rightarrow> encode_row index account token amount)"

lemma encode_tuple_words:
  assumes "encode_tuple row = Inr b"
  obtains i a t m ws where "row_ints row = Inr (i, a, t, m)" "mapM word [i, a, t, m] = Inr ws" "b = concat ws"
proof -
  obtain i acc tok m where row: "row = (i, acc, tok, m)" by (cases row)
  from assms obtain w0 a w1 t w2 w3 where "word i = Inr w0" "address_int acc = Inr a" "word a = Inr w1"
      "address_int tok = Inr t" "word t = Inr w2" "word m = Inr w3" "b = w0 @ w1 @ w2 @ w3"
    by (auto simp: row encode_row_def bindR_Inr_iff claim_word_word)
  then show ?thesis by (intro that [of i a t m "[w0, w1, w2, w3]"]) (simp_all add: row row_ints_def del: mapM_Inr_iff)
qed

lemma encode_tuple_inj:
  assumes "encode_tuple r = Inr b" "encode_tuple r' = Inr b"
  shows "row_ints r = row_ints r'"
proof -
  from assms(1) obtain i a t m ws where r: "row_ints r = Inr (i, a, t, m)" "mapM word [i, a, t, m] = Inr ws" "b = concat ws"
    by (rule encode_tuple_words)
  from assms(2) obtain i' a' t' m' ws' where r': "row_ints r' = Inr (i', a', t', m')" "mapM word [i', a', t', m'] = Inr ws'" "b = concat ws'"
    by (rule encode_tuple_words)
  have "ws = ws'"
    using concat_fixed_width_inj [of 32 ws ws'] mapM_word_lengths [OF r(2)] mapM_word_lengths [OF r'(2)] r(3) r'(3) by simp
  with r r' mapM_word_inj [of "[i, a, t, m]" ws "[i', a', t', m']"] show ?thesis by simp
qed

lemma claim_leaf_encode: "claim_leaf k row = bindR (encode_tuple row) (\<lambda>b. Inr (k (k b)))"
  by (simp add: claim_leaf_def split: prod.splits)

lemma claim_leaves_encode:
  "mapM (claim_leaf k) rows = Inr ls \<Longrightarrow> \<exists>encs. mapM encode_tuple rows = Inr encs \<and> ls = map (\<lambda>x. k (k x)) encs"
proof (induction rows arbitrary: ls)
  case (Cons r rows)
  from Cons.prems obtain e ls' where e: "encode_tuple r = Inr e" "ls = k (k e) # ls'" "mapM (claim_leaf k) rows = Inr ls'"
    by (auto simp: claim_leaf_encode [of k r] bindR_Inr_iff simp del: mapM_Inr_iff split: prod.splits)
  with Cons.IH [of ls'] show ?case by (auto simp del: mapM_Inr_iff)
qed simp

text \<open>The worker processes do not change the leaves: for a hash with 32-byte digests, whatever the number of workers and
  whether or not the pool starts, the leaves are those of the rows hashed one after the other, in row order, with the same error
  when a row cannot be encoded.\<close>

theorem claim_tree_parallel:
  assumes "\<And>d. length (keccak256 d) = 32"
  shows "claim_leaves keccak256 started workers rows = mapM (claim_leaf keccak256) rows"
  using assms by (rule claim_leaves_sequential)

theorem claim_tree_parallel_witness:
  "claim_leaves (\<lambda>d. replicate 32 0) True 2 (replicate 40000 (0, ''0x1'', ''0x0'', 5)) =
   Inr (replicate 40000 (replicate 32 0))"
proof -
  let ?k = "\<lambda>d :: bytes. replicate 32 0 :: bytes" and ?r = "(0, ''0x1'', ''0x0'', 5) :: claim_tuple"
  have "claim_leaf ?k ?r = Inr (replicate 32 0)" by code_simp
  then have "mapM (claim_leaf ?k) (replicate n ?r) = Inr (replicate n (replicate 32 0))" for n
    by (induction n) (simp_all del: mapM_Inr_iff)
  then show ?thesis using claim_tree_parallel [of ?k True 2] by (simp del: mapM_Inr_iff)
qed

text \<open>C25. The loop over the levels ends and gives the batch tree: for a hash with 32-byte digests and leaves of 32 bytes, hashing
  the levels in chunks in worker processes returns the levels that the sequential \<^verbatim>\<open>tree_levels\<close> of the airdrop
  tools computes, for every number of leaves and workers, and refuses an empty list as it does.\<close>

theorem claim_levels_returns:
  assumes "\<And>d. length (keccak256 d) = 32" "\<forall>x \<in> set leaf_list. length x = 32"
  shows "claim_levels keccak256 started workers leaf_list = Some (tree_levels keccak256 leaf_list)"
  using levels_loop_levels [OF assms] by (simp add: claim_levels_def tree_levels_def)

theorem claim_levels_returns_witness:
  "claim_levels (\<lambda>d. replicate 32 7) True 4 (replicate 32769 (replicate 32 7)) =
   Some (tree_levels (\<lambda>d. replicate 32 7) (replicate 32769 (replicate 32 7)))"
  by (rule claim_levels_returns) simp_all

section \<open>The tree file reads back\<close>

lemma cut_levels_concat: "cut_levels (map length xss) (concat xss) = xss"
  by (induction xss) simp_all

lemma hex_no_newline: "is_hex c \<Longrightarrow> \<not> is_newline c \<and> \<not> is_space c"
  by (auto simp: is_hex_def is_newline_def is_space_def hex_digit_value_def is_digit_def split: if_splits)

lemma raw_lines_terminated:
  "\<forall>l \<in> set ls. \<forall>c \<in> set l. \<not> is_newline c \<Longrightarrow> raw_lines (concat (map (\<lambda>l. l @ [LF]) ls)) = map (\<lambda>l. l @ [LF]) ls"
  unfolding raw_lines_def by (induction ls) (auto simp: raw_lines_acc_line)

lemma strip_trailing:
  assumes "\<forall>c \<in> set s. \<not> is_space c" "is_space d"
  shows "strip (s @ [d]) = s"
proof (cases s)
  case (Cons a t)
  have "dropWhile is_space (s @ [d]) = s @ [d]" using assms(1) by (simp add: Cons)
  moreover have "dropWhile is_space (rev s) = rev s"
    using assms(1) by (intro dropWhile_id) (metis Cons hd_in_set list.distinct(1) rev_is_Nil_conv set_rev)
  ultimately show ?thesis using assms(2) by (simp add: strip_def)
qed (simp add: strip_def assms(2))

lemma read_node_line: "read_node (''0x'' @ hex_of b @ [LF]) = Inr b"
proof -
  have "\<forall>c \<in> set (hex_of b). \<not> is_space c" using hex_of_is_hex [of b] hex_no_newline by (auto simp: list_all_iff)
  from strip_trailing [OF this, of LF] show ?thesis by (simp add: read_node_def is_space_def)
qed

lemma tree_text_lines: "raw_lines (tree_text levels) = map (\<lambda>b. ''0x'' @ hex_of b @ [LF]) (concat levels)"
proof -
  have "\<forall>l \<in> set (map (\<lambda>b. ''0x'' @ hex_of b) (concat levels)). \<forall>c \<in> set l. \<not> is_newline c"
    using hex_of_is_hex hex_no_newline by (fastforce simp: list_all_iff is_newline_def)
  from raw_lines_terminated [OF this] show ?thesis by (simp add: tree_text_def o_def)
qed

text \<open>A written tree reads back: when no partial file is in the way, \<^verbatim>\<open>write_tree\<close> succeeds and
  \<^verbatim>\<open>read_tree\<close> with the sizes of the levels returns every level, node by node; with sizes of another total it is refused.\<close>

theorem tree_file_roundtrip:
  assumes "fs (partial path) = None"
  shows "snd (write_tree fs path levels) = Inr () \<and>
    read_tree (fst (write_tree fs path levels)) path (map length levels) = Inr levels \<and>
    (sum_list sizes \<noteq> sum_list (map length levels) \<longrightarrow>
      read_tree (fst (write_tree fs path levels)) path sizes = Inl (ValueError ''unexpected number of nodes''))"
proof -
  have "mapM read_node (raw_lines (tree_text levels)) = Inr (concat levels)"
    unfolding tree_text_lines by (simp only: mapM_Inr_iff list_all2_map1 list_all2_same read_node_line) simp
  then show ?thesis using assms
    by (simp add: write_tree_def read_tree_def read_text_def cut_levels_concat length_concat del: mapM_Inr_iff)
qed

theorem tree_file_roundtrip_witness:
  "read_tree (fst (write_tree (\<lambda>_. None) ''t'' [[[1], [2, 3]], [[255]]])) ''t'' [2, 1] = Inr [[[1], [2, 3]], [[255]]] \<and>
   read_tree (fst (write_tree (\<lambda>_. None) ''t'' [[[1], [2, 3]], [[255]]])) ''t'' [2] = Inl (ValueError ''unexpected number of nodes'')"
  using tree_file_roundtrip [of "\<lambda>_. None" "''t''" "[[[1], [2, 3]], [[255]]]" "[2]"] by (simp add: numeral_2_eq_2)

text \<open>C24. The root of the claim tree commits to the rows: for a hash with 32-byte digests and no collision among the byte strings hashed
  to build the tree and to check the proof, a row whose leaf verifies against the root with a proof of 32-byte nodes has the index, account,
  token and amount of a row of the tree.\<close>

theorem claim_root_binding:
  assumes "claim_leaves k started workers rows = Inr leaf_list"
    and "claim_levels k started workers leaf_list = Some (Inr levels)" "tree_root levels = Inr root"
    and "mapM encode_tuple rows = Inr encs" "encode_tuple claim = Inr e"
    and "claim_leaf k claim = Inr leaf" "tree_verify k ps root leaf"
    and "\<And>d. length (k d) = 32" "\<forall>p \<in> set ps. length p = 32"
    and "inj_on k (set (commit_inputs k encs e ps))"
  shows "\<exists>row \<in> set rows. row_ints row = row_ints claim"
proof -
  have leaves: "mapM (claim_leaf k) rows = Inr leaf_list" using assms(1) by (simp add: claim_leaves_sequential [OF assms(8)])
  then have ls: "leaf_list = map (\<lambda>x. k (k x)) encs" using claim_leaves_encode assms(4) by fastforce
  then have "tree_levels k leaf_list = Inr levels"
    using assms(2) levels_loop_levels [OF assms(8), of leaf_list] by (auto simp: claim_levels_def tree_levels_def assms(8) split: if_splits)
  note root = tree_levels_root [OF this assms(3)]
  have "leaf = k (k e)" using assms(5, 6) by (simp add: claim_leaf_encode)
  then have "e \<in> set encs"
    using leaf_committed [OF assms(8) _ assms(9, 10)] assms(7) root(1) by (simp add: tree_verify_def root(2, 3) ls)
  then obtain row where "row \<in> set rows" "encode_tuple row = Inr e" using mapM_mem [OF assms(4)] by blast
  then show ?thesis using encode_tuple_inj [OF _ assms(5)] by blast
qed

theorem claim_root_binding_witness:
  "\<exists>row \<in> set [(0 :: int, ''0xA1'', ''0x0'', 5 :: int)]. row_ints row = row_ints (0, ''0xa1'', ''0x0'', 5)"
proof -
  let ?k = "\<lambda>d :: bytes. to_bytes_big 32 (length d)"
  let ?row = "(0, ''0xA1'', ''0x0'', 5) :: claim_tuple" and ?claim = "(0, ''0xa1'', ''0x0'', 5) :: claim_tuple"
  define e where "e = concat (map (to_bytes_big 32) [0, 161, 0, 5])"
  have addr: "address_int ''0xA1'' = Inr 161" "address_int ''0xa1'' = Inr 161" "address_int ''0x0'' = Inr 0" by code_simp+
  have enc: "encode_tuple ?row = Inr e" "encode_tuple ?claim = Inr e"
    by (simp_all add: encode_row_def claim_word_def addr e_def)
  have len: "length e = 128" by (simp add: e_def)
  have inputs: "commit_inputs ?k [e] e [] = [e, ?k e, e, ?k e]"
    by (simp add: commit_inputs_def tree_pairs_def levels_from.simps)
  have "to_bytes_big 32 128 \<noteq> to_bytes_big 32 32" using to_bytes_big_inj [of 128 32 32] by auto
  then have inj: "inj_on ?k (set (commit_inputs ?k [e] e []))" unfolding inputs by (auto simp: inj_on_def len)
  have leaf: "claim_leaf ?k ?row = Inr (?k (?k e))" "claim_leaf ?k ?claim = Inr (?k (?k e))"
    using enc by (simp_all add: claim_leaf_encode)
  show ?thesis
  proof (rule claim_root_binding [where k = ?k and ps = "[]" and e = e and encs = "[e]" and started = False and workers = 1])
    show "claim_leaves ?k False 1 [?row] = Inr [?k (?k e)]"
      using leaf by (simp add: claim_leaves_def has_pool_def del: mapM_Inr_iff)
    show "claim_levels ?k False 1 [?k (?k e)] = Some (Inr [[?k (?k e)]])"
      by (simp add: claim_levels_def levels_loop.simps)
    show "tree_root [[?k (?k e)]] = Inr (?k (?k e))" by (simp add: tree_root_def)
    show "tree_verify ?k [] (?k (?k e)) (?k (?k e))" by (simp add: tree_verify_def)
    show "mapM encode_tuple [?row] = Inr [e]" using enc(1) by (simp del: mapM_Inr_iff)
  qed (use enc leaf inj in simp_all)
qed

end
