(* ===== verification/BridgeLib.thy ===== *)
theory BridgeLib
  imports BatchTree Merge Files
begin

text \<open>
  \<^verbatim>\<open>toolkit/scripts/bridge/bridge_lib.py\<close>: addresses, the ABI texts of LayerZero messages, the search for the block in which a
  contract was deployed, and the collection of logs over block ranges. An RPC endpoint is a parameter: the answer to a call. The error
  that a call returns is the text that \<^verbatim>\<open>json.dumps\<close> gives for it. The loops over block numbers are partial functions where the code
  would not end on a wrong range; that they return on the ranges the code gives them is proved.
\<close>

section \<open>Addresses\<close>

definition HARMONY :: string where "HARMONY = ''harmony''"

definition NATIVE :: string where "NATIVE = ''native''"

definition bridge_address :: "string \<Rightarrow> string result" where
  "bridge_address value = of_option (ValueError ''invalid address'') (any_to_hex value)"

definition is_native :: "string \<Rightarrow> bool" where
  "is_native value \<longleftrightarrow> value = NATIVE"

definition RESERVED_LOW_ADDRESS_LIMIT :: int where "RESERVED_LOW_ADDRESS_LIMIT = 65535"

definition reserved_address_reason :: "string \<Rightarrow> string option result" where
  "reserved_address_reason value =
     (let raw = lower (drop 2 value) in
      bindR (address_int raw) (\<lambda>n.
        Inr (if n \<le> RESERVED_LOW_ADDRESS_LIMIT then Some ''reserved low address (precompile or system contract)''
             else if length (remdups raw) = 1 then Some ''placeholder address with one repeated digit''
             else None)))"

text \<open>Evaluation of \<open>address_int\<close> on binary integers.\<close>

fun hex_value_int :: "int \<Rightarrow> string \<Rightarrow> int option" where
  "hex_value_int acc [] = Some acc"
| "hex_value_int acc (c # cs) = (case hex_digit_value c of None \<Rightarrow> None | Some d \<Rightarrow> hex_value_int (16 * acc + int d) cs)"

lemma hex_value_int: "map_option int (hex_value_acc acc s) = hex_value_int (int acc) s"
  by (induction s arbitrary: acc) (auto split: option.splits)

lemma address_int_code [code]:
  "address_int addr = of_option (ValueError ''invalid literal for int()'')
     (let b = (if startswith (lower addr) ''0x'' then drop 2 addr else addr) in if b = [] then None else hex_value_int 0 b)"
  using hex_value_int [of 0] by (simp add: address_int_def hex_int_def Let_def)

section \<open>ABI texts\<close>

fun hex_text :: "nat \<Rightarrow> string" where
  "hex_text n = (if n < 16 then [hex_char n] else hex_text (n div 16) @ [hex_char (n mod 16)])"

declare hex_text.simps [simp del]

text \<open>\<^verbatim>\<open>format(int(value), "064x")\<close>: the sign counts in the width.\<close>

definition hex_word :: "int \<Rightarrow> string" where
  "hex_word value =
     (let h = hex_text (nat \<bar>value\<bar>) in
      if value < 0 then CHR ''-'' # replicate (63 - length h) (CHR ''0'') @ h
      else replicate (64 - length h) (CHR ''0'') @ h)"

definition address_word :: "string \<Rightarrow> string result" where
  "address_word value =
     bindR (bridge_address value) (\<lambda>a. Inr (replicate (64 - length (drop 2 a)) (CHR ''0'') @ drop 2 a))"

definition strip_0x :: "string \<Rightarrow> string" where
  "strip_0x s = (if startswith s ''0x'' then drop 2 s else s)"

definition encode_bytes_argument :: "string \<Rightarrow> string" where
  "encode_bytes_argument data_hex =
     (let raw = strip_0x data_hex in
      hex_word (int (length raw div 2)) @ raw @ replicate ((length raw + 63) div 64 * 64 - length raw) (CHR ''0''))"

definition inbound_nonce_data :: "string \<Rightarrow> int \<Rightarrow> string \<Rightarrow> string \<Rightarrow> string result" where
  "inbound_nonce_data selector source_lz_chain_id source_app destination_app =
     bindR (bridge_address source_app) (\<lambda>a. bindR (bridge_address destination_app) (\<lambda>b.
       Inr (selector @ hex_word source_lz_chain_id @ hex_word 64 @ encode_bytes_argument (drop 2 a @ drop 2 b))))"

definition outbound_nonce_data :: "string \<Rightarrow> int \<Rightarrow> string \<Rightarrow> string result" where
  "outbound_nonce_data selector destination_lz_chain_id source_app =
     bindR (address_word source_app) (\<lambda>w. Inr (selector @ hex_word destination_lz_chain_id @ w))"

definition decode_dynamic_bytes :: "string \<Rightarrow> nat \<Rightarrow> string option result" where
  "decode_dynamic_bytes data offset_word =
     (let raw = strip_0x data; words = slices 64 raw in
      if length words \<le> offset_word then Inr None
      else
        bindR (address_int (words ! offset_word)) (\<lambda>offset.
        if offset mod 32 \<noteq> 0 then Inr None
        else
          let start = nat (offset div 32) in
          if length words \<le> start then Inr None
          else
            bindR (address_int (words ! start)) (\<lambda>n.
            let body = take (2 * nat n) (drop ((start + 1) * 64) raw) in
            Inr (if length body \<noteq> 2 * nat n then None else Some (''0x'' @ body)))))"

definition topic_address :: "string \<Rightarrow> string result" where
  "topic_address topic =
     (let raw = strip_0x topic in
      if length raw \<noteq> 64 \<or> take 24 raw \<noteq> replicate 24 (CHR ''0'') then Inl (ValueError ''topic is not an address'')
      else Inr (''0x'' @ lower (drop 24 raw)))"

definition packed_address :: "string option \<Rightarrow> string option" where
  "packed_address data_hex =
     (case data_hex of
        None \<Rightarrow> None
      | Some d \<Rightarrow> let raw = strip_0x d in if length raw \<noteq> 40 then None else Some (''0x'' @ lower raw))"

definition decode_oft_payload :: "string \<Rightarrow> (string option \<times> string option \<times> int) result" where
  "decode_oft_payload payload_hex =
     (let raw = strip_0x payload_hex; words = slices 64 raw;
          upstream = (if length words < 3 then Inl (ValueError ''unrecognized OFT payload layout'')
            else bindR (address_int (words ! 1)) (\<lambda>w1.
              if w1 \<noteq> 96 then Inl (ValueError ''unrecognized OFT payload layout'')
              else bindR (decode_dynamic_bytes payload_hex 1) (\<lambda>r.
                bindR (address_int (words ! 2)) (\<lambda>amount. Inr (None, packed_address r, amount)))))
      in if length words < 4 then upstream
         else
           bindR (address_int (words ! 1)) (\<lambda>w1.
           if w1 \<noteq> 128 then upstream
           else
             bindR (address_int (words ! 2)) (\<lambda>w2.
             if w2 < 160 then upstream
             else
               bindR (decode_dynamic_bytes payload_hex 1) (\<lambda>s.
               bindR (decode_dynamic_bytes payload_hex 2) (\<lambda>r.
               bindR (address_int (words ! 3)) (\<lambda>amount. Inr (packed_address s, packed_address r, amount)))))))"

section \<open>The deployment block\<close>

definition has_code :: "(int \<Rightarrow> string result) \<Rightarrow> int \<Rightarrow> bool result" where
  "has_code get_code block = bindR (get_code block) (\<lambda>c. Inr (c \<noteq> [] \<and> c \<noteq> ''0x''))"

function bisect_code :: "(int \<Rightarrow> string result) \<Rightarrow> int \<Rightarrow> int \<Rightarrow> int result" where
  "bisect_code get_code low high =
     (if low < high
      then let middle = (low + high) div 2 in
        bindR (has_code get_code middle) (\<lambda>b.
          if b then bisect_code get_code low middle else bisect_code get_code (middle + 1) high)
      else Inr low)"
  by pat_completeness auto
termination
  by (relation "measure (\<lambda>(g, low, high). nat (high - low))") auto

declare bisect_code.simps [simp del]

definition deployment_block :: "(int \<Rightarrow> string result) \<Rightarrow> int \<Rightarrow> int result" where
  "deployment_block get_code high =
     bindR (has_code get_code high) (\<lambda>b.
       if \<not> b then Inl (ValueError ''contract has no code'') else bisect_code get_code 0 high)"

section \<open>Logs\<close>

record 'a log_entry =
  lg_removed :: bool
  lg_data :: 'a

datatype 'a log_answer = LogList "'a log_entry list" | NotAList | LogError string

definition contains :: "string \<Rightarrow> string \<Rightarrow> bool" where
  "contains pat s \<longleftrightarrow> list_ex (\<lambda>i. take (length pat) (drop i s) = pat) [0..<Suc (length s)]"

definition is_rate_limited :: "string \<Rightarrow> bool" where
  "is_rate_limited error =
     (let message = lower error in
      list_ex (\<lambda>m. contains m message) [''rate limit'', ''rate-limit'', ''too many requests'', ''limit exceeded'', ''usage limit''] \<and>
      \<not> contains ''block range'' message \<and> \<not> contains ''blocks range'' message)"

text \<open>The first answer and up to six more while the endpoint limits the rate. The answers may differ from call to call.\<close>

fun retry_logs :: "(nat \<Rightarrow> 'a log_answer) \<Rightarrow> nat \<Rightarrow> nat \<Rightarrow> 'a log_answer" where
  "retry_logs call n 0 = call n"
| "retry_logs call n (Suc left) =
     (case call n of LogError e \<Rightarrow> if is_rate_limited e then retry_logs call (Suc n) left else LogError e | answer \<Rightarrow> answer)"

type_synonym 'a get_logs = "int \<Rightarrow> int \<Rightarrow> nat \<Rightarrow> 'a log_answer"

definition rpc_error :: "string \<Rightarrow> py_error" where
  "rpc_error = RuntimeError"

partial_function (option) logs_range :: "'a get_logs \<Rightarrow> int \<Rightarrow> int \<Rightarrow> 'a log_entry list result option" where
  "logs_range get_logs start stop =
     (case retry_logs (get_logs start stop) 0 6 of
        LogList items \<Rightarrow> Some (if list_ex lg_removed items then Inl (rpc_error ''RPC returned a removed log'') else Inr items)
      | _ \<Rightarrow>
          if start = stop then Some (Inl (rpc_error ''eth_getLogs failed''))
          else
            let middle = start + (stop - start) div 2 in
            Option.bind (logs_range get_logs start middle) (\<lambda>left.
              case left of
                Inl e \<Rightarrow> Some (Inl e)
              | Inr xs \<Rightarrow>
                  Option.bind (logs_range get_logs (middle + 1) stop) (\<lambda>right.
                    Some (bindR right (\<lambda>ys. Inr (xs @ ys))))))"

partial_function (option) log_ranges :: "int \<Rightarrow> int \<Rightarrow> int \<Rightarrow> (int \<times> int) list option" where
  "log_ranges range_size start to_block =
     (if start \<le> to_block
      then let stop = min to_block (start + range_size - 1) in
        Option.bind (log_ranges range_size (stop + 1) to_block) (\<lambda>rest. Some ((start, stop) # rest))
      else Some [])"

fun collect_logs :: "'a get_logs \<Rightarrow> (int \<times> int) list \<Rightarrow> 'a log_entry list result option" where
  "collect_logs get_logs [] = Some (Inr [])"
| "collect_logs get_logs ((start, stop) # rest) =
     Option.bind (logs_range get_logs start stop) (\<lambda>part.
       case part of
         Inl e \<Rightarrow> Some (Inl e)
       | Inr xs \<Rightarrow> map_option (\<lambda>r. bindR r (\<lambda>ys. Inr (xs @ ys))) (collect_logs get_logs rest))"

definition logs :: "'a get_logs \<Rightarrow> int \<Rightarrow> int \<Rightarrow> int \<Rightarrow> 'a log_entry list result option" where
  "logs get_logs from_block to_block range_size =
     Option.bind (log_ranges range_size from_block to_block) (\<lambda>ranges.
       case ranges of
         [(start, stop)] \<Rightarrow> logs_range get_logs start stop
       | _ \<Rightarrow> collect_logs get_logs ranges)"

section \<open>Outputs\<close>

definition prepare_outputs :: "files \<Rightarrow> bool \<Rightarrow> string list \<Rightarrow> unit result" where
  "prepare_outputs fs replace paths =
     bindR (mapM (\<lambda>path.
       if fs (partial path) \<noteq> None then Inl (FileExistsError (partial path))
       else if fs path \<noteq> None \<and> \<not> replace then Inl (FileExistsError path)
       else Inr ()) paths) (\<lambda>_. Inr ())"

text \<open>\<^verbatim>\<open>write_csv\<close>, \<^verbatim>\<open>write_json\<close> and \<^verbatim>\<open>write_text\<close>: the content goes to the partial file, which must be new, and takes the place of
  the output.\<close>

definition write_output :: "files \<Rightarrow> string \<Rightarrow> string \<Rightarrow> files \<times> string result" where
  "write_output fs path content =
     (if fs (partial path) \<noteq> None then (fs, Inl (FileExistsError (partial path)))
      else (fs(path \<mapsto> content), Inr (text_sha256 content)))"

definition read_csv :: "files \<Rightarrow> string \<Rightarrow> csv_row list result" where
  "read_csv fs path = bindR (read_text fs path) (\<lambda>content. Inr (dict_reader content))"

section \<open>The search finds the first block with code\<close>

lemma bisect_code_first:
  assumes "low \<le> high" "\<forall>b. low \<le> b \<and> b \<le> high \<longrightarrow> has_code g b = Inr (P b)" "P high"
    "\<forall>b b'. low \<le> b \<and> b \<le> b' \<and> b' \<le> high \<and> P b \<longrightarrow> P b'"
  shows "\<exists>b. bisect_code g low high = Inr b \<and> low \<le> b \<and> b \<le> high \<and> (\<forall>b'. low \<le> b' \<and> b' \<le> high \<longrightarrow> (P b' \<longleftrightarrow> b \<le> b'))"
  using assms
proof (induction g low high rule: bisect_code.induct)
  case (1 g low high)
  show ?case
  proof (cases "low < high")
    case True
    let ?m = "(low + high) div 2"
    have lt: "low \<le> ?m" "?m < high" using True by auto
    then have m: "low \<le> ?m" "?m < high" "has_code g ?m = Inr (P ?m)" using 1(4) by (blast intro: less_imp_le)+
    show ?thesis
    proof (cases "P ?m")
      case pm: True
      have "\<exists>b. bisect_code g low ?m = Inr b \<and> low \<le> b \<and> b \<le> ?m \<and> (\<forall>b'. low \<le> b' \<and> b' \<le> ?m \<longrightarrow> (P b' \<longleftrightarrow> b \<le> b'))"
        by (rule 1(1) [OF True refl m(3) pm]) (use m pm 1(4, 6) in auto)
      then obtain b where b: "bisect_code g low ?m = Inr b" "low \<le> b" "b \<le> ?m" "\<forall>b'. low \<le> b' \<and> b' \<le> ?m \<longrightarrow> (P b' \<longleftrightarrow> b \<le> b')" by blast
      have "P b' \<longleftrightarrow> b \<le> b'" if "low \<le> b'" "b' \<le> high" for b'
      proof (cases "b' \<le> ?m")
        case False
        then have "?m \<le> b'" by simp
        then have "P b'" using 1(6) pm m(1) that by blast
        then show ?thesis using \<open>?m \<le> b'\<close> b(3) by simp
      qed (use b(4) that in blast)
      then show ?thesis using True m b by (subst bisect_code.simps) (auto simp: pm Let_def)
    next
      case npm: False
      have "\<exists>b. bisect_code g (?m + 1) high = Inr b \<and> ?m + 1 \<le> b \<and> b \<le> high \<and> (\<forall>b'. ?m + 1 \<le> b' \<and> b' \<le> high \<longrightarrow> (P b' \<longleftrightarrow> b \<le> b'))"
      proof (rule 1(2) [OF True refl m(3) npm])
        show "?m + 1 \<le> high" using m(2) by linarith
        have above: "low \<le> b" if "?m + 1 \<le> b" for b using that m(1) by linarith
        show "\<forall>b. ?m + 1 \<le> b \<and> b \<le> high \<longrightarrow> has_code g b = Inr (P b)" using 1(4) above by blast
        show "\<forall>b b'. ?m + 1 \<le> b \<and> b \<le> b' \<and> b' \<le> high \<and> P b \<longrightarrow> P b'" using 1(6) above by blast
      qed (rule 1(5))
      then obtain b where b: "bisect_code g (?m + 1) high = Inr b" "?m + 1 \<le> b" "b \<le> high"
        "\<forall>b'. ?m + 1 \<le> b' \<and> b' \<le> high \<longrightarrow> (P b' \<longleftrightarrow> b \<le> b')" by blast
      have "P b' \<longleftrightarrow> b \<le> b'" if "low \<le> b'" "b' \<le> high" for b'
      proof (cases "?m + 1 \<le> b'")
        case False
        then have "\<not> P b'" using 1(6) npm m that by (metis less_imp_le zle_add1_eq_le not_le)
        then show ?thesis using False b(2) by linarith
      qed (use b(4) that in blast)
      then show ?thesis using True m b by (subst bisect_code.simps) (auto simp: npm Let_def)
    qed
  next
    case False
    then show ?thesis using 1(3, 5) by (subst bisect_code.simps) auto
  qed
qed

text \<open>C38. The search for the deployment block ends at the first block that has the contract's code, when the endpoint answers for every block
  up to \<open>high\<close>, the contract has code at \<open>high\<close>, and it keeps its code once it has it.\<close>

theorem deployment_block_first:
  assumes "0 \<le> high" "\<forall>b. 0 \<le> b \<and> b \<le> high \<longrightarrow> has_code get_code b = Inr (P b)" "P high"
    and "\<forall>b b'. 0 \<le> b \<and> b \<le> b' \<and> b' \<le> high \<and> P b \<longrightarrow> P b'"
  shows "\<exists>b. deployment_block get_code high = Inr b \<and> 0 \<le> b \<and> b \<le> high \<and> (\<forall>b'. 0 \<le> b' \<and> b' \<le> high \<longrightarrow> (P b' \<longleftrightarrow> b \<le> b'))"
  using bisect_code_first [OF assms] assms(1-3) by (simp add: deployment_block_def)

theorem deployment_block_first_witness:
  "\<exists>b. deployment_block (\<lambda>b. Inr (if b < 37 then ''0x'' else ''0x60'')) 1000 = Inr b \<and> 0 \<le> b \<and> b \<le> 1000 \<and>
     (\<forall>b'. 0 \<le> b' \<and> b' \<le> 1000 \<longrightarrow> (37 \<le> b' \<longleftrightarrow> b \<le> b'))"
  by (rule deployment_block_first) (auto simp: has_code_def)

section \<open>Splitting ranges keeps the logs\<close>

text \<open>
  What the code relies on: an answer with a list has the logs of its range, in block order and none of them removed, and a single block is answered
  within the retries.
\<close>

definition log_endpoint :: "'a get_logs \<Rightarrow> (int \<Rightarrow> 'a log_entry list) \<Rightarrow> bool" where
  "log_endpoint get_logs chain \<longleftrightarrow>
     (\<forall>start stop n items. start \<le> stop \<and> get_logs start stop n = LogList items \<longrightarrow> items = concat (map chain [start..stop])) \<and>
     (\<forall>b. \<not> list_ex lg_removed (chain b)) \<and> (\<forall>b. \<exists>items. retry_logs (get_logs b b) 0 6 = LogList items)"

lemma retry_answer:
  "log_endpoint get_logs chain \<Longrightarrow> retry_logs (get_logs start stop) n left = LogList items \<Longrightarrow> start \<le> stop \<Longrightarrow>
   items = concat (map chain [start..stop])"
  by (induction left arbitrary: n) (auto simp: log_endpoint_def split: log_answer.splits if_splits)

lemma none_removed: "log_endpoint get_logs chain \<Longrightarrow> \<not> list_ex lg_removed (concat (map chain bs))"
  by (induction bs) (auto simp: log_endpoint_def)

lemma logs_range_complete:
  assumes "log_endpoint get_logs chain"
  shows "start \<le> stop \<Longrightarrow> logs_range get_logs start stop = Some (Inr (concat (map chain [start..stop])))"
proof (induction "nat (stop - start)" arbitrary: start stop rule: less_induct)
  case less
  show ?case
  proof (cases "\<exists>items. retry_logs (get_logs start stop) 0 6 = LogList items")
    case True
    then obtain items where items: "retry_logs (get_logs start stop) 0 6 = LogList items" by blast
    have "items = concat (map chain [start..stop])" using assms items less.prems by (rule retry_answer)
    then show ?thesis using none_removed [OF assms] by (subst logs_range.simps) (simp add: items)
  next
    case False
    let ?m = "start + (stop - start) div 2"
    have ne: "start \<noteq> stop" using False assms by (auto simp: log_endpoint_def)
    then have m: "start \<le> ?m" "?m < stop" using less.prems by auto
    have "logs_range get_logs start ?m = Some (Inr (concat (map chain [start..?m])))"
      "logs_range get_logs (?m + 1) stop = Some (Inr (concat (map chain [?m + 1..stop])))"
      using m by (auto intro!: less.hyps)
    moreover have "[start..stop] = [start..?m] @ [?m + 1..stop]" using m by (intro upto_split2) auto
    ultimately show ?thesis using False ne
      by (subst logs_range.simps) (auto simp: Let_def split: log_answer.splits)
  qed
qed

lemma collect_logs_complete:
  "log_endpoint get_logs chain \<Longrightarrow> \<forall>(s, e) \<in> set ranges. s \<le> e \<Longrightarrow>
   collect_logs get_logs ranges = Some (Inr (concat (map (\<lambda>(s, e). concat (map chain [s..e])) ranges)))"
  by (induction get_logs ranges rule: collect_logs.induct) (auto simp: logs_range_complete)

lemma log_ranges_cover:
  assumes "0 < width"
  shows "\<exists>rs. log_ranges width start stop = Some rs \<and> (\<forall>(s, e) \<in> set rs. s \<le> e) \<and> concat (map (\<lambda>(s, e). [s..e]) rs) = [start..stop]"
proof (induction "nat (stop + 1 - start)" arbitrary: start rule: less_induct)
  case less
  show ?case
  proof (cases "start \<le> stop")
    case True
    let ?e = "min stop (start + width - 1)"
    have e: "start \<le> ?e" "?e \<le> stop" using True assms by auto
    then obtain rs where rs: "log_ranges width (?e + 1) stop = Some rs" "\<forall>(s, e) \<in> set rs. s \<le> e" "concat (map (\<lambda>(s, e). [s..e]) rs) = [?e + 1..stop]"
      using less.hyps [of "?e + 1"] by fastforce
    have "[start..stop] = [start..?e] @ [?e + 1..stop]" using e by (intro upto_split2) auto
    then show ?thesis using True e rs by (subst log_ranges.simps) (auto simp: Let_def)
  next
    case False
    then show ?thesis by (subst log_ranges.simps) simp
  qed
qed

lemma concat_ranges: "concat (map (\<lambda>(s, e). concat (map chain [s..e])) rs) = concat (map chain (concat (map (\<lambda>(s, e). [s..e]) rs)))"
  by (induction rs) auto

text \<open>C37. The logs of a block range are complete, in block order and without repetition, however the endpoint makes the code split
  the range: with any positive range size, refused ranges and retries, the result is the logs of every block from the first to the last, provided that an
  answer with a list has exactly the logs of its range, none of them removed, and a single block is answered within the retries.\<close>

theorem logs_complete:
  assumes "log_endpoint get_logs chain" "0 < range_size"
  shows "logs get_logs from_block to_block range_size = Some (Inr (concat (map chain [from_block..to_block])))"
proof -
  obtain rs where rs: "log_ranges range_size from_block to_block = Some rs" "\<forall>(s, e) \<in> set rs. s \<le> e"
    "concat (map (\<lambda>(s, e). [s..e]) rs) = [from_block..to_block]" using log_ranges_cover [OF assms(2)] by blast
  have all: "collect_logs get_logs rs = Some (Inr (concat (map chain [from_block..to_block])))"
    using collect_logs_complete [OF assms(1) rs(2)] by (simp add: concat_ranges rs(3))
  show ?thesis
  proof (cases "\<exists>s e. rs = [(s, e)]")
    case True
    then obtain s e where se: "rs = [(s, e)]" by blast
    then have "[s..e] = [from_block..to_block]" "s \<le> e" using rs(2, 3) by auto
    then show ?thesis by (simp add: logs_def rs(1) se logs_range_complete [OF assms(1)])
  next
    case False
    then show ?thesis using all by (auto simp: logs_def rs(1) split: list.splits prod.splits)
  qed
qed

text \<open>The witness is an endpoint that limits the rate at first and refuses ranges of more than two blocks.\<close>

theorem logs_complete_witness:
  "logs (\<lambda>start stop n. if n = 0 then LogError ''429 Too Many Requests'' else if stop > start + 1 then LogError ''query exceeds block range''
      else LogList (map (\<lambda>b. \<lparr>lg_removed = False, lg_data = b\<rparr>) [start..stop])) 3 9 5 =
   Some (Inr (map (\<lambda>b. \<lparr>lg_removed = False, lg_data = b\<rparr>) [3..9]))"
proof -
  let ?log = "\<lambda>b :: int. \<lparr>lg_removed = False, lg_data = b\<rparr>"
  let ?get = "\<lambda>start stop n :: nat. if n = 0 then LogError ''429 Too Many Requests'' else if stop > start + 1 then LogError ''query exceeds block range''
      else LogList (map ?log [start..stop])"
  have six: "(6 :: nat) = Suc 5" by simp
  have "is_rate_limited ''429 Too Many Requests''" by code_simp
  then have "retry_logs (?get b b) 0 6 = LogList [?log b]" for b unfolding six by (simp add: numeral_eq_Suc)
  moreover have "concat (map (\<lambda>b. [?log b]) bs) = map ?log bs" for bs by (induction bs) simp_all
  ultimately have "log_endpoint ?get (\<lambda>b. [?log b])" unfolding log_endpoint_def by (auto split: if_splits)
  from logs_complete [OF this, of 5 3 9] show ?thesis by simp
qed

section \<open>Messages decode to what was encoded\<close>

lemma hex_text_props: "list_all is_hex (hex_text n)" "hex_text n \<noteq> []"
  by (induction n rule: hex_text.induct) (subst hex_text.simps, simp)+

lemma hex_value_acc_append:
  "hex_value_acc acc (xs @ ys) = (case hex_value_acc acc xs of None \<Rightarrow> None | Some v \<Rightarrow> hex_value_acc v ys)"
  by (induction xs arbitrary: acc) (auto split: option.splits)

lemma hex_value_text: "hex_value_acc 0 (hex_text n) = Some n"
proof (induction n rule: hex_text.induct)
  case (1 n)
  then show ?case by (subst hex_text.simps) (simp add: hex_value_acc_append mult.commute)
qed

lemma hex_value_zeros: "hex_value_acc 0 (replicate m (CHR ''0'') @ s) = hex_value_acc 0 s"
  by (induction m) (simp_all add: hex_digit_value_def is_digit_def)

lemma length_hex_text: "n < 16 ^ Suc m \<Longrightarrow> length (hex_text n) \<le> Suc m"
proof (induction m arbitrary: n)
  case (Suc m)
  show ?case
  proof (cases "n < 16")
    case False
    have "n div 16 < 16 ^ Suc m" using Suc.prems by (simp add: less_mult_imp_div_less mult.commute)
    then show ?thesis using Suc.IH False by (subst hex_text.simps) simp
  qed (subst hex_text.simps, simp)
qed (subst hex_text.simps, simp)

lemma hex_word_props:
  assumes "0 \<le> n" "n < 16 ^ 64"
  shows "length (hex_word n) = 64" "address_int (hex_word n) = Inr n" "list_all is_hex (hex_word n)"
proof -
  let ?h = "hex_text (nat n)"
  have w: "hex_word n = replicate (64 - length ?h) (CHR ''0'') @ ?h" using assms(1) by (simp add: hex_word_def Let_def)
  have "nat n < 16 ^ Suc 63" using assms by (simp add: nat_less_iff)
  then have "length ?h \<le> 64" using length_hex_text [of "nat n" 63] by simp
  then show "length (hex_word n) = 64" by (simp add: w)
  have "is_hex (CHR ''0'')" by (simp add: is_hex_def hex_digit_value_def is_digit_def)
  then show hex: "list_all is_hex (hex_word n)" using hex_text_props(1) [of "nat n"] by (auto simp: w list_all_iff)
  have "hex_word n \<noteq> []" using hex_text_props(2) by (simp add: w)
  then have "hex_int (hex_word n) = Some (nat n)" by (simp add: hex_int_lower [OF hex]) (simp add: w hex_value_zeros hex_value_text)
  then show "address_int (hex_word n) = Inr n" using assms(1) by (simp add: address_int_def)
qed

lemma slices_words: "\<forall>w \<in> set ws. length w = 64 \<Longrightarrow> slices 64 (concat ws @ rest) = ws @ slices 64 rest"
proof (induction ws)
  case (Cons w ws)
  then show ?case using slices_step [of 64 "w @ concat ws @ rest"] by (cases w) auto
qed simp

lemma decode_dynamic_at:
  assumes "\<forall>w \<in> set ws. length w = 64" "k < length ws" "ws ! k = hex_word (32 * int (length ws))" "32 * int (length ws) < 16 ^ 64"
    and "int n < 16 ^ 64" "length body = 2 * n" "strip_0x data = concat ws @ hex_word (int n) @ body @ rest"
  shows "decode_dynamic_bytes data k = Inr (Some (''0x'' @ body))"
proof -
  note offset = hex_word_props [of "32 * int (length ws)", OF _ assms(4), simplified]
  note len = hex_word_props [of "int n", OF _ assms(5), simplified]
  have words: "slices 64 (strip_0x data) = ws @ hex_word (int n) # slices 64 (body @ rest)"
    using slices_words [of "ws @ [hex_word (int n)]" "body @ rest"] assms(1) len(1) by (simp add: assms(7))
  have "length (concat ws) = 64 * length ws" using assms(1) by (induction ws) auto
  then have "drop ((length ws + 1) * 64) (strip_0x data) = body @ rest" using len(1) by (simp add: assms(7))
  then show ?thesis
    using assms(2) unfolding decode_dynamic_bytes_def words Let_def
    by (simp add: nth_append assms(3, 6) offset(2) len(2))
qed

lemma hex_no_prefix: "list_all is_hex s \<Longrightarrow> strip_0x s = s"
proof -
  assume "list_all is_hex s"
  then have "\<not> startswith (lower s) ''0x''" by (rule lower_hex_prefix)
  then have "\<not> startswith s ''0x''" by (auto simp: startswith_def lower_def take_map lower_char_def is_upper_def)
  then show ?thesis by (simp add: strip_0x_def)
qed

lemma encode_packed:
  assumes "list_all is_hex a" "length a = 40"
  shows "encode_bytes_argument a = hex_word 20 @ a @ replicate 24 (CHR ''0'')"
  by (simp add: encode_bytes_argument_def hex_no_prefix [OF assms(1)] assms(2))

lemma strip_0x_prefix [simp]: "strip_0x (CHR ''0'' # CHR ''x'' # s) = s"
  by (simp add: strip_0x_def startswith_def)

lemma packed_hex: "length a = 40 \<Longrightarrow> packed_address (Some (CHR ''0'' # CHR ''x'' # a)) = Some (''0x'' @ lower a)"
  by (simp add: packed_address_def)

text \<open>A transfer message decodes to what was sent in both layouts: the sender and recipient packed into 20 bytes each by
  \<^verbatim>\<open>encode_bytes_argument\<close>, behind the head of Harmony's layout with two offsets or of the upstream layout with one, give back the
  addresses in lower case and the amount.\<close>

theorem oft_payload_roundtrip:
  assumes "list_all is_hex src" "length src = 40" "list_all is_hex dst" "length dst = 40"
    and "0 \<le> kind" "kind < 16 ^ 64" "0 \<le> amount" "amount < 16 ^ 64"
  shows "decode_oft_payload (''0x'' @ hex_word kind @ hex_word 128 @ hex_word 192 @ hex_word amount @ encode_bytes_argument src @ encode_bytes_argument dst) =
      Inr (Some (''0x'' @ lower src), Some (''0x'' @ lower dst), amount) \<and>
    decode_oft_payload (''0x'' @ hex_word kind @ hex_word 96 @ hex_word amount @ encode_bytes_argument dst) =
      Inr (None, Some (''0x'' @ lower dst), amount)"
proof
  let ?h = hex_word and ?pad = "replicate 24 (CHR ''0'')"
  note k = hex_word_props [OF assms(5, 6)] and a = hex_word_props [OF assms(7, 8)]
  have c: "length (?h 20) = 64" "length (?h 96) = 64" "length (?h 128) = 64" "length (?h 192) = 64"
    "address_int (?h 96) = Inr 96" "address_int (?h 128) = Inr 128" "address_int (?h 192) = Inr 192"
    by (simp_all add: hex_word_props)
  let ?p = "''0x'' @ ?h kind @ ?h 128 @ ?h 192 @ ?h amount @ encode_bytes_argument src @ encode_bytes_argument dst"
  have raw: "strip_0x ?p = concat [?h kind, ?h 128, ?h 192, ?h amount] @ ?h 20 @ src @ ?pad @ ?h 20 @ dst @ ?pad"
    by (simp add: encode_packed assms)
  have head: "slices 64 (strip_0x ?p) = [?h kind, ?h 128, ?h 192, ?h amount] @ slices 64 (?h 20 @ src @ ?pad @ ?h 20 @ dst @ ?pad)"
    unfolding raw by (rule slices_words) (simp add: k a c)
  have one: "decode_dynamic_bytes ?p 1 = Inr (Some (''0x'' @ src))"
    by (rule decode_dynamic_at [of "[?h kind, ?h 128, ?h 192, ?h amount]" 1 20 src _ "?pad @ ?h 20 @ dst @ ?pad"]) (use raw k a c assms in simp_all)
  have two: "decode_dynamic_bytes ?p 2 = Inr (Some (''0x'' @ dst))"
    by (rule decode_dynamic_at [of "[?h kind, ?h 128, ?h 192, ?h amount, ?h 20, src @ ?pad]" 2 20 dst _ ?pad])
      (use raw k a c assms in \<open>simp_all add: numeral_2_eq_2\<close>)
  show "decode_oft_payload ?p = Inr (Some (''0x'' @ lower src), Some (''0x'' @ lower dst), amount)"
    unfolding decode_oft_payload_def Let_def head one two
    by (simp add: c a(2) packed_hex assms numeral_2_eq_2 numeral_3_eq_3)
  let ?q = "''0x'' @ ?h kind @ ?h 96 @ ?h amount @ encode_bytes_argument dst"
  have raw': "strip_0x ?q = concat [?h kind, ?h 96, ?h amount] @ ?h 20 @ dst @ ?pad" by (simp add: encode_packed assms)
  have head': "slices 64 (strip_0x ?q) = [?h kind, ?h 96, ?h amount] @ slices 64 (?h 20 @ dst @ ?pad)"
    unfolding raw' by (rule slices_words) (simp add: k a c)
  have one': "decode_dynamic_bytes ?q 1 = Inr (Some (''0x'' @ dst))"
    by (rule decode_dynamic_at [of "[?h kind, ?h 96, ?h amount]" 1 20 dst _ ?pad]) (use raw' k a c assms in simp_all)
  show "decode_oft_payload ?q = Inr (None, Some (''0x'' @ lower dst), amount)"
    unfolding decode_oft_payload_def Let_def head' one'
    by (simp add: c a(2) packed_hex assms numeral_2_eq_2)
qed

theorem oft_payload_roundtrip_witness:
  "decode_oft_payload (''0x'' @ hex_word 0 @ hex_word 96 @ hex_word 7 @ encode_bytes_argument (replicate 40 (CHR ''A''))) =
     Inr (None, Some (''0x'' @ lower (replicate 40 (CHR ''A''))), 7)"
proof -
  have "is_hex (CHR ''A'')" by code_simp
  then have "list_all is_hex (replicate 40 (CHR ''A''))" by (simp add: list_all_iff)
  from oft_payload_roundtrip [OF this _ this, of 0 7] show ?thesis by simp
qed

end
