(* ===== verification/Allocations.thy ===== *)
theory Allocations
  imports BridgeLib Amounts "HOL-Library.Product_Lexorder" "HOL-Library.Option_ord"
begin

text \<open>
  \<^verbatim>\<open>toolkit/scripts/bridge/build-bridge-allocations.py\<close>: the collateral of each bridge pool is shared among the holders of the
  bridged token. Every account is claimable, held for review or excluded; claimable and held accounts share the collateral in proportion when it
  is not enough. The claims of all pools are added up per chain, payee and token. The route registry and the configuration are records
  with what \<^verbatim>\<open>load_routes\<close> and \<^verbatim>\<open>load_config\<close> return; the chain state and the snapshot plan are JSON documents.
\<close>

section \<open>Registry and configuration\<close>

record harmony_entry =
  he_proxy :: string
  he_token :: string

record route_pool =
  rp_pool_id :: string
  rp_kind :: string
  rp_chain :: string
  rp_symbol :: string
  rp_decimals :: int
  rp_claim_asset :: string
  rp_remote_adapter :: string
  rp_remote_token :: string
  rp_previous_remote_adapters :: "string list"
  rp_ignored_peers :: "string list"
  rp_ignored_remote_peers :: "string list"
  rp_harmony :: "harmony_entry list"

record routes =
  rt_endpoint :: string
  rt_wone :: string
  rt_chains :: "string list"
  rt_pools :: "route_pool list"
  rt_system_addresses :: "(string \<times> string \<times> string) list"

record bridge_config =
  bc_custody :: "(string \<times> string) list"
  bc_one_chain :: string
  bc_one_token :: string
  bc_reserve_safe :: string
  bc_one_custody :: "string option"
  bc_minimum :: int
  bc_minimum_by_pool :: "(string, int) dict"

definition claim_target :: "route_pool \<Rightarrow> bridge_config \<Rightarrow> string option \<times> string option" where
  "claim_target pool config =
     (if rp_claim_asset pool = ''escrow'' then (Some (rp_chain pool), Some (rp_remote_token pool))
      else if rp_claim_asset pool = ''one'' then (Some (bc_one_chain config), Some (bc_one_token config))
      else (None, None))"

definition setdefault :: "'k \<Rightarrow> 'v \<Rightarrow> ('k, 'v) dict \<Rightarrow> ('k, 'v) dict" where
  "setdefault k v d = (if dict_get d k = None then d @ [(k, v)] else d)"

definition setdefaults :: "('k \<times> 'v) list \<Rightarrow> ('k, 'v) dict \<Rightarrow> ('k, 'v) dict" where
  "setdefaults entries d = foldl (\<lambda>d (k, v). setdefault k v d) d entries"

definition pool_roles :: "string \<Rightarrow> route_pool \<Rightarrow> (string \<times> string) list" where
  "pool_roles chain pool =
     (if chain = rp_chain pool then
        (rp_remote_adapter pool, rp_pool_id pool @ '' remote adapter'') #
        map (\<lambda>a. (a, rp_pool_id pool @ '' previous adapter'')) (rp_previous_remote_adapters pool) @
        map (\<lambda>a. (a, rp_pool_id pool @ '' ignored remote peer'')) (rp_ignored_remote_peers pool) @
        (if is_native (rp_remote_token pool) then [] else [(rp_remote_token pool, rp_pool_id pool @ '' token'')])
      else []) @
     (if chain = HARMONY then
        map (\<lambda>a. (a, rp_pool_id pool @ '' ignored Harmony peer'')) (rp_ignored_peers pool) @
        concat (map (\<lambda>e. (he_proxy e, rp_pool_id pool @ '' Harmony proxy'') #
          (if is_native (he_token e) then [] else [(he_token e, rp_pool_id pool @ '' Harmony token'')])) (rp_harmony pool))
      else [])"

definition system_address_roles :: "routes \<Rightarrow> string \<Rightarrow> (string, string) dict" where
  "system_address_roles rts chain =
     setdefaults
       (map (\<lambda>(c, a, role). (a, role)) (filter (\<lambda>(c, a, role). c = ''*'' \<or> c = chain) (rt_system_addresses rts)) @
        concat (map (pool_roles chain) (rt_pools rts)) @
        (if chain = HARMONY then [(rt_endpoint rts, ''LayerZero endpoint''), (rt_wone rts, ''WONE contract'')] else [])) []"

definition system_roles :: "routes \<Rightarrow> bridge_config \<Rightarrow> (string, string) dict" where
  "system_roles rts config =
     setdefaults
       (concat (map (system_address_roles rts) (HARMONY # rt_chains rts)) @
        map (\<lambda>(chain, custody). (custody, chain @ '' custody multisig'')) (filter (\<lambda>(chain, custody). custody \<noteq> []) (bc_custody config)) @
        [(bc_reserve_safe config, ''supply reserve Safe'')] @
        (case bc_one_custody config of None \<Rightarrow> [] | Some a \<Rightarrow> if a = [] then [] else [(a, ''ONE custody multisig'')])) []"

section \<open>Holdings and collateral\<close>

definition join_path :: "string \<Rightarrow> string \<Rightarrow> string" where
  "join_path a b =
     (if startswith b ''/'' \<or> a = [] then b else if last a = CHR ''/'' then a @ b else a @ CHR ''/'' # b)"

definition get_amount :: "('k, int) dict \<Rightarrow> 'k \<Rightarrow> int" where
  "get_amount d k = (case dict_get d k of Some n \<Rightarrow> n | None \<Rightarrow> 0)"

definition add_amount :: "'k \<Rightarrow> int \<Rightarrow> ('k, int) dict \<Rightarrow> ('k, int) dict" where
  "add_amount k n d = dict_set k (get_amount d k + n) d"

definition add_holding :: "(string, int) dict \<Rightarrow> csv_row \<Rightarrow> (string, int) dict result" where
  "add_holding holdings r =
     bindR (bindR (value_field r ''address'') bridge_address) (\<lambda>account.
     bindR (int_of_field r ''balance_raw'') (\<lambda>n. Inr (add_amount account n holdings)))"

definition add_token :: "files \<Rightarrow> string \<Rightarrow> json \<Rightarrow> (string, int) dict \<Rightarrow> json \<Rightarrow> (string, int) dict result" where
  "add_token fs holders_dir number holdings token =
     bindR (bindR (json_item token ''stem'') json_text) (\<lambda>stem.
     let path = join_path holders_dir (stem @ ''.csv'') in
     bindR (bindR (read_text fs (join_path holders_dir (stem @ ''.summary.json''))) loads) (\<lambda>summary.
     bindR (json_get summary ''status'') (\<lambda>status.
     if status \<noteq> JStr ''passed'' then Inl (ValueError ''holder snapshot did not pass'')
     else
       bindR (json_get summary ''output_sha256'') (\<lambda>digest.
       bindR (read_text fs path) (\<lambda>content.
       if digest \<noteq> JStr (text_sha256 content) then Inl (ValueError ''holder CSV hash mismatch'')
       else
         bindR (bindR (json_item summary ''block'') json_int) (\<lambda>block.
         if JInt block \<noteq> number then Inl (ValueError ''holder snapshot block mismatch'')
         else foldM add_holding holdings (dict_reader content)))))))"

definition load_holdings :: "files \<Rightarrow> json \<Rightarrow> json \<Rightarrow> string \<Rightarrow> (string, int) dict result" where
  "load_holdings fs plan_pool number holders_dir =
     bindR (bindR (json_item plan_pool ''tokens'') json_list) (\<lambda>tokens.
       foldM (add_token fs holders_dir number) [] tokens)"

definition json_values :: "json \<Rightarrow> json list result" where
  "json_values j = (case j of JObj items \<Rightarrow> Inr (map snd items) | _ \<Rightarrow> Inl (AttributeError ''values''))"

definition int_or_zero :: "json \<Rightarrow> int result" where
  "int_or_zero j = (if json_falsy j then Inr 0 else json_int j)"

definition harmony_lock :: "json \<Rightarrow> int result" where
  "harmony_lock entry =
     bindR (bindR (json_item entry ''by_label'') (\<lambda>l. json_item l ''cutoff'')) (\<lambda>cutoff.
     bindR (json_item entry ''token'') (\<lambda>token.
     if token = JStr NATIVE then
       bindR (bindR (json_item cutoff ''native_balance'') json_int) (\<lambda>n.
       bindR (bindR (json_item cutoff ''wone_balance'') int_or_zero) (\<lambda>w. Inr (n + w)))
     else bindR (json_item cutoff ''proxy_token_balance'') int_or_zero))"

definition collateral_for :: "route_pool \<Rightarrow> json \<Rightarrow> (int \<times> string) result" where
  "collateral_for pool state =
     bindR (bindR (json_item state ''pools'') (\<lambda>ps. json_item ps (rp_pool_id pool))) (\<lambda>item.
     if rp_kind pool = ''remote_escrow'' then
       bindR (bindR (bindR (json_item item ''remote'') (\<lambda>r. json_item r ''by_label'')) (\<lambda>l. json_item l ''state'')) (\<lambda>values.
       bindR (json_item values ''escrow_balance'') (\<lambda>balance.
       bindR (bindR (json_item values ''previous_adapter_balances'') json_values) (\<lambda>previous.
       if JNull \<in> set (balance # previous) then Inl (ValueError ''escrow balance unreadable'')
       else bindR (mapM json_int (balance # previous)) (\<lambda>ns.
         Inr (sum_list ns, rp_chain pool @ '' escrow and previous escrows at state block'')))))
     else
       bindR (bindR (json_item item ''harmony'') json_list) (\<lambda>entries.
       bindR (mapM harmony_lock entries) (\<lambda>ns. Inr (sum_list ns, ''Harmony lock at cutoff (native ONE plus WONE)''))))"

section \<open>The status of an account\<close>

datatype alloc_status = Claimable | HeldMultisig | HeldOnewallet | HeldContract | HeldUnclassified | HeldReview
  | ExcludedSystem | ExcludedPolicy | BelowMinimum

fun status_text :: "alloc_status \<Rightarrow> string" where
  "status_text Claimable = ''claimable''"
| "status_text HeldMultisig = ''held_multisig''"
| "status_text HeldOnewallet = ''held_onewallet''"
| "status_text HeldContract = ''held_contract''"
| "status_text HeldUnclassified = ''held_unclassified''"
| "status_text HeldReview = ''held_review''"
| "status_text ExcludedSystem = ''excluded_system''"
| "status_text ExcludedPolicy = ''excluded_policy''"
| "status_text BelowMinimum = ''below_minimum''"

definition ELIGIBLE :: "alloc_status list" where
  "ELIGIBLE = [Claimable, HeldMultisig, HeldOnewallet, HeldContract, HeldUnclassified, HeldReview]"

definition KEY_CONTROLLED :: "string list" where
  "KEY_CONTROLLED = [''eoa'', ''eoa_7702'', ''validator_wrapper'', ''adjustment_target'']"

definition status_for :: "string option \<Rightarrow> string \<Rightarrow> string option \<Rightarrow> alloc_status \<times> string" where
  "status_for account_class holder_chain claim_chain =
     (if account_class \<in> Some ` set KEY_CONTROLLED then (Claimable, [])
      else if account_class = Some ''safe'' \<or> account_class = Some ''multisig'' then
        (if Some holder_chain = claim_chain then (Claimable, ''same contract on the claim chain'')
         else (HeldMultisig, ''multisig needs an approved claim-chain destination''))
      else if account_class = Some ''onewallet'' then (HeldOnewallet, ''1wallet needs an approved claim-chain destination'')
      else if account_class = Some ''contract'' \<or> account_class = Some ''smartvault'' then (HeldContract, ''contract holder needs review'')
      else (HeldUnclassified, ''account was not classified''))"

type_synonym class_table = "(string \<times> string, string option) dict"

definition chain_classes :: "class_table \<Rightarrow> string \<Rightarrow> (string \<times> string option) list" where
  "chain_classes classes account = map (\<lambda>((chain, a), c). (chain, c)) (filter (\<lambda>((chain, a), c). a = account) classes)"

definition contract_elsewhere :: "string \<Rightarrow> string \<Rightarrow> string option \<Rightarrow> class_table \<Rightarrow> (alloc_status \<times> string) option" where
  "contract_elsewhere account holder_chain claim_chain classes =
     (case filter (\<lambda>(chain, other). \<not> (chain = holder_chain \<or> other \<in> Some ` set KEY_CONTROLLED) \<and>
             fst (status_for other chain claim_chain) \<noteq> Claimable) (sort_key fst (chain_classes classes account)) of
        [] \<Rightarrow> None
      | (chain, other) # _ \<Rightarrow>
          let (status, reason) = status_for other chain claim_chain in
          Some (status, (case other of None \<Rightarrow> ''None'' | Some c \<Rightarrow> c) @ '' on '' @ chain @ '', no code on '' @ holder_chain @ '': '' @ reason))"

section \<open>Rows of a pool\<close>

record alloc_row =
  ar_pool_id :: string
  ar_claim_chain :: "string option"
  ar_claim_token :: "string option"
  ar_holder_chain :: string
  ar_snapshot_block :: json
  ar_account :: string
  ar_holding :: int
  ar_adjustment :: int
  ar_gross :: int
  ar_unrecovered :: int
  ar_class :: string
  ar_status :: alloc_status
  ar_payee :: string
  ar_allocation :: int
  ar_reason :: string

record exclusion =
  ex_chain :: string
  ex_reason :: string

record policy =
  py_classes :: class_table
  py_roles :: "(string, string) dict"
  py_exclusions :: "(string \<times> string, exclusion) dict"
  py_overrides :: "(string \<times> string, csv_row) dict"

definition lookup_pool :: "(string \<times> string, 'v) dict \<Rightarrow> string \<Rightarrow> string \<Rightarrow> 'v option" where
  "lookup_pool d pid account = (case dict_get d (pid, account) of Some v \<Rightarrow> Some v | None \<Rightarrow> dict_get d (''*'', account))"

definition apply_override :: "csv_row option \<Rightarrow> alloc_status \<times> string \<times> string \<Rightarrow> (alloc_status \<times> string \<times> string) result" where
  "apply_override override st =
     (case override of
        None \<Rightarrow> Inr st
      | Some r \<Rightarrow>
          (case st of (status, payee, reason0) \<Rightarrow>
          bindR (value_field r ''action'') (\<lambda>action.
          bindR (value_field r ''reason'') (\<lambda>reason.
          if action = ''claim'' then Inr (Claimable, payee, reason)
          else if action = ''redirect'' then
            bindR (bindR (value_field r ''destination'') bridge_address) (\<lambda>destination. Inr (Claimable, destination, reason))
          else if action = ''hold'' then Inr (HeldReview, payee, reason)
          else if action = ''exclude'' then Inr (ExcludedPolicy, payee, reason)
          else Inl (ValueError ''unknown override action'')))))"

definition base_status :: "policy \<Rightarrow> string \<Rightarrow> string option \<Rightarrow> string option \<Rightarrow> string \<Rightarrow> (alloc_status \<times> string) result" where
  "base_status policy holder_chain claim_chain account_class account =
     (let st = status_for account_class holder_chain claim_chain;
          st = (if account_class = Some ''eoa'' \<or> account_class = Some ''adjustment_target''
                then (case contract_elsewhere account holder_chain claim_chain (py_classes policy) of None \<Rightarrow> st | Some s \<Rightarrow> s) else st)
      in case dict_get (py_roles policy) account of
           Some role \<Rightarrow> Inr (ExcludedSystem, role)
         | None \<Rightarrow> bindR (reserved_address_reason account) (\<lambda>reserved.
             Inr (case reserved of None \<Rightarrow> st | Some reason \<Rightarrow> (ExcludedSystem, reason))))"

definition apply_exclusion :: "exclusion option \<Rightarrow> string \<Rightarrow> alloc_status \<times> string \<Rightarrow> alloc_status \<times> string" where
  "apply_exclusion exclusion holder_chain st =
     (case exclusion of
        Some e \<Rightarrow> if ex_chain e = ''*'' \<or> ex_chain e = holder_chain then (ExcludedPolicy, ex_reason e) else st
      | None \<Rightarrow> st)"

definition pool_row :: "policy \<Rightarrow> route_pool \<Rightarrow> string option \<times> string option \<Rightarrow> string \<times> json \<Rightarrow> (string, int) dict \<Rightarrow> (string, int) dict \<Rightarrow> string \<Rightarrow>
    alloc_row result" where
  "pool_row policy pool target snapshot holdings adjustments account =
     (let holder_chain = fst snapshot; holding = get_amount holdings account; adjustment = get_amount adjustments account; gross = holding + adjustment;
          given = Option.bind (dict_get (py_classes policy) (holder_chain, account)) id;
          account_class = (if given = None \<and> dict_get holdings account = None then Some ''adjustment_target'' else given)
      in bindR (base_status policy holder_chain (fst target) account_class account) (\<lambda>st.
         let st = apply_exclusion (lookup_pool (py_exclusions policy) (rp_pool_id pool) account) holder_chain st in
         bindR (apply_override (lookup_pool (py_overrides policy) (rp_pool_id pool) account) (fst st, account, snd st)) (\<lambda>(status, payee, reason).
              Inr \<lparr>ar_pool_id = rp_pool_id pool, ar_claim_chain = fst target, ar_claim_token = snd target, ar_holder_chain = holder_chain, ar_snapshot_block = snd snapshot,
                   ar_account = account, ar_holding = holding, ar_adjustment = adjustment, ar_gross = max 0 gross,
                   ar_unrecovered = (if gross < 0 then - gross else 0), ar_class = (case account_class of None \<Rightarrow> [] | Some c \<Rightarrow> c),
                   ar_status = status, ar_payee = payee, ar_allocation = 0, ar_reason = reason\<rparr>)))"

section \<open>Sharing the collateral\<close>

definition scale_of :: "int \<Rightarrow> int \<Rightarrow> int \<times> int" where
  "scale_of collateral eligible = (if eligible > collateral then (collateral, eligible) else (1, 1))"

definition share_row :: "int \<times> int \<Rightarrow> int \<Rightarrow> alloc_row \<Rightarrow> alloc_row result" where
  "share_row scale minimum row =
     (if ar_status row \<notin> set ELIGIBLE then Inr row
      else if snd scale = 0 then Inl ZeroDivisionError
      else
        let allocation = ar_gross row * fst scale div snd scale in
        if ar_status row = Claimable \<and> allocation < minimum
        then Inr (row\<lparr>ar_status := BelowMinimum, ar_reason := ''allocation below '' @ str_int minimum\<rparr>)
        else Inr (row\<lparr>ar_allocation := allocation\<rparr>))"

record pool_summary =
  sm_pool :: route_pool
  sm_claim_chain :: "string option"
  sm_claim_token :: "string option"
  sm_snapshot_chain :: string
  sm_snapshot_label :: json
  sm_snapshot_block :: json
  sm_collateral :: int
  sm_collateral_source :: string
  sm_holders :: int
  sm_holding :: int
  sm_adjustment :: int
  sm_excluded :: int
  sm_eligible :: int
  sm_scale :: "int \<times> int"
  sm_claimable :: int
  sm_held :: int
  sm_below_minimum :: int
  sm_retained :: int
  sm_surplus :: int
  sm_shortfall :: int
  sm_unrecovered :: int
  sm_claimable_accounts :: int
  sm_held_accounts :: int

definition is_held :: "alloc_row \<Rightarrow> bool" where
  "is_held row \<longleftrightarrow> startswith (status_text (ar_status row)) ''held_''"

definition is_excluded :: "alloc_row \<Rightarrow> bool" where
  "is_excluded row \<longleftrightarrow> startswith (status_text (ar_status row)) ''excluded_''"

definition sum_rows :: "(alloc_row \<Rightarrow> int) \<Rightarrow> (alloc_row \<Rightarrow> bool) \<Rightarrow> alloc_row list \<Rightarrow> int" where
  "sum_rows f P rows = sum_list (map f (filter P rows))"

definition pool_summary_of :: "route_pool \<Rightarrow> string option \<times> string option \<Rightarrow> string \<times> json \<times> json \<Rightarrow> (string, int) dict \<Rightarrow> (string, int) dict \<Rightarrow> int \<times> string \<Rightarrow>
    int \<Rightarrow> int \<times> int \<Rightarrow> alloc_row list \<Rightarrow> pool_summary" where
  "pool_summary_of pool target snapshot holdings adjustments collateral eligible scale rows =
     (let claimable = sum_rows ar_allocation (\<lambda>r. ar_status r = Claimable) rows;
          held = sum_rows ar_allocation is_held rows
      in \<lparr>sm_pool = pool, sm_claim_chain = fst target, sm_claim_token = snd target, sm_snapshot_chain = fst snapshot,
          sm_snapshot_label = fst (snd snapshot), sm_snapshot_block = snd (snd snapshot),
          sm_collateral = fst collateral, sm_collateral_source = snd collateral, sm_holders = int (length holdings),
          sm_holding = sum_list (dict_values holdings), sm_adjustment = sum_list (dict_values adjustments),
          sm_excluded = sum_rows ar_gross is_excluded rows, sm_eligible = eligible, sm_scale = scale,
          sm_claimable = claimable, sm_held = held,
          sm_below_minimum = sum_rows (\<lambda>r. ar_gross r * fst scale div snd scale) (\<lambda>r. ar_status r = BelowMinimum) rows,
          sm_retained = fst collateral - claimable - held, sm_surplus = max 0 (fst collateral - eligible),
          sm_shortfall = max 0 (eligible - fst collateral), sm_unrecovered = sum_rows ar_unrecovered (\<lambda>_. True) rows,
          sm_claimable_accounts = int (length (filter (\<lambda>r. ar_status r = Claimable) rows)),
          sm_held_accounts = int (length (filter is_held rows))\<rparr>)"

definition build_pool :: "files \<Rightarrow> policy \<Rightarrow> bridge_config \<Rightarrow> json \<Rightarrow> string \<Rightarrow> route_pool \<Rightarrow> json \<Rightarrow> (string, int) dict \<Rightarrow> int \<Rightarrow>
    (pool_summary \<times> alloc_row list) result" where
  "build_pool fs policy config state holders_dir pool plan_pool adjustments minimum =
     (let target = claim_target pool config in
      bindR (bindR (json_item plan_pool ''claimant_chain'') json_text) (\<lambda>holder_chain.
      bindR (bindR (json_item plan_pool ''snapshot_block'') (\<lambda>b. json_item b ''number'')) (\<lambda>number.
      bindR (load_holdings fs plan_pool number holders_dir) (\<lambda>holdings.
      bindR (collateral_for pool state) (\<lambda>collateral.
      let accounts = sort (remdups (dict_keys holdings @ dict_keys adjustments)) in
      bindR (mapM (pool_row policy pool target (holder_chain, number) holdings adjustments) accounts) (\<lambda>rows.
      let eligible = sum_rows ar_gross (\<lambda>r. ar_status r \<in> set ELIGIBLE) rows;
          scale = scale_of (fst collateral) eligible
      in bindR (mapM (share_row scale minimum) rows) (\<lambda>rows.
         bindR (json_item plan_pool ''snapshot_label'') (\<lambda>label.
           Inr (pool_summary_of pool target (holder_chain, label, number) holdings adjustments collateral eligible scale rows, rows)))))))))"

section \<open>The command\<close>

record alloc_args =
  aa_state :: string
  aa_plan :: string
  aa_messages :: string
  aa_messages_summary :: string
  aa_holders_dir :: string
  aa_classes :: string
  aa_exclusions :: string
  aa_overrides :: string
  aa_contract_review_policy :: string

definition add_adjustment :: "(string, (string, int) dict) dict \<Rightarrow> csv_row \<Rightarrow> (string, (string, int) dict) dict result" where
  "add_adjustment adjustments r =
     bindR (value_field r ''adjustment_account'') (\<lambda>account.
     if account = [] then Inr adjustments
     else
       bindR (int_of_field r ''adjustment_raw'') (\<lambda>n.
       if n = 0 then Inr adjustments
       else
         bindR (value_field r ''pool_id'') (\<lambda>key.
         bindR (bridge_address account) (\<lambda>a.
           let pool = (case dict_get adjustments key of Some d \<Rightarrow> d | None \<Rightarrow> [])
           in Inr (dict_set key (add_amount a n pool) adjustments)))))"

definition add_class :: "class_table \<Rightarrow> csv_row \<Rightarrow> class_table result" where
  "add_class classes r =
     bindR (value_field r ''chain'') (\<lambda>chain.
     bindR (bindR (value_field r ''address'') bridge_address) (\<lambda>a.
     bindR (field r ''class'') (\<lambda>c. Inr (dict_set (chain, a) c classes))))"

definition or_star :: "string \<Rightarrow> string" where
  "or_star s = (if s = [] then ''*'' else s)"

definition add_exclusion :: "(string \<times> string, exclusion) dict \<Rightarrow> csv_row \<Rightarrow> (string \<times> string, exclusion) dict result" where
  "add_exclusion exclusions r =
     bindR (bindR (value_field r ''address'') bridge_address) (\<lambda>a.
     bindR (value_field r ''reason'') (\<lambda>reason.
       Inr (dict_set (or_star (get_or_empty r ''pool_id''), a)
         \<lparr>ex_chain = or_star (get_or_empty r ''chain''), ex_reason = reason\<rparr> exclusions)))"

definition add_keyed :: "string list \<Rightarrow> (string \<times> string, csv_row) dict \<Rightarrow> csv_row \<Rightarrow> (string \<times> string, csv_row) dict result" where
  "add_keyed columns keyed r =
     (if \<exists>c \<in> set columns. dict_get r c = None then Inl (ValueError ''missing columns'')
      else
        bindR (bindR (value_field r ''address'') bridge_address) (\<lambda>a.
        let key = (or_star (get_or_empty r ''pool_id''), a) in
        if dict_get keyed key \<noteq> None then Inl (ValueError ''duplicate row'') else Inr (dict_set key r keyed)))"

definition load_keyed :: "files \<Rightarrow> string \<Rightarrow> string list \<Rightarrow> (string \<times> string, csv_row) dict result" where
  "load_keyed fs path columns =
     (if path = [] then Inr [] else bindR (read_csv fs path) (foldM (add_keyed columns) []))"

definition load_policy :: "files \<Rightarrow> alloc_args \<Rightarrow> routes \<Rightarrow> bridge_config \<Rightarrow> policy result" where
  "load_policy fs args rts config =
     bindR (bindR (read_csv fs (aa_classes args)) (foldM add_class [])) (\<lambda>classes.
     bindR (if aa_exclusions args = [] then Inr [] else bindR (read_csv fs (aa_exclusions args)) (foldM add_exclusion [])) (\<lambda>exclusions.
     bindR (load_keyed fs (aa_overrides args) [''address'', ''action'', ''destination'', ''reason'']) (\<lambda>overrides.
       Inr \<lparr>py_classes = classes, py_roles = system_roles rts config, py_exclusions = exclusions, py_overrides = overrides\<rparr>)))"

record alloc_result =
  al_pools :: "pool_summary list"
  al_rows :: "alloc_row list"
  al_unsupported :: "(string \<times> json \<times> int \<times> string) list"

definition pool_minimum :: "bridge_config \<Rightarrow> string \<Rightarrow> int" where
  "pool_minimum config pid = (case dict_get (bc_minimum_by_pool config) pid of Some n \<Rightarrow> n | None \<Rightarrow> bc_minimum config)"

definition message_complete :: "json \<Rightarrow> string \<Rightarrow> bool result" where
  "message_complete message_summary pid =
     bindR (json_item message_summary ''pools'') (\<lambda>ps.
     bindR (json_get ps pid) (\<lambda>entry.
     bindR (if entry = JNull then (if dict_get (case ps of JObj items \<Rightarrow> items | _ \<Rightarrow> []) pid = None then Inr JNull else Inl (AttributeError ''get''))
            else json_get entry ''status'') (\<lambda>status. Inr (status = JStr ''complete''))))"

definition add_pool :: "files \<Rightarrow> alloc_args \<Rightarrow> policy \<Rightarrow> bridge_config \<Rightarrow> json \<Rightarrow> json \<Rightarrow> json \<Rightarrow> (string, (string, int) dict) dict \<Rightarrow>
    alloc_result \<Rightarrow> route_pool \<Rightarrow> alloc_result result" where
  "add_pool fs args policy config state plan message_summary adjustments acc pool =
     (let pid = rp_pool_id pool in
      bindR (bindR (json_item plan ''pools'') (\<lambda>ps. json_item ps pid)) (\<lambda>plan_pool.
      bindR (json_item plan_pool ''status'') (\<lambda>status.
      if status = JStr ''unsupported'' then
        bindR (collateral_for pool state) (\<lambda>collateral.
        bindR (json_item plan_pool ''reason'') (\<lambda>reason.
          Inr (acc\<lparr>al_unsupported := al_unsupported acc @ [(pid, reason, collateral)]\<rparr>)))
      else if status \<noteq> JStr ''planned'' then Inl (ValueError ''snapshot plan status'')
      else
        bindR (message_complete message_summary pid) (\<lambda>ok.
        if \<not> ok then Inl (ValueError ''message scan is not complete'')
        else
          bindR (build_pool fs policy config state (aa_holders_dir args) pool plan_pool
            (case dict_get adjustments pid of Some d \<Rightarrow> d | None \<Rightarrow> []) (pool_minimum config pid)) (\<lambda>(summary, rows).
            Inr (acc\<lparr>al_pools := al_pools acc @ [summary], al_rows := al_rows acc @ rows\<rparr>))))))"

definition review_expected :: "(string, csv_row) dict \<Rightarrow> route_pool \<Rightarrow> int result" where
  "review_expected review pool =
     foldM (\<lambda>n e.
       bindR (of_option (ValueError ''missing from contract review'') (dict_get review (he_proxy e))) (\<lambda>r.
       bindR (bindR (value_field r ''native_total_claim_one'') one_str_to_atto) (\<lambda>v. Inr (n + v)))) 0 (rp_harmony pool)"

definition check_review :: "files \<Rightarrow> alloc_args \<Rightarrow> pool_summary list \<Rightarrow> unit result" where
  "check_review fs args pools =
     (if aa_contract_review_policy args = [] then Inr ()
      else
        bindR (bindR (read_csv fs (aa_contract_review_policy args)) (foldM (\<lambda>d r.
          bindR (bindR (value_field r ''address'') bridge_address) (\<lambda>a. Inr (dict_set a r d))) [])) (\<lambda>review.
        bindR (mapM (\<lambda>s.
          if rp_claim_asset (sm_pool s) \<noteq> ''one'' then Inr ()
          else bindR (review_expected review (sm_pool s)) (\<lambda>expected.
            if expected \<noteq> sm_collateral s then Inl (ValueError ''collateral does not match the migration ledger'') else Inr ())) pools)
          (\<lambda>_. Inr ())))"

definition allocate :: "files \<Rightarrow> alloc_args \<Rightarrow> routes \<Rightarrow> bridge_config \<Rightarrow> alloc_result result" where
  "allocate fs args rts config =
     bindR (bindR (read_text fs (aa_state args)) loads) (\<lambda>state.
     bindR (bindR (read_text fs (aa_plan args)) loads) (\<lambda>plan.
     bindR (bindR (read_text fs (aa_messages_summary args)) loads) (\<lambda>message_summary.
     bindR (json_get message_summary ''status'') (\<lambda>status.
     if status \<noteq> JStr ''passed'' then Inl (ValueError ''message scan did not pass; resolve incomplete pools first'')
     else
       bindR (json_get message_summary ''output_sha256'') (\<lambda>digest.
       bindR (read_text fs (aa_messages args)) (\<lambda>messages.
       if digest \<noteq> JStr (text_sha256 messages) then Inl (ValueError ''messages CSV does not match its summary'')
       else
         bindR (foldM add_adjustment [] (dict_reader messages)) (\<lambda>adjustments.
         bindR (load_policy fs args rts config) (\<lambda>policy.
         bindR (foldM (add_pool fs args policy config state plan message_summary adjustments)
           \<lparr>al_pools = [], al_rows = [], al_unsupported = []\<rparr> (rt_pools rts)) (\<lambda>result.
         bindR (check_review fs args (al_pools result)) (\<lambda>_. Inr result))))))))))"

section \<open>Claim lists\<close>

type_synonym claim_key = "string option \<times> string \<times> string option"

definition add_claim_row :: "(claim_key, int \<times> string list) dict \<Rightarrow> alloc_row \<Rightarrow> (claim_key, int \<times> string list) dict" where
  "add_claim_row claims row =
     (if ar_status row \<noteq> Claimable \<or> ar_allocation row = 0 then claims
      else
        let key = (ar_claim_chain row, ar_payee row, ar_claim_token row);
            item = (case dict_get claims key of Some i \<Rightarrow> i | None \<Rightarrow> (0, []))
        in dict_set key (fst item + ar_allocation row, if ar_pool_id row \<in> set (snd item) then snd item else snd item @ [ar_pool_id row]) claims)"

definition claims_of :: "alloc_row list \<Rightarrow> (claim_key, int \<times> string list) dict" where
  "claims_of rows = foldl add_claim_row [] rows"

definition claim_chains :: "routes \<Rightarrow> bridge_config \<Rightarrow> string list" where
  "claim_chains rts config =
     sort (remdups (map (\<lambda>p. case fst (claim_target p config) of Some c \<Rightarrow> c | None \<Rightarrow> [])
       (filter (\<lambda>p. rp_claim_asset p \<noteq> ''unsupported'') (rt_pools rts))))"

text \<open>The sorted claims of a chain. Keys with and without a chain cannot be compared.\<close>

definition claim_list :: "(claim_key, int \<times> string list) dict \<Rightarrow> string \<Rightarrow> (string \<times> string option \<times> int \<times> string list) list result" where
  "claim_list claims chain =
     (if (\<exists>e \<in> set claims. fst (fst e) = None) \<and> (\<exists>e \<in> set claims. fst (fst e) \<noteq> None) then Inl (TypeError ''<'')
      else Inr (map (\<lambda>((c, payee, token), amount, pools). (payee, token, amount, sort pools))
        (filter (\<lambda>((c, payee, token), v). c = Some chain) (sort_key fst claims))))"

definition claim_csv :: "(string \<times> string option \<times> int \<times> string list) list \<Rightarrow> string" where
  "claim_csv rows = csv_text ([''account'', ''token'', ''amount_raw'', ''pools''] #
     map (\<lambda>(account, token, amount, pools). [account, case token of Some t \<Rightarrow> t | None \<Rightarrow> [], str_int amount, join_with '';'' pools]) rows)"

section \<open>Proportional shares\<close>

lemma floor_shares:
  fixes gs :: "int list"
  assumes "\<forall>g \<in> set gs. 0 \<le> g" "0 \<le> c" "0 < E"
  shows "sum_list (map (\<lambda>g. g * c div E) gs) * E \<le> sum_list gs * c"
    "sum_list gs * c \<le> (sum_list (map (\<lambda>g. g * c div E) gs) + int (length gs)) * E" "0 \<le> sum_list (map (\<lambda>g. g * c div E) gs)"
proof -
  have each: "g * c div E * E \<le> g * c" "g * c \<le> (g * c div E + 1) * E" for g
  proof -
    have "g * c div E * E + g * c mod E = g * c" by (rule div_mult_mod_eq)
    moreover have "0 \<le> g * c mod E" "g * c mod E < E" using assms(3) by simp_all
    ultimately show "g * c div E * E \<le> g * c" "g * c \<le> (g * c div E + 1) * E"
      unfolding distrib_right mult_1 by linarith+
  qed
  show "sum_list (map (\<lambda>g. g * c div E) gs) * E \<le> sum_list gs * c"
  proof (induction gs)
    case (Cons g gs)
    then show ?case using each(1) [of g] by (simp add: algebra_simps)
  qed simp
  show "sum_list gs * c \<le> (sum_list (map (\<lambda>g. g * c div E) gs) + int (length gs)) * E"
  proof (induction gs)
    case (Cons g gs)
    then show ?case using each(2) [of g] by (simp add: algebra_simps)
  qed simp
  show "0 \<le> sum_list (map (\<lambda>g. g * c div E) gs)"
    using assms by (intro sum_list_nonneg_int) (simp add: pos_imp_zdiv_nonneg_iff)
qed

lemma scaled_total:
  assumes "\<forall>g \<in> set gs. 0 \<le> g" "0 \<le> c" "(num, den) = scale_of c (sum_list gs)"
  shows "0 < den" "0 \<le> num" "num \<le> den" "sum_list (map (\<lambda>g. g * num div den) gs) \<le> c - max 0 (c - sum_list gs)"
    "c - max 0 (c - sum_list gs) \<le> sum_list (map (\<lambda>g. g * num div den) gs) + int (length gs)"
proof -
  let ?E = "sum_list gs" and ?S = "sum_list (map (\<lambda>g. g * num div den) gs)"
  show d: "0 < den" "0 \<le> num" "num \<le> den" using assms(2, 3) by (auto simp: scale_of_def split: if_splits)
  have "?S \<le> c - max 0 (c - ?E) \<and> c - max 0 (c - ?E) \<le> ?S + int (length gs)"
  proof (cases "?E > c")
    case True
    then have nd: "num = c" "den = ?E" using assms(3) by (auto simp: scale_of_def)
    note f = floor_shares [OF assms(1, 2), of ?E]
    have "?S * ?E \<le> c * ?E" "c * ?E \<le> (?S + int (length gs)) * ?E" using f(1, 2) d(1) by (simp_all add: nd mult.commute)
    then have "?S \<le> c" "c \<le> ?S + int (length gs)" using d(1) by (simp_all add: nd)
    then show ?thesis using True by simp
  next
    case False
    then have "num = 1" "den = 1" using assms(3) by (auto simp: scale_of_def)
    then show ?thesis using False by simp
  qed
  then show "?S \<le> c - max 0 (c - ?E)" "c - max 0 (c - ?E) \<le> ?S + int (length gs)" by simp_all
qed

lemma held_statuses: "is_held r \<longleftrightarrow> ar_status r \<in> {HeldMultisig, HeldOnewallet, HeldContract, HeldUnclassified, HeldReview}"
  by (cases "ar_status r") (simp_all add: is_held_def startswith_def)

lemma excluded_statuses: "is_excluded r \<longleftrightarrow> ar_status r \<in> {ExcludedSystem, ExcludedPolicy}"
  by (cases "ar_status r") (simp_all add: is_excluded_def startswith_def)

lemma eligible_statuses: "ar_status r \<in> set ELIGIBLE \<longleftrightarrow> ar_status r = Claimable \<or> is_held r"
  by (cases "ar_status r") (simp_all add: ELIGIBLE_def held_statuses)

lemma status_for_cases: "fst (status_for c h t) \<notin> {BelowMinimum, ExcludedSystem}"
  by (simp add: status_for_def)

lemma contract_elsewhere_status: "contract_elsewhere a h t classes = Some (st, reason) \<Longrightarrow> st \<noteq> BelowMinimum"
  using status_for_cases by (auto simp: contract_elsewhere_def split: list.splits prod.splits) (metis fst_conv insert_iff)

lemma base_status_Inr: "base_status policy h t c a = Inr (st, reason) \<Longrightarrow> st \<noteq> BelowMinimum"
  using status_for_cases [of c h t] contract_elsewhere_status [of a h t "py_classes policy"]
  by (auto simp: base_status_def Let_def bindR_Inr_iff split: option.splits if_splits)

lemma apply_override_Inr: "apply_override ov (st, p, reason) = Inr (st', p', reason') \<Longrightarrow> st \<noteq> BelowMinimum \<Longrightarrow> st' \<noteq> BelowMinimum"
  by (auto simp: apply_override_def bindR_Inr_iff split: option.splits if_splits)

lemma pool_row_Inr:
  assumes "pool_row policy pool target h holdings adjustments a = Inr r"
  shows "ar_account r = a" "ar_status r \<noteq> BelowMinimum" "ar_allocation r = 0" "0 \<le> ar_gross r"
    "ar_gross r = max 0 (get_amount holdings a + get_amount adjustments a)" "ar_pool_id r = rp_pool_id pool"
    "ar_claim_chain r = fst target" "ar_claim_token r = snd target"
proof -
  from assms obtain c st where st: "base_status policy (fst h) (fst target) c a = Inr st"
    and ov: "apply_override (lookup_pool (py_overrides policy) (rp_pool_id pool) a)
        (fst (apply_exclusion (lookup_pool (py_exclusions policy) (rp_pool_id pool) a) (fst h) st), a,
         snd (apply_exclusion (lookup_pool (py_exclusions policy) (rp_pool_id pool) a) (fst h) st)) = Inr (ar_status r, ar_payee r, ar_reason r)"
    and r: "ar_account r = a" "ar_allocation r = 0" "ar_gross r = max 0 (get_amount holdings a + get_amount adjustments a)"
      "ar_pool_id r = rp_pool_id pool" "ar_claim_chain r = fst target" "ar_claim_token r = snd target"
    unfolding pool_row_def Let_def bindR_Inr_iff by (clarsimp split: prod.splits)
  have "fst (apply_exclusion e (fst h) st) \<noteq> BelowMinimum" for e
    using base_status_Inr [of policy "fst h" "fst target" c a "fst st" "snd st"] st by (simp add: apply_exclusion_def split: option.splits)
  then show "ar_status r \<noteq> BelowMinimum" using apply_override_Inr [OF ov] by blast
  show "0 \<le> ar_gross r" by (simp add: r(3))
  show "ar_account r = a" "ar_allocation r = 0" "ar_gross r = max 0 (get_amount holdings a + get_amount adjustments a)"
    "ar_pool_id r = rp_pool_id pool" "ar_claim_chain r = fst target" "ar_claim_token r = snd target" by (fact r)+
qed

lemma share_row_cases [consumes 1, case_names excluded below paid]:
  assumes "share_row (num, den) minimum r = Inr r'"
  obtains (excluded) "ar_status r \<notin> set ELIGIBLE" "r' = r"
    | (below) reason where "ar_status r = Claimable" "r' = r\<lparr>ar_status := BelowMinimum, ar_reason := reason\<rparr>"
    | (paid) "ar_status r \<in> set ELIGIBLE" "ar_status r = Claimable \<Longrightarrow> minimum \<le> ar_gross r * num div den"
        "r' = r\<lparr>ar_allocation := ar_gross r * num div den\<rparr>"
proof (cases "ar_status r \<in> set ELIGIBLE")
  case True
  with assms have den: "den \<noteq> 0" by (auto simp: share_row_def)
  show ?thesis
  proof (cases "ar_status r = Claimable \<and> ar_gross r * num div den < minimum")
    case small: True
    then show ?thesis using assms True den by (intro below) (auto simp: share_row_def Let_def)
  next
    case False
    then show ?thesis using assms True den by (intro paid) (auto simp: share_row_def Let_def)
  qed
next
  case False
  then show ?thesis using assms by (intro excluded) (simp_all add: share_row_def)
qed

lemma share_row_keeps:
  assumes "share_row (num, den) minimum r = Inr r'"
  shows "ar_gross r' = ar_gross r" "ar_account r' = ar_account r" "ar_pool_id r' = ar_pool_id r"
    "ar_claim_chain r' = ar_claim_chain r" "ar_claim_token r' = ar_claim_token r"
  using assms by (cases rule: share_row_cases; simp)+

lemma share_row_Inr:
  assumes "share_row (num, den) minimum r = Inr r'" "ar_status r \<noteq> BelowMinimum" "ar_allocation r = 0"
  shows "(if ar_status r' = Claimable then ar_allocation r' else 0) + (if is_held r' then ar_allocation r' else 0) +
      (if ar_status r' = BelowMinimum then ar_gross r' * num div den else 0) =
      (if ar_status r \<in> set ELIGIBLE then ar_gross r * num div den else 0) \<and>
    ar_allocation r' = (if ar_status r' = Claimable \<or> is_held r' then ar_gross r * num div den else 0) \<and>
    (ar_status r' = Claimable \<longrightarrow> minimum \<le> ar_allocation r') \<and> (\<not> is_excluded r' \<longleftrightarrow> ar_status r \<in> set ELIGIBLE)"
  using assms(1)
proof (cases rule: share_row_cases)
  case excluded
  then have "ar_status r = ExcludedSystem \<or> ar_status r = ExcludedPolicy" using assms(2) by (cases "ar_status r") (simp_all add: ELIGIBLE_def)
  then show ?thesis using excluded(2) assms(3) by (auto simp: held_statuses excluded_statuses ELIGIBLE_def)
next
  case (below reason)
  then show ?thesis using assms(3) by (simp add: held_statuses excluded_statuses ELIGIBLE_def)
next
  case paid
  have "ar_status r = Claimable \<and> \<not> is_held r' \<or> ar_status r \<noteq> Claimable \<and> is_held r'"
    using paid(1, 3) by (auto simp: held_statuses ELIGIBLE_def)
  moreover have "\<not> is_excluded r'" using paid(1, 3) by (auto simp: excluded_statuses ELIGIBLE_def)
  ultimately show ?thesis using paid assms(2) by auto
qed

section \<open>A pool never pays more than its collateral\<close>

definition fresh_row :: "alloc_row \<Rightarrow> bool" where
  "fresh_row r \<longleftrightarrow> ar_status r \<noteq> BelowMinimum \<and> ar_allocation r = 0 \<and> 0 \<le> ar_gross r"

lemma build_pool_Inr:
  assumes "build_pool fs policy config state holders_dir pool plan_pool adjustments minimum = Inr (s, rows)"
  obtains holdings h accounts rows0 num den where
    "accounts = sort (remdups (dict_keys holdings @ dict_keys adjustments))"
    "list_all2 (\<lambda>a r. pool_row policy pool (claim_target pool config) h holdings adjustments a = Inr r) accounts rows0"
    "list_all2 (\<lambda>r r'. fresh_row r \<and> share_row (num, den) minimum r = Inr r') rows0 rows"
    "(num, den) = scale_of (sm_collateral s) (sum_list (map ar_gross (filter (\<lambda>r. ar_status r \<in> set ELIGIBLE) rows0)))"
    "sm_claimable s = sum_rows ar_allocation (\<lambda>r. ar_status r = Claimable) rows" "sm_held s = sum_rows ar_allocation is_held rows"
    "sm_below_minimum s = sum_rows (\<lambda>r. ar_gross r * num div den) (\<lambda>r. ar_status r = BelowMinimum) rows"
    "sm_retained s = sm_collateral s - sm_claimable s - sm_held s"
    "sm_surplus s = max 0 (sm_collateral s - sum_list (map ar_gross (filter (\<lambda>r. ar_status r \<in> set ELIGIBLE) rows0)))"
    "sm_claim_chain s = fst (claim_target pool config)" "sm_claim_token s = snd (claim_target pool config)" "sm_pool s = pool"
proof -
  from assms obtain holdings h number label collateral rows0 where
    rows0: "mapM (pool_row policy pool (claim_target pool config) (h, number) holdings adjustments) (sort (remdups (dict_keys holdings @ dict_keys adjustments))) = Inr rows0"
    and rows: "mapM (share_row (scale_of (fst collateral) (sum_rows ar_gross (\<lambda>r. ar_status r \<in> set ELIGIBLE) rows0)) minimum) rows0 = Inr rows"
    and s: "s = pool_summary_of pool (claim_target pool config) (h, label, number) holdings adjustments collateral
      (sum_rows ar_gross (\<lambda>r. ar_status r \<in> set ELIGIBLE) rows0) (scale_of (fst collateral) (sum_rows ar_gross (\<lambda>r. ar_status r \<in> set ELIGIBLE) rows0)) rows"
    by (auto simp: build_pool_def Let_def bindR_Inr_iff simp del: mapM_Inr_iff)
  obtain num den where nd: "scale_of (fst collateral) (sum_rows ar_gross (\<lambda>r. ar_status r \<in> set ELIGIBLE) rows0) = (num, den)" by fastforce
  have all2: "list_all2 (\<lambda>a r. pool_row policy pool (claim_target pool config) (h, number) holdings adjustments a = Inr r)
      (sort (remdups (dict_keys holdings @ dict_keys adjustments))) rows0" using rows0 by (simp only: mapM_Inr_iff)
  have "fresh_row r" if mem: "r \<in> set rows0" for r
  proof -
    obtain a where "pool_row policy pool (claim_target pool config) (h, number) holdings adjustments a = Inr r" using mapM_mem [OF rows0 mem] by blast
    from pool_row_Inr(2-4) [OF this] show ?thesis by (simp add: fresh_row_def)
  qed
  then have "list_all2 (\<lambda>r r'. fresh_row r \<and> share_row (num, den) minimum r = Inr r') rows0 rows"
    using rows unfolding nd mapM_Inr_iff by (auto simp: list_all2_conv_all_nth)
  then show thesis using all2
    by (intro that [OF refl all2, of num den]) (simp_all add: s pool_summary_of_def Let_def nd sum_rows_def [symmetric])
qed

lemma pool_totals:
  assumes rows: "list_all2 (\<lambda>r r'. fresh_row r \<and> share_row (num, den) minimum r = Inr r') rows0 rows"
    and gs: "gs = map ar_gross (filter (\<lambda>r. ar_status r \<in> set ELIGIBLE) rows0)"
  shows "sum_rows ar_allocation (\<lambda>r. ar_status r = Claimable) rows + sum_rows ar_allocation is_held rows +
      sum_rows (\<lambda>r. ar_gross r * num div den) (\<lambda>r. ar_status r = BelowMinimum) rows = sum_list (map (\<lambda>g. g * num div den) gs)"
    "length gs = length (filter (\<lambda>r. \<not> is_excluded r) rows)"
proof -
  have "sum_list (map (\<lambda>r. (if ar_status r = Claimable then ar_allocation r else 0) + (if is_held r then ar_allocation r else 0) +
      (if ar_status r = BelowMinimum then ar_gross r * num div den else 0)) rows) =
      sum_list (map (\<lambda>r. if ar_status r \<in> set ELIGIBLE then ar_gross r * num div den else 0) rows0)"
    by (rule list_all2_sums [OF rows]) (auto simp: fresh_row_def dest: share_row_Inr)
  then show "sum_rows ar_allocation (\<lambda>r. ar_status r = Claimable) rows + sum_rows ar_allocation is_held rows +
      sum_rows (\<lambda>r. ar_gross r * num div den) (\<lambda>r. ar_status r = BelowMinimum) rows = sum_list (map (\<lambda>g. g * num div den) gs)"
    by (simp only: sum_list_map_add sum_list_if sum_rows_def gs map_map o_def)
  have "map (\<lambda>r. \<not> is_excluded r) rows = map (\<lambda>r. ar_status r \<in> set ELIGIBLE) rows0"
    by (rule list_all2_map_eq [OF rows]) (metis share_row_Inr fresh_row_def)
  then have "length (filter id (map (\<lambda>r. \<not> is_excluded r) rows)) = length (filter id (map (\<lambda>r. ar_status r \<in> set ELIGIBLE) rows0))" by simp
  then show "length gs = length (filter (\<lambda>r. \<not> is_excluded r) rows)" by (simp add: gs filter_map o_def)
qed

lemma sum_rows_nonneg: "(\<And>r. r \<in> set rows \<Longrightarrow> 0 \<le> f r) \<Longrightarrow> 0 \<le> sum_rows f P rows"
  unfolding sum_rows_def by (rule sum_list_nonneg_int) simp

section \<open>A pool with too little collateral\<close>

definition short_pool :: route_pool where
  "short_pool = \<lparr>rp_pool_id = ''p'', rp_kind = ''remote_escrow'', rp_chain = ''eth'', rp_symbol = ''T'', rp_decimals = 18, rp_claim_asset = ''escrow'',
     rp_remote_adapter = ''0xa'', rp_remote_token = ''0xt'', rp_previous_remote_adapters = [], rp_ignored_peers = [], rp_ignored_remote_peers = [],
     rp_harmony = []\<rparr>"

definition short_routes :: routes where
  "short_routes = \<lparr>rt_endpoint = ''0xe'', rt_wone = ''0xw'', rt_chains = [''eth''], rt_pools = [short_pool], rt_system_addresses = []\<rparr>"

definition short_config :: bridge_config where
  "short_config = \<lparr>bc_custody = [], bc_one_chain = ''eth'', bc_one_token = ''0xo'', bc_reserve_safe = ''0xs'', bc_one_custody = None, bc_minimum = 1,
     bc_minimum_by_pool = []\<rparr>"

definition short_state :: json where
  "short_state = JObj [(''pools'', JObj [(''p'', JObj [(''remote'', JObj [(''by_label'', JObj [(''state'',
     JObj [(''escrow_balance'', JStr ''20''), (''previous_adapter_balances'', JObj [])])])])])])]"

definition short_plan_pool :: json where
  "short_plan_pool = JObj [(''status'', JStr ''planned''), (''claimant_chain'', JStr ''harmony''), (''snapshot_block'', JObj [(''number'', JInt 7)]),
     (''snapshot_label'', JStr ''cutoff''), (''tokens'', JArr [])]"

definition short_messages :: string where
  "short_messages = csv_text [[''pool_id'', ''adjustment_account'', ''adjustment_raw''],
     [''p'', ''0x00000000000000000000000000000000ABCDEF01'', ''10''], [''p'', ''0x00000000000000000000000000000000abcdef02'', ''20'']]"

definition short_adjustments :: "(string, int) dict" where
  "short_adjustments = [(''0x00000000000000000000000000000000abcdef01'', 10), (''0x00000000000000000000000000000000abcdef02'', 20)]"

definition short_policy :: policy where
  "short_policy = \<lparr>py_classes = [], py_roles = system_roles short_routes short_config, py_exclusions = [], py_overrides = []\<rparr>"

lemma short_pool_built:
  "case build_pool fs short_policy short_config short_state dir short_pool short_plan_pool short_adjustments 1 of
     Inl _ \<Rightarrow> False
   | Inr (s, rows) \<Rightarrow> sm_collateral s = 20 \<and> sm_claimable s = 19 \<and> map ar_allocation rows = [6, 13] \<and>
       (case claim_list (claims_of rows) ''eth'' of Inl _ \<Rightarrow> False | Inr claims \<Rightarrow> length claims = 2)"
  by code_simp

lemma short_adjusted: "foldM add_adjustment [] (dict_reader short_messages) = Inr [(''p'', short_adjustments)]"
  by code_simp

lemma pool_bounds:
  assumes "build_pool fs policy config state holders_dir pool plan_pool adjustments minimum = Inr (s, rows)" "0 \<le> sm_collateral s"
  shows "sm_collateral s = sm_claimable s + sm_held s + sm_retained s \<and> 0 \<le> sm_claimable s \<and> 0 \<le> sm_held s \<and> 0 \<le> sm_surplus s \<and> 0 \<le> sm_below_minimum s \<and>
    sm_surplus s + sm_below_minimum s \<le> sm_retained s \<and>
    sm_retained s \<le> sm_surplus s + sm_below_minimum s + int (length (filter (\<lambda>r. \<not> is_excluded r) rows)) \<and>
    distinct (map ar_account rows) \<and>
    (\<forall>r \<in> set rows. 0 \<le> ar_allocation r \<and> ar_allocation r \<le> ar_gross r \<and>
       (ar_status r \<noteq> Claimable \<and> \<not> is_held r \<longrightarrow> ar_allocation r = 0) \<and> (ar_status r = Claimable \<longrightarrow> minimum \<le> ar_allocation r))"
proof -
  from assms(1) obtain holdings h accounts rows0 num den where acc: "accounts = sort (remdups (dict_keys holdings @ dict_keys adjustments))"
    and pr: "list_all2 (\<lambda>a r. pool_row policy pool (claim_target pool config) h holdings adjustments a = Inr r) accounts rows0"
    and sr: "list_all2 (\<lambda>r r'. fresh_row r \<and> share_row (num, den) minimum r = Inr r') rows0 rows"
    and sc: "(num, den) = scale_of (sm_collateral s) (sum_list (map ar_gross (filter (\<lambda>r. ar_status r \<in> set ELIGIBLE) rows0)))"
    and s: "sm_claimable s = sum_rows ar_allocation (\<lambda>r. ar_status r = Claimable) rows" "sm_held s = sum_rows ar_allocation is_held rows"
      "sm_below_minimum s = sum_rows (\<lambda>r. ar_gross r * num div den) (\<lambda>r. ar_status r = BelowMinimum) rows"
      "sm_retained s = sm_collateral s - sm_claimable s - sm_held s"
      "sm_surplus s = max 0 (sm_collateral s - sum_list (map ar_gross (filter (\<lambda>r. ar_status r \<in> set ELIGIBLE) rows0)))"
    by (rule build_pool_Inr)
  define gs where "gs = map ar_gross (filter (\<lambda>r. ar_status r \<in> set ELIGIBLE) rows0)"
  have fresh: "fresh_row r" if "r \<in> set rows0" for r using sr that by (auto simp: list_all2_conv_all_nth in_set_conv_nth)
  have "\<forall>g \<in> set gs. 0 \<le> g" using fresh by (auto simp: gs_def fresh_row_def)
  note t = scaled_total [OF this assms(2) sc [folded gs_def]]
  note p = pool_totals [OF sr gs_def]
  have each: "0 \<le> ar_allocation r \<and> ar_allocation r \<le> ar_gross r \<and> 0 \<le> ar_gross r * num div den \<and>
       (ar_status r \<noteq> Claimable \<and> \<not> is_held r \<longrightarrow> ar_allocation r = 0) \<and> (ar_status r = Claimable \<longrightarrow> minimum \<le> ar_allocation r)"
    if "r \<in> set rows" for r
  proof -
    obtain i where "i < length rows" "r = rows ! i" using \<open>r \<in> set rows\<close> by (auto simp: in_set_conv_nth)
    then obtain r0 where r0: "fresh_row r0" "share_row (num, den) minimum r0 = Inr r"
      using sr by (auto simp: list_all2_conv_all_nth)
    have gross: "ar_gross r = ar_gross r0" "0 \<le> ar_gross r0" using r0 share_row_keeps by (auto simp: fresh_row_def)
    have "ar_gross r0 * num div den \<le> ar_gross r0 * den div den" using t(1, 3) gross(2) by (intro zdiv_mono1 mult_left_mono) auto
    then have "ar_gross r0 * num div den \<le> ar_gross r0" "0 \<le> ar_gross r0 * num div den"
      using t(1, 2) gross(2) by (simp_all add: pos_imp_zdiv_nonneg_iff)
    then show ?thesis using share_row_Inr [OF r0(2)] r0(1) gross by (auto simp: fresh_row_def)
  qed
  have nonneg: "0 \<le> sm_claimable s" "0 \<le> sm_held s" "0 \<le> sm_below_minimum s" unfolding s using each by (auto intro!: sum_rows_nonneg)
  have "map ar_account rows0 = accounts" using pr by (induction rule: list_all2_induct) (auto dest: pool_row_Inr(1))
  moreover have "map ar_account rows = map ar_account rows0" by (rule list_all2_map_eq [OF sr]) (auto dest: share_row_keeps(2))
  ultimately have "distinct (map ar_account rows)" by (simp add: acc)
  moreover have "sm_surplus s + sm_below_minimum s \<le> sm_retained s"
    "sm_retained s \<le> sm_surplus s + sm_below_minimum s + int (length (filter (\<lambda>r. \<not> is_excluded r) rows))"
    using t(4, 5) p unfolding gs_def [symmetric] s(4, 5) by (simp_all add: s(1-3) gs_def [symmetric])
  moreover have "0 \<le> sm_surplus s" by (simp add: s(5))
  ultimately show ?thesis using nonneg each by (auto simp: s(4))
qed

lemma short_pool_run:
  "\<exists>s rows claims. build_pool fs short_policy short_config short_state dir short_pool short_plan_pool short_adjustments 1 = Inr (s, rows) \<and>
     sm_collateral s = 20 \<and> sm_claimable s = 19 \<and> claim_list (claims_of rows) ''eth'' = Inr claims \<and> length claims = 2"
proof -
  from short_pool_built [of fs dir] obtain s rows
    where pool: "build_pool fs short_policy short_config short_state dir short_pool short_plan_pool short_adjustments 1 = Inr (s, rows)"
    by (auto split: sum.splits)
  from short_pool_built [of fs dir] have "case claim_list (claims_of rows) ''eth'' of Inr claims \<Rightarrow>
      sm_collateral s = 20 \<and> sm_claimable s = 19 \<and> length claims = 2 | Inl e \<Rightarrow> False"
    by (simp add: pool split: sum.splits)
  with pool show ?thesis by (cases "claim_list (claims_of rows) ''eth''") auto
qed

text \<open>C21. A bridge pool never pays out more than its collateral. When a pool is built and its collateral is not negative, the claimable and the held
  amounts and what is retained add up to the collateral, none of them negative; what is retained is the surplus, the amounts below the minimum and at
  most one unit of rounding for every account that is not excluded; every account has one row, is paid at most its gross amount, nothing when it is
  excluded or below the minimum, and at least the minimum when it can claim.\<close>

theorem pool_never_overpays:
  assumes "build_pool fs policy config state holders_dir pool plan_pool adjustments minimum = Inr (s, rows)" "0 \<le> sm_collateral s"
  shows "sm_collateral s = sm_claimable s + sm_held s + sm_retained s \<and> 0 \<le> sm_claimable s \<and> 0 \<le> sm_held s \<and> 0 \<le> sm_surplus s \<and> 0 \<le> sm_below_minimum s \<and>
    sm_surplus s + sm_below_minimum s \<le> sm_retained s \<and>
    sm_retained s \<le> sm_surplus s + sm_below_minimum s + int (length (filter (\<lambda>r. \<not> is_excluded r) rows)) \<and>
    distinct (map ar_account rows) \<and>
    (\<forall>r \<in> set rows. 0 \<le> ar_allocation r \<and> ar_allocation r \<le> ar_gross r \<and>
       (ar_status r \<noteq> Claimable \<and> \<not> is_held r \<longrightarrow> ar_allocation r = 0) \<and> (ar_status r = Claimable \<longrightarrow> minimum \<le> ar_allocation r))"
  using assms by (rule pool_bounds)

theorem pool_never_overpays_witness:
  "\<exists>s rows. build_pool (\<lambda>_. None) short_policy short_config short_state [] short_pool short_plan_pool short_adjustments 1 = Inr (s, rows) \<and>
     sm_collateral s = sm_claimable s + sm_held s + sm_retained s \<and> sm_claimable s = 19"
proof -
  obtain s rows where run: "build_pool (\<lambda>_. None) short_policy short_config short_state [] short_pool short_plan_pool short_adjustments 1 = Inr (s, rows)"
    and s: "sm_collateral s = 20" "sm_claimable s = 19"
    using short_pool_run [of "\<lambda>_. None" "[]"] by blast
  have "sm_collateral s = sm_claimable s + sm_held s + sm_retained s" using pool_never_overpays [OF run] s by simp
  with run s show ?thesis by blast
qed

section \<open>The claim lists pay the allocations\<close>

definition claim_key :: "alloc_row \<Rightarrow> claim_key" where
  "claim_key r = (ar_claim_chain r, ar_payee r, ar_claim_token r)"

lemma sum_dict_set_key:
  fixes w :: "'v \<Rightarrow> int"
  assumes "distinct (dict_keys d)"
  shows "sum_list (map (\<lambda>e. w (snd e)) (filter (\<lambda>e. Q (fst e)) (dict_set k v d))) =
    sum_list (map (\<lambda>e. w (snd e)) (filter (\<lambda>e. Q (fst e)) d)) + (if Q k then w v - (case map_of d k of None \<Rightarrow> 0 | Some u \<Rightarrow> w u) else 0)"
  using assms
proof (induction d)
  case (Cons p d)
  obtain a b where "p = (a, b)" by (cases p)
  with Cons show ?case by (auto split: option.splits)
qed simp

lemma claims_of_sums:
  "distinct (dict_keys (claims_of rows)) \<and> (\<forall>Q. sum_list (map (\<lambda>e. fst (snd e)) (filter (\<lambda>e. Q (fst e)) (claims_of rows))) =
     sum_rows ar_allocation (\<lambda>r. ar_status r = Claimable \<and> Q (claim_key r)) rows)"
proof (induction rows rule: rev_induct)
  case (snoc r rows)
  show ?case
  proof (cases "ar_status r \<noteq> Claimable \<or> ar_allocation r = 0")
    case True
    then have "claims_of (rows @ [r]) = claims_of rows" by (simp add: claims_of_def add_claim_row_def)
    then show ?thesis using snoc True by (auto simp: sum_rows_def)
  next
    case False
    define item where "item = (case dict_get (claims_of rows) (claim_key r) of Some i \<Rightarrow> i | None \<Rightarrow> (0, []))"
    obtain ps where new: "claims_of (rows @ [r]) = dict_set (claim_key r) (fst item + ar_allocation r, ps) (claims_of rows)"
      using False by (simp add: claims_of_def add_claim_row_def claim_key_def Let_def item_def)
    have "fst item = (case dict_get (claims_of rows) (claim_key r) of None \<Rightarrow> 0 | Some u \<Rightarrow> fst u)" by (simp add: item_def split: option.split)
    then show ?thesis unfolding new using snoc False sum_dict_set_key [of "claims_of rows" fst]
      by (auto simp: distinct_dict_set sum_rows_def)
  qed
qed (simp add: claims_of_def sum_rows_def)

lemma distinct_keys_of: "distinct (map fst xs) \<Longrightarrow> \<forall>e \<in> set xs. fst (fst e) = c \<Longrightarrow> distinct (map (\<lambda>e. snd (fst e)) xs)"
  by (induction xs) (auto simp: image_iff prod_eq_iff)

lemma claim_list_sum:
  assumes "claim_list (claims_of rows) chain = Inr claims"
  shows "sum_list (map (\<lambda>(payee, token, amount, ps). amount) (filter (\<lambda>(payee, token, amount, ps). P payee token) claims)) =
      sum_rows ar_allocation (\<lambda>r. ar_status r = Claimable \<and> ar_claim_chain r = Some chain \<and> P (ar_payee r) (ar_claim_token r)) rows"
    "distinct (map (\<lambda>(payee, token, amount, ps). (payee, token)) claims)"
proof -
  let ?d = "claims_of rows"
  from assms have claims: "claims = map (\<lambda>e. (fst (snd (fst e)), snd (snd (fst e)), fst (snd e), sort (snd (snd e))))
      (filter (\<lambda>e. fst (fst e) = Some chain) (sort_key fst ?d))"
    by (auto simp: claim_list_def case_prod_unfold split: if_splits)
  let ?Q = "\<lambda>k. fst k = Some chain \<and> P (fst (snd k)) (snd (snd k))"
  have "sum_list (map (\<lambda>(payee, token, amount, ps). amount) (filter (\<lambda>(payee, token, amount, ps). P payee token) claims)) =
      sum_list (map (\<lambda>e. fst (snd e)) (filter (\<lambda>e. ?Q (fst e)) (sort_key fst ?d)))"
    by (simp add: claims filter_map o_def case_prod_unfold conj_commute)
  also have "\<dots> = sum_list (map (\<lambda>e. fst (snd e)) (filter (\<lambda>e. ?Q (fst e)) ?d))" by (rule sum_list_map_mset) simp
  also have "\<dots> = sum_rows ar_allocation (\<lambda>r. ar_status r = Claimable \<and> ?Q (claim_key r)) rows"
    by (rule spec [OF conjunct2 [OF claims_of_sums], of ?Q])
  finally show "sum_list (map (\<lambda>(payee, token, amount, ps). amount) (filter (\<lambda>(payee, token, amount, ps). P payee token) claims)) =
      sum_rows ar_allocation (\<lambda>r. ar_status r = Claimable \<and> ar_claim_chain r = Some chain \<and> P (ar_payee r) (ar_claim_token r)) rows"
    by (simp add: claim_key_def)
  have "distinct (map fst (sort_key fst ?d))" using conjunct1 [OF claims_of_sums [of rows]] by (simp add: distinct_map)
  then have "distinct (map fst (filter (\<lambda>e. fst (fst e) = Some chain) (sort_key fst ?d)))" by (rule distinct_map_filter)
  then have "distinct (map (\<lambda>e. snd (fst e)) (filter (\<lambda>e. fst (fst e) = Some chain) (sort_key fst ?d)))"
    by (rule distinct_keys_of [where c = "Some chain"]) simp
  then show "distinct (map (\<lambda>(payee, token, amount, ps). (payee, token)) claims)" by (simp add: claims o_def)
qed

section \<open>All pools\<close>

definition pool_part :: "pool_summary \<Rightarrow> alloc_row list \<Rightarrow> bool" where
  "pool_part s rs \<longleftrightarrow> (\<forall>r \<in> set rs. ar_claim_chain r = sm_claim_chain s \<and> ar_claim_token r = sm_claim_token s) \<and>
     sm_claimable s = sum_rows ar_allocation (\<lambda>r. ar_status r = Claimable) rs \<and> (0 \<le> sm_collateral s \<longrightarrow> sm_claimable s \<le> sm_collateral s)"

lemma build_pool_part:
  assumes "build_pool fs policy config state holders_dir pool plan_pool adjustments minimum = Inr (s, rows)"
  shows "pool_part s rows"
proof -
  from assms obtain holdings h accounts rows0 num den where
    pr: "list_all2 (\<lambda>a r. pool_row policy pool (claim_target pool config) h holdings adjustments a = Inr r) accounts rows0"
    and sr: "list_all2 (\<lambda>r r'. fresh_row r \<and> share_row (num, den) minimum r = Inr r') rows0 rows"
    and s: "sm_claimable s = sum_rows ar_allocation (\<lambda>r. ar_status r = Claimable) rows"
      "sm_claim_chain s = fst (claim_target pool config)" "sm_claim_token s = snd (claim_target pool config)"
    by (rule build_pool_Inr)
  have "\<forall>r \<in> set rows0. ar_claim_chain r = sm_claim_chain s \<and> ar_claim_token r = sm_claim_token s"
    using pr by (induction rule: list_all2_induct) (auto simp: s dest: pool_row_Inr(7, 8))
  with sr have "\<forall>r \<in> set rows. ar_claim_chain r = sm_claim_chain s \<and> ar_claim_token r = sm_claim_token s"
    by (induction rule: list_all2_induct) (auto dest: share_row_keeps(4, 5))
  moreover have "sm_claimable s \<le> sm_collateral s" if "0 \<le> sm_collateral s" using pool_bounds [OF assms that] by (elim conjE) linarith
  ultimately show ?thesis by (simp add: pool_part_def s)
qed

lemma allocate_parts:
  assumes "allocate fs args rts config = Inr al"
  shows "\<exists>rss. al_rows al = concat rss \<and> list_all2 pool_part (al_pools al) rss"
proof -
  from assms obtain policy state plan message_summary adjustments where
    run: "foldM (add_pool fs args policy config state plan message_summary adjustments) \<lparr>al_pools = [], al_rows = [], al_unsupported = []\<rparr> (rt_pools rts) = Inr al"
    by (auto simp: allocate_def bindR_Inr_iff split: if_splits)
  show ?thesis
  proof (rule foldM_keeps [OF run])
    fix acc pool acc' assume step: "add_pool fs args policy config state plan message_summary adjustments acc pool = Inr acc'"
      and "\<exists>rss. al_rows acc = concat rss \<and> list_all2 pool_part (al_pools acc) rss"
    then obtain rss where rss: "al_rows acc = concat rss" "list_all2 pool_part (al_pools acc) rss" by blast
    have "al_pools acc' = al_pools acc \<and> al_rows acc' = al_rows acc \<or>
        (\<exists>s rs. pool_part s rs \<and> al_pools acc' = al_pools acc @ [s] \<and> al_rows acc' = al_rows acc @ rs)"
      using step by (auto simp: add_pool_def Let_def bindR_Inr_iff dest!: build_pool_part split: if_splits)
    then show "\<exists>rss. al_rows acc' = concat rss \<and> list_all2 pool_part (al_pools acc') rss"
    proof (elim disjE exE conjE)
      assume "al_pools acc' = al_pools acc" "al_rows acc' = al_rows acc"
      with rss show ?thesis by auto
    next
      fix s rs assume "pool_part s rs" "al_pools acc' = al_pools acc @ [s]" "al_rows acc' = al_rows acc @ rs"
      with rss show ?thesis by (intro exI [of _ "rss @ [rs]"]) (simp add: list_all2_appendI)
    qed
  qed (auto intro: exI [of _ "[]"])
qed

lemma parts_sum:
  assumes "list_all2 pool_part pools rss"
  shows "sum_rows ar_allocation (\<lambda>r. ar_status r = Claimable \<and> ar_claim_chain r = c \<and> ar_claim_token r = t) (concat rss) =
    sum_list (map sm_claimable (filter (\<lambda>s. sm_claim_chain s = c \<and> sm_claim_token s = t) pools))"
  using assms
proof (induction rule: list_all2_induct)
  case (Cons s pools rs rss)
  have "filter (\<lambda>r. ar_status r = Claimable \<and> ar_claim_chain r = c \<and> ar_claim_token r = t) rs =
      (if sm_claim_chain s = c \<and> sm_claim_token s = t then filter (\<lambda>r. ar_status r = Claimable) rs else [])"
    using Cons(1) by (auto simp: pool_part_def filter_empty_conv intro: filter_cong)
  then show ?case using Cons by (simp add: sum_rows_def pool_part_def)
qed (simp add: sum_rows_def)

section \<open>A run with one pool\<close>

definition short_summary :: string where
  "short_summary =
     [CHR 0x7B, CHR 0x22] @ ''status'' @ [CHR 0x22, CHR '':'', CHR 0x22] @ ''passed'' @ [CHR 0x22, CHR '','', CHR 0x22] @ ''pools'' @
     [CHR 0x22, CHR '':'', CHR 0x7B, CHR 0x22, CHR ''p'', CHR 0x22, CHR '':'', CHR 0x7B, CHR 0x22] @ ''status'' @
     [CHR 0x22, CHR '':'', CHR 0x22] @ ''complete'' @ [CHR 0x22, CHR 0x7D, CHR 0x7D, CHR '','', CHR 0x22] @ ''output_sha256'' @
     [CHR 0x22, CHR '':'', CHR 0x22] @ text_sha256 short_messages @ [CHR 0x22, CHR 0x7D]"

definition short_files :: files where
  "short_files = [''state'' \<mapsto> dumps 2 short_state, ''plan'' \<mapsto> dumps 2 (JObj [(''pools'', JObj [(''p'', short_plan_pool)])]),
     ''messages'' \<mapsto> short_messages, ''summary'' \<mapsto> short_summary, ''classes'' \<mapsto> csv_text [[''chain'', ''address'', ''class'']]]"

definition short_args :: alloc_args where
  "short_args = \<lparr>aa_state = ''state'', aa_plan = ''plan'', aa_messages = ''messages'', aa_messages_summary = ''summary'', aa_holders_dir = [],
     aa_classes = ''classes'', aa_exclusions = [], aa_overrides = [], aa_contract_review_policy = []\<rparr>"

lemma scan_hex_string: "list_all is_hex h \<Longrightarrow> scan_string acc (h @ CHR 0x22 # rest) = Some (rev acc @ h, rest)"
proof (induction h arbitrary: acc)
  case (Cons c h)
  have "c \<noteq> CHR 0x22" "\<not> code c < 32" "c \<noteq> CHR 0x5C"
    using Cons.prems by (auto simp: is_hex_def hex_digit_value_def is_digit_def split: if_splits)
  with Cons show ?case by simp
qed simp

lemma short_summary_loads:
  "loads short_summary = Inr (JObj [(''status'', JStr ''passed''), (''pools'', JObj [(''p'', JObj [(''status'', JStr ''complete'')])]),
     (''output_sha256'', JStr (text_sha256 short_messages))])"
proof -
  define h where "h = text_sha256 short_messages"
  have hex: "list_all is_hex h" by (simp add: h_def text_sha256_def sha256_hex_def hex_of_is_hex)
  have "\<exists>m. 2 * length short_summary + 1 = Suc (Suc (Suc (Suc (Suc (Suc (Suc (Suc m)))))))"
    by (simp add: short_summary_def)
  then obtain m where m: "2 * length short_summary + 1 = Suc (Suc (Suc (Suc (Suc (Suc (Suc (Suc m)))))))" by blast
  show ?thesis
    unfolding loads_def m unfolding short_summary_def h_def [symmetric]
    by (simp add: skip_space_def json_space_def startswith_def Let_def scan_hex_string [OF hex])
qed

lemma short_texts:
  "loads (dumps 2 short_state) = Inr short_state"
  "loads (dumps 2 (JObj [(''pools'', JObj [(''p'', short_plan_pool)])])) = Inr (JObj [(''pools'', JObj [(''p'', short_plan_pool)])])"
  "dict_reader (csv_text [[''chain'', ''address'', ''class'']]) = []"
  by code_simp+

lemma short_reads:
  "read_text short_files ''state'' = Inr (dumps 2 short_state)"
  "read_text short_files ''plan'' = Inr (dumps 2 (JObj [(''pools'', JObj [(''p'', short_plan_pool)])]))"
  "read_text short_files ''messages'' = Inr short_messages" "read_text short_files ''summary'' = Inr short_summary"
  "read_text short_files ''classes'' = Inr (csv_text [[''chain'', ''address'', ''class'']])"
  by (simp_all add: read_text_def short_files_def)

lemma short_policy_loads: "load_policy short_files short_args short_routes short_config = Inr short_policy"
  by (simp add: load_policy_def load_keyed_def read_csv_def short_reads short_args_def short_texts short_policy_def)

lemma short_run: "\<exists>al claims. allocate short_files short_args short_routes short_config = Inr al \<and>
    claim_list (claims_of (al_rows al)) ''eth'' = Inr claims \<and> length claims = 2 \<and> map sm_collateral (al_pools al) = [20]"
proof -
  obtain s rows claims where pool: "build_pool short_files short_policy short_config short_state [] short_pool short_plan_pool short_adjustments 1 = Inr (s, rows)"
    and s: "sm_collateral s = 20" and claims: "claim_list (claims_of rows) ''eth'' = Inr claims" "length claims = 2"
    using short_pool_run [of short_files "[]"] by blast
  have args: "aa_state short_args = ''state''" "aa_plan short_args = ''plan''" "aa_messages short_args = ''messages''"
    "aa_messages_summary short_args = ''summary''" "aa_holders_dir short_args = []" "aa_contract_review_policy short_args = []"
    "rt_pools short_routes = [short_pool]" "rp_pool_id short_pool = ''p''" "pool_minimum short_config ''p'' = 1"
    "json_item short_plan_pool ''status'' = Inr (JStr ''planned'')"
    by (simp_all add: short_args_def short_routes_def short_pool_def pool_minimum_def short_config_def short_plan_pool_def json_item_def)
  have "allocate short_files short_args short_routes short_config = Inr \<lparr>al_pools = [s], al_rows = rows, al_unsupported = []\<rparr>"
    by (simp add: allocate_def args short_reads short_texts short_summary_loads short_policy_loads short_adjusted json_get_def json_item_def [of "JObj xs" for xs]
        add_pool_def message_complete_def pool check_review_def Let_def)
  with claims s show ?thesis by (intro exI conjI) (assumption | simp)+
qed

text \<open>C22. Every claim list is backed by the collateral of its pools. For the allocations that a run computes, the list of a chain has at most one line
  per payee and token, with the sum of the claimable allocations of all pools for them; the lines of a token add up to the claimable amounts of the pools that pay
  this token on this chain, and, when no collateral is negative, to no more than the collateral of these pools.\<close>

theorem claim_lists_backed:
  assumes "allocate fs args rts config = Inr al" "claim_list (claims_of (al_rows al)) chain = Inr claims"
    and "\<forall>s \<in> set (al_pools al). 0 \<le> sm_collateral s"
  shows "distinct (map (\<lambda>(payee, token, amount, ps). (payee, token)) claims) \<and>
    (\<forall>p token. sum_list (map (\<lambda>(payee, token, amount, ps). amount) (filter (\<lambda>(payee, t, amount, ps). payee = p \<and> t = token) claims)) =
       sum_rows ar_allocation (\<lambda>r. ar_status r = Claimable \<and> ar_claim_chain r = Some chain \<and> ar_payee r = p \<and> ar_claim_token r = token) (al_rows al)) \<and>
    (\<forall>token. sum_list (map (\<lambda>(payee, token, amount, ps). amount) (filter (\<lambda>(payee, t, amount, ps). t = token) claims)) =
         sum_list (map sm_claimable (filter (\<lambda>s. sm_claim_chain s = Some chain \<and> sm_claim_token s = token) (al_pools al))) \<and>
       sum_list (map (\<lambda>(payee, token, amount, ps). amount) (filter (\<lambda>(payee, t, amount, ps). t = token) claims)) \<le>
         sum_list (map sm_collateral (filter (\<lambda>s. sm_claim_chain s = Some chain \<and> sm_claim_token s = token) (al_pools al))))"
proof -
  obtain rss where rss: "al_rows al = concat rss" "list_all2 pool_part (al_pools al) rss" using allocate_parts [OF assms(1)] by blast
  have sum: "sum_list (map (\<lambda>(payee, token, amount, ps). amount) (filter (\<lambda>(payee, t, amount, ps). t = token) claims)) =
      sum_list (map sm_claimable (filter (\<lambda>s. sm_claim_chain s = Some chain \<and> sm_claim_token s = token) (al_pools al)))" for token
    using claim_list_sum(1) [OF assms(2), of "\<lambda>p t. t = token"] parts_sum [OF rss(2), of "Some chain" token] by (simp add: rss(1))
  have "\<forall>s \<in> set (al_pools al). sm_claimable s \<le> sm_collateral s"
  proof
    fix s assume "s \<in> set (al_pools al)"
    then obtain i where "i < length (al_pools al)" "s = al_pools al ! i" by (auto simp: in_set_conv_nth)
    then have "pool_part s (rss ! i)" using rss(2) by (simp add: list_all2_conv_all_nth)
    then show "sm_claimable s \<le> sm_collateral s" using assms(3) \<open>s \<in> set (al_pools al)\<close> by (simp add: pool_part_def)
  qed
  then have "sum_list (map sm_claimable (filter P (al_pools al))) \<le> sum_list (map sm_collateral (filter P (al_pools al)))" for P
    by (intro sum_list_map_mono_int) auto
  moreover have "sum_list (map (\<lambda>(payee, token, amount, ps). amount) (filter (\<lambda>(payee, t, amount, ps). payee = p \<and> t = token) claims)) =
      sum_rows ar_allocation (\<lambda>r. ar_status r = Claimable \<and> ar_claim_chain r = Some chain \<and> ar_payee r = p \<and> ar_claim_token r = token) (al_rows al)"
    for p token by (rule claim_list_sum(1) [OF assms(2)])
  ultimately show ?thesis using claim_list_sum(2) [OF assms(2)] unfolding sum by blast
qed

theorem claim_lists_backed_witness:
  "\<exists>al claims. allocate short_files short_args short_routes short_config = Inr al \<and>
     claim_list (claims_of (al_rows al)) ''eth'' = Inr claims \<and> length claims = 2 \<and>
     sum_list (map (\<lambda>(payee, token, amount, ps). amount) (filter (\<lambda>(payee, t, amount, ps). t = Some ''0xt'') claims)) \<le>
       sum_list (map sm_collateral (filter (\<lambda>s. sm_claim_chain s = Some ''eth'' \<and> sm_claim_token s = Some ''0xt'') (al_pools al)))"
proof -
  obtain al claims where run: "allocate short_files short_args short_routes short_config = Inr al"
    "claim_list (claims_of (al_rows al)) ''eth'' = Inr claims" "length claims = 2" "map sm_collateral (al_pools al) = [20]"
    using short_run by (elim exE conjE) (rule that)
  from run(4) have "\<forall>s \<in> set (al_pools al). 0 \<le> sm_collateral s" by (auto simp: map_eq_Cons_conv)
  from claim_lists_backed [OF run(1, 2) this] run show ?thesis by blast
qed

end
