(* ===== verification/RunTree.thy ===== *)
theory RunTree
  imports Files "HOL-Library.Sublist"
begin

text \<open>
  The directory of a claims run and the system calls of \<^verbatim>\<open>package.py\<close> and \<^verbatim>\<open>quarantine.py\<close> on it. A tree lists every path below
  the run with what is there; what is seen through a symbolic link to a directory is listed below the link. The tools are programs over a
  world: the tree, the variables of the process, the clock, the random names, and a schedule of faults. Every call that changes the
  tree, reads a file or synchronises takes the next fault: it runs, it fails with an \<^verbatim>\<open>OSError\<close>, the operator interrupts it
  (\<^verbatim>\<open>KeyboardInterrupt\<close>), or the process is killed. An interrupted write leaves a prefix of the file; a rename is atomic.
  The run record and the quarantine journal are values that stand for their JSON text.
\<close>

section \<open>The files of a run\<close>

type_synonym path = "string list"

definition path_text :: "path \<Rightarrow> string" where
  "path_text p = join_with ''/'' p"

record package_entry =
  pe_generation :: string
  pe_package_sha256 :: string
  pe_published_at :: string

datatype pending = Refresh "path list" string | Quarantining path string

record run_record =
  rr_revision :: int
  rr_updated_at :: "string option"
  rr_pending :: "pending option"
  rr_packages :: "(path, package_entry) dict"

datatype journal_status = Moving | RolledBack string | JournalDone

record journal =
  jn_status :: journal_status
  jn_reason :: string
  jn_moves :: "path list"
  jn_files :: "(path \<times> string) list"

datatype content = Text string | Record run_record | Journal journal

datatype entry = File content | Dir | LinkFile content | LinkDir | LinkBroken

type_synonym tree = "(path \<times> entry) list"

fun pending_json :: "pending option \<Rightarrow> json" where
  "pending_json None = JNull"
| "pending_json (Some (Refresh targets started)) =
     JObj [(''operation'', JStr ''refresh''), (''targets'', JArr (map (\<lambda>p. JStr (path_text p)) targets)), (''started_at'', JStr started)]"
| "pending_json (Some (Quarantining j started)) =
     JObj [(''operation'', JStr ''quarantine''), (''journal'', JStr (path_text j)), (''started_at'', JStr started)]"

definition RECORD_SCHEMA :: int where "RECORD_SCHEMA = 1"

definition record_json :: "run_record \<Rightarrow> json" where
  "record_json r = JObj
     [(''schema_version'', JInt RECORD_SCHEMA), (''revision'', JInt (rr_revision r)),
      (''updated_at'', case rr_updated_at r of None \<Rightarrow> JNull | Some s \<Rightarrow> JStr s), (''pending'', pending_json (rr_pending r)),
      (''packages'', JObj (map (\<lambda>(p, e). (path_text p, JObj [(''generation'', JStr (pe_generation e)),
         (''package_sha256'', JStr (pe_package_sha256 e)), (''published_at'', JStr (pe_published_at e))])) (rr_packages r)))]"

definition journal_json :: "journal \<Rightarrow> json" where
  "journal_json j = JObj
     ((''status'', JStr (case jn_status j of Moving \<Rightarrow> ''moving'' | RolledBack _ \<Rightarrow> ''rolled_back'' | JournalDone \<Rightarrow> ''done'')) #
      (''reason'', JStr (jn_reason j)) # (''moves'', JArr (map (\<lambda>p. JStr (path_text p)) (jn_moves j))) #
      (''files'', JArr (map (\<lambda>(p, h). JArr [JStr (path_text p), JStr h]) (jn_files j))) #
      (case jn_status j of RolledBack e \<Rightarrow> [(''error'', JStr e)] | _ \<Rightarrow> []))"

fun content_text :: "content \<Rightarrow> string" where
  "content_text (Text s) = s"
| "content_text (Record r) = json_file 2 (record_json r)"
| "content_text (Journal j) = json_file 2 (journal_json j)"

definition content_prefix :: "nat \<Rightarrow> content \<Rightarrow> content" where
  "content_prefix n c = (if length (content_text c) \<le> n then c else Text (take n (content_text c)))"

definition content_sha256 :: "content \<Rightarrow> string" where
  "content_sha256 c = text_sha256 (content_text c)"

section \<open>Looking at a tree\<close>

abbreviation look :: "tree \<Rightarrow> path \<Rightarrow> entry option" where
  "look \<equiv> map_of"

definition lexists :: "tree \<Rightarrow> path \<Rightarrow> bool" where
  "lexists t p \<longleftrightarrow> look t p \<noteq> None"

definition exists :: "tree \<Rightarrow> path \<Rightarrow> bool" where
  "exists t p \<longleftrightarrow> look t p \<notin> {None, Some LinkBroken}"

definition isdir :: "tree \<Rightarrow> path \<Rightarrow> bool" where
  "isdir t p \<longleftrightarrow> look t p \<in> {Some Dir, Some LinkDir}"

definition isfile :: "tree \<Rightarrow> path \<Rightarrow> bool" where
  "isfile t p \<longleftrightarrow> (case look t p of Some (File _) \<Rightarrow> True | Some (LinkFile _) \<Rightarrow> True | _ \<Rightarrow> False)"

definition islink :: "tree \<Rightarrow> path \<Rightarrow> bool" where
  "islink t p \<longleftrightarrow> (case look t p of Some (LinkFile _) \<Rightarrow> True | Some LinkDir \<Rightarrow> True | Some LinkBroken \<Rightarrow> True | _ \<Rightarrow> False)"

text \<open>What \<^verbatim>\<open>os.walk\<close> meets strictly below a directory: it does not go through links.\<close>

definition walked :: "tree \<Rightarrow> path \<Rightarrow> path list" where
  "walked t d = filter (\<lambda>q. strict_prefix d q \<and> list_all (\<lambda>k. \<not> islink t (take k q)) [Suc (length d)..<length q]) (remdups (map fst t))"

definition well_formed :: "tree \<Rightarrow> bool" where
  "well_formed t \<longleftrightarrow> look t [] = Some Dir \<and> (\<forall>p name. lexists t (p @ [name]) \<longrightarrow> isdir t p)"

section \<open>Changing a tree\<close>

definition put :: "path \<Rightarrow> entry \<Rightarrow> tree \<Rightarrow> tree" where
  "put p e t = (p, e) # filter (\<lambda>(q, _). q \<noteq> p) t"

definition cut :: "path \<Rightarrow> tree \<Rightarrow> tree" where
  "cut p t = filter (\<lambda>(q, _). \<not> prefix p q) t"

definition relocate :: "path \<Rightarrow> path \<Rightarrow> tree \<Rightarrow> tree" where
  "relocate src dst t = map (\<lambda>(q, e). (if prefix src q then dst @ drop (length src) q else q, e)) (cut dst t)"

lemma look_put [simp]: "look (put p e t) q = (if q = p then Some e else look t q)"
proof -
  have "look (filter (\<lambda>(q, _). q \<noteq> p) t) q = (if q = p then None else look t q)" by (induction t) auto
  then show ?thesis by (simp add: put_def)
qed

lemma look_cut [simp]: "look (cut p t) q = (if prefix p q then None else look t q)"
  by (induction t) (auto simp: cut_def)

lemma look_relocate:
  assumes "\<not> prefix src dst" "\<not> prefix dst src"
  shows "look (relocate src dst t) q =
    (if prefix dst q then look t (src @ drop (length dst) q) else if prefix src q then None else look t q)"
proof -
  have "look (map (\<lambda>(q, e). (if prefix src q then dst @ drop (length src) q else q, e)) t') q =
    (if prefix dst q then look t' (src @ drop (length dst) q) else if prefix src q then None else look t' q)"
    if "\<forall>x \<in> set t'. \<not> prefix dst (fst x)" for t'
    using that
  proof (induction t')
    case (Cons x t')
    obtain p e where x: "x = (p, e)" by (cases x)
    have "\<not> (prefix dst q \<and> prefix src q)" if "\<not> prefix src p" using assms prefix_same_cases by blast
    with Cons x assms show ?case
      by (auto simp: prefix_def elim!: prefixE)
  qed simp
  from this [of "cut dst t"] have "look (relocate src dst t) q =
    (if prefix dst q then look (cut dst t) (src @ drop (length dst) q) else if prefix src q then None else look (cut dst t) q)"
    by (auto simp: relocate_def cut_def)
  moreover have "\<not> prefix dst (src @ r)" for r using assms prefix_same_cases [of src "src @ r" dst] by auto
  ultimately show ?thesis by simp
qed

section \<open>Programs\<close>

datatype exn = Err py_error | OSError string | KeyboardInterrupt

datatype 'a outcome = Val 'a | Exn exn | Killed

datatype fault = Run | Fail nat | Interrupt nat | Kill nat

text \<open>The world: the absolute path of the run, its tree, the faults to come, the clock and the random names with how many of each were taken,
  whether another process holds the lock of the run, and the variables of the process that outlive a statement that fails.\<close>

record world =
  w_root :: path
  w_tree :: tree
  w_faults :: "fault list"
  w_clock :: "nat \<Rightarrow> string"
  w_time :: nat
  w_token :: "nat \<Rightarrow> string"
  w_draws :: nat
  w_busy :: bool
  w_record :: run_record
  w_dirs :: "(path \<times> path) list"
  w_moved :: "path list"

type_synonym 'a io = "world \<Rightarrow> 'a outcome \<times> world"

definition returnI :: "'a \<Rightarrow> 'a io" where
  "returnI x w = (Val x, w)"

definition raiseI :: "exn \<Rightarrow> 'a io" where
  "raiseI e w = (Exn e, w)"

definition bindI :: "'a io \<Rightarrow> ('a \<Rightarrow> 'b io) \<Rightarrow> 'b io" where
  "bindI m f w = (case m w of (Val x, w') \<Rightarrow> f x w' | (Exn e, w') \<Rightarrow> (Exn e, w') | (Killed, w') \<Rightarrow> (Killed, w'))"

definition thenI :: "'a io \<Rightarrow> 'b io \<Rightarrow> 'b io" where
  "thenI m n = bindI m (\<lambda>_. n)"

definition tryI :: "'a io \<Rightarrow> (exn \<Rightarrow> 'a io) \<Rightarrow> 'a io" where
  "tryI m h w = (case m w of (Exn e, w') \<Rightarrow> h e w' | r \<Rightarrow> r)"

definition finallyI :: "'a io \<Rightarrow> unit io \<Rightarrow> 'a io" where
  "finallyI m f w =
     (case m w of
        (Val x, w') \<Rightarrow> bindI f (\<lambda>_. returnI x) w'
      | (Exn e, w') \<Rightarrow> bindI f (\<lambda>_. raiseI e) w'
      | (Killed, w') \<Rightarrow> (Killed, w'))"

definition gets :: "(world \<Rightarrow> 'a) \<Rightarrow> 'a io" where
  "gets f w = (Val (f w), w)"

definition modify :: "(world \<Rightarrow> world) \<Rightarrow> unit io" where
  "modify f w = (Val (), f w)"

definition liftI :: "'a result \<Rightarrow> 'a io" where
  "liftI r = (case r of Inl e \<Rightarrow> raiseI (Err e) | Inr x \<Rightarrow> returnI x)"

fun mapI :: "('a \<Rightarrow> 'b io) \<Rightarrow> 'a list \<Rightarrow> 'b list io" where
  "mapI f [] = returnI []"
| "mapI f (x # xs) = bindI (f x) (\<lambda>y. bindI (mapI f xs) (\<lambda>ys. returnI (y # ys)))"

fun forI :: "('a \<Rightarrow> unit io) \<Rightarrow> 'a list \<Rightarrow> unit io" where
  "forI f [] = returnI ()"
| "forI f (x # xs) = thenI (f x) (forI f xs)"

definition is_OSError :: "exn \<Rightarrow> bool" where
  "is_OSError e \<longleftrightarrow> (case e of OSError _ \<Rightarrow> True | Err (FileExistsError _) \<Rightarrow> True | Err (FileNotFoundError _) \<Rightarrow> True | _ \<Rightarrow> False)"

definition is_Exception :: "exn \<Rightarrow> bool" where
  "is_Exception e \<longleftrightarrow> (case e of KeyboardInterrupt \<Rightarrow> False | Err (SystemExit _) \<Rightarrow> False | _ \<Rightarrow> True)"

text \<open>\<^verbatim>\<open>try: ... except Exception\<close> lets interrupts and exits through.\<close>

definition tryException :: "'a io \<Rightarrow> (exn \<Rightarrow> 'a io) \<Rightarrow> 'a io" where
  "tryException m h = tryI m (\<lambda>e. if is_Exception e then h e else raiseI e)"

section \<open>System calls\<close>

text \<open>A call that the system accepts turns the tree into \<open>plan t\<close>; stopped after \<open>n\<close> units of work it leaves \<open>part n t\<close>, and so does a
  failing call that works in pieces.\<close>

definition call :: "bool \<Rightarrow> (tree \<Rightarrow> exn + tree) \<Rightarrow> (nat \<Rightarrow> tree \<Rightarrow> tree) \<Rightarrow> unit io" where
  "call pieces plan part w =
     (let t = w_tree w;
          accepted = (case plan t of Inr _ \<Rightarrow> True | Inl _ \<Rightarrow> False);
          next = w\<lparr>w_faults := tl (w_faults w)\<rparr>;
          stopped = (\<lambda>n. if accepted then next\<lparr>w_tree := part n t\<rparr> else next)
      in case (if w_faults w = [] then Run else hd (w_faults w)) of
           Run \<Rightarrow> (case plan t of Inl e \<Rightarrow> (Exn e, next) | Inr t' \<Rightarrow> (Val (), next\<lparr>w_tree := t'\<rparr>))
         | Fail n \<Rightarrow> (case plan t of Inl e \<Rightarrow> (Exn e, next) | Inr _ \<Rightarrow> (Exn (OSError ''call failed''), if pieces then stopped n else next))
         | Interrupt n \<Rightarrow> (Exn KeyboardInterrupt, stopped n)
         | Kill n \<Rightarrow> (Killed, stopped n))"

definition atomic :: "(tree \<Rightarrow> exn + tree) \<Rightarrow> unit io" where
  "atomic plan = call False plan (\<lambda>n t. if n = 0 then t else case plan t of Inr t' \<Rightarrow> t' | Inl _ \<Rightarrow> t)"

definition sync :: "unit io" where
  "sync = atomic Inr"

definition mkdir_plan :: "path \<Rightarrow> tree \<Rightarrow> exn + tree" where
  "mkdir_plan p t =
     (if lexists t p then Inl (Err (FileExistsError (path_text p)))
      else if p = [] \<or> \<not> isdir t (butlast p) then Inl (Err (FileNotFoundError (path_text p)))
      else Inr (put p Dir t))"

definition mkdir :: "path \<Rightarrow> unit io" where
  "mkdir p = atomic (mkdir_plan p)"

definition makedirs :: "bool \<Rightarrow> path \<Rightarrow> unit io" where
  "makedirs exist_ok p =
     thenI (forI (\<lambda>k. bindI (gets (\<lambda>w. exists (w_tree w) (take k p))) (\<lambda>found.
         if found then returnI ()
         else tryI (mkdir (take k p)) (\<lambda>e. case e of Err (FileExistsError _) \<Rightarrow> returnI () | _ \<Rightarrow> raiseI e))) [1..<length p])
       (tryI (mkdir p) (\<lambda>e. bindI (gets (\<lambda>w. isdir (w_tree w) p)) (\<lambda>d.
         if is_OSError e \<and> exist_ok \<and> d then returnI () else raiseI e)))"

definition replace_plan :: "path \<Rightarrow> path \<Rightarrow> tree \<Rightarrow> exn + tree" where
  "replace_plan src dst t =
     (if \<not> lexists t src \<or> dst = [] \<or> \<not> isdir t (butlast dst) then Inl (Err (FileNotFoundError (path_text src)))
      else if src = dst then Inr t
      else if prefix src dst then Inl (OSError ''Invalid argument'')
      else if prefix dst src then Inl (OSError ''Directory not empty'')
      else
        let dir = (look t src = Some Dir) in
        case look t dst of
          None \<Rightarrow> Inr (relocate src dst t)
        | Some Dir \<Rightarrow>
            if \<not> dir then Inl (OSError ''Is a directory'')
            else if list_ex (strict_prefix dst) (map fst t) then Inl (OSError ''Directory not empty'')
            else Inr (relocate src dst t)
        | Some _ \<Rightarrow> if dir then Inl (OSError ''Not a directory'') else Inr (relocate src dst t))"

definition replace :: "path \<Rightarrow> path \<Rightarrow> unit io" where
  "replace src dst = atomic (replace_plan src dst)"

definition written :: "entry option \<Rightarrow> content \<Rightarrow> entry" where
  "written old c = (case old of Some (LinkFile _) \<Rightarrow> LinkFile c | Some LinkBroken \<Rightarrow> LinkFile c | _ \<Rightarrow> File c)"

definition write_plan :: "bool \<Rightarrow> path \<Rightarrow> content \<Rightarrow> tree \<Rightarrow> exn + tree" where
  "write_plan exclusive p c t =
     (if exclusive \<and> lexists t p then Inl (Err (FileExistsError (path_text p)))
      else if isdir t p then Inl (OSError ''Is a directory'')
      else if p = [] \<or> \<not> isdir t (butlast p) then Inl (Err (FileNotFoundError (path_text p)))
      else Inr (put p (written (look t p) c) t))"

definition write_file :: "bool \<Rightarrow> path \<Rightarrow> content \<Rightarrow> unit io" where
  "write_file exclusive p c =
     call True (write_plan exclusive p c) (\<lambda>n t. if n = 0 then t else put p (written (look t p) (content_prefix (n - 1) c)) t)"

definition remove_plan :: "path \<Rightarrow> tree \<Rightarrow> exn + tree" where
  "remove_plan p t =
     (case look t p of
        None \<Rightarrow> Inl (Err (FileNotFoundError (path_text p)))
      | Some Dir \<Rightarrow> Inl (OSError ''Is a directory'')
      | Some _ \<Rightarrow> Inr (cut p t))"

definition remove :: "path \<Rightarrow> unit io" where
  "remove p = atomic (remove_plan p)"

definition deepest :: "path \<Rightarrow> tree \<Rightarrow> path list" where
  "deepest p t = rev (sort_key length (filter (prefix p) (map fst t)))"

text \<open>\<^verbatim>\<open>shutil.rmtree(p, ignore_errors=True)\<close> removes what is deepest first; the run itself is never removed.\<close>

definition rmtree :: "path \<Rightarrow> unit io" where
  "rmtree p =
     tryI (call True (\<lambda>t. Inr (if p \<noteq> [] \<and> look t p = Some Dir then cut p t else t))
             (\<lambda>n t. if p \<noteq> [] \<and> look t p = Some Dir then filter (\<lambda>(q, _). q \<notin> set (take n (deepest p t))) t else t))
       (\<lambda>e. if is_OSError e then returnI () else raiseI e)"

definition read_entry :: "tree \<Rightarrow> path \<Rightarrow> exn + content" where
  "read_entry t p =
     (case look t p of
        Some (File c) \<Rightarrow> Inr c
      | Some (LinkFile c) \<Rightarrow> Inr c
      | Some Dir \<Rightarrow> Inl (OSError ''Is a directory'')
      | Some LinkDir \<Rightarrow> Inl (OSError ''Is a directory'')
      | _ \<Rightarrow> Inl (Err (FileNotFoundError (path_text p))))"

definition read_file :: "path \<Rightarrow> content io" where
  "read_file p = thenI sync (bindI (gets (\<lambda>w. read_entry (w_tree w) p)) (\<lambda>r. case r of Inl e \<Rightarrow> raiseI e | Inr c \<Rightarrow> returnI c))"

definition file_sha256 :: "path \<Rightarrow> string io" where
  "file_sha256 p = bindI (read_file p) (\<lambda>c. returnI (content_sha256 c))"

definition utc_stamp :: "string io" where
  "utc_stamp = bindI (gets (\<lambda>w. w_clock w (w_time w))) (\<lambda>s. thenI (modify (\<lambda>w. w\<lparr>w_time := Suc (w_time w)\<rparr>)) (returnI s))"

definition random_name :: "string io" where
  "random_name = bindI (gets (\<lambda>w. w_token w (w_draws w))) (\<lambda>s. thenI (modify (\<lambda>w. w\<lparr>w_draws := Suc (w_draws w)\<rparr>)) (returnI s))"

text \<open>\<^verbatim>\<open>tempfile.mkdtemp\<close> tries random names until one is free.\<close>

definition TMP_MAX :: nat where "TMP_MAX = 238328"

fun mkdtemp_from :: "nat \<Rightarrow> string \<Rightarrow> path \<Rightarrow> path io" where
  "mkdtemp_from 0 start parent = raiseI (Err (FileExistsError ''No usable temporary directory name found''))"
| "mkdtemp_from (Suc n) start parent =
     bindI random_name (\<lambda>token.
     let p = parent @ [start @ token] in
     bindI (gets (\<lambda>w. lexists (w_tree w) p)) (\<lambda>taken.
     if taken then mkdtemp_from n start parent else thenI (mkdir p) (returnI p)))"

definition mkdtemp :: "string \<Rightarrow> path \<Rightarrow> path io" where
  "mkdtemp = mkdtemp_from TMP_MAX"

section \<open>Relations that every step keeps\<close>

definition keeps :: "(world \<Rightarrow> world \<Rightarrow> bool) \<Rightarrow> 'a io \<Rightarrow> bool" where
  "keeps R m \<longleftrightarrow> (\<forall>w. R w (snd (m w)))"

lemma keepsD: "keeps R m \<Longrightarrow> m w = (r, w') \<Longrightarrow> R w w'"
  unfolding keeps_def by (metis snd_conv)

locale io_relation =
  fixes R :: "world \<Rightarrow> world \<Rightarrow> bool"
  assumes refl: "R w w"
    and trans: "R u v \<Longrightarrow> R v w \<Longrightarrow> R u w"
begin

lemma keeps_return: "keeps R (returnI x)"
  by (simp add: keeps_def returnI_def refl)

lemma keeps_raise: "keeps R (raiseI e)"
  by (simp add: keeps_def raiseI_def refl)

lemma keeps_gets: "keeps R (gets f)"
  by (simp add: keeps_def gets_def refl)

lemma keeps_lift: "keeps R (liftI r)"
  by (cases r) (simp_all add: liftI_def keeps_return keeps_raise)

lemma keeps_modify: "(\<And>w. R w (f w)) \<Longrightarrow> keeps R (modify f)"
  by (simp add: keeps_def modify_def)

lemma keeps_bind:
  assumes "keeps R m" "\<And>x. keeps R (f x)"
  shows "keeps R (bindI m f)"
  unfolding keeps_def
proof
  fix w
  obtain r w' where m: "m w = (r, w')" by (cases "m w")
  have "R w w'" using keepsD [OF assms(1) m] .
  then show "R w (snd (bindI m f w))"
    using assms(2) trans by (cases r) (auto simp: bindI_def m keeps_def)
qed

lemma keeps_then: "keeps R m \<Longrightarrow> keeps R n \<Longrightarrow> keeps R (thenI m n)"
  unfolding thenI_def by (rule keeps_bind)

lemma keeps_try:
  assumes "keeps R m" "\<And>e. keeps R (h e)"
  shows "keeps R (tryI m h)"
  unfolding keeps_def
proof
  fix w
  obtain r w' where m: "m w = (r, w')" by (cases "m w")
  have "R w w'" using keepsD [OF assms(1) m] .
  then show "R w (snd (tryI m h w))"
    using assms(2) trans by (cases r) (auto simp: tryI_def m keeps_def)
qed

lemma keeps_tryException: "keeps R m \<Longrightarrow> (\<And>e. keeps R (h e)) \<Longrightarrow> keeps R (tryException m h)"
  unfolding tryException_def by (rule keeps_try) (auto simp: keeps_raise)

lemma keeps_finally:
  assumes "keeps R m" "keeps R f"
  shows "keeps R (finallyI m f)"
  unfolding keeps_def
proof
  fix w
  obtain r w' where m: "m w = (r, w')" by (cases "m w")
  have R: "R w w'" using keepsD [OF assms(1) m] .
  have "keeps R (bindI f (\<lambda>_. returnI x))" "keeps R (bindI f (\<lambda>_. raiseI e :: 'a io))" for x :: 'a and e
    using assms(2) by (simp_all add: keeps_bind keeps_return keeps_raise)
  then show "R w (snd (finallyI m f w))"
    using R trans by (cases r) (auto simp: finallyI_def m keeps_def)
qed

lemma keeps_for: "(\<And>x. x \<in> set xs \<Longrightarrow> keeps R (f x)) \<Longrightarrow> keeps R (forI f xs)"
  by (induction xs) (auto intro: keeps_then keeps_return)

lemma keeps_map: "(\<And>x. x \<in> set xs \<Longrightarrow> keeps R (f x)) \<Longrightarrow> keeps R (mapI f xs)"
  by (induction xs) (auto intro!: keeps_bind keeps_return)

lemma keeps_if: "keeps R m \<Longrightarrow> keeps R n \<Longrightarrow> keeps R (if b then m else n)"
  by simp

lemma keeps_call:
  assumes "\<And>w t'. plan (w_tree w) = Inr t' \<Longrightarrow> R w (w\<lparr>w_tree := t'\<rparr>)"
    and "\<And>w n t'. plan (w_tree w) = Inr t' \<Longrightarrow> R w (w\<lparr>w_tree := part n (w_tree w)\<rparr>)"
    and "\<And>w. R w (w\<lparr>w_faults := tl (w_faults w)\<rparr>)"
  shows "keeps R (call pieces plan part)"
  unfolding keeps_def
proof
  fix w :: world
  let ?n = "w\<lparr>w_faults := tl (w_faults w)\<rparr>"
  have eq: "w_tree ?n = w_tree w" by simp
  have step: "R w (?n\<lparr>w_tree := t'\<rparr>)" if "R ?n (?n\<lparr>w_tree := t'\<rparr>)" for t' using trans [OF assms(3) that] .
  show "R w (snd (call pieces plan part w))"
  proof (cases "plan (w_tree w)")
    case (Inl e)
    then show ?thesis using assms(3) [of w] by (cases "w_faults w") (simp_all add: call_def Let_def split: fault.split)
  next
    case (Inr t')
    then have "R w (?n\<lparr>w_tree := t'\<rparr>)" "\<And>n. R w (?n\<lparr>w_tree := part n (w_tree w)\<rparr>)"
      using step assms(1) [of ?n] assms(2) [of ?n] by simp_all
    then show ?thesis using Inr assms(3) [of w] by (cases "w_faults w") (simp_all add: call_def Let_def split: fault.split)
  qed
qed

lemma keeps_atomic:
  assumes "\<And>w t'. plan (w_tree w) = Inr t' \<Longrightarrow> R w (w\<lparr>w_tree := t'\<rparr>)"
    and "\<And>w. R w (w\<lparr>w_faults := tl (w_faults w)\<rparr>)"
  shows "keeps R (atomic plan)"
  unfolding atomic_def
proof (rule keeps_call)
  fix w :: world and n t' assume "plan (w_tree w) = Inr t'"
  then show "R w (w\<lparr>w_tree := if n = 0 then w_tree w else case plan (w_tree w) of Inl _ \<Rightarrow> w_tree w | Inr t' \<Rightarrow> t'\<rparr>)"
    using assms(1) [of w] refl by simp
qed (use assms in auto)

lemmas keeps_control = keeps_return keeps_raise keeps_gets keeps_lift keeps_bind keeps_then keeps_try keeps_tryException keeps_finally
  keeps_for keeps_map keeps_if

end

locale clock_relation = io_relation +
  assumes faults: "R w (w\<lparr>w_faults := tl (w_faults w)\<rparr>)"
    and time: "R w (w\<lparr>w_time := Suc (w_time w)\<rparr>)"
    and draws: "R w (w\<lparr>w_draws := Suc (w_draws w)\<rparr>)"
begin

lemma keeps_sync: "keeps R sync"
  unfolding sync_def by (rule keeps_atomic) (auto simp: faults refl)

lemma keeps_read_file: "keeps R (read_file p)"
  unfolding read_file_def by (intro keeps_control keeps_sync) (auto intro: keeps_control split: sum.split)

lemma keeps_file_sha256: "keeps R (file_sha256 p)"
  unfolding file_sha256_def by (intro keeps_control keeps_read_file)

lemma keeps_utc_stamp: "keeps R utc_stamp"
  unfolding utc_stamp_def by (intro keeps_control keeps_modify time)

lemma keeps_random_name: "keeps R random_name"
  unfolding random_name_def by (intro keeps_control keeps_modify draws)

lemmas keeps_rules = keeps_control keeps_sync keeps_read_file keeps_file_sha256 keeps_utc_stamp keeps_random_name

end

text \<open>The effects of a program stay within a set of paths; the run, the clock, the random names and the lock are not the program's to change,
  and the faults come in order.\<close>

definition steady :: "world \<Rightarrow> world \<Rightarrow> bool" where
  "steady w w' \<longleftrightarrow> w_root w' = w_root w \<and> w_clock w' = w_clock w \<and> w_token w' = w_token w \<and> w_busy w' = w_busy w \<and>
     w_time w \<le> w_time w' \<and> w_draws w \<le> w_draws w' \<and> suffix (w_faults w') (w_faults w)"

definition within :: "path set \<Rightarrow> world \<Rightarrow> world \<Rightarrow> bool" where
  "within S w w' \<longleftrightarrow> steady w w' \<and> (\<forall>q. q \<notin> S \<longrightarrow> look (w_tree w') q = look (w_tree w) q)"

definition same_memory :: "world \<Rightarrow> world \<Rightarrow> bool" where
  "same_memory w w' \<longleftrightarrow> w_record w' = w_record w \<and> w_dirs w' = w_dirs w \<and> w_moved w' = w_moved w"

definition keeps_form :: "world \<Rightarrow> world \<Rightarrow> bool" where
  "keeps_form w w' \<longleftrightarrow> (well_formed (w_tree w) \<longrightarrow> well_formed (w_tree w'))"

lemma suffix_tl: "suffix (tl xs) xs"
  by (cases xs) (auto simp: suffix_Cons)

interpretation frame: clock_relation "within S" for S
  by unfold_locales (auto simp: within_def steady_def suffix_tl)

interpretation memory: clock_relation same_memory
  by unfold_locales (auto simp: same_memory_def)

interpretation form: clock_relation keeps_form
  by unfold_locales (auto simp: keeps_form_def)

lemma within_faults: "within S w (w\<lparr>w_faults := tl (w_faults w)\<rparr>)"
  by (simp add: within_def steady_def suffix_tl)

lemma within_tree: "(\<And>q. q \<notin> S \<Longrightarrow> look t' q = look (w_tree w) q) \<Longrightarrow> within S w (w\<lparr>w_tree := t'\<rparr>)"
  by (simp add: within_def steady_def)

lemma within_mono: "within S w w' \<Longrightarrow> S \<subseteq> T \<Longrightarrow> within T w w'"
  by (auto simp: within_def)

lemma keeps_within_mono: "keeps (within S) m \<Longrightarrow> S \<subseteq> T \<Longrightarrow> keeps (within T) m"
  by (auto simp: keeps_def intro: within_mono)

definition below :: "path \<Rightarrow> path set" where
  "below p = {q. prefix p q}"

lemma in_below [simp]: "q \<in> below p \<longleftrightarrow> prefix p q"
  by (simp add: below_def)

lemma mkdir_plan_Inr: "mkdir_plan p t = Inr t' \<Longrightarrow> t' = put p Dir t \<and> \<not> lexists t p \<and> p \<noteq> [] \<and> isdir t (butlast p)"
  by (auto simp: mkdir_plan_def split: if_splits)

lemma replace_plan_Inr:
  assumes "replace_plan src dst t = Inr t'" "src \<noteq> dst"
  shows "t' = relocate src dst t" "\<not> prefix src dst" "\<not> prefix dst src" "lexists t src" "dst \<noteq> []" "isdir t (butlast dst)"
    "look t dst = Some Dir \<Longrightarrow> look t src = Some Dir" "look t src = Some Dir \<Longrightarrow> look t dst \<in> {None, Some Dir}"
  using assms by (auto simp: replace_plan_def Let_def split: if_splits option.splits entry.splits)

lemma replace_look:
  assumes "replace_plan src dst t = Inr t'" "src \<noteq> dst"
  shows "look t' q = (if prefix dst q then look t (src @ drop (length dst) q) else if prefix src q then None else look t q)"
  using look_relocate [OF replace_plan_Inr(2, 3) [OF assms]] by (simp add: replace_plan_Inr(1) [OF assms])

lemma within_mkdir: "p \<in> S \<Longrightarrow> keeps (within S) (mkdir p)"
  unfolding mkdir_def by (rule frame.keeps_atomic) (auto intro!: within_tree within_faults dest: mkdir_plan_Inr)

lemma within_replace: "below src \<union> below dst \<subseteq> S \<Longrightarrow> keeps (within S) (replace src dst)"
  unfolding replace_def
proof (rule frame.keeps_atomic [OF within_tree within_faults])
  fix w t' q assume S: "below src \<union> below dst \<subseteq> S" and r: "replace_plan src dst (w_tree w) = Inr t'" and q: "q \<notin> S"
  show "look t' q = look (w_tree w) q"
  proof (cases "src = dst")
    case True
    then show ?thesis using r by (auto simp: replace_plan_def split: if_splits)
  next
    case False
    have "\<not> prefix dst q" "\<not> prefix src q" using q S by auto
    then show ?thesis by (simp add: replace_look [OF r False])
  qed
qed

lemma within_write: "p \<in> S \<Longrightarrow> keeps (within S) (write_file x p c)"
  unfolding write_file_def by (rule frame.keeps_call) (auto intro!: within_tree within_faults simp: write_plan_def frame.refl split: if_splits)

lemma within_remove: "below p \<subseteq> S \<Longrightarrow> keeps (within S) (remove p)"
  unfolding remove_def by (rule frame.keeps_atomic)
    (auto intro!: within_tree within_faults simp: remove_plan_def split: option.splits entry.splits)

lemma look_filter_keys: "look (filter (\<lambda>(q, _). P q) t) q = (if P q then look t q else None)"
  by (induction t) auto

lemma deepest_prefix: "q \<in> set (deepest p t) \<Longrightarrow> prefix p q"
  by (auto simp: deepest_def)

lemma within_rmtree: "below p \<subseteq> S \<Longrightarrow> keeps (within S) (rmtree p)"
  unfolding rmtree_def
  by (intro frame.keeps_try frame.keeps_call frame.keeps_if frame.keeps_return frame.keeps_raise within_faults within_tree)
    (auto simp: look_filter_keys dest!: in_set_takeD deepest_prefix)

lemma within_makedirs: "(\<And>k. 0 < k \<Longrightarrow> k \<le> length p \<Longrightarrow> take k p \<in> S) \<Longrightarrow> p \<in> S \<Longrightarrow> keeps (within S) (makedirs x p)"
  unfolding makedirs_def
  by (intro frame.keeps_control within_mkdir) (auto intro!: frame.keeps_control within_mkdir split: exn.splits py_error.splits)

section \<open>Every call keeps the tree well-formed\<close>

lemma form_step: "(well_formed (w_tree w) \<Longrightarrow> well_formed t') \<Longrightarrow> keeps_form w (w\<lparr>w_tree := t'\<rparr>)"
  by (simp add: keeps_form_def)

lemma form_faults: "keeps_form w (w\<lparr>w_faults := tl (w_faults w)\<rparr>)"
  by (simp add: keeps_form_def)

lemma isdir_put: "isdir (put p e t) q = (if q = p then e \<in> {Dir, LinkDir} else isdir t q)"
  by (simp add: isdir_def)

lemma lexists_put: "lexists (put p e t) q = (q = p \<or> lexists t q)"
  by (simp add: lexists_def)

lemma child_neq [simp]: "p @ [x] \<noteq> p" "p \<noteq> p @ [x]"
  by (metis append_self_conv list.distinct(1))+

lemma well_formed_root: "well_formed t \<Longrightarrow> isdir t []" "well_formed t \<Longrightarrow> look t [] = Some Dir"
  by (simp_all add: well_formed_def isdir_def)

lemma well_formed_child: "well_formed t \<Longrightarrow> lexists t (p @ [name]) \<Longrightarrow> isdir t p"
  unfolding well_formed_def by blast

lemma well_formed_put:
  assumes "well_formed t" "p \<noteq> []" "isdir t (butlast p)" "e \<in> {Dir, LinkDir} \<or> \<not> isdir t p"
  shows "well_formed (put p e t)"
proof -
  have "isdir (put p e t) q" if "lexists (put p e t) (q @ [name])" for q name
  proof (cases "q @ [name] = p")
    case True
    then have "butlast p = q" by auto
    then show ?thesis using assms(3) True by (auto simp: isdir_put)
  next
    case False
    then have "isdir t q" using that well_formed_child [OF assms(1)] by (simp add: lexists_put)
    then show ?thesis using assms(4) by (auto simp: isdir_put)
  qed
  then show ?thesis using assms(1, 2) by (simp add: well_formed_def)
qed

lemma well_formed_relocate:
  assumes "well_formed t" "replace_plan src dst t = Inr t'" "src \<noteq> dst"
  shows "well_formed t'"
proof -
  note r = replace_plan_Inr [OF assms(2, 3)] and l = replace_look [OF assms(2, 3)]
  have "isdir t' q" if ex: "lexists t' (q @ [name])" for q name
  proof -
    consider (top) "q @ [name] = dst" | (moved) "prefix dst q" | (other) "\<not> prefix dst (q @ [name])" by auto
    then show ?thesis
    proof cases
      case top
      then have q: "butlast dst = q" "\<not> prefix dst q" by auto
      have "\<not> prefix src q" using r(2) top by auto
      then show ?thesis using r(6) q by (simp add: isdir_def l)
    next
      case moved
      then obtain s where "q = dst @ s" by (auto simp: prefix_def)
      then show ?thesis using ex well_formed_child [OF assms(1), of "src @ s" name] by (simp add: lexists_def isdir_def l)
    next
      case other
      then have "\<not> prefix src (q @ [name])" "lexists t (q @ [name])" using ex by (auto simp: lexists_def l split: if_splits)
      then have "isdir t q" "\<not> prefix src q" "\<not> prefix dst q" using well_formed_child [OF assms(1)] other by auto
      then show ?thesis by (simp add: isdir_def l)
    qed
  qed
  moreover have "look t' [] = Some Dir"
  proof -
    have "\<not> prefix src []" "\<not> prefix dst []" using r(2, 5) by auto
    then show ?thesis using assms(1) by (simp add: l well_formed_def)
  qed
  ultimately show ?thesis by (simp add: well_formed_def)
qed

lemma well_formed_cut: "well_formed t \<Longrightarrow> p \<noteq> [] \<Longrightarrow> well_formed (cut p t)"
  by (auto simp: well_formed_def lexists_def isdir_def)

lemma form_mkdir: "keeps keeps_form (mkdir p)"
  unfolding mkdir_def by (rule form.keeps_atomic) (auto intro!: form_step form_faults well_formed_put dest!: mkdir_plan_Inr)

lemma form_replace: "keeps keeps_form (replace src dst)"
  unfolding replace_def
proof (rule form.keeps_atomic [OF form_step form_faults])
  fix w :: world and t' assume "replace_plan src dst (w_tree w) = Inr t'" "well_formed (w_tree w)"
  then show "well_formed t'" using well_formed_relocate by (cases "src = dst") (auto simp: replace_plan_def split: if_splits)
qed

lemma written_file: "\<not> isdir t p \<Longrightarrow> written (look t p) c \<notin> {Dir, LinkDir}"
  by (auto simp: written_def isdir_def split: option.splits entry.splits)

lemma form_write: "keeps keeps_form (write_file x p c)"
  unfolding write_file_def
  by (rule form.keeps_call)
    (auto intro!: form_step form_faults well_formed_put simp: write_plan_def form.refl split: if_splits)

lemma form_remove: "keeps keeps_form (remove p)"
  unfolding remove_def
proof (rule form.keeps_atomic [OF form_step form_faults])
  fix w :: world and t' assume r: "remove_plan p (w_tree w) = Inr t'" and wf: "well_formed (w_tree w)"
  have "p \<noteq> []" using r wf by (auto simp: remove_plan_def well_formed_def)
  moreover have "t' = cut p (w_tree w)" using r by (auto simp: remove_plan_def split: option.splits entry.splits)
  ultimately show "well_formed t'" using wf by (simp add: well_formed_cut)
qed

lemma deepest_first:
  assumes "q \<in> set (take n (deepest p t))" "q' \<in> set (map fst t)" "prefix p q'" "length q < length q'"
  shows "q' \<in> set (take n (deepest p t))"
proof -
  let ?d = "deepest p t"
  have desc: "sorted_wrt (\<lambda>x y. length y \<le> length x) ?d"
    unfolding deepest_def sorted_wrt_rev using sorted_sort_key [of length "filter (prefix p) (map fst t)"] by (simp add: sorted_map)
  obtain i where i: "i < length ?d" "i < n" "?d ! i = q" using assms(1) by (auto simp: in_set_conv_nth)
  have "q' \<in> set ?d" using assms(2, 3) by (simp add: deepest_def)
  then obtain j where j: "j < length ?d" "?d ! j = q'" by (auto simp: in_set_conv_nth)
  have "\<not> i < j" using sorted_wrt_nth_less [OF desc, of i j] i j assms(4) by auto
  then show ?thesis using i j by (auto simp: in_set_conv_nth intro!: exI [of _ j])
qed

lemma well_formed_cut_some:
  assumes "well_formed t" "p \<noteq> []"
  shows "well_formed (filter (\<lambda>(q, _). q \<notin> set (take n (deepest p t))) t)" (is "well_formed ?t")
proof -
  let ?gone = "set (take n (deepest p t))"
  have "isdir ?t q" if "lexists ?t (q @ [name])" for q name
  proof -
    have kept: "lexists t (q @ [name])" "q @ [name] \<notin> ?gone" using that by (auto simp: lexists_def look_filter_keys split: if_splits)
    have "q \<notin> ?gone"
    proof
      assume q: "q \<in> ?gone"
      have "q @ [name] \<in> set (map fst t)" using kept(1) by (force simp: lexists_def dest: map_of_SomeD)
      moreover have "prefix p (q @ [name])" using deepest_prefix [OF in_set_takeD [OF q]] by simp
      ultimately show False using deepest_first [OF q] kept(2) by simp
    qed
    then show ?thesis using well_formed_child [OF assms(1) kept(1)] by (simp add: isdir_def look_filter_keys)
  qed
  moreover have "[] \<notin> ?gone" using assms(2) by (auto dest!: in_set_takeD deepest_prefix)
  ultimately show ?thesis using assms(1) by (simp add: well_formed_def look_filter_keys)
qed

lemma form_rmtree: "keeps keeps_form (rmtree p)"
  unfolding rmtree_def
  by (intro form.keeps_try form.keeps_call form.keeps_if form.keeps_return form.keeps_raise form_faults form_step)
    (auto intro: well_formed_cut well_formed_cut_some)

lemma form_makedirs: "keeps keeps_form (makedirs x p)"
  unfolding makedirs_def
  by (intro form.keeps_control form_mkdir) (auto intro!: form.keeps_control form_mkdir split: exn.splits py_error.splits)

section \<open>System calls leave the variables of the process alone\<close>

lemma memory_step: "same_memory w (w\<lparr>w_tree := t'\<rparr>)" "same_memory w (w\<lparr>w_faults := fs\<rparr>)" "same_memory w (w\<lparr>w_time := n\<rparr>)"
  "same_memory w (w\<lparr>w_draws := n\<rparr>)"
  by (simp_all add: same_memory_def)

lemma memory_calls: "keeps same_memory (call pieces plan part)" "keeps same_memory (atomic plan)"
  by (rule memory.keeps_call memory.keeps_atomic; simp add: memory_step)+

lemma memory_files [intro]:
  "keeps same_memory sync" "keeps same_memory (mkdir p)" "keeps same_memory (replace src dst)" "keeps same_memory (write_file x p c)"
  "keeps same_memory (remove p)" "keeps same_memory (rmtree p)" "keeps same_memory (makedirs x p)"
  unfolding sync_def mkdir_def replace_def write_file_def remove_def rmtree_def makedirs_def
  by (auto intro!: memory_calls memory.keeps_control split: exn.splits py_error.splits)

lemma form_mkdtemp: "keeps keeps_form (mkdtemp_from n s p)"
  by (induction n) (auto simp: Let_def intro!: form.keeps_rules form_mkdir)

lemmas form_rules = form.keeps_rules form_mkdir form_replace form_write form_remove form_rmtree form_makedirs form_mkdtemp

section \<open>Triples with exceptions and crashes\<close>

text \<open>\<open>ensures P m Q E K\<close>: started in \<open>P\<close>, a run of \<open>m\<close> returns in \<open>Q\<close>, raises in \<open>E\<close> or is killed in \<open>K\<close>.\<close>

definition ensures :: "(world \<Rightarrow> bool) \<Rightarrow> 'a io \<Rightarrow> ('a \<Rightarrow> world \<Rightarrow> bool) \<Rightarrow> (exn \<Rightarrow> world \<Rightarrow> bool) \<Rightarrow> (world \<Rightarrow> bool) \<Rightarrow> bool" where
  "ensures P m Q E K \<longleftrightarrow> (\<forall>w. P w \<longrightarrow> (case m w of (Val x, w') \<Rightarrow> Q x w' | (Exn e, w') \<Rightarrow> E e w' | (Killed, w') \<Rightarrow> K w'))"

lemma ensuresI: "(\<And>w. P w \<Longrightarrow> case m w of (Val x, w') \<Rightarrow> Q x w' | (Exn e, w') \<Rightarrow> E e w' | (Killed, w') \<Rightarrow> K w') \<Longrightarrow> ensures P m Q E K"
  by (simp add: ensures_def)

lemma ensuresD:
  assumes "ensures P m Q E K" "P w"
  shows "m w = (Val x, w') \<Longrightarrow> Q x w'" "m w = (Exn e, w') \<Longrightarrow> E e w'" "m w = (Killed, w') \<Longrightarrow> K w'"
  using assms unfolding ensures_def by fastforce+

lemma ensures_weaken:
  assumes "ensures P m Q E K" "\<And>w. P' w \<Longrightarrow> P w" "\<And>x w. Q x w \<Longrightarrow> Q' x w" "\<And>e w. E e w \<Longrightarrow> E' e w" "\<And>w. K w \<Longrightarrow> K' w"
  shows "ensures P' m Q' E' K'"
  using assms unfolding ensures_def by (fastforce split: prod.splits outcome.splits)

lemma ensures_return: "(\<And>w. P w \<Longrightarrow> Q x w) \<Longrightarrow> ensures P (returnI x) Q E K"
  by (simp add: ensures_def returnI_def)

lemma ensures_raise: "(\<And>w. P w \<Longrightarrow> E e w) \<Longrightarrow> ensures P (raiseI e) Q E K"
  by (simp add: ensures_def raiseI_def)

lemma ensures_gets: "(\<And>w. P w \<Longrightarrow> Q (f w) w) \<Longrightarrow> ensures P (gets f) Q E K"
  by (simp add: ensures_def gets_def)

lemma ensures_modify: "(\<And>w. P w \<Longrightarrow> Q () (f w)) \<Longrightarrow> ensures P (modify f) Q E K"
  by (simp add: ensures_def modify_def)

lemma ensures_bind: "ensures P m R E K \<Longrightarrow> (\<And>x. ensures (R x) (f x) Q E K) \<Longrightarrow> ensures P (bindI m f) Q E K"
  unfolding ensures_def bindI_def by (fastforce split: prod.splits outcome.splits)

lemma ensures_then: "ensures P m (\<lambda>_. R) E K \<Longrightarrow> ensures R n Q E K \<Longrightarrow> ensures P (thenI m n) Q E K"
  unfolding thenI_def by (rule ensures_bind)

lemma ensures_try: "ensures P m Q E' K \<Longrightarrow> (\<And>e. ensures (E' e) (h e) Q E K) \<Longrightarrow> ensures P (tryI m h) Q E K"
  unfolding ensures_def tryI_def by (fastforce split: prod.splits outcome.splits)

lemma ensures_tryException:
  assumes "ensures P m Q E' K" "\<And>e. is_Exception e \<Longrightarrow> ensures (E' e) (h e) Q E K" "\<And>e w. \<not> is_Exception e \<Longrightarrow> E' e w \<Longrightarrow> E e w"
  shows "ensures P (tryException m h) Q E K"
  unfolding tryException_def
proof (rule ensures_try [OF assms(1)])
  fix e show "ensures (E' e) (if is_Exception e then h e else raiseI e) Q E K"
    using assms(2, 3) [of e] by (auto intro: ensures_raise)
qed

lemma ensures_finally:
  assumes "ensures P m R E' K" "\<And>x. ensures (R x) f (\<lambda>_. Q x) E K" "\<And>e. ensures (E' e) f (\<lambda>_. E e) E K"
  shows "ensures P (finallyI m f) Q E K"
proof (rule ensuresI)
  fix w assume "P w"
  note m = ensuresD [OF assms(1) this]
  obtain r w' where run: "m w = (r, w')" by (cases "m w")
  show "case finallyI m f w of (Val x, w') \<Rightarrow> Q x w' | (Exn e, w') \<Rightarrow> E e w' | (Killed, w') \<Rightarrow> K w'"
  proof (cases r)
    case (Val x)
    have "ensures (R x) (bindI f (\<lambda>_. returnI x)) Q E K" by (rule ensures_bind [OF assms(2)], rule ensures_return)
    then show ?thesis using m(1) run Val by (auto simp: finallyI_def ensures_def)
  next
    case (Exn e)
    have "ensures (E' e) (bindI f (\<lambda>_. raiseI e)) Q E K" by (rule ensures_bind [OF assms(3)], rule ensures_raise)
    then show ?thesis using m(2) run Exn by (auto simp: finallyI_def ensures_def)
  next
    case Killed
    then show ?thesis using m(3) run by (simp add: finallyI_def)
  qed
qed

lemma ensures_for:
  assumes "\<And>seen x rest. xs = seen @ x # rest \<Longrightarrow> ensures (I seen) (f x) (\<lambda>_. I (seen @ [x])) E K"
  shows "ensures (I []) (forI f xs) (\<lambda>_. I xs) E K"
proof -
  have "ensures (I seen) (forI f rest) (\<lambda>_. I xs) E K" if "xs = seen @ rest" for seen rest
    using that
  proof (induction rest arbitrary: seen)
    case Nil
    then show ?case by (auto intro: ensures_return)
  next
    case (Cons x rest)
    show ?case unfolding forI.simps by (rule ensures_then [OF assms [OF Cons.prems] Cons.IH]) (simp add: Cons.prems)
  qed
  from this [of "[]" xs] show ?thesis by simp
qed

lemma ensures_map:
  assumes "\<And>seen x rest ys. xs = seen @ x # rest \<Longrightarrow> ensures (I seen ys) (f x) (\<lambda>y. I (seen @ [x]) (ys @ [y])) E K"
  shows "ensures (I [] []) (mapI f xs) (\<lambda>ys. I xs ys) E K"
proof -
  have "ensures (I seen ys) (mapI f rest) (\<lambda>zs. I xs (ys @ zs)) E K" if "xs = seen @ rest" for seen rest ys
    using that
  proof (induction rest arbitrary: seen ys)
    case Nil
    then show ?case by (auto intro: ensures_return)
  next
    case (Cons x rest)
    have "ensures (I (seen @ [x]) (ys @ [y])) (bindI (mapI f rest) (\<lambda>zs. returnI (y # zs))) (\<lambda>zs. I xs (ys @ zs)) E K" for y
      by (rule ensures_bind [OF Cons.IH [of "seen @ [x]" "ys @ [y]"]]) (simp_all add: Cons.prems ensures_return)
    then show ?case unfolding mapI.simps by (rule ensures_bind [OF assms [OF Cons.prems]])
  qed
  from this [of "[]" xs "[]"] show ?thesis by simp
qed

lemma ensures_keeps:
  assumes "keeps R m" "\<And>w w'. P w \<Longrightarrow> R w w' \<Longrightarrow> I w'"
  shows "ensures P m (\<lambda>_. I) (\<lambda>_. I) I"
proof (rule ensuresI)
  fix w assume "P w"
  obtain r w' where "m w = (r, w')" by (cases "m w")
  then show "case m w of (Val x, w') \<Rightarrow> I w' | (Exn e, w') \<Rightarrow> I w' | (Killed, w') \<Rightarrow> I w'"
    using assms(2) [OF \<open>P w\<close> keepsD [OF assms(1)]] by (cases r) auto
qed

text \<open>An assertion on the tree and the variables of the process does not see the faults.\<close>

definition stable :: "(world \<Rightarrow> bool) \<Rightarrow> bool" where
  "stable P \<longleftrightarrow> (\<forall>w fs. P (w\<lparr>w_faults := fs\<rparr>) = P w)"

lemma faults_tree_commute: "w\<lparr>w_faults := fs, w_tree := u\<rparr> = (w :: world)\<lparr>w_tree := u, w_faults := fs\<rparr>"
  by (cases w) simp

lemma ensures_call:
  assumes "stable P" "stable Q" "stable S"
    and "\<And>w t'. P w \<Longrightarrow> plan (w_tree w) = Inr t' \<Longrightarrow> Q (w\<lparr>w_tree := t'\<rparr>)"
    and "\<And>w t' n. P w \<Longrightarrow> plan (w_tree w) = Inr t' \<Longrightarrow> S (w\<lparr>w_tree := part n (w_tree w)\<rparr>)"
  shows "ensures P (call pieces plan part) (\<lambda>_. Q) (\<lambda>e w. P w \<or> ((e = KeyboardInterrupt \<or> pieces) \<and> S w)) (\<lambda>w. P w \<or> S w)"
proof (rule ensuresI)
  fix w assume P: "P w"
  have st: "P (w\<lparr>w_faults := fs\<rparr>)" "Q (u\<lparr>w_faults := fs\<rparr>) = Q u" "S (u\<lparr>w_faults := fs\<rparr>) = S u" for fs u
    using P assms(1-3) by (auto simp: stable_def)
  show "case call pieces plan part w of (Val x, w') \<Rightarrow> Q w'
    | (Exn e, w') \<Rightarrow> P w' \<or> (e = KeyboardInterrupt \<or> pieces) \<and> S w' | (Killed, w') \<Rightarrow> P w' \<or> S w'"
  proof (cases "plan (w_tree w)")
    case (Inl e)
    then show ?thesis by (simp add: call_def Let_def st split: fault.split)
  next
    case (Inr t')
    note q = assms(4) [OF P Inr] and s = assms(5) [OF P Inr]
    have "Q (w\<lparr>w_faults := fs, w_tree := t'\<rparr>)" "S (w\<lparr>w_faults := fs, w_tree := part n (w_tree w)\<rparr>)" for fs n
      using st(2) [of fs "w\<lparr>w_tree := t'\<rparr>"] st(3) [of fs "w\<lparr>w_tree := part n (w_tree w)\<rparr>"] q s by (simp_all only: faults_tree_commute)
    then show ?thesis by (simp add: call_def Let_def Inr st split: fault.split)
  qed
qed

lemma ensures_atomic:
  assumes "stable P" "stable Q" and "\<And>w t'. P w \<Longrightarrow> plan (w_tree w) = Inr t' \<Longrightarrow> Q (w\<lparr>w_tree := t'\<rparr>)"
  shows "ensures P (atomic plan) (\<lambda>_. Q) (\<lambda>e w. P w \<or> (e = KeyboardInterrupt \<and> Q w)) (\<lambda>w. P w \<or> Q w)"
proof -
  have "ensures P (atomic plan) (\<lambda>_. Q) (\<lambda>e w. P w \<or> ((e = KeyboardInterrupt \<or> False) \<and> (P w \<or> Q w))) (\<lambda>w. P w \<or> (P w \<or> Q w))"
    unfolding atomic_def
  proof (rule ensures_call)
    fix w t' n assume "P w" "plan (w_tree w) = Inr t'"
    then show "P (w\<lparr>w_tree := if n = 0 then w_tree w else case plan (w_tree w) of Inl _ \<Rightarrow> w_tree w | Inr t' \<Rightarrow> t'\<rparr>) \<or>
        Q (w\<lparr>w_tree := if n = 0 then w_tree w else case plan (w_tree w) of Inl _ \<Rightarrow> w_tree w | Inr t' \<Rightarrow> t'\<rparr>)"
      using assms(3) by auto
  qed (use assms in \<open>auto simp: stable_def\<close>)
  then show ?thesis by (rule ensures_weaken) auto
qed

lemma ensures_conj:
  "ensures P m Q E K \<Longrightarrow> ensures P' m Q' E' K' \<Longrightarrow>
    ensures (\<lambda>w. P w \<and> P' w) m (\<lambda>x w. Q x w \<and> Q' x w) (\<lambda>e w. E e w \<and> E' e w) (\<lambda>w. K w \<and> K' w)"
  unfolding ensures_def by (auto split: prod.splits outcome.splits)

lemma ensures_lift: "(\<And>w x. P w \<Longrightarrow> r = Inr x \<Longrightarrow> Q x w) \<Longrightarrow> (\<And>w e. P w \<Longrightarrow> E e w) \<Longrightarrow> ensures P (liftI r) Q E K"
  by (cases r) (auto simp: liftI_def intro: ensures_return ensures_raise)

lemma ensures_False: "ensures (\<lambda>w. False) m Q E K"
  by (simp add: ensures_def)

lemma ensures_pre_ex: "(\<And>x. ensures (P x) m Q E K) \<Longrightarrow> ensures (\<lambda>w. \<exists>x. P x w) m Q E K"
  unfolding ensures_def by (intro allI impI; elim exE) simp

lemma ensures_if: "(b \<Longrightarrow> ensures P m Q E K) \<Longrightarrow> (\<not> b \<Longrightarrow> ensures P n Q E K) \<Longrightarrow> ensures P (if b then m else n) Q E K"
  by simp

text \<open>The relation of a program whose effects stay within a set of paths and that leaves the staging directories and the list of moves alone.\<close>

definition handles :: "path set \<Rightarrow> world \<Rightarrow> world \<Rightarrow> bool" where
  "handles S w w' \<longleftrightarrow> within S w w' \<and> w_dirs w' = w_dirs w \<and> w_moved w' = w_moved w"

interpretation handle: clock_relation "handles S" for S
  by unfold_locales (auto simp: handles_def frame.refl frame.faults frame.time frame.draws intro: frame.trans)

lemma handlesI: "keeps (within S) m \<Longrightarrow> keeps same_memory m \<Longrightarrow> keeps (handles S) m"
  by (simp add: keeps_def handles_def same_memory_def)

lemma handle_calls:
  "p \<in> S \<Longrightarrow> keeps (handles S) (mkdir p)" "below src \<union> below dst \<subseteq> S \<Longrightarrow> keeps (handles S) (replace src dst)"
  "p \<in> S \<Longrightarrow> keeps (handles S) (write_file x p c)" "below p \<subseteq> S \<Longrightarrow> keeps (handles S) (remove p)"
  "below p \<subseteq> S \<Longrightarrow> keeps (handles S) (rmtree p)"
  by (auto intro!: handlesI within_mkdir within_replace within_write within_remove within_rmtree)

lemma handle_record: "keeps (handles S) (modify (\<lambda>w. w\<lparr>w_record := f w\<rparr>))"
  by (rule handle.keeps_modify) (simp add: handles_def within_def steady_def)

lemma ensures_utc_stamp: "(\<And>w n. P (w\<lparr>w_time := n\<rparr>) = P w) \<Longrightarrow> ensures P utc_stamp (\<lambda>_. P) E K"
  by (simp add: utc_stamp_def ensures_def bindI_def thenI_def gets_def modify_def returnI_def)

lemma ensures_random_name: "(\<And>w n. P (w\<lparr>w_draws := n\<rparr>) = P w) \<Longrightarrow> ensures P random_name (\<lambda>_. P) E K"
  by (simp add: random_name_def ensures_def bindI_def thenI_def gets_def modify_def returnI_def)

lemma ensures_framed:
  assumes "keeps (within S) m" "keeps same_memory m" "\<And>w w'. P w \<Longrightarrow> within S w w' \<Longrightarrow> same_memory w w' \<Longrightarrow> I w'"
  shows "ensures P m (\<lambda>_. I) (\<lambda>_. I) I"
  by (rule ensures_keeps [where R = "\<lambda>w w'. within S w w' \<and> same_memory w w'"]) (use assms in \<open>auto simp: keeps_def\<close>)

text \<open>A program that only creates directories where nothing is.\<close>

definition dirs_added :: "path set \<Rightarrow> tree \<Rightarrow> tree \<Rightarrow> bool" where
  "dirs_added S t t' \<longleftrightarrow> (\<forall>q. look t' q = look t q \<or> q \<in> S \<and> look t q = None \<and> look t' q = Some Dir)"

lemma dirs_added_trans: "dirs_added S t u \<Longrightarrow> dirs_added S u v \<Longrightarrow> dirs_added S t v"
  by (auto simp: dirs_added_def) (metis option.distinct(1))+

definition adds_dirs :: "path set \<Rightarrow> world \<Rightarrow> world \<Rightarrow> bool" where
  "adds_dirs S w w' \<longleftrightarrow> steady w w' \<and> same_memory w w' \<and> dirs_added S (w_tree w) (w_tree w')"

lemma steady_refl: "steady w w"
  by (simp add: steady_def)

interpretation adding: clock_relation "adds_dirs S" for S
  by unfold_locales (auto simp: adds_dirs_def steady_def same_memory_def suffix_tl intro: dirs_added_trans, auto simp: dirs_added_def)

lemma adds_mkdir: "(p \<noteq> [] \<Longrightarrow> p \<in> S) \<Longrightarrow> keeps (adds_dirs S) (mkdir p)"
  unfolding mkdir_def
  by (rule adding.keeps_atomic)
    (auto simp: adds_dirs_def dirs_added_def steady_def same_memory_def suffix_tl lexists_def dest!: mkdir_plan_Inr split: if_splits)

lemma adds_makedirs: "(\<And>k. 0 < k \<Longrightarrow> k \<le> length p \<Longrightarrow> take k p \<in> S) \<Longrightarrow> keeps (adds_dirs S) (makedirs x p)"
proof -
  assume S: "\<And>k. 0 < k \<Longrightarrow> k \<le> length p \<Longrightarrow> take k p \<in> S"
  then have "p \<in> S" if "p \<noteq> []" using that S [of "length p"] by simp
  with S show ?thesis unfolding makedirs_def
    by (intro adding.keeps_control adds_mkdir) (auto intro!: adding.keeps_control adds_mkdir split: exn.splits py_error.splits)
qed

definition plain_file :: "tree \<Rightarrow> path \<Rightarrow> bool" where
  "plain_file t p \<longleftrightarrow> (case look t p of None \<Rightarrow> True | Some (File _) \<Rightarrow> True | _ \<Rightarrow> False)"

lemma plain_file_simps: "plain_file t p \<longleftrightarrow> look t p = None \<or> (\<exists>c. look t p = Some (File c))"
  by (auto simp: plain_file_def split: option.splits entry.splits)

lemma plain_file_write: "plain_file t p \<Longrightarrow> written (look t p) c = File c"
  by (auto simp: plain_file_simps written_def)

lemma well_formed_below:
  assumes "well_formed t" "\<not> isdir t p" "s \<noteq> []"
  shows "look t (p @ s) = None"
  using assms(3)
proof (induction s rule: rev_induct)
  case (snoc x s)
  have "\<not> isdir t (p @ s)" using snoc.IH assms(2) by (cases "s = []") (auto simp: isdir_def)
  then show ?case using well_formed_child [OF assms(1), of "p @ s" x] by (cases "look t (p @ s @ [x])") (auto simp: lexists_def)
qed simp

lemma ensures_makedirs_new:
  assumes "stable P" "p \<noteq> []" "\<And>w w'. P w \<Longrightarrow> adds_dirs {q. prefix q p \<and> q \<noteq> []} w w' \<Longrightarrow> P w'"
  shows "ensures P (makedirs False p) (\<lambda>_ w. P w \<and> look (w_tree w) p = Some Dir \<and> isdir (w_tree w) (butlast p)) (\<lambda>_. P) P"
proof -
  let ?S = "{q. prefix q p \<and> q \<noteq> []}"
  have mk: "keeps (adds_dirs ?S) (mkdir (take k p))" if "0 < k" for k using that by (intro adds_mkdir) (auto simp: take_is_prefix)
  have loop: "ensures P (forI (\<lambda>k. bindI (gets (\<lambda>w. exists (w_tree w) (take k p))) (\<lambda>found.
         if found then returnI ()
         else tryI (mkdir (take k p)) (\<lambda>e. case e of Err (FileExistsError _) \<Rightarrow> returnI () | _ \<Rightarrow> raiseI e))) [1..<length p]) (\<lambda>_. P) (\<lambda>_. P) P"
    by (rule ensures_keeps [where R = "adds_dirs ?S"], intro adding.keeps_control mk)
      (use assms(3) in \<open>auto intro!: adding.keeps_control split: exn.split py_error.split\<close>)
  have stab: "P (w\<lparr>w_faults := fs\<rparr>) = P w" for w fs using assms(1) by (simp add: stable_def)
  have "ensures P (mkdir p) (\<lambda>_ w. P w \<and> look (w_tree w) p = Some Dir \<and> isdir (w_tree w) (butlast p))
      (\<lambda>e w. P w \<or> e = KeyboardInterrupt \<and> (P w \<and> look (w_tree w) p = Some Dir \<and> isdir (w_tree w) (butlast p)))
      (\<lambda>w. P w \<or> (P w \<and> look (w_tree w) p = Some Dir \<and> isdir (w_tree w) (butlast p)))"
    unfolding mkdir_def
  proof (rule ensures_atomic)
    fix w t' assume "P w" "mkdir_plan p (w_tree w) = Inr t'"
    then have t: "t' = put p Dir (w_tree w)" "look (w_tree w) p = None" "isdir (w_tree w) (butlast p)"
      by (auto simp: lexists_def dest!: mkdir_plan_Inr)
    have "adds_dirs ?S w (w\<lparr>w_tree := t'\<rparr>)" using assms(2) t(2) by (auto simp: adds_dirs_def dirs_added_def steady_def same_memory_def t(1))
    then show "P (w\<lparr>w_tree := t'\<rparr>) \<and> look (w_tree (w\<lparr>w_tree := t'\<rparr>)) p = Some Dir \<and> isdir (w_tree (w\<lparr>w_tree := t'\<rparr>)) (butlast p)"
      using assms(3) [OF \<open>P w\<close>] t by (simp add: isdir_put)
  qed (auto simp: stable_def stab)
  then have "ensures P (mkdir p) (\<lambda>_ w. P w \<and> look (w_tree w) p = Some Dir \<and> isdir (w_tree w) (butlast p)) (\<lambda>_. P) P" by (rule ensures_weaken) auto
  then have "ensures P (tryI (mkdir p) (\<lambda>e. bindI (gets (\<lambda>w. isdir (w_tree w) p)) (\<lambda>d. if is_OSError e \<and> False \<and> d then returnI () else raiseI e)))
      (\<lambda>_ w. P w \<and> look (w_tree w) p = Some Dir \<and> isdir (w_tree w) (butlast p)) (\<lambda>_. P) P"
    by (rule ensures_try) (auto intro!: ensures_bind [OF ensures_gets] ensures_raise)
  then show ?thesis unfolding makedirs_def by (rule ensures_then [OF loop])
qed

text \<open>A program that only reads.\<close>

definition reads :: "world \<Rightarrow> world \<Rightarrow> bool" where
  "reads w w' \<longleftrightarrow> w_tree w' = w_tree w \<and> steady w w' \<and> same_memory w w'"

interpretation reading: clock_relation reads
  by unfold_locales (auto simp: reads_def steady_def same_memory_def suffix_tl)

end
