(* ===== verification/Package.thy ===== *)
theory Package
  imports RunTree
begin

text \<open>
  \<^verbatim>\<open>bridge-claims/tools/package.py\<close>: the signable packages of a claims run. A package is current only while the run record
  lists it with the hash of its list of files. \<open>staged\<close> builds packages in staging directories, moves the earlier ones aside, renames the
  new ones into place and lists them; \<open>verify\<close> says which packages are current. The block that fills the staging directories is a
  parameter. Messages to the operator are left out.
\<close>

definition MANIFEST :: string where "MANIFEST = ''PACKAGE.sha256''"

definition GENERATION :: string where "GENERATION = ''GENERATION''"

definition SUPERSEDED :: string where "SUPERSEDED = ''superseded''"

definition QUARANTINE :: string where "QUARANTINE = ''quarantine''"

definition INVALIDATED :: string where "INVALIDATED = ''INVALIDATED.md''"

definition LOCK :: string where "LOCK = ''.packages.lock''"

definition RECORD :: string where "RECORD = ''PACKAGES.json''"

section \<open>Paths and files of a package\<close>

definition regular_tree :: "tree \<Rightarrow> path \<Rightarrow> path list result" where
  "regular_tree t d =
     (if list_ex (islink t) (walked t d) then Inl (ValueError ''not a plain file or directory'')
      else Inr (sort_key path_text (map (drop (length d)) (filter (isfile t) (walked t d)))))"

definition run_root :: "unit io" where
  "run_root = bindI (gets (\<lambda>w. isdir (w_tree w) [])) (\<lambda>d. if d then returnI () else raiseI (Err (SystemExit ''not a run directory'')))"

datatype location = Relative path | Absolute path

fun norm_parts :: "path \<Rightarrow> path \<Rightarrow> path" where
  "norm_parts acc [] = rev acc"
| "norm_parts acc (c # cs) =
     (if c = [] \<or> c = ''.'' then norm_parts acc cs
      else if c = ''..'' then norm_parts (tl acc) cs
      else norm_parts (c # acc) cs)"

definition run_path :: "path \<Rightarrow> tree \<Rightarrow> location \<Rightarrow> path result" where
  "run_path root t loc =
     (let full = norm_parts [] (case loc of Absolute p \<Rightarrow> p | Relative p \<Rightarrow> root @ p);
          rel = drop (length root) full
      in if \<not> prefix root full \<or> rel = [] then Inl (SystemExit ''not a path inside the run'')
         else if list_ex (\<lambda>k. islink t (take k rel)) [1..<Suc (length rel)] then Inl (SystemExit ''is a symlink'')
         else Inr rel)"

definition run_path_io :: "location \<Rightarrow> path io" where
  "run_path_io loc = bindI (gets (\<lambda>w. run_path (w_root w) (w_tree w) loc)) liftI"

definition manifest_line :: "string \<times> path \<Rightarrow> string" where
  "manifest_line = (\<lambda>(digest, rel). digest @ ''  '' @ path_text rel)"

definition manifest_text :: "(string \<times> path) list \<Rightarrow> string" where
  "manifest_text items = concat (map (\<lambda>line. line @ [CHR 0x0A]) (sort_key (drop 66) (map manifest_line items)))"

definition seal :: "path \<Rightarrow> string io" where
  "seal d =
     bindI (bindI (gets (\<lambda>w. regular_tree (w_tree w) d)) liftI) (\<lambda>rels.
     bindI (mapI (\<lambda>rel. bindI (file_sha256 (d @ rel)) (\<lambda>digest. returnI (digest, rel))) (filter (\<lambda>rel. rel \<noteq> [MANIFEST]) rels)) (\<lambda>items.
     thenI (write_file False (d @ [MANIFEST]) (Text (manifest_text items))) (returnI (text_sha256 (manifest_text items)))))"

text \<open>The first free name among \<open>base\<close>, \<open>base-2\<close>, \<open>base-3\<close> and so on: a tree of \<open>n\<close> entries cannot hold \<open>n + 1\<close> of them.\<close>

definition numbered :: "string \<Rightarrow> nat \<Rightarrow> string" where
  "numbered base n = (if n < 2 then base else base @ ''-'' @ str_nat n)"

definition free_name :: "tree \<Rightarrow> path \<Rightarrow> string \<Rightarrow> path" where
  "free_name t dir base =
     (case find (\<lambda>n. \<not> lexists t (dir @ [numbered base n])) [1..<length t + 2] of
        Some n \<Rightarrow> dir @ [numbered base n]
      | None \<Rightarrow> dir @ [base])"

definition set_aside :: "path \<Rightarrow> string \<Rightarrow> path option io" where
  "set_aside target note =
     bindI (gets w_tree) (\<lambda>t.
     if \<not> lexists t target then returnI None
     else if islink t target \<or> \<not> isdir t target then raiseI (Err (ValueError ''a package must be a directory, not a link or file''))
     else
       let root = butlast target @ [SUPERSEDED] in
       if islink t root then raiseI (Err (ValueError ''is a symlink''))
       else
         thenI (makedirs True root)
         (bindI utc_stamp (\<lambda>stamp.
          bindI (gets (\<lambda>w. free_name (w_tree w) root (last target @ ''-'' @ stamp))) (\<lambda>dest.
          thenI (replace target dest)
          (thenI (if note = [] then returnI () else write_file False (dest @ [INVALIDATED]) (Text note))
          (returnI (Some dest)))))))"

definition invalidation_note :: "path \<Rightarrow> string \<Rightarrow> string io" where
  "invalidation_note target reason =
     bindI utc_stamp (\<lambda>stamp. returnI
       (''# Invalidated, do not sign'' @ [CHR 0x0A, CHR 0x0A] @ ''This package was moved out of `'' @ last target @ ''/` at '' @ stamp @
        '' because a rebuild of it failed:'' @ [CHR 0x0A, CHR 0x0A] @ ''```text'' @ [CHR 0x0A] @ reason @ [CHR 0x0A] @ ''```'' @
        [CHR 0x0A, CHR 0x0A] @ ''Nothing in this directory may be signed or sent. Fix the cause and rebuild.'' @ [CHR 0x0A]))"

section \<open>The run record and its lock\<close>

definition empty_record :: run_record where
  "empty_record = \<lparr>rr_revision = 0, rr_updated_at = None, rr_pending = None, rr_packages = []\<rparr>"

definition record_in :: "tree \<Rightarrow> run_record result" where
  "record_in t =
     (case look t [RECORD] of
        None \<Rightarrow> Inr empty_record
      | Some (File (Record r)) \<Rightarrow> Inr r
      | Some (File _) \<Rightarrow> Inl (SystemExit ''not a run record this tool writes'')
      | Some _ \<Rightarrow> Inl (SystemExit ''not a plain file''))"

definition read_record :: "run_record io" where
  "read_record = bindI (gets (\<lambda>w. lexists (w_tree w) [RECORD])) (\<lambda>found.
     thenI (if found then sync else returnI ()) (bindI (gets (\<lambda>w. record_in (w_tree w))) liftI))"

definition partial_record :: "string \<Rightarrow> path" where
  "partial_record token = [''.'' @ RECORD @ ''.'' @ token @ ''.partial'']"

definition write_record :: "string io" where
  "write_record =
     bindI utc_stamp (\<lambda>stamp.
     thenI (modify (\<lambda>w. w\<lparr>w_record := (w_record w)\<lparr>rr_revision := rr_revision (w_record w) + 1, rr_updated_at := Some stamp\<rparr>\<rparr>))
     (bindI (gets w_record) (\<lambda>r.
      bindI random_name (\<lambda>token.
      let partial = partial_record token in
      thenI (finallyI
          (thenI (write_file True partial (Record r)) (replace partial [RECORD]))
          (bindI (gets (\<lambda>w. lexists (w_tree w) partial)) (\<lambda>left. if left then remove partial else returnI ())))
      (thenI sync (returnI (content_sha256 (Record r))))))))"

definition unlist :: "path list \<Rightarrow> run_record \<Rightarrow> run_record" where
  "unlist paths r = r\<lparr>rr_packages := filter (\<lambda>(p, _). \<not> list_ex (\<lambda>q. prefix q p) paths) (rr_packages r)\<rparr>"

definition lock_plan :: "tree \<Rightarrow> exn + tree" where
  "lock_plan t =
     (if isdir t [LOCK] then Inl (OSError ''Is a directory'') else if lexists t [LOCK] then Inr t else Inr (put [LOCK] (File (Text [])) t))"

definition run_lock :: "'a io \<Rightarrow> 'a io" where
  "run_lock m =
     bindI (gets (\<lambda>w. islink (w_tree w) [LOCK])) (\<lambda>l.
     if l then raiseI (Err (SystemExit ''is a symlink''))
     else thenI (atomic lock_plan) (bindI (gets w_busy) (\<lambda>busy.
       if busy then raiseI (Err (SystemExit ''another refresh or quarantine is running; try again when it is done'')) else m)))"

section \<open>Refresh\<close>

definition staging_prefix :: "path \<Rightarrow> string" where
  "staging_prefix rel = ''.'' @ last rel @ ''-staging-''"

definition exn_text :: "exn \<Rightarrow> string" where
  "exn_text e =
     (case e of KeyboardInterrupt \<Rightarrow> ''KeyboardInterrupt'' | OSError s \<Rightarrow> s | Err (SystemExit s) \<Rightarrow> s | Err (ValueError s) \<Rightarrow> s
      | Err (FileExistsError s) \<Rightarrow> s | Err (FileNotFoundError s) \<Rightarrow> s | _ \<Rightarrow> ''Exception'')"

definition fail_closed :: "path list \<Rightarrow> string \<Rightarrow> unit io" where
  "fail_closed rels reason =
     thenI (bindI (gets w_dirs) (\<lambda>dirs. forI rmtree (map snd dirs)))
     (thenI (forI (\<lambda>rel. tryException (bindI (invalidation_note rel reason) (\<lambda>note. thenI (set_aside rel note) (returnI ()))) (\<lambda>e. returnI ())) rels)
     (tryException
        (thenI (modify (\<lambda>w. w\<lparr>w_record := (w_record w)\<lparr>rr_pending := None\<rparr>\<rparr>)) (thenI write_record (returnI ())))
        (\<lambda>e. returnI ())))"

definition leftovers :: "tree \<Rightarrow> path \<Rightarrow> path list" where
  "leftovers t rel = filter (\<lambda>q. q \<noteq> [] \<and> butlast q = butlast rel \<and> startswith (last q) (staging_prefix rel)) (remdups (map fst t))"

definition stage_dir :: "path \<Rightarrow> unit io" where
  "stage_dir rel =
     (let parent = butlast rel in
      thenI (makedirs True parent)
      (thenI (if parent = [] then returnI () else bindI (gets w_root) (\<lambda>root. thenI (run_path_io (Absolute (root @ parent))) (returnI ())))
      (bindI (mkdtemp (staging_prefix rel) parent) (\<lambda>d. modify (\<lambda>w. w\<lparr>w_dirs := w_dirs w @ [(rel, d)]\<rparr>)))))"

definition seal_dir :: "string \<Rightarrow> path \<times> path \<Rightarrow> (path \<times> string) io" where
  "seal_dir generation = (\<lambda>(rel, d).
     thenI (write_file False (d @ [GENERATION]) (Text (generation @ [CHR 0x0A])))
     (thenI sync
     (bindI (seal d) (\<lambda>digest. returnI (rel, digest)))))"

definition list_packages :: "string \<Rightarrow> string \<Rightarrow> (path \<times> string) list \<Rightarrow> run_record \<Rightarrow> run_record" where
  "list_packages generation stamp published r =
     r\<lparr>rr_packages := foldl (\<lambda>d (rel, digest). dict_set rel
          \<lparr>pe_generation = generation, pe_package_sha256 = digest, pe_published_at = stamp\<rparr> d) (rr_packages r) published,
        rr_pending := None\<rparr>"

definition publish :: "path list \<Rightarrow> string \<Rightarrow> ((path \<times> path) list \<Rightarrow> unit io) \<Rightarrow> unit io" where
  "publish rels generation block =
     thenI (forI stage_dir rels)
     (bindI (gets w_dirs) (\<lambda>dirs.
      thenI (block dirs)
      (bindI (mapI (seal_dir generation) dirs) (\<lambda>published.
       thenI (mapI (\<lambda>rel. set_aside rel []) rels)
       (thenI (forI (\<lambda>(rel, d). replace d rel) dirs)
       (bindI utc_stamp (\<lambda>stamp.
        thenI (modify (\<lambda>w. w\<lparr>w_record := list_packages generation stamp published (w_record w)\<rparr>))
        (thenI write_record (returnI ())))))))))"

definition refresh :: "path list \<Rightarrow> bool \<Rightarrow> ((path \<times> path) list \<Rightarrow> unit io) \<Rightarrow> unit io" where
  "refresh rels replace_old block =
     bindI read_record (\<lambda>r.
     thenI (modify (\<lambda>w. w\<lparr>w_record := r\<rparr>))
     (thenI (case rr_pending r of
         Some (Quarantining j _) \<Rightarrow> raiseI (Err (SystemExit ''a quarantine was interrupted''))
       | Some (Refresh targets _) \<Rightarrow> forI (\<lambda>rel. bindI (gets (\<lambda>w. leftovers (w_tree w) rel)) (forI rmtree)) targets
       | None \<Rightarrow> returnI ())
     (bindI (gets (\<lambda>w. list_ex (lexists (w_tree w)) rels)) (\<lambda>existing.
      if existing \<and> \<not> replace_old then raiseI (Err (SystemExit ''exists; pass --replace''))
      else
        bindI utc_stamp (\<lambda>started.
        thenI (modify (\<lambda>w. w\<lparr>w_record := (unlist rels (w_record w))\<lparr>rr_pending := Some (Refresh (sort_key path_text rels) started)\<rparr>\<rparr>))
        (thenI write_record
        (bindI utc_stamp (\<lambda>stamp.
         bindI random_name (\<lambda>token.
         thenI (modify (\<lambda>w. w\<lparr>w_dirs := []\<rparr>))
         (tryI (publish rels (stamp @ ''-'' @ token) block)
           (\<lambda>e. thenI (fail_closed rels (exn_text e)) (raiseI e))))))))))))"

text \<open>\<open>targets\<close> are the keys of a dictionary: a target that is named again the same way counts once.\<close>

definition staged :: "location list \<Rightarrow> bool \<Rightarrow> ((path \<times> path) list \<Rightarrow> unit io) \<Rightarrow> unit io" where
  "staged targets replace_old block =
     thenI run_root
     (bindI (mapI run_path_io (rev (remdups (rev targets)))) (\<lambda>rels.
      if \<not> distinct rels then raiseI (Err (SystemExit ''the same package path is named twice''))
      else run_lock (refresh rels replace_old block)))"

section \<open>Verification\<close>

text \<open>The lines of a text file in universal newline mode, without their ends.\<close>

fun text_lines :: "string \<Rightarrow> string \<Rightarrow> string list" where
  "text_lines acc [] = (if acc = [] then [] else [rev acc])"
| "text_lines acc (c # cs) =
     (if c = CHR 0x0A then rev acc # text_lines [] cs
      else if c = CHR 0x0D then rev acc # text_lines [] (if cs \<noteq> [] \<and> hd cs = CHR 0x0A then tl cs else cs)
      else text_lines (c # acc) cs)"

fun partition_spaces :: "string \<Rightarrow> string \<times> string" where
  "partition_spaces [] = ([], [])"
| "partition_spaces (c # cs) =
     (if startswith (c # cs) ''  '' then ([], drop 1 cs) else (case partition_spaces cs of (a, b) \<Rightarrow> (c # a, b)))"

definition manifest_items :: "string \<Rightarrow> (string, string) dict" where
  "manifest_items s = foldl (\<lambda>d line. case partition_spaces line of (digest, name) \<Rightarrow> dict_set name digest d) [] (text_lines [] s)"

definition name_problem :: "tree \<Rightarrow> path \<Rightarrow> (string \<times> path) list \<Rightarrow> (string, string) dict \<Rightarrow> string \<Rightarrow> string list" where
  "name_problem t d files listed name =
     (case map_of listed name of
        None \<Rightarrow> [name @ '' is not in '' @ MANIFEST]
      | Some digest \<Rightarrow>
          (case map_of files name of
             None \<Rightarrow> [name @ '' is missing'']
           | Some rel \<Rightarrow>
               (case read_entry t (d @ rel) of
                  Inr c \<Rightarrow> if content_sha256 c = digest then [] else [name @ '' differs from '' @ MANIFEST]
                | Inl _ \<Rightarrow> [name @ '' is unreadable''])))"

definition generation_problem :: "tree \<Rightarrow> path \<Rightarrow> path list \<Rightarrow> package_entry \<Rightarrow> string list" where
  "generation_problem t d rels entry =
     (if [GENERATION] \<notin> set rels then [''no '' @ GENERATION]
      else case read_entry t (d @ [GENERATION]) of
          Inr c \<Rightarrow> if strip (content_text c) = pe_generation entry then [] else [GENERATION @ '' is not the one '' @ RECORD @ '' lists'']
        | Inl _ \<Rightarrow> [GENERATION @ '' is unreadable''])"

definition check_package :: "path \<Rightarrow> tree \<Rightarrow> path \<Rightarrow> package_entry \<Rightarrow> string list" where
  "check_package root t rel entry =
     (case run_path root t (Relative rel) of
        Inl e \<Rightarrow> [exn_text (Err e)]
      | Inr _ \<Rightarrow>
          if \<not> isdir t rel then [''missing'']
          else (case regular_tree t rel of
              Inl e \<Rightarrow> [exn_text (Err e)]
            | Inr rels \<Rightarrow>
                if [MANIFEST] \<notin> set rels then [''no '' @ MANIFEST]
                else (case read_entry t (rel @ [MANIFEST]) of
                    Inl _ \<Rightarrow> [MANIFEST @ '' is unreadable'']
                  | Inr c \<Rightarrow>
                      let files = map (\<lambda>p. (path_text p, p)) rels; listed = manifest_items (content_text c) in
                      (if content_sha256 c = pe_package_sha256 entry then [] else [MANIFEST @ '' is not the one '' @ RECORD @ '' lists'']) @
                      concat (map (name_problem t rel files listed)
                        (sort (remdups (filter (\<lambda>n. n \<noteq> MANIFEST) (map fst files) @ dict_keys listed)))) @
                      generation_problem t rel rels entry)))"

definition record_sha256 :: "tree \<Rightarrow> string option" where
  "record_sha256 t =
     (if exists t [RECORD] then (case read_entry t [RECORD] of Inr c \<Rightarrow> Some (content_sha256 c) | Inl _ \<Rightarrow> None) else None)"

definition unlisted_packages :: "tree \<Rightarrow> run_record \<Rightarrow> path list" where
  "unlisted_packages t r =
     sort (filter (\<lambda>d. look t d = Some Dir \<and> list_all (\<lambda>c. c \<noteq> SUPERSEDED \<and> c \<noteq> QUARANTINE \<and> \<not> startswith c ''.'') d \<and>
         lexists t (d @ [MANIFEST]) \<and> \<not> isdir t (d @ [MANIFEST]) \<and> dict_get (rr_packages r) d = None) (walked t []))"

definition pending_text :: "pending \<Rightarrow> string" where
  "pending_text p =
     (case p of
        Refresh _ started \<Rightarrow> ''a refresh started '' @ started @ '' is pending''
      | Quarantining _ started \<Rightarrow> ''a quarantine started '' @ started @ '' is pending'')"

definition verify_one :: "path \<Rightarrow> tree \<Rightarrow> run_record \<Rightarrow> path \<Rightarrow> path \<times> bool \<times> string list" where
  "verify_one root t r rel =
     (case dict_get (rr_packages r) rel of
        None \<Rightarrow> (rel, False, [''not in '' @ RECORD @ '': not to be signed''])
      | Some entry \<Rightarrow>
          let problems = (case rr_pending r of None \<Rightarrow> [] | Some p \<Rightarrow> [pending_text p]) @ check_package root t rel entry
          in (rel, problems = [], if problems = [] then [''generation '' @ pe_generation entry] else problems))"

definition verify :: "path \<Rightarrow> tree \<Rightarrow> location list \<Rightarrow> (string option \<times> run_record \<times> (path \<times> bool \<times> string list) list) result" where
  "verify root t only =
     (if \<not> isdir t [] then Inl (SystemExit ''not a run directory'')
      else
        bindR (record_in t) (\<lambda>r.
        bindR (if only = [] then Inr (sort_key path_text (dict_keys (rr_packages r))) else mapM (run_path root t) only) (\<lambda>wanted.
          Inr (record_sha256 t, r, map (verify_one root t r) wanted @
            (if only = [] then map (\<lambda>rel. (rel, False, [''not in '' @ RECORD @ '': not to be signed''])) (unlisted_packages t r) else [])))))"

section \<open>The tree stays well-formed\<close>

lemma form_memory: "keeps keeps_form (modify (\<lambda>w. w\<lparr>w_record := f w\<rparr>))" "keeps keeps_form (modify (\<lambda>w. w\<lparr>w_dirs := g w\<rparr>))"
  "keeps keeps_form (modify (\<lambda>w. w\<lparr>w_moved := h w\<rparr>))"
  by (rule form.keeps_modify; simp add: keeps_form_def)+

lemma form_run_path: "keeps keeps_form (run_path_io loc)"
  unfolding run_path_io_def by (intro form_rules)

lemma form_write_record: "keeps keeps_form write_record"
  unfolding write_record_def Let_def by (intro form_rules form_memory)

lemma form_read_record: "keeps keeps_form read_record"
  unfolding read_record_def by (intro form_rules)

lemma form_run_root: "keeps keeps_form run_root"
  unfolding run_root_def by (intro form_rules)

lemma well_formed_lock: "well_formed t \<Longrightarrow> lock_plan t = Inr t' \<Longrightarrow> well_formed t'"
  by (auto simp: lock_plan_def well_formed_root intro!: well_formed_put split: if_splits)

lemma form_run_lock: "keeps keeps_form m \<Longrightarrow> keeps keeps_form (run_lock m)"
  unfolding run_lock_def
  by (intro form_rules form.keeps_atomic form_step form_faults; (erule well_formed_lock | assumption)?)

lemma form_set_aside: "keeps keeps_form (set_aside target note)"
  unfolding set_aside_def Let_def by (intro form_rules)

lemma form_seal: "keeps keeps_form (seal d)"
  unfolding seal_def by (intro form_rules)

lemma form_fail_closed: "keeps keeps_form (fail_closed rels reason)"
  unfolding fail_closed_def invalidation_note_def by (intro form_rules form_memory form_set_aside form_write_record)

lemma form_stage_dir: "keeps keeps_form (stage_dir rel)"
  unfolding stage_dir_def mkdtemp_def Let_def by (intro form_rules form_memory form_run_path)

lemma form_seal_dir: "keeps keeps_form (seal_dir generation p)"
  unfolding seal_dir_def by (cases p) (auto intro!: form_rules form_seal)

lemma form_publish: "(\<And>dirs. keeps keeps_form (block dirs)) \<Longrightarrow> keeps keeps_form (publish rels generation block)"
  unfolding publish_def case_prod_unfold
  by (intro form_rules form_memory form_stage_dir form_seal_dir form_set_aside form_write_record)

lemma form_refresh: "(\<And>dirs. keeps keeps_form (block dirs)) \<Longrightarrow> keeps keeps_form (refresh rels replace_old block)"
  unfolding refresh_def
  by (intro form_rules form_memory form_read_record form_write_record form_publish form_fail_closed)
    (auto intro!: form_rules split: option.split pending.split)

lemma form_staged: "(\<And>dirs. keeps keeps_form (block dirs)) \<Longrightarrow> keeps keeps_form (staged targets replace_old block)"
  unfolding staged_def by (intro form_rules form_run_root form_run_path form_run_lock form_refresh)

section \<open>Writing the record\<close>

definition record_paths :: "path set" where
  "record_paths = {p. p \<noteq> [] \<and> (hd p = RECORD \<or> (\<exists>token. hd p = hd (partial_record token)))}"

definition bumped :: "string \<Rightarrow> run_record \<Rightarrow> run_record" where
  "bumped stamp r = r\<lparr>rr_revision := rr_revision r + 1, rr_updated_at := Some stamp\<rparr>"

lemma partial_not_record: "partial_record token \<noteq> [RECORD]" "\<not> prefix (partial_record token) [RECORD]" "\<not> prefix [RECORD] (partial_record token)"
  by (simp_all add: partial_record_def RECORD_def)

lemma below_record_paths: "below [RECORD] \<subseteq> record_paths" "below (partial_record token) \<subseteq> record_paths"
  by (auto simp: record_paths_def partial_record_def below_def prefix_def)

lemma handle_write_record: "keeps (handles record_paths) write_record"
proof -
  have "partial_record token \<in> record_paths" for token by (auto simp: record_paths_def partial_record_def)
  then show ?thesis unfolding write_record_def Let_def
    by (intro handle.keeps_rules handle_calls handle_record Un_least below_record_paths)
qed

lemma remove_partial:
  assumes "m = bindI (gets (\<lambda>w. lexists (w_tree w) (partial_record token))) (\<lambda>left. if left then remove (partial_record token) else returnI ())"
    and "\<And>w. P w \<Longrightarrow> A (look (w_tree w) [RECORD]) (w_record w)"
  shows "ensures P m (\<lambda>_ w. A (look (w_tree w) [RECORD]) (w_record w)) (\<lambda>_ w. A (look (w_tree w) [RECORD]) (w_record w))
    (\<lambda>w. A (look (w_tree w) [RECORD]) (w_record w))"
  unfolding assms(1)
  by (rule ensures_framed [where S = "below (partial_record token)"])
    (use assms(2) in \<open>auto intro!: frame.keeps_rules memory.keeps_rules within_remove simp: within_def same_memory_def partial_not_record\<close>)

lemma ensures_record_file:
  "ensures (\<lambda>w. look (w_tree w) [RECORD] = old \<and> w_record w = r) write_record
    (\<lambda>_ w. \<exists>stamp. look (w_tree w) [RECORD] = Some (File (Record (bumped stamp r))) \<and> w_record w = bumped stamp r)
    (\<lambda>_ w. \<exists>stamp. (look (w_tree w) [RECORD] = old \<or> look (w_tree w) [RECORD] = Some (File (Record (bumped stamp r)))) \<and> w_record w = bumped stamp r)
    (\<lambda>w. \<exists>stamp. (look (w_tree w) [RECORD] = old \<or> look (w_tree w) [RECORD] = Some (File (Record (bumped stamp r)))) \<and> w_record w = bumped stamp r)"
  (is "ensures ?P _ (\<lambda>_. ?Q) (\<lambda>_. ?E) ?E")
  unfolding write_record_def Let_def
proof (intro ensures_bind ensures_then)
  show "ensures ?P utc_stamp (\<lambda>_. ?P) (\<lambda>_. ?E) ?E" by (rule ensures_utc_stamp) simp
next
  fix stamp
  let ?M = "\<lambda>x w. look (w_tree w) [RECORD] = x \<and> w_record w = bumped stamp r" and ?new = "Some (File (Record (bumped stamp r)))"
  show "ensures ?P (modify (\<lambda>w. w\<lparr>w_record := (w_record w)\<lparr>rr_revision := rr_revision (w_record w) + 1, rr_updated_at := Some stamp\<rparr>\<rparr>)) (\<lambda>_. ?M old) (\<lambda>_. ?E) ?E"
    by (rule ensures_modify) (simp add: bumped_def)
  show "ensures (?M old) (gets w_record) (\<lambda>x w. ?M old w \<and> x = bumped stamp r) (\<lambda>_. ?E) ?E" by (rule ensures_gets) simp
  fix x
  show "ensures (\<lambda>w. ?M old w \<and> x = bumped stamp r) random_name (\<lambda>_ w. ?M old w \<and> x = bumped stamp r) (\<lambda>_. ?E) ?E"
    by (rule ensures_random_name) simp
  fix token
  let ?p = "partial_record token"
  have wr: "ensures (\<lambda>w. ?M old w \<and> x = bumped stamp r) (write_file True ?p (Record x)) (\<lambda>_ w. ?M old w \<and> look (w_tree w) ?p = ?new)
      (\<lambda>_ w. ?M old w \<or> ?M ?new w) (\<lambda>w. ?M old w \<or> ?M ?new w)"
    unfolding write_file_def
    by (rule ensures_weaken, rule ensures_call [where P = "\<lambda>w. ?M old w \<and> x = bumped stamp r" and Q = "\<lambda>w. ?M old w \<and> look (w_tree w) ?p = ?new" and S = "?M old"])
      (auto simp: stable_def write_plan_def written_def lexists_def partial_not_record partial_not_record(1) [symmetric] split: if_splits)
  have rp: "ensures (\<lambda>w. ?M old w \<and> look (w_tree w) ?p = ?new) (replace ?p [RECORD]) (\<lambda>_. ?M ?new)
      (\<lambda>_ w. ?M old w \<or> ?M ?new w) (\<lambda>w. ?M old w \<or> ?M ?new w)"
    unfolding replace_def
    by (rule ensures_weaken, rule ensures_atomic [where P = "\<lambda>w. ?M old w \<and> look (w_tree w) ?p = ?new" and Q = "?M ?new"]) (auto simp: stable_def replace_look partial_not_record)
  have cl: "ensures (?M ?new) (bindI (gets (\<lambda>w. lexists (w_tree w) ?p)) (\<lambda>left. if left then remove ?p else returnI ())) (\<lambda>_. ?M ?new) (\<lambda>_. ?E) ?E"
    by (rule ensures_weaken, rule remove_partial [OF HOL.refl, where A = "\<lambda>l y. l = ?new \<and> y = bumped stamp r" and P = "?M ?new"]) auto
  have cl': "ensures (\<lambda>w. ?M old w \<or> ?M ?new w) (bindI (gets (\<lambda>w. lexists (w_tree w) ?p)) (\<lambda>left. if left then remove ?p else returnI ()))
      (\<lambda>_. ?E) (\<lambda>_. ?E) ?E"
    by (rule ensures_weaken, rule remove_partial [OF HOL.refl, where A = "\<lambda>l y. (l = old \<or> l = ?new) \<and> y = bumped stamp r"
        and P = "\<lambda>w. ?M old w \<or> ?M ?new w"]) auto
  have "ensures (\<lambda>w. ?M old w \<and> x = bumped stamp r) (thenI (write_file True ?p (Record x)) (replace ?p [RECORD])) (\<lambda>_. ?M ?new)
      (\<lambda>_ w. ?M old w \<or> ?M ?new w) (\<lambda>w. ?M old w \<or> ?M ?new w)"
    by (rule ensures_then [OF wr rp])
  then have m: "ensures (\<lambda>w. ?M old w \<and> x = bumped stamp r) (thenI (write_file True ?p (Record x)) (replace ?p [RECORD])) (\<lambda>_. ?M ?new)
      (\<lambda>_ w. ?M old w \<or> ?M ?new w) ?E"
    by (rule ensures_weaken) auto
  show "ensures (\<lambda>w. ?M old w \<and> x = bumped stamp r) (finallyI (thenI (write_file True ?p (Record x)) (replace ?p [RECORD]))
      (bindI (gets (\<lambda>w. lexists (w_tree w) ?p)) (\<lambda>left. if left then remove ?p else returnI ()))) (\<lambda>_. ?M ?new) (\<lambda>_. ?E) ?E"
    by (rule ensures_finally [OF m cl cl'])
  show "ensures (?M ?new) sync (\<lambda>_. ?M ?new) (\<lambda>_. ?E) ?E"
    by (rule ensures_weaken, rule ensures_framed [where S = "{}" and P = "?M ?new" and I = "?M ?new"])
      (auto intro: frame.keeps_sync memory.keeps_sync simp: within_def same_memory_def)
  show "ensures (?M ?new) (returnI (content_sha256 (Record x))) (\<lambda>_. ?Q) (\<lambda>_. ?E) ?E" by (rule ensures_return) auto
qed

text \<open>Writing the record replaces it or leaves it; what does not depend on it stays.\<close>

lemma ensures_write_record:
  assumes "\<And>w w'. T w \<Longrightarrow> handles record_paths w w' \<Longrightarrow> T w'"
  shows "ensures (\<lambda>w. T w \<and> look (w_tree w) [RECORD] = old \<and> w_record w = r) write_record
    (\<lambda>_ w. T w \<and> (\<exists>stamp. look (w_tree w) [RECORD] = Some (File (Record (bumped stamp r))) \<and> w_record w = bumped stamp r))
    (\<lambda>_ w. T w \<and> (\<exists>stamp. (look (w_tree w) [RECORD] = old \<or> look (w_tree w) [RECORD] = Some (File (Record (bumped stamp r)))) \<and> w_record w = bumped stamp r))
    (\<lambda>w. T w \<and> (\<exists>stamp. (look (w_tree w) [RECORD] = old \<or> look (w_tree w) [RECORD] = Some (File (Record (bumped stamp r)))) \<and> w_record w = bumped stamp r))"
  by (rule ensures_conj [OF ensures_keeps [OF handle_write_record] ensures_record_file]) (rule assms)

section \<open>Free names\<close>

lemma str_nat_inject: "str_nat m = str_nat n \<longleftrightarrow> m = n"
  by (metis digits_value_str_nat)

lemma numbered_inj: "inj_on (numbered base) {1..}"
  by (auto simp: inj_on_def numbered_def str_nat_inject split: if_splits)

lemma free_name_free: "\<not> lexists t (free_name t dir base)" "\<exists>x. free_name t dir base = dir @ [x]"
proof -
  let ?ns = "[1..<length t + 2]" and ?p = "\<lambda>n. dir @ [numbered base n]"
  have "\<exists>n \<in> set ?ns. \<not> lexists t (?p n)"
  proof (rule ccontr)
    assume "\<not> ?thesis"
    then have "?p ` set ?ns \<subseteq> fst ` set t" by (force simp: lexists_def dest: map_of_SomeD)
    then have "card (?p ` set ?ns) \<le> card (fst ` set t)" by (intro card_mono) auto
    also have "\<dots> \<le> length t" by (rule order.trans [OF card_image_le card_length]) simp
    finally have "card (?p ` set ?ns) \<le> length t" .
    moreover have "inj_on ?p (set ?ns)" using numbered_inj [of base] by (auto simp: inj_on_def)
    then have "card (?p ` set ?ns) = card (set ?ns)" by (rule card_image)
    moreover have "card (set ?ns) = length t + 1" using distinct_card [of ?ns] by (simp del: set_upt upt_Suc)
    ultimately show False by linarith
  qed
  then obtain n where n: "find (\<lambda>n. \<not> lexists t (?p n)) ?ns = Some n" by (meson find_None_iff not_Some_eq)
  then have "\<not> lexists t (?p n)" by (auto simp: find_Some_iff)
  then show "\<not> lexists t (free_name t dir base)" "\<exists>x. free_name t dir base = dir @ [x]" unfolding free_name_def n by simp_all
qed

section \<open>Plain paths\<close>

definition plain_path :: "path \<Rightarrow> bool" where
  "plain_path p \<longleftrightarrow> (\<forall>c \<in> set p. c \<notin> {[], ''.'', ''..''})"

lemma norm_parts_plain: "plain_path p \<Longrightarrow> norm_parts acc p = rev acc @ p"
  by (induction p arbitrary: acc) (auto simp: plain_path_def)

lemma norm_parts_append: "plain_path p \<Longrightarrow> norm_parts acc (xs @ p) = norm_parts acc xs @ p"
  by (induction acc xs rule: norm_parts.induct) (auto simp: norm_parts_plain)

lemma run_path_plain:
  assumes "norm_parts [] root = root" "plain_path p" "p \<noteq> []"
  shows "run_path root t (Relative p) =
    (if \<exists>k. 0 < k \<and> k \<le> length p \<and> islink t (take k p) then Inl (SystemExit ''is a symlink'') else Inr p)"
proof -
  have full: "norm_parts [] (root @ p) = root @ p" using norm_parts_append [OF assms(2)] assms(1) by simp
  have "list_ex (\<lambda>k. islink t (take k p)) [1..<Suc (length p)] \<longleftrightarrow> (\<exists>k. 0 < k \<and> k \<le> length p \<and> islink t (take k p))"
    unfolding list_ex_iff set_upt by (auto simp: Suc_le_eq less_Suc_eq_le)
  then show ?thesis by (auto simp: run_path_def Let_def full assms(3) simp del: upt_Suc)
qed

section \<open>A sample world\<close>

definition sample_world :: "fault list \<Rightarrow> tree \<Rightarrow> world" where
  "sample_world fs t = \<lparr>w_root = [''runs'', ''r1''], w_tree = t, w_faults = fs, w_clock = (\<lambda>n. ''T''), w_time = 0, w_token = str_nat,
     w_draws = 0, w_busy = False, w_record = empty_record, w_dirs = [], w_moved = []\<rparr>"

lemma sample_simps [simp]: "w_tree (sample_world fs t) = t" "w_root (sample_world fs t) = [''runs'', ''r1'']" "w_faults (sample_world fs t) = fs"
  "w_busy (sample_world fs t) = False" "w_token (sample_world fs t) = str_nat" "w_draws (sample_world fs t) = 0"
  by (simp_all add: sample_world_def)

text \<open>A block that writes one file into every staging directory.\<close>

definition sample_block :: "(path \<times> path) list \<Rightarrow> unit io" where
  "sample_block dirs = forI (\<lambda>(rel, d). write_file False (d @ [''batch.json'']) (Text ''[]'')) dirs"

text \<open>The definitions that evaluate a program on a concrete world.\<close>

lemmas io_eval = tryI_def tryException_def thenI_def bindI_def finallyI_def gets_def modify_def returnI_def raiseI_def liftI_def is_Exception_def is_OSError_def
  utc_stamp_def random_name_def sync_def write_file_def replace_def mkdir_def atomic_def call_def Let_def write_plan_def replace_plan_def mkdir_plan_def written_def
  makedirs_def rmtree_def read_file_def read_entry_def lexists_def isdir_def islink_def look_relocate sample_world_def write_record_def record_in_def
  partial_record_def RECORD_def

end
