(* ===== verification/PackageProps.thy ===== *)
theory PackageProps
  imports Package
begin

text \<open>
  What a package is worth: the list of files that \<open>seal\<close> writes is the one \<open>check_package\<close> reads back, and a package that checks out is bound to
  its entry of the run record, file by file.
\<close>

section \<open>The list of files\<close>

definition one_line :: "string \<Rightarrow> bool" where
  "one_line s \<longleftrightarrow> CHR 0x0A \<notin> set s \<and> CHR 0x0D \<notin> set s"

lemma text_lines_line: "one_line l \<Longrightarrow> text_lines acc (l @ CHR 0x0A # rest) = (rev acc @ l) # text_lines [] rest"
  by (induction l arbitrary: acc) (auto simp: one_line_def)

lemma text_lines_concat: "\<forall>l \<in> set lines. one_line l \<Longrightarrow> text_lines [] (concat (map (\<lambda>line. line @ [CHR 0x0A]) lines)) = lines"
  by (induction lines) (simp_all add: text_lines_line)

lemma partition_spaces_digest: "CHR '' '' \<notin> set h \<Longrightarrow> partition_spaces (h @ ''  '' @ name) = (h, name)"
  by (induction h) (auto simp: startswith_def)

lemma insort_key_map: "insort_key f (g x) (map g xs) = map g (insort_key (f \<circ> g) x xs)"
  by (induction xs) auto

lemma sort_key_map: "sort_key f (map g xs) = map g (sort_key (f \<circ> g) xs)"
  by (induction xs) (simp_all add: insort_key_map comp_def)

lemma map_of_dict_sets:
  "distinct (map fst xs) \<Longrightarrow> map_of (foldl (\<lambda>d (k, v). dict_set k v d) d xs) = map_of d ++ map_of xs"
proof (induction xs arbitrary: d)
  case (Cons x xs)
  have "fst x \<notin> dom (map_of xs)" using Cons.prems by (auto simp: dom_map_of_conv_image_fst)
  with Cons show ?case by (cases x) (auto simp: map_add_def split: option.splits)
qed simp

lemma items_of_lines:
  assumes "\<forall>(h, p) \<in> set items. CHR '' '' \<notin> set h"
  shows "foldl (\<lambda>d line. case partition_spaces line of (digest, name) \<Rightarrow> dict_set name digest d) d (map manifest_line items) =
    foldl (\<lambda>d (k, v). dict_set k v d) d (map (\<lambda>(h, p). (path_text p, h)) items)"
  using assms
proof (induction items arbitrary: d)
  case (Cons x items)
  then show ?case by (cases x) (simp add: manifest_line_def partition_spaces_digest [simplified])
qed simp

text \<open>The list of files reads back as it was written.\<close>

lemma manifest_items_text:
  assumes "\<forall>(h, p) \<in> set items. CHR '' '' \<notin> set h \<and> one_line h \<and> one_line (path_text p)" "distinct (map (path_text \<circ> snd) items)"
  shows "map_of (manifest_items (manifest_text items)) = map_of (map (\<lambda>(h, p). (path_text p, h)) items)"
proof -
  let ?its = "sort_key (drop 66 \<circ> manifest_line) items" and ?f = "\<lambda>(h, p). (path_text p, h)"
  have names: "map fst (map ?f xs) = map (path_text \<circ> snd) xs" for xs :: "(string \<times> path) list" by auto
  have perm: "mset ?its = mset items" by simp
  then have "mset (map (path_text \<circ> snd) ?its) = mset (map (path_text \<circ> snd) items)" by (simp only: mset_map)
  then have d: "distinct (map fst (map ?f ?its))" "distinct (map fst (map ?f items))"
    using assms(2) mset_eq_imp_distinct_iff unfolding names by blast+
  have "\<forall>l \<in> set (map manifest_line ?its). one_line l" using assms(1) by (auto simp: manifest_line_def one_line_def)
  then have "manifest_items (manifest_text items) = foldl (\<lambda>d (k, v). dict_set k v d) [] (map ?f ?its)"
    using assms(1) unfolding manifest_items_def manifest_text_def sort_key_map by (subst text_lines_concat) (auto intro!: items_of_lines)
  then have "map_of (manifest_items (manifest_text items)) = map_of (map ?f ?its)" using map_of_dict_sets [OF d(1)] by simp
  also have "\<dots> = map_of (map ?f items)" using d by (simp add: map_of_inject_set [OF d])
  finally show ?thesis .
qed

section \<open>A package and its entry\<close>

definition package_names :: "path list \<Rightarrow> (string \<times> path) list" where
  "package_names rels = map (\<lambda>p. (path_text p, p)) rels"

text \<open>The files of a package: the text at every name.\<close>

definition package_files :: "tree \<Rightarrow> path \<Rightarrow> string \<rightharpoonup> string" where
  "package_files t d name =
     (case regular_tree t d of
        Inl _ \<Rightarrow> None
      | Inr rels \<Rightarrow>
          (case map_of (package_names rels) name of
             None \<Rightarrow> None
           | Some p \<Rightarrow> (case read_entry t (d @ p) of Inr c \<Rightarrow> Some (content_text c) | Inl _ \<Rightarrow> None)))"

lemma path_text_single:
  assumes "path_text p = s" "CHR ''/'' \<notin> set s" "s \<noteq> []"
  shows "p = [s]"
  using assms by (cases p; cases "tl p") (auto simp: path_text_def)

lemma check_package_ok:
  assumes "check_package root t rel entry = []"
  obtains rels c where "regular_tree t rel = Inr rels" "[MANIFEST] \<in> set rels" "read_entry t (rel @ [MANIFEST]) = Inr c"
    "content_sha256 c = pe_package_sha256 entry"
    "\<And>name. name \<noteq> MANIFEST \<and> name \<in> path_text ` set rels \<or> name \<in> fst ` set (manifest_items (content_text c)) \<Longrightarrow>
      name_problem t rel (package_names rels) (manifest_items (content_text c)) name = []"
  using assms unfolding check_package_def Let_def package_names_def
  by (auto split: sum.splits if_splits) fastforce

lemma name_ok:
  assumes "name_problem t d files listed name = []"
  obtains digest p c where "map_of listed name = Some digest" "map_of files name = Some p" "read_entry t (d @ p) = Inr c" "content_sha256 c = digest"
  using assms unfolding name_problem_def by (auto split: option.splits sum.splits if_splits)

lemma package_name_at:
  assumes "check_package root t rel entry = []" "read_entry t (rel @ [MANIFEST]) = Inr c"
  shows "package_files t rel MANIFEST = Some (content_text c)"
    and "name \<noteq> MANIFEST \<Longrightarrow> name \<notin> fst ` set (manifest_items (content_text c)) \<Longrightarrow> package_files t rel name = None"
    and "name \<in> fst ` set (manifest_items (content_text c)) \<Longrightarrow> \<exists>p x. path_text p = name \<and> read_entry t (rel @ p) = Inr x \<and>
      package_files t rel name = Some (content_text x) \<and> map_of (manifest_items (content_text c)) name = Some (content_sha256 x)"
proof -
  from assms obtain rels where r: "regular_tree t rel = Inr rels" "[MANIFEST] \<in> set rels"
    and ok: "\<And>name. name \<noteq> MANIFEST \<and> name \<in> path_text ` set rels \<or> name \<in> fst ` set (manifest_items (content_text c)) \<Longrightarrow>
      name_problem t rel (package_names rels) (manifest_items (content_text c)) name = []"
    by (elim check_package_ok) auto
  have names: "map_of (package_names rels) n = Some p \<Longrightarrow> p \<in> set rels \<and> path_text p = n" for n p
    by (auto simp: package_names_def dest!: map_of_SomeD)
  have "MANIFEST \<in> fst ` set (package_names rels)" using r(2) by (force simp: package_names_def path_text_def)
  then obtain p where p: "map_of (package_names rels) MANIFEST = Some p" by (meson map_of_eq_None_iff not_Some_eq)
  then have "p = [MANIFEST]" using names path_text_single [of p MANIFEST] by (simp add: MANIFEST_def)
  then show "package_files t rel MANIFEST = Some (content_text c)" using r p assms(2) by (simp add: package_files_def)
  show "package_files t rel name = None" if "name \<noteq> MANIFEST" "name \<notin> fst ` set (manifest_items (content_text c))"
  proof -
    have "name \<notin> path_text ` set rels" using ok [of name] that name_ok by (metis map_of_eq_None_iff option.distinct(1))
    then have "map_of (package_names rels) name = None" by (auto simp: map_of_eq_None_iff package_names_def)
    then show ?thesis by (simp add: package_files_def r)
  qed
  assume "name \<in> fst ` set (manifest_items (content_text c))"
  from name_ok [OF ok] this obtain digest p x where "map_of (manifest_items (content_text c)) name = Some digest" "map_of (package_names rels) name = Some p"
    "read_entry t (rel @ p) = Inr x" "content_sha256 x = digest" by metis
  then show "\<exists>p x. path_text p = name \<and> read_entry t (rel @ p) = Inr x \<and>
      package_files t rel name = Some (content_text x) \<and> map_of (manifest_items (content_text c)) name = Some (content_sha256 x)"
    using names by (fastforce simp: package_files_def r)
qed

section \<open>Sealing\<close>

definition clean_path :: "path \<Rightarrow> bool" where
  "clean_path p \<longleftrightarrow> p \<noteq> [] \<and> (\<forall>c \<in> set p. c \<noteq> [] \<and> CHR ''/'' \<notin> set c \<and> one_line c)"

lemma path_text_Cons: "path_text (x # xs) = (if xs = [] then x else x @ ''/'' @ path_text xs)"
  by (cases xs) (simp_all add: path_text_def)

lemma path_text_inj: "clean_path p \<Longrightarrow> clean_path q \<Longrightarrow> path_text p = path_text q \<Longrightarrow> p = q"
proof (induction p arbitrary: q)
  case (Cons x xs)
  obtain y ys where q: "q = y # ys" using Cons.prems(2) by (cases q) (auto simp: clean_path_def)
  let ?first = "takeWhile (\<lambda>c. c \<noteq> CHR ''/'')"
  have first: "?first (path_text (z # zs)) = z" "drop (length z) (path_text (z # zs)) = (if zs = [] then [] else CHR ''/'' # path_text zs)"
    if "CHR ''/'' \<notin> set z" for z zs
    using that by (auto simp: path_text_Cons takeWhile_append takeWhile_eq_all_conv)
  have "CHR ''/'' \<notin> set x" "CHR ''/'' \<notin> set y" using Cons.prems by (auto simp: clean_path_def q)
  then have xy: "x = y" "(if xs = [] then [] else CHR ''/'' # path_text xs) = (if ys = [] then [] else CHR ''/'' # path_text ys)"
    using first Cons.prems(3) unfolding q by metis+
  show ?case
  proof (cases "xs = []")
    case False
    then have "ys \<noteq> []" "path_text xs = path_text ys" using xy(2) by (auto split: if_splits)
    then show ?thesis using Cons.IH [of ys] Cons.prems(1, 2) False xy(1) by (auto simp: clean_path_def q)
  qed (use xy in \<open>auto simp: q split: if_splits\<close>)
qed (simp add: clean_path_def)

lemma one_line_path: "clean_path p \<Longrightarrow> one_line (path_text p)"
proof (induction p)
  case (Cons x xs)
  then show ?case by (cases "xs = []") (auto simp: path_text_Cons clean_path_def one_line_def)
qed (simp add: clean_path_def)

lemma hex_char_plain: "d < 16 \<Longrightarrow> hex_char d \<notin> {CHR '' '', CHR 0x0A, CHR 0x0D}"
proof
  assume "d < 16" "hex_char d \<in> {CHR '' '', CHR 0x0A, CHR 0x0D}"
  then have "of_char (hex_char d) \<in> {32, 10, 13 :: nat}" by auto
  then show False using \<open>d < 16\<close> by (auto simp: hex_char_def split: if_splits)
qed

lemma hex_of_chars: "(\<And>d. d < 16 \<Longrightarrow> hex_char d \<notin> S) \<Longrightarrow> set (hex_of bs) \<inter> S = {}"
proof (induction bs)
  case (Cons b bs)
  have "unat b < 256" using unsigned_less [of b] by simp
  then have "hex_char (unat b div 16) \<notin> S" "hex_char (unat b mod 16) \<notin> S" by (auto intro!: Cons.prems)
  moreover have "set (hex_of (b # bs)) = {hex_char (unat b div 16), hex_char (unat b mod 16)} \<union> set (hex_of bs)" by (auto simp: hex_of_def hex_byte_def)
  moreover have "set (hex_of bs) \<inter> S = {}" by (rule Cons.IH) (rule Cons.prems)
  ultimately show ?case by auto
qed (simp add: hex_of_def)

lemma sha256_plain: "CHR '' '' \<notin> set (content_sha256 c)" "one_line (content_sha256 c)"
  using hex_of_chars [OF hex_char_plain, of "sha256 (encode (content_text c))"]
  by (simp_all add: content_sha256_def text_sha256_def sha256_hex_def one_line_def)

lemma in_walked: "q \<in> set (walked t d) \<longleftrightarrow> lexists t q \<and> strict_prefix d q \<and> (\<forall>k. length d < k \<and> k < length q \<longrightarrow> \<not> islink t (take k q))"
  unfolding walked_def lexists_def list_all_iff set_upt set_filter set_remdups
  by (auto simp: Suc_le_eq map_of_eq_None_iff image_iff dest: map_of_SomeD)

lemma regular_tree_Inr:
  assumes "regular_tree t d = Inr rels"
  shows "set rels = {p. p \<noteq> [] \<and> isfile t (d @ p) \<and> (\<forall>k. 0 < k \<and> k < length p \<longrightarrow> \<not> islink t (d @ take k p))}"
    "lexists t (d @ p) \<Longrightarrow> p \<noteq> [] \<Longrightarrow> (\<forall>k. 0 < k \<and> k < length p \<longrightarrow> \<not> islink t (d @ take k p)) \<Longrightarrow> \<not> islink t (d @ p)"
proof -
  have w: "d @ p \<in> set (walked t d) \<longleftrightarrow> lexists t (d @ p) \<and> p \<noteq> [] \<and> (\<forall>k. 0 < k \<and> k < length p \<longrightarrow> \<not> islink t (d @ take k p))" for p
  proof -
    have "(\<forall>k. length d < k \<and> k < length (d @ p) \<longrightarrow> \<not> islink t (take k (d @ p))) \<longleftrightarrow> (\<forall>k. 0 < k \<and> k < length p \<longrightarrow> \<not> islink t (d @ take k p))"
      (is "?L \<longleftrightarrow> ?R")
    proof
      assume L: ?L
      show ?R
      proof (intro allI impI)
        fix k assume "0 < k \<and> k < length p"
        then show "\<not> islink t (d @ take k p)" using L [rule_format, of "length d + k"] by simp
      qed
    next
      assume R: ?R
      show ?L
      proof (intro allI impI)
        fix k assume "length d < k \<and> k < length (d @ p)"
        then have "0 < k - length d \<and> k - length d < length p" "take k (d @ p) = d @ take (k - length d) p" by auto
        then show "\<not> islink t (take k (d @ p))" using R by auto
      qed
    qed
    then show ?thesis by (auto simp: in_walked strict_prefix_def)
  qed
  have rels: "set rels = drop (length d) ` {q \<in> set (walked t d). isfile t q}" "\<forall>q \<in> set (walked t d). \<not> islink t q"
    using assms by (auto simp: regular_tree_def list_ex_iff split: if_splits)
  have ex: "isfile t q \<Longrightarrow> lexists t q" for q by (auto simp: isfile_def lexists_def split: option.splits)
  have "p \<in> set rels \<longleftrightarrow> d @ p \<in> set (walked t d) \<and> isfile t (d @ p)" for p
  proof -
    have "q \<in> set (walked t d) \<Longrightarrow> q = d @ drop (length d) q" for q by (auto simp: in_walked strict_prefix_def prefix_def)
    then show ?thesis unfolding rels(1) by (fastforce simp: image_iff)
  qed
  then show "set rels = {p. p \<noteq> [] \<and> isfile t (d @ p) \<and> (\<forall>k. 0 < k \<and> k < length p \<longrightarrow> \<not> islink t (d @ take k p))}"
    using ex by (auto simp: w)
  show "lexists t (d @ p) \<Longrightarrow> p \<noteq> [] \<Longrightarrow> (\<forall>k. 0 < k \<and> k < length p \<longrightarrow> \<not> islink t (d @ take k p)) \<Longrightarrow> \<not> islink t (d @ p)"
    using rels(2) w [of p] by blast
qed

definition hashed :: "tree \<Rightarrow> path \<Rightarrow> path \<Rightarrow> string \<times> path \<Rightarrow> bool" where
  "hashed t d rel item \<longleftrightarrow> (\<exists>c. read_entry t (d @ rel) = Inr c \<and> item = (content_sha256 c, rel))"

lemma ensures_hash: "ensures (\<lambda>w. w_tree w = t) (file_sha256 p) (\<lambda>h w. w_tree w = t \<and> (\<exists>c. read_entry t p = Inr c \<and> h = content_sha256 c)) (\<lambda>_ _. True) (\<lambda>_. True)"
  unfolding file_sha256_def
proof (rule ensures_bind)
  show "ensures (\<lambda>w. w_tree w = t) (read_file p) (\<lambda>c w. w_tree w = t \<and> read_entry t p = Inr c) (\<lambda>_ _. True) (\<lambda>_. True)"
    unfolding read_file_def
  proof (rule ensures_then)
    show "ensures (\<lambda>w. w_tree w = t) sync (\<lambda>_ w. w_tree w = t) (\<lambda>_ _. True) (\<lambda>_. True)"
      by (rule ensures_weaken [OF ensures_keeps [OF reading.keeps_sync, where P = "\<lambda>w. w_tree w = t" and I = "\<lambda>w. w_tree w = t"]]) (auto simp: reads_def)
    show "ensures (\<lambda>w. w_tree w = t) (bindI (gets (\<lambda>w. read_entry (w_tree w) p)) (\<lambda>r. case r of Inl e \<Rightarrow> raiseI e | Inr c \<Rightarrow> returnI c))
        (\<lambda>c w. w_tree w = t \<and> read_entry t p = Inr c) (\<lambda>_ _. True) (\<lambda>_. True)"
      by (rule ensures_bind [OF ensures_gets [where Q = "\<lambda>x w. w_tree w = t \<and> x = read_entry t p"]])
        (auto intro: ensures_return ensures_raise split: sum.split)
  qed
qed (auto intro: ensures_return)

lemma ensures_seal:
  assumes "regular_tree t d = Inr rels"
  shows "ensures (\<lambda>w. w_tree w = t) (seal d)
    (\<lambda>digest w. \<exists>items. list_all2 (hashed t d) (filter (\<lambda>rel. rel \<noteq> [MANIFEST]) rels) items \<and> digest = text_sha256 (manifest_text items) \<and>
      w_tree w = put (d @ [MANIFEST]) (File (Text (manifest_text items))) t) (\<lambda>_ _. True) (\<lambda>_. True)"
  (is "ensures ?P _ ?Q _ _")
proof -
  let ?xs = "filter (\<lambda>rel. rel \<noteq> [MANIFEST]) rels"
  let ?I = "\<lambda>seen items w. ?P w \<and> list_all2 (hashed t d) seen items"
  have "ensures (?I seen items) (bindI (file_sha256 (d @ rel)) (\<lambda>digest. returnI (digest, rel))) (\<lambda>y. ?I (seen @ [rel]) (items @ [y])) (\<lambda>_ _. True) (\<lambda>_. True)" for seen items rel
  proof (cases "list_all2 (hashed t d) seen items")
    case True
    have "ensures (?I seen items) (file_sha256 (d @ rel)) (\<lambda>h w. ?P w \<and> (\<exists>c. read_entry t (d @ rel) = Inr c \<and> h = content_sha256 c)) (\<lambda>_ _. True) (\<lambda>_. True)"
      by (rule ensures_weaken [OF ensures_hash]) auto
    then show ?thesis by (rule ensures_bind) (rule ensures_return, use True in \<open>auto simp: hashed_def intro!: list_all2_appendI\<close>)
  qed (simp add: ensures_False)
  then have items: "ensures (?I [] []) (mapI (\<lambda>rel. bindI (file_sha256 (d @ rel)) (\<lambda>digest. returnI (digest, rel))) ?xs) (?I ?xs) (\<lambda>_ _. True) (\<lambda>_. True)"
    by (rule ensures_map [where I = ?I])
  have link: "\<not> islink t (d @ [MANIFEST])" using regular_tree_Inr(2) [OF assms, of "[MANIFEST]"]
    by (cases "look t (d @ [MANIFEST])") (auto simp: islink_def lexists_def)
  then have wr: "written (look t (d @ [MANIFEST])) x = File x" for x
    by (auto simp: written_def islink_def split: option.splits entry.splits)
  have store: "ensures (?I ?xs items) (thenI (write_file False (d @ [MANIFEST]) (Text (manifest_text items))) (returnI (text_sha256 (manifest_text items)))) ?Q (\<lambda>_ _. True) (\<lambda>_. True)" for items
  proof (cases "list_all2 (hashed t d) ?xs items")
    case True
    let ?R = "\<lambda>w. w_tree w = put (d @ [MANIFEST]) (File (Text (manifest_text items))) t"
    have "ensures ?P (write_file False (d @ [MANIFEST]) (Text (manifest_text items))) (\<lambda>_. ?R) (\<lambda>_ _. True) (\<lambda>_. True)"
      unfolding write_file_def
      by (rule ensures_weaken, rule ensures_call [where P = ?P and Q = ?R and S = "\<lambda>_. True"]) (auto simp: stable_def write_plan_def wr split: if_splits)
    then have "ensures (?I ?xs items) (write_file False (d @ [MANIFEST]) (Text (manifest_text items))) (\<lambda>_. ?R) (\<lambda>_ _. True) (\<lambda>_. True)" by (rule ensures_weaken) auto
    then show ?thesis by (rule ensures_then) (rule ensures_return, use True in blast)
  qed (simp add: ensures_False)
  have reg: "ensures ?P (bindI (gets (\<lambda>w. regular_tree (w_tree w) d)) liftI) (\<lambda>x w. x = rels \<and> ?I [] [] w) (\<lambda>_ _. True) (\<lambda>_. True)"
    by (rule ensures_bind [OF ensures_gets [where Q = "\<lambda>x w. x = Inr rels \<and> ?P w"]]) (auto simp: assms liftI_def ensures_False intro: ensures_return split: sum.split)
  show ?thesis unfolding seal_def
  proof (rule ensures_bind [OF reg])
    fix x
    show "ensures (\<lambda>w. x = rels \<and> ?I [] [] w) (bindI (mapI (\<lambda>rel. bindI (file_sha256 (d @ rel)) (\<lambda>digest. returnI (digest, rel))) (filter (\<lambda>rel. rel \<noteq> [MANIFEST]) x)) (\<lambda>items.
        thenI (write_file False (d @ [MANIFEST]) (Text (manifest_text items))) (returnI (text_sha256 (manifest_text items))))) ?Q (\<lambda>_ _. True) (\<lambda>_. True)"
      using ensures_bind [OF items store] by (cases "x = rels") (simp_all add: ensures_False)
  qed
qed

lemma regular_tree_sealed:
  assumes "regular_tree t d = Inr rels" "t' = put (d @ [MANIFEST]) (File c) t"
  shows "islink t' q = islink t q" "\<exists>rels'. regular_tree t' d = Inr rels' \<and> set rels' = insert [MANIFEST] (set rels)"
    "q \<noteq> d @ [MANIFEST] \<Longrightarrow> read_entry t' q = read_entry t q" "read_entry t' (d @ [MANIFEST]) = Inr c"
proof -
  have "\<not> islink t (d @ [MANIFEST])" using regular_tree_Inr(2) [OF assms(1), of "[MANIFEST]"]
    by (cases "look t (d @ [MANIFEST])") (auto simp: islink_def lexists_def)
  then have link: "islink t' q = islink t q" for q by (auto simp: assms(2) islink_def)
  then show "islink t' q = islink t q" .
  have "lexists t' q \<longleftrightarrow> q = d @ [MANIFEST] \<or> lexists t q" for q by (simp add: assms(2) lexists_put)
  then have "q \<in> set (walked t' d) \<Longrightarrow> q = d @ [MANIFEST] \<or> q \<in> set (walked t d)" for q by (auto simp: in_walked link)
  moreover have "\<not> islink t' (d @ [MANIFEST])" by (simp add: assms(2) islink_def)
  moreover have "\<forall>q \<in> set (walked t d). \<not> islink t q" using assms(1) by (auto simp: regular_tree_def list_ex_iff split: if_splits)
  ultimately have "\<not> list_ex (islink t') (walked t' d)" by (auto simp: list_ex_iff link)
  then obtain rels' where rels': "regular_tree t' d = Inr rels'" by (simp add: regular_tree_def)
  have "isfile t' (d @ p) \<longleftrightarrow> p = [MANIFEST] \<or> isfile t (d @ p)" for p by (auto simp: assms(2) isfile_def)
  then have "set rels' = insert [MANIFEST] (set rels)"
    unfolding regular_tree_Inr(1) [OF rels'] regular_tree_Inr(1) [OF assms(1)] by (auto simp: link)
  then show "\<exists>rels'. regular_tree t' d = Inr rels' \<and> set rels' = insert [MANIFEST] (set rels)" using rels' by blast
  show "q \<noteq> d @ [MANIFEST] \<Longrightarrow> read_entry t' q = read_entry t q" "read_entry t' (d @ [MANIFEST]) = Inr c"
    by (simp_all add: assms(2) read_entry_def)
qed

lemma sealed_names:
  assumes "list_all2 (hashed t d) xs items" "\<forall>p \<in> set xs. clean_path p" "distinct xs"
  shows "map_of (manifest_items (manifest_text items)) name = (if name \<in> path_text ` set xs then
      (case read_entry t (d @ the_inv_into (set xs) path_text name) of Inr c \<Rightarrow> Some (content_sha256 c) | Inl _ \<Rightarrow> None) else None)"
    "fst ` set (manifest_items (manifest_text items)) = path_text ` set xs"
proof -
  have inj: "inj_on path_text (set xs)" using assms(2) path_text_inj by (auto simp: inj_on_def)
  have snd: "map snd items = xs" using assms(1) by (induction rule: list_all2_induct) (auto simp: hashed_def)
  have item: "\<exists>c. read_entry t (d @ p) = Inr c \<and> h = content_sha256 c" if "(h, p) \<in> set items" for h p
    using assms(1) that by (induction rule: list_all2_induct) (auto simp: hashed_def)
  have d: "distinct (map (path_text \<circ> snd) items)" using inj assms(3) by (simp add: distinct_map snd flip: map_map)
  have plain: "\<forall>(h, p) \<in> set items. CHR '' '' \<notin> set h \<and> one_line h \<and> one_line (path_text p)"
  proof (intro ballI, clarify)
    fix h p assume mem: "(h, p) \<in> set items"
    then have "p \<in> set xs" using snd by force
    then show "CHR '' '' \<notin> set h \<and> one_line h \<and> one_line (path_text p)" using item [OF mem] sha256_plain one_line_path assms(2) by auto
  qed
  note m = manifest_items_text [OF plain d]
  have dist: "distinct (map fst (map (\<lambda>(h, p). (path_text p, h)) items))" using d by (simp add: case_prod_unfold comp_def)
  have "name \<in> fst ` set (manifest_items (manifest_text items)) \<longleftrightarrow> name \<in> path_text ` set xs" for name
  proof -
    have "name \<in> fst ` set (manifest_items (manifest_text items)) \<longleftrightarrow> map_of (map (\<lambda>(h, p). (path_text p, h)) items) name \<noteq> None"
      using m by (metis map_of_eq_None_iff)
    also have "\<dots> \<longleftrightarrow> name \<in> path_text ` set xs" by (force simp: map_of_eq_None_iff snd [symmetric])
    finally show ?thesis .
  qed
  then show keys: "fst ` set (manifest_items (manifest_text items)) = path_text ` set xs" by blast
  show "map_of (manifest_items (manifest_text items)) name = (if name \<in> path_text ` set xs then
      (case read_entry t (d @ the_inv_into (set xs) path_text name) of Inr c \<Rightarrow> Some (content_sha256 c) | Inl _ \<Rightarrow> None) else None)"
  proof (cases "name \<in> path_text ` set xs")
    case True
    then obtain h p where hp: "(h, p) \<in> set items" "path_text p = name" by (auto simp: snd [symmetric])
    then have p: "the_inv_into (set xs) path_text name = p" using inj snd by (force intro!: the_inv_into_f_eq)
    have "(name, h) \<in> set (map (\<lambda>(h, p). (path_text p, h)) items)" using hp by force
    then have "map_of (map (\<lambda>(h, p). (path_text p, h)) items) name = Some h" using dist by (simp add: map_of_eq_Some_iff)
    then show ?thesis using True item [OF hp(1)] by (auto simp: m p)
  next
    case False
    then show ?thesis using keys by (auto simp: map_of_eq_None_iff)
  qed
qed

lemma regular_tree_distinct:
  assumes "regular_tree t d = Inr rels"
  shows "distinct rels"
proof -
  have "inj_on (drop (length d)) (set (walked t d))"
    by (rule inj_onI) (auto simp: in_walked strict_prefix_def prefix_def)
  then have "distinct (map (drop (length d)) (filter (isfile t) (walked t d)))"
    by (auto simp: distinct_map walked_def elim: inj_on_subset)
  then show ?thesis using assms by (auto simp: regular_tree_def split: if_splits)
qed

lemma sealed_no_problem:
  assumes "list_all2 (hashed t d) xs items" "\<forall>p \<in> insert [MANIFEST] (set xs). clean_path p" "distinct xs" "[MANIFEST] \<notin> set xs"
    "set rels = insert [MANIFEST] (set xs)" "\<And>q. q \<noteq> d @ [MANIFEST] \<Longrightarrow> read_entry t' q = read_entry t q" "name \<in> path_text ` set xs"
  shows "name_problem t' d (package_names rels) (manifest_items (manifest_text items)) name = []"
proof -
  have clean: "\<forall>p \<in> set xs. clean_path p" using assms(2) by blast
  have inj: "inj_on path_text (set xs)" using clean path_text_inj by (auto simp: inj_on_def)
  obtain p where p: "p \<in> set xs" "path_text p = name" using assms(7) by blast
  then obtain i where "i < length xs" "xs ! i = p" by (auto simp: in_set_conv_nth)
  then obtain c where c: "read_entry t (d @ p) = Inr c" using assms(1) by (auto simp: list_all2_conv_all_nth hashed_def)
  have "the_inv_into (set xs) path_text name = p" using inj p by (force intro!: the_inv_into_f_eq)
  then have listed: "map_of (manifest_items (manifest_text items)) name = Some (content_sha256 c)"
    using sealed_names(1) [OF assms(1) clean assms(3), of name] assms(7) c by simp
  have "name \<in> fst ` set (package_names rels)" using p assms(5) by (force simp: package_names_def)
  then obtain p' where p': "map_of (package_names rels) name = Some p'" by (meson map_of_eq_None_iff not_Some_eq)
  then have "p' \<in> set rels" "path_text p' = name" by (auto simp: package_names_def dest!: map_of_SomeD)
  then have "p' = p" using p assms(2, 5) path_text_inj by auto
  moreover have "d @ p \<noteq> d @ [MANIFEST]" using p(1) assms(4) by auto
  ultimately show ?thesis using p' listed c assms(6) [of "d @ p"] by (simp add: name_problem_def)
qed

lemma seal_check:
  assumes "seal d w = (Val digest, w')" "regular_tree (w_tree w) d = Inr rels" "\<forall>p \<in> set rels. clean_path p"
    "run_path root (w_tree w) (Relative d) = Inr d" "isdir (w_tree w) d"
    "[GENERATION] \<in> set rels" "read_entry (w_tree w) (d @ [GENERATION]) = Inr g" "strip (content_text g) = generation"
  shows "check_package root (w_tree w') d \<lparr>pe_generation = generation, pe_package_sha256 = digest, pe_published_at = stamp\<rparr> = []"
proof -
  let ?t = "w_tree w" and ?t' = "w_tree w'" and ?xs = "filter (\<lambda>rel. rel \<noteq> [MANIFEST]) rels"
  from ensuresD(1) [OF ensures_seal [OF assms(2)] HOL.refl assms(1)]
  obtain items where items: "list_all2 (hashed ?t d) ?xs items" "digest = text_sha256 (manifest_text items)"
    and t': "?t' = put (d @ [MANIFEST]) (File (Text (manifest_text items))) ?t" by blast
  note sealed = regular_tree_sealed [OF assms(2) t']
  obtain rels' where rels': "regular_tree ?t' d = Inr rels'" "set rels' = insert [MANIFEST] (set rels)" using sealed(2) by blast
  have set': "set rels' = insert [MANIFEST] (set ?xs)" using rels'(2) by auto
  have "clean_path [MANIFEST]" by (simp add: clean_path_def MANIFEST_def one_line_def)
  then have clean: "\<forall>p \<in> insert [MANIFEST] (set ?xs). clean_path p" using assms(3) by auto
  have dist: "distinct ?xs" using regular_tree_distinct [OF assms(2)] by simp
  let ?listed = "manifest_items (manifest_text items)"
  have keys: "fst ` set ?listed = path_text ` set ?xs" using sealed_names(2) [OF items(1)] clean dist by blast
  have "name \<in> path_text ` set ?xs" if "name \<in> path_text ` set rels'" "name \<noteq> MANIFEST" for name
    using that set' by (auto simp: path_text_def)
  then have ok: "name_problem ?t' d (package_names rels') ?listed name = []"
    if "name \<in> path_text ` set rels' \<and> name \<noteq> MANIFEST \<or> name \<in> fst ` set ?listed" for name
    using that keys by (intro sealed_no_problem [OF items(1) clean dist _ set']) (auto simp: sealed(3))
  have "islink ?t' = islink ?t" using sealed(1) by blast
  then have "run_path root ?t' (Relative d) = run_path root ?t (Relative d)" unfolding run_path_def by (simp only:)
  then have "run_path root ?t' (Relative d) = Inr d" using assms(4) by simp
  moreover have "isdir ?t' d" using assms(5) by (simp add: t' isdir_put)
  moreover have "content_sha256 (Text (manifest_text items)) = digest" by (simp add: content_sha256_def items(2))
  moreover have "d @ [GENERATION] \<noteq> d @ [MANIFEST]" by (simp add: GENERATION_def MANIFEST_def)
  then have "generation_problem ?t' d rels' \<lparr>pe_generation = generation, pe_package_sha256 = digest, pe_published_at = stamp\<rparr> = []"
    using assms(6-8) rels'(2) by (simp add: generation_problem_def sealed(3))
  moreover have "[MANIFEST] \<in> set rels'" using rels'(2) by simp
  ultimately show ?thesis using rels'(1) sealed(4) ok unfolding check_package_def Let_def
    by (simp add: package_names_def [symmetric]) (force simp: package_names_def)
qed

text \<open>C16. What \<open>seal\<close> seals, \<open>verify\<close> accepts. If sealing a package directory returns, whatever else happened, and the package holds a \<^verbatim>\<open>GENERATION\<close> file, no name
  with a line break and no link on the way to it, then the new tree checks out against the entry with that generation and the digest \<open>seal\<close> returned.\<close>

theorem sealed_package_verifies:
  assumes "seal d w = (Val digest, w')" "regular_tree (w_tree w) d = Inr rels" "\<forall>p \<in> set rels. clean_path p"
    "run_path root (w_tree w) (Relative d) = Inr d" "isdir (w_tree w) d"
    "[GENERATION] \<in> set rels" "read_entry (w_tree w) (d @ [GENERATION]) = Inr g" "strip (content_text g) = generation"
  shows "check_package root (w_tree w') d \<lparr>pe_generation = generation, pe_package_sha256 = digest, pe_published_at = stamp\<rparr> = []"
  by (rule seal_check [OF assms])

definition sample_generation :: string where "sample_generation = ''g1'' @ [CHR 0x0A]"

definition sample_manifest :: string where
  "sample_manifest = manifest_text [(content_sha256 (Text sample_generation), [GENERATION])]"

definition sample_notes :: tree where
  "sample_notes = [([''notes.md''], File (Text ''kept''))]"

definition sample_package :: "tree \<Rightarrow> tree" where
  "sample_package rest = [([], Dir), ([''release''], Dir), ([''release'', GENERATION], File (Text sample_generation))] @ rest"

lemma sample_regular:
  assumes "rest = [] \<or> rest = sample_notes"
  shows "regular_tree (sample_package rest) [''release''] = Inr [[GENERATION]]" "run_path [''runs'', ''r1''] (sample_package rest) (Relative [''release'']) = Inr [''release'']"
proof -
  have "regular_tree (sample_package []) [''release''] = Inr [[GENERATION]]" "run_path [''runs'', ''r1''] (sample_package []) (Relative [''release'']) = Inr [''release'']"
    "regular_tree (sample_package sample_notes) [''release''] = Inr [[GENERATION]]"
    "run_path [''runs'', ''r1''] (sample_package sample_notes) (Relative [''release'']) = Inr [''release'']" by code_simp+
  then show "regular_tree (sample_package rest) [''release''] = Inr [[GENERATION]]" "run_path [''runs'', ''r1''] (sample_package rest) (Relative [''release'']) = Inr [''release'']"
    using assms by auto
qed

lemma sample_looks: "isdir (sample_package rest) [''release'']" "read_entry (sample_package rest) [''release'', GENERATION] = Inr (Text sample_generation)"
  "strip sample_generation = ''g1''"
  "rest = [] \<or> rest = sample_notes \<Longrightarrow> write_plan False [''release'', MANIFEST] c (sample_package rest) = Inr (put [''release'', MANIFEST] (File c) (sample_package rest))"
proof -
  show "strip sample_generation = ''g1''" by code_simp
qed (auto simp: read_entry_def sample_package_def sample_notes_def GENERATION_def MANIFEST_def write_plan_def isdir_def written_def)

lemma sample_seal:
  assumes "rest = [] \<or> rest = sample_notes"
  obtains w' where "seal [''release''] (sample_world [] (sample_package rest)) =
      (Val (text_sha256 sample_manifest), w')"
    "w_tree w' = put [''release'', MANIFEST] (File (Text sample_manifest)) (sample_package rest)"
proof -
  let ?t = "sample_package rest"
  define w where "w = (sample_world [] ?t)\<lparr>w_faults := [], w_tree := ?t\<rparr>"
  have w: "w_tree w = ?t" "w_faults w = []" "file_sha256 [''release'', GENERATION] (sample_world [] ?t) = (Val (content_sha256 (Text sample_generation)), w)"
    by (simp_all add: w_def file_sha256_def read_file_def bindI_def thenI_def gets_def returnI_def sync_def atomic_def call_def Let_def sample_looks)
  let ?m = sample_manifest
  have wr: "write_file False [''release'', MANIFEST] (Text ?m) w = (Val (), w\<lparr>w_faults := [], w_tree := put [''release'', MANIFEST] (File (Text ?m)) ?t\<rparr>)"
    using sample_looks(4) [OF assms, of "Text ?m"] w(1, 2) by (simp add: write_file_def call_def Let_def)
  have "GENERATION \<noteq> MANIFEST" by (simp add: GENERATION_def MANIFEST_def)
  then have "seal [''release''] (sample_world [] ?t) = (Val (text_sha256 ?m), w\<lparr>w_faults := [], w_tree := put [''release'', MANIFEST] (File (Text ?m)) ?t\<rparr>)"
    using w(3) wr by (simp add: seal_def bindI_def thenI_def gets_def liftI_def returnI_def sample_regular [OF assms] sample_manifest_def)
  then show ?thesis by (rule that) simp
qed

lemma sample_check:
  assumes "rest = [] \<or> rest = sample_notes"
  shows "check_package [''runs'', ''r1''] (put [''release'', MANIFEST] (File (Text sample_manifest)) (sample_package rest))
    [''release''] \<lparr>pe_generation = ''g1'', pe_package_sha256 = text_sha256 sample_manifest, pe_published_at = ''T''\<rparr> = []"
  by (rule sample_seal [OF assms], drule seal_check [where rels = "[[GENERATION]]" and root = "[''runs'', ''r1'']" and g = "Text sample_generation" and generation = "''g1''" and stamp = "''T''"])
    (simp_all add: sample_regular [OF assms] sample_looks clean_path_def one_line_def, simp add: GENERATION_def)

theorem sealed_package_verifies_witness:
  "\<exists>digest w'. seal [''release''] (sample_world [] (sample_package [])) = (Val digest, w') \<and>
     check_package [''runs'', ''r1''] (w_tree w') [''release''] \<lparr>pe_generation = ''g1'', pe_package_sha256 = digest, pe_published_at = ''T''\<rparr> = []"
proof -
  obtain digest w' where run: "seal [''release''] (sample_world [] (sample_package [])) = (Val digest, w')" by (rule sample_seal [of "[]"]) auto
  then show ?thesis using sealed_package_verifies [OF run, of "[[GENERATION]]" "[''runs'', ''r1'']" "Text sample_generation" "''g1''" "''T''"] sample_regular [of "[]"] sample_looks
    by (auto simp: clean_path_def GENERATION_def one_line_def)
qed

text \<open>C17. A package that checks out is the package that was listed. If two run directories both check out against the same entry of the run record,
  and no two different files of the two packages have the same SHA-256, then the packages hold the same file names with the same contents: a
  signer who verifies against the published record has the builder's files, and no file of the package is outside its list.\<close>

theorem verify_binds_package:
  assumes "check_package root t rel entry = []" "check_package root' t' rel entry = []"
    "\<forall>p p' c c'. path_text p = path_text p' \<and> read_entry t (rel @ p) = Inr c \<and> read_entry t' (rel @ p') = Inr c' \<and>
       content_sha256 c = content_sha256 c' \<longrightarrow> content_text c = content_text c'"
  shows "package_files t rel = package_files t' rel"
proof
  fix name
  obtain c where c: "read_entry t (rel @ [MANIFEST]) = Inr c" "content_sha256 c = pe_package_sha256 entry" by (rule check_package_ok [OF assms(1)])
  obtain c' where c': "read_entry t' (rel @ [MANIFEST]) = Inr c'" "content_sha256 c' = pe_package_sha256 entry" by (rule check_package_ok [OF assms(2)])
  have eq: "content_text c' = content_text c" using assms(3) c c' by metis
  note n = package_name_at [OF assms(1) c(1)] and n' = package_name_at [OF assms(2) c'(1), unfolded eq]
  show "package_files t rel name = package_files t' rel name"
  proof (cases "name \<in> fst ` set (manifest_items (content_text c))")
    case True
    show ?thesis using n(3) [OF True] n'(3) [OF True] assms(3) by (metis option.inject)
  next
    case False
    then show ?thesis using n(1, 2) n'(1, 2) by (cases "name = MANIFEST") simp_all
  qed
qed

theorem verify_binds_package_witness:
  "package_files (put [''release'', MANIFEST] (File (Text sample_manifest)) (sample_package [])) [''release''] =
   package_files (put [''release'', MANIFEST] (File (Text sample_manifest)) (sample_package sample_notes)) [''release'']"
proof (rule verify_binds_package [OF sample_check sample_check])
  let ?t = "\<lambda>rest. put [''release'', MANIFEST] (File (Text sample_manifest)) (sample_package rest)"
  have at: "p = [MANIFEST] \<and> c = Text sample_manifest \<or> p = [GENERATION] \<and> c = Text sample_generation"
    if "read_entry (?t rest) ([''release''] @ p) = Inr c" "rest = [] \<or> rest = sample_notes" for p c rest
    using that by (auto simp: read_entry_def sample_package_def sample_notes_def split: if_splits)
  show "\<forall>p p' c c'. path_text p = path_text p' \<and> read_entry (?t []) ([''release''] @ p) = Inr c \<and> read_entry (?t sample_notes) ([''release''] @ p') = Inr c' \<and>
       content_sha256 c = content_sha256 c' \<longrightarrow> content_text c = content_text c'"
  proof (intro allI impI, elim conjE)
    fix p p' c c' assume "path_text p = path_text p'" "read_entry (?t []) ([''release''] @ p) = Inr c" "read_entry (?t sample_notes) ([''release''] @ p') = Inr c'"
    then show "content_text c = content_text c'" using at [of "[]" p c] at [of sample_notes p' c'] by (auto simp: path_text_def GENERATION_def MANIFEST_def)
  qed
qed auto

end
