(* ===== verification/RefreshRecord.thy ===== *)
theory RefreshRecord
  imports Package
begin

text \<open>
  The run record under a refresh. Whatever fails, the record is the earlier one, or lists none of the targets, or lists all of them with their
  new entries; the other packages stay listed as they were.
\<close>

section \<open>Programs that leave the record alone\<close>

definition spares :: "world \<Rightarrow> world \<Rightarrow> bool" where
  "spares w w' \<longleftrightarrow> within (- {[RECORD]}) w w' \<and> same_memory w w'"

interpretation spare: clock_relation spares
  by unfold_locales (auto simp: spares_def same_memory_def within_def steady_def suffix_tl)

lemma sparesI: "keeps (within (- {[RECORD]})) m \<Longrightarrow> keeps same_memory m \<Longrightarrow> keeps spares m"
  by (simp add: keeps_def spares_def)

lemma prefix_record: "prefix p [RECORD] \<longleftrightarrow> p = [] \<or> p = [RECORD]"
  by (cases p) auto

lemma spare_calls:
  "p \<noteq> [RECORD] \<Longrightarrow> keeps spares (mkdir p)" "\<not> prefix src [RECORD] \<Longrightarrow> \<not> prefix dst [RECORD] \<Longrightarrow> keeps spares (replace src dst)"
  "p \<noteq> [RECORD] \<Longrightarrow> keeps spares (write_file x p c)" "\<not> prefix p [RECORD] \<Longrightarrow> keeps spares (rmtree p)"
  "p = [] \<or> hd p \<noteq> RECORD \<Longrightarrow> keeps spares (makedirs x p)"
proof -
  show "p = [] \<or> hd p \<noteq> RECORD \<Longrightarrow> keeps spares (makedirs x p)"
  proof (rule sparesI [OF within_makedirs])
    assume p: "p = [] \<or> hd p \<noteq> RECORD"
    then show "p \<in> - {[RECORD]}" by auto
    fix k assume "0 < k" "k \<le> length p"
    then show "take k p \<in> - {[RECORD]}" using p by (cases p; cases k) auto
  qed auto
qed (auto intro!: sparesI within_mkdir within_replace within_write within_rmtree)

definition guarded :: "(world \<Rightarrow> bool) \<Rightarrow> bool" where
  "guarded P \<longleftrightarrow> (\<forall>w w'. P w \<longrightarrow> spares w w' \<longrightarrow> P w')"

lemma ensures_pre_or: "ensures P m Q E K \<Longrightarrow> ensures P' m Q E K \<Longrightarrow> ensures (\<lambda>w. P w \<or> P' w) m Q E K"
  by (simp add: ensures_def)

lemma ensures_pre_static: "(A \<Longrightarrow> ensures P m Q E K) \<Longrightarrow> (\<And>w. P' w \<Longrightarrow> A \<and> P w) \<Longrightarrow> ensures P' m Q E K"
  by (simp add: ensures_def)

lemma ensures_spare: "guarded P \<Longrightarrow> keeps spares m \<Longrightarrow> ensures P m (\<lambda>_. P) (\<lambda>_. P) P"
  by (rule ensures_keeps [where R = spares]) (auto simp: guarded_def)

lemma guarded_and: "guarded P \<Longrightarrow> guarded (\<lambda>w. P w \<and> A)"
  by (auto simp: guarded_def)

definition proper :: "path \<Rightarrow> bool" where
  "proper p \<longleftrightarrow> p \<noteq> [] \<and> hd p \<noteq> RECORD"

lemma proper_simps: "proper p \<Longrightarrow> \<not> prefix p [RECORD]" "proper p \<Longrightarrow> proper (butlast p @ [SUPERSEDED])" "proper (p @ [x, y]) \<or> p \<noteq> [] \<longrightarrow> p @ [x, y] \<noteq> [RECORD]"
  "proper p \<Longrightarrow> p @ q \<noteq> [RECORD]" "proper p \<Longrightarrow> \<not> prefix (p @ q) [RECORD]"
  by (cases p; auto simp: proper_def prefix_record SUPERSEDED_def RECORD_def)+

lemma ensures_set_aside:
  assumes "guarded P" "proper target"
  shows "ensures P (set_aside target note) (\<lambda>_. P) (\<lambda>_. P) P"
proof -
  let ?root = "butlast target @ [SUPERSEDED]"
  note p = proper_simps(2) [OF assms(2)] and step = ensures_spare [OF assms(1)]
  have rest: "ensures (\<lambda>w. P w \<and> (\<exists>x. dest = ?root @ [x])) (thenI (replace target dest)
      (thenI (if note = [] then returnI () else write_file False (dest @ [INVALIDATED]) (Text note)) (returnI (Some dest)))) (\<lambda>_. P) (\<lambda>_. P) P" for dest
  proof (cases "\<exists>x. dest = ?root @ [x]")
    case True
    then have "\<not> prefix dest [RECORD]" "dest @ [INVALIDATED] \<noteq> [RECORD]" by (auto simp: prefix_record)
    then have "keeps spares (thenI (replace target dest) (thenI (if note = [] then returnI () else write_file False (dest @ [INVALIDATED]) (Text note)) (returnI (Some dest))))"
      using proper_simps(1) [OF assms(2)] by (auto intro!: spare.keeps_rules spare_calls)
    from step [OF this] show ?thesis by (rule ensures_weaken) auto
  qed (simp add: ensures_False)
  have mk: "keeps spares (makedirs True ?root)" using p by (intro spare_calls) (simp add: proper_def)
  have free: "ensures P (gets (\<lambda>w. free_name (w_tree w) ?root n)) (\<lambda>dest w. P w \<and> (\<exists>x. dest = ?root @ [x])) (\<lambda>_. P) P" for n
    by (rule ensures_gets) (use free_name_free(2) in blast)
  have move: "ensures P (thenI (makedirs True ?root) (bindI utc_stamp (\<lambda>stamp. bindI (gets (\<lambda>w. free_name (w_tree w) ?root (last target @ ''-'' @ stamp))) (\<lambda>dest.
      thenI (replace target dest) (thenI (if note = [] then returnI () else write_file False (dest @ [INVALIDATED]) (Text note)) (returnI (Some dest))))))) (\<lambda>_. P) (\<lambda>_. P) P"
    by (rule ensures_then [OF step [OF mk] ensures_bind [OF step [OF spare.keeps_utc_stamp] ensures_bind [OF free rest]]])
  show ?thesis unfolding set_aside_def Let_def
    by (intro ensures_bind [OF ensures_gets [where Q = "\<lambda>_. P"]] ensures_if ensures_return ensures_raise move)
qed

section \<open>Staging\<close>

text \<open>The names of staging directories start with a dot, so that none of them is the record.\<close>

definition hidden :: "path \<Rightarrow> bool" where
  "hidden d \<longleftrightarrow> d \<noteq> [] \<and> startswith (last d) ''.''"

lemma hidden_record: "hidden d \<Longrightarrow> \<not> prefix d [RECORD]" "hidden d \<Longrightarrow> d @ [x] \<noteq> [RECORD]"
  unfolding prefix_record by (auto simp: hidden_def RECORD_def startswith_def)

lemma ensures_mkdtemp:
  assumes "guarded P" "startswith start ''.''"
  shows "ensures P (mkdtemp_from n start parent) (\<lambda>d w. P w \<and> hidden d) (\<lambda>_. P) P"
proof (induction n)
  case (Suc n)
  have h: "hidden (parent @ [start @ token])" for token using assms(2) by (cases start) (auto simp: hidden_def startswith_def)
  have "ensures P (thenI (mkdir (parent @ [start @ token])) (returnI (parent @ [start @ token]))) (\<lambda>d w. P w \<and> hidden d) (\<lambda>_. P) P" for token
    by (rule ensures_then [OF ensures_spare [OF assms(1) spare_calls(1)] ensures_return]) (use h hidden_record in \<open>auto simp: prefix_record\<close>)
  then show ?case unfolding mkdtemp_from.simps Let_def
    by (intro ensures_bind [OF ensures_spare [OF assms(1) spare.keeps_random_name]] ensures_bind [OF ensures_gets [where Q = "\<lambda>_. P"]] ensures_if Suc) auto
qed (auto intro: ensures_raise)

text \<open>The record file and the record in memory, with staging directories only.\<close>

definition record_at :: "entry option \<Rightarrow> run_record \<Rightarrow> world \<Rightarrow> bool" where
  "record_at rec rm w \<longleftrightarrow> look (w_tree w) [RECORD] = rec \<and> w_record w = rm \<and> (\<forall>(rel, d) \<in> set (w_dirs w). proper rel \<and> hidden d)"

lemma guarded_record_at: "guarded (record_at rec rm)"
  by (auto simp: guarded_def record_at_def spares_def within_def same_memory_def)

lemmas ensures_at = ensures_spare [OF guarded_record_at]

lemma ensures_stage_dir:
  assumes "proper rel"
  shows "ensures (\<lambda>w. record_at rec rm w \<and> map fst (w_dirs w) = seen) (stage_dir rel)
    (\<lambda>_ w. record_at rec rm w \<and> map fst (w_dirs w) = seen @ [rel]) (\<lambda>_. record_at rec rm) (record_at rec rm)"
  (is "ensures ?P _ ?Q ?E ?K")
proof -
  have g: "guarded ?P" by (auto simp: guarded_def record_at_def spares_def within_def same_memory_def)
  have step: "ensures ?P m (\<lambda>_. ?P) ?E ?K" if "keeps spares m" for m :: "unit io" by (rule ensures_weaken [OF ensures_spare [OF g that]]) auto
  have mk: "keeps spares (makedirs True (butlast rel))" using assms by (intro spare_calls) (cases rel; auto simp: proper_def)
  have rp: "keeps spares (run_path_io loc)" for loc unfolding run_path_io_def by (intro spare.keeps_rules)
  have chk: "keeps spares (if butlast rel = [] then returnI () else bindI (gets w_root) (\<lambda>root. thenI (run_path_io (Absolute (root @ butlast rel))) (returnI ())))"
    by (intro spare.keeps_rules rp)
  have "startswith (staging_prefix rel) ''.''" by (simp add: staging_prefix_def startswith_def)
  from ensures_mkdtemp [OF g this] have tmp: "ensures ?P (mkdtemp (staging_prefix rel) (butlast rel)) (\<lambda>d w. ?P w \<and> hidden d) ?E ?K"
    unfolding mkdtemp_def by (rule ensures_weaken) auto
  have "ensures (\<lambda>w. ?P w \<and> hidden d) (modify (\<lambda>w. w\<lparr>w_dirs := w_dirs w @ [(rel, d)]\<rparr>)) ?Q ?E ?K" for d
    by (rule ensures_modify) (use assms in \<open>auto simp: record_at_def\<close>)
  then show ?thesis unfolding stage_dir_def Let_def
    by (rule ensures_then [OF step [OF mk] ensures_then [OF step [OF chk] ensures_bind [OF tmp]]])
qed

lemma spare_seal: "d @ [MANIFEST] \<noteq> [RECORD] \<Longrightarrow> keeps spares (seal d)"
  unfolding seal_def by (intro spare.keeps_rules spare_calls)

lemma ensures_seal_dir:
  assumes "hidden d" "guarded P"
  shows "ensures P (seal_dir generation (rel, d)) (\<lambda>y w. P w \<and> fst y = rel) (\<lambda>_. P) P"
proof -
  have "keeps spares (write_file False (d @ [GENERATION]) (Text (generation @ [CHR 0x0A])))" "keeps spares (seal d)"
    using assms(1) by (auto intro!: spare_calls spare_seal hidden_record)
  note steps = this [THEN ensures_spare [OF assms(2)]]
  show ?thesis unfolding seal_dir_def prod.case
    by (rule ensures_then [OF steps(1) ensures_then [OF ensures_spare [OF assms(2) spare.keeps_sync] ensures_bind [OF steps(2) ensures_return]]]) simp
qed

text \<open>The targets are listed, with one generation, and every other package as before. The generation is one of \<open>gens\<close>: the stamps and tokens that
  were not drawn yet when the refresh began, for \<open>generations w\<close>. The digests are left open.\<close>

definition generations :: "world \<Rightarrow> string set" where
  "generations w = {w_clock w i @ ''-'' @ w_token w j | i j. w_time w \<le> i \<and> w_draws w \<le> j}"

definition publishes :: "string set \<Rightarrow> path list \<Rightarrow> run_record \<Rightarrow> run_record \<Rightarrow> bool" where
  "publishes gens rels r r' \<longleftrightarrow> rr_pending r' = None \<and>
     (\<exists>generation \<in> gens. \<exists>stamp digest. \<forall>p. dict_get (rr_packages r') p =
        (if p \<in> set rels then Some \<lparr>pe_generation = generation, pe_package_sha256 = digest p, pe_published_at = stamp\<rparr> else dict_get (rr_packages r) p))"

lemma list_packages_get:
  "\<exists>digest. \<forall>p. dict_get (rr_packages (list_packages generation stamp published r)) p =
    (if p \<in> fst ` set published then Some \<lparr>pe_generation = generation, pe_package_sha256 = digest p, pe_published_at = stamp\<rparr> else dict_get (rr_packages r) p)"
  unfolding list_packages_def run_record.simps
proof (induction published rule: rev_induct)
  case (snoc x xs)
  obtain rel h where x: "x = (rel, h)" by (cases x)
  from snoc obtain digest where "\<forall>p. dict_get (foldl (\<lambda>d (rel, digest). dict_set rel \<lparr>pe_generation = generation, pe_package_sha256 = digest, pe_published_at = stamp\<rparr> d) (rr_packages r) xs) p =
    (if p \<in> fst ` set xs then Some \<lparr>pe_generation = generation, pe_package_sha256 = digest p, pe_published_at = stamp\<rparr> else dict_get (rr_packages r) p)" by auto
  then show ?case by (intro exI [of _ "digest(rel := h)"]) (simp add: x)
qed simp

lemma publishes_listed: "map fst published = rels \<Longrightarrow> generation \<in> gens \<Longrightarrow> publishes gens rels r (list_packages generation stamp published r)"
  "publishes gens rels r r' \<Longrightarrow> publishes gens rels r (bumped stamp r')" "publishes gens rels r r' \<Longrightarrow> publishes gens rels r (r'\<lparr>rr_pending := None\<rparr>)"
proof -
  assume rels: "map fst published = rels" and gen: "generation \<in> gens"
  have "rr_pending (list_packages generation stamp published r) = None" by (simp add: list_packages_def)
  moreover have "fst ` set published = set rels" unfolding rels [symmetric] by simp
  note list_packages_get [of generation stamp published r, unfolded this]
  ultimately show "publishes gens rels r (list_packages generation stamp published r)" using gen unfolding publishes_def by blast
qed (auto simp: publishes_def bumped_def)

text \<open>Everything before the last write leaves the record.\<close>

lemma ensures_staged:
  fixes block :: "(path \<times> path) list \<Rightarrow> unit io"
  assumes "\<forall>rel \<in> set rels. proper rel" "\<And>dirs. keeps spares (block dirs)"
  shows "ensures (\<lambda>w. record_at rec rm w \<and> w_dirs w = [])
    (thenI (forI stage_dir rels) (bindI (gets w_dirs) (\<lambda>dirs. thenI (block dirs) (bindI (mapI (seal_dir generation) dirs) (\<lambda>published.
       thenI (mapI (\<lambda>rel. set_aside rel []) rels) (thenI (forI (\<lambda>(rel, d). replace d rel) dirs) (returnI published)))))))
    (\<lambda>published w. record_at rec rm w \<and> map fst published = rels) (\<lambda>_. record_at rec rm) (record_at rec rm)"
proof -
  let ?R = "record_at rec rm" and ?D = "\<lambda>dirs w. record_at rec rm w \<and> w_dirs w = dirs"
  have gD: "guarded (?D dirs)" for dirs by (auto simp: guarded_def record_at_def spares_def within_def same_memory_def)
  have stepD: "ensures (?D dirs) m (\<lambda>_. ?D dirs) (\<lambda>_. ?R) ?R" if "keeps spares m" for m :: "unit io" and dirs
    by (rule ensures_weaken [OF ensures_spare [OF gD that]]) auto
  have "ensures (\<lambda>w. ?R w \<and> map fst (w_dirs w) = []) (forI stage_dir rels) (\<lambda>_ w. ?R w \<and> map fst (w_dirs w) = rels) (\<lambda>_. ?R) ?R"
    by (rule ensures_for [where I = "\<lambda>seen w. ?R w \<and> map fst (w_dirs w) = seen"], rule ensures_stage_dir) (use assms(1) in auto)
  then have stage: "ensures (\<lambda>w. ?R w \<and> w_dirs w = []) (forI stage_dir rels) (\<lambda>_ w. ?R w \<and> map fst (w_dirs w) = rels) (\<lambda>_. ?R) ?R"
    by (rule ensures_weaken) auto
  have dirs: "ensures (\<lambda>w. ?R w \<and> map fst (w_dirs w) = rels) (gets w_dirs)
      (\<lambda>dirs w. ?D dirs w \<and> map fst dirs = rels \<and> (\<forall>(rel, d) \<in> set dirs. proper rel \<and> hidden d)) (\<lambda>_. ?R) ?R"
    by (rule ensures_gets) (auto simp: record_at_def)
  have seal: "ensures (?D dirs) (mapI (seal_dir generation) dirs) (\<lambda>ys w. ?D dirs w \<and> map fst ys = map fst dirs) (\<lambda>_. ?R) ?R"
    if "\<forall>(rel, d) \<in> set dirs. proper rel \<and> hidden d" for dirs
  proof -
    have "ensures (\<lambda>w. ?D dirs w \<and> map fst ys = map fst seen) (seal_dir generation x) (\<lambda>y w. ?D dirs w \<and> map fst (ys @ [y]) = map fst (seen @ [x])) (\<lambda>_. ?R) ?R"
      if split: "dirs = seen @ x # rest" for seen x rest ys
    proof -
      obtain rel d where x: "x = (rel, d)" by (cases x)
      have "hidden d" using \<open>\<forall>(rel, d) \<in> set dirs. proper rel \<and> hidden d\<close> split x by auto
      from ensures_seal_dir [OF this guarded_and [OF gD, where A = "map fst ys = map fst seen"], where rel = rel]
      show ?thesis unfolding x by (rule ensures_weaken) auto
    qed
    from ensures_map [where I = "\<lambda>seen ys w. ?D dirs w \<and> map fst ys = map fst seen", OF this] show ?thesis by simp
  qed
  have aside: "ensures (?D dirs) (mapI (\<lambda>rel. set_aside rel []) rels) (\<lambda>_. ?D dirs) (\<lambda>_. ?R) ?R" for dirs
    by (rule ensures_map [where I = "\<lambda>_ _. ?D dirs"], rule ensures_weaken [OF ensures_set_aside [OF gD]]) (use assms(1) in auto)
  have move: "ensures (?D dirs) (forI (\<lambda>(rel, d). replace d rel) dirs) (\<lambda>_. ?D dirs) (\<lambda>_. ?R) ?R" if hid: "\<forall>(rel, d) \<in> set dirs. proper rel \<and> hidden d" for dirs
  proof (rule stepD, rule spare.keeps_for)
    fix x assume "x \<in> set dirs"
    then obtain rel d where "x = (rel, d)" "proper rel" "hidden d" using hid by (cases x) auto
    then show "keeps spares (case x of (rel, d) \<Rightarrow> replace d rel)" by (simp add: spare_calls(2) [OF hidden_record(1) proper_simps(1)])
  qed
  have tail: "ensures (\<lambda>w. ?D dirs w \<and> map fst dirs = rels \<and> (\<forall>(rel, d) \<in> set dirs. proper rel \<and> hidden d))
      (thenI (block dirs) (bindI (mapI (seal_dir generation) dirs) (\<lambda>published.
        thenI (mapI (\<lambda>rel. set_aside rel []) rels) (thenI (forI (\<lambda>(rel, d). replace d rel) dirs) (returnI published)))))
      (\<lambda>published w. ?R w \<and> map fst published = rels) (\<lambda>_. ?R) ?R" for dirs
  proof (cases "map fst dirs = rels \<and> (\<forall>(rel, d) \<in> set dirs. proper rel \<and> hidden d)")
    case True
    then have hid: "\<forall>(rel, d) \<in> set dirs. proper rel \<and> hidden d" by blast
    have fin: "ensures (\<lambda>w. ?D dirs w \<and> map fst ys = map fst dirs) (thenI (mapI (\<lambda>rel. set_aside rel []) rels) (thenI (forI (\<lambda>(rel, d). replace d rel) dirs) (returnI ys)))
        (\<lambda>published w. ?R w \<and> map fst published = rels) (\<lambda>_. ?R) ?R" for ys
    proof (cases "map fst ys = map fst dirs")
      case eq: True
      have "ensures (?D dirs) (thenI (mapI (\<lambda>rel. set_aside rel []) rels) (thenI (forI (\<lambda>(rel, d). replace d rel) dirs) (returnI ys)))
        (\<lambda>published w. ?R w \<and> map fst published = rels) (\<lambda>_. ?R) ?R"
        by (rule ensures_then [OF aside ensures_then [OF move [OF hid] ensures_return]]) (use eq True in auto)
      then show ?thesis by (rule ensures_weaken) auto
    qed (simp add: ensures_False)
    have "ensures (?D dirs) (thenI (block dirs) (bindI (mapI (seal_dir generation) dirs) (\<lambda>published.
        thenI (mapI (\<lambda>rel. set_aside rel []) rels) (thenI (forI (\<lambda>(rel, d). replace d rel) dirs) (returnI published)))))
      (\<lambda>published w. ?R w \<and> map fst published = rels) (\<lambda>_. ?R) ?R"
      by (rule ensures_then [OF stepD [OF assms(2)] ensures_bind [OF seal [OF hid] fin]])
    then show ?thesis by (rule ensures_weaken) auto
  next
    case False
    then show ?thesis unfolding ensures_def by blast
  qed
  show ?thesis by (rule ensures_then [OF stage ensures_bind [OF dirs tail]])
qed

text \<open>The last write lists the targets; it is the record or it is not.\<close>

lemma publish_eq:
  "publish rels generation block w =
    bindI (thenI (forI stage_dir rels) (bindI (gets w_dirs) (\<lambda>dirs. thenI (block dirs) (bindI (mapI (seal_dir generation) dirs) (\<lambda>published.
       thenI (mapI (\<lambda>rel. set_aside rel []) rels) (thenI (forI (\<lambda>(rel, d). replace d rel) dirs) (returnI published)))))))
     (\<lambda>published. bindI utc_stamp (\<lambda>stamp. thenI (modify (\<lambda>w. w\<lparr>w_record := list_packages generation stamp published (w_record w)\<rparr>)) (thenI write_record (returnI ())))) w"
  unfolding publish_def thenI_def bindI_def returnI_def by (auto split: prod.splits outcome.splits)

lemma ensures_publish:
  assumes "\<forall>rel \<in> set rels. proper rel" "\<And>dirs. keeps spares (block dirs)" and gen: "generation \<in> gens"
  shows "ensures (\<lambda>w. record_at rec rm w \<and> w_dirs w = []) (publish rels generation block)
    (\<lambda>_ w. \<exists>r'. publishes gens rels rm r' \<and> record_at (Some (File (Record r'))) r' w)
    (\<lambda>_ w. record_at rec rm w \<or> (\<exists>r' x. publishes gens rels rm r' \<and> record_at x r' w \<and> (x = rec \<or> x = Some (File (Record r')))))
    (\<lambda>w. record_at rec rm w \<or> (\<exists>r' x. publishes gens rels rm r' \<and> record_at x r' w \<and> (x = rec \<or> x = Some (File (Record r')))))"
  (is "ensures _ _ (\<lambda>_. ?Q) (\<lambda>_. ?E) ?E")
proof -
  let ?R = "record_at rec rm" and ?H = "\<lambda>w. \<forall>(rel, d) \<in> set (w_dirs w). proper rel \<and> hidden d"
  have wr: "ensures (\<lambda>w. record_at rec r' w) write_record (\<lambda>_. ?Q) (\<lambda>_. ?E) ?E" if "publishes gens rels rm r'" for r'
  proof -
    have H: "handles record_paths w w' \<Longrightarrow> ?H w \<Longrightarrow> ?H w'" for w w' by (simp add: handles_def)
    have "ensures (\<lambda>w. ?H w \<and> look (w_tree w) [RECORD] = rec \<and> w_record w = r') write_record (\<lambda>_. ?Q) (\<lambda>_. ?E) ?E"
      by (rule ensures_weaken [OF ensures_write_record [where T = ?H, OF H]]) (use publishes_listed(2) [OF that] in \<open>auto simp: record_at_def\<close>)
    then show ?thesis by (rule ensures_weaken) (auto simp: record_at_def)
  qed
  have st: "ensures (\<lambda>w. ?R w \<and> map fst published = rels) utc_stamp (\<lambda>_ w. ?R w \<and> map fst published = rels) (\<lambda>_. ?E) ?E" for published
    by (rule ensures_utc_stamp) (simp add: record_at_def)
  have fin: "ensures (\<lambda>w. ?R w \<and> map fst published = rels) (thenI (modify (\<lambda>w. w\<lparr>w_record := list_packages generation stamp published (w_record w)\<rparr>)) (thenI write_record (returnI ()))) (\<lambda>_. ?Q) (\<lambda>_. ?E) ?E"
    for stamp published
  proof (cases "map fst published = rels")
    case True
    have "ensures ?R (modify (\<lambda>w. w\<lparr>w_record := list_packages generation stamp published (w_record w)\<rparr>)) (\<lambda>_. record_at rec (list_packages generation stamp published rm)) (\<lambda>_. ?E) ?E"
      by (rule ensures_modify) (simp add: record_at_def)
    from ensures_then [OF this ensures_then [OF wr [OF publishes_listed(1) [OF True gen]] ensures_return]]
    show ?thesis by (simp add: True)
  qed (simp add: ensures_False)
  have prep: "ensures (\<lambda>w. ?R w \<and> w_dirs w = [])
    (thenI (forI stage_dir rels) (bindI (gets w_dirs) (\<lambda>dirs. thenI (block dirs) (bindI (mapI (seal_dir generation) dirs) (\<lambda>published.
       thenI (mapI (\<lambda>rel. set_aside rel []) rels) (thenI (forI (\<lambda>(rel, d). replace d rel) dirs) (returnI published)))))))
    (\<lambda>published w. ?R w \<and> map fst published = rels) (\<lambda>_. ?E) ?E"
    by (rule ensures_weaken [OF ensures_staged [OF assms(1, 2)]]) auto
  show ?thesis unfolding publish_eq [abs_def] by (rule ensures_bind [OF prep ensures_bind [OF st fin]])
qed

section \<open>Failing closed\<close>

lemma ensures_fail_closed:
  assumes "\<forall>rel \<in> set rels. proper rel"
  shows "ensures (record_at x rm) (fail_closed rels reason)
    (\<lambda>_ w. look (w_tree w) [RECORD] = x \<or> (\<exists>stamp. look (w_tree w) [RECORD] = Some (File (Record (bumped stamp (rm\<lparr>rr_pending := None\<rparr>))))))
    (\<lambda>_ w. look (w_tree w) [RECORD] = x \<or> (\<exists>stamp. look (w_tree w) [RECORD] = Some (File (Record (bumped stamp (rm\<lparr>rr_pending := None\<rparr>))))))
    (\<lambda>w. look (w_tree w) [RECORD] = x \<or> (\<exists>stamp. look (w_tree w) [RECORD] = Some (File (Record (bumped stamp (rm\<lparr>rr_pending := None\<rparr>))))))"
  (is "ensures ?P _ (\<lambda>_. ?Z) (\<lambda>_. ?Z) ?Z")
proof -
  have Z: "?Z w" if "?P w" for w using that by (simp add: record_at_def)
  have to_Z: "ensures ?P m (\<lambda>_. ?P) (\<lambda>_. ?Z) ?Z" if "ensures ?P m (\<lambda>_. ?P) (\<lambda>_. ?P) ?P" for m :: "unit io"
    by (rule ensures_weaken [OF that]) (use Z in blast)+
  have rmt: "ensures (\<lambda>w. ?P w \<and> (\<forall>(rel, d) \<in> set dirs. hidden d)) (forI rmtree (map snd dirs)) (\<lambda>_. ?P) (\<lambda>_. ?P) ?P" for dirs :: "(path \<times> path) list"
  proof (cases "\<forall>(rel, d) \<in> set dirs. hidden d")
    case True
    then have "keeps spares (forI rmtree (map snd dirs))" by (intro spare.keeps_for spare_calls hidden_record) auto
    from ensures_at [OF this] show ?thesis by (rule ensures_weaken) auto
  next
    case False
    then show ?thesis unfolding ensures_def by blast
  qed
  have clear: "ensures ?P (bindI (gets w_dirs) (\<lambda>dirs. forI rmtree (map snd dirs))) (\<lambda>_. ?P) (\<lambda>_. ?P) ?P"
    by (rule ensures_bind [OF ensures_gets rmt]) (auto simp: record_at_def)
  have aside: "ensures ?P (forI (\<lambda>rel. tryException (bindI (invalidation_note rel reason) (\<lambda>note. thenI (set_aside rel note) (returnI ()))) (\<lambda>e. returnI ())) rels) (\<lambda>_. ?P) (\<lambda>_. ?P) ?P"
  proof (rule ensures_for [where I = "\<lambda>_. ?P"], rule ensures_tryException)
    fix seen rel rest assume "rels = seen @ rel # rest"
    then have "proper rel" using assms by simp
    moreover have "keeps spares (invalidation_note rel reason)" unfolding invalidation_note_def by (intro spare.keeps_rules)
    ultimately show "ensures ?P (bindI (invalidation_note rel reason) (\<lambda>note. thenI (set_aside rel note) (returnI ()))) (\<lambda>_. ?P) (\<lambda>_. ?P) ?P"
      by (intro ensures_bind [OF ensures_at] ensures_then [OF ensures_set_aside [OF guarded_record_at] ensures_return])
  qed (auto intro: ensures_return)
  have md: "ensures ?P (modify (\<lambda>w. w\<lparr>w_record := (w_record w)\<lparr>rr_pending := None\<rparr>\<rparr>)) (\<lambda>_ w. look (w_tree w) [RECORD] = x \<and> w_record w = rm\<lparr>rr_pending := None\<rparr>) (\<lambda>_. ?Z) ?Z"
    by (rule ensures_modify) (simp add: record_at_def)
  have wr: "ensures (\<lambda>w. look (w_tree w) [RECORD] = x \<and> w_record w = rm\<lparr>rr_pending := None\<rparr>) write_record (\<lambda>_. ?Z) (\<lambda>_. ?Z) ?Z"
    by (rule ensures_weaken [OF ensures_record_file]) auto
  have "ensures ?P (tryException (thenI (modify (\<lambda>w. w\<lparr>w_record := (w_record w)\<lparr>rr_pending := None\<rparr>\<rparr>)) (thenI write_record (returnI ()))) (\<lambda>e. returnI ())) (\<lambda>_. ?Z) (\<lambda>_. ?Z) ?Z"
    by (rule ensures_tryException [OF ensures_then [OF md ensures_then [OF wr ensures_return]] ensures_return]) auto
  then show ?thesis unfolding fail_closed_def by (rule ensures_then [OF to_Z [OF clear] ensures_then [OF to_Z [OF aside]]])
qed

section \<open>The record after a refresh\<close>

definition settled :: "string set \<Rightarrow> path list \<Rightarrow> entry option \<Rightarrow> run_record \<Rightarrow> entry option \<Rightarrow> bool" where
  "settled gens rels rec r e \<longleftrightarrow> e = rec \<or>
     (\<exists>r'. e = Some (File (Record r')) \<and> (rr_packages r' = rr_packages (unlist rels r) \<or> publishes gens rels (unlist rels r) r'))"

lemma publishes_base: "rr_packages r1 = rr_packages r2 \<Longrightarrow> publishes gens rels r1 r' = publishes gens rels r2 r'"
  by (simp add: publishes_def)

lemma settled_withheld: "rr_packages r' = rr_packages (unlist rels r) \<Longrightarrow> settled gens rels rec r (Some (File (Record r')))"
  and settled_published: "publishes gens rels r1 r' \<Longrightarrow> rr_packages r1 = rr_packages (unlist rels r) \<Longrightarrow> settled gens rels rec r (Some (File (Record r')))"
  using publishes_base [of r1 "unlist rels r"] by (auto simp: settled_def)

lemma ensures_published:
  assumes "\<forall>rel \<in> set rels. proper rel" "\<And>dirs. keeps spares (block dirs)" and r1: "rr_packages r1 = rr_packages (unlist rels r)" and gen: "generation \<in> gens"
  shows "ensures (\<lambda>w. record_at (Some (File (Record r1))) r1 w \<and> w_dirs w = [])
    (tryI (publish rels generation block) (\<lambda>e. thenI (fail_closed rels (exn_text e)) (raiseI e)))
    (\<lambda>_ w. \<exists>r'. look (w_tree w) [RECORD] = Some (File (Record r')) \<and> publishes gens rels (unlist rels r) r')
    (\<lambda>_ w. settled gens rels rec r (look (w_tree w) [RECORD])) (\<lambda>w. settled gens rels rec r (look (w_tree w) [RECORD]))"
  (is "ensures ?P _ (\<lambda>_. ?Q) (\<lambda>_. ?E) ?E")
proof -
  let ?X = "\<lambda>w. record_at (Some (File (Record r1))) r1 w \<or>
    (\<exists>r' x. publishes gens rels r1 r' \<and> record_at x r' w \<and> (x = Some (File (Record r1)) \<or> x = Some (File (Record r'))))"
  have w1: "settled gens rels rec r (Some (File (Record r1)))" using r1 by (rule settled_withheld)
  have pub: "ensures ?P (publish rels generation block) (\<lambda>_. ?Q) (\<lambda>_. ?X) ?E"
  proof (rule ensures_weaken [OF ensures_publish [OF assms(1, 2) gen]])
    fix w :: world assume X: "?X w"
    show "?E w" using X w1 settled_published [OF _ r1] by (auto simp: record_at_def)
  qed (use publishes_base [OF r1] in \<open>auto simp: record_at_def\<close>)
  have fail: "ensures ?X (fail_closed rels reason) (\<lambda>_. ?E) (\<lambda>_. ?E) ?E" for reason
  proof -
    have early: "ensures (record_at (Some (File (Record r1))) r1) (fail_closed rels reason) (\<lambda>_. ?E) (\<lambda>_. ?E) ?E"
      by (rule ensures_weaken [OF ensures_fail_closed [OF assms(1)]]) (use w1 r1 in \<open>auto intro!: settled_withheld simp: bumped_def\<close>)
    have late: "ensures (record_at x r') (fail_closed rels reason) (\<lambda>_. ?E) (\<lambda>_. ?E) ?E"
      if "publishes gens rels r1 r'" "x = Some (File (Record r1)) \<or> x = Some (File (Record r'))" for r' x
    proof -
      have "settled gens rels rec r x" using that w1 settled_published [OF _ r1] by auto
      moreover have "settled gens rels rec r (Some (File (Record (bumped stamp (r'\<lparr>rr_pending := None\<rparr>)))))" for stamp
        using settled_published [OF publishes_listed(2) [OF publishes_listed(3) [OF that(1)]] r1] .
      ultimately show ?thesis by (intro ensures_weaken [OF ensures_fail_closed [OF assms(1)]]) auto
    qed
    have "ensures (\<lambda>w. publishes gens rels r1 r' \<and> record_at x r' w \<and> (x = Some (File (Record r1)) \<or> x = Some (File (Record r')))) (fail_closed rels reason) (\<lambda>_. ?E) (\<lambda>_. ?E) ?E" for r' x
      by (rule ensures_pre_static [where A = "publishes gens rels r1 r' \<and> (x = Some (File (Record r1)) \<or> x = Some (File (Record r')))", OF late]) auto
    then show ?thesis by (intro ensures_pre_or [OF early] ensures_pre_ex)
  qed
  show ?thesis by (rule ensures_try [OF pub ensures_then [OF fail ensures_raise]])
qed

lemma startswith_append: "startswith s (p @ q) \<Longrightarrow> startswith s p"
proof -
  assume "startswith s (p @ q)"
  then have "take (length p) (take (length (p @ q)) s) = p" by (simp add: startswith_def)
  then show ?thesis by (simp add: startswith_def min_def)
qed

lemma leftovers_hidden: "q \<in> set (leftovers t rel) \<Longrightarrow> hidden q"
  unfolding leftovers_def hidden_def staging_prefix_def by (auto dest: startswith_append [of _ "''.''", simplified])

lemma spare_leftovers: "keeps spares (bindI (gets (\<lambda>w. leftovers (w_tree w) rel)) (forI rmtree))"
proof -
  have "spares w (snd (forI rmtree (leftovers (w_tree w) rel) w))" for w
  proof -
    have "keeps spares (forI rmtree (leftovers (w_tree w) rel))" by (intro spare.keeps_for spare_calls hidden_record leftovers_hidden)
    then show ?thesis by (simp add: keeps_def)
  qed
  then show ?thesis by (simp add: keeps_def bindI_def gets_def)
qed

lemma spare_read_record: "keeps spares read_record"
  unfolding read_record_def by (intro spare.keeps_rules)

definition withheld_record :: "path list \<Rightarrow> run_record \<Rightarrow> string \<Rightarrow> string \<Rightarrow> run_record" where
  "withheld_record rels r started stamp = bumped stamp ((unlist rels r)\<lparr>rr_pending := Some (Refresh (sort_key path_text rels) started)\<rparr>)"

lemma withheld_packages: "rr_packages (withheld_record rels r started stamp) = rr_packages (unlist rels r)"
  by (simp add: withheld_record_def bumped_def)

lemma steady_trans: "steady w w' \<Longrightarrow> steady w' w'' \<Longrightarrow> steady w w''"
  by (auto simp: steady_def intro: suffix_order.trans)

lemma ensures_utc_stamp_le: "(\<And>w. P w \<Longrightarrow> P (w\<lparr>w_time := Suc (w_time w)\<rparr>)) \<Longrightarrow> ensures P utc_stamp (\<lambda>_. P) E K"
  by (simp add: utc_stamp_def ensures_def bindI_def thenI_def gets_def modify_def returnI_def)

lemma ensures_after_first_write:
  assumes "\<forall>rel \<in> set rels. proper rel" "\<And>dirs. keeps spares (block dirs)"
  shows "ensures (\<lambda>w. \<exists>first. steady w0 w \<and> look (w_tree w) [RECORD] = Some (File (Record (withheld_record rels r started first))) \<and> w_record w = withheld_record rels r started first)
    (bindI utc_stamp (\<lambda>stamp. bindI random_name (\<lambda>token. thenI (modify (\<lambda>w. w\<lparr>w_dirs := []\<rparr>))
      (tryI (publish rels (stamp @ ''-'' @ token) block) (\<lambda>e. thenI (fail_closed rels (exn_text e)) (raiseI e))))))
    (\<lambda>_ w. \<exists>r'. look (w_tree w) [RECORD] = Some (File (Record r')) \<and> publishes (generations w0) rels (unlist rels r) r')
    (\<lambda>_ w. settled (generations w0) rels rec r (look (w_tree w) [RECORD])) (\<lambda>w. settled (generations w0) rels rec r (look (w_tree w) [RECORD]))"
proof (rule ensures_pre_ex)
  fix first
  let ?r = "withheld_record rels r started first"
  let ?A = "\<lambda>w. steady w0 w \<and> look (w_tree w) [RECORD] = Some (File (Record ?r)) \<and> w_record w = ?r"
  have "ensures ?A (modify (\<lambda>w. w\<lparr>w_dirs := []\<rparr>)) (\<lambda>_ w. record_at (Some (File (Record ?r))) ?r w \<and> w_dirs w = []) E K" for E K
    by (rule ensures_modify) (simp add: record_at_def)
  note rest = ensures_then [OF this ensures_published [OF assms withheld_packages]]
  have stamp: "ensures ?A utc_stamp (\<lambda>s w. ?A w \<and> s \<in> w_clock w0 ` {w_time w0..}) E K" for E K
    by (auto simp: ensures_def utc_stamp_def bindI_def thenI_def gets_def modify_def returnI_def steady_def)
  have token: "ensures (\<lambda>w. ?A w \<and> s \<in> w_clock w0 ` {w_time w0..}) random_name (\<lambda>t w. ?A w \<and> s @ ''-'' @ t \<in> generations w0) E K" for s E K
    by (auto simp: ensures_def random_name_def bindI_def thenI_def gets_def modify_def returnI_def steady_def generations_def)
  show "ensures ?A (bindI utc_stamp (\<lambda>stamp. bindI random_name (\<lambda>token. thenI (modify (\<lambda>w. w\<lparr>w_dirs := []\<rparr>))
      (tryI (publish rels (stamp @ ''-'' @ token) block) (\<lambda>e. thenI (fail_closed rels (exn_text e)) (raiseI e))))))
    (\<lambda>_ w. \<exists>r'. look (w_tree w) [RECORD] = Some (File (Record r')) \<and> publishes (generations w0) rels (unlist rels r) r')
    (\<lambda>_ w. settled (generations w0) rels rec r (look (w_tree w) [RECORD])) (\<lambda>w. settled (generations w0) rels rec r (look (w_tree w) [RECORD]))"
  proof (rule ensures_bind [OF stamp ensures_bind [OF token]])
    fix stamp token
    show "ensures (\<lambda>w. ?A w \<and> stamp @ ''-'' @ token \<in> generations w0) (thenI (modify (\<lambda>w. w\<lparr>w_dirs := []\<rparr>))
        (tryI (publish rels (stamp @ ''-'' @ token) block) (\<lambda>e. thenI (fail_closed rels (exn_text e)) (raiseI e))))
      (\<lambda>_ w. \<exists>r'. look (w_tree w) [RECORD] = Some (File (Record r')) \<and> publishes (generations w0) rels (unlist rels r) r')
      (\<lambda>_ w. settled (generations w0) rels rec r (look (w_tree w) [RECORD])) (\<lambda>w. settled (generations w0) rels rec r (look (w_tree w) [RECORD]))"
      by (rule ensures_pre_static [where A = "stamp @ ''-'' @ token \<in> generations w0", OF rest]) auto
  qed
qed

lemma ensures_refresh:
  assumes "\<forall>rel \<in> set rels. proper rel" "\<And>dirs. keeps spares (block dirs)"
  shows "ensures (\<lambda>w. steady w0 w \<and> look (w_tree w) [RECORD] = rec \<and> record_in (w_tree w) = Inr r) (refresh rels replace_old block)
    (\<lambda>_ w. \<exists>r'. look (w_tree w) [RECORD] = Some (File (Record r')) \<and> publishes (generations w0) rels (unlist rels r) r')
    (\<lambda>_ w. settled (generations w0) rels rec r (look (w_tree w) [RECORD])) (\<lambda>w. settled (generations w0) rels rec r (look (w_tree w) [RECORD]))"
  (is "ensures ?P _ (\<lambda>_. ?Q) (\<lambda>_. ?E) ?E")
proof -
  let ?B = "\<lambda>w. steady w0 w \<and> look (w_tree w) [RECORD] = rec \<and> w_record w = r"
  have g: "guarded ?P" "guarded ?B" by (auto intro: steady_trans simp: guarded_def spares_def within_def same_memory_def record_in_def)
  have E: "?E w" if "look (w_tree w) [RECORD] = rec" for w using that by (simp add: settled_def)
  have step: "ensures ?B m (\<lambda>_. ?B) (\<lambda>_. ?E) ?E" if "keeps spares m" for m :: "unit io"
    by (rule ensures_weaken [OF ensures_spare [OF g(2) that]]) (simp_all add: settled_def)
  have old: "ensures ?B (case rr_pending r of
         Some (Quarantining j _) \<Rightarrow> raiseI (Err (SystemExit ''a quarantine was interrupted''))
       | Some (Refresh targets _) \<Rightarrow> forI (\<lambda>rel. bindI (gets (\<lambda>w. leftovers (w_tree w) rel)) (forI rmtree)) targets
       | None \<Rightarrow> returnI ()) (\<lambda>_. ?B) (\<lambda>_. ?E) ?E"
    by (rule step) (auto intro!: spare.keeps_for spare_leftovers spare.keeps_return spare.keeps_raise split: option.split pending.split)
  have mark: "ensures ?B (modify (\<lambda>w. w\<lparr>w_record := (unlist rels (w_record w))\<lparr>rr_pending := Some (Refresh (sort_key path_text rels) started)\<rparr>\<rparr>))
      (\<lambda>_ w. steady w0 w \<and> look (w_tree w) [RECORD] = rec \<and> w_record w = (unlist rels r)\<lparr>rr_pending := Some (Refresh (sort_key path_text rels) started)\<rparr>) (\<lambda>_. ?E) ?E" for started
    by (rule ensures_modify) (simp add: steady_def)
  have first: "ensures (\<lambda>w. steady w0 w \<and> look (w_tree w) [RECORD] = rec \<and> w_record w = (unlist rels r)\<lparr>rr_pending := Some (Refresh (sort_key path_text rels) started)\<rparr>) write_record
      (\<lambda>_ w. \<exists>first. steady w0 w \<and> look (w_tree w) [RECORD] = Some (File (Record (withheld_record rels r started first))) \<and> w_record w = withheld_record rels r started first) (\<lambda>_. ?E) ?E" for started
    by (rule ensures_weaken [OF ensures_write_record [where T = "steady w0"]]) (auto intro: steady_trans simp: handles_def within_def withheld_record_def settled_def bumped_def)
  have stamp: "ensures ?B utc_stamp (\<lambda>_. ?B) E K" for E K by (rule ensures_utc_stamp_le) (auto simp: steady_def)
  have go: "ensures ?B (bindI utc_stamp (\<lambda>started.
        thenI (modify (\<lambda>w. w\<lparr>w_record := (unlist rels (w_record w))\<lparr>rr_pending := Some (Refresh (sort_key path_text rels) started)\<rparr>\<rparr>))
        (thenI write_record (bindI utc_stamp (\<lambda>stamp. bindI random_name (\<lambda>token. thenI (modify (\<lambda>w. w\<lparr>w_dirs := []\<rparr>))
         (tryI (publish rels (stamp @ ''-'' @ token) block) (\<lambda>e. thenI (fail_closed rels (exn_text e)) (raiseI e))))))))) (\<lambda>_. ?Q) (\<lambda>_. ?E) ?E"
    by (rule ensures_bind [OF stamp ensures_then [OF mark ensures_then [OF first ensures_after_first_write [OF assms]]]])
  have rd: "ensures ?P read_record (\<lambda>x w. x = r \<and> steady w0 w \<and> look (w_tree w) [RECORD] = rec) (\<lambda>_. ?E) ?E"
  proof -
    have sy: "ensures ?P (if found then sync else returnI ()) (\<lambda>_. ?P) (\<lambda>_. ?E) ?E" for found
      by (rule ensures_weaken [OF ensures_spare [OF g(1)]]) (auto intro: spare.keeps_sync spare.keeps_return simp: settled_def)
    have get: "ensures ?P (bindI (gets (\<lambda>w. record_in (w_tree w))) liftI) (\<lambda>x w. x = r \<and> steady w0 w \<and> look (w_tree w) [RECORD] = rec) (\<lambda>_. ?E) ?E"
      by (rule ensures_bind [OF ensures_gets [where Q = "\<lambda>x w. x = Inr r \<and> ?P w"]]) (auto simp: liftI_def ensures_False intro: ensures_return split: sum.split)
    show ?thesis unfolding read_record_def by (rule ensures_bind [OF ensures_gets ensures_then [OF sy get]])
  qed
  show ?thesis unfolding refresh_def
  proof (rule ensures_bind [OF rd])
    fix x
    show "ensures (\<lambda>w. x = r \<and> steady w0 w \<and> look (w_tree w) [RECORD] = rec) (thenI (modify (\<lambda>w. w\<lparr>w_record := x\<rparr>))
     (thenI (case rr_pending x of
         Some (Quarantining j _) \<Rightarrow> raiseI (Err (SystemExit ''a quarantine was interrupted''))
       | Some (Refresh targets _) \<Rightarrow> forI (\<lambda>rel. bindI (gets (\<lambda>w. leftovers (w_tree w) rel)) (forI rmtree)) targets
       | None \<Rightarrow> returnI ())
     (bindI (gets (\<lambda>w. list_ex (lexists (w_tree w)) rels)) (\<lambda>existing.
      if existing \<and> \<not> replace_old then raiseI (Err (SystemExit ''exists; pass --replace''))
      else bindI utc_stamp (\<lambda>started.
        thenI (modify (\<lambda>w. w\<lparr>w_record := (unlist rels (w_record w))\<lparr>rr_pending := Some (Refresh (sort_key path_text rels) started)\<rparr>\<rparr>))
        (thenI write_record (bindI utc_stamp (\<lambda>stamp. bindI random_name (\<lambda>token. thenI (modify (\<lambda>w. w\<lparr>w_dirs := []\<rparr>))
         (tryI (publish rels (stamp @ ''-'' @ token) block) (\<lambda>e. thenI (fail_closed rels (exn_text e)) (raiseI e)))))))))))) (\<lambda>_. ?Q) (\<lambda>_. ?E) ?E"
    proof (cases "x = r")
      case True
      have md: "ensures (\<lambda>w. r = r \<and> steady w0 w \<and> look (w_tree w) [RECORD] = rec) (modify (\<lambda>w. w\<lparr>w_record := r\<rparr>)) (\<lambda>_. ?B) (\<lambda>_. ?E) ?E" by (rule ensures_modify) (simp add: steady_def)
      show ?thesis unfolding True
        by (rule ensures_then [OF md ensures_then [OF old ensures_bind [OF ensures_gets [where Q = "\<lambda>_. ?B"]]]], simp, rule ensures_if, rule ensures_raise)
          (use E go in auto)
    qed (simp add: ensures_False)
  qed
qed

section \<open>Properties\<close>

lemma mapI_run_path:
  "mapI run_path_io ts w = (case mapM (run_path (w_root w) (w_tree w)) ts of Inl e \<Rightarrow> (Exn (Err e), w) | Inr rels \<Rightarrow> (Val rels, w))"
  by (induction ts) (auto simp: returnI_def bindI_def run_path_io_def gets_def liftI_def raiseI_def split: sum.splits)

text \<open>C13. A refresh never leaves an earlier entry of a target on the record. Whatever fails, if \<open>staged\<close> returns, the record is not pending and lists every target
  with one new generation, a stamp and a token that were drawn after it began; if it raises or is killed, the record file is the one from before the refresh, or lists no package at or below a target,
  or lists all targets with one new generation. In the last two cases every package outside the targets is listed as it was.\<close>

theorem refresh_settles_record:
  assumes "mapM (run_path (w_root w) (w_tree w)) (rev (remdups (rev targets))) = Inr rels" "\<forall>rel \<in> set rels. proper rel"
    "record_in (w_tree w) = Inr r" "\<forall>dirs. keeps spares (block dirs)"
  shows "case staged targets replace_old block w of
      (Val _, w') \<Rightarrow> \<exists>r'. look (w_tree w') [RECORD] = Some (File (Record r')) \<and> publishes (generations w) rels (unlist rels r) r'
    | (Exn e, w') \<Rightarrow> settled (generations w) rels (look (w_tree w) [RECORD]) r (look (w_tree w') [RECORD])
    | (Killed, w') \<Rightarrow> settled (generations w) rels (look (w_tree w) [RECORD]) r (look (w_tree w') [RECORD])"
proof -
  let ?rec = "look (w_tree w) [RECORD]"
  let ?P = "\<lambda>v. steady w v \<and> look (w_tree v) [RECORD] = ?rec \<and> record_in (w_tree v) = Inr r"
  let ?Q = "\<lambda>v. \<exists>r'. look (w_tree v) [RECORD] = Some (File (Record r')) \<and> publishes (generations w) rels (unlist rels r) r'" and ?E = "\<lambda>v. settled (generations w) rels ?rec r (look (w_tree v) [RECORD])"
  have g: "guarded ?P" by (auto intro: steady_trans simp: guarded_def spares_def within_def record_in_def)
  have E: "?E v" if "?P v" for v using that by (simp add: settled_def)
  have "keeps spares (atomic lock_plan)"
  proof (rule sparesI)
    show "keeps (within (- {[RECORD]})) (atomic lock_plan)"
      by (rule frame.keeps_atomic) (auto intro!: within_tree within_faults simp: lock_plan_def LOCK_def RECORD_def split: if_splits)
  qed (rule memory_calls)
  then have lock: "ensures ?P (atomic lock_plan) (\<lambda>_. ?P) (\<lambda>_. ?E) ?E" by (intro ensures_weaken [OF ensures_spare [OF g]]) (auto simp: settled_def)
  have body: "ensures ?P (refresh rels replace_old block) (\<lambda>_. ?Q) (\<lambda>_. ?E) ?E" using ensures_refresh [OF assms(2)] assms(4) by blast
  have "ensures ?P (run_lock (refresh rels replace_old block)) (\<lambda>_. ?Q) (\<lambda>_. ?E) ?E" unfolding run_lock_def
    by (intro ensures_bind [OF ensures_gets [where Q = "\<lambda>_. ?P"]] ensures_if ensures_raise E ensures_then [OF lock] body)
  then have run: "case run_lock (refresh rels replace_old block) w of (Val _, v) \<Rightarrow> ?Q v | (Exn e, v) \<Rightarrow> ?E v | (Killed, v) \<Rightarrow> ?E v"
    using assms(3) by (simp add: ensures_def steady_refl)
  have "staged targets replace_old block w = (if isdir (w_tree w) [] then if distinct rels then run_lock (refresh rels replace_old block) w
      else (Exn (Err (SystemExit ''the same package path is named twice'')), w) else (Exn (Err (SystemExit ''not a run directory'')), w))"
    by (simp add: staged_def run_root_def thenI_def bindI_def gets_def returnI_def raiseI_def mapI_run_path assms(1))
  then show ?thesis using run by (auto simp: settled_def)
qed

definition sample_listed :: run_record where
  "sample_listed = empty_record\<lparr>rr_packages := [([''eth'', ''approval''], \<lparr>pe_generation = ''g0'', pe_package_sha256 = ''h0'', pe_published_at = ''T''\<rparr>)]\<rparr>"

definition sample_run :: tree where
  "sample_run = [([], Dir), ([RECORD], File (Record sample_listed)), ([''eth''], Dir), ([''eth'', ''approval''], Dir), ([''eth'', ''approval'', GENERATION], File (Text ''g0''))]"

theorem refresh_settles_record_witness:
  "case staged [Relative [''eth'', ''approval'']] True sample_block (sample_world [Run, Run, Run, Run, Run, Fail 0, Kill 1] sample_run) of
      (Val _, w') \<Rightarrow> \<exists>r'. look (w_tree w') [RECORD] = Some (File (Record r')) \<and> publishes (generations (sample_world [Run, Run, Run, Run, Run, Fail 0, Kill 1] sample_run)) [[''eth'', ''approval'']] (unlist [[''eth'', ''approval'']] sample_listed) r'
    | (Exn e, w') \<Rightarrow> settled (generations (sample_world [Run, Run, Run, Run, Run, Fail 0, Kill 1] sample_run)) [[''eth'', ''approval'']] (look sample_run [RECORD]) sample_listed (look (w_tree w') [RECORD])
    | (Killed, w') \<Rightarrow> settled (generations (sample_world [Run, Run, Run, Run, Run, Fail 0, Kill 1] sample_run)) [[''eth'', ''approval'']] (look sample_run [RECORD]) sample_listed (look (w_tree w') [RECORD])"
proof -
  have "d @ [''batch.json''] \<noteq> [RECORD]" for d by (simp add: RECORD_def)
  then have "keeps spares (sample_block dirs)" for dirs unfolding sample_block_def by (intro spare.keeps_for) (auto intro: spare_calls)
  moreover have "mapM (run_path [''runs'', ''r1''] sample_run) (rev (remdups (rev [Relative [''eth'', ''approval'']]))) = Inr [[''eth'', ''approval'']]"
    "proper [''eth'', ''approval'']" "record_in sample_run = Inr sample_listed" by code_simp+
  ultimately show ?thesis
    using refresh_settles_record [of "sample_world [Run, Run, Run, Run, Run, Fail 0, Kill 1] sample_run" "[Relative [''eth'', ''approval'']]" "[[''eth'', ''approval'']]" sample_listed sample_block True, unfolded sample_simps]
    by simp
qed

section \<open>Targets listed by a refresh that failed\<close>

text \<open>When the last write of a refresh fails, the record in memory lists the targets already. \<open>fail_closed\<close> writes that record: if a target cannot be
  moved aside, it stays in place, listed and not pending, although the refresh raised.\<close>

definition half_listed :: world where
  "half_listed = (sample_world [Fail 0] [([], Dir), ([''release''], Dir), ([RECORD], File (Record (empty_record\<lparr>rr_pending := Some (Refresh [[''release'']] ''T'')\<rparr>)))])
     \<lparr>w_record := list_packages ''g1'' ''T'' [([''release''], ''h1'')] empty_record\<rparr>"

lemma fail_closed_lists_target:
  "\<exists>w' r'. fail_closed [[''release'']] ''disk full'' half_listed = (Val (), w') \<and> record_in (w_tree w') = Inr r' \<and> rr_pending r' = None \<and>
     dict_get (rr_packages r') [''release''] \<noteq> None \<and> look (w_tree w') [''release''] = Some Dir"
  by (simp add: io_eval half_listed_def fail_closed_def list_packages_def empty_record_def set_aside_def invalidation_note_def SUPERSEDED_def)

end
