(* ===== verification/Quarantine.thy ===== *)
theory Quarantine
  imports Package
begin

text \<open>
  \<^verbatim>\<open>bridge-claims/tools/quarantine.py\<close>: moving the signable files out of a claims run. \<open>quarantine\<close> writes a journal, takes the packages
  out of the run record and marks the record pending before the first move; a failed move is rolled back, and \<open>recover\<close> completes
  the moves of an interrupted one.
\<close>

definition JOURNAL :: string where "JOURNAL = ''QUARANTINE.json''"

definition RESERVED :: "string list" where
  "RESERVED = [QUARANTINE, SUPERSEDED, RECORD, LOCK]"

definition OUTPUTS :: "string list" where
  "OUTPUTS = [''safe-approve.json'', ''safe-revoke.json'', ''approvals.json'', ''APPROVALS.md'']"

definition draft_name :: "string \<Rightarrow> string" where
  "draft_name name =
     (let ext = takeWhile (\<lambda>c. c \<noteq> CHR ''.'') (rev name) in
      if length ext < length name - 1 then take (length name - length ext - 1) name @ ''.draft.'' @ rev ext else name @ ''.draft'')"

definition APPROVAL_DIR :: string where "APPROVAL_DIR = ''approval''"

definition DRAFT_DIR :: string where "DRAFT_DIR = ''approval-draft''"

section \<open>The paths to move\<close>

definition listdir :: "tree \<Rightarrow> path \<Rightarrow> string list" where
  "listdir t d = sort (map last (filter (\<lambda>q. q \<noteq> [] \<and> butlast q = d) (remdups (map fst t))))"

definition signable_in :: "tree \<Rightarrow> string \<Rightarrow> path list" where
  "signable_in t name =
     (if \<not> isdir t [name] \<or> name = QUARANTINE \<or> name = SUPERSEDED then []
      else if name = ''release'' \<or> startswith name ''release-'' then [[name]]
      else if exists t [name, ''manifest.json''] then
        filter (lexists t) (concat (map (\<lambda>output. [[name, output], [name, draft_name output]]) OUTPUTS)) @
        filter (isdir t) [[name, APPROVAL_DIR], [name, DRAFT_DIR]]
      else [])"

definition signable_paths :: "tree \<Rightarrow> path list" where
  "signable_paths t = concat (map (signable_in t) (listdir t []))"

definition files_under :: "tree \<Rightarrow> path \<Rightarrow> path list" where
  "files_under t rel =
     (if isfile t rel then [rel] else sort_key path_text (filter (\<lambda>q. \<not> isdir t q) (walked t rel)))"

definition include_path :: "path \<Rightarrow> tree \<Rightarrow> location \<Rightarrow> path result" where
  "include_path root t loc =
     (let full = norm_parts [] (case loc of Absolute p \<Rightarrow> p | Relative p \<Rightarrow> root @ p);
          rel = drop (length root) full
      in if \<not> prefix root full \<or> rel = [] \<or> startswith (hd rel) ''..'' \<or> hd rel \<in> set RESERVED \<or> \<not> lexists t rel
         then Inl (SystemExit ''--include: not a path inside'')
         else Inr rel)"

definition keep_outer :: "path list \<Rightarrow> path list" where
  "keep_outer paths = foldl (\<lambda>unique rel. if list_ex (\<lambda>kept. prefix kept rel) unique then unique else unique @ [rel]) []
     (sort_key path_text (remdups paths))"

definition planned_paths :: "path \<Rightarrow> tree \<Rightarrow> location list \<Rightarrow> path list result" where
  "planned_paths root t include =
     bindR (mapM (include_path root t) include) (\<lambda>included.
     let unique = keep_outer (signable_paths t @ included) in
     bindR (mapM (\<lambda>rel. run_path root t (Relative rel)) unique) (\<lambda>_. Inr unique))"

section \<open>Moving them\<close>

definition partial_path :: "path \<Rightarrow> path" where
  "partial_path p = butlast p @ [last p @ ''.partial'']"

definition write_journal :: "path \<Rightarrow> journal \<Rightarrow> unit io" where
  "write_journal p j = thenI (write_file False (partial_path p) (Journal j)) (replace (partial_path p) p)"

definition NOTE :: string where "NOTE = ''QUARANTINE.md''"

definition note_text :: "string \<Rightarrow> string \<Rightarrow> journal \<Rightarrow> string" where
  "note_text run_name stamp j = concat (map (\<lambda>line. line @ [CHR 0x0A])
     ([''# Quarantined, do not sign or send'', '''',
       ''Moved out of `'' @ run_name @ ''/` at '' @ stamp @ ''. Reason: '' @ jn_reason j, '''',
       ''Each path below kept its place relative to the run. Nothing here may be signed or sent.'', '''', ''| File | SHA-256 |'', ''|---|---|''] @
      map (\<lambda>(f, h). ''| `'' @ path_text f @ ''` | `'' @ h @ ''` |'') (jn_files j)))"

definition write_note :: "path \<Rightarrow> journal \<Rightarrow> unit io" where
  "write_note dest j =
     bindI (gets w_root) (\<lambda>root. write_file False (dest @ [NOTE]) (Text (note_text (if root = [] then [] else last root) (last dest) j)))"

definition finish :: "path \<Rightarrow> path \<Rightarrow> journal \<Rightarrow> unit io" where
  "finish dest journal_path j =
     thenI (write_note dest j)
     (thenI (write_journal journal_path (j\<lparr>jn_status := JournalDone\<rparr>))
     (thenI (modify (\<lambda>w. w\<lparr>w_record := (w_record w)\<lparr>rr_pending := None\<rparr>\<rparr>))
     (thenI write_record (returnI ()))))"

definition move_out :: "path \<Rightarrow> path \<Rightarrow> unit io" where
  "move_out dest rel =
     thenI (makedirs True (butlast (dest @ rel)))
     (thenI (replace rel (dest @ rel))
     (modify (\<lambda>w. w\<lparr>w_moved := w_moved w @ [rel]\<rparr>)))"

definition roll_back :: "path \<Rightarrow> journal \<Rightarrow> exn \<Rightarrow> unit io" where
  "roll_back dest j e =
     thenI (tryException
       (thenI (bindI (gets w_moved) (\<lambda>moved. forI (\<lambda>rel. replace (dest @ rel) rel) (rev moved)))
       (thenI (write_journal (dest @ [JOURNAL]) (j\<lparr>jn_status := RolledBack (exn_text e)\<rparr>))
       (thenI (modify (\<lambda>w. w\<lparr>w_record := (w_record w)\<lparr>rr_pending := None\<rparr>\<rparr>))
       (thenI write_record (returnI ())))))
       (\<lambda>second. raiseI (Err (SystemExit ''quarantine stopped part-way and could not put back what it moved''))))
     (raiseI (Err (SystemExit ''quarantine failed; everything was put back and nothing moved'')))"

definition move_all :: "path \<Rightarrow> journal \<Rightarrow> path list \<Rightarrow> unit io" where
  "move_all dest j paths =
     thenI (modify (\<lambda>w. w\<lparr>w_moved := []\<rparr>))
     (thenI (tryException (forI (move_out dest) paths) (roll_back dest j))
     (finish dest (dest @ [JOURNAL]) j))"

definition mark_pending :: "path \<Rightarrow> journal \<Rightarrow> unit io" where
  "mark_pending dest j =
     tryI (thenI (write_journal (dest @ [JOURNAL]) j) (thenI write_record (returnI ())))
       (\<lambda>e. thenI (rmtree dest) (raiseI e))"

definition quarantine_paths :: "string \<Rightarrow> path list \<Rightarrow> (path option \<times> path list) io" where
  "quarantine_paths reason paths =
     thenI (bindI (gets (\<lambda>w. lexists (w_tree w) [QUARANTINE])) (\<lambda>there.
        if there then thenI (run_path_io (Relative [QUARANTINE])) (returnI ()) else returnI ()))
     (bindI utc_stamp (\<lambda>stamp.
      bindI (gets (\<lambda>w. free_name (w_tree w) [QUARANTINE] stamp)) (\<lambda>dest.
      bindI (gets (\<lambda>w. concat (map (files_under (w_tree w)) paths))) (\<lambda>names.
      bindI (mapI (\<lambda>f. bindI (file_sha256 f) (\<lambda>h. returnI (f, h))) names) (\<lambda>hashed.
      let j = \<lparr>jn_status = Moving, jn_reason = reason, jn_moves = paths, jn_files = hashed\<rparr> in
      thenI (makedirs False dest)
      (bindI utc_stamp (\<lambda>started.
       thenI (modify (\<lambda>w. w\<lparr>w_record := (unlist paths (w_record w))\<lparr>rr_pending := Some (Quarantining (dest @ [JOURNAL]) started)\<rparr>\<rparr>))
       (thenI (mark_pending dest j)
       (thenI (move_all dest j paths)
       (returnI (Some dest, paths)))))))))))"

definition quarantine :: "string \<Rightarrow> location list \<Rightarrow> bool \<Rightarrow> (path option \<times> path list) io" where
  "quarantine reason include dry_run =
     thenI run_root (run_lock
       (bindI read_record (\<lambda>r.
        thenI (modify (\<lambda>w. w\<lparr>w_record := r\<rparr>))
        (case rr_pending r of
           Some (Quarantining _ _) \<Rightarrow> raiseI (Err (SystemExit ''a quarantine was interrupted; run with --recover first''))
         | _ \<Rightarrow>
             bindI (bindI (gets (\<lambda>w. planned_paths (w_root w) (w_tree w) include)) liftI) (\<lambda>paths.
             if paths = [] \<or> dry_run then returnI (None, paths) else quarantine_paths reason paths)))))"

section \<open>Completing an interrupted quarantine\<close>

definition recover_move :: "path \<Rightarrow> path \<Rightarrow> bool io" where
  "recover_move dest rel =
     bindI (gets w_tree) (\<lambda>t.
     if lexists t (dest @ rel) \<and> \<not> lexists t rel then returnI True
     else if lexists t rel \<and> \<not> lexists t (dest @ rel) then
       thenI (run_path_io (Relative rel))
       (thenI (makedirs True (butlast (dest @ rel)))
       (thenI (replace rel (dest @ rel)) (returnI True)))
     else returnI False)"

definition recover_from :: "path \<Rightarrow> path \<Rightarrow> journal \<Rightarrow> (path \<times> path list) io" where
  "recover_from dest journal_path j =
     bindI (mapI (recover_move dest) (jn_moves j)) (\<lambda>found.
     if \<not> list_all id found then raiseI (Err (SystemExit ''neither in the run alone nor in the quarantine alone; sort it out by hand''))
     else
       thenI (modify (\<lambda>w. w\<lparr>w_record := unlist (jn_moves j) (w_record w)\<rparr>))
       (thenI (finish dest journal_path j) (returnI (dest, jn_moves j))))"

definition recover :: "(path \<times> path list) io" where
  "recover =
     thenI run_root (run_lock
       (bindI read_record (\<lambda>r.
        thenI (modify (\<lambda>w. w\<lparr>w_record := r\<rparr>))
        (case rr_pending r of
           Some (Quarantining jp _) \<Rightarrow>
             bindI (run_path_io (Relative jp)) (\<lambda>journal_path.
             bindI (read_file journal_path) (\<lambda>c.
             case c of
               Journal j \<Rightarrow> recover_from (butlast journal_path) journal_path j
             | _ \<Rightarrow> raiseI (Err (ValueError ''not a quarantine journal''))))
         | _ \<Rightarrow> raiseI (Err (SystemExit ''no interrupted quarantine''))))))"

section \<open>The tree stays well-formed\<close>

lemma form_finish: "keeps keeps_form (finish dest jp j)"
  unfolding finish_def write_note_def write_journal_def by (intro form_rules form_memory form_write_record)

lemma form_quarantine_paths: "keeps keeps_form (quarantine_paths reason paths)"
  unfolding quarantine_paths_def Let_def mark_pending_def move_all_def move_out_def roll_back_def write_journal_def
  by (intro form_rules form_memory form_write_record form_run_path form_finish)

lemma form_quarantine: "keeps keeps_form (quarantine reason include dry_run)"
  unfolding quarantine_def
  by (intro form_rules form_memory form_read_record form_run_root form_run_lock)
    (auto intro!: form_rules form_quarantine_paths split: option.split pending.split)

lemma form_recover: "keeps keeps_form recover"
  unfolding recover_def recover_from_def recover_move_def
  by (intro form_rules form_memory form_read_record form_run_root form_run_lock)
    (auto intro!: form_rules form_memory form_run_path form_finish split: option.split pending.split content.split)

section \<open>Writing the journal\<close>

lemma partial_path_neq:
  assumes "p \<noteq> []"
  shows "partial_path p \<noteq> p" "\<not> prefix (partial_path p) p" "\<not> prefix p (partial_path p)" "butlast (partial_path p) = butlast p"
proof -
  obtain d n where p: "p = d @ [n]" using assms by (metis rev_exhaust)
  then show "partial_path p \<noteq> p" "\<not> prefix (partial_path p) p" "\<not> prefix p (partial_path p)" "butlast (partial_path p) = butlast p"
    by (simp_all add: partial_path_def)
qed

lemma ensures_write_journal:
  assumes "p \<noteq> []" "stable T" and keep: "\<And>w w'. T w \<Longrightarrow> handles (below p \<union> below (partial_path p)) w w' \<Longrightarrow> w_record w' = w_record w \<Longrightarrow> T w'"
  shows "ensures (\<lambda>w. T w \<and> plain_file (w_tree w) (partial_path p) \<and> look (w_tree w) p = old) (write_journal p j)
    (\<lambda>_ w. T w \<and> plain_file (w_tree w) (partial_path p) \<and> look (w_tree w) p = Some (File (Journal j)))
    (\<lambda>_ w. T w \<and> plain_file (w_tree w) (partial_path p) \<and> (look (w_tree w) p = old \<or> look (w_tree w) p = Some (File (Journal j))))
    (\<lambda>w. T w \<and> plain_file (w_tree w) (partial_path p) \<and> (look (w_tree w) p = old \<or> look (w_tree w) p = Some (File (Journal j))))"
  (is "ensures ?P _ (\<lambda>_. ?Q) (\<lambda>_. ?E) ?E")
proof -
  let ?p = "partial_path p"
  note neq = partial_path_neq [OF assms(1)]
  have put: "T (w\<lparr>w_tree := put ?p e (w_tree w)\<rparr>)" if "T w" for w e
    by (rule keep [OF that]) (simp_all add: handles_def within_def steady_def)
  have move: "T (w\<lparr>w_tree := t'\<rparr>)" if "T w" "replace_plan ?p p (w_tree w) = Inr t'" for w t'
    by (rule keep [OF that(1)]) (auto simp: handles_def within_def steady_def replace_look [OF that(2) neq(1)])
  have st: "T (w\<lparr>w_faults := fs\<rparr>) = T w" for w fs using assms(2) by (simp add: stable_def)
  have "ensures ?P (write_file False ?p (Journal j)) (\<lambda>_ w. T w \<and> look (w_tree w) ?p = Some (File (Journal j)) \<and> look (w_tree w) p = old)
      (\<lambda>e w. ?P w \<or> (e = KeyboardInterrupt \<or> True) \<and> ?P w) (\<lambda>w. ?P w \<or> ?P w)"
    unfolding write_file_def
    by (rule ensures_call)
      (auto simp: stable_def st put write_plan_def plain_file_write neq(1) [symmetric] neq(1) plain_file_simps written_def split: if_splits)
  then have wr: "ensures ?P (write_file False ?p (Journal j)) (\<lambda>_ w. T w \<and> look (w_tree w) ?p = Some (File (Journal j)) \<and> look (w_tree w) p = old) (\<lambda>_. ?E) ?E"
    by (rule ensures_weaken) auto
  have "ensures (\<lambda>w. T w \<and> look (w_tree w) ?p = Some (File (Journal j)) \<and> look (w_tree w) p = old) (replace ?p p) (\<lambda>_. ?Q)
      (\<lambda>e w. (T w \<and> look (w_tree w) ?p = Some (File (Journal j)) \<and> look (w_tree w) p = old) \<or> e = KeyboardInterrupt \<and> ?Q w)
      (\<lambda>w. (T w \<and> look (w_tree w) ?p = Some (File (Journal j)) \<and> look (w_tree w) p = old) \<or> ?Q w)"
    unfolding replace_def
    by (rule ensures_atomic) (auto simp: stable_def st move plain_file_simps replace_look neq)
  then have rp: "ensures (\<lambda>w. T w \<and> look (w_tree w) ?p = Some (File (Journal j)) \<and> look (w_tree w) p = old) (replace ?p p) (\<lambda>_. ?Q) (\<lambda>_. ?E) ?E"
    by (rule ensures_weaken) (auto simp: plain_file_simps)
  show ?thesis unfolding write_journal_def by (rule ensures_then [OF wr rp])
qed

section \<open>Where a path is\<close>

definition at_home :: "path \<Rightarrow> tree \<Rightarrow> tree \<Rightarrow> path \<Rightarrow> bool" where
  "at_home dest t0 t rel \<longleftrightarrow> (\<forall>s. look t (rel @ s) = look t0 (rel @ s)) \<and> (\<forall>s. look t (dest @ rel @ s) = None)"

definition moved_to :: "path \<Rightarrow> tree \<Rightarrow> tree \<Rightarrow> path \<Rightarrow> bool" where
  "moved_to dest t0 t rel \<longleftrightarrow> (\<forall>s. look t (rel @ s) = None) \<and> (\<forall>s. look t (dest @ rel @ s) = look t0 (rel @ s))"

definition placed :: "path \<Rightarrow> path list \<Rightarrow> tree \<Rightarrow> path set \<Rightarrow> tree \<Rightarrow> bool" where
  "placed dest paths t0 M t \<longleftrightarrow> (\<forall>rel \<in> set paths. if rel \<in> M then moved_to dest t0 t rel else at_home dest t0 t rel)"

definition movable :: "path list \<Rightarrow> bool" where
  "movable paths \<longleftrightarrow> distinct paths \<and> (\<forall>a \<in> set paths. \<forall>b \<in> set paths. prefix a b \<longrightarrow> a = b) \<and>
     (\<forall>rel \<in> set paths. rel \<noteq> [] \<and> hd rel \<notin> {QUARANTINE, RECORD, JOURNAL, NOTE, JOURNAL @ ''.partial''} \<and> \<not> startswith (hd rel) ''.'')"

text \<open>The journal lists the moves, the directories between the quarantine and the moved paths are directories, and everything else is as it was.\<close>

definition around :: "path \<Rightarrow> path list \<Rightarrow> tree \<Rightarrow> tree \<Rightarrow> bool" where
  "around dest paths t0 t \<longleftrightarrow>
     look t [QUARANTINE] = Some Dir \<and> look t dest = Some Dir \<and> plain_file t (dest @ [NOTE]) \<and>
     (\<forall>rel \<in> set paths. \<forall>k. 0 < k \<and> k < length rel \<longrightarrow> look t (dest @ take k rel) \<in> {None, Some Dir}) \<and>
     (\<forall>q. (\<forall>rel \<in> set paths. \<not> prefix rel q) \<and> \<not> prefix [QUARANTINE] q \<and> q \<notin> record_paths \<longrightarrow> look t q = look t0 q)"

definition ready :: "path \<Rightarrow> path list \<Rightarrow> tree \<Rightarrow> tree \<Rightarrow> bool" where
  "ready dest paths t0 t \<longleftrightarrow> around dest paths t0 t \<and> plain_file t (partial_path (dest @ [JOURNAL])) \<and>
     (\<exists>j. look t (dest @ [JOURNAL]) = Some (File (Journal j)) \<and> jn_moves j = paths)"

lemma movableD:
  assumes "movable paths" "rel \<in> set paths"
  shows "rel \<noteq> []" "\<not> prefix [QUARANTINE] (rel @ s)" "rel @ s \<notin> record_paths" "hd rel \<notin> {JOURNAL, NOTE, JOURNAL @ ''.partial''}"
    "prefix rel (rel' @ s) \<Longrightarrow> rel' \<in> set paths \<Longrightarrow> rel' = rel \<or> strict_prefix rel' rel"
    "rel' \<in> set paths \<Longrightarrow> prefix rel rel' \<Longrightarrow> rel = rel'" "\<not> prefix rel (QUARANTINE # s)"
proof -
  have r: "rel \<noteq> []" "hd rel \<notin> {QUARANTINE, RECORD, JOURNAL, NOTE, JOURNAL @ ''.partial''}" "\<not> startswith (hd rel) ''.''"
    using assms by (auto simp: movable_def)
  show "rel \<noteq> []" "hd rel \<notin> {JOURNAL, NOTE, JOURNAL @ ''.partial''}" using r by auto
  show "\<not> prefix [QUARANTINE] (rel @ s)" "\<not> prefix rel (QUARANTINE # s)" using r(1, 2) by (cases rel; auto)+
  show "rel @ s \<notin> record_paths" using r by (cases rel) (auto simp: record_paths_def partial_record_def startswith_def)
  show "rel' \<in> set paths \<Longrightarrow> prefix rel rel' \<Longrightarrow> rel = rel'" using assms by (auto simp: movable_def)
  then show "prefix rel (rel' @ s) \<Longrightarrow> rel' \<in> set paths \<Longrightarrow> rel' = rel \<or> strict_prefix rel' rel"
    by (metis prefixI prefix_same_cases strict_prefix_def)
qed

lemma antichain_append:
  assumes "movable paths" "rel \<in> set paths" "rel' \<in> set paths" "prefix rel (rel' @ s)"
  shows "rel' = rel"
proof -
  have "prefix rel rel' \<or> prefix rel' rel" using prefix_same_cases [OF assms(4), of rel'] by auto
  then show ?thesis using assms(1-3) unfolding movable_def by blast
qed

text \<open>Creating the directories above a destination disturbs nothing.\<close>

definition above :: "path \<Rightarrow> path set" where
  "above p = {take k p | k. 0 < k \<and> k < length p}"

lemma above_dest:
  assumes "movable paths" "rel \<in> set paths" "rel' \<in> set paths" "dest = [QUARANTINE, name]"
  shows "rel' @ s \<notin> above (dest @ rel)" "dest @ rel' @ s \<notin> above (dest @ rel)"
proof -
  note r = movableD [OF assms(1, 3)]
  show "rel' @ s \<notin> above (dest @ rel)"
  proof
    assume "rel' @ s \<in> above (dest @ rel)"
    then obtain k where "rel' @ s = take k (dest @ rel)" "0 < k" by (auto simp: above_def)
    then have "hd (rel' @ s) = QUARANTINE" by (cases k) (simp_all add: assms(4))
    then show False using r(1) r(2) [of s] by (cases rel') auto
  qed
  show "dest @ rel' @ s \<notin> above (dest @ rel)"
  proof
    assume "dest @ rel' @ s \<in> above (dest @ rel)"
    then obtain k where k: "dest @ rel' @ s = take k (dest @ rel)" "k < length (dest @ rel)" by (auto simp: above_def)
    then have "prefix (dest @ rel' @ s) (dest @ rel)" by (metis take_is_prefix)
    then have p: "prefix (rel' @ s) rel" by simp
    then have "prefix rel' rel" by (metis append_prefixD)
    then have "rel' = rel" using r(6) assms(2) by blast
    then have "length (dest @ rel' @ s) \<ge> length (dest @ rel)" by simp
    then show False using k by (metis length_take min.strict_order_iff min_def not_le)
  qed
qed

lemma placed_cong:
  assumes "placed dest paths t0 M t"
    and "\<And>rel s. rel \<in> set paths \<Longrightarrow> look t' (rel @ s) = look t (rel @ s) \<and> look t' (dest @ rel @ s) = look t (dest @ rel @ s)"
  shows "placed dest paths t0 M t'"
  using assms unfolding placed_def at_home_def moved_to_def by simp

lemma placed_adds:
  assumes "movable paths" "rel \<in> set paths" "dest = [QUARANTINE, name]" "adds_dirs (above (dest @ rel)) w w'" "placed dest paths t0 M (w_tree w)"
  shows "placed dest paths t0 M (w_tree w')"
proof (rule placed_cong [OF assms(5)])
  fix rel' s assume "rel' \<in> set paths"
  then show "look (w_tree w') (rel' @ s) = look (w_tree w) (rel' @ s) \<and> look (w_tree w') (dest @ rel' @ s) = look (w_tree w) (dest @ rel' @ s)"
    using assms(4) above_dest [OF assms(1, 2) _ assms(3), of rel' s] by (auto simp: adds_dirs_def dirs_added_def)
qed

lemma above_not_special:
  assumes "movable paths" "rel \<in> set paths" "dest = [QUARANTINE, name]"
  shows "dest @ [NOTE] \<notin> above (dest @ rel)" "partial_path (dest @ [JOURNAL]) \<notin> above (dest @ rel)"
    "q \<in> above (dest @ rel) \<Longrightarrow> prefix [QUARANTINE] q"
proof -
  note r = movableD [OF assms(1, 2)]
  have hd: "x = hd rel" if mem: "dest @ [x] \<in> above (dest @ rel)" for x
  proof -
    obtain k where "dest @ [x] = take k (dest @ rel)" using mem unfolding above_def by blast
    then have "prefix (dest @ [x]) (dest @ rel)" by (metis take_is_prefix)
    then show ?thesis by (auto simp: prefix_def)
  qed
  show "dest @ [NOTE] \<notin> above (dest @ rel)" "partial_path (dest @ [JOURNAL]) \<notin> above (dest @ rel)"
    using hd r(4) by (auto simp: partial_path_def)
  assume "q \<in> above (dest @ rel)"
  then obtain k where "q = take k (dest @ rel)" "0 < k" by (auto simp: above_def)
  then show "prefix [QUARANTINE] q" by (cases k) (simp_all add: assms(3))
qed

lemma ready_adds:
  assumes "movable paths" "rel \<in> set paths" "dest = [QUARANTINE, name]" "adds_dirs (above (dest @ rel)) w w'" "ready dest paths t0 (w_tree w)"
  shows "ready dest paths t0 (w_tree w')"
proof -
  have l: "look (w_tree w') q = look (w_tree w) q \<or> q \<in> above (dest @ rel) \<and> look (w_tree w) q = None \<and> look (w_tree w') q = Some Dir" for q
    using assms(4) by (simp add: adds_dirs_def dirs_added_def)
  note sp = above_not_special [OF assms(1-3)]
  have keep: "look (w_tree w') q = look (w_tree w) q" if "look (w_tree w) q \<noteq> None \<or> q \<notin> above (dest @ rel)" for q using l [of q] that by auto
  have "look (w_tree w') q = look t0 q"
    if "\<forall>rel \<in> set paths. \<not> prefix rel q" "\<not> prefix [QUARANTINE] q" "q \<notin> record_paths" for q
    using keep [of q] sp(3) [of q] that assms(5) by (auto simp: ready_def around_def)
  moreover have "look (w_tree w') (dest @ take k rel') \<in> {None, Some Dir}" if "rel' \<in> set paths" "0 < k" "k < length rel'" for rel' k
  proof -
    have "look (w_tree w) (dest @ take k rel') \<in> {None, Some Dir}" using assms(5) that unfolding ready_def around_def by blast
    then show ?thesis using l [of "dest @ take k rel'"] by auto
  qed
  moreover have "look (w_tree w') (dest @ [NOTE]) = look (w_tree w) (dest @ [NOTE])"
    "look (w_tree w') (partial_path (dest @ [JOURNAL])) = look (w_tree w) (partial_path (dest @ [JOURNAL]))" using keep sp(1, 2) by auto
  ultimately show ?thesis using assms(5) keep [of "dest @ [JOURNAL]"] keep [of "[QUARANTINE]"] keep [of dest]
    unfolding ready_def around_def plain_file_def by force
qed

lemma ready_moves:
  assumes "movable paths" "rel \<in> set paths" "dest = [QUARANTINE, name]" "ready dest paths t0 t"
    and same: "\<And>q. \<not> prefix rel q \<Longrightarrow> \<not> prefix (dest @ rel) q \<Longrightarrow> look t' q = look t q"
  shows "ready dest paths t0 t'" "look t' [RECORD] = look t [RECORD]"
proof -
  note r = movableD [OF assms(1, 2)]
  have special: "look t' (dest @ [x]) = look t (dest @ [x])" if "x \<noteq> hd rel" for x
  proof (rule same)
    show "\<not> prefix rel (dest @ [x])" using r(7) [of "name # [x]"] by (simp add: assms(3))
    show "\<not> prefix (dest @ rel) (dest @ [x])" using r(1) that by (cases rel) auto
  qed
  have "look t' (dest @ take k rel') = look t (dest @ take k rel')" if "rel' \<in> set paths" "k < length rel'" for rel' k
  proof (rule same)
    show "\<not> prefix rel (dest @ take k rel')" using r(7) [of "name # take k rel'"] by (simp add: assms(3))
    show "\<not> prefix (dest @ rel) (dest @ take k rel')"
    proof
      assume "prefix (dest @ rel) (dest @ take k rel')"
      then have p: "prefix rel (take k rel')" by simp
      then have "rel = rel'" using r(6) that(1) take_is_prefix prefix_order.trans by blast
      then show False using p that(2) by (auto dest: prefix_length_le)
    qed
  qed
  moreover have "look t' [QUARANTINE] = look t [QUARANTINE]" "look t' dest = look t dest"
    using r(1) r(7) [of "[]"] r(7) [of "[name]"] by (auto intro!: same simp: assms(3))
  moreover have "look t' q = look t q" if "\<not> prefix rel q" "\<not> prefix [QUARANTINE] q" for q
    using that by (intro same) (auto simp: assms(3) prefix_def)
  ultimately show "ready dest paths t0 t'"
    using assms(2, 4) special [of JOURNAL] special [of NOTE] special [of "JOURNAL @ ''.partial''"] r(4)
    unfolding ready_def around_def plain_file_def partial_path_def by auto
  show "look t' [RECORD] = look t [RECORD]"
  proof (rule same)
    show "\<not> prefix rel [RECORD]" using r(1) r(3) [of "[]"] by (cases rel) (auto simp: record_paths_def)
    show "\<not> prefix (dest @ rel) [RECORD]" by (simp add: assms(3) QUARANTINE_def RECORD_def)
  qed
qed

lemma move_looks:
  assumes "movable paths" "rel \<in> set paths" "dest = [QUARANTINE, name]"
  shows "rel \<noteq> dest @ rel" "\<not> prefix rel (dest @ rel @ s)" "\<not> prefix (dest @ rel) (rel @ s)"
    "rel' \<in> set paths \<Longrightarrow> rel' \<noteq> rel \<Longrightarrow> \<not> prefix rel (rel' @ s) \<and> \<not> prefix (dest @ rel) (rel' @ s)"
    "rel' \<in> set paths \<Longrightarrow> rel' \<noteq> rel \<Longrightarrow> \<not> prefix rel (dest @ rel' @ s) \<and> \<not> prefix (dest @ rel) (dest @ rel' @ s)"
proof -
  note r = movableD [OF assms(1, 2)]
  show "rel \<noteq> dest @ rel" by (simp add: assms(3))
  show "\<not> prefix rel (dest @ rel @ s)" using r(7) by (simp add: assms(3))
  have home: "\<not> prefix (dest @ rel) (rel' @ s)" if "rel' \<in> set paths" for rel'
    using movableD(2) [OF assms(1) that, of s] by (auto simp: assms(3) prefix_def)
  show "\<not> prefix (dest @ rel) (rel @ s)" by (rule home [OF assms(2)])
  assume "rel' \<in> set paths" "rel' \<noteq> rel"
  then show "\<not> prefix rel (rel' @ s) \<and> \<not> prefix (dest @ rel) (rel' @ s)" "\<not> prefix rel (dest @ rel' @ s) \<and> \<not> prefix (dest @ rel) (dest @ rel' @ s)"
    using antichain_append [OF assms(1, 2)] home r(7) by (auto simp: assms(3))
qed

lemma placed_step:
  assumes "placed dest paths t0 M t" "if rel \<in> M' then moved_to dest t0 t' rel else at_home dest t0 t' rel"
    and "\<And>rel'. rel' \<noteq> rel \<Longrightarrow> rel' \<in> M' \<longleftrightarrow> rel' \<in> M"
    and "\<And>rel' s. rel' \<in> set paths \<Longrightarrow> rel' \<noteq> rel \<Longrightarrow> look t' (rel' @ s) = look t (rel' @ s) \<and> look t' (dest @ rel' @ s) = look t (dest @ rel' @ s)"
  shows "placed dest paths t0 M' t'"
  unfolding placed_def
proof
  fix rel' assume mem: "rel' \<in> set paths"
  show "if rel' \<in> M' then moved_to dest t0 t' rel' else at_home dest t0 t' rel'"
  proof (cases "rel' = rel")
    case False
    then show ?thesis using assms(1, 3, 4) mem unfolding placed_def at_home_def moved_to_def by simp
  qed (use assms(2) in simp)
qed

lemma moved_out:
  assumes "movable paths" "rel \<in> set paths" "dest = [QUARANTINE, name]" "rel \<notin> M" "placed dest paths t0 M t" "ready dest paths t0 t"
    and run: "replace_plan rel (dest @ rel) t = Inr t'"
  shows "placed dest paths t0 (insert rel M) t'" "ready dest paths t0 t'" "look t' [RECORD] = look t [RECORD]"
proof -
  note m = move_looks [OF assms(1-3)] and l = replace_look [OF run move_looks(1) [OF assms(1-3)]]
  show "ready dest paths t0 t'" "look t' [RECORD] = look t [RECORD]"
    by (rule ready_moves [OF assms(1-3, 6)]; simp add: l)+
  have "moved_to dest t0 t' rel" using assms(2, 4, 5) m(2, 3) by (auto simp: placed_def at_home_def moved_to_def l)
  then show "placed dest paths t0 (insert rel M) t'" using m(4, 5) by (intro placed_step [OF assms(5), of rel]) (auto simp: l)
qed

lemma moved_back:
  assumes "movable paths" "rel \<in> set paths" "dest = [QUARANTINE, name]" "rel \<in> M" "placed dest paths t0 M t" "ready dest paths t0 t"
    and run: "replace_plan (dest @ rel) rel t = Inr t'"
  shows "placed dest paths t0 (M - {rel}) t'" "ready dest paths t0 t'" "look t' [RECORD] = look t [RECORD]"
proof -
  note m = move_looks [OF assms(1-3)] and l = replace_look [OF run move_looks(1) [OF assms(1-3), symmetric]]
  show "ready dest paths t0 t'" "look t' [RECORD] = look t [RECORD]"
    by (rule ready_moves [OF assms(1-3, 6)]; simp add: l)+
  have "at_home dest t0 t' rel" using assms(2, 4, 5) m(2, 3) by (auto simp: placed_def at_home_def moved_to_def l)
  then show "placed dest paths t0 (M - {rel}) t'" using m(4, 5) by (intro placed_step [OF assms(5), of rel]) (auto simp: l)
qed

lemma framed_moves:
  assumes "movable paths" "dest = [QUARANTINE, name]"
    and same: "\<And>q. q \<notin> S \<Longrightarrow> look t' q = look t q"
    and S: "\<And>q. q \<in> S \<Longrightarrow> q \<in> record_paths \<or> (\<exists>x s. q = dest @ x # s \<and> x \<in> {JOURNAL, NOTE, JOURNAL @ ''.partial''})"
  shows "placed dest paths t0 M t \<Longrightarrow> placed dest paths t0 M t'"
    "around dest paths t0 t \<Longrightarrow> plain_file t' (dest @ [NOTE]) \<Longrightarrow> around dest paths t0 t'"
    "rel \<in> set paths \<Longrightarrow> look t' (rel @ s) = look t (rel @ s)"
proof -
  have home: "look t' (rel @ s) = look t (rel @ s)" "look t' (dest @ rel @ s) = look t (dest @ rel @ s)" if "rel \<in> set paths" for rel s
  proof -
    note r = movableD [OF assms(1) that]
    have "rel @ s \<notin> S" using S [of "rel @ s"] r(2) [of s] r(3) [of s] by (auto simp: assms(2))
    then show "look t' (rel @ s) = look t (rel @ s)" by (rule same)
    have "dest @ rel @ s \<notin> S" using S [of "dest @ rel @ s"] r(1, 4)
      by (cases rel) (auto simp: assms(2) record_paths_def QUARANTINE_def RECORD_def partial_record_def)
    then show "look t' (dest @ rel @ s) = look t (dest @ rel @ s)" by (rule same)
  qed
  show "rel \<in> set paths \<Longrightarrow> look t' (rel @ s) = look t (rel @ s)" by (rule home)
  show "placed dest paths t0 M t \<Longrightarrow> placed dest paths t0 M t'" by (erule placed_cong) (simp add: home)
  have dir: "look t' [QUARANTINE] = look t [QUARANTINE]" "look t' dest = look t dest"
    using S [of "[QUARANTINE]"] S [of dest] by (auto intro!: same simp: assms(2) record_paths_def QUARANTINE_def RECORD_def partial_record_def)
  have mid: "look t' (dest @ take k rel) = look t (dest @ take k rel)" if mem: "rel \<in> set paths" and pos: "0 < k" for rel k
  proof (rule same)
    note r = movableD [OF assms(1) mem]
    obtain y ys where rel: "rel = y # ys" using r(1) by (cases rel) auto
    obtain k' where k: "k = Suc k'" using pos by (cases k) auto
    show "dest @ take k rel \<notin> S" using S [of "dest @ take k rel"] r(4)
      by (auto simp: assms(2) rel k record_paths_def QUARANTINE_def RECORD_def partial_record_def)
  qed
  have out: "look t' q = look t q" if "\<not> prefix [QUARANTINE] q" "q \<notin> record_paths" for q
    using S [of q] that by (intro same) (auto simp: assms(2))
  assume "around dest paths t0 t" "plain_file t' (dest @ [NOTE])"
  then show "around dest paths t0 t'" using dir mid out unfolding around_def by simp
qed

text \<open>Between the first move and the last write: some paths are moved and the others are at home.\<close>

definition undecided :: "path \<Rightarrow> path list \<Rightarrow> tree \<Rightarrow> entry option \<Rightarrow> tree \<Rightarrow> bool" where
  "undecided dest paths t0 rec t \<longleftrightarrow> (\<exists>M. placed dest paths t0 M t) \<and> ready dest paths t0 t \<and> look t [RECORD] = rec"

definition moving :: "path \<Rightarrow> path list \<Rightarrow> tree \<Rightarrow> entry option \<Rightarrow> run_record \<Rightarrow> path set \<Rightarrow> world \<Rightarrow> bool" where
  "moving dest paths t0 rec rm M w \<longleftrightarrow>
     placed dest paths t0 M (w_tree w) \<and> ready dest paths t0 (w_tree w) \<and> look (w_tree w) [RECORD] = rec \<and> w_record w = rm"

definition home :: "path list \<Rightarrow> tree \<Rightarrow> tree \<Rightarrow> bool" where
  "home paths t0 t \<longleftrightarrow> (\<forall>rel \<in> set paths. \<forall>s. look t (rel @ s) = look t0 (rel @ s))"

lemma moving_undecided: "moving dest paths t0 rec rm M w \<Longrightarrow> undecided dest paths t0 rec (w_tree w)"
  by (auto simp: moving_def undecided_def)

lemma moving_none: "moving dest paths t0 rec rm {} w \<Longrightarrow> home paths t0 (w_tree w)"
  by (simp add: moving_def placed_def at_home_def home_def)

lemma stable_moving: "moving dest paths t0 rec rm M (w\<lparr>w_faults := fs\<rparr>) = moving dest paths t0 rec rm M w"
  by (simp add: moving_def)

lemma ensures_dest_dirs:
  assumes "movable paths" "rel \<in> set paths" "dest = [QUARANTINE, name]"
  shows "ensures (\<lambda>w. moving dest paths t0 rec rm M w \<and> w_moved w = seen) (makedirs True (butlast (dest @ rel)))
    (\<lambda>_ w. moving dest paths t0 rec rm M w \<and> w_moved w = seen) (\<lambda>_ w. moving dest paths t0 rec rm M w \<and> w_moved w = seen)
    (\<lambda>w. moving dest paths t0 rec rm M w \<and> w_moved w = seen)"
  (is "ensures ?P _ _ _ _")
proof (rule ensures_keeps)
  let ?above = "above (dest @ rel)"
  have rel: "rel \<noteq> []" using movableD(1) [OF assms(1, 2)] .
  show "keeps (adds_dirs ?above) (makedirs True (butlast (dest @ rel)))"
  proof (rule adds_makedirs)
    fix k assume "0 < k" "k \<le> length (butlast (dest @ rel))"
    then show "take k (butlast (dest @ rel)) \<in> ?above" using rel by (auto simp: above_def take_butlast intro!: exI [of _ k])
  qed
  fix w w' assume "?P w" and adds: "adds_dirs ?above w w'"
  then show "?P w'" using placed_adds [OF assms adds] ready_adds [OF assms adds] above_not_special(3) [OF assms, of "[RECORD]"]
    by (auto simp: moving_def adds_dirs_def dirs_added_def same_memory_def QUARANTINE_def RECORD_def)
qed

lemma ensures_replace_out:
  assumes "movable paths" "rel \<in> set paths" "dest = [QUARANTINE, name]" "rel \<notin> M"
  shows "ensures (\<lambda>w. moving dest paths t0 rec rm M w \<and> w_moved w = seen) (replace rel (dest @ rel))
    (\<lambda>_ w. moving dest paths t0 rec rm (insert rel M) w \<and> w_moved w = seen)
    (\<lambda>e w. undecided dest paths t0 rec (w_tree w) \<and> (is_Exception e \<longrightarrow> moving dest paths t0 rec rm M w \<and> w_moved w = seen))
    (\<lambda>w. undecided dest paths t0 rec (w_tree w))"
proof -
  let ?P = "\<lambda>M w. moving dest paths t0 rec rm M w \<and> w_moved w = seen"
  have "ensures (?P M) (replace rel (dest @ rel)) (\<lambda>_. ?P (insert rel M))
      (\<lambda>e w. ?P M w \<or> e = KeyboardInterrupt \<and> ?P (insert rel M) w) (\<lambda>w. ?P M w \<or> ?P (insert rel M) w)"
    unfolding replace_def
  proof (rule ensures_atomic)
    fix w t' assume "?P M w" and run: "replace_plan rel (dest @ rel) (w_tree w) = Inr t'"
    then show "?P (insert rel M) (w\<lparr>w_tree := t'\<rparr>)" using moved_out [OF assms _ _ run, of t0] by (auto simp: moving_def)
  qed (simp_all add: stable_def stable_moving)
  then show ?thesis by (rule ensures_weaken) (auto dest: moving_undecided simp: is_Exception_def)
qed

lemma ensures_move_out:
  assumes "movable paths" "rel \<in> set paths" "dest = [QUARANTINE, name]" "rel \<notin> set seen"
  shows "ensures (\<lambda>w. moving dest paths t0 rec rm (set seen) w \<and> w_moved w = seen) (move_out dest rel)
    (\<lambda>_ w. moving dest paths t0 rec rm (set (seen @ [rel])) w \<and> w_moved w = seen @ [rel])
    (\<lambda>e w. undecided dest paths t0 rec (w_tree w) \<and> (is_Exception e \<longrightarrow> moving dest paths t0 rec rm (set seen) w \<and> w_moved w = seen))
    (\<lambda>w. undecided dest paths t0 rec (w_tree w))"
  (is "ensures ?P _ _ ?E ?K")
proof -
  have mk: "ensures ?P (makedirs True (butlast (dest @ rel))) (\<lambda>_. ?P) ?E ?K"
    by (rule ensures_weaken [OF ensures_dest_dirs [OF assms(1-3)]]) (auto dest: moving_undecided)
  show ?thesis unfolding move_out_def
    by (rule ensures_then [OF mk ensures_then [OF ensures_replace_out [OF assms] ensures_modify]]) (simp add: moving_def)
qed

lemma special_paths:
  assumes "dest = [QUARANTINE, name]"
  shows "q \<in> below (dest @ [JOURNAL]) \<union> below (partial_path (dest @ [JOURNAL])) \<Longrightarrow>
      q \<in> record_paths \<or> (\<exists>x s. q = dest @ x # s \<and> x \<in> {JOURNAL, NOTE, JOURNAL @ ''.partial''})"
    "partial_path (dest @ [JOURNAL]) = dest @ [JOURNAL @ ''.partial'']" "dest @ [JOURNAL] \<noteq> []"
    "dest @ [NOTE] \<notin> below (dest @ [JOURNAL]) \<union> below (partial_path (dest @ [JOURNAL]))"
    "[RECORD] \<notin> below (dest @ [JOURNAL]) \<union> below (partial_path (dest @ [JOURNAL]))"
    "dest @ [x] \<notin> record_paths" "[RECORD] \<noteq> dest @ [x]"
  by (auto simp: assms partial_path_def below_def prefix_def JOURNAL_def NOTE_def record_paths_def QUARANTINE_def RECORD_def partial_record_def)

lemma home_framed:
  assumes "movable paths" "dest = [QUARANTINE, name]" "home paths t0 t" "\<And>q. q \<notin> S \<Longrightarrow> look t' q = look t q"
    "\<And>q. q \<in> S \<Longrightarrow> q \<in> record_paths \<or> (\<exists>x s. q = dest @ x # s \<and> x \<in> {JOURNAL, NOTE, JOURNAL @ ''.partial''})"
  shows "home paths t0 t'"
  using assms(3) framed_moves(3) [OF assms(1, 2, 4, 5)] by (simp add: home_def)

lemma ensures_home_record:
  assumes "movable paths" "dest = [QUARANTINE, name]"
  shows "ensures (\<lambda>w. home paths t0 (w_tree w)) write_record (\<lambda>_ w. home paths t0 (w_tree w)) (\<lambda>_ w. home paths t0 (w_tree w)) (\<lambda>w. home paths t0 (w_tree w))"
proof (rule ensures_keeps [OF handle_write_record])
  fix w w' assume "home paths t0 (w_tree w)" "handles record_paths w w'"
  then show "home paths t0 (w_tree w')"
    by - (rule home_framed [OF assms, where t = "w_tree w" and S = record_paths]; auto simp: handles_def within_def)
qed

lemma ensures_roll_back:
  assumes "movable paths" "dest = [QUARANTINE, name]" "set seen \<subseteq> set paths" "distinct seen"
  shows "ensures (\<lambda>w. moving dest paths t0 rec rm (set seen) w \<and> w_moved w = seen) (roll_back dest j e) (\<lambda>_ w. False)
    (\<lambda>_ w. home paths t0 (w_tree w) \<or> undecided dest paths t0 rec (w_tree w)) (\<lambda>w. home paths t0 (w_tree w) \<or> undecided dest paths t0 rec (w_tree w))"
  (is "ensures ?P _ _ (\<lambda>_. ?E) ?E")
proof -
  let ?H = "\<lambda>w. home paths t0 (w_tree w)"
  have step: "ensures (moving dest paths t0 rec rm (set seen - set undone)) (replace (dest @ rel) rel)
      (\<lambda>_. moving dest paths t0 rec rm (set seen - set (undone @ [rel]))) (\<lambda>_. ?E) ?E" if split: "rev seen = undone @ rel # rest" for undone rel rest
  proof -
    have "rel \<in> set (rev seen)" "rel \<notin> set undone" using assms(4) distinct_rev [of seen] unfolding split by auto
    then have rel: "rel \<in> set seen - set undone" "rel \<in> set paths" using assms(3) by auto
    have "ensures (moving dest paths t0 rec rm (set seen - set undone)) (replace (dest @ rel) rel)
        (\<lambda>_. moving dest paths t0 rec rm (set seen - set undone - {rel}))
        (\<lambda>e w. moving dest paths t0 rec rm (set seen - set undone) w \<or> e = KeyboardInterrupt \<and> moving dest paths t0 rec rm (set seen - set undone - {rel}) w)
        (\<lambda>w. moving dest paths t0 rec rm (set seen - set undone) w \<or> moving dest paths t0 rec rm (set seen - set undone - {rel}) w)"
      unfolding replace_def
    proof (rule ensures_atomic)
      fix w t' assume "moving dest paths t0 rec rm (set seen - set undone) w" and run: "replace_plan (dest @ rel) rel (w_tree w) = Inr t'"
      then show "moving dest paths t0 rec rm (set seen - set undone - {rel}) (w\<lparr>w_tree := t'\<rparr>)"
        using moved_back [OF assms(1) rel(2) assms(2) rel(1) _ _ run, of t0] by (auto simp: moving_def)
    qed (simp_all add: stable_def stable_moving)
    moreover have "set seen - set (undone @ [rel]) = set seen - set undone - {rel}" by auto
    ultimately show ?thesis by (elim ensures_weaken) (auto dest: moving_undecided)
  qed
  have loop: "ensures (moving dest paths t0 rec rm (set seen)) (forI (\<lambda>rel. replace (dest @ rel) rel) (rev seen)) (\<lambda>_. moving dest paths t0 rec rm {}) (\<lambda>_. ?E) ?E"
    using ensures_for [where I = "\<lambda>undone. moving dest paths t0 rec rm (set seen - set undone)" and xs = "rev seen", OF step] by simp
  have jr: "ensures (moving dest paths t0 rec rm {}) (write_journal (dest @ [JOURNAL]) j') (\<lambda>_. ?H) (\<lambda>_. ?E) ?E" for j'
  proof -
    have keep: "?H w'" if "?H w" "handles (below (dest @ [JOURNAL]) \<union> below (partial_path (dest @ [JOURNAL]))) w w'" for w w'
      using that by - (rule home_framed [OF assms(1, 2), where t = "w_tree w" and S = "below (dest @ [JOURNAL]) \<union> below (partial_path (dest @ [JOURNAL]))"];
          (erule special_paths(1) [OF assms(2)])?; simp add: handles_def within_def)
    have "ensures (\<lambda>w. \<exists>old. ?H w \<and> plain_file (w_tree w) (partial_path (dest @ [JOURNAL])) \<and> look (w_tree w) (dest @ [JOURNAL]) = old)
        (write_journal (dest @ [JOURNAL]) j') (\<lambda>_. ?H) (\<lambda>_. ?E) ?E"
      by (rule ensures_pre_ex, rule ensures_weaken, rule ensures_write_journal [where T = ?H]) (auto simp: stable_def keep)
    then show ?thesis by (rule ensures_weaken) (auto simp: moving_none, auto simp: moving_def ready_def)
  qed
  have rec: "ensures ?H (thenI write_record (returnI ())) (\<lambda>_. ?H) (\<lambda>_. ?E) ?E"
    by (rule ensures_then [OF ensures_weaken [OF ensures_home_record [OF assms(1, 2)]] ensures_return]) auto
  have undo: "ensures ?P (bindI (gets w_moved) (\<lambda>moved. forI (\<lambda>rel. replace (dest @ rel) rel) (rev moved))) (\<lambda>_. moving dest paths t0 rec rm {}) (\<lambda>_. ?E) ?E"
  proof (rule ensures_bind)
    show "ensures ?P (gets w_moved) (\<lambda>x w. x = seen \<and> moving dest paths t0 rec rm (set seen) w) (\<lambda>_. ?E) ?E" by (rule ensures_gets) simp
    fix x show "ensures (\<lambda>w. x = seen \<and> moving dest paths t0 rec rm (set seen) w) (forI (\<lambda>rel. replace (dest @ rel) rel) (rev x))
        (\<lambda>_. moving dest paths t0 rec rm {}) (\<lambda>_. ?E) ?E"
      using loop by (cases "x = seen") (auto simp: ensures_def)
  qed
  have "ensures ?H (modify (\<lambda>w. w\<lparr>w_record := (w_record w)\<lparr>rr_pending := None\<rparr>\<rparr>)) (\<lambda>_. ?H) (\<lambda>_. ?E) ?E" by (rule ensures_modify) simp
  note body = ensures_then [OF undo ensures_then [OF jr ensures_then [OF this rec]]]
  show ?thesis unfolding roll_back_def
    by (rule ensures_then [OF ensures_tryException [OF body] ensures_raise]) (auto intro: ensures_raise)
qed

lemma ensures_note:
  assumes "movable paths" "dest = [QUARANTINE, name]"
  shows "ensures (moving dest paths t0 rec rm M) (write_note dest j) (\<lambda>_. moving dest paths t0 rec rm M) (\<lambda>_. moving dest paths t0 rec rm M) (moving dest paths t0 rec rm M)"
proof -
  let ?M = "moving dest paths t0 rec rm M"
  have put: "?M (w\<lparr>w_tree := put (dest @ [NOTE]) (written (look (w_tree w) (dest @ [NOTE])) c) (w_tree w)\<rparr>)" if "?M w" for w c
  proof -
    have w: "written (look (w_tree w) (dest @ [NOTE])) c = File c" using that by (auto intro: plain_file_write simp: moving_def ready_def around_def)
    let ?t = "put (dest @ [NOTE]) (File c) (w_tree w)"
    have same: "q \<notin> {dest @ [NOTE]} \<Longrightarrow> look ?t q = look (w_tree w) q" for q by simp
    note f = framed_moves [OF assms, of "{dest @ [NOTE]}" ?t "w_tree w", OF same]
    have "placed dest paths t0 M ?t" "around dest paths t0 ?t" using that f(1, 2) by (auto simp: moving_def ready_def plain_file_def)
    then show ?thesis using that special_paths [OF assms(2)] unfolding w
      by (auto simp: moving_def ready_def plain_file_simps JOURNAL_def NOTE_def)
  qed
  have wf: "ensures ?M (write_file False (dest @ [NOTE]) c) (\<lambda>_. ?M) (\<lambda>_. ?M) ?M" for c
    unfolding write_file_def
    by (rule ensures_weaken, rule ensures_call [where P = ?M and Q = ?M and S = ?M])
      (auto simp: stable_def stable_moving put write_plan_def split: if_splits)
  show ?thesis unfolding write_note_def by (rule ensures_bind [OF ensures_gets wf])
qed

definition calm :: "path \<Rightarrow> path list \<Rightarrow> tree \<Rightarrow> entry option \<Rightarrow> run_record \<Rightarrow> path set \<Rightarrow> world \<Rightarrow> bool" where
  "calm dest paths t0 rec rm M w \<longleftrightarrow>
     placed dest paths t0 M (w_tree w) \<and> around dest paths t0 (w_tree w) \<and> look (w_tree w) [RECORD] = rec \<and> w_record w = rm"

lemma calm_journal:
  assumes "movable paths" "dest = [QUARANTINE, name]" "calm dest paths t0 rec rm M w"
    "handles (below (dest @ [JOURNAL]) \<union> below (partial_path (dest @ [JOURNAL]))) w w'" "w_record w' = w_record w"
  shows "calm dest paths t0 rec rm M w'"
proof -
  let ?S = "below (dest @ [JOURNAL]) \<union> below (partial_path (dest @ [JOURNAL]))"
  have same: "q \<notin> ?S \<Longrightarrow> look (w_tree w') q = look (w_tree w) q" for q using assms(4) by (simp add: handles_def within_def)
  note f = framed_moves [OF assms(1, 2), of ?S "w_tree w'" "w_tree w", OF same special_paths(1) [OF assms(2)]]
  have "plain_file (w_tree w') (dest @ [NOTE])"
    using assms(3) same [OF special_paths(4) [OF assms(2)]] by (simp add: calm_def around_def plain_file_def)
  then show ?thesis using assms(3, 5) f(1, 2) same [OF special_paths(5) [OF assms(2)]] by (simp add: calm_def)
qed

lemma placed_ready_record:
  assumes "movable paths" "dest = [QUARANTINE, name]" "placed dest paths t0 M (w_tree w) \<and> ready dest paths t0 (w_tree w)" "handles record_paths w w'"
  shows "placed dest paths t0 M (w_tree w') \<and> ready dest paths t0 (w_tree w')"
proof -
  have same: "q \<notin> record_paths \<Longrightarrow> look (w_tree w') q = look (w_tree w) q" for q using assms(4) by (simp add: handles_def within_def)
  note f = framed_moves [OF assms(1, 2), of record_paths "w_tree w'" "w_tree w", OF same]
  have sp: "look (w_tree w') (dest @ [x]) = look (w_tree w) (dest @ [x])" for x using same special_paths(6) [OF assms(2)] by blast
  have "plain_file (w_tree w') (dest @ [NOTE])" using assms(3) by (simp add: plain_file_def sp ready_def around_def)
  then show ?thesis using assms(3) f(1, 2) by (simp add: ready_def plain_file_def special_paths(2) [OF assms(2)] sp)
qed

lemma ensures_journal:
  assumes "movable paths" "dest = [QUARANTINE, name]" "jn_moves j = paths"
  shows "ensures (moving dest paths t0 rec rm M) (write_journal (dest @ [JOURNAL]) j) (\<lambda>_. moving dest paths t0 rec rm M) (\<lambda>_. moving dest paths t0 rec rm M) (moving dest paths t0 rec rm M)"
proof -
  let ?T = "calm dest paths t0 rec rm M" and ?M = "moving dest paths t0 rec rm M"
  note keep = calm_journal [OF assms(1, 2)]
  have "ensures (\<lambda>w. \<exists>old. ?T w \<and> plain_file (w_tree w) (partial_path (dest @ [JOURNAL])) \<and> look (w_tree w) (dest @ [JOURNAL]) = Some (File (Journal old)) \<and> jn_moves old = paths)
      (write_journal (dest @ [JOURNAL]) j) (\<lambda>_. ?M) (\<lambda>_. ?M) ?M"
  proof (rule ensures_pre_ex)
    fix old
    have "ensures (\<lambda>w. ?T w \<and> plain_file (w_tree w) (partial_path (dest @ [JOURNAL])) \<and> look (w_tree w) (dest @ [JOURNAL]) = Some (File (Journal old)))
        (write_journal (dest @ [JOURNAL]) j)
        (\<lambda>_ w. ?T w \<and> plain_file (w_tree w) (partial_path (dest @ [JOURNAL])) \<and> look (w_tree w) (dest @ [JOURNAL]) = Some (File (Journal j)))
        (\<lambda>_ w. ?T w \<and> plain_file (w_tree w) (partial_path (dest @ [JOURNAL])) \<and> (look (w_tree w) (dest @ [JOURNAL]) = Some (File (Journal old)) \<or> look (w_tree w) (dest @ [JOURNAL]) = Some (File (Journal j))))
        (\<lambda>w. ?T w \<and> plain_file (w_tree w) (partial_path (dest @ [JOURNAL])) \<and> (look (w_tree w) (dest @ [JOURNAL]) = Some (File (Journal old)) \<or> look (w_tree w) (dest @ [JOURNAL]) = Some (File (Journal j))))"
    proof (rule ensures_write_journal)
      show "stable ?T" by (simp add: stable_def calm_def)
    qed (rule special_paths(3) [OF assms(2)], rule keep)
    note run = this
    show "ensures (\<lambda>w. ?T w \<and> plain_file (w_tree w) (partial_path (dest @ [JOURNAL])) \<and> look (w_tree w) (dest @ [JOURNAL]) = Some (File (Journal old)) \<and> jn_moves old = paths)
        (write_journal (dest @ [JOURNAL]) j) (\<lambda>_. ?M) (\<lambda>_. ?M) ?M"
    proof (cases "jn_moves old = paths")
      case True
      show ?thesis by (rule ensures_weaken [OF run]) (auto simp: True assms(3) moving_def ready_def calm_def)
    next
      case False
      then show ?thesis by (simp add: ensures_False)
    qed
  qed
  then show ?thesis by (rule ensures_weaken) (auto simp: moving_def ready_def calm_def)
qed

text \<open>A quarantine that came to its end: everything is moved and the record is no longer pending.\<close>

definition finished :: "path \<Rightarrow> path list \<Rightarrow> tree \<Rightarrow> run_record \<Rightarrow> tree \<Rightarrow> bool" where
  "finished dest paths t0 rm t \<longleftrightarrow> (\<forall>rel \<in> set paths. moved_to dest t0 t rel) \<and> around dest paths t0 t \<and>
     (\<exists>stamp. look t [RECORD] = Some (File (Record (bumped stamp (rm\<lparr>rr_pending := None\<rparr>)))))"

lemma ensures_finish:
  assumes "movable paths" "dest = [QUARANTINE, name]" "jn_moves j = paths"
  shows "ensures (moving dest paths t0 rec rm (set paths)) (finish dest (dest @ [JOURNAL]) j) (\<lambda>_ w. finished dest paths t0 rm (w_tree w))
    (\<lambda>_ w. undecided dest paths t0 rec (w_tree w) \<or> finished dest paths t0 rm (w_tree w)) (\<lambda>w. undecided dest paths t0 rec (w_tree w) \<or> finished dest paths t0 rm (w_tree w))"
  (is "ensures ?M _ (\<lambda>_. ?F) (\<lambda>_. ?E) ?E")
proof -
  let ?r = "rm\<lparr>rr_pending := None\<rparr>" and ?T = "\<lambda>w. placed dest paths t0 (set paths) (w_tree w) \<and> ready dest paths t0 (w_tree w)"
  note keep = placed_ready_record [OF assms(1, 2)]
  have fin: "?E w" if "?T w" "look (w_tree w) [RECORD] = rec \<or> look (w_tree w) [RECORD] = Some (File (Record (bumped stamp ?r)))" for w stamp
    using that by (auto simp: undecided_def finished_def placed_def ready_def)
  have wr: "ensures (\<lambda>w. ?T w \<and> look (w_tree w) [RECORD] = rec \<and> w_record w = ?r) write_record (\<lambda>_. ?F) (\<lambda>_. ?E) ?E"
  proof (rule ensures_weaken [OF ensures_write_record [where T = ?T and old = rec and r = ?r, OF keep]])
    fix w :: world assume "?T w \<and> (\<exists>stamp. (look (w_tree w) [RECORD] = rec \<or> look (w_tree w) [RECORD] = Some (File (Record (bumped stamp ?r)))) \<and> w_record w = bumped stamp ?r)"
    then show "?E w" "?E w" using fin by blast+
  qed (auto simp: finished_def placed_def ready_def)
  have "ensures ?M (write_note dest j) (\<lambda>_. ?M) (\<lambda>_. ?E) ?E"
    by (rule ensures_weaken [OF ensures_note [OF assms(1, 2)]]) (auto dest: moving_undecided)
  moreover have "ensures ?M (write_journal (dest @ [JOURNAL]) (j\<lparr>jn_status := JournalDone\<rparr>)) (\<lambda>_. ?M) (\<lambda>_. ?E) ?E"
    by (rule ensures_weaken [OF ensures_journal [OF assms(1, 2)]]) (auto simp: assms(3) dest: moving_undecided)
  moreover have "ensures ?M (modify (\<lambda>w. w\<lparr>w_record := (w_record w)\<lparr>rr_pending := None\<rparr>\<rparr>)) (\<lambda>_ w. ?T w \<and> look (w_tree w) [RECORD] = rec \<and> w_record w = ?r) (\<lambda>_. ?E) ?E"
    by (rule ensures_modify) (simp add: moving_def)
  ultimately have "ensures ?M (finish dest (dest @ [JOURNAL]) j) (\<lambda>_. ?F) (\<lambda>_. ?E) ?E" unfolding finish_def
    by - (rule ensures_then, assumption, rule ensures_then, assumption, rule ensures_then, assumption,
      rule ensures_then [OF wr], rule ensures_return)
  then show ?thesis .
qed

lemma ensures_move_all:
  assumes "movable paths" "dest = [QUARANTINE, name]" "jn_moves j = paths"
  shows "ensures (moving dest paths t0 rec rm {}) (move_all dest j paths) (\<lambda>_ w. finished dest paths t0 rm (w_tree w))
    (\<lambda>_ w. home paths t0 (w_tree w) \<or> undecided dest paths t0 rec (w_tree w) \<or> finished dest paths t0 rm (w_tree w))
    (\<lambda>w. home paths t0 (w_tree w) \<or> undecided dest paths t0 rec (w_tree w) \<or> finished dest paths t0 rm (w_tree w))"
  (is "ensures _ _ (\<lambda>_. ?F) (\<lambda>_. ?E) ?E")
proof -
  let ?I = "\<lambda>seen w. moving dest paths t0 rec rm (set seen) w \<and> w_moved w = seen"
  let ?X = "\<lambda>e w. undecided dest paths t0 rec (w_tree w) \<and> (is_Exception e \<longrightarrow> (\<exists>seen. set seen \<subseteq> set paths \<and> distinct seen \<and> ?I seen w))"
  have step: "ensures (?I seen) (move_out dest rel) (\<lambda>_. ?I (seen @ [rel])) ?X (\<lambda>w. undecided dest paths t0 rec (w_tree w))"
    if split: "paths = seen @ rel # rest" for seen rel rest
  proof -
    have d: "distinct paths" using assms(1) by (simp add: movable_def)
    have mem: "rel \<in> set paths" "rel \<notin> set seen" "set seen \<subseteq> set paths" "distinct seen" using d unfolding split by auto
    show ?thesis by (rule ensures_weaken [OF ensures_move_out [OF assms(1) mem(1) assms(2) mem(2)]]) (use mem in auto)
  qed
  have loop: "ensures (?I []) (forI (move_out dest) paths) (\<lambda>_. ?I paths) ?X (\<lambda>w. undecided dest paths t0 rec (w_tree w))"
    by (rule ensures_for [where I = ?I, OF step])
  have undo: "ensures (?X e) (roll_back dest j e) (\<lambda>_. ?I paths) (\<lambda>_. ?E) ?E" if "is_Exception e" for e
  proof -
    have "ensures (\<lambda>w. \<exists>seen. set seen \<subseteq> set paths \<and> distinct seen \<and> ?I seen w) (roll_back dest j e) (\<lambda>_. ?I paths) (\<lambda>_. ?E) ?E"
    proof (rule ensures_pre_ex)
      fix seen
      show "ensures (\<lambda>w. set seen \<subseteq> set paths \<and> distinct seen \<and> ?I seen w) (roll_back dest j e) (\<lambda>_. ?I paths) (\<lambda>_. ?E) ?E"
      proof (cases "set seen \<subseteq> set paths \<and> distinct seen")
        case True
        then have s: "set seen \<subseteq> set paths" "distinct seen" by auto
        show ?thesis by (rule ensures_weaken [OF ensures_roll_back [OF assms(1, 2) s]]) auto
      next
        case False
        then show ?thesis unfolding ensures_def by blast
      qed
    qed
    then show ?thesis by (rule ensures_weaken) (use that in auto)
  qed
  have "ensures (?I []) (tryException (forI (move_out dest) paths) (roll_back dest j)) (\<lambda>_. ?I paths) (\<lambda>_. ?E) ?E"
    by (rule ensures_tryException [OF ensures_weaken [OF loop] undo]) auto
  moreover have "ensures (?I paths) (finish dest (dest @ [JOURNAL]) j) (\<lambda>_. ?F) (\<lambda>_. ?E) ?E"
    by (rule ensures_weaken [OF ensures_finish [OF assms]]) auto
  moreover have "ensures (moving dest paths t0 rec rm {}) (modify (\<lambda>w. w\<lparr>w_moved := []\<rparr>)) (\<lambda>_. ?I []) (\<lambda>_. ?E) ?E"
    by (rule ensures_modify) (simp add: moving_def)
  ultimately show ?thesis unfolding move_all_def by (blast intro: ensures_then)
qed

lemma ensures_mark_pending:
  assumes "movable paths" "dest = [QUARANTINE, name]" "jn_moves j = paths"
  shows "ensures (\<lambda>w. calm dest paths t0 rec rm {} w \<and> plain_file (w_tree w) (partial_path (dest @ [JOURNAL])) \<and> look (w_tree w) (dest @ [JOURNAL]) = None)
    (mark_pending dest j) (\<lambda>_ w. \<exists>stamp. moving dest paths t0 (Some (File (Record (bumped stamp rm)))) (bumped stamp rm) {} w)
    (\<lambda>_ w. home paths t0 (w_tree w)) (\<lambda>w. home paths t0 (w_tree w))"
  (is "ensures ?P _ (\<lambda>_. ?Q) (\<lambda>_. ?H) ?H")
proof -
  let ?T = "\<lambda>w. placed dest paths t0 {} (w_tree w) \<and> ready dest paths t0 (w_tree w)"
  let ?R = "\<lambda>w. ?T w \<and> look (w_tree w) [RECORD] = rec \<and> w_record w = rm"
  have calm_home: "?H w" if "calm dest paths t0 rec rm {} w" for w using that by (auto simp: calm_def placed_def at_home_def home_def)
  have T_home: "?H w" if "?T w" for w using that by (auto simp: placed_def at_home_def home_def)
  have "stable (calm dest paths t0 rec rm {})" by (simp add: stable_def calm_def)
  note jr = ensures_write_journal [OF special_paths(3) [OF assms(2)] this calm_journal [OF assms(1, 2)], where old = None and j = j]
  have "ensures ?P (write_journal (dest @ [JOURNAL]) j) (\<lambda>_. ?R) (\<lambda>_. ?H) ?H"
    by (rule ensures_weaken [OF jr]) (auto simp: calm_home, auto simp: calm_def ready_def assms(3))
  moreover have "ensures ?R write_record (\<lambda>_. ?Q) (\<lambda>_. ?H) ?H"
  proof (rule ensures_weaken [OF ensures_write_record [where T = ?T and old = rec and r = rm, OF placed_ready_record [OF assms(1, 2)]]])
  qed (auto simp: moving_def T_home)
  moreover have "ensures ?Q (returnI ()) (\<lambda>_. ?Q) (\<lambda>_. ?H) ?H" by (rule ensures_return)
  ultimately have body: "ensures ?P (thenI (write_journal (dest @ [JOURNAL]) j) (thenI write_record (returnI ()))) (\<lambda>_. ?Q) (\<lambda>_. ?H) ?H"
    by (blast intro: ensures_then)
  have "ensures ?H (rmtree dest) (\<lambda>_. ?H) (\<lambda>_. ?H) ?H"
  proof (rule ensures_keeps)
    show "keeps (within (below dest)) (rmtree dest)" by (rule within_rmtree) simp
    fix w w' assume "?H w" "within (below dest) w w'"
    moreover have "rel @ s \<notin> below dest" if "rel \<in> set paths" for rel s using movableD(2) [OF assms(1) that, of s] by (auto simp: assms(2) prefix_def)
    ultimately show "?H w'" by (simp add: home_def within_def)
  qed
  then show ?thesis unfolding mark_pending_def
    by (intro ensures_try [OF body]) (blast intro: ensures_then ensures_raise)
qed

section \<open>All, nothing, or an open journal\<close>

definition pending_record :: "path \<Rightarrow> string \<Rightarrow> path list \<Rightarrow> run_record \<Rightarrow> run_record" where
  "pending_record dest started paths r = (unlist paths r)\<lparr>rr_pending := Some (Quarantining (dest @ [JOURNAL]) started)\<rparr>"

definition interrupted :: "path \<Rightarrow> path list \<Rightarrow> tree \<Rightarrow> run_record \<Rightarrow> tree \<Rightarrow> bool" where
  "interrupted dest paths t0 r t \<longleftrightarrow>
     (\<exists>name started stamp. dest = [QUARANTINE, name] \<and> undecided dest paths t0 (Some (File (Record (bumped stamp (pending_record dest started paths r))))) t)"

definition complete :: "path \<Rightarrow> path list \<Rightarrow> tree \<Rightarrow> run_record \<Rightarrow> tree \<Rightarrow> bool" where
  "complete dest paths t0 r t \<longleftrightarrow>
     (\<exists>name started stamp. dest = [QUARANTINE, name] \<and> finished dest paths t0 (bumped stamp (pending_record dest started paths r)) t)"

lemma new_dest_calm:
  assumes "movable paths" "well_formed t0" "dest = [QUARANTINE, name]" "\<not> lexists t0 dest" "\<not> islink t0 [QUARANTINE]"
    and adds: "dirs_added {q. prefix q dest \<and> q \<noteq> []} t0 (w_tree w)" and dir: "look (w_tree w) dest = Some Dir" "isdir (w_tree w) [QUARANTINE]"
  shows "placed dest paths t0 {} (w_tree w)" "around dest paths t0 (w_tree w)" "plain_file (w_tree w) (partial_path (dest @ [JOURNAL]))"
    "look (w_tree w) (dest @ [JOURNAL]) = None" "look (w_tree w) [RECORD] = look t0 [RECORD]"
proof -
  let ?S = "{q. prefix q dest \<and> q \<noteq> []}"
  have S: "q \<in> ?S \<longleftrightarrow> q = [QUARANTINE] \<or> q = dest" for q by (auto simp: assms(3) prefix_Cons)
  have l: "look (w_tree w) q = look t0 q \<or> q \<in> ?S \<and> look t0 q = None \<and> look (w_tree w) q = Some Dir" for q
    using adds by (simp add: dirs_added_def)
  have keep: "look (w_tree w) q = look t0 q" if "q \<noteq> [QUARANTINE]" "q \<noteq> dest" for q using l [of q] S that by blast
  have under: "look (w_tree w) (dest @ s) = None" if "s \<noteq> []" for s
    using keep [of "dest @ s"] that well_formed_below [OF assms(2), of dest s] assms(4) by (auto simp: assms(3) isdir_def lexists_def)
  have rel: "rel @ s \<noteq> [QUARANTINE] \<and> rel @ s \<noteq> dest" if "rel \<in> set paths" for rel s
    using movableD(2) [OF assms(1) that, of s] by (auto simp: assms(3))
  have "at_home dest t0 (w_tree w) r" if "r \<in> set paths" for r
    unfolding at_home_def using keep rel [OF that] under [of "r @ s" for s] movableD(1) [OF assms(1) that] by simp
  then show "placed dest paths t0 {} (w_tree w)" by (simp add: placed_def)
  have q: "look (w_tree w) [QUARANTINE] = Some Dir" using dir(2) l [of "[QUARANTINE]"] assms(5) by (auto simp: isdir_def islink_def)
  have "look (w_tree w) (dest @ take k rel) = None" if "rel \<in> set paths" "0 < k" "k < length rel" for rel k using that by (intro under) auto
  moreover have "look (w_tree w) p = look t0 p" if "\<not> prefix [QUARANTINE] p" for p using that by (intro keep) (auto simp: assms(3))
  ultimately show "around dest paths t0 (w_tree w)" unfolding around_def using q dir(1) under [of "[NOTE]"] by (simp add: plain_file_def)
  show "plain_file (w_tree w) (partial_path (dest @ [JOURNAL]))" "look (w_tree w) (dest @ [JOURNAL]) = None"
    using under by (simp_all add: plain_file_def special_paths(2) [OF assms(3)])
  show "look (w_tree w) [RECORD] = look t0 [RECORD]" by (rule keep) (simp_all add: assms(3) RECORD_def QUARANTINE_def)
qed

definition base :: "tree \<Rightarrow> run_record \<Rightarrow> world \<Rightarrow> bool" where
  "base t0 r w \<longleftrightarrow> w_tree w = t0 \<and> w_record w = r \<and> norm_parts [] (w_root w) = w_root w"

lemma ensures_quarantine_link:
  assumes "\<And>w. base t0 r w \<Longrightarrow> E w"
  shows "ensures (base t0 r) (bindI (gets (\<lambda>w. lexists (w_tree w) [QUARANTINE])) (\<lambda>there.
      if there then thenI (run_path_io (Relative [QUARANTINE])) (returnI ()) else returnI ()))
    (\<lambda>_ w. base t0 r w \<and> \<not> islink t0 [QUARANTINE]) (\<lambda>_. E) E"
proof (rule ensures_bind [where R = "\<lambda>there w. base t0 r w \<and> there = lexists t0 [QUARANTINE]"])
  show "ensures (base t0 r) (gets (\<lambda>w. lexists (w_tree w) [QUARANTINE])) (\<lambda>there w. base t0 r w \<and> there = lexists t0 [QUARANTINE]) (\<lambda>_. E) E"
    by (rule ensures_gets) (simp add: base_def)
  fix there
  have "ensures (base t0 r) (run_path_io (Relative [QUARANTINE])) (\<lambda>_ w. base t0 r w \<and> \<not> islink t0 [QUARANTINE]) (\<lambda>_. E) E"
    unfolding run_path_io_def
  proof (rule ensures_bind [where R = "\<lambda>x w. base t0 r w \<and> x = run_path (w_root w) t0 (Relative [QUARANTINE])"])
    show "ensures (base t0 r) (gets (\<lambda>w. run_path (w_root w) (w_tree w) (Relative [QUARANTINE])))
        (\<lambda>x w. base t0 r w \<and> x = run_path (w_root w) t0 (Relative [QUARANTINE])) (\<lambda>_. E) E" by (rule ensures_gets) (simp add: base_def)
    fix x
    show "ensures (\<lambda>w. base t0 r w \<and> x = run_path (w_root w) t0 (Relative [QUARANTINE])) (liftI x) (\<lambda>_ w. base t0 r w \<and> \<not> islink t0 [QUARANTINE]) (\<lambda>_. E) E"
    proof (rule ensures_lift)
      fix w y assume "base t0 r w \<and> x = run_path (w_root w) t0 (Relative [QUARANTINE])" "x = Inr y"
      moreover have "plain_path [QUARANTINE]" by (simp add: plain_path_def QUARANTINE_def)
      ultimately show "base t0 r w \<and> \<not> islink t0 [QUARANTINE]" by (auto simp: run_path_plain base_def split: if_splits)
    qed (use assms in blast)
  qed
  then show "ensures (\<lambda>w. base t0 r w \<and> there = lexists t0 [QUARANTINE]) (if there then thenI (run_path_io (Relative [QUARANTINE])) (returnI ()) else returnI ())
      (\<lambda>_ w. base t0 r w \<and> \<not> islink t0 [QUARANTINE]) (\<lambda>_. E) E"
    by (cases there) (auto intro!: ensures_then [where R = "\<lambda>w. base t0 r w \<and> \<not> islink t0 [QUARANTINE]"] ensures_return
      elim: ensures_weaken simp: lexists_def islink_def)
qed

lemma ensures_base_reads:
  assumes "keeps reads m" "\<And>w. base t0 r w \<Longrightarrow> E w"
  shows "ensures (base t0 r) m (\<lambda>_. base t0 r) (\<lambda>_. E) E"
  by (rule ensures_weaken [OF ensures_keeps [OF assms(1), where P = "base t0 r" and I = "base t0 r"]])
    (use assms(2) in \<open>auto simp: base_def reads_def steady_def same_memory_def\<close>)

lemma ensures_new_dest:
  assumes "movable paths" "well_formed t0" "dest = [QUARANTINE, name]" "\<not> lexists t0 dest" "\<not> islink t0 [QUARANTINE]"
  shows "ensures (base t0 r) (makedirs False dest)
    (\<lambda>_ w. calm dest paths t0 (look t0 [RECORD]) r {} w \<and> plain_file (w_tree w) (partial_path (dest @ [JOURNAL])) \<and> look (w_tree w) (dest @ [JOURNAL]) = None)
    (\<lambda>_ w. home paths t0 (w_tree w)) (\<lambda>w. home paths t0 (w_tree w))"
proof -
  let ?S = "{q. prefix q dest \<and> q \<noteq> []}"
  let ?P = "\<lambda>w. dirs_added ?S t0 (w_tree w) \<and> w_record w = r"
  have mk: "ensures ?P (makedirs False dest) (\<lambda>_ w. ?P w \<and> look (w_tree w) dest = Some Dir \<and> isdir (w_tree w) (butlast dest)) (\<lambda>_. ?P) ?P"
    by (rule ensures_makedirs_new) (auto simp: stable_def assms(3) adds_dirs_def same_memory_def intro: dirs_added_trans)
  have H: "home paths t0 (w_tree w)" if "?P w" for w
  proof -
    have "look (w_tree w) (rel @ s) = look t0 (rel @ s)" if "rel \<in> set paths" for rel s
    proof -
      have "rel @ s \<notin> ?S" using movableD(1) [OF assms(1) that] movableD(2) [OF assms(1) that, of s]
        by (cases rel) (auto simp: assms(3) prefix_Cons)
      then show ?thesis using \<open>?P w\<close> by (auto simp: dirs_added_def)
    qed
    then show ?thesis by (simp add: home_def)
  qed
  show ?thesis
  proof (rule ensures_weaken [OF mk])
    fix w :: world and x assume "?P w \<and> look (w_tree w) dest = Some Dir \<and> isdir (w_tree w) (butlast dest)"
    then show "calm dest paths t0 (look t0 [RECORD]) r {} w \<and> plain_file (w_tree w) (partial_path (dest @ [JOURNAL])) \<and> look (w_tree w) (dest @ [JOURNAL]) = None"
      using new_dest_calm [OF assms, of w] by (simp add: calm_def assms(3))
  qed (use H in \<open>auto simp: base_def dirs_added_def\<close>)
qed

lemma ensures_quarantine_paths:
  assumes "movable paths" "well_formed t0"
  shows "ensures (base t0 r) (quarantine_paths reason paths)
    (\<lambda>x w. \<exists>dest. x = (Some dest, paths) \<and> complete dest paths t0 r (w_tree w))
    (\<lambda>_ w. home paths t0 (w_tree w) \<or> (\<exists>dest. interrupted dest paths t0 r (w_tree w)) \<or> (\<exists>dest. complete dest paths t0 r (w_tree w)))
    (\<lambda>w. home paths t0 (w_tree w) \<or> (\<exists>dest. interrupted dest paths t0 r (w_tree w)) \<or> (\<exists>dest. complete dest paths t0 r (w_tree w)))"
  (is "ensures ?P _ ?Q (\<lambda>_. ?E) ?E")
proof -
  have home0: "?E w" if "?P w" for w using that by (simp add: home_def base_def)
  let ?P1 = "\<lambda>w. base t0 r w \<and> \<not> islink t0 [QUARANTINE]"
  have main: "ensures ?P1 (thenI (makedirs False dest)
      (bindI utc_stamp (\<lambda>started.
       thenI (modify (\<lambda>w. w\<lparr>w_record := (unlist paths (w_record w))\<lparr>rr_pending := Some (Quarantining (dest @ [JOURNAL]) started)\<rparr>\<rparr>))
       (thenI (mark_pending dest j) (thenI (move_all dest j paths) (returnI (Some dest, paths))))))) ?Q (\<lambda>_. ?E) ?E"
    if "dest = [QUARANTINE, name]" "\<not> lexists t0 dest" "jn_moves j = paths" for dest name j
  proof (cases "islink t0 [QUARANTINE]")
    case False
    let ?rec = "look t0 [RECORD]" and ?p = "partial_path (dest @ [JOURNAL])"
    let ?C = "\<lambda>rm w. calm dest paths t0 ?rec rm {} w \<and> plain_file (w_tree w) ?p \<and> look (w_tree w) (dest @ [JOURNAL]) = None"
    have mkd: "ensures ?P1 (makedirs False dest) (\<lambda>_. ?C r) (\<lambda>_. ?E) ?E"
      by (rule ensures_weaken [OF ensures_new_dest [OF assms that(1, 2) False]]) auto
    have ust: "ensures (?C r) utc_stamp (\<lambda>_. ?C r) (\<lambda>_. ?E) ?E" by (rule ensures_utc_stamp) (simp add: calm_def)
    have set_pending: "ensures (?C r) (modify (\<lambda>w. w\<lparr>w_record := (unlist paths (w_record w))\<lparr>rr_pending := Some (Quarantining (dest @ [JOURNAL]) started)\<rparr>\<rparr>))
        (\<lambda>_. ?C (pending_record dest started paths r)) (\<lambda>_. ?E) ?E" for started
      by (rule ensures_modify) (simp add: calm_def pending_record_def)
    have rest: "ensures (?C (pending_record dest started paths r)) (thenI (mark_pending dest j) (thenI (move_all dest j paths) (returnI (Some dest, paths)))) ?Q (\<lambda>_. ?E) ?E" for started
    proof (rule ensures_then)
      let ?rm = "pending_record dest started paths r"
      show "ensures (?C ?rm) (mark_pending dest j) (\<lambda>_ w. \<exists>stamp. moving dest paths t0 (Some (File (Record (bumped stamp ?rm)))) (bumped stamp ?rm) {} w) (\<lambda>_. ?E) ?E"
        by (rule ensures_weaken [OF ensures_mark_pending [OF assms(1) that(1, 3)]]) auto
      show "ensures (\<lambda>w. \<exists>stamp. moving dest paths t0 (Some (File (Record (bumped stamp ?rm)))) (bumped stamp ?rm) {} w) (thenI (move_all dest j paths) (returnI (Some dest, paths))) ?Q (\<lambda>_. ?E) ?E"
      proof (rule ensures_pre_ex, rule ensures_then)
        fix stamp
        have i: "interrupted dest paths t0 r t" if "undecided dest paths t0 (Some (File (Record (bumped stamp ?rm)))) t" for t
          using that \<open>dest = _\<close> unfolding interrupted_def by blast
        have c: "complete dest paths t0 r t" if "finished dest paths t0 (bumped stamp ?rm) t" for t
          using that \<open>dest = _\<close> unfolding complete_def by blast
        show "ensures (moving dest paths t0 (Some (File (Record (bumped stamp ?rm)))) (bumped stamp ?rm) {}) (move_all dest j paths) (\<lambda>_ w. complete dest paths t0 r (w_tree w)) (\<lambda>_. ?E) ?E"
          by (rule ensures_weaken [OF ensures_move_all [OF assms(1) that(1, 3)]]) (use i c in blast)+
        show "ensures (\<lambda>w. complete dest paths t0 r (w_tree w)) (returnI (Some dest, paths)) ?Q (\<lambda>_. ?E) ?E" by (rule ensures_return) blast
      qed
    qed
    show ?thesis by (rule ensures_then [OF mkd ensures_bind [OF ust ensures_then [OF set_pending rest]]])
  qed (simp add: ensures_False)
  let ?P2 = "\<lambda>dest w. ?P1 w \<and> (\<exists>name. dest = [QUARANTINE, name]) \<and> \<not> lexists t0 dest"
  have P2: "ensures (?P2 dest) m (\<lambda>_. ?P2 dest) (\<lambda>_. ?E) ?E" if "keeps reads m" for m :: "(path \<times> string) list io" and dest
    by (rule ensures_weaken [OF ensures_keeps [OF that, where P = "?P2 dest" and I = "?P2 dest"]])
      (auto simp: base_def reads_def steady_def same_memory_def home_def)
  have whole: "ensures (?P2 dest) (bindI (mapI (\<lambda>f. bindI (file_sha256 f) (\<lambda>h. returnI (f, h))) names) (\<lambda>hashed.
      let j = \<lparr>jn_status = Moving, jn_reason = reason, jn_moves = paths, jn_files = hashed\<rparr> in
      thenI (makedirs False dest)
      (bindI utc_stamp (\<lambda>started.
       thenI (modify (\<lambda>w. w\<lparr>w_record := (unlist paths (w_record w))\<lparr>rr_pending := Some (Quarantining (dest @ [JOURNAL]) started)\<rparr>\<rparr>))
       (thenI (mark_pending dest j) (thenI (move_all dest j paths) (returnI (Some dest, paths)))))))) ?Q (\<lambda>_. ?E) ?E" for dest names
  proof (rule ensures_bind [OF P2])
    show "keeps reads (mapI (\<lambda>f. bindI (file_sha256 f) (\<lambda>h. returnI (f, h))) names)" by (intro reading.keeps_rules)
    fix hashed
    show "ensures (?P2 dest) (let j = \<lparr>jn_status = Moving, jn_reason = reason, jn_moves = paths, jn_files = hashed\<rparr> in
      thenI (makedirs False dest)
      (bindI utc_stamp (\<lambda>started.
       thenI (modify (\<lambda>w. w\<lparr>w_record := (unlist paths (w_record w))\<lparr>rr_pending := Some (Quarantining (dest @ [JOURNAL]) started)\<rparr>\<rparr>))
       (thenI (mark_pending dest j) (thenI (move_all dest j paths) (returnI (Some dest, paths))))))) ?Q (\<lambda>_. ?E) ?E"
    proof (cases "(\<exists>name. dest = [QUARANTINE, name]) \<and> \<not> lexists t0 dest")
      case True
      then obtain name where "dest = [QUARANTINE, name]" "\<not> lexists t0 dest" by blast
      from main [OF this] show ?thesis unfolding Let_def by (rule ensures_weaken) auto
    next
      case False
      then show ?thesis unfolding ensures_def by blast
    qed
  qed
  have g1: "ensures ?P1 (gets (\<lambda>w. free_name (w_tree w) [QUARANTINE] stamp)) ?P2 (\<lambda>_. ?E) ?E" for stamp
    by (rule ensures_gets) (use free_name_free [of t0 "[QUARANTINE]" stamp] in \<open>auto simp: base_def\<close>)
  have g2: "ensures (?P2 dest) (gets (\<lambda>w. concat (map (files_under (w_tree w)) paths))) (\<lambda>_. ?P2 dest) (\<lambda>_. ?E) ?E" for dest
    by (rule ensures_gets)
  have ust: "ensures ?P1 utc_stamp (\<lambda>_. ?P1) (\<lambda>_. ?E) ?E" by (rule ensures_utc_stamp) (simp add: base_def)
  show ?thesis unfolding quarantine_paths_def
    by (rule ensures_then [OF ensures_quarantine_link [OF home0] ensures_bind [OF ust ensures_bind [OF g1 ensures_bind [OF g2 whole]]]])
qed

section \<open>The plan\<close>

lemma join_with_append: "a \<noteq> [] \<Longrightarrow> c \<noteq> [] \<Longrightarrow> join_with sep (a @ c) = join_with sep a @ sep @ join_with sep c"
  by (induction sep a rule: join_with.induct) (auto simp: neq_Nil_conv)

lemma less_append: "c \<noteq> [] \<Longrightarrow> a < a @ (c :: 'a :: linorder list)"
  by (induction a) (auto simp: neq_Nil_conv)

lemma path_text_less:
  assumes "strict_prefix a b" "a \<noteq> []"
  shows "path_text a < path_text b"
proof -
  obtain c where "b = a @ c" "c \<noteq> []" using assms(1) by (auto simp: strict_prefix_def prefix_def)
  then show ?thesis using assms(2) by (simp add: path_text_def join_with_append less_append)
qed

lemma include_path_Inr: "include_path root t loc = Inr rel \<Longrightarrow> rel \<noteq> [] \<and> hd rel \<notin> set RESERVED"
  unfolding include_path_def Let_def by (auto simp del: drop_eq_Nil split: if_split_asm)

lemma keep_outer_antichain:
  assumes "[] \<notin> set paths"
  shows "distinct (keep_outer paths)" "set (keep_outer paths) \<subseteq> set paths"
    "a \<in> set (keep_outer paths) \<Longrightarrow> b \<in> set (keep_outer paths) \<Longrightarrow> prefix a b \<Longrightarrow> a = b"
proof -
  let ?f = "\<lambda>unique rel. if list_ex (\<lambda>kept. prefix kept rel) unique then unique else unique @ [rel]"
  let ?A = "\<lambda>u. distinct u \<and> (\<forall>a \<in> set u. \<forall>b \<in> set u. prefix a b \<longrightarrow> a = b)"
  have "?A (foldl ?f [] xs) \<and> set (foldl ?f [] xs) \<subseteq> set xs" if "sorted (map path_text xs)" "[] \<notin> set xs" for xs
    using that
  proof (induction xs rule: rev_induct)
    case (snoc rel xs)
    let ?u = "foldl ?f [] xs"
    have IH: "?A ?u" "set ?u \<subseteq> set xs" using snoc by (auto simp: sorted_append)
    have "\<not> strict_prefix rel a" if "a \<in> set ?u" for a
    proof
      assume "strict_prefix rel a"
      then have "path_text rel < path_text a" using snoc.prems(2) by (intro path_text_less) auto
      moreover have "path_text a \<le> path_text rel" using that IH(2) snoc.prems(1) by (auto simp: sorted_append)
      ultimately show False by simp
    qed
    then show ?case using IH by (auto simp: list_ex_iff strict_prefix_def)
  qed simp
  from this [of "sort_key path_text (remdups paths)"] assms
  show "distinct (keep_outer paths)" "set (keep_outer paths) \<subseteq> set paths"
    "a \<in> set (keep_outer paths) \<Longrightarrow> b \<in> set (keep_outer paths) \<Longrightarrow> prefix a b \<Longrightarrow> a = b"
    by (auto simp: keep_outer_def)
qed

text \<open>No path to move is at or below one of these names at the top of the run: the record \<^verbatim>\<open>PACKAGES.json\<close>, the names that a quarantine
  directory uses for its journal and note, and any name that starts with a dot (the lock, staging directories and partial files have such names).\<close>

definition unreserved :: "path list \<Rightarrow> bool" where
  "unreserved paths \<longleftrightarrow> (\<forall>rel \<in> set paths. plain_path rel \<and> hd rel \<notin> {RECORD, JOURNAL, NOTE, JOURNAL @ ''.partial''} \<and> \<not> startswith (hd rel) ''.'')"

lemma planned_movable:
  assumes "planned_paths root t include = Inr paths" "unreserved paths"
  shows "movable paths"
proof -
  from assms(1) obtain included where inc: "mapM (include_path root t) include = Inr included" and p: "paths = keep_outer (signable_paths t @ included)"
    by (auto simp: planned_paths_def Let_def bindR_Inr_iff)
  have "rel \<noteq> [] \<and> hd rel \<noteq> QUARANTINE" if "rel \<in> set (signable_paths t)" for rel
    using that by (auto simp: signable_paths_def signable_in_def split: if_splits)
  moreover have "rel \<noteq> [] \<and> hd rel \<noteq> QUARANTINE" if "rel \<in> set included" for rel
    using mapM_mem [OF inc that] by (auto simp: RESERVED_def dest!: include_path_Inr)
  ultimately have all: "rel \<noteq> [] \<and> hd rel \<noteq> QUARANTINE" if "rel \<in> set (signable_paths t @ included)" for rel using that by auto
  then have "[] \<notin> set (signable_paths t @ included)" by blast
  note k = keep_outer_antichain [OF this]
  show ?thesis using k all assms(2) unfolding movable_def p [symmetric] unreserved_def by blast
qed

section \<open>A pending record without its journal\<close>

text \<open>The handler around the first two writes removes the quarantine directory when the second raises. When the operator interrupts that write after the
  record is replaced, the record is pending, its journal is gone, and \<open>recover\<close> stops at the missing file.\<close>

definition half_marked :: world where
  "half_marked = (sample_world [Run, Run, Run, Interrupt 1] [([], Dir), ([QUARANTINE], Dir), ([QUARANTINE, ''T''], Dir)])
     \<lparr>w_record := pending_record [QUARANTINE, ''T''] ''T'' [] empty_record\<rparr>"

lemma pending_without_journal:
  "\<exists>w'. mark_pending [QUARANTINE, ''T''] j half_marked = (Exn KeyboardInterrupt, w') \<and>
     record_in (w_tree w') = Inr (bumped ''T'' (pending_record [QUARANTINE, ''T''] ''T'' [] empty_record)) \<and>
     look (w_tree w') [QUARANTINE, ''T'', JOURNAL] = None \<and>
     (\<exists>v. recover (sample_world [] (w_tree w')) = (Exn (Err (FileNotFoundError (path_text [QUARANTINE, ''T'', JOURNAL]))), v))"
  by (simp add: io_eval half_marked_def mark_pending_def write_journal_def partial_path_def QUARANTINE_def JOURNAL_def bumped_def
      recover_def run_root_def run_lock_def lock_plan_def LOCK_def read_record_def pending_record_def run_path_io_def run_path_def prefix_def)

end
