(* ===== verification/Recovery.thy ===== *)
theory Recovery
  imports Quarantine
begin

text \<open>
  What a claims run looks like after \<open>quarantine\<close> and \<open>recover\<close>, whatever fails on the way: every path is at home, or every path is moved, or
  an open journal says what is left to do, and then \<open>recover\<close> does it.
\<close>

section \<open>Taking the lock\<close>

lemma lock_plan_look:
  assumes "lock_plan t = Inr t'" "\<not> islink t [LOCK]"
  shows "q \<noteq> [LOCK] \<Longrightarrow> look t' q = look t q" "\<exists>c. look t' [LOCK] = Some (File c)"
  using assms by (auto simp: lock_plan_def lexists_def isdir_def islink_def split: if_splits option.splits entry.splits)

lemma ensures_run_root: "(\<And>w. P w \<Longrightarrow> E w) \<Longrightarrow> ensures P run_root (\<lambda>_. P) (\<lambda>_. E) K"
  unfolding run_root_def
  by (rule ensures_bind [OF ensures_gets [where Q = "\<lambda>_. P"]]) (auto intro: ensures_return ensures_raise)

lemma ensures_run_lock:
  assumes "lock_plan t = Inr t1" "\<And>w. w_root w = root \<Longrightarrow> w_tree w = t \<or> w_tree w = t1 \<Longrightarrow> E w"
    and body: "\<not> islink t [LOCK] \<Longrightarrow> ensures (\<lambda>w. w_root w = root \<and> w_tree w = t1) m Q (\<lambda>_. E) E"
  shows "ensures (\<lambda>w. w_root w = root \<and> w_tree w = t) (run_lock m) Q (\<lambda>_. E) E"
proof -
  let ?P = "\<lambda>t w. w_root w = root \<and> w_tree w = t"
  have "ensures (?P t) (atomic lock_plan) (\<lambda>_. ?P t1) (\<lambda>e w. ?P t w \<or> e = KeyboardInterrupt \<and> ?P t1 w) (\<lambda>w. ?P t w \<or> ?P t1 w)"
    by (rule ensures_atomic) (auto simp: stable_def assms(1))
  then have lock: "ensures (?P t) (atomic lock_plan) (\<lambda>_. ?P t1) (\<lambda>_. E) E" by (rule ensures_weaken) (use assms(2) in auto)
  have held: "ensures (?P t1) (bindI (gets w_busy) (\<lambda>busy. if busy then raiseI e else m)) Q (\<lambda>_. E) E" if "\<not> islink t [LOCK]" for e
    by (rule ensures_bind [OF ensures_gets [where Q = "\<lambda>_. ?P t1"]]) (use assms(2) body [OF that] in \<open>auto intro: ensures_raise\<close>)
  show ?thesis unfolding run_lock_def
  proof (rule ensures_bind [where R = "\<lambda>l w. l = islink t [LOCK] \<and> ?P t w"])
    show "ensures (?P t) (gets (\<lambda>w. islink (w_tree w) [LOCK])) (\<lambda>l w. l = islink t [LOCK] \<and> ?P t w) (\<lambda>_. E) E" by (rule ensures_gets) simp
    fix l
    show "ensures (\<lambda>w. l = islink t [LOCK] \<and> ?P t w) (if l then raiseI (Err (SystemExit ''is a symlink'')) else
        thenI (atomic lock_plan) (bindI (gets w_busy) (\<lambda>busy. if busy then raiseI (Err (SystemExit ''another refresh or quarantine is running; try again when it is done'')) else m)))
        Q (\<lambda>_. E) E"
    proof (cases "l = islink t [LOCK]")
      case True
      then show ?thesis using assms(2) by (cases l) (auto intro!: ensures_raise ensures_then [OF lock held])
    qed (simp add: ensures_False)
  qed
qed

lemma ensures_read_record:
  assumes "\<And>w. w_root w = root \<Longrightarrow> w_tree w = t \<Longrightarrow> E w"
  shows "ensures (\<lambda>w. w_root w = root \<and> w_tree w = t) read_record (\<lambda>x w. record_in t = Inr x \<and> w_root w = root \<and> w_tree w = t) (\<lambda>_. E) E"
proof -
  let ?P = "\<lambda>w. w_root w = root \<and> w_tree w = t"
  have sy: "ensures ?P sync (\<lambda>_. ?P) (\<lambda>_. E) E"
    by (rule ensures_weaken [OF ensures_keeps [OF reading.keeps_sync, where P = ?P and I = ?P]]) (use assms in \<open>auto simp: reads_def steady_def\<close>)
  have get: "ensures ?P (bindI (gets (\<lambda>w. record_in (w_tree w))) liftI) (\<lambda>x w. record_in t = Inr x \<and> ?P w) (\<lambda>_. E) E"
    by (rule ensures_bind [OF ensures_gets [where Q = "\<lambda>x w. x = record_in t \<and> ?P w"]]) (use assms in \<open>auto intro: ensures_lift\<close>)
  have "ensures ?P (if b then sync else returnI ()) (\<lambda>_. ?P) (\<lambda>_. E) E" for b using sy by (auto intro: ensures_return)
  then show ?thesis unfolding read_record_def
    by - (rule ensures_bind [OF ensures_gets [where Q = "\<lambda>_. ?P"]], assumption, rule ensures_then [OF _ get])
qed

section \<open>All or nothing\<close>

text \<open>What a quarantine of \<open>paths\<close> may leave behind when it does not return.\<close>

definition recoverable :: "path list \<Rightarrow> tree \<Rightarrow> run_record \<Rightarrow> tree \<Rightarrow> bool" where
  "recoverable paths t0 r t \<longleftrightarrow> home paths t0 t \<or> (\<exists>dest. interrupted dest paths t0 r t) \<or> (\<exists>dest. complete dest paths t0 r t)"

lemma ensures_quarantine:
  assumes "well_formed t" "norm_parts [] root = root" "lock_plan t = Inr t1" "record_in t1 = Inr r"
    and plan: "planned_paths root t1 include = Inr paths" "unreserved paths"
  shows "ensures (\<lambda>w. w_root w = root \<and> w_tree w = t) (quarantine reason include dry_run)
    (\<lambda>x w. if paths = [] \<or> dry_run then x = (None, paths) \<and> w_tree w = t1 else \<exists>dest. x = (Some dest, paths) \<and> complete dest paths t1 r (w_tree w))
    (\<lambda>_ w. recoverable paths t1 r (w_tree w)) (\<lambda>w. recoverable paths t1 r (w_tree w))"
  (is "ensures _ _ ?Q (\<lambda>_. ?E) ?E")
proof -
  let ?P = "\<lambda>t w. w_root w = root \<and> w_tree w = t"
  note movable = planned_movable [OF plan]
  have "rel @ s \<noteq> [LOCK]" if "rel \<in> set paths" for rel s
    using movable that by (cases rel) (auto simp: movable_def LOCK_def startswith_def)
  then have "look t (rel @ s) = look t1 (rel @ s)" if "rel \<in> set paths" for rel s
    using assms(3) that by (auto simp: lock_plan_def split: if_splits)
  then have E: "?E w" if "?P t w \<or> ?P t1 w" for w using that by (auto simp: recoverable_def home_def)
  have wf: "well_formed t1" using well_formed_lock [OF assms(1, 3)] .
  have go: "ensures (base t1 r) (if paths = [] \<or> dry_run then returnI (None, paths) else quarantine_paths reason paths) ?Q (\<lambda>_. ?E) ?E"
  proof (rule ensures_if)
    assume "\<not> (paths = [] \<or> dry_run)"
    then show "ensures (base t1 r) (quarantine_paths reason paths) ?Q (\<lambda>_. ?E) ?E"
      by (intro ensures_weaken [OF ensures_quarantine_paths [OF movable wf]]) (auto simp: recoverable_def)
  qed (auto intro: ensures_return simp: base_def)
  have planned: "ensures (\<lambda>w. base t1 r w \<and> w_root w = root) (bindI (gets (\<lambda>w. planned_paths (w_root w) (w_tree w) include)) liftI)
      (\<lambda>x w. x = paths \<and> base t1 r w) (\<lambda>_. ?E) ?E"
    by (rule ensures_bind [OF ensures_gets [where Q = "\<lambda>x w. x = planned_paths root t1 include \<and> base t1 r w"]])
      (auto simp: base_def plan(1) liftI_def ensures_False intro: ensures_return split: sum.split)
  have rest: "ensures (\<lambda>w. base t1 r w \<and> w_root w = root)
      (bindI (bindI (gets (\<lambda>w. planned_paths (w_root w) (w_tree w) include)) liftI)
        (\<lambda>ps. if ps = [] \<or> dry_run then returnI (None, ps) else quarantine_paths reason ps)) ?Q (\<lambda>_. ?E) ?E"
  proof (rule ensures_bind [OF planned])
    fix ps show "ensures (\<lambda>w. ps = paths \<and> base t1 r w) (if ps = [] \<or> dry_run then returnI (None, ps) else quarantine_paths reason ps) ?Q (\<lambda>_. ?E) ?E"
      using go by (cases "ps = paths") (auto simp: ensures_False)
  qed
  have stop: "ensures (\<lambda>w. base t1 r w \<and> w_root w = root) (raiseI e) ?Q (\<lambda>_. ?E) ?E" for e by (rule ensures_raise) (use E in \<open>auto simp: base_def\<close>)
  show ?thesis unfolding quarantine_def
  proof (rule ensures_then [OF ensures_run_root ensures_run_lock [OF assms(3)]])
    show "ensures (?P t1) (bindI read_record (\<lambda>r. thenI (modify (\<lambda>w. w\<lparr>w_record := r\<rparr>))
        (case rr_pending r of
           Some (Quarantining _ _) \<Rightarrow> raiseI (Err (SystemExit ''a quarantine was interrupted; run with --recover first''))
         | _ \<Rightarrow> bindI (bindI (gets (\<lambda>w. planned_paths (w_root w) (w_tree w) include)) liftI) (\<lambda>paths.
             if paths = [] \<or> dry_run then returnI (None, paths) else quarantine_paths reason paths)))) ?Q (\<lambda>_. ?E) ?E"
    proof (rule ensures_bind [OF ensures_read_record])
      fix x
      show "ensures (\<lambda>w. record_in t1 = Inr x \<and> ?P t1 w) (thenI (modify (\<lambda>w. w\<lparr>w_record := x\<rparr>))
        (case rr_pending x of
           Some (Quarantining _ _) \<Rightarrow> raiseI (Err (SystemExit ''a quarantine was interrupted; run with --recover first''))
         | _ \<Rightarrow> bindI (bindI (gets (\<lambda>w. planned_paths (w_root w) (w_tree w) include)) liftI) (\<lambda>paths.
             if paths = [] \<or> dry_run then returnI (None, paths) else quarantine_paths reason paths))) ?Q (\<lambda>_. ?E) ?E"
      proof (rule ensures_then [OF ensures_modify [where Q = "\<lambda>_ w. base t1 r w \<and> w_root w = root"]])
        show "ensures (\<lambda>w. base t1 r w \<and> w_root w = root) (case rr_pending x of
             Some (Quarantining _ _) \<Rightarrow> raiseI (Err (SystemExit ''a quarantine was interrupted; run with --recover first''))
           | _ \<Rightarrow> bindI (bindI (gets (\<lambda>w. planned_paths (w_root w) (w_tree w) include)) liftI) (\<lambda>paths.
               if paths = [] \<or> dry_run then returnI (None, paths) else quarantine_paths reason paths)) ?Q (\<lambda>_. ?E) ?E"
          by (simp only: rest stop split: option.split pending.split) blast
      qed (auto simp: base_def assms(2, 4))
    qed (use E in auto)
  qed (use E in auto)
qed

section \<open>Recovering under faults\<close>

lemma ensures_run_path:
  assumes "\<And>w. P w \<Longrightarrow> E w"
  shows "ensures P (run_path_io loc) (\<lambda>x w. run_path (w_root w) (w_tree w) loc = Inr x \<and> P w) (\<lambda>_. E) E"
  unfolding run_path_io_def
proof (rule ensures_bind [OF ensures_gets [where Q = "\<lambda>x w. x = run_path (w_root w) (w_tree w) loc \<and> P w"]])
  fix x
  show "ensures (\<lambda>w. x = run_path (w_root w) (w_tree w) loc \<and> P w) (liftI x) (\<lambda>y w. run_path (w_root w) (w_tree w) loc = Inr y \<and> P w) (\<lambda>_. E) E"
    by (rule ensures_lift) (use assms in auto)
qed simp

lemma ensures_read_file:
  assumes "\<And>w. P w \<Longrightarrow> read_entry (w_tree w) p = Inr c" "\<And>w w'. P w \<Longrightarrow> reads w w' \<Longrightarrow> P w'" "\<And>w. P w \<Longrightarrow> E w"
  shows "ensures P (read_file p) (\<lambda>x w. x = c \<and> P w) (\<lambda>_. E) E"
  unfolding read_file_def
proof (rule ensures_then)
  show "ensures P sync (\<lambda>_. P) (\<lambda>_. E) E"
    by (rule ensures_weaken [OF ensures_keeps [OF reading.keeps_sync, where P = P and I = P]]) (use assms in auto)
  show "ensures P (bindI (gets (\<lambda>w. read_entry (w_tree w) p)) (\<lambda>r. case r of Inl e \<Rightarrow> raiseI e | Inr c \<Rightarrow> returnI c)) (\<lambda>x w. x = c \<and> P w) (\<lambda>_. E) E"
    by (rule ensures_bind [OF ensures_gets [where Q = "\<lambda>x w. x = Inr c \<and> P w"]])
      (use assms(1) in \<open>auto simp: ensures_False intro: ensures_return split: sum.split\<close>)
qed

lemma moving_reads: "moving dest paths t0 rec rm M w \<Longrightarrow> reads w w' \<Longrightarrow> moving dest paths t0 rec rm M w'"
  by (simp add: moving_def reads_def same_memory_def)

lemma moving_at:
  assumes "moving dest paths t0 rec rm M w" "rel \<in> set paths"
  shows "lexists (w_tree w) (dest @ rel) \<Longrightarrow> rel \<in> M" "lexists (w_tree w) rel \<Longrightarrow> rel \<notin> M"
    "lexists t0 rel \<Longrightarrow> rel \<in> M \<longleftrightarrow> lexists (w_tree w) (dest @ rel)" "lexists t0 rel \<Longrightarrow> rel \<notin> M \<longleftrightarrow> lexists (w_tree w) rel"
proof -
  have p: "if rel \<in> M then moved_to dest t0 (w_tree w) rel else at_home dest t0 (w_tree w) rel" using assms by (simp add: moving_def placed_def)
  have "look (w_tree w) rel = (if rel \<in> M then None else look t0 rel)" "look (w_tree w) (dest @ rel) = (if rel \<in> M then look t0 rel else None)"
    using p by (auto simp: moved_to_def at_home_def dest: spec [of _ "[]"] split: if_splits)
  then show "lexists (w_tree w) (dest @ rel) \<Longrightarrow> rel \<in> M" "lexists (w_tree w) rel \<Longrightarrow> rel \<notin> M"
    "lexists t0 rel \<Longrightarrow> rel \<in> M \<longleftrightarrow> lexists (w_tree w) (dest @ rel)" "lexists t0 rel \<Longrightarrow> rel \<notin> M \<longleftrightarrow> lexists (w_tree w) rel"
    by (auto simp: lexists_def split: if_splits)
qed

lemma ensures_recover_move:
  assumes "movable paths" "rel \<in> set paths" "dest = [QUARANTINE, name]"
  shows "ensures (moving dest paths t0 rec rm M) (recover_move dest rel)
    (\<lambda>b w. \<exists>M'. M \<subseteq> M' \<and> moving dest paths t0 rec rm M' w \<and> (b \<longrightarrow> rel \<in> M'))
    (\<lambda>_ w. undecided dest paths t0 rec (w_tree w)) (\<lambda>w. undecided dest paths t0 rec (w_tree w))"
  (is "ensures ?P _ ?Q (\<lambda>_. ?E) ?E")
proof -
  let ?S = "\<lambda>seen w. ?P w \<and> w_moved w = seen"
  have E: "?E w" if "?P w" for w using that by (rule moving_undecided)
  have rp: "ensures ?P (run_path_io (Relative rel)) (\<lambda>_. ?P) (\<lambda>_. ?E) ?E" by (rule ensures_weaken [OF ensures_run_path [where P = ?P]]) (auto intro: E)
  have mk: "ensures (?S seen) (makedirs True (butlast (dest @ rel))) (\<lambda>_. ?S seen) (\<lambda>_. ?E) ?E" for seen
    by (rule ensures_weaken [OF ensures_dest_dirs [OF assms, where seen = seen]]) (auto intro: E)
  have move: "ensures (?S seen) (thenI (makedirs True (butlast (dest @ rel))) (thenI (replace rel (dest @ rel)) (returnI True))) ?Q (\<lambda>_. ?E) ?E"
    if "rel \<notin> M" for seen
  proof (rule ensures_then [OF mk ensures_then])
    show "ensures (?S seen) (replace rel (dest @ rel)) (\<lambda>_. moving dest paths t0 rec rm (insert rel M)) (\<lambda>_. ?E) ?E"
      by (rule ensures_weaken [OF ensures_replace_out [OF assms that, where seen = seen]]) auto
  qed (auto intro!: ensures_return)
  have "ensures (\<lambda>w. \<exists>seen. ?S seen w) (thenI (makedirs True (butlast (dest @ rel))) (thenI (replace rel (dest @ rel)) (returnI True))) ?Q (\<lambda>_. ?E) ?E"
    if "rel \<notin> M" by (rule ensures_pre_ex, rule move [OF that])
  then have out: "ensures ?P (thenI (run_path_io (Relative rel)) (thenI (makedirs True (butlast (dest @ rel))) (thenI (replace rel (dest @ rel)) (returnI True)))) ?Q (\<lambda>_. ?E) ?E"
    if "rel \<notin> M" using that by (intro ensures_then [OF rp]) simp
  show ?thesis unfolding recover_move_def
  proof (rule ensures_bind [where R = "\<lambda>t w. ?P w \<and> t = w_tree w"])
    fix t
    show "ensures (\<lambda>w. ?P w \<and> t = w_tree w)
      (if lexists t (dest @ rel) \<and> \<not> lexists t rel then returnI True
       else if lexists t rel \<and> \<not> lexists t (dest @ rel) then
         thenI (run_path_io (Relative rel)) (thenI (makedirs True (butlast (dest @ rel))) (thenI (replace rel (dest @ rel)) (returnI True)))
       else returnI False) ?Q (\<lambda>_. ?E) ?E"
    proof (intro ensures_if)
      assume "lexists t (dest @ rel) \<and> \<not> lexists t rel"
      then show "ensures (\<lambda>w. ?P w \<and> t = w_tree w) (returnI True) ?Q (\<lambda>_. ?E) ?E"
        by (intro ensures_return) (auto dest: moving_at(1) [OF _ assms(2)])
    next
      assume t: "lexists t rel \<and> \<not> lexists t (dest @ rel)"
      show "ensures (\<lambda>w. ?P w \<and> t = w_tree w)
          (thenI (run_path_io (Relative rel)) (thenI (makedirs True (butlast (dest @ rel))) (thenI (replace rel (dest @ rel)) (returnI True)))) ?Q (\<lambda>_. ?E) ?E"
      proof (cases "rel \<in> M")
        case True
        then have "\<not> (?P w \<and> t = w_tree w)" for w using t moving_at(2) [OF _ assms(2)] by blast
        then show ?thesis unfolding ensures_def by blast
      next
        case False
        then show ?thesis by (rule ensures_weaken [OF out]) auto
      qed
    qed (auto intro!: ensures_return)
  qed (rule ensures_gets, simp)
qed

lemma moving_all:
  assumes "moving dest paths t0 rec rm M w" "set paths \<subseteq> M"
  shows "moving dest paths t0 rec rm (set paths) w"
  using assms by (auto simp: moving_def placed_def)

lemma unlist_again: "unlist paths (bumped stamp (pending_record dest started paths r)) = bumped stamp (pending_record dest started paths r)"
  by (simp add: unlist_def bumped_def pending_record_def)

lemma ensures_recover_from:
  assumes "movable paths" "dest = [QUARANTINE, name]" "jn_moves j = paths" "unlist paths rm = rm"
  shows "ensures (moving dest paths t0 rec rm M) (recover_from dest (dest @ [JOURNAL]) j)
    (\<lambda>x w. x = (dest, paths) \<and> finished dest paths t0 rm (w_tree w))
    (\<lambda>_ w. undecided dest paths t0 rec (w_tree w) \<or> finished dest paths t0 rm (w_tree w)) (\<lambda>w. undecided dest paths t0 rec (w_tree w) \<or> finished dest paths t0 rm (w_tree w))"
  (is "ensures _ _ ?Q (\<lambda>_. ?E) ?E")
proof -
  let ?I = "\<lambda>seen found w. \<exists>M. moving dest paths t0 rec rm M w \<and> (list_all id found \<longrightarrow> set seen \<subseteq> M)"
  have E: "?E w" if "?I seen found w" for w seen found using that moving_undecided by blast
  have step: "ensures (?I seen found) (recover_move dest rel) (\<lambda>b. ?I (seen @ [rel]) (found @ [b])) (\<lambda>_. ?E) ?E"
    if "paths = seen @ rel # rest" for seen rel rest found
  proof (rule ensures_pre_ex)
    fix M
    have rel: "rel \<in> set paths" using that by simp
    show "ensures (\<lambda>w. moving dest paths t0 rec rm M w \<and> (list_all id found \<longrightarrow> set seen \<subseteq> M)) (recover_move dest rel)
        (\<lambda>b. ?I (seen @ [rel]) (found @ [b])) (\<lambda>_. ?E) ?E"
    proof (cases "list_all id found \<longrightarrow> set seen \<subseteq> M")
      case True
      show ?thesis by (rule ensures_weaken [OF ensures_recover_move [OF assms(1) rel assms(2)]]) (use True in \<open>auto; blast\<close>)+
    next
      case False
      then show ?thesis unfolding ensures_def by blast
    qed
  qed
  have loop: "ensures (?I [] []) (mapI (recover_move dest) paths) (\<lambda>found. ?I paths found) (\<lambda>_. ?E) ?E"
    by (rule ensures_map [where I = ?I, OF step])
  have ul: "ensures (moving dest paths t0 rec rm (set paths)) (modify (\<lambda>w. w\<lparr>w_record := unlist (jn_moves j) (w_record w)\<rparr>))
      (\<lambda>_. moving dest paths t0 rec rm (set paths)) (\<lambda>_. ?E) ?E" by (rule ensures_modify) (simp add: moving_def assms(3, 4))
  have fin: "ensures (moving dest paths t0 rec rm (set paths)) (finish dest (dest @ [JOURNAL]) j) (\<lambda>_ w. finished dest paths t0 rm (w_tree w)) (\<lambda>_. ?E) ?E"
    by (rule ensures_finish [OF assms(1-3)])
  have rest: "ensures (moving dest paths t0 rec rm (set paths)) (thenI (modify (\<lambda>w. w\<lparr>w_record := unlist (jn_moves j) (w_record w)\<rparr>))
      (thenI (finish dest (dest @ [JOURNAL]) j) (returnI (dest, jn_moves j)))) ?Q (\<lambda>_. ?E) ?E"
    by (rule ensures_then [OF ul ensures_then [OF fin ensures_return]]) (simp add: assms(3))
  have "ensures (?I [] []) (recover_from dest (dest @ [JOURNAL]) j) ?Q (\<lambda>_. ?E) ?E"
    unfolding recover_from_def assms(3)
  proof (rule ensures_bind [OF loop], rule ensures_if)
    fix found assume "\<not> \<not> list_all id found"
    then have "moving dest paths t0 rec rm (set paths) w" if "?I paths found w" for w using that moving_all by blast
    then show "ensures (?I paths found) (thenI (modify (\<lambda>w. w\<lparr>w_record := unlist paths (w_record w)\<rparr>))
        (thenI (finish dest (dest @ [JOURNAL]) j) (returnI (dest, paths)))) ?Q (\<lambda>_. ?E) ?E"
      by (rule ensures_weaken [OF rest [unfolded assms(3)]])
  qed (rule ensures_raise, use E in blast)
  then show ?thesis by (rule ensures_weaken) auto
qed

lemma lock_not_record: "[LOCK] \<notin> record_paths" "\<not> prefix [QUARANTINE] [LOCK]"
  by (simp_all add: record_paths_def partial_record_def LOCK_def RECORD_def QUARANTINE_def)

lemma undecided_lock:
  assumes "movable paths" "undecided dest paths t0 rec t" "look t0 [LOCK] = Some (File c)"
  shows "look t [LOCK] = Some (File c)"
proof -
  have "\<not> prefix rel [LOCK]" if "rel \<in> set paths" for rel
    using assms(1) that by (cases rel) (auto simp: movable_def LOCK_def startswith_def)
  then show ?thesis using assms(2, 3) lock_not_record by (simp add: undecided_def ready_def around_def)
qed

text \<open>From the record that marks the quarantine pending, recovery finds the journal.\<close>

lemma ensures_recover_pending:
  assumes "movable paths" "norm_parts [] root = root" "plain_path dest" "dest = [QUARANTINE, name]" "unlist paths rm = rm"
    and u: "undecided dest paths t0 rec t"
  shows "ensures (\<lambda>w. w_root w = root \<and> w_tree w = t \<and> w_record w = rm)
    (bindI (run_path_io (Relative (dest @ [JOURNAL]))) (\<lambda>journal_path. bindI (read_file journal_path) (\<lambda>c.
       case c of Journal j \<Rightarrow> recover_from (butlast journal_path) journal_path j | _ \<Rightarrow> raiseI (Err (ValueError ''not a quarantine journal'')))))
    (\<lambda>x w. x = (dest, paths) \<and> finished dest paths t0 rm (w_tree w))
    (\<lambda>_ w. undecided dest paths t0 rec (w_tree w) \<or> finished dest paths t0 rm (w_tree w)) (\<lambda>w. undecided dest paths t0 rec (w_tree w) \<or> finished dest paths t0 rm (w_tree w))"
  (is "ensures ?W _ ?Q (\<lambda>_. ?E) ?E")
proof -
  let ?jp = "dest @ [JOURNAL]"
  obtain M j where M: "placed dest paths t0 M t" "ready dest paths t0 t" and j: "look t ?jp = Some (File (Journal j))" "jn_moves j = paths"
    using u by (auto simp: undecided_def ready_def)
  have E: "?E w" if "?W w" for w using that u by simp
  have go: "ensures ?W (recover_from dest ?jp j) ?Q (\<lambda>_. ?E) ?E"
    by (rule ensures_weaken [OF ensures_recover_from [OF assms(1, 4) j(2) assms(5), where M = M]]) (use M u in \<open>auto simp: moving_def undecided_def\<close>)
  have "plain_path ?jp" using assms(3) by (simp add: plain_path_def JOURNAL_def)
  then have jp: "run_path root t (Relative ?jp) = Inr x \<Longrightarrow> x = ?jp" for x by (simp add: run_path_plain [OF assms(2)] split: if_splits)
  have path: "ensures ?W (run_path_io (Relative ?jp)) (\<lambda>x w. x = ?jp \<and> ?W w) (\<lambda>_. ?E) ?E"
    by (rule ensures_weaken [OF ensures_run_path [where P = ?W and E = ?E, OF E]]) (use jp in auto)
  have read: "ensures ?W (read_file ?jp) (\<lambda>x w. x = Journal j \<and> ?W w) (\<lambda>_. ?E) ?E"
    by (rule ensures_read_file) (use E in \<open>auto simp: read_entry_def j reads_def steady_def same_memory_def\<close>)
  show ?thesis
  proof (rule ensures_bind [OF path])
    fix jp
    show "ensures (\<lambda>w. jp = ?jp \<and> ?W w) (bindI (read_file jp) (\<lambda>c. case c of Journal j \<Rightarrow> recover_from (butlast jp) jp j
        | _ \<Rightarrow> raiseI (Err (ValueError ''not a quarantine journal'')))) ?Q (\<lambda>_. ?E) ?E"
    proof (cases "jp = ?jp")
      case True
      have "ensures (\<lambda>w. c = Journal j \<and> ?W w) (case c of Journal j \<Rightarrow> recover_from dest ?jp j
          | _ \<Rightarrow> raiseI (Err (ValueError ''not a quarantine journal''))) ?Q (\<lambda>_. ?E) ?E" for c
        using go by (cases "c = Journal j") (simp_all add: ensures_False)
      from ensures_bind [OF read this] show ?thesis unfolding True butlast_snoc by simp
    qed (simp add: ensures_False)
  qed
qed

lemma ensures_recover_tree:
  assumes "movable paths" "look t0 [LOCK] = Some (File c)" "norm_parts [] root = root" "plain_path dest" "dest = [QUARANTINE, name]"
    and rm: "rm = bumped stamp (pending_record dest started paths r)" and u: "undecided dest paths t0 (Some (File (Record rm))) t"
  shows "ensures (\<lambda>w. w_root w = root \<and> w_tree w = t) recover (\<lambda>x w. x = (dest, paths) \<and> finished dest paths t0 rm (w_tree w))
    (\<lambda>_ w. undecided dest paths t0 (Some (File (Record rm))) (w_tree w) \<or> finished dest paths t0 rm (w_tree w))
    (\<lambda>w. undecided dest paths t0 (Some (File (Record rm))) (w_tree w) \<or> finished dest paths t0 rm (w_tree w))"
  (is "ensures ?P _ ?Q (\<lambda>_. ?E) ?E")
proof -
  have E: "?E w" if "?P w" for w using that u by simp
  have lock: "lock_plan t = Inr t" using undecided_lock [OF assms(1) u assms(2)] by (simp add: lock_plan_def lexists_def isdir_def)
  have rec: "record_in t = Inr rm" using u by (simp add: record_in_def undecided_def)
  have pend: "rr_pending rm = Some (Quarantining (dest @ [JOURNAL]) started)" by (simp add: rm bumped_def pending_record_def)
  have "unlist paths rm = rm" by (simp add: rm unlist_again)
  note body = ensures_recover_pending [OF assms(1, 3, 4, 5) this u]
  show ?thesis unfolding recover_def
  proof (rule ensures_then [OF ensures_run_root ensures_run_lock [OF lock]])
    show "ensures ?P (bindI read_record (\<lambda>r. thenI (modify (\<lambda>w. w\<lparr>w_record := r\<rparr>))
        (case rr_pending r of
           Some (Quarantining jp _) \<Rightarrow> bindI (run_path_io (Relative jp)) (\<lambda>journal_path. bindI (read_file journal_path) (\<lambda>c.
             case c of Journal j \<Rightarrow> recover_from (butlast journal_path) journal_path j
             | _ \<Rightarrow> raiseI (Err (ValueError ''not a quarantine journal''))))
         | _ \<Rightarrow> raiseI (Err (SystemExit ''no interrupted quarantine''))))) ?Q (\<lambda>_. ?E) ?E"
    proof (rule ensures_bind [OF ensures_read_record])
      fix x
      show "ensures (\<lambda>w. record_in t = Inr x \<and> ?P w) (thenI (modify (\<lambda>w. w\<lparr>w_record := x\<rparr>))
        (case rr_pending x of
           Some (Quarantining jp _) \<Rightarrow> bindI (run_path_io (Relative jp)) (\<lambda>journal_path. bindI (read_file journal_path) (\<lambda>c.
             case c of Journal j \<Rightarrow> recover_from (butlast journal_path) journal_path j
             | _ \<Rightarrow> raiseI (Err (ValueError ''not a quarantine journal''))))
         | _ \<Rightarrow> raiseI (Err (SystemExit ''no interrupted quarantine'')))) ?Q (\<lambda>_. ?E) ?E"
      proof (cases "x = rm")
        case True
        show ?thesis unfolding True pend option.case pending.case
          by (rule ensures_then [OF ensures_modify [where Q = "\<lambda>_ w. w_root w = root \<and> w_tree w = t \<and> w_record w = rm"] body]) simp
      qed (simp add: rec ensures_False)
    qed (use E in auto)
  qed (use E in auto)
qed

text \<open>A recovery that fails or is cut short leaves the quarantine open or complete, and one that returns has completed it.\<close>

lemma ensures_recover:
  assumes "movable paths" "look t0 [LOCK] = Some (File c)" "norm_parts [] root = root" "plain_path dest"
  shows "ensures (\<lambda>w. w_root w = root \<and> interrupted dest paths t0 r (w_tree w)) recover
    (\<lambda>x w. x = (dest, paths) \<and> complete dest paths t0 r (w_tree w))
    (\<lambda>_ w. interrupted dest paths t0 r (w_tree w) \<or> complete dest paths t0 r (w_tree w)) (\<lambda>w. interrupted dest paths t0 r (w_tree w) \<or> complete dest paths t0 r (w_tree w))"
  (is "ensures _ _ ?Q (\<lambda>_. ?E) ?E")
proof (rule ensuresI)
  fix w :: world assume w: "w_root w = root \<and> interrupted dest paths t0 r (w_tree w)"
  then obtain name started stamp where d: "dest = [QUARANTINE, name]"
    and u: "undecided dest paths t0 (Some (File (Record (bumped stamp (pending_record dest started paths r))))) (w_tree w)" by (auto simp: interrupted_def)
  let ?rm = "bumped stamp (pending_record dest started paths r)"
  have i: "undecided dest paths t0 (Some (File (Record ?rm))) t \<Longrightarrow> interrupted dest paths t0 r t" for t using d unfolding interrupted_def by blast
  have c: "finished dest paths t0 ?rm t \<Longrightarrow> complete dest paths t0 r t" for t using d unfolding complete_def by blast
  have "ensures (\<lambda>v. w_root v = root \<and> w_tree v = w_tree w) recover ?Q (\<lambda>_. ?E) ?E"
  proof (rule ensures_weaken [OF ensures_recover_tree [OF assms d HOL.refl u]])
    fix v :: world assume "undecided dest paths t0 (Some (File (Record ?rm))) (w_tree v) \<or> finished dest paths t0 ?rm (w_tree v)"
    then show "?E v" "?E v" using i c by auto
  qed (simp_all add: c)
  then show "case recover w of (Val x, w') \<Rightarrow> ?Q x w' | (Exn e, w') \<Rightarrow> ?E w' | (Killed, w') \<Rightarrow> ?E w'"
    using w by (simp add: ensures_def)
qed

end
