(* ===== verification/Progress.thy ===== *)
theory Progress
  imports Recovery
begin

text \<open>
  Runs without faults: a triple \<open>runs P m Q\<close> says that \<open>m\<close>, started in \<open>P\<close> with no fault to come, returns. From an open journal,
  \<open>recover\<close> returns and the quarantine is complete.
\<close>

definition runs :: "(world \<Rightarrow> bool) \<Rightarrow> 'a io \<Rightarrow> ('a \<Rightarrow> world \<Rightarrow> bool) \<Rightarrow> bool" where
  "runs P m Q \<longleftrightarrow> (\<forall>w. P w \<and> w_faults w = [] \<longrightarrow> (\<exists>x w'. m w = (Val x, w') \<and> w_faults w' = [] \<and> Q x w'))"

lemma runsD: "runs P m Q \<Longrightarrow> P w \<Longrightarrow> w_faults w = [] \<Longrightarrow> \<exists>x w'. m w = (Val x, w') \<and> w_faults w' = [] \<and> Q x w'"
  by (simp add: runs_def)

lemma runs_weaken: "runs P m Q \<Longrightarrow> (\<And>w. P' w \<Longrightarrow> P w) \<Longrightarrow> (\<And>x w. Q x w \<Longrightarrow> Q' x w) \<Longrightarrow> runs P' m Q'"
  unfolding runs_def by blast

lemma runs_ensures: "runs P m Q \<Longrightarrow> ensures P m Q' E K \<Longrightarrow> runs P m (\<lambda>x w. Q x w \<and> Q' x w)"
  unfolding runs_def by (auto dest: ensuresD(1)) (metis ensuresD(1))

lemma runs_return: "(\<And>w. P w \<Longrightarrow> Q x w) \<Longrightarrow> runs P (returnI x) Q"
  by (simp add: runs_def returnI_def)

lemma runs_gets: "(\<And>w. P w \<Longrightarrow> Q (f w) w) \<Longrightarrow> runs P (gets f) Q"
  by (simp add: runs_def gets_def)

lemma runs_modify: "(\<And>w. P w \<Longrightarrow> w_faults (f w) = w_faults w \<and> Q () (f w)) \<Longrightarrow> runs P (modify f) Q"
  by (simp add: runs_def modify_def)

lemma runs_bind:
  assumes "runs P m R" "\<And>x. runs (R x) (f x) Q"
  shows "runs P (bindI m f) Q"
  unfolding runs_def
proof (intro allI impI)
  fix w assume "P w \<and> w_faults w = []"
  then obtain x w' where m: "m w = (Val x, w')" "w_faults w' = []" "R x w'" using runsD [OF assms(1)] by blast
  from runsD [OF assms(2) m(3, 2)] show "\<exists>y v. bindI m f w = (Val y, v) \<and> w_faults v = [] \<and> Q y v" by (simp add: bindI_def m(1))
qed

lemma runs_then: "runs P m (\<lambda>_. R) \<Longrightarrow> runs R n Q \<Longrightarrow> runs P (thenI m n) Q"
  unfolding thenI_def by (rule runs_bind)

lemma runs_finally:
  assumes "runs P m R" "\<And>x. runs (R x) f (\<lambda>_. Q x)"
  shows "runs P (finallyI m f) Q"
  unfolding runs_def
proof (intro allI impI)
  fix w assume "P w \<and> w_faults w = []"
  then obtain x w' where m: "m w = (Val x, w')" "w_faults w' = []" "R x w'" using runsD [OF assms(1)] by blast
  have "runs (R x) (bindI f (\<lambda>_. returnI x)) Q" by (rule runs_bind [OF assms(2) runs_return])
  from runsD [OF this m(3, 2)] show "\<exists>y v. finallyI m f w = (Val y, v) \<and> w_faults v = [] \<and> Q y v" by (simp add: finallyI_def m(1))
qed

lemma runs_pre: "(\<And>w. P w \<Longrightarrow> runs (\<lambda>v. v = w) m Q) \<Longrightarrow> runs P m Q"
  unfolding runs_def by blast

lemma runs_False: "(\<And>w. \<not> P w) \<Longrightarrow> runs P m Q"
  by (simp add: runs_def)

lemma runs_for:
  assumes "\<And>seen x rest. xs = seen @ x # rest \<Longrightarrow> runs (I seen) (f x) (\<lambda>_. I (seen @ [x]))"
  shows "runs (I []) (forI f xs) (\<lambda>_. I xs)"
proof -
  have "runs (I seen) (forI f rest) (\<lambda>_. I xs)" if "xs = seen @ rest" for seen rest
    using that
  proof (induction rest arbitrary: seen)
    case Nil
    then show ?case by (auto intro: runs_return)
  next
    case (Cons x rest)
    show ?case unfolding forI.simps by (rule runs_then [OF assms [OF Cons.prems] Cons.IH]) (simp add: Cons.prems)
  qed
  from this [of "[]" xs] show ?thesis by simp
qed

lemma runs_map:
  assumes "\<And>seen x rest ys. xs = seen @ x # rest \<Longrightarrow> runs (I seen ys) (f x) (\<lambda>y. I (seen @ [x]) (ys @ [y]))"
  shows "runs (I [] []) (mapI f xs) (\<lambda>ys. I xs ys)"
proof -
  have "runs (I seen ys) (mapI f rest) (\<lambda>zs. I xs (ys @ zs))" if "xs = seen @ rest" for seen rest ys
    using that
  proof (induction rest arbitrary: seen ys)
    case Nil
    then show ?case by (auto intro: runs_return)
  next
    case (Cons x rest)
    have "runs (I (seen @ [x]) (ys @ [y])) (bindI (mapI f rest) (\<lambda>zs. returnI (y # zs))) (\<lambda>zs. I xs (ys @ zs))" for y
      by (rule runs_bind [OF Cons.IH [of "seen @ [x]" "ys @ [y]"]]) (simp_all add: Cons.prems runs_return)
    then show ?case unfolding mapI.simps by (rule runs_bind [OF assms [OF Cons.prems]])
  qed
  from this [of "[]" xs "[]"] show ?thesis by simp
qed

section \<open>System calls without faults\<close>

lemma no_faults: "w_faults w = [] \<Longrightarrow> (w :: world)\<lparr>w_faults := []\<rparr> = w"
  by (cases w) simp

lemma call_quiet:
  assumes "w_faults w = []"
  shows "call pieces plan part w = (case plan (w_tree w) of Inl e \<Rightarrow> (Exn e, w) | Inr t' \<Rightarrow> (Val (), w\<lparr>w_tree := t'\<rparr>))"
  by (simp add: call_def Let_def assms no_faults split: sum.split)

lemma runs_call: "(\<And>w. P w \<Longrightarrow> \<exists>t'. plan (w_tree w) = Inr t' \<and> Q () (w\<lparr>w_tree := t'\<rparr>)) \<Longrightarrow> runs P (call pieces plan part) Q"
  unfolding runs_def by (fastforce simp: call_quiet)

lemma runs_replace:
  assumes "\<And>w. P w \<Longrightarrow> \<exists>t'. replace_plan src dst (w_tree w) = Inr t' \<and> Q () (w\<lparr>w_tree := t'\<rparr>)"
  shows "runs P (replace src dst) Q"
  unfolding replace_def atomic_def by (rule runs_call) (rule assms)

lemma runs_write:
  assumes "\<And>w. P w \<Longrightarrow> \<exists>t'. write_plan x p c (w_tree w) = Inr t' \<and> Q () (w\<lparr>w_tree := t'\<rparr>)"
  shows "runs P (write_file x p c) Q"
  unfolding write_file_def by (rule runs_call) (rule assms)

lemma runs_write_plain:
  assumes "p \<noteq> []" "\<And>w. P w \<Longrightarrow> plain_file (w_tree w) p \<and> isdir (w_tree w) (butlast p) \<and> Q () (w\<lparr>w_tree := put p (File c) (w_tree w)\<rparr>)"
  shows "runs P (write_file False p c) Q"
proof (rule runs_write)
  fix w assume "P w"
  note w = assms(2) [OF this]
  then have "write_plan False p c (w_tree w) = Inr (put p (File c) (w_tree w))"
    using assms(1) plain_file_write [of "w_tree w" p c] by (auto simp: write_plan_def isdir_def plain_file_simps)
  then show "\<exists>t'. write_plan False p c (w_tree w) = Inr t' \<and> Q () (w\<lparr>w_tree := t'\<rparr>)" using w by blast
qed

lemma tree_again: "w\<lparr>w_tree := w_tree w\<rparr> = (w :: world)"
  by (cases w) simp

lemma runs_sync: "runs P sync (\<lambda>_. P)"
  unfolding sync_def atomic_def by (rule runs_call) (simp add: tree_again)

lemma runs_read_file: "(\<And>w. P w \<Longrightarrow> read_entry (w_tree w) p = Inr c) \<Longrightarrow> runs P (read_file p) (\<lambda>x w. x = c \<and> P w)"
  unfolding read_file_def
  by (rule runs_then [OF runs_sync], rule runs_bind [OF runs_gets [where Q = "\<lambda>x w. x = Inr c \<and> P w"]])
    (auto intro: runs_return runs_False split: sum.split)

lemma runs_run_path: "(\<And>w. P w \<Longrightarrow> run_path (w_root w) (w_tree w) loc = Inr p) \<Longrightarrow> runs P (run_path_io loc) (\<lambda>x w. x = p \<and> P w)"
  unfolding run_path_io_def
  by (rule runs_bind [OF runs_gets [where Q = "\<lambda>x w. x = Inr p \<and> P w"]]) (auto simp: liftI_def intro: runs_return runs_False split: sum.split)

lemma mkdir_quiet:
  assumes "w_faults w = []"
  shows "mkdir p w = (case mkdir_plan p (w_tree w) of Inl e \<Rightarrow> (Exn e, w) | Inr t' \<Rightarrow> (Val (), w\<lparr>w_tree := t'\<rparr>))"
  by (simp add: mkdir_def atomic_def call_quiet [OF assms])

lemma mkdir_known:
  assumes "w_faults w = []" "look (w_tree w) p \<in> {None, Some Dir}" "p \<noteq> []" "isdir (w_tree w) (butlast p)"
  shows "mkdir p w = (if look (w_tree w) p = None then (Val (), w\<lparr>w_tree := put p Dir (w_tree w)\<rparr>) else (Exn (Err (FileExistsError (path_text p))), w))"
  using assms by (auto simp: mkdir_quiet mkdir_plan_def lexists_def)

text \<open>Creating a directory whose ancestors are directories or free.\<close>

lemma runs_makedirs:
  assumes "p \<noteq> []" "isdir t []" "\<And>k. 0 < k \<Longrightarrow> k \<le> length p \<Longrightarrow> look t (take k p) \<in> {None, Some Dir}" "exist_ok \<or> look t p = None"
  shows "runs (\<lambda>w. w = v\<lparr>w_tree := t\<rparr>) (makedirs exist_ok p)
    (\<lambda>_ w. \<exists>t'. w = v\<lparr>w_tree := t'\<rparr> \<and> dirs_added {q. prefix q p \<and> q \<noteq> []} t t' \<and> look t' p = Some Dir)"
proof -
  let ?S = "{q. prefix q p \<and> q \<noteq> []}"
  let ?I = "\<lambda>seen w. \<exists>t'. w = v\<lparr>w_tree := t'\<rparr> \<and> dirs_added ?S t t' \<and> look t' p = look t p \<and> (\<forall>k \<in> set seen. look t' (take k p) = Some Dir)"
  have known: "look t' (take k p) \<in> {None, Some Dir}" if "dirs_added ?S t t'" "0 < k" "k \<le> length p" for t' k
    using that(1) assms(3) [OF that(2, 3)] unfolding dirs_added_def by (metis insertCI)
  have root: "isdir t' []" if "dirs_added ?S t t'" for t'
    using that assms(2) by (auto simp: dirs_added_def isdir_def dest: spec [of _ "[]"])
  have new: "dirs_added ?S t (put (take k p) Dir t')" if "dirs_added ?S t t'" "look t' (take k p) = None" "0 < k" for t' k
  proof (rule dirs_added_trans [OF that(1)])
    show "dirs_added ?S t' (put (take k p) Dir t')" using that(2, 3) assms(1) by (auto simp: dirs_added_def take_is_prefix)
  qed
  have step: "runs (?I seen) (bindI (gets (\<lambda>w. exists (w_tree w) (take k p))) (\<lambda>found.
         if found then returnI ()
         else tryI (mkdir (take k p)) (\<lambda>e. case e of Err (FileExistsError _) \<Rightarrow> returnI () | _ \<Rightarrow> raiseI e))) (\<lambda>_. ?I (seen @ [k]))"
    if parts: "[1..<length p] = seen @ k # rest" for seen k rest
  proof (rule runs_pre)
    fix w assume "?I seen w"
    then obtain t' where w: "w = v\<lparr>w_tree := t'\<rparr>" and a: "dirs_added ?S t t'" and p: "look t' p = look t p" and s: "\<forall>k \<in> set seen. look t' (take k p) = Some Dir" by blast
    have "k \<in> set [1..<length p]" unfolding parts by simp
    then have k: "0 < k" "k < length p" by auto
    then have neq: "p \<noteq> take k p" by (metis length_take min.absorb4 less_irrefl)
    have len: "Suc (length seen) < length p" using arg_cong [OF parts, of length] by simp
    have "k = [1..<length p] ! length seen" "seen = take (length seen) [1..<length p]" unfolding parts by simp_all
    then have "seen = [1..<k]" using len by (simp add: take_upt del: upt_Suc)
    then have par: "isdir t' (butlast (take k p))"
      using s k root [OF a] by (cases "k = 1") (auto simp: butlast_take isdir_def)
    show "runs (\<lambda>u. u = w) (bindI (gets (\<lambda>w. exists (w_tree w) (take k p))) (\<lambda>found.
         if found then returnI ()
         else tryI (mkdir (take k p)) (\<lambda>e. case e of Err (FileExistsError _) \<Rightarrow> returnI () | _ \<Rightarrow> raiseI e))) (\<lambda>_. ?I (seen @ [k]))"
      using known [OF a, of k] k par new [OF a, of k] s a p neq assms(1)
      by (auto simp: runs_def w bindI_def gets_def returnI_def tryI_def exists_def mkdir_known) 
  qed
  have loop: "runs (\<lambda>w. w = v\<lparr>w_tree := t\<rparr>) (forI (\<lambda>k. bindI (gets (\<lambda>w. exists (w_tree w) (take k p))) (\<lambda>found.
         if found then returnI ()
         else tryI (mkdir (take k p)) (\<lambda>e. case e of Err (FileExistsError _) \<Rightarrow> returnI () | _ \<Rightarrow> raiseI e))) [1..<length p]) (\<lambda>_. ?I [1..<length p])"
    by (rule runs_weaken [OF runs_for [where I = ?I, OF step]]) (auto simp: dirs_added_def intro: exI [of _ t])
  have "runs (?I [1..<length p]) (tryI (mkdir p) (\<lambda>e. bindI (gets (\<lambda>w. isdir (w_tree w) p)) (\<lambda>d. if is_OSError e \<and> exist_ok \<and> d then returnI () else raiseI e)))
      (\<lambda>_ w. \<exists>t'. w = v\<lparr>w_tree := t'\<rparr> \<and> dirs_added ?S t t' \<and> look t' p = Some Dir)"
  proof (rule runs_pre)
    fix w assume "?I [1..<length p] w"
    then obtain t' where w: "w = v\<lparr>w_tree := t'\<rparr>" and a: "dirs_added ?S t t'" and p: "look t' p = look t p" and s: "\<forall>k \<in> set [1..<length p]. look t' (take k p) = Some Dir" by blast
    have par: "isdir t' (butlast p)"
    proof (cases "length p = 1")
      case True
      then show ?thesis using root [OF a] by (auto simp: length_Suc_conv)
    next
      case False
      then have "length p - 1 \<in> set [1..<length p]" using assms(1) by (cases p) (auto simp: neq_Nil_conv)
      then show ?thesis using s by (auto simp: isdir_def butlast_conv_take)
    qed
    show "runs (\<lambda>u. u = w) (tryI (mkdir p) (\<lambda>e. bindI (gets (\<lambda>w. isdir (w_tree w) p)) (\<lambda>d. if is_OSError e \<and> exist_ok \<and> d then returnI () else raiseI e)))
      (\<lambda>_ w. \<exists>t'. w = v\<lparr>w_tree := t'\<rparr> \<and> dirs_added ?S t t' \<and> look t' p = Some Dir)"
      using known [OF a, of "length p"] par new [OF a, of "length p"] a p assms(1, 4)
      by (auto simp: runs_def w bindI_def gets_def returnI_def tryI_def isdir_def is_OSError_def mkdir_known)
  qed
  then show ?thesis unfolding makedirs_def by (rule runs_then [OF loop])
qed

section \<open>Writing the record\<close>

text \<open>The run directory is there and the random names to come are free.\<close>

definition prepared :: "world \<Rightarrow> bool" where
  "prepared w \<longleftrightarrow> look (w_tree w) [] = Some Dir \<and> (\<forall>n \<ge> w_draws w. look (w_tree w) (partial_record (w_token w n)) = None)"

lemma runs_write_record: "runs (\<lambda>w. prepared w \<and> plain_file (w_tree w) [RECORD]) write_record (\<lambda>_. prepared)"
  (is "runs ?P _ _")
  unfolding write_record_def utc_stamp_def random_name_def Let_def
proof (intro runs_bind runs_then)
  show "runs ?P (gets (\<lambda>w. w_clock w (w_time w))) (\<lambda>_. ?P)" by (rule runs_gets)
  show "runs ?P (modify (\<lambda>w. w\<lparr>w_time := Suc (w_time w)\<rparr>)) (\<lambda>_. ?P)" by (rule runs_modify) (simp add: prepared_def)
  show "runs ?P (returnI x) (\<lambda>_. ?P)" for x :: string by (rule runs_return)
  fix stamp
  show "runs ?P (modify (\<lambda>w. w\<lparr>w_record := (w_record w)\<lparr>rr_revision := rr_revision (w_record w) + 1, rr_updated_at := Some stamp\<rparr>\<rparr>)) (\<lambda>_. ?P)"
    by (rule runs_modify) (simp add: prepared_def)
  show "runs ?P (gets w_record) (\<lambda>_. ?P)" by (rule runs_gets)
  let ?A = "\<lambda>token w. ?P w \<and> look (w_tree w) (partial_record token) = None"
  show "runs ?P (gets (\<lambda>w. w_token w (w_draws w))) ?A" by (rule runs_gets) (simp add: prepared_def)
  show "runs (?A token) (modify (\<lambda>w. w\<lparr>w_draws := Suc (w_draws w)\<rparr>)) (\<lambda>_. ?A token)" for token by (rule runs_modify) (simp add: prepared_def)
  show "runs (?A token) (returnI token) ?A" for token by (rule runs_return)
  fix token r
  let ?p = "partial_record token"
  let ?B = "\<lambda>w. \<exists>v. ?A token v \<and> w = v\<lparr>w_tree := put ?p (File (Record r)) (w_tree v)\<rparr>"
  have wr: "runs (?A token) (write_file True ?p (Record r)) (\<lambda>_. ?B)"
    by (rule runs_write) (auto simp: write_plan_def lexists_def isdir_def written_def partial_record_def prepared_def)
  have rp: "runs ?B (replace ?p [RECORD]) (\<lambda>_ w. prepared w \<and> look (w_tree w) ?p = None)"
  proof (rule runs_replace, elim exE conjE)
    fix w v assume v: "prepared v" "plain_file (w_tree v) [RECORD]" "look (w_tree v) ?p = None" and w: "w = v\<lparr>w_tree := put ?p (File (Record r)) (w_tree v)\<rparr>"
    let ?t = "put ?p (File (Record r)) (w_tree v)"
    have plan: "replace_plan ?p [RECORD] ?t = Inr (relocate ?p [RECORD] ?t)"
      using v by (auto simp: replace_plan_def lexists_def isdir_def partial_not_record partial_not_record(1) [symmetric] prepared_def plain_file_simps)
    then show "\<exists>t'. replace_plan ?p [RECORD] (w_tree w) = Inr t' \<and> prepared (w\<lparr>w_tree := t'\<rparr>) \<and> look (w_tree (w\<lparr>w_tree := t'\<rparr>)) ?p = None"
      using v by (auto simp: w replace_look [OF plan] partial_not_record prepared_def)
  qed
  have cl: "runs (\<lambda>w. prepared w \<and> look (w_tree w) ?p = None) (bindI (gets (\<lambda>w. lexists (w_tree w) ?p)) (\<lambda>left. if left then remove ?p else returnI ())) (\<lambda>_. prepared)"
    by (rule runs_bind [OF runs_gets [where Q = "\<lambda>left w. \<not> left \<and> prepared w"]]) (auto simp: lexists_def intro: runs_return runs_False)
  show "runs (?A token) (finallyI (thenI (write_file True ?p (Record r)) (replace ?p [RECORD]))
      (bindI (gets (\<lambda>w. lexists (w_tree w) ?p)) (\<lambda>left. if left then remove ?p else returnI ()))) (\<lambda>_. prepared)"
    by (rule runs_finally [OF runs_then [OF wr rp] cl])
  show "runs prepared sync (\<lambda>_. prepared)" by (rule runs_sync)
  show "runs prepared (returnI (content_sha256 (Record r))) (\<lambda>_. prepared)" by (rule runs_return)
qed

section \<open>Finishing\<close>

lemma prepared_tree:
  assumes "prepared w" "look t' [] = look (w_tree w) []" "\<And>token. look t' (partial_record token) = look (w_tree w) (partial_record token)"
  shows "prepared (w\<lparr>w_tree := t'\<rparr>)"
  using assms by (simp add: prepared_def)

lemma partial_not_dest:
  assumes "dest = [QUARANTINE, name]"
  shows "\<not> prefix (dest @ s) (partial_record token)" "partial_record token \<noteq> dest @ s" "\<not> prefix [QUARANTINE] (partial_record token)"
    "\<not> prefix (dest @ s) []"
  using assms by (auto simp: partial_record_def QUARANTINE_def prefix_def)

lemma runs_write_journal:
  assumes "dest = [QUARANTINE, name]"
  shows "runs (\<lambda>w. prepared w \<and> isdir (w_tree w) dest \<and> plain_file (w_tree w) (partial_path (dest @ [JOURNAL])) \<and> plain_file (w_tree w) (dest @ [JOURNAL]))
    (write_journal (dest @ [JOURNAL]) j) (\<lambda>_. prepared)"
proof -
  let ?jp = "dest @ [JOURNAL]" and ?pp = "partial_path (dest @ [JOURNAL])"
  note np = partial_path_neq [OF special_paths(3) [OF assms]] and pd = partial_not_dest [OF assms] and pp = special_paths(2) [OF assms]
  let ?B = "\<lambda>w. prepared w \<and> isdir (w_tree w) dest \<and> (\<exists>c. look (w_tree w) ?pp = Some (File c)) \<and> plain_file (w_tree w) ?jp"
  have wr: "runs (\<lambda>w. prepared w \<and> isdir (w_tree w) dest \<and> plain_file (w_tree w) ?pp \<and> plain_file (w_tree w) ?jp) (write_file False ?pp x) (\<lambda>_. ?B)" for x
    by (rule runs_write_plain) (use pd(2) np(1, 4) in \<open>auto simp: pp isdir_put plain_file_def intro!: prepared_tree\<close>)
  have mv: "runs ?B (replace ?pp ?jp) (\<lambda>_. prepared)"
  proof (rule runs_replace, elim conjE exE)
    fix w c assume w: "prepared w" "isdir (w_tree w) dest" "look (w_tree w) ?pp = Some (File c)" "plain_file (w_tree w) ?jp"
    then have plan: "replace_plan ?pp ?jp (w_tree w) = Inr (relocate ?pp ?jp (w_tree w))"
      by (auto simp: replace_plan_def lexists_def np plain_file_simps simp del: prefix_snoc)
    moreover have "prepared (w\<lparr>w_tree := relocate ?pp ?jp (w_tree w)\<rparr>)"
      using w(1) pd(1, 4) by (intro prepared_tree) (auto simp: replace_look [OF plan np(1), unfolded pp] pp)
    ultimately show "\<exists>t'. replace_plan ?pp ?jp (w_tree w) = Inr t' \<and> prepared (w\<lparr>w_tree := t'\<rparr>)" by blast
  qed
  show ?thesis unfolding write_journal_def by (rule runs_then [OF wr mv])
qed

lemma moving_ready:
  assumes "moving dest paths t0 rec rm M w"
  shows "isdir (w_tree w) dest" "plain_file (w_tree w) (dest @ [NOTE])" "plain_file (w_tree w) (partial_path (dest @ [JOURNAL]))" "plain_file (w_tree w) (dest @ [JOURNAL])"
  using assms by (auto simp: moving_def ready_def around_def isdir_def plain_file_def)

lemma runs_finish:
  assumes "movable paths" "dest = [QUARANTINE, name]" "jn_moves j = paths"
  shows "runs (\<lambda>w. moving dest paths t0 (Some (File c)) rm (set paths) w \<and> prepared w) (finish dest (dest @ [JOURNAL]) j) (\<lambda>_. prepared)"
  (is "runs ?G _ _")
proof -
  let ?M = "moving dest paths t0 (Some (File c)) rm (set paths)"
  have with_M: "runs ?G m (\<lambda>_. ?G)" if "runs ?G m (\<lambda>_. prepared)" "ensures ?M m (\<lambda>_. ?M) E K" for m :: "unit io" and E K
  proof -
    have "ensures ?G m (\<lambda>_. ?M) E K" by (rule ensures_weaken [OF that(2)]) auto
    from runs_ensures [OF that(1) this] show ?thesis by (rule runs_weaken) auto
  qed
  have nf: "runs ?G (write_file False (dest @ [NOTE]) x) (\<lambda>_. prepared)" for x
    by (rule runs_write_plain) (use partial_not_dest(2) [OF assms(2)] in \<open>auto intro!: prepared_tree moving_ready\<close>)
  have nt: "runs ?G (write_note dest j) (\<lambda>_. prepared)" unfolding write_note_def by (rule runs_bind [OF runs_gets nf])
  have jr: "runs ?G (write_journal (dest @ [JOURNAL]) (j\<lparr>jn_status := JournalDone\<rparr>)) (\<lambda>_. prepared)"
    by (rule runs_weaken [OF runs_write_journal [OF assms(2)]]) (auto intro: moving_ready)
  have "jn_moves (j\<lparr>jn_status := JournalDone\<rparr>) = paths" by (simp add: assms(3))
  note steps = with_M [OF nt ensures_note [OF assms(1, 2)]] with_M [OF jr ensures_journal [OF assms(1, 2) this]]
  show ?thesis unfolding finish_def
  proof (rule runs_then [OF steps(1) runs_then [OF steps(2) runs_then]])
    show "runs ?G (modify (\<lambda>w. w\<lparr>w_record := (w_record w)\<lparr>rr_pending := None\<rparr>\<rparr>)) (\<lambda>_ w. prepared w \<and> plain_file (w_tree w) [RECORD])"
      by (rule runs_modify) (simp add: moving_def prepared_def plain_file_def)
  qed (rule runs_then [OF runs_write_record runs_return])
qed

section \<open>Moving what is left\<close>

text \<open>The paths to move are in the run and no part of them is a link.\<close>

definition direct :: "path list \<Rightarrow> tree \<Rightarrow> bool" where
  "direct paths t \<longleftrightarrow> (\<forall>rel \<in> set paths. plain_path rel \<and> lexists t rel \<and> (\<forall>k. 0 < k \<and> k \<le> length rel \<longrightarrow> \<not> islink t (take k rel)))"

definition going :: "path \<Rightarrow> path list \<Rightarrow> tree \<Rightarrow> entry option \<Rightarrow> run_record \<Rightarrow> path \<Rightarrow> path set \<Rightarrow> world \<Rightarrow> bool" where
  "going dest paths t0 rec rm root M w \<longleftrightarrow> moving dest paths t0 rec rm M w \<and> prepared w \<and> w_root w = root"

lemma moving_path:
  assumes "movable paths" "rel \<in> set paths" "rel \<notin> M" "moving dest paths t0 rec rm M w" "norm_parts [] root = root" "direct paths t0"
  shows "run_path root (w_tree w) (Relative rel) = Inr rel"
proof -
  have "at_home dest t0 (w_tree w) rel" using assms(2-4) by (simp add: moving_def placed_def)
  then have home: "look (w_tree w) rel = look t0 rel" unfolding at_home_def by (metis append_Nil2)
  have "look (w_tree w) (take k rel) = look t0 (take k rel)" if "0 < k" "k \<le> length rel" for k
  proof (cases "k = length rel")
    case False
    note r = movableD [OF assms(1, 2)]
    have "\<not> prefix rel' (take k rel)" if "rel' \<in> set paths" for rel'
    proof
      assume p: "prefix rel' (take k rel)"
      then have "rel' = rel" using movableD(6) [OF assms(1) that assms(2)] take_is_prefix prefix_order.trans by blast
      then show False using p False \<open>k \<le> length rel\<close> by (auto dest: prefix_length_le)
    qed
    moreover have "\<not> prefix [QUARANTINE] (take k rel)" "take k rel \<notin> record_paths"
      using \<open>0 < k\<close> r(1) r(2) [of "[]"] r(3) [of "[]"] by (cases k; cases rel; auto simp: record_paths_def)+
    ultimately show ?thesis using assms(4) by (simp add: moving_def ready_def around_def)
  qed (simp add: home)
  then have "islink (w_tree w) (take k rel) = islink t0 (take k rel)" if "0 < k" "k \<le> length rel" for k using that by (simp add: islink_def)
  then show ?thesis using assms(2, 6) movableD(1) [OF assms(1, 2)] by (auto simp: direct_def run_path_plain [OF assms(5)])
qed

lemma going_dirs:
  assumes "movable paths" "rel \<in> set paths" "dest = [QUARANTINE, name]" "going dest paths t0 rec rm root M w"
    and added: "dirs_added {q. prefix q (dest @ butlast rel) \<and> q \<noteq> []} (w_tree w) t'"
  shows "going dest paths t0 rec rm root M (w\<lparr>w_tree := t'\<rparr>)"
proof -
  have rel: "rel \<noteq> []" using movableD(1) [OF assms(1, 2)] .
  have S: "q \<in> above (dest @ rel)" if "prefix q (dest @ butlast rel)" "q \<noteq> []" for q
  proof -
    have "q = take (length q) (dest @ rel)" using that(1) rel
      by (metis append_butlast_last_id append_assoc append_eq_conv_conj prefix_def)
    moreover have "length q < length (dest @ rel)" using prefix_length_le [OF that(1)] rel by (simp add: le_less_trans)
    ultimately show ?thesis using that(2) unfolding above_def by blast
  qed
  then have adds: "adds_dirs (above (dest @ rel)) w (w\<lparr>w_tree := t'\<rparr>)"
    using added by (auto simp: adds_dirs_def steady_def same_memory_def dirs_added_def)
  have same: "look t' q = look (w_tree w) q" if "\<not> prefix [QUARANTINE] q" for q
    using adds above_not_special(3) [OF assms(1-3), of q] that by (auto simp: adds_dirs_def dirs_added_def)
  show ?thesis using assms(4) placed_adds [OF assms(1-3) adds] ready_adds [OF assms(1-3) adds] same [of "[RECORD]"] same partial_not_dest(3) [OF assms(3)]
    by (auto simp: going_def moving_def QUARANTINE_def RECORD_def intro!: prepared_tree)
qed

lemma going_replace:
  assumes "movable paths" "rel \<in> set paths" "dest = [QUARANTINE, name]" "going dest paths t0 rec rm root M w" "rel \<notin> M" "lexists t0 rel"
    and dir: "look (w_tree w) (dest @ butlast rel) = Some Dir"
  shows "\<exists>t'. replace_plan rel (dest @ rel) (w_tree w) = Inr t' \<and> going dest paths t0 rec rm root (insert rel M) (w\<lparr>w_tree := t'\<rparr>)"
proof -
  note m = move_looks [OF assms(1-3)] and r = movableD [OF assms(1, 2)]
  have mv: "moving dest paths t0 rec rm M w" using assms(4) by (simp add: going_def)
  have "lexists (w_tree w) rel" "look (w_tree w) (dest @ rel) = None"
    using moving_at(3, 4) [OF mv assms(2, 6)] assms(5) by (simp_all add: lexists_def)
  then have plan: "replace_plan rel (dest @ rel) (w_tree w) = Inr (relocate rel (dest @ rel) (w_tree w))"
    using r(1) m(1) m(2) [of "[]"] m(3) [of "[]"] dir by (simp add: replace_plan_def isdir_def butlast_append)
  let ?t = "relocate rel (dest @ rel) (w_tree w)"
  have "moving dest paths t0 rec rm (insert rel M) (w\<lparr>w_tree := ?t\<rparr>)"
    using mv moved_out [OF assms(1-3, 5) _ _ plan, of t0] by (simp add: moving_def)
  moreover have "\<not> prefix rel (partial_record token)" for token
    using assms(1, 2) r(1) by (cases rel) (auto simp: movable_def partial_record_def startswith_def)
  then have "prepared (w\<lparr>w_tree := ?t\<rparr>)" using assms(4) r(1) partial_not_dest [OF assms(3)]
    by (intro prepared_tree) (auto simp: going_def replace_look [OF plan m(1)])
  ultimately show ?thesis using plan assms(4) by (auto simp: going_def)
qed

lemma moving_dirs:
  assumes "rel \<in> set paths" "rel \<noteq> []" "dest = [QUARANTINE, name]" "moving dest paths t0 rec rm M w" and pos: "0 < k" and le: "k \<le> length (dest @ butlast rel)"
  shows "look (w_tree w) (take k (dest @ butlast rel)) \<in> {None, Some Dir}"
proof -
  have a: "look (w_tree w) [QUARANTINE] = Some Dir" "look (w_tree w) dest = Some Dir"
    "0 < m \<Longrightarrow> m < length rel \<Longrightarrow> look (w_tree w) (dest @ take m rel) \<in> {None, Some Dir}" for m
    using assms(1, 4) unfolding moving_def ready_def around_def by blast+
  consider "k = 1" | "k = 2" | "2 < k" using pos by linarith
  then show ?thesis
  proof cases
    case 3
    then obtain m where k: "k = Suc (Suc m)" "0 < m" using less_imp_add_positive [of 2 k] by auto
    then have "take k (dest @ butlast rel) = dest @ take m rel" "m < length rel" using le assms(2) by (auto simp: assms(3) take_butlast)
    then show ?thesis using a(3) k(2) by metis
  qed (use a in \<open>auto simp: assms(3) numeral_2_eq_2\<close>)
qed

lemma runs_dest_dirs:
  assumes "movable paths" "rel \<in> set paths" "dest = [QUARANTINE, name]"
  shows "runs (going dest paths t0 rec rm root M) (makedirs True (butlast (dest @ rel)))
    (\<lambda>_ w. going dest paths t0 rec rm root M w \<and> look (w_tree w) (dest @ butlast rel) = Some Dir)"
  (is "runs ?G _ ?Q")
proof (rule runs_pre)
  fix w assume G: "?G w"
  have r: "rel \<noteq> []" using movableD(1) [OF assms(1, 2)] .
  have "runs (\<lambda>v. v = w) (makedirs True (dest @ butlast rel)) (\<lambda>_ v. \<exists>t'. v = w\<lparr>w_tree := t'\<rparr> \<and>
      dirs_added {q. prefix q (dest @ butlast rel) \<and> q \<noteq> []} (w_tree w) t' \<and> look t' (dest @ butlast rel) = Some Dir)"
    using runs_makedirs [of "dest @ butlast rel" "w_tree w" True w] moving_dirs [OF assms(2) r assms(3), of t0 rec rm M w] G
    by (simp add: assms(3) tree_again going_def prepared_def isdir_def)
  then show "runs (\<lambda>v. v = w) (makedirs True (butlast (dest @ rel))) ?Q"
    using going_dirs [OF assms G] r by (auto simp: butlast_append elim!: runs_weaken)
qed

lemma runs_replace_out:
  assumes "movable paths" "rel \<in> set paths" "dest = [QUARANTINE, name]" "direct paths t0" "rel \<notin> M"
  shows "runs (\<lambda>w. going dest paths t0 rec rm root M w \<and> look (w_tree w) (dest @ butlast rel) = Some Dir) (replace rel (dest @ rel))
    (\<lambda>_. going dest paths t0 rec rm root (insert rel M))"
  by (rule runs_replace) (use going_replace [OF assms(1-3) _ assms(5)] assms(2, 4) in \<open>auto simp: direct_def\<close>)

lemma runs_recover_move:
  assumes "movable paths" "rel \<in> set paths" "dest = [QUARANTINE, name]" "norm_parts [] root = root" "direct paths t0"
  shows "runs (going dest paths t0 rec rm root M) (recover_move dest rel) (\<lambda>b w. b \<and> going dest paths t0 rec rm root (insert rel M) w)"
  (is "runs ?G _ ?Q")
proof (rule runs_pre)
  fix w assume G: "?G w"
  then have mv: "moving dest paths t0 rec rm M w" by (simp add: going_def)
  have "lexists t0 rel" using assms(2, 5) by (simp add: direct_def)
  note at = moving_at(3, 4) [OF mv assms(2) this]
  show "runs (\<lambda>v. v = w) (recover_move dest rel) ?Q"
  proof (cases "rel \<in> M")
    case True
    then show ?thesis using at G by (auto simp: runs_def recover_move_def bindI_def gets_def returnI_def insert_absorb)
  next
    case False
    have path: "runs (\<lambda>v. v = w) (run_path_io (Relative rel)) (\<lambda>_. ?G)"
      by (rule runs_weaken [OF runs_run_path [where P = "\<lambda>v. v = w"]])
        (use moving_path [OF assms(1, 2) False mv assms(4, 5)] G in \<open>auto simp: going_def\<close>)
    have "runs (\<lambda>v. v = w) (thenI (run_path_io (Relative rel)) (thenI (makedirs True (butlast (dest @ rel))) (thenI (replace rel (dest @ rel)) (returnI True)))) ?Q"
      by (rule runs_then [OF path runs_then [OF runs_dest_dirs [OF assms(1-3)] runs_then [OF runs_replace_out [OF assms(1-3, 5) False] runs_return]]]) simp
    moreover have "recover_move dest rel w = thenI (run_path_io (Relative rel)) (thenI (makedirs True (butlast (dest @ rel))) (thenI (replace rel (dest @ rel)) (returnI True))) w"
      using at False by (simp add: recover_move_def bindI_def gets_def)
    ultimately show ?thesis by (simp add: runs_def)
  qed
qed

lemma runs_recover_from:
  assumes "movable paths" "dest = [QUARANTINE, name]" "norm_parts [] root = root" "direct paths t0" "jn_moves j = paths" "unlist paths rm = rm"
  shows "runs (going dest paths t0 (Some (File c)) rm root M) (recover_from dest (dest @ [JOURNAL]) j) (\<lambda>_ w. True)"
proof -
  let ?I = "\<lambda>seen found w. list_all id found \<and> going dest paths t0 (Some (File c)) rm root (M \<union> set seen) w"
  have step: "runs (?I seen found) (recover_move dest rel) (\<lambda>b. ?I (seen @ [rel]) (found @ [b]))" if "paths = seen @ rel # rest" for seen rel rest found
  proof (cases "list_all id found")
    case True
    have "rel \<in> set paths" using that by simp
    from runs_recover_move [OF assms(1) this assms(2-4)] show ?thesis by (rule runs_weaken) (use True in auto)
  qed (simp add: runs_False)
  have loop: "runs (?I [] []) (mapI (recover_move dest) paths) (\<lambda>found. ?I paths found)" by (rule runs_map [where I = ?I, OF step])
  let ?G = "\<lambda>w. moving dest paths t0 (Some (File c)) rm (set paths) w \<and> prepared w"
  have fin: "runs ?G (thenI (modify (\<lambda>w. w\<lparr>w_record := unlist paths (w_record w)\<rparr>)) (thenI (finish dest (dest @ [JOURNAL]) j) (returnI (dest, paths)))) (\<lambda>_ w. True)"
    by (rule runs_then [OF runs_modify [where Q = "\<lambda>_. ?G"] runs_then [OF runs_finish [OF assms(1, 2, 5)] runs_return]])
      (auto simp: moving_def prepared_def assms(6))
  have "runs (?I [] []) (recover_from dest (dest @ [JOURNAL]) j) (\<lambda>_ w. True)"
    unfolding recover_from_def assms(5)
  proof (rule runs_bind [OF loop])
    fix found
    have "?G w" if "?I paths found w" for w using that moving_all [of dest paths t0 _ rm "M \<union> set paths"] by (auto simp: going_def)
    then show "runs (?I paths found) (if \<not> list_all id found then raiseI (Err (SystemExit ''neither in the run alone nor in the quarantine alone; sort it out by hand''))
        else thenI (modify (\<lambda>w. w\<lparr>w_record := unlist paths (w_record w)\<rparr>)) (thenI (finish dest (dest @ [JOURNAL]) j) (returnI (dest, paths)))) (\<lambda>_ w. True)"
      using runs_weaken [OF fin, of "?I paths found"] by (cases "list_all id found") (auto intro: runs_False)
  qed
  then show ?thesis by (rule runs_weaken) auto
qed

lemma runs_run_lock:
  assumes "\<And>w. P w \<Longrightarrow> (\<exists>c. look (w_tree w) [LOCK] = Some (File c)) \<and> \<not> w_busy w" "runs P m Q"
  shows "runs P (run_lock m) Q"
  unfolding run_lock_def
proof (rule runs_bind [OF runs_gets [where Q = "\<lambda>l w. \<not> l \<and> P w"]])
  have lock: "runs P (atomic lock_plan) (\<lambda>_. P)"
    unfolding atomic_def by (rule runs_call) (use assms(1) in \<open>fastforce simp: lock_plan_def isdir_def lexists_def tree_again\<close>)
  have held: "runs P (bindI (gets w_busy) (\<lambda>busy. if busy then raiseI e else m)) Q" for e
    by (rule runs_bind [OF runs_gets [where Q = "\<lambda>b w. \<not> b \<and> P w"]]) (use assms in \<open>auto intro: runs_False\<close>)
  fix l
  show "runs (\<lambda>w. \<not> l \<and> P w) (if l then raiseI (Err (SystemExit ''is a symlink'')) else thenI (atomic lock_plan)
      (bindI (gets w_busy) (\<lambda>busy. if busy then raiseI (Err (SystemExit ''another refresh or quarantine is running; try again when it is done'')) else m))) Q"
    using runs_then [OF lock held] by (cases l) (auto intro: runs_False)
qed (use assms(1) in \<open>fastforce simp: islink_def\<close>)

lemma runs_read_record:
  assumes "\<And>w. P w \<Longrightarrow> record_in (w_tree w) = Inr r"
  shows "runs P read_record (\<lambda>x w. x = r \<and> P w)"
  unfolding read_record_def
proof (rule runs_bind [OF runs_gets [where Q = "\<lambda>_. P"]])
  fix found
  show "runs P (thenI (if found then sync else returnI ()) (bindI (gets (\<lambda>w. record_in (w_tree w))) liftI)) (\<lambda>x w. x = r \<and> P w)"
  proof (rule runs_then [where R = P])
    show "runs P (bindI (gets (\<lambda>w. record_in (w_tree w))) liftI) (\<lambda>x w. x = r \<and> P w)"
      by (rule runs_bind [OF runs_gets [where Q = "\<lambda>x w. x = Inr r \<and> P w"]])
        (use assms in \<open>auto simp: liftI_def intro: runs_return runs_False split: sum.split\<close>)
  qed (auto intro: runs_sync runs_return)
qed auto

lemma journal_found:
  assumes "norm_parts [] root = root" "plain_path dest" "dest = [QUARANTINE, name]" "ready dest paths t0 t"
  shows "run_path root t (Relative (dest @ [JOURNAL])) = Inr (dest @ [JOURNAL])"
proof -
  let ?jp = "dest @ [JOURNAL]"
  have "\<not> islink t (take k ?jp)" if "0 < k" "k \<le> 3" for k
  proof -
    from that consider "k = 1" | "k = 2" | "k = 3" by linarith
    then show ?thesis using assms(4) by cases (auto simp: assms(3) ready_def around_def islink_def numeral_2_eq_2 numeral_3_eq_3)
  qed
  moreover have "plain_path ?jp" using assms(2) by (simp add: plain_path_def JOURNAL_def)
  ultimately show ?thesis by (auto simp: run_path_plain [OF assms(1)] assms(3))
qed

lemma runs_recover_pending:
  assumes "movable paths" "norm_parts [] root = root" "plain_path dest" "dest = [QUARANTINE, name]" "direct paths t0" "unlist paths rm = rm"
    and u: "undecided dest paths t0 (Some (File c)) t" and w: "w_root w = root" "w_tree w = t" "w_record w = rm" "prepared w"
  shows "runs (\<lambda>v. v = w)
    (bindI (run_path_io (Relative (dest @ [JOURNAL]))) (\<lambda>journal_path. bindI (read_file journal_path) (\<lambda>c.
       case c of Journal j \<Rightarrow> recover_from (butlast journal_path) journal_path j | _ \<Rightarrow> raiseI (Err (ValueError ''not a quarantine journal''))))) (\<lambda>_ w. True)"
proof (rule runs_bind [OF runs_run_path [where p = "dest @ [JOURNAL]"]])
  let ?jp = "dest @ [JOURNAL]" and ?W = "\<lambda>v. v = w"
  obtain M j where M: "placed dest paths t0 M t" "ready dest paths t0 t" and j: "look t ?jp = Some (File (Journal j))" "jn_moves j = paths"
    using u by (auto simp: undecided_def ready_def)
  show "run_path (w_root v) (w_tree v) (Relative ?jp) = Inr ?jp" if "v = w" for v using journal_found [OF assms(2-4) M(2)] that w by simp
  have "runs ?W (recover_from dest ?jp j) (\<lambda>_ w. True)"
    by (rule runs_weaken [OF runs_recover_from [OF assms(1, 4, 2, 5) j(2) assms(6), where M = M]])
      (use w M u in \<open>auto simp: going_def moving_def undecided_def\<close>)
  then have "runs (\<lambda>v. c = Journal j \<and> ?W v) (case c of Journal j \<Rightarrow> recover_from dest ?jp j
      | _ \<Rightarrow> raiseI (Err (ValueError ''not a quarantine journal''))) (\<lambda>_ w. True)" for c
    by (cases "c = Journal j") (simp_all add: runs_False)
  note read = runs_bind [OF runs_read_file this]
  fix x
  show "runs (\<lambda>v. x = ?jp \<and> ?W v) (bindI (read_file x) (\<lambda>c. case c of Journal j \<Rightarrow> recover_from (butlast x) x j
           | _ \<Rightarrow> raiseI (Err (ValueError ''not a quarantine journal'')))) (\<lambda>_ w. True)"
  proof (cases "x = ?jp")
    case True
    show ?thesis unfolding True butlast_snoc using read [of ?jp] by (simp add: read_entry_def w(2) j)
  qed (simp add: runs_False)
qed

lemma runs_recover:
  assumes "movable paths" "look t0 [LOCK] = Some (File c)" "norm_parts [] root = root" "plain_path dest" "direct paths t0"
  shows "runs (\<lambda>w. w_root w = root \<and> interrupted dest paths t0 r (w_tree w) \<and> prepared w \<and> \<not> w_busy w) recover (\<lambda>_ w. True)"
proof (rule runs_pre)
  fix w assume w: "w_root w = root \<and> interrupted dest paths t0 r (w_tree w) \<and> prepared w \<and> \<not> w_busy w"
  then obtain name started stamp where d: "dest = [QUARANTINE, name]"
    and u: "undecided dest paths t0 (Some (File (Record (bumped stamp (pending_record dest started paths r))))) (w_tree w)" by (auto simp: interrupted_def)
  let ?rm = "bumped stamp (pending_record dest started paths r)"
  have rec: "look (w_tree w) [RECORD] = Some (File (Record ?rm))" using u by (simp add: undecided_def)
  have pend: "rr_pending ?rm = Some (Quarantining (dest @ [JOURNAL]) started)" by (simp add: bumped_def pending_record_def)
  have "prepared (w\<lparr>w_record := ?rm\<rparr>)" using w by (simp add: prepared_def)
  with w have body: "runs (\<lambda>v. v = w\<lparr>w_record := ?rm\<rparr>) (bindI (run_path_io (Relative (dest @ [JOURNAL]))) (\<lambda>journal_path. bindI (read_file journal_path) (\<lambda>c.
      case c of Journal j \<Rightarrow> recover_from (butlast journal_path) journal_path j
      | _ \<Rightarrow> raiseI (Err (ValueError ''not a quarantine journal''))))) (\<lambda>_ w. True)"
    by (intro runs_recover_pending [OF assms(1, 3, 4) d assms(5) unlist_again u]) simp_all
  show "runs (\<lambda>v. v = w) recover (\<lambda>_ w. True)" unfolding recover_def
  proof (rule runs_then)
    show "runs (\<lambda>v. v = w) run_root (\<lambda>_ v. v = w)" using w by (simp add: runs_def run_root_def bindI_def gets_def returnI_def prepared_def isdir_def)
    show "runs (\<lambda>v. v = w) (run_lock (bindI read_record (\<lambda>r. thenI (modify (\<lambda>w. w\<lparr>w_record := r\<rparr>))
        (case rr_pending r of
           Some (Quarantining jp _) \<Rightarrow> bindI (run_path_io (Relative jp)) (\<lambda>journal_path. bindI (read_file journal_path) (\<lambda>c.
             case c of Journal j \<Rightarrow> recover_from (butlast journal_path) journal_path j
             | _ \<Rightarrow> raiseI (Err (ValueError ''not a quarantine journal''))))
         | _ \<Rightarrow> raiseI (Err (SystemExit ''no interrupted quarantine'')))))) (\<lambda>_ w. True)"
    proof (rule runs_run_lock, goal_cases)
      case 1
      then show ?case using w undecided_lock [OF assms(1) u assms(2)] by auto
    next
      case 2
      show ?case
      proof (rule runs_bind [OF runs_read_record [where r = ?rm]], goal_cases)
        case (2 x)
        show ?case
        proof (cases "x = ?rm")
          case True
          show ?thesis unfolding True pend option.case pending.case by (rule runs_then [OF runs_modify body]) simp
        qed (simp add: runs_False)
      qed (simp add: record_in_def rec)
    qed
  qed
qed

section \<open>A quarantine without faults\<close>

lemma runs_try: "runs P m Q \<Longrightarrow> runs P (tryI m h) Q" "runs P m Q \<Longrightarrow> runs P (tryException m h') Q"
  unfolding runs_def tryException_def tryI_def by fastforce+

lemma runs_utc_stamp: "(\<And>w n. P (w\<lparr>w_time := n\<rparr>) = P w) \<Longrightarrow> runs P utc_stamp (\<lambda>_. P)"
  by (simp add: utc_stamp_def runs_def bindI_def thenI_def gets_def modify_def returnI_def)

lemma runs_hashes:
  assumes "\<And>w f. P w \<Longrightarrow> f \<in> set names \<Longrightarrow> isfile (w_tree w) f"
  shows "runs P (mapI (\<lambda>f. bindI (file_sha256 f) (\<lambda>h. returnI (f, h))) names) (\<lambda>_. P)"
proof (rule runs_map [where I = "\<lambda>_ _. P"], rule runs_bind [OF _ runs_return])
  fix seen f rest assume f: "names = seen @ f # rest"
  show "runs P (file_sha256 f) (\<lambda>_. P)" unfolding file_sha256_def
  proof (rule runs_bind [OF _ runs_return], rule runs_pre)
    fix w assume "P w"
    then have "isfile (w_tree w) f" using assms f by simp
    then obtain c where "read_entry (w_tree w) f = Inr c"
      by (cases "look (w_tree w) f"; cases "the (look (w_tree w) f)") (auto simp: isfile_def read_entry_def)
    then show "runs (\<lambda>v. v = w) (read_file f) (\<lambda>_. P)"
      by (intro runs_weaken [OF runs_read_file [where P = "\<lambda>v. v = w" and c = c]]) (use \<open>P w\<close> in auto)
  qed
qed

lemma runs_move_all:
  assumes "movable paths" "dest = [QUARANTINE, name]" "direct paths t0" "jn_moves j = paths"
  shows "runs (going dest paths t0 (Some (File c)) rm root {}) (move_all dest j paths) (\<lambda>_ w. True)"
proof -
  let ?G = "\<lambda>seen. going dest paths t0 (Some (File c)) rm root (set seen)"
  have step: "runs (?G seen) (move_out dest rel) (\<lambda>_. ?G (seen @ [rel]))" if "paths = seen @ rel # rest" for seen rel rest
  proof -
    have mem: "rel \<in> set paths" "rel \<notin> set seen" using assms(1) that by (auto simp: movable_def)
    show ?thesis unfolding move_out_def
      by (rule runs_then [OF runs_dest_dirs [OF assms(1) mem(1) assms(2)] runs_then [OF runs_replace_out [OF assms(1) mem(1) assms(2, 3) mem(2)] runs_modify]])
        (simp add: going_def moving_def prepared_def)
  qed
  have start: "runs (going dest paths t0 (Some (File c)) rm root {}) (modify (\<lambda>w. w\<lparr>w_moved := []\<rparr>)) (\<lambda>_. ?G [])"
    by (rule runs_modify) (simp add: going_def moving_def prepared_def)
  have fin: "runs (?G paths) (finish dest (dest @ [JOURNAL]) j) (\<lambda>_ w. True)"
    by (rule runs_weaken [OF runs_finish [OF assms(1, 2, 4)]]) (auto simp: going_def)
  show ?thesis unfolding move_all_def
    by (rule runs_then [OF start runs_then [OF runs_try(2) [OF runs_for [where I = ?G, OF step]] fin]])
qed

lemma runs_mark_pending:
  assumes "movable paths" "dest = [QUARANTINE, name]" "jn_moves j = paths" "plain_file t0 [RECORD]"
  shows "runs (\<lambda>w. calm dest paths t0 (look t0 [RECORD]) rm {} w \<and> plain_file (w_tree w) (partial_path (dest @ [JOURNAL])) \<and> look (w_tree w) (dest @ [JOURNAL]) = None \<and> prepared w)
    (mark_pending dest j) (\<lambda>_ w. prepared w \<and> (\<exists>stamp. moving dest paths t0 (Some (File (Record (bumped stamp rm)))) (bumped stamp rm) {} w))"
  (is "runs ?P _ _")
proof -
  have "runs ?P (write_journal (dest @ [JOURNAL]) j) (\<lambda>_. prepared)"
    by (rule runs_weaken [OF runs_write_journal [OF assms(2)]]) (auto simp: calm_def around_def isdir_def plain_file_def)
  moreover have "ensures ?P (write_journal (dest @ [JOURNAL]) j) (\<lambda>_ w. look (w_tree w) [RECORD] = look t0 [RECORD])
      (\<lambda>_ w. look (w_tree w) [RECORD] = look t0 [RECORD]) (\<lambda>w. look (w_tree w) [RECORD] = look t0 [RECORD])"
    by (rule ensures_weaken [OF ensures_write_journal [OF special_paths(3) [OF assms(2)], where T = "\<lambda>w. look (w_tree w) [RECORD] = look t0 [RECORD]" and old = None]])
      (use special_paths(5) [OF assms(2)] in \<open>auto simp: stable_def calm_def handles_def within_def\<close>)
  ultimately have "runs ?P (write_journal (dest @ [JOURNAL]) j) (\<lambda>_ w. prepared w \<and> look (w_tree w) [RECORD] = look t0 [RECORD])" by (rule runs_ensures)
  then have jr: "runs ?P (write_journal (dest @ [JOURNAL]) j) (\<lambda>_ w. prepared w \<and> plain_file (w_tree w) [RECORD])"
    by (rule runs_weaken) (use assms(4) in \<open>auto simp: plain_file_def\<close>)
  have "runs ?P (mark_pending dest j) (\<lambda>_. prepared)" unfolding mark_pending_def
    by (rule runs_try(1) [OF runs_then [OF jr runs_then [OF runs_write_record runs_return]]])
  moreover have "ensures ?P (mark_pending dest j) (\<lambda>_ w. \<exists>stamp. moving dest paths t0 (Some (File (Record (bumped stamp rm)))) (bumped stamp rm) {} w)
      (\<lambda>_ w. home paths t0 (w_tree w)) (\<lambda>w. home paths t0 (w_tree w))"
    by (rule ensures_weaken [OF ensures_mark_pending [OF assms(1-3)]]) auto
  ultimately show ?thesis by (rule runs_ensures)
qed

lemma runs_new_dest:
  assumes "movable paths" "well_formed t0" "dest = [QUARANTINE, name]" "\<not> lexists t0 dest" "look t0 [QUARANTINE] \<in> {None, Some Dir}"
  shows "runs (\<lambda>w. base t0 r w \<and> prepared w) (makedirs False dest)
    (\<lambda>_ w. calm dest paths t0 (look t0 [RECORD]) r {} w \<and> plain_file (w_tree w) (partial_path (dest @ [JOURNAL])) \<and> look (w_tree w) (dest @ [JOURNAL]) = None \<and> prepared w)"
proof -
  have "runs (\<lambda>w. base t0 r w \<and> prepared w) (makedirs False dest) (\<lambda>_. prepared)"
  proof (rule runs_pre)
    fix w assume w: "base t0 r w \<and> prepared w"
    have k: "look t0 (take k dest) \<in> {None, Some Dir}" if "0 < k" "k \<le> length dest" for k
    proof -
      have "k = 1 \<or> k = 2" using that by (auto simp: assms(3))
      then show ?thesis using assms(4, 5) by (auto simp: assms(3) lexists_def numeral_2_eq_2)
    qed
    have "prepared (w\<lparr>w_tree := t'\<rparr>)" if "dirs_added {q. prefix q dest \<and> q \<noteq> []} t0 t'" for t'
    proof -
      have "look t' (partial_record token) = look t0 (partial_record token)" "look t' [] = look t0 []" for token
        using that unfolding dirs_added_def by (auto simp: assms(3) partial_record_def QUARANTINE_def dest: spec [of _ "[]"] spec [of _ "partial_record token"])
      then show ?thesis using w by (intro prepared_tree) (auto simp: base_def)
    qed
    moreover have "w = w\<lparr>w_tree := t0\<rparr>" using w tree_again [of w] by (simp add: base_def)
    moreover have "isdir t0 []" using well_formed_root [OF assms(2)] by simp
    ultimately show "runs (\<lambda>v. v = w) (makedirs False dest) (\<lambda>_. prepared)"
      using runs_makedirs [of dest t0 False w, OF _ _ k] assms(4) by (auto simp: assms(3) lexists_def elim!: runs_weaken)
  qed
  moreover have "ensures (\<lambda>w. base t0 r w \<and> prepared w) (makedirs False dest)
    (\<lambda>_ w. calm dest paths t0 (look t0 [RECORD]) r {} w \<and> plain_file (w_tree w) (partial_path (dest @ [JOURNAL])) \<and> look (w_tree w) (dest @ [JOURNAL]) = None)
    (\<lambda>_ w. home paths t0 (w_tree w)) (\<lambda>w. home paths t0 (w_tree w))"
    by (rule ensures_weaken [OF ensures_new_dest [OF assms(1-4)]]) (use assms(5) in \<open>auto simp: islink_def\<close>)
  ultimately have "runs (\<lambda>w. base t0 r w \<and> prepared w) (makedirs False dest) (\<lambda>x w. prepared w \<and>
      (calm dest paths t0 (look t0 [RECORD]) r {} w \<and> plain_file (w_tree w) (partial_path (dest @ [JOURNAL])) \<and> look (w_tree w) (dest @ [JOURNAL]) = None))"
    by (rule runs_ensures)
  then show ?thesis by (rule runs_weaken) auto
qed

lemma runs_quarantine_paths:
  assumes "movable paths" "well_formed t0" "direct paths t0" "look t0 [QUARANTINE] \<in> {None, Some Dir}" "plain_file t0 [RECORD]"
    "\<forall>f \<in> set (concat (map (files_under t0) paths)). isfile t0 f"
  shows "runs (\<lambda>w. base t0 r w \<and> prepared w) (quarantine_paths reason paths) (\<lambda>_ w. True)"
  (is "runs ?P _ _")
proof -
  have "plain_path [QUARANTINE]" "\<not> islink t0 [QUARANTINE]" using assms(4) by (auto simp: plain_path_def QUARANTINE_def islink_def)
  then have "runs ?P (run_path_io (Relative [QUARANTINE])) (\<lambda>x w. x = [QUARANTINE] \<and> ?P w)"
    by (intro runs_run_path) (auto simp: base_def run_path_plain le_Suc_eq)
  then have link: "runs ?P (bindI (gets (\<lambda>w. lexists (w_tree w) [QUARANTINE])) (\<lambda>there.
      if there then thenI (run_path_io (Relative [QUARANTINE])) (returnI ()) else returnI ())) (\<lambda>_. ?P)"
    by (intro runs_bind [OF runs_gets [where Q = "\<lambda>_. ?P"]]) (auto intro!: runs_then [where R = ?P] runs_return elim: runs_weaken)
  let ?D = "\<lambda>dest w. ?P w \<and> (\<exists>name. dest = [QUARANTINE, name]) \<and> \<not> lexists t0 dest"
  have stamp: "runs ?P utc_stamp (\<lambda>_. ?P)" by (rule runs_utc_stamp) (simp add: base_def prepared_def)
  have free: "runs ?P (gets (\<lambda>w. free_name (w_tree w) [QUARANTINE] stamp)) ?D" for stamp
    by (rule runs_gets) (use free_name_free [of t0 "[QUARANTINE]" stamp] in \<open>auto simp: base_def\<close>)
  have names: "runs (?D dest) (gets (\<lambda>w. concat (map (files_under (w_tree w)) paths))) (\<lambda>x w. x = concat (map (files_under t0) paths) \<and> ?D dest w)" for dest
    by (rule runs_gets) (simp add: base_def)
  have hashes: "runs (\<lambda>w. x = concat (map (files_under t0) paths) \<and> ?D dest w) (mapI (\<lambda>f. bindI (file_sha256 f) (\<lambda>h. returnI (f, h))) x) (\<lambda>_. ?D dest)" for x dest
    by (rule runs_weaken [OF runs_hashes [where P = "\<lambda>w. x = concat (map (files_under t0) paths) \<and> ?D dest w"]]) (use assms(6) in \<open>auto simp: base_def\<close>)
  have main: "runs (?D dest) (thenI (makedirs False dest)
      (bindI utc_stamp (\<lambda>started.
       thenI (modify (\<lambda>w. w\<lparr>w_record := (unlist paths (w_record w))\<lparr>rr_pending := Some (Quarantining (dest @ [JOURNAL]) started)\<rparr>\<rparr>))
       (thenI (mark_pending dest j) (thenI (move_all dest j paths) (returnI (Some dest, paths))))))) (\<lambda>_ w. True)" if j: "jn_moves j = paths" for dest j
  proof (cases "(\<exists>name. dest = [QUARANTINE, name]) \<and> \<not> lexists t0 dest")
    case True
    then obtain name where d: "dest = [QUARANTINE, name]" "\<not> lexists t0 dest" by blast
    let ?C = "\<lambda>rm w. calm dest paths t0 (look t0 [RECORD]) rm {} w \<and> plain_file (w_tree w) (partial_path (dest @ [JOURNAL])) \<and> look (w_tree w) (dest @ [JOURNAL]) = None \<and> prepared w"
    have mk: "runs (?D dest) (makedirs False dest) (\<lambda>_. ?C r)" by (rule runs_weaken [OF runs_new_dest [OF assms(1, 2) d assms(4)]]) auto
    have st: "runs (?C r) utc_stamp (\<lambda>_. ?C r)" by (rule runs_utc_stamp) (simp add: calm_def prepared_def)
    have pend: "runs (?C r) (modify (\<lambda>w. w\<lparr>w_record := (unlist paths (w_record w))\<lparr>rr_pending := Some (Quarantining (dest @ [JOURNAL]) started)\<rparr>\<rparr>))
        (\<lambda>_. ?C (pending_record dest started paths r))" for started
      by (rule runs_modify) (simp add: calm_def prepared_def pending_record_def)
    have move: "runs (\<lambda>w. prepared w \<and> (\<exists>stamp. moving dest paths t0 (Some (File (Record (bumped stamp rm)))) (bumped stamp rm) {} w)) (move_all dest j paths) (\<lambda>_ w. True)" for rm
    proof (rule runs_pre)
      fix w assume "prepared w \<and> (\<exists>stamp. moving dest paths t0 (Some (File (Record (bumped stamp rm)))) (bumped stamp rm) {} w)"
      then obtain stamp where "going dest paths t0 (Some (File (Record (bumped stamp rm)))) (bumped stamp rm) (w_root w) {} w" by (auto simp: going_def)
      then show "runs (\<lambda>v. v = w) (move_all dest j paths) (\<lambda>_ w. True)"
        by (intro runs_weaken [OF runs_move_all [OF assms(1) d(1) assms(3) j]]) auto
    qed
    show ?thesis
      by (rule runs_then [OF mk runs_bind [OF st runs_then [OF pend runs_then [OF runs_mark_pending [OF assms(1) d(1) j assms(5)] runs_then [OF move runs_return]]]]]) simp
  qed (auto intro: runs_False)
  show ?thesis unfolding quarantine_paths_def Let_def
    by (rule runs_then [OF link runs_bind [OF stamp runs_bind [OF free runs_bind [OF names runs_bind [OF hashes main]]]]]) simp
qed

lemma runs_quarantine:
  assumes "movable paths" "well_formed t" "direct paths t" "look t [QUARANTINE] \<in> {None, Some Dir}" "plain_file t [RECORD]"
    "\<forall>f \<in> set (concat (map (files_under t) paths)). isfile t f" "look t [LOCK] = Some (File c)" "norm_parts [] root = root"
    "record_in t = Inr r" "\<forall>j started. rr_pending r \<noteq> Some (Quarantining j started)" "planned_paths root t include = Inr paths" "paths \<noteq> []"
  shows "runs (\<lambda>w. w_root w = root \<and> w_tree w = t \<and> prepared w \<and> \<not> w_busy w) (quarantine reason include False) (\<lambda>_ w. True)"
  (is "runs ?P _ _")
proof -
  let ?B = "\<lambda>w. w_root w = root \<and> base t r w \<and> prepared w"
  have plan: "runs ?B (bindI (gets (\<lambda>w. planned_paths (w_root w) (w_tree w) include)) liftI) (\<lambda>x w. x = paths \<and> ?B w)"
    by (rule runs_bind [OF runs_gets [where Q = "\<lambda>x w. x = Inr paths \<and> ?B w"]])
      (auto simp: assms(11) base_def liftI_def intro: runs_return runs_False split: sum.split)
  have rest: "runs ?B (bindI (bindI (gets (\<lambda>w. planned_paths (w_root w) (w_tree w) include)) liftI)
      (\<lambda>ps. if ps = [] \<or> False then returnI (None, ps) else quarantine_paths reason ps)) (\<lambda>_ w. True)"
  proof (rule runs_bind [OF plan])
    fix ps
    have "runs ?B (quarantine_paths reason paths) (\<lambda>_ w. True)" by (rule runs_weaken [OF runs_quarantine_paths [OF assms(1-6)]]) auto
    then show "runs (\<lambda>w. ps = paths \<and> ?B w) (if ps = [] \<or> False then returnI (None, ps) else quarantine_paths reason ps) (\<lambda>_ w. True)"
      using assms(12) by (cases "ps = paths") (auto intro: runs_False)
  qed
  have body: "runs (\<lambda>w. x = r \<and> ?P w) (thenI (modify (\<lambda>w. w\<lparr>w_record := x\<rparr>)) (case rr_pending x of
           Some (Quarantining _ _) \<Rightarrow> raiseI (Err (SystemExit ''a quarantine was interrupted; run with --recover first''))
         | _ \<Rightarrow> bindI (bindI (gets (\<lambda>w. planned_paths (w_root w) (w_tree w) include)) liftI)
             (\<lambda>ps. if ps = [] \<or> False then returnI (None, ps) else quarantine_paths reason ps))) (\<lambda>_ w. True)" for x
  proof (cases "x = r")
    case True
    have "runs (\<lambda>w. x = r \<and> ?P w) (modify (\<lambda>w. w\<lparr>w_record := x\<rparr>)) (\<lambda>_. ?B)" by (rule runs_modify) (auto simp: base_def prepared_def assms(8))
    moreover have "runs ?B (case rr_pending x of
           Some (Quarantining _ _) \<Rightarrow> raiseI (Err (SystemExit ''a quarantine was interrupted; run with --recover first''))
         | _ \<Rightarrow> bindI (bindI (gets (\<lambda>w. planned_paths (w_root w) (w_tree w) include)) liftI)
             (\<lambda>ps. if ps = [] \<or> False then returnI (None, ps) else quarantine_paths reason ps)) (\<lambda>_ w. True)"
      using assms(10) True by (simp only: rest split: option.split pending.split) blast
    ultimately show ?thesis by (rule runs_then)
  qed (simp add: runs_False)
  have "runs ?P run_root (\<lambda>_. ?P)" using well_formed_root(1) [OF assms(2)] by (auto simp: runs_def run_root_def bindI_def gets_def returnI_def)
  then show ?thesis unfolding quarantine_def
    by (rule runs_then) (rule runs_run_lock [OF _ runs_bind [OF runs_read_record body]]; simp add: assms(7, 9))
qed

section \<open>The paths of a plan\<close>

lemma signable_exists: "rel \<in> set (signable_paths t) \<Longrightarrow> lexists t rel"
  by (auto simp: signable_paths_def signable_in_def lexists_def isdir_def split: if_splits)

lemma include_path_exists: "include_path root t loc = Inr rel \<Longrightarrow> lexists t rel"
  unfolding include_path_def Let_def by (auto split: if_split_asm)

lemma planned_direct:
  assumes "planned_paths root t include = Inr paths" "unreserved paths" "norm_parts [] root = root"
  shows "direct paths t"
proof -
  from assms(1) obtain included others where inc: "mapM (include_path root t) include = Inr included"
    and p: "paths = keep_outer (signable_paths t @ included)" and chk: "mapM (\<lambda>rel. run_path root t (Relative rel)) paths = Inr others"
    by (auto simp: planned_paths_def Let_def bindR_Inr_iff)
  have mv: "movable paths" using planned_movable [OF assms(1, 2)] .
  have all: "rel \<noteq> []" if "rel \<in> set (signable_paths t @ included)" for rel
    using that mapM_mem [OF inc] include_path_Inr by (fastforce simp: signable_paths_def signable_in_def split: if_splits)
  have "lexists t rel" if "rel \<in> set (signable_paths t @ included)" for rel
    using that mapM_mem [OF inc] include_path_exists signable_exists by fastforce
  moreover have "set paths \<subseteq> set (signable_paths t @ included)" unfolding p by (rule keep_outer_antichain(2)) (use all in blast)
  moreover have "\<not> islink t (take k rel)" if "rel \<in> set paths" "0 < k" "k \<le> length rel" for rel k
  proof -
    have "plain_path rel" using assms(2) that(1) by (simp add: unreserved_def)
    moreover have "\<exists>x. run_path root t (Relative rel) = Inr x" using chk that(1) by (auto simp: mapM_Inr_iff list_all2_conv_all_nth in_set_conv_nth)
    ultimately show ?thesis using that movableD(1) [OF mv that(1)] by (auto simp: run_path_plain [OF assms(3)] split: if_splits)
  qed
  ultimately show ?thesis using assms(2) by (auto simp: direct_def unreserved_def)
qed

section \<open>The abstract run\<close>

text \<open>A run as its signers see it: the files outside the tool's own directory and record, what is held in the quarantine at \<open>dest\<close>, and the
  listed packages. Withdrawing paths takes their files out of the run into the quarantine and their packages off the list, in one step.\<close>

record run_view =
  rv_files :: "path \<rightharpoonup> entry"
  rv_held :: "path \<rightharpoonup> entry"
  rv_listed :: "(path, package_entry) dict"

definition covered :: "path list \<Rightarrow> path \<Rightarrow> bool" where
  "covered paths q \<longleftrightarrow> list_ex (\<lambda>rel. prefix rel q) paths"

definition view :: "path \<Rightarrow> path list \<Rightarrow> tree \<Rightarrow> run_view" where
  "view dest paths t =
     \<lparr>rv_files = (\<lambda>q. if prefix [QUARANTINE] q \<or> q \<in> record_paths then None else look t q),
      rv_held = (\<lambda>q. if covered paths q then look t (dest @ q) else None),
      rv_listed = (case record_in t of Inr r \<Rightarrow> rr_packages r | Inl _ \<Rightarrow> [])\<rparr>"

definition withdraw :: "path list \<Rightarrow> run_view \<Rightarrow> run_view" where
  "withdraw paths v =
     \<lparr>rv_files = (\<lambda>q. if covered paths q then None else rv_files v q),
      rv_held = (\<lambda>q. if covered paths q then rv_files v q else None),
      rv_listed = filter (\<lambda>(p, _). \<not> covered paths p) (rv_listed v)\<rparr>"

lemma finished_view:
  assumes "movable paths" "record_in t0 = Inr r" "finished dest paths t0 rm t" "rr_packages rm = rr_packages (unlist paths r)"
  shows "view dest paths t = withdraw paths (view dest paths t0)"
proof -
  have f: "moved_to dest t0 t rel" if "rel \<in> set paths" for rel using assms(3) that by (simp add: finished_def)
  have a: "look t q = look t0 q" if "\<not> covered paths q" "\<not> prefix [QUARANTINE] q" "q \<notin> record_paths" for q
    using assms(3) that by (auto simp: finished_def around_def covered_def list_ex_iff)
  have c: "look t q = None" "look t (dest @ q) = look t0 q" "\<not> prefix [QUARANTINE] q" "q \<notin> record_paths" if cov: "covered paths q" for q
  proof -
    obtain rel s where q: "rel \<in> set paths" "q = rel @ s" using cov by (auto simp: covered_def list_ex_iff prefix_def)
    show "look t q = None" "look t (dest @ q) = look t0 q" using f [OF q(1)] by (simp_all add: moved_to_def q(2))
    show "\<not> prefix [QUARANTINE] q" "q \<notin> record_paths" using movableD(2, 3) [OF assms(1) q(1)] by (simp_all add: q(2))
  qed
  have "rv_files (view dest paths t) q = rv_files (withdraw paths (view dest paths t0)) q" for q
    using a c by (auto simp: view_def withdraw_def)
  moreover have "rv_held (view dest paths t) q = rv_held (withdraw paths (view dest paths t0)) q" for q
    using c by (auto simp: view_def withdraw_def)
  moreover obtain stamp where "record_in t = Inr (bumped stamp (rm\<lparr>rr_pending := None\<rparr>))" using assms(3) by (auto simp: finished_def record_in_def)
  then have "rv_listed (view dest paths t) = rv_listed (withdraw paths (view dest paths t0))"
    using assms(4) by (simp add: view_def withdraw_def assms(2) bumped_def unlist_def covered_def)
  ultimately show ?thesis by (intro run_view.equality ext) simp_all
qed

lemma complete_view:
  assumes "movable paths" "record_in t0 = Inr r" "complete dest paths t0 r t"
  shows "view dest paths t = withdraw paths (view dest paths t0)"
proof -
  obtain started stamp where "finished dest paths t0 (bumped stamp (pending_record dest started paths r)) t" using assms(3) by (auto simp: complete_def)
  then show ?thesis by (rule finished_view [OF assms(1, 2)]) (simp add: bumped_def pending_record_def)
qed

section \<open>Properties\<close>

text \<open>C3. Quarantine is all or nothing, whatever fails. Take a run directory in form, with a readable record, and the paths the tool plans to
  move. Under every schedule of failing calls, interrupts and kills: if \<open>quarantine\<close> returns, every planned path is in the quarantine with the
  content it had, is gone from the run, and the record lists no package at or below it and is not pending (a dry run, or nothing to move,
  changes nothing); if it raises or is killed, every path is still in the run as it was, or the record is pending and an open journal lists the
  paths, each of them either in the run or in the quarantine, whole, or the quarantine is complete.\<close>

theorem quarantine_all_or_recoverable:
  assumes "well_formed (w_tree w)" "norm_parts [] (w_root w) = w_root w" "lock_plan (w_tree w) = Inr t" "record_in t = Inr r"
    "planned_paths (w_root w) t include = Inr paths" "unreserved paths"
  shows "case quarantine reason include dry_run w of
      (Val x, w') \<Rightarrow> if paths = [] \<or> dry_run then x = (None, paths) \<and> w_tree w' = t
        else \<exists>dest. x = (Some dest, paths) \<and> complete dest paths t r (w_tree w')
    | (Exn e, w') \<Rightarrow> recoverable paths t r (w_tree w')
    | (Killed, w') \<Rightarrow> recoverable paths t r (w_tree w')"
  using ensures_quarantine [OF assms] by (simp add: ensures_def)

definition sample_tree :: tree where
  "sample_tree = [([], Dir), ([LOCK], File (Text [])), ([''release''], Dir), ([''release'', ''plan.md''], File (Text ''plan''))]"

lemma sample_plan: "planned_paths [''runs'', ''r1''] sample_tree [] = Inr [[''release'']]" "norm_parts [] [''runs'', ''r1''] = [''runs'', ''r1'']"
  "record_in sample_tree = Inr empty_record" "lock_plan sample_tree = Inr sample_tree" "unreserved [[''release'']]"
  "concat (map (files_under sample_tree) [[''release'']]) = [[''release'', ''plan.md'']]" "isfile sample_tree [''release'', ''plan.md'']"
  by code_simp+

lemma sample_form: "well_formed sample_tree"
  unfolding well_formed_def
proof (intro conjI allI impI)
  fix p name assume "lexists sample_tree (p @ [name])"
  then have "p @ [name] \<in> {[LOCK], [''release''], [''release'', ''plan.md'']}" by (auto simp: lexists_def sample_tree_def split: if_splits)
  then have "p = [] \<or> p = [''release'']" by (cases p) (auto simp: LOCK_def)
  then show "isdir sample_tree p" by (auto simp: isdir_def sample_tree_def LOCK_def)
qed (simp add: sample_tree_def)

theorem quarantine_all_or_recoverable_witness:
  "case quarantine ''not reviewed'' [] False (sample_world [Run, Run, Run, Kill 1, Run] sample_tree) of
      (Val x, w') \<Rightarrow> \<exists>dest. x = (Some dest, [[''release'']]) \<and> complete dest [[''release'']] sample_tree empty_record (w_tree w')
    | (Exn e, w') \<Rightarrow> recoverable [[''release'']] sample_tree empty_record (w_tree w')
    | (Killed, w') \<Rightarrow> recoverable [[''release'']] sample_tree empty_record (w_tree w')"
  using quarantine_all_or_recoverable [of "sample_world [Run, Run, Run, Kill 1, Run] sample_tree" sample_tree empty_record "[]" "[[''release'']]" False "''not reviewed''"]
  by (auto simp: sample_plan sample_form split: prod.splits outcome.splits)

text \<open>C10. Recovery completes an interrupted quarantine. From a run with an open journal, if no fault occurs, nobody else holds the lock and the
  random names are free, \<open>recover\<close> returns the quarantine directory and the journal's paths, and the run is the one with these paths withdrawn.\<close>

theorem recover_completes:
  assumes "planned_paths (w_root w) t include = Inr paths" "unreserved paths" "norm_parts [] (w_root w) = w_root w" "record_in t = Inr r"
    "look t [LOCK] = Some (File c)" "plain_path dest" "interrupted dest paths t r (w_tree w)" "prepared w" "\<not> w_busy w" "w_faults w = []"
  shows "\<exists>w'. recover w = (Val (dest, paths), w') \<and> view dest paths (w_tree w') = withdraw paths (view dest paths t)"
proof -
  note mv = planned_movable [OF assms(1, 2)] and d = planned_direct [OF assms(1-3)]
  obtain x w' where run: "recover w = (Val x, w')"
    using runsD [OF runs_recover [OF mv assms(5, 3, 6) d, of r]] assms(7-10) by blast
  have "x = (dest, paths) \<and> complete dest paths t r (w_tree w')"
    using ensuresD(1) [OF ensures_recover [OF mv assms(5, 3, 6)] _ run] assms(7) by simp
  then show ?thesis using run complete_view [OF mv assms(4)] by blast
qed

text \<open>The run after a kill just before the first move.\<close>

definition sample_journal :: journal where
  "sample_journal = \<lparr>jn_status = Moving, jn_reason = ''not reviewed'', jn_moves = [[''release'']], jn_files = []\<rparr>"

definition sample_open :: tree where
  "sample_open = ([QUARANTINE], Dir) # ([QUARANTINE, ''T''], Dir) # ([QUARANTINE, ''T'', JOURNAL], File (Journal sample_journal)) #
     ([RECORD], File (Record (bumped ''T'' (pending_record [QUARANTINE, ''T''] ''T'' [[''release'']] empty_record)))) # sample_tree"

lemma sample_open_look: "q \<notin> {[QUARANTINE], [QUARANTINE, ''T''], [QUARANTINE, ''T'', JOURNAL], [RECORD]} \<Longrightarrow> look sample_open q = look sample_tree q"
  by (auto simp: sample_open_def)

lemma sample_interrupted: "interrupted [QUARANTINE, ''T''] [[''release'']] sample_tree empty_record sample_open"
proof -
  let ?d = "[QUARANTINE, ''T'']"
  have "at_home ?d sample_tree sample_open [''release'']"
    unfolding at_home_def
    by (auto simp: sample_open_look QUARANTINE_def RECORD_def JOURNAL_def sample_open_def sample_tree_def LOCK_def)
  then have "placed ?d [[''release'']] sample_tree {} sample_open" by (simp add: placed_def)
  moreover have "ready ?d [[''release'']] sample_tree sample_open"
    unfolding ready_def around_def plain_file_def partial_path_def
    by (auto simp: sample_open_look sample_open_def sample_tree_def sample_journal_def QUARANTINE_def RECORD_def JOURNAL_def NOTE_def LOCK_def record_paths_def)
  moreover have "look sample_open [RECORD] = Some (File (Record (bumped ''T'' (pending_record ?d ''T'' [[''release'']] empty_record))))"
    by (simp add: sample_open_def QUARANTINE_def RECORD_def)
  ultimately show ?thesis unfolding interrupted_def undecided_def by blast
qed

lemma sample_names: "look sample_tree (partial_record token) = None" "look sample_open (partial_record token) = None"
  by (auto simp: sample_tree_def sample_open_def partial_record_def LOCK_def RECORD_def QUARANTINE_def)

lemma sample_prepared: "prepared (sample_world fs sample_tree)" "prepared (sample_world fs sample_open)"
  using sample_names by (auto simp: prepared_def sample_tree_def sample_open_def)

lemma sample_lock: "look sample_tree [LOCK] = Some (File (Text []))"
  by (simp add: sample_tree_def)

lemma sample_dest: "plain_path [QUARANTINE, ''T'']"
  by (simp add: plain_path_def QUARANTINE_def)

theorem recover_completes_witness:
  "\<exists>w'. recover (sample_world [] sample_open) = (Val ([QUARANTINE, ''T''], [[''release'']]), w') \<and>
     view [QUARANTINE, ''T''] [[''release'']] (w_tree w') = withdraw [[''release'']] (view [QUARANTINE, ''T''] [[''release'']] sample_tree)"
  using recover_completes [of "sample_world [] sample_open" sample_tree "[]" "[[''release'']]" empty_record "Text []" "[QUARANTINE, ''T'']"]
  by (simp add: sample_plan sample_lock sample_dest sample_interrupted sample_prepared)

text \<open>C11. Recovery never loses a quarantine. Run from an open journal under any faults, \<open>recover\<close> either returns the journal's directory and
  paths with the quarantine complete, or leaves it open, every path whole in the run or in the quarantine and the record still pending, or leaves it
  complete: it can be run again until it succeeds.\<close>

theorem recover_stays_recoverable:
  assumes "planned_paths (w_root w) t include = Inr paths" "unreserved paths" "norm_parts [] (w_root w) = w_root w"
    "look t [LOCK] = Some (File c)" "plain_path dest" "interrupted dest paths t r (w_tree w)"
  shows "case recover w of
      (Val x, w') \<Rightarrow> x = (dest, paths) \<and> complete dest paths t r (w_tree w')
    | (Exn e, w') \<Rightarrow> interrupted dest paths t r (w_tree w') \<or> complete dest paths t r (w_tree w')
    | (Killed, w') \<Rightarrow> interrupted dest paths t r (w_tree w') \<or> complete dest paths t r (w_tree w')"
  using ensures_recover [OF planned_movable [OF assms(1, 2)] assms(4, 3, 5), of r] assms(6) by (simp add: ensures_def)

theorem recover_stays_recoverable_witness:
  "case recover (sample_world [Run, Run, Run, Run, Kill 1] sample_open) of
      (Val x, w') \<Rightarrow> x = ([QUARANTINE, ''T''], [[''release'']]) \<and> complete [QUARANTINE, ''T''] [[''release'']] sample_tree empty_record (w_tree w')
    | (Exn e, w') \<Rightarrow> interrupted [QUARANTINE, ''T''] [[''release'']] sample_tree empty_record (w_tree w') \<or>
        complete [QUARANTINE, ''T''] [[''release'']] sample_tree empty_record (w_tree w')
    | (Killed, w') \<Rightarrow> interrupted [QUARANTINE, ''T''] [[''release'']] sample_tree empty_record (w_tree w') \<or>
        complete [QUARANTINE, ''T''] [[''release'']] sample_tree empty_record (w_tree w')"
  by (rule recover_stays_recoverable [of "sample_world [Run, Run, Run, Run, Kill 1] sample_open" sample_tree "[]" _ "Text []"])
    (simp_all add: sample_plan sample_lock sample_dest sample_interrupted)

text \<open>C12. Without faults, \<open>quarantine\<close> implements the one-step withdrawal. With no quarantine pending, the files to move readable and the tool's
  directory absent or a directory, it returns a quarantine directory and the planned paths, and the abstract run of the new tree is the abstract run of the old
  tree with these paths withdrawn: their files, and nothing else, are out of the run and in the quarantine, and exactly the packages at or below them
  are off the record.\<close>

theorem quarantine_implements_withdraw:
  assumes "well_formed (w_tree w)" "norm_parts [] (w_root w) = w_root w" "look (w_tree w) [LOCK] = Some (File c)" "record_in (w_tree w) = Inr r"
    "\<forall>j started. rr_pending r \<noteq> Some (Quarantining j started)" "planned_paths (w_root w) (w_tree w) include = Inr paths" "unreserved paths" "paths \<noteq> []"
    "look (w_tree w) [QUARANTINE] \<in> {None, Some Dir}" "\<forall>f \<in> set (concat (map (files_under (w_tree w)) paths)). isfile (w_tree w) f"
    "prepared w" "\<not> w_busy w" "w_faults w = []"
  shows "\<exists>dest w'. quarantine reason include False w = (Val (Some dest, paths), w') \<and>
    view dest paths (w_tree w') = withdraw paths (view dest paths (w_tree w))"
proof -
  note mv = planned_movable [OF assms(6, 7)] and d = planned_direct [OF assms(6, 7, 2)]
  have plain: "plain_file (w_tree w) [RECORD]" using assms(4) by (auto simp: record_in_def plain_file_def split: option.splits entry.splits)
  have lock: "lock_plan (w_tree w) = Inr (w_tree w)" using assms(3) by (simp add: lock_plan_def lexists_def isdir_def)
  obtain x w' where run: "quarantine reason include False w = (Val x, w')"
    using runsD [OF runs_quarantine [OF mv assms(1) d assms(9) plain assms(10, 3, 2, 4, 5, 6, 8)]] assms(11-13) by blast
  obtain dest where "x = (Some dest, paths)" "complete dest paths (w_tree w) r (w_tree w')"
    using ensuresD(1) [OF ensures_quarantine [OF assms(1, 2) lock assms(4, 6, 7)] _ run] assms(8) by auto
  then show ?thesis using run complete_view [OF mv assms(4)] by blast
qed

theorem quarantine_implements_withdraw_witness:
  "\<exists>dest w'. quarantine ''not reviewed'' [] False (sample_world [] sample_tree) = (Val (Some dest, [[''release'']]), w') \<and>
     view dest [[''release'']] (w_tree w') = withdraw [[''release'']] (view dest [[''release'']] sample_tree)"
proof -
  have "look sample_tree [QUARANTINE] = None" by (simp add: sample_tree_def QUARANTINE_def LOCK_def)
  then show ?thesis
    using quarantine_implements_withdraw [of "sample_world [] sample_tree" "Text []" empty_record "[]" "[[''release'']]" "''not reviewed''"] sample_plan sample_prepared
    by (simp add: sample_form sample_lock empty_record_def)
qed

end
