(* ===== verification/JsonProps.thy ===== *)
theory JsonProps
  imports Json
begin

text \<open>
  \<^verbatim>\<open>json.loads\<close> reads back what \<^verbatim>\<open>json.dumps\<close> wrote, for every value without floats whose objects have distinct keys.
  The manifests of the bridge claims are written by one tool and read by another through this round trip.
\<close>

section \<open>Strings\<close>

lemma simple_escapes [simp]:
  "simple_escape (CHR 0x22) = Some (CHR 0x22)" "simple_escape (CHR 0x5C) = Some (CHR 0x5C)" "simple_escape (CHR ''n'') = Some (CHR 0x0A)"
  "simple_escape (CHR ''r'') = Some (CHR 0x0D)" "simple_escape (CHR ''t'') = Some (CHR 0x09)" "simple_escape (CHR ''f'') = Some (CHR 0x0C)"
  "simple_escape (CHR ''b'') = Some (CHR 0x08)"
  by (simp_all add: simple_escape_def)

lemma escape_digits_char: "escape_digits [CHR ''0'', CHR ''0'', hex_char (code c div 16), hex_char (code c mod 16)] = Some c"
proof -
  have "code c < 256" by simp
  then have "code c div 16 < 16" by linarith
  moreover have "hex_digit_value (CHR ''0'') = Some 0" by code_simp
  ultimately show ?thesis by (simp add: escape_digits_def)
qed

lemma code_less_32: "code (CHR 0x5C) = 92" "code (CHR 0x22) = 34"
  by simp_all

lemma scan_escaped: "scan_string acc (escape_char c @ s) = scan_string (c # acc) s"
  by (simp add: escape_char_def escape_digits_char)

lemma scan_json_string: "scan_string acc (concat (map escape_char s) @ CHR 0x22 # rest) = Some (rev acc @ s, rest)"
  by (induction s arbitrary: acc) (simp_all add: scan_escaped)

section \<open>Numbers\<close>

text \<open>What may follow a value: nothing that would continue a number.\<close>

definition delimited :: "string \<Rightarrow> bool" where
  "delimited rest \<longleftrightarrow> (case rest of [] \<Rightarrow> True | c # _ \<Rightarrow> \<not> is_digit c \<and> c \<notin> {CHR ''.'', CHR ''e'', CHR ''E''})"

lemma delimited_takeWhile: "list_all is_digit ds \<Longrightarrow> delimited rest \<Longrightarrow> takeWhile is_digit (ds @ rest) = ds"
  by (cases rest) (auto simp: delimited_def list_all_iff takeWhile_append)

lemma delimited_no_fraction: "delimited rest \<Longrightarrow> scan_fraction rest = ([], rest) \<and> scan_exponent rest = ([], rest)"
  by (cases rest) (auto simp: delimited_def scan_fraction_def scan_exponent_def)

lemma zero_digit: "digit_char 0 = CHR ''0''" "digit_value (CHR ''0'') = 0"
  by (simp_all add: digit_value_def digit_char_def char_of_def) code_simp

lemma hd_str_nat: "0 < n \<Longrightarrow> hd (str_nat n) \<noteq> CHR ''0''"
proof (induction n rule: str_nat.induct)
  case (1 n)
  show ?case
  proof (cases "n < 10")
    case True
    then have "digit_value (digit_char n) = n" by simp
    then have "digit_char n \<noteq> CHR ''0''" using 1(2) by (metis zero_digit(2) less_numeral_extra(3))
    then show ?thesis using True by (subst str_nat.simps) simp
  next
    case False
    then have "hd (str_nat (n div 10)) \<noteq> CHR ''0''" using 1(1) by simp
    then show ?thesis using False by (subst str_nat.simps) simp
  qed
qed

lemma scan_digits:
  assumes "delimited rest"
  shows "(if startswith (str_nat n @ rest) ''0'' then ''0'' else takeWhile is_digit (str_nat n @ rest)) = str_nat n"
proof (cases "n = 0")
  case True
  then have "str_nat n = ''0''" by (subst str_nat.simps) (simp add: zero_digit)
  then show ?thesis by (simp add: startswith_def)
next
  case False
  then have "\<not> startswith (str_nat n @ rest) ''0''"
    using hd_str_nat [of n] by (cases "str_nat n") (auto simp: startswith_def)
  then show ?thesis using delimited_takeWhile [OF str_nat_digits assms] by simp
qed

lemma digit_not_letter: "is_digit c \<Longrightarrow> c \<notin> {CHR ''-'', CHR ''n'', CHR ''t'', CHR ''f'', CHR ''N'', CHR ''I'', CHR 0x22, CHR ''['', CHR ''{''}"
  by (auto simp: is_digit_def)

lemma str_int_abs: "str_int n = (if n < 0 then ''-'' else []) @ str_nat (nat \<bar>n\<bar>)"
  by (simp add: str_int_def)

lemma scan_number_parts:
  assumes "(if startswith s ''-'' then ''-'' else []) = sg" "drop (length sg) s = str_nat m @ rest" "delimited rest"
  shows "scan_number s = Some (JInt (if sg = [] then int m else - int m), rest)"
  unfolding scan_number_def Let_def assms(1, 2) scan_digits [OF assms(3)] using delimited_no_fraction [OF assms(3)] by simp

lemma scan_digits_number:
  assumes "delimited rest" "\<not> startswith (str_nat m @ rest) ''-''"
  shows "scan_number (str_nat m @ rest) = Some (JInt (int m), rest)" "scan_number (CHR ''-'' # str_nat m @ rest) = Some (JInt (- int m), rest)"
  using scan_number_parts [of "str_nat m @ rest" "[]" m rest] scan_number_parts [of "CHR ''-'' # str_nat m @ rest" "''-''" m rest] assms
  by (simp_all add: startswith_def)

lemma scan_int:
  assumes "delimited rest"
  shows "scan_constant (str_int n @ rest) = None" "scan_number (str_int n @ rest) = Some (JInt n, rest)"
    "hd (str_int n) \<notin> {CHR 0x22, CHR ''['', CHR ''{'', CHR '' '', CHR 0x09, CHR 0x0A, CHR 0x0D, CHR '']'', CHR ''}''}"
proof -
  have digits: "\<exists>d ds. str_nat m = d # ds \<and> is_digit d" for m
    using str_nat_digits [of m] str_nat_neq_Nil [of m] by (cases "str_nat m") auto
  obtain d ds where d: "str_nat (nat \<bar>n\<bar>) = d # ds" "is_digit d" using digits by blast
  note nd = digit_not_letter [OF d(2)]
  show "scan_constant (str_int n @ rest) = None"
    using d nd by (simp add: str_int_abs scan_constant_def startswith_def)
  show "hd (str_int n) \<notin> {CHR 0x22, CHR ''['', CHR ''{'', CHR '' '', CHR 0x09, CHR 0x0A, CHR 0x0D, CHR '']'', CHR ''}''}"
    using d by (auto simp: str_int_abs is_digit_def)
  have sign: "\<not> startswith (str_nat (nat \<bar>n\<bar>) @ rest) ''-''" using d nd by (simp add: startswith_def)
  show "scan_number (str_int n @ rest) = Some (JInt n, rest)"
    using scan_digits_number [OF assms sign] by (cases "n < 0") (simp_all add: str_int_abs)
qed

section \<open>Values\<close>

fun json_plain :: "json \<Rightarrow> bool" where
  "json_plain (JFloat s) = False"
| "json_plain (JArr xs) = list_all json_plain xs"
| "json_plain (JObj items) = (distinct (map fst items) \<and> list_all (\<lambda>(k, v). json_plain v) items)"
| "json_plain j = True"

definition visible :: "char \<Rightarrow> bool" where
  "visible c \<longleftrightarrow> \<not> json_space c \<and> c \<notin> {CHR '']'', CHR ''}''}"

lemma dump_start: "json_plain j \<Longrightarrow> \<exists>c s. dump w l j = c # s \<and> visible c"
proof (cases j)
  case (JInt n)
  then show ?thesis using scan_int(3) [of "[]" n] str_nat_neq_Nil [of "nat \<bar>n\<bar>"]
    by (cases "str_int n") (auto simp: delimited_def visible_def json_space_def str_int_abs split: if_splits)
qed (auto simp: visible_def json_space_def json_string_def bracketed_def)

lemma skip_nonspace: "\<not> json_space c \<Longrightarrow> skip_space (c # s) = c # s"
  by (simp add: skip_space_def)

lemma skip_dump: "json_plain j \<Longrightarrow> skip_space (dump w l j @ s) = dump w l j @ s"
  using dump_start [of j w l] by (auto simp: visible_def skip_nonspace)

lemma skip_newline: "skip_space (newline_indent w l @ s) = skip_space s"
proof -
  have "dropWhile json_space (replicate m (CHR '' '') @ s) = dropWhile json_space s" for m by (induction m) (simp_all add: json_space_def)
  then show ?thesis by (simp add: skip_space_def newline_indent_def json_space_def)
qed

lemma skip_idem [simp]: "skip_space (skip_space s) = skip_space s"
  by (simp add: skip_space_def)

lemma delimited_newline: "delimited (newline_indent w l @ s)" "delimited (CHR '','' # s)"
  by (simp_all add: delimited_def newline_indent_def is_digit_def)

text \<open>The value that was written is scanned off the text, whatever follows.\<close>

definition scans :: "nat \<Rightarrow> nat \<Rightarrow> json \<Rightarrow> bool" where
  "scans w l j \<longleftrightarrow> (\<forall>n rest. length (dump w l j) < n \<longrightarrow> delimited rest \<longrightarrow> scan_value n (dump w l j @ rest) = Some (j, rest))"

lemma scan_items_join:
  assumes "\<forall>x \<in> set xs. scans w l x \<and> json_plain x" "xs \<noteq> []"
    and "length (join_with (CHR '','' # newline_indent w l) (map (dump w l) xs)) + 1 < n"
    and "skip_space s = join_with (CHR '','' # newline_indent w l) (map (dump w l) xs) @ newline_indent w k @ CHR '']'' # rest"
  shows "scan_items n acc s = Some (acc @ xs, rest)"
  using assms(2, 1, 3, 4)
proof (induction xs arbitrary: n acc s rule: list_nonempty_induct)
  case (single x)
  then obtain m where n: "n = Suc m" by (cases n) auto
  show ?case using single by (simp add: n scans_def delimited_newline skip_newline skip_nonspace json_space_def startswith_def Let_def)
next
  case (cons x xs)
  let ?sep = "CHR '','' # newline_indent w l" and ?tail = "newline_indent w k @ CHR '']'' # rest"
  obtain y ys where xs: "xs = y # ys" using cons.hyps(1) by (cases xs) auto
  obtain m where n: "n = Suc m" using cons.prems(2) by (cases n) auto
  let ?more = "newline_indent w l @ join_with ?sep (map (dump w l) xs) @ ?tail"
  have s: "skip_space s = dump w l x @ CHR '','' # ?more" using cons.prems(3) by (simp add: xs)
  have "skip_space (join_with ?sep (map (dump w l) xs) @ ?tail) = join_with ?sep (map (dump w l) xs) @ ?tail"
    using cons.prems(1) by (cases ys) (simp_all add: xs skip_dump)
  then have "scan_items m (acc @ [x]) ?more = Some ((acc @ [x]) @ xs, rest)"
    using cons.prems(1, 2) by (intro cons.IH) (simp_all add: xs n skip_newline)
  moreover have "scan_value m (dump w l x @ CHR '','' # ?more) = Some (x, CHR '','' # ?more)"
    using cons.prems(1, 2) by (simp add: scans_def delimited_newline xs n)
  ultimately show ?case by (simp add: n s skip_nonspace json_space_def startswith_def)
qed

lemma skip_blank: "skip_space (CHR '' '' # t) = skip_space t"
  by (simp add: skip_space_def json_space_def)

abbreviation member_text :: "nat \<Rightarrow> nat \<Rightarrow> string \<times> json \<Rightarrow> string" where
  "member_text w l \<equiv> (\<lambda>(k, v). json_string k @ '': '' @ dump w l v)"

lemma scan_member:
  assumes "scans w l v" "json_plain v" "length (dump w l v) < m" "delimited t" "k \<notin> fst ` set acc"
    and "skip_space s = json_string k @ '': '' @ dump w l v @ t"
  shows "scan_members (Suc m) acc s =
    (if startswith (skip_space t) ''}'' then Some (acc @ [(k, v)], tl (skip_space t))
     else if startswith (skip_space t) '','' then scan_members m (acc @ [(k, v)]) (tl (skip_space t)) else None)"
proof -
  have "scan_value m (dump w l v @ t) = Some (v, t)" using assms(1, 3, 4) by (simp add: scans_def)
  moreover have "startswith (CHR '':'' # r) '':''" for r by (simp add: startswith_def)
  ultimately show ?thesis using assms(2, 5, 6)
    by (simp add: json_string_def scan_json_string skip_nonspace skip_blank skip_dump json_space_def dict_set_new Let_def)
qed

lemma scan_members_join:
  assumes "\<forall>(k, v) \<in> set items. scans w l v \<and> json_plain v" "items \<noteq> []" "distinct (map fst acc @ map fst items)"
    and "length (join_with (CHR '','' # newline_indent w l) (map (member_text w l) items)) + 1 < n"
    and "skip_space s = join_with (CHR '','' # newline_indent w l) (map (member_text w l) items) @ newline_indent w k0 @ CHR ''}'' # rest"
  shows "scan_members n acc s = Some (acc @ items, rest)"
  using assms(2, 1, 3-5)
proof (induction items arbitrary: n acc s rule: list_nonempty_induct)
  case (single x)
  obtain k v where x: "x = (k, v)" by (cases x)
  obtain m where n: "n = Suc m" using single by (cases n) auto
  have "skip_space s = json_string k @ '': '' @ dump w l v @ newline_indent w k0 @ CHR ''}'' # rest" using single by (simp add: x)
  from scan_member [OF _ _ _ _ _ this, of m acc] show ?case
    using single by (simp add: x n delimited_newline skip_newline skip_nonspace json_space_def startswith_def)
next
  case (cons x xs)
  let ?sep = "CHR '','' # newline_indent w l" and ?tail = "newline_indent w k0 @ CHR ''}'' # rest"
  obtain k v where x: "x = (k, v)" by (cases x)
  obtain y ys where xs: "xs = y # ys" using cons.hyps(1) by (cases xs) auto
  obtain m where n: "n = Suc m" using cons.prems(3) by (cases n) auto
  let ?more = "newline_indent w l @ join_with ?sep (map (member_text w l) xs) @ ?tail"
  have s: "skip_space s = json_string k @ '': '' @ dump w l v @ CHR '','' # ?more" using cons.prems(4) by (simp add: xs x)
  have "skip_space (join_with ?sep (map (member_text w l) xs) @ ?tail) = join_with ?sep (map (member_text w l) xs) @ ?tail"
    by (cases ys) (simp_all add: xs json_string_def skip_nonspace json_space_def split: prod.splits)
  then have "scan_members m (acc @ [x]) ?more = Some ((acc @ [x]) @ xs, rest)"
    using cons.prems(1, 2, 3) by (intro cons.IH) (simp_all add: xs n skip_newline)
  moreover have "scan_members (Suc m) acc s = scan_members m (acc @ [(k, v)]) ?more"
    using scan_member [OF _ _ _ _ _ s, of m acc] cons.prems(1, 2, 3)
    by (simp add: x xs n delimited_newline skip_nonspace json_space_def startswith_def)
  ultimately show ?case by (simp add: n x)
qed

lemma scans_simple:
  assumes "\<And>n rest. delimited rest \<Longrightarrow> scan_value (Suc n) (dump w l j @ rest) = Some (j, rest)"
  shows "scans w l j"
  unfolding scans_def
proof (intro allI impI)
  fix n rest assume "length (dump w l j) < n" "delimited rest"
  then show "scan_value n (dump w l j @ rest) = Some (j, rest)" using assms by (cases n) simp_all
qed

lemma scan_constants:
  "scan_constant (CHR ''n'' # CHR ''u'' # CHR ''l'' # CHR ''l'' # rest) = Some (JNull, rest)"
  "scan_constant (CHR ''t'' # CHR ''r'' # CHR ''u'' # CHR ''e'' # rest) = Some (JBool True, rest)"
  "scan_constant (CHR ''f'' # CHR ''a'' # CHR ''l'' # CHR ''s'' # CHR ''e'' # rest) = Some (JBool False, rest)"
  by (simp_all add: scan_constant_def startswith_def)

lemma scans_dump: "json_plain j \<Longrightarrow> scans w l j"
proof (induction w l j rule: dump.induct)
  case (6 w l xs)
  then have each: "\<forall>x \<in> set xs. scans w (Suc l) x \<and> json_plain x" by (auto simp: list_all_iff)
  show ?case
  proof (cases "xs = []")
    case False
    then obtain y ys where ys: "xs = y # ys" by (cases xs) auto
    let ?sep = "CHR '','' # newline_indent w (Suc l)"
    let ?body = "join_with ?sep (map (dump w (Suc l)) xs)"
    have "json_plain y" using each ys by simp
    then obtain c t where c: "dump w (Suc l) y = c # t" "visible c" using dump_start by blast
    then obtain t' where t': "?body = c # t'" by (cases ys) (simp_all add: ys)
    show ?thesis unfolding scans_def
    proof (intro allI impI)
      fix n rest assume n: "length (dump w l (JArr xs)) < n" "delimited rest"
      then obtain m where m: "n = Suc m" by (cases n) auto
      let ?text = "?body @ newline_indent w l @ CHR '']'' # rest"
      have skip: "skip_space ?text = ?text" "\<not> startswith ?text '']''" using c(2) by (simp_all add: t' visible_def skip_nonspace startswith_def)
      moreover have "scan_items m [] ?text = Some ([] @ xs, rest)"
        using n(1) False by (intro scan_items_join [OF each False _ skip(1)]) (simp add: m bracketed_def newline_indent_def)
      ultimately show "scan_value n (dump w l (JArr xs) @ rest) = Some (JArr xs, rest)"
        using False by (simp add: m bracketed_def skip_newline)
    qed
  qed (auto intro!: scans_simple simp: bracketed_def skip_nonspace json_space_def startswith_def)
next
  case (7 w l items)
  then have each: "\<forall>(k, v) \<in> set items. scans w (Suc l) v \<and> json_plain v" by (fastforce simp: list_all_iff)
  show ?case
  proof (cases "items = []")
    case False
    then obtain y ys where ys: "items = y # ys" by (cases items) auto
    let ?sep = "CHR '','' # newline_indent w (Suc l)"
    let ?body = "join_with ?sep (map (member_text w (Suc l)) items)"
    obtain t' where t': "?body = CHR 0x22 # t'" by (cases y; cases ys) (simp_all add: ys json_string_def)
    show ?thesis unfolding scans_def
    proof (intro allI impI)
      fix n rest assume n: "length (dump w l (JObj items)) < n" "delimited rest"
      then obtain m where m: "n = Suc m" by (cases n) auto
      let ?text = "?body @ newline_indent w l @ CHR ''}'' # rest"
      have skip: "skip_space ?text = ?text" "\<not> startswith ?text ''}''" unfolding t' by (simp_all add: json_space_def skip_nonspace startswith_def)
      moreover have "scan_members m [] ?text = Some ([] @ items, rest)"
        using n(1) False 7(2) by (intro scan_members_join [OF each False _ _ skip(1)]) (simp_all add: m bracketed_def newline_indent_def)
      ultimately show "scan_value n (dump w l (JObj items) @ rest) = Some (JObj items, rest)"
        using False by (simp add: m bracketed_def skip_newline)
    qed
  qed (auto intro!: scans_simple simp: bracketed_def skip_nonspace json_space_def startswith_def)
next
  case (3 w l n)
  show ?case
  proof (rule scans_simple)
    fix m rest assume "delimited rest"
    moreover obtain c cs where "str_int n = c # cs" by (cases "str_int n") (simp_all add: str_int_abs)
    ultimately show "scan_value (Suc m) (dump w l (JInt n) @ rest) = Some (JInt n, rest)"
      using scan_int [of rest n] by simp
  qed
next
  case (5 w l s)
  show ?case by (rule scans_simple) (simp add: json_string_def scan_json_string)
next
  case (1 w l)
  show ?case by (rule scans_simple) (simp add: scan_constants)
next
  case (2 w l b)
  show ?case by (cases b; simp; rule scans_simple) (simp_all add: scan_constants)
qed simp_all

lemma loads_dumps_space:
  assumes "json_plain j" "\<forall>c \<in> set trailing. json_space c"
  shows "loads (dumps width j @ trailing) = Inr j"
proof -
  have space: "\<not> is_digit c \<and> c \<notin> {CHR ''.'', CHR ''e'', CHR ''E''}" if "json_space c" for c
    using that unfolding json_space_def by (elim insertE) (simp_all add: is_digit_def)
  have "delimited trailing" using assms(2) space by (cases trailing) (simp_all add: delimited_def)
  then have "scan_value (2 * length (dumps width j @ trailing) + 1) (dumps width j @ trailing) = Some (j, trailing)"
    using scans_dump [OF assms(1), of width 0, unfolded scans_def] unfolding dumps_def by (elim allE impE) (simp_all del: scan_value.simps)
  moreover have "skip_space trailing = []" using assms(2) by (simp add: skip_space_def)
  ultimately show ?thesis using skip_dump [OF assms(1), of width 0 trailing] by (simp add: loads_def dumps_def del: scan_value.simps)
qed

text \<open>JSON documents read back: what \<^verbatim>\<open>json.dumps\<close> writes with any indentation, \<^verbatim>\<open>json.loads\<close> reads as the same value, with the items of every
  object in their order, for every value without floats whose objects have distinct keys, whatever characters its strings have.\<close>

theorem loads_dumps:
  assumes "json_plain j"
  shows "loads (dumps width j) = Inr j"
  using loads_dumps_space [OF assms, of "[]" width] by simp

theorem loads_dumps_witness:
  "loads (dumps 2 (JObj [([CHR ''a'', CHR 0x5C], JArr [JInt (-7), JNull, JStr [CHR 0x22, CHR 0x0A, CHR 0xE9]]), ([], JObj [])])) =
   Inr (JObj [([CHR ''a'', CHR 0x5C], JArr [JInt (-7), JNull, JStr [CHR 0x22, CHR 0x0A, CHR 0xE9]]), ([], JObj [])])"
  by (rule loads_dumps) simp

lemma distinct_keys_sort: "distinct (map fst (sort_key fst d)) \<longleftrightarrow> distinct (map fst d)"
  by (metis mset_eq_imp_distinct_iff mset_map mset_sort)

lemma sort_keys_plain: "json_plain j \<Longrightarrow> json_plain (sort_keys j)"
proof (induction j rule: sort_keys.induct)
  case (2 items)
  let ?items = "map (\<lambda>(k, v). (k, sort_keys v)) items"
  have "map fst ?items = map fst items" by (auto simp: list.map_comp o_def case_prod_beta)
  then have keys: "distinct (map fst ?items)" using 2(2) by (simp del: map_map)
  have "distinct (map fst (sort_key fst ?items))" using keys by (simp only: distinct_keys_sort)
  moreover have "list_all (\<lambda>(k, v). json_plain v) (sort_key fst ?items)" using 2 by (fastforce simp: list_all_iff)
  ultimately show ?case by simp
qed (auto simp: list_all_iff)

end
