(* ===== verification/BuildClaims.thy ===== *)
theory BuildClaims
  imports ClaimTree Allocations JsonProps
begin

text \<open>
  \<^verbatim>\<open>bridge-claims/tools/build_claims.py\<close>: from the claim list of every chain to one claim contract per funding multisig, with its published
  list, tree, samples and manifest. A program works on the files; it may fail, and it may not return, because the loop over the levels of a tree
  is a partial function. The bridge configuration is the JSON document that \<^verbatim>\<open>load_config\<close> returns. The messages to the operator and the
  Markdown report are left out; \<open>relpath\<close> is \<^verbatim>\<open>os.path.relpath\<close>, which depends on the working directory.
\<close>

section \<open>Programs on files\<close>

type_synonym 'a proc = "files \<Rightarrow> (files \<times> 'a result) option"

definition fromR :: "'a result \<Rightarrow> 'a proc" where
  "fromR r fs = Some (fs, r)"

definition readP :: "(files \<Rightarrow> 'a result) \<Rightarrow> 'a proc" where
  "readP f fs = Some (fs, f fs)"

definition writeP :: "string \<Rightarrow> string \<Rightarrow> string proc" where
  "writeP path content fs = Some (write_output fs path content)"

definition loopP :: "'a result option \<Rightarrow> 'a proc" where
  "loopP m fs = map_option (\<lambda>r. (fs, r)) m"

definition bindP :: "'a proc \<Rightarrow> ('a \<Rightarrow> 'b proc) \<Rightarrow> 'b proc" where
  "bindP m f fs = Option.bind (m fs) (\<lambda>(fs', r). case r of Inl e \<Rightarrow> Some (fs', Inl e) | Inr x \<Rightarrow> f x fs')"

fun foldP :: "('s \<Rightarrow> 'a \<Rightarrow> 's proc) \<Rightarrow> 's \<Rightarrow> 'a list \<Rightarrow> 's proc" where
  "foldP f s [] = fromR (Inr s)"
| "foldP f s (x # xs) = bindP (f s x) (\<lambda>s'. foldP f s' xs)"

section \<open>Inputs\<close>

definition SCHEMA_VERSION :: int where "SCHEMA_VERSION = 1"

definition LIST_FIELDS :: "string list" where
  "LIST_FIELDS = [''index'', ''account'', ''token'', ''symbol'', ''amount_raw'', ''amount'', ''pools'']"

definition SAMPLE_PROOFS :: nat where "SAMPLE_PROOFS = 2000"

record build_claims_args =
  bg_chains_file :: string
  bg_allocations_dir :: string
  bg_output_dir :: string
  bg_bytecode :: string
  bg_funder :: "string list"
  bg_chains :: "string list"
  bg_workers :: int
  bg_replace :: bool

definition funder_overrides :: "string list \<Rightarrow> (string, string) dict result" where
  "funder_overrides values = foldM (\<lambda>out value.
     case partition_at (CHR ''='') value of (label, sep, address) \<Rightarrow>
       if \<not> sep then Inl (SystemExit ''expected LABEL=ADDRESS'')
       else bindR (bridge_address address) (\<lambda>a. Inr (dict_set label a out))) [] values"

definition or_empty :: "json \<Rightarrow> json" where
  "or_empty j = (if json_falsy j then JObj [] else j)"

record bytecode =
  by_init_code :: bytes
  by_artifact :: string
  by_compiler :: json
  by_evm_version :: json
  by_optimizer :: json

definition load_bytecode :: "(string \<Rightarrow> string) \<Rightarrow> files \<Rightarrow> string \<Rightarrow> bytecode option result" where
  "load_bytecode relpath fs path =
     (case (if path = [] then None else fs path) of
        None \<Rightarrow> Inr None
      | Some content \<Rightarrow>
          bindR (loads content) (\<lambda>artifact.
          bindR (bindR (json_item artifact ''bytecode'') (\<lambda>b. bindR (json_item b ''object'') json_text)) (\<lambda>object.
          bindR (json_get artifact ''metadata'') (\<lambda>meta0.
          bindR (json_get (or_empty meta0) ''settings'') (\<lambda>settings0.
          bindR (claim_unhex object) (\<lambda>init_code.
          bindR (json_get (or_empty meta0) ''compiler'') (\<lambda>compiler0.
          bindR (json_get (or_empty compiler0) ''version'') (\<lambda>compiler.
          bindR (json_get (or_empty settings0) ''evmVersion'') (\<lambda>evm.
          bindR (json_get (or_empty settings0) ''optimizer'') (\<lambda>optimizer.
            Inr (Some \<lparr>by_init_code = init_code, by_artifact = relpath path, by_compiler = compiler, by_evm_version = evm, by_optimizer = optimizer\<rparr>)))))))))))"

section \<open>Assets and claims of a chain\<close>

record asset =
  as_symbol :: string
  as_decimals :: int
  as_pools :: "string list"
  as_claimable :: int

definition token_of :: "string \<Rightarrow> string result" where
  "token_of text = (if is_native text then Inr NATIVE_TOKEN else bridge_address text)"

definition int_or_zero_field :: "csv_row \<Rightarrow> string \<Rightarrow> int result" where
  "int_or_zero_field r name = bindR (value_field r name) (\<lambda>v. if v = [] then Inr 0 else py_int v)"

definition add_asset :: "string \<Rightarrow> (string, asset) dict \<Rightarrow> csv_row \<Rightarrow> (string, asset) dict result" where
  "add_asset chain table pool =
     bindR (field pool ''claim_chain'') (\<lambda>claim_chain.
     if claim_chain \<noteq> Some chain then Inr table
     else
       bindR (field pool ''status'') (\<lambda>status.
       if status = Some ''unsupported'' then Inr table
       else
         bindR (bindR (value_field pool ''claim_token'') token_of) (\<lambda>token.
         bindR (value_field pool ''symbol'') (\<lambda>symbol.
         bindR (int_of_field pool ''decimals'') (\<lambda>decimals.
         let entry = (case dict_get table token of
                Some e \<Rightarrow> e | None \<Rightarrow> \<lparr>as_symbol = symbol, as_decimals = decimals, as_pools = [], as_claimable = 0\<rparr>) in
         if as_symbol entry \<noteq> symbol \<or> as_decimals entry \<noteq> decimals then Inl (ValueError ''pools disagree on symbol or decimals'')
         else
           bindR (value_field pool ''pool_id'') (\<lambda>pool_id.
           bindR (int_or_zero_field pool ''claimable_raw'') (\<lambda>claimable.
             Inr (dict_set token (entry\<lparr>as_pools := as_pools entry @ [pool_id], as_claimable := as_claimable entry + claimable\<rparr>) table))))))))"

definition asset_table :: "csv_row list \<Rightarrow> string \<Rightarrow> (string, asset) dict result" where
  "asset_table pools chain = foldM (add_asset chain) [] pools"

record listed_claim =
  cr_account :: string
  cr_token :: string
  cr_amount :: int
  cr_pools :: string

definition add_listed_claim :: "(string, asset) dict \<Rightarrow> listed_claim list \<Rightarrow> csv_row \<Rightarrow> listed_claim list result" where
  "add_listed_claim assets rows row =
     bindR (bindR (value_field row ''account'') bridge_address) (\<lambda>account.
     bindR (address_int account) (\<lambda>n.
     if n = 0 then Inl (ValueError ''zero account'')
     else
       bindR (bindR (value_field row ''token'') token_of) (\<lambda>token.
       if dict_get assets token = None then Inl (ValueError ''no pool paying the token'')
       else
         bindR (int_of_field row ''amount_raw'') (\<lambda>amount.
         if amount \<le> 0 \<or> amount \<ge> 2 ^ 256 then Inl (ValueError ''amount out of range'')
         else if (account, token) \<in> set (map (\<lambda>r. (cr_account r, cr_token r)) rows) then Inl (ValueError ''second row for the account and token'')
         else
           bindR (value_field row ''pools'') (\<lambda>pools.
             Inr (rows @ [\<lparr>cr_account = account, cr_token = token, cr_amount = amount, cr_pools = pools\<rparr>]))))))"

definition read_claims :: "files \<Rightarrow> string \<Rightarrow> (string, asset) dict \<Rightarrow> listed_claim list result" where
  "read_claims fs path assets = bindR (read_csv fs path) (foldM (add_listed_claim assets) [])"

text \<open>A negative number of decimals makes the format specification of \<open>format_units\<close> invalid.\<close>

definition format_amount :: "int \<Rightarrow> int \<Rightarrow> string result" where
  "format_amount raw decimals =
     (if decimals < 0 then Inl (ValueError ''Invalid format specifier'')
      else
        let text = format_units raw (nat decimals); short = rstrip_zero text in
        Inr (if CHR ''.'' \<in> set text then (if short \<noteq> [] \<and> last short = CHR ''.'' then butlast short else short) else text))"

definition claim_totals :: "listed_claim list \<Rightarrow> (string, int) dict" where
  "claim_totals rows = foldl (\<lambda>totals r. add_amount (cr_token r) (cr_amount r) totals) [] rows"

section \<open>Contracts of a chain\<close>

definition address_or_none :: "json \<Rightarrow> string option result" where
  "address_or_none j = (if json_falsy j then Inr None else bindR (bindR (json_text j) bridge_address) (\<lambda>a. Inr (Some a)))"

definition one_custody :: "json \<Rightarrow> json result" where
  "one_custody config =
     bindR (json_item config ''one_claims'') (\<lambda>one.
     bindR (json_get one ''custody_multisig'') (\<lambda>own.
     if \<not> json_falsy own then Inr own
     else
       bindR (json_item config ''chains'') (\<lambda>chains.
       bindR (bindR (json_item one ''claim_chain'') json_text) (\<lambda>chain.
       bindR (json_item chains chain) (\<lambda>entry. json_get entry ''custody_multisig'')))))"

record contract_group =
  cg_label :: string
  cg_funder :: "string option"
  cg_source :: string
  cg_rows :: "listed_claim list"

definition contract_groups :: "json \<Rightarrow> string \<Rightarrow> listed_claim list \<Rightarrow> contract_group list result" where
  "contract_groups config chain rows =
     bindR (bindR (json_item config ''chains'') (\<lambda>cs. bindR (json_item cs chain) (\<lambda>entry. json_get entry ''custody_multisig''))) (\<lambda>custody0.
     bindR (address_or_none custody0) (\<lambda>custody.
     bindR (json_item config ''one_claims'') (\<lambda>one.
     bindR (bindR (one_custody config) address_or_none) (\<lambda>one_funder.
     bindR (json_item one ''claim_chain'') (\<lambda>claim_chain.
     if claim_chain = JStr chain \<and> one_funder \<noteq> custody then
       bindR (json_item one ''claim_token'') (\<lambda>claim_token.
       bindR (json_get one ''custody_multisig'') (\<lambda>own.
       let one_rows = filter (\<lambda>r. JStr (cr_token r) = claim_token) rows; rest = filter (\<lambda>r. JStr (cr_token r) \<noteq> claim_token) rows;
           source = (if json_falsy own then ''custody_multisig'' else ''one_claims.custody_multisig'');
           groups = (if rest = [] then [] else [\<lparr>cg_label = chain, cg_funder = custody, cg_source = ''custody_multisig'', cg_rows = rest\<rparr>]) @
             [\<lparr>cg_label = chain @ ''-one'', cg_funder = one_funder, cg_source = source, cg_rows = one_rows\<rparr>]
       in Inr (filter (\<lambda>g. cg_rows g \<noteq> []) groups)))
     else Inr [\<lparr>cg_label = chain, cg_funder = custody, cg_source = ''custody_multisig'', cg_rows = rows\<rparr>])))))"

text \<open>Where the collateral of a pool comes from: address, amount as text, kind. \<^verbatim>\<open>str\<close> of an amount that is a number or a text.\<close>

type_synonym funding = "string \<times> string \<times> string"

definition json_str :: "json \<Rightarrow> string result" where
  "json_str j = (case j of JStr s \<Rightarrow> Inr s | JInt n \<Rightarrow> Inr (str_int n) | JFloat s \<Rightarrow> Inr s | JNull \<Rightarrow> Inr ''None''
     | JBool b \<Rightarrow> Inr (if b then ''True'' else ''False'') | _ \<Rightarrow> Inl (TypeError ''amount_raw''))"

definition add_source :: "string \<Rightarrow> funding \<Rightarrow> (string, funding list) dict \<Rightarrow> (string, funding list) dict" where
  "add_source pool f sources = dict_set pool ((case dict_get sources pool of None \<Rightarrow> [] | Some fs \<Rightarrow> fs) @ [f]) sources"

definition add_transfer :: "(string, funding list) dict \<Rightarrow> json \<Rightarrow> (string, funding list) dict result" where
  "add_transfer sources t =
     bindR (bindR (json_item t ''pool_id'') json_text) (\<lambda>pool.
     bindR (bindR (bindR (json_item t ''escrow'') json_text) bridge_address) (\<lambda>escrow.
     bindR (bindR (json_item t ''amount_raw'') json_str) (\<lambda>amount. Inr (add_source pool (escrow, amount, ''escrow'') sources))))"

definition json_pairs :: "json \<Rightarrow> (string \<times> json) list result" where
  "json_pairs j = (case j of JObj items \<Rightarrow> Inr items | _ \<Rightarrow> Inl (AttributeError ''items''))"

definition funding_sources :: "json \<Rightarrow> (string, funding list) dict result" where
  "funding_sources custody_plan =
     bindR (bindR (json_item custody_plan ''chains'') json_values) (\<lambda>chains.
     bindR (foldM (\<lambda>sources chain. bindR (bindR (json_get chain ''transfers'') json_list_or_empty) (foldM add_transfer sources)) [] chains) (\<lambda>sources.
     bindR (json_get custody_plan ''one_funding'') (\<lambda>funding0.
     let funding = or_empty funding0 in
     bindR (json_get funding ''pools'') (\<lambda>pools0.
     bindR (json_pairs (or_empty pools0)) (\<lambda>pools.
       foldM (\<lambda>sources (pool, amount).
         bindR (bindR (bindR (json_item funding ''from'') json_text) bridge_address) (\<lambda>a.
         bindR (json_str amount) (\<lambda>n. Inr (add_source pool (a, n, ''reserve'') sources)))) sources pools)))))"

section \<open>One contract\<close>

record asset_total =
  at_token :: string
  at_symbol :: string
  at_decimals :: int
  at_pools :: "string list"
  at_rows :: int
  at_total :: int
  at_total_text :: string
  at_approve :: "string option"

record approval =
  ap_symbol :: string
  ap_decimals :: int
  ap_amount :: int
  ap_covers :: "string list"
  ap_sources :: "funding list"

record deployment =
  dp_status :: string
  dp_deployer :: string
  dp_salt :: json
  dp_args :: "bytes option"
  dp_code :: "(string \<times> bytes \<times> bytes \<times> bytecode) option"

record contract_manifest =
  cm_label :: string
  cm_chain :: string
  cm_chain_id :: int
  cm_funder :: "string option"
  cm_source :: string
  cm_wrapped :: "string option"
  cm_root :: bytes
  cm_rows :: "listed_claim list"
  cm_level_sizes :: "nat list"
  cm_list_sha256 :: string
  cm_tree_sha256 :: string
  cm_checked :: nat
  cm_assets :: "asset_total list"
  cm_approvals :: "(string option \<times> approval \<times> string) list"
  cm_deployment :: deployment

definition list_row :: "(string, asset) dict \<Rightarrow> nat \<times> listed_claim \<Rightarrow> string list result" where
  "list_row assets = (\<lambda>(index, r).
     bindR (of_option (KeyError (cr_token r)) (dict_get assets (cr_token r))) (\<lambda>info.
     bindR (format_amount (cr_amount r) (as_decimals info)) (\<lambda>amount.
       Inr [str_nat index, cr_account r, cr_token r, as_symbol info, str_int (cr_amount r), amount, cr_pools r])))"

definition leaf_rows :: "listed_claim list \<Rightarrow> claim_tuple list" where
  "leaf_rows rows = map (\<lambda>(i, r). (int i, cr_account r, cr_token r, cr_amount r)) (enumerate 0 rows)"

text \<open>\<^verbatim>\<open>sorted({*range(0, n, step), n - 1})\<close> for a positive \<open>n\<close>.\<close>

definition sample_indices :: "nat \<Rightarrow> nat list" where
  "sample_indices n = sort (remdups (range_step n (max 1 (n div SAMPLE_PROOFS)) @ [n - 1]))"

definition check_sample :: "(bytes \<Rightarrow> bytes) \<Rightarrow> bytes list list \<Rightarrow> bytes \<Rightarrow> claim_tuple list \<Rightarrow> nat \<Rightarrow> unit result" where
  "check_sample keccak256 tree root tuples index =
     (if \<not> tree_verify keccak256 (tree_proof tree index) root (hd tree ! index) then Inl (RuntimeError ''proof does not verify'')
      else bindR (claim_leaf keccak256 (tuples ! index)) (\<lambda>leaf.
        if hd tree ! index \<noteq> leaf then Inl (RuntimeError ''leaf differs on recomputation'') else Inr ()))"

definition first_rows :: "listed_claim list \<Rightarrow> (string, nat) dict" where
  "first_rows rows = setdefaults (map (\<lambda>(i, r). (cr_token r, i)) (enumerate 0 rows)) []"

definition samples_json :: "string \<Rightarrow> bytes \<Rightarrow> (string, asset) dict \<Rightarrow> listed_claim list \<Rightarrow> bytes list list \<Rightarrow> json result" where
  "samples_json label root assets rows tree =
     bindR (mapM (\<lambda>index. let r = rows ! index in
       bindR (of_option (KeyError (cr_token r)) (dict_get assets (cr_token r))) (\<lambda>info.
         Inr (JObj [(''index'', JInt (int index)), (''account'', JStr (cr_account r)), (''token'', JStr (cr_token r)),
           (''symbol'', JStr (as_symbol info)), (''amount_raw'', JStr (str_int (cr_amount r))),
           (''proof'', JArr (map (\<lambda>node. JStr (hex0x node)) (tree_proof tree index)))])))
       (sort (dict_values (first_rows rows)))) (\<lambda>items.
       Inr (JObj [(''label'', JStr label), (''root'', JStr (hex0x root)), (''rows'', JArr items)]))"

definition per_asset :: "listed_claim list \<Rightarrow> (string, int \<times> int) dict" where
  "per_asset rows = foldl (\<lambda>d r.
     let entry = (case dict_get d (cr_token r) of None \<Rightarrow> (0, 0) | Some e \<Rightarrow> e)
     in dict_set (cr_token r) (fst entry + 1, snd entry + cr_amount r) d) [] rows"

definition add_approval :: "string option \<Rightarrow> bool \<Rightarrow> asset \<Rightarrow> int \<Rightarrow> funding list \<Rightarrow> (string option, approval) dict \<Rightarrow> (string option, approval) dict" where
  "add_approval approve_token native info amount funds approvals =
     (let a = (case dict_get approvals approve_token of Some a \<Rightarrow> a
            | None \<Rightarrow> \<lparr>ap_symbol = (if native then ''W'' @ as_symbol info else as_symbol info), ap_decimals = as_decimals info,
                       ap_amount = 0, ap_covers = [], ap_sources = []\<rparr>)
      in dict_set approve_token (a\<lparr>ap_amount := ap_amount a + amount,
           ap_covers := ap_covers a @ [if native then ''native '' @ as_symbol info else as_symbol info],
           ap_sources := ap_sources a @ funds\<rparr>) approvals)"

definition add_total :: "(string, asset) dict \<Rightarrow> string option \<Rightarrow> (string, funding list) dict \<Rightarrow> (string, int \<times> int) dict \<Rightarrow>
    asset_total list \<times> (string option, approval) dict \<Rightarrow> string \<Rightarrow> (asset_total list \<times> (string option, approval) dict) result" where
  "add_total assets wrapped sources totals st token =
     bindR (of_option (KeyError token) (dict_get assets token)) (\<lambda>info.
     bindR (of_option (KeyError token) (dict_get totals token)) (\<lambda>(n, amount).
     let native = (token = NATIVE_TOKEN); approve_token = (if native then wrapped else Some token) in
     bindR (format_amount amount (as_decimals info)) (\<lambda>text.
       Inr (fst st @ [\<lparr>at_token = token, at_symbol = as_symbol info, at_decimals = as_decimals info, at_pools = sort (as_pools info),
              at_rows = n, at_total = amount, at_total_text = text, at_approve = approve_token\<rparr>],
            add_approval approve_token native info amount
              (concat (map (\<lambda>pool. case dict_get sources pool of None \<Rightarrow> [] | Some fs \<Rightarrow> fs) (sort (as_pools info)))) (snd st)))))"

definition symbol_key :: "(string, asset) dict \<Rightarrow> string \<Rightarrow> bool \<times> string \<times> string" where
  "symbol_key assets token = (token \<noteq> NATIVE_TOKEN, (case dict_get assets token of None \<Rightarrow> [] | Some info \<Rightarrow> lower (as_symbol info)), token)"

definition asset_totals :: "(string, asset) dict \<Rightarrow> string option \<Rightarrow> (string, funding list) dict \<Rightarrow> listed_claim list \<Rightarrow>
    (asset_total list \<times> (string option \<times> approval \<times> string) list) result" where
  "asset_totals assets wrapped sources rows =
     (let totals = per_asset rows in
      bindR (foldM (add_total assets wrapped sources totals) ([], []) (sort_key (symbol_key assets) (dict_keys totals))) (\<lambda>(asset_list, approvals).
      bindR (mapM (\<lambda>(token, a). bindR (format_amount (ap_amount a) (ap_decimals a)) (\<lambda>text. Inr (token, a, text))) approvals) (\<lambda>approval_list.
        Inr (asset_list, approval_list))))"

definition deployment_of :: "(bytes \<Rightarrow> bytes) \<Rightarrow> string \<Rightarrow> json \<Rightarrow> string option \<Rightarrow> string option \<Rightarrow> int \<Rightarrow> bytes \<Rightarrow> nat \<Rightarrow> string \<Rightarrow> bytecode option \<Rightarrow>
    deployment result" where
  "deployment_of keccak256 deployer salt funder wrapped chain_id root n list_sha compiled =
     (case funder of
        None \<Rightarrow> Inr \<lparr>dp_status = ''no_funder'', dp_deployer = deployer, dp_salt = salt, dp_args = None, dp_code = None\<rparr>
      | Some f \<Rightarrow>
          bindR (of_option (ValueError ''non-hexadecimal number found in fromhex() arg'') (fromhex list_sha)) (\<lambda>list_hash.
          bindR (constructor_args f wrapped chain_id root (int n) list_hash) (\<lambda>blob.
          case compiled of
            None \<Rightarrow> Inr \<lparr>dp_status = ''no_bytecode'', dp_deployer = deployer, dp_salt = salt, dp_args = Some blob, dp_code = None\<rparr>
          | Some c \<Rightarrow>
              bindR (bindR (json_text salt) claim_unhex) (\<lambda>salt_bytes.
              bindR (create2_address keccak256 deployer salt_bytes (by_init_code c @ blob)) (\<lambda>address.
                Inr \<lparr>dp_status = ''ready'', dp_deployer = deployer, dp_salt = salt, dp_args = Some blob,
                  dp_code = Some (address, keccak256 (by_init_code c), keccak256 (by_init_code c @ blob), c)\<rparr>)))))"

definition opt_json :: "string option \<Rightarrow> json" where
  "opt_json x = (case x of None \<Rightarrow> JNull | Some s \<Rightarrow> JStr s)"

definition deployment_json :: "contract_manifest \<Rightarrow> json" where
  "deployment_json m =
     (let d = cm_deployment m in
      JObj ([(''status'', JStr (dp_status d)), (''create2_deployer'', JStr (dp_deployer d)), (''salt'', dp_salt d)] @
        (case dp_args d of None \<Rightarrow> []
         | Some blob \<Rightarrow>
             [(''constructor'', JObj [(''funder'', opt_json (cm_funder m)), (''wrappedNative'', JStr (case cm_wrapped m of None \<Rightarrow> NATIVE_TOKEN | Some w \<Rightarrow> w)),
                (''chainId'', JInt (cm_chain_id m)), (''root'', JStr (hex0x (cm_root m))), (''claimCount'', JInt (int (length (cm_rows m)))),
                (''listHash'', JStr (''0x'' @ cm_list_sha256 m))]),
              (''constructor_args'', JStr (hex0x blob))]) @
        (case dp_code d of None \<Rightarrow> []
         | Some (address, code_hash, init_hash, c) \<Rightarrow>
             [(''address'', JStr address), (''bytecode_keccak256'', JStr (hex0x code_hash)), (''init_code_keccak256'', JStr (hex0x init_hash)),
              (''compiler'', JObj [(''artifact'', JStr (by_artifact c)), (''compiler'', by_compiler c), (''evm_version'', by_evm_version c),
                (''optimizer'', by_optimizer c)])])))"

definition CLAIM_LEAF_SCHEME :: string where
  "CLAIM_LEAF_SCHEME = ''keccak256(keccak256(abi.encode(uint256 index, address account, address token, uint256 amount))); '' @
     ''token 0x0 is the native coin''"

definition CLAIM_TREE_SCHEME :: string where
  "CLAIM_TREE_SCHEME = ''binary tree over row leaves in index order; pairs hashed keccak256(min || max); '' @ ''unpaired node carried up''"

definition asset_json :: "asset_total \<Rightarrow> json" where
  "asset_json a = JObj [(''token'', JStr (at_token a)), (''symbol'', JStr (at_symbol a)), (''decimals'', JInt (at_decimals a)),
     (''pools'', JArr (map JStr (at_pools a))), (''rows'', JInt (at_rows a)), (''total_raw'', JStr (str_int (at_total a))),
     (''total'', JStr (at_total_text a)), (''approve_token'', opt_json (at_approve a))]"

definition approval_json :: "string option \<times> approval \<times> string \<Rightarrow> json" where
  "approval_json = (\<lambda>(token, a, text). JObj [(''token'', opt_json token), (''symbol'', JStr (ap_symbol a)), (''decimals'', JInt (ap_decimals a)),
     (''amount_raw'', JStr (str_int (ap_amount a))), (''amount'', JStr text), (''covers'', JArr (map JStr (ap_covers a))),
     (''sources'', JArr (map (\<lambda>(source, amount, kind). JObj [(''from'', JStr source), (''amount_raw'', JStr amount), (''kind'', JStr kind)]) (ap_sources a)))])"

definition manifest_json :: "contract_manifest \<Rightarrow> json" where
  "manifest_json m = JObj
     [(''schema_version'', JInt SCHEMA_VERSION), (''label'', JStr (cm_label m)), (''chain'', JStr (cm_chain m)), (''chain_id'', JInt (cm_chain_id m)),
      (''funder'', opt_json (cm_funder m)), (''funder_source'', JStr (cm_source m)), (''wrapped_native'', opt_json (cm_wrapped m)),
      (''leaf_scheme'', JStr CLAIM_LEAF_SCHEME), (''tree_scheme'', JStr CLAIM_TREE_SCHEME), (''root'', JStr (hex0x (cm_root m))),
      (''claim_count'', JInt (int (length (cm_rows m)))), (''payees'', JInt (int (length (remdups (map cr_account (cm_rows m)))))),
      (''level_sizes'', JArr (map (\<lambda>n. JInt (int n)) (cm_level_sizes m))), (''list_file'', JStr ''claims.csv''),
      (''list_sha256'', JStr (cm_list_sha256 m)), (''tree_file'', JStr ''tree.txt''), (''tree_sha256'', JStr (cm_tree_sha256 m)),
      (''samples_file'', JStr ''samples.json''), (''proofs_checked'', JInt (int (cm_checked m))), (''assets'', JArr (map asset_json (cm_assets m))),
      (''approvals'', JArr (map approval_json (cm_approvals m))), (''deployment'', deployment_json m)]"

definition build_group :: "(bytes \<Rightarrow> bytes) \<Rightarrow> bool \<Rightarrow> build_claims_args \<Rightarrow> json \<Rightarrow> string \<Rightarrow> contract_group \<Rightarrow> (string, asset) dict \<Rightarrow> bytecode option \<Rightarrow>
    (string, funding list) dict \<Rightarrow> contract_manifest proc" where
  "build_group keccak256 started args constants chain g assets compiled sources =
     (let out_dir = join_path (bg_output_dir args) (cg_label g);
          list_path = join_path out_dir ''claims.csv''; tree_path = join_path out_dir ''tree.txt'';
          samples_path = join_path out_dir ''samples.json''; manifest_path = join_path out_dir ''manifest.json'';
          rows = sort_key (\<lambda>r. (cr_account r, cr_token r)) (cg_rows g)
      in
      bindP (readP (\<lambda>fs. prepare_outputs fs (bg_replace args) [list_path, tree_path, samples_path, manifest_path])) (\<lambda>_.
      bindP (fromR (bindR (json_item constants ''chains'') (\<lambda>cs. json_item cs chain))) (\<lambda>entry.
      bindP (fromR (bindR (json_get entry ''wrapped_native'') address_or_none)) (\<lambda>wrapped.
      bindP (fromR (json_item constants ''salt'')) (\<lambda>salt.
      bindP (fromR (bindR (bindR (json_item constants ''create2_deployer'') json_text) bridge_address)) (\<lambda>deployer.
      bindP (fromR (require (\<not> (list_ex (\<lambda>r. cr_token r = NATIVE_TOKEN) rows \<and> wrapped = None))
        (ValueError ''native rows but no wrapped_native configured''))) (\<lambda>_.
      bindP (fromR (mapM (list_row assets) (enumerate 0 rows))) (\<lambda>list_rows.
      bindP (writeP list_path (csv_text (LIST_FIELDS # list_rows))) (\<lambda>list_sha.
      bindP (fromR (claim_leaves keccak256 started (bg_workers args) (leaf_rows rows))) (\<lambda>leaves.
      bindP (loopP (claim_levels keccak256 started (bg_workers args) leaves)) (\<lambda>tree.
      bindP (fromR (tree_root tree)) (\<lambda>root.
      bindP (fromR (mapM (check_sample keccak256 tree root (leaf_rows rows)) (sample_indices (length rows)))) (\<lambda>_.
      bindP (\<lambda>fs. Some (write_tree fs tree_path tree)) (\<lambda>_.
      bindP (fromR (samples_json (cg_label g) root assets rows tree)) (\<lambda>samples.
      bindP (writeP samples_path (json_file 2 samples)) (\<lambda>_.
      bindP (fromR (asset_totals assets wrapped sources rows)) (\<lambda>(asset_list, approvals).
      bindP (fromR (bindR (json_item entry ''chain_id'') json_int)) (\<lambda>chain_id.
      bindP (fromR (deployment_of keccak256 deployer salt (cg_funder g) wrapped chain_id root (length rows) list_sha compiled)) (\<lambda>deployment.
      bindP (readP (\<lambda>fs. bindR (read_text fs tree_path) (\<lambda>content. Inr (text_sha256 content)))) (\<lambda>tree_sha.
      let m = \<lparr>cm_label = cg_label g, cm_chain = chain, cm_chain_id = chain_id, cm_funder = cg_funder g, cm_source = cg_source g,
            cm_wrapped = wrapped, cm_root = root, cm_rows = rows, cm_level_sizes = map length tree, cm_list_sha256 = list_sha,
            cm_tree_sha256 = tree_sha, cm_checked = length (sample_indices (length rows)), cm_assets = asset_list, cm_approvals = approvals,
            cm_deployment = deployment\<rparr>
      in bindP (writeP manifest_path (json_file 2 (manifest_json m))) (\<lambda>_. fromR (Inr m))))))))))))))))))))))"

section \<open>The command\<close>

definition check_chain_totals :: "listed_claim list \<Rightarrow> (string, asset) dict \<Rightarrow> unit result" where
  "check_chain_totals rows assets =
     bindR (mapM (\<lambda>(token, info). if get_amount (claim_totals rows) token \<noteq> as_claimable info
       then Inl (SystemExit ''claim rows do not total the claimable amount of the pools'') else Inr ()) assets) (\<lambda>_. Inr ())"

definition override_funder :: "(string, string) dict \<Rightarrow> contract_group \<Rightarrow> contract_group" where
  "override_funder overrides g = (case dict_get overrides (cg_label g) of None \<Rightarrow> g | Some a \<Rightarrow> g\<lparr>cg_funder := Some a, cg_source := ''--funder''\<rparr>)"

definition output_digest :: "json \<Rightarrow> string \<Rightarrow> json result" where
  "output_digest summary name = bindR (json_item summary ''outputs'') (\<lambda>outputs. json_get outputs name)"

definition check_input :: "json \<Rightarrow> string \<Rightarrow> string \<Rightarrow> files \<Rightarrow> string result" where
  "check_input summary dir name fs =
     bindR (output_digest summary name) (\<lambda>expected.
     bindR (read_text fs (join_path dir name)) (\<lambda>content.
     if expected \<noteq> JStr (text_sha256 content) then Inl (SystemExit ''does not match the allocation summary'') else Inr (text_sha256 content)))"

record build_state =
  bs_manifests :: "contract_manifest list"
  bs_labels :: "string list"
  bs_inputs :: "(string, string) dict"

definition build_chain :: "(bytes \<Rightarrow> bytes) \<Rightarrow> bool \<Rightarrow> build_claims_args \<Rightarrow> json \<Rightarrow> json \<Rightarrow> json \<Rightarrow> csv_row list \<Rightarrow> (string, string) dict \<Rightarrow> bytecode option \<Rightarrow>
    (string, funding list) dict \<Rightarrow> build_state \<Rightarrow> string \<Rightarrow> build_state proc" where
  "build_chain keccak256 started args config constants summary pools overrides compiled sources st chain =
     bindP (fromR (bindR (bindR (json_item summary ''claim_lists'') json_list) (\<lambda>lists.
       require (JStr chain \<in> set lists) (SystemExit ''has no claim list'')))) (\<lambda>_.
     bindP (fromR (bindR (json_item constants ''chains'') (\<lambda>cs. json_get cs chain))) (\<lambda>entry.
     bindP (fromR (require (entry \<noteq> JNull) (SystemExit ''no entry for the chain''))) (\<lambda>_.
     bindP (fromR (bindR (json_item entry ''chain_id'') json_int)) (\<lambda>a.
     bindP (fromR (bindR (json_item config ''chains'') (\<lambda>cs. bindR (json_item cs chain) (\<lambda>c. bindR (json_item c ''chain_id'') json_int)))) (\<lambda>b.
     bindP (fromR (require (a = b) (SystemExit ''chain id differs''))) (\<lambda>_.
     let name = ''claims/'' @ chain @ ''.csv'' in
     bindP (readP (check_input summary (bg_allocations_dir args) name)) (\<lambda>digest.
     bindP (fromR (asset_table pools chain)) (\<lambda>assets.
     bindP (readP (\<lambda>fs. read_claims fs (join_path (bg_allocations_dir args) name) assets)) (\<lambda>rows.
     bindP (fromR (check_chain_totals rows assets)) (\<lambda>_.
     bindP (fromR (contract_groups config chain rows)) (\<lambda>groups.
       foldP (\<lambda>st g. bindP (build_group keccak256 started args constants chain (override_funder overrides g) assets compiled sources)
           (\<lambda>m. fromR (Inr (st\<lparr>bs_manifests := bs_manifests st @ [m], bs_labels := bs_labels st @ [cg_label g]\<rparr>))))
         (st\<lparr>bs_inputs := dict_set name digest (bs_inputs st)\<rparr>) groups)))))))))))"

definition contract_json :: "contract_manifest \<Rightarrow> json" where
  "contract_json m = JObj [(''label'', JStr (cm_label m)), (''chain'', JStr (cm_chain m)), (''chain_id'', JInt (cm_chain_id m)), (''funder'', opt_json (cm_funder m)),
     (''root'', JStr (hex0x (cm_root m))), (''claim_count'', JInt (int (length (cm_rows m)))), (''list_sha256'', JStr (cm_list_sha256 m)),
     (''address'', opt_json (map_option fst (dp_code (cm_deployment m)))), (''status'', JStr (dp_status (cm_deployment m)))]"

definition build_claims :: "(bytes \<Rightarrow> bytes) \<Rightarrow> bool \<Rightarrow> (string \<Rightarrow> string) \<Rightarrow> build_claims_args \<Rightarrow> json \<Rightarrow> contract_manifest list proc" where
  "build_claims keccak256 started relpath args config =
     (let dir = bg_allocations_dir args in
      bindP (readP (\<lambda>fs. bindR (read_text fs (join_path dir ''summary.json'')) loads)) (\<lambda>summary.
      bindP (fromR (bindR (json_get summary ''status'') (\<lambda>s. require (s = JStr ''built'') (SystemExit ''allocation summary is not built'')))) (\<lambda>_.
      bindP (readP (\<lambda>fs. read_csv fs (join_path dir ''pools.csv''))) (\<lambda>pools.
      bindP (readP (\<lambda>fs. load_bytecode relpath fs (bg_bytecode args))) (\<lambda>compiled.
      bindP (readP (\<lambda>fs. bindR (read_text fs (bg_chains_file args)) load_chains)) (\<lambda>constants.
      bindP (fromR (funder_overrides (bg_funder args))) (\<lambda>overrides.
      bindP (readP (\<lambda>fs. mapM (\<lambda>name. check_input summary dir name fs) [''pools.csv'', ''custody-plan.json''])) (\<lambda>digests.
      bindP (readP (\<lambda>fs. bindR (bindR (read_text fs (join_path dir ''custody-plan.json'')) loads) funding_sources)) (\<lambda>sources.
      bindP (fromR (bindR (json_item summary ''claim_lists'') json_list)) (\<lambda>lists.
      bindP (fromR (if bg_chains args \<noteq> [] then Inr (bg_chains args) else mapM json_text lists)) (\<lambda>selected.
      bindP (readP (\<lambda>fs. mapM (\<lambda>(name, path). bindR (read_text fs path) (\<lambda>content. Inr (name, text_sha256 content)))
        [(''summary.json'', join_path dir ''summary.json''), (''custody-plan.json'', join_path dir ''custody-plan.json''), (''chains.json'', bg_chains_file args)])) (\<lambda>inputs.
      bindP (foldP (build_chain keccak256 started args config constants summary pools overrides compiled sources)
        \<lparr>bs_manifests = [], bs_labels = [], bs_inputs = inputs\<rparr> selected) (\<lambda>st.
      bindP (fromR (require (set (dict_keys overrides) \<subseteq> set (bs_labels st)) (SystemExit ''--funder for unknown contracts''))) (\<lambda>_.
      let summary_path = join_path (bg_output_dir args) ''summary.json'' in
      bindP (readP (\<lambda>fs. prepare_outputs fs (bg_replace args) [summary_path, join_path (bg_output_dir args) ''CLAIM_CONTRACTS.md''])) (\<lambda>_.
      bindP (writeP summary_path (json_file 2 (JObj [(''schema_version'', JInt SCHEMA_VERSION), (''inputs'', JObj (map (\<lambda>(k, v). (k, JStr v)) (bs_inputs st))),
        (''contracts'', JArr (map contract_json (bs_manifests st)))]))) (\<lambda>_.
      fromR (Inr (bs_manifests st))))))))))))))))))"

end
