(* ===== verification/ClaimProof.thy ===== *)
theory ClaimProof
  imports BuildClaims
begin

text \<open>
  \<^verbatim>\<open>bridge-claims/tools/proof.py\<close>: the rows of one payee in the list of a claim contract, each with its proof, checked against the root of the
  manifest before it is printed; and that it finds every row that \<^verbatim>\<open>build_claims.py\<close> wrote. Sizes of levels that are negative are refused.
\<close>

section \<open>Looking up a payee\<close>

definition CLAIM_MANY :: string where
  "CLAIM_MANY = ''claimMany((uint256,address,address,uint256,bytes32[])[])''"

definition payee_address :: "(bytes \<Rightarrow> bytes) \<Rightarrow> string \<Rightarrow> string result" where
  "payee_address keccak256 value =
     (let text = strip value in
      bindR (if startswith (lower text) ''one1'' then from_one1 keccak256 text ''one'' False else normalize_address keccak256 text) (\<lambda>a. Inr (lower a)))"

record proof_row =
  pr_index :: int
  pr_token :: string
  pr_symbol :: string
  pr_amount_raw :: string
  pr_amount :: string
  pr_proof :: "string list"

record lookup_result =
  lr_label :: json
  lr_chain :: json
  lr_chain_id :: json
  lr_address :: json
  lr_root :: json
  lr_account :: string
  lr_rows :: "proof_row list"

definition lookup_row :: "(bytes \<Rightarrow> bytes) \<Rightarrow> bytes list list \<Rightarrow> bytes \<Rightarrow> csv_row \<Rightarrow> proof_row result" where
  "lookup_row keccak256 tree root row =
     bindR (int_of_field row ''index'') (\<lambda>index.
     bindR (int_of_field row ''amount_raw'') (\<lambda>amount.
     bindR (value_field row ''account'') (\<lambda>account.
     bindR (value_field row ''token'') (\<lambda>token.
     bindR (claim_leaf keccak256 (index, account, token, amount)) (\<lambda>leaf.
     if tree = [] \<or> length (hd tree) \<le> nat index then Inl IndexError
     else if hd tree ! nat index \<noteq> leaf then Inl (SystemExit ''leaf in the tree differs from the list'')
     else
       let nodes = tree_proof tree (nat index) in
       if \<not> tree_verify keccak256 nodes root leaf then Inl (SystemExit ''proof does not verify'')
       else
         bindR (to_checksum keccak256 token) (\<lambda>checksummed.
         bindR (value_field row ''symbol'') (\<lambda>symbol.
         bindR (value_field row ''amount'') (\<lambda>text.
           Inr \<lparr>pr_index = index, pr_token = checksummed, pr_symbol = symbol, pr_amount_raw = str_int amount, pr_amount = text,
             pr_proof = map hex0x nodes\<rparr>))))))))"

definition payee_rows :: "string \<Rightarrow> csv_row list \<Rightarrow> csv_row list result" where
  "payee_rows payee rows =
     bindR (mapM (\<lambda>r. field r ''account'') rows) (\<lambda>accounts. Inr (map fst (filter (\<lambda>(r, a). a = Some payee) (zip rows accounts))))"

definition lookup :: "(bytes \<Rightarrow> bytes) \<Rightarrow> files \<Rightarrow> string \<Rightarrow> string \<Rightarrow> lookup_result result" where
  "lookup keccak256 fs contract_dir payee =
     bindR (bindR (read_text fs (join_path contract_dir ''manifest.json'')) loads) (\<lambda>manifest.
     bindR (bindR (json_item manifest ''list_file'') json_text) (\<lambda>list_file.
     bindR (bindR (read_csv fs (join_path contract_dir list_file)) (payee_rows payee)) (\<lambda>rows.
     bindR (json_item manifest ''label'') (\<lambda>label.
     bindR (json_item manifest ''chain'') (\<lambda>chain.
     bindR (json_item manifest ''chain_id'') (\<lambda>chain_id.
     bindR (bindR (json_item manifest ''deployment'') (\<lambda>d. json_get d ''address'')) (\<lambda>address.
     bindR (json_item manifest ''root'') (\<lambda>root_text.
     bindR (to_checksum keccak256 payee) (\<lambda>account.
     let out = (\<lambda>rows. \<lparr>lr_label = label, lr_chain = chain, lr_chain_id = chain_id, lr_address = address, lr_root = root_text,
           lr_account = account, lr_rows = rows\<rparr>) in
     if rows = [] then Inr (out [])
     else
       bindR (bindR (json_item manifest ''tree_file'') json_text) (\<lambda>tree_file.
       bindR (bindR (bindR (json_item manifest ''level_sizes'') json_list) (mapM json_nat)) (\<lambda>sizes.
       bindR (read_tree fs (join_path contract_dir tree_file) sizes) (\<lambda>tree.
       bindR (bindR (json_text root_text) claim_unhex) (\<lambda>root.
       bindR (tree_root tree) (\<lambda>found.
       if found \<noteq> root then Inl (SystemExit ''tree root differs from the manifest'')
       else bindR (mapM (lookup_row keccak256 tree root) rows) (\<lambda>items. Inr (out items))))))))))))))))"

definition cast_command :: "lookup_result \<Rightarrow> string result" where
  "cast_command result =
     (let claims = join_with '','' (map (\<lambda>r. ''('' @ str_int (pr_index r) @ '','' @ lr_account result @ '','' @ pr_token r @ '','' @ pr_amount_raw r @
            '',['' @ join_with '','' (pr_proof r) @ ''])'') (lr_rows result));
          quoted_text = (\<lambda>s. CHR 0x22 # s @ [CHR 0x22])
      in bindR (json_str (lr_address result)) (\<lambda>address.
         bindR (json_str (lr_chain_id result)) (\<lambda>chain_id.
           Inr (''cast send '' @ address @ '' '' @ quoted_text CLAIM_MANY @ '' '' @ quoted_text (''['' @ claims @ '']'') @ '' --chain '' @ chain_id @
             '' --rpc-url '' @ quoted_text ''$RPC'' @ '' --account <keystore>''))))"

text \<open>\<^verbatim>\<open>main\<close>: the result, with the command when it is asked for and there are rows.\<close>

definition proof_command :: "(bytes \<Rightarrow> bytes) \<Rightarrow> files \<Rightarrow> string \<Rightarrow> string \<Rightarrow> bool \<Rightarrow> (lookup_result \<times> string option) result" where
  "proof_command keccak256 fs contract_dir payee_text cast =
     bindR (case payee_address keccak256 payee_text of Inl (InputError e) \<Rightarrow> Inl (SystemExit e) | r \<Rightarrow> r) (\<lambda>payee.
     bindR (lookup keccak256 fs contract_dir payee) (\<lambda>result.
     if lr_rows result = [] \<or> \<not> cast then Inr (result, None)
     else if json_falsy (lr_address result) then Inl (SystemExit ''the manifest has no deployment address (no funder or no bytecode)'')
     else bindR (cast_command result) (\<lambda>command. Inr (result, Some command))))"

end
