(* ===== verification/ContractTotals.thy ===== *)
theory ContractTotals
  imports BuildClaims
begin

text \<open>
  The claim contracts of a chain pay what its pools allocate: the rows of the claim list are divided among the contracts, the totals of a
  contract are those of its rows, and what its funder is asked to approve is the sum of the totals.
\<close>

section \<open>Successful programs\<close>

named_theorems proc_simps \<open>inversion of successful programs on files\<close>

lemma fromR_Inr_iff [proc_simps]: "fromR r fs = Some (fs', Inr x) \<longleftrightarrow> fs' = fs \<and> r = Inr x"
  by (auto simp: fromR_def)

lemma readP_Inr_iff [proc_simps]: "readP f fs = Some (fs', Inr x) \<longleftrightarrow> fs' = fs \<and> f fs = Inr x"
  by (auto simp: readP_def)

lemma writeP_Inr_iff [proc_simps]:
  "writeP path content fs = Some (fs', Inr sha) \<longleftrightarrow> fs (partial path) = None \<and> fs' = fs(path \<mapsto> content) \<and> sha = text_sha256 content"
  by (auto simp: writeP_def write_output_def)

lemma loopP_Inr_iff [proc_simps]: "loopP m fs = Some (fs', Inr x) \<longleftrightarrow> fs' = fs \<and> m = Some (Inr x)"
  by (auto simp: loopP_def)

lemma bindP_Inr_iff [proc_simps]: "bindP m f fs = Some (fs', Inr y) \<longleftrightarrow> (\<exists>fs1 x. m fs = Some (fs1, Inr x) \<and> f x fs1 = Some (fs', Inr y))"
proof (cases "m fs")
  case (Some p)
  obtain fs1 r where "p = (fs1, r)" by (cases p)
  with Some show ?thesis by (cases r) (auto simp: bindP_def)
qed (simp add: bindP_def)

lemma foldP_Cons_iff [proc_simps]:
  "foldP f s (x # xs) fs = Some (fs', Inr t) \<longleftrightarrow> (\<exists>fs1 s1. f s x fs = Some (fs1, Inr s1) \<and> foldP f s1 xs fs1 = Some (fs', Inr t))"
  by (simp add: proc_simps)

lemma mapM_accepts: "mapM f xs = Inr ys \<Longrightarrow> x \<in> set xs \<Longrightarrow> \<exists>y. f x = Inr y"
  by (induction xs arbitrary: ys) (auto simp: bindR_Inr_iff)

section \<open>Claimable amounts of the pools\<close>

definition pays :: "string \<Rightarrow> string \<Rightarrow> csv_row \<Rightarrow> bool" where
  "pays chain token pool \<longleftrightarrow> dict_get pool ''claim_chain'' = Some (Some chain) \<and> dict_get pool ''status'' \<noteq> Some (Some ''unsupported'') \<and>
     bindR (value_field pool ''claim_token'') token_of = Inr token"

definition pool_claimable :: "string \<Rightarrow> string \<Rightarrow> csv_row list \<Rightarrow> int" where
  "pool_claimable chain token pools = sum_list (map (\<lambda>p. case int_or_zero_field p ''claimable_raw'' of Inr n \<Rightarrow> n | Inl _ \<Rightarrow> 0) (filter (pays chain token) pools))"

abbreviation claimable_in :: "(string, asset) dict \<Rightarrow> string \<Rightarrow> int" where
  "claimable_in table token \<equiv> (case dict_get table token of None \<Rightarrow> 0 | Some e \<Rightarrow> as_claimable e)"

lemma field_dict: "field r name = Inr v \<longleftrightarrow> dict_get r name = Some v"
  by (auto simp: field_def of_option_Inr_iff)

lemma add_asset_cases:
  assumes "add_asset chain table pool = Inr table'"
  obtains (skip) "\<And>t. \<not> pays chain t pool" "table' = table"
  | (pay) token n e where "pays chain token pool" "int_or_zero_field pool ''claimable_raw'' = Inr n" "table' = dict_set token e table"
      "as_claimable e = claimable_in table token + n"
proof -
  obtain c where c: "dict_get pool ''claim_chain'' = Some c" using assms by (auto simp: add_asset_def bindR_Inr_iff field_dict)
  show ?thesis
  proof (cases "c = Some chain")
    case False
    then show ?thesis using assms c by (intro skip) (simp_all add: add_asset_def field_def pays_def)
  next
    case True
    then obtain st where st: "dict_get pool ''status'' = Some st" using assms c by (auto simp: add_asset_def bindR_Inr_iff field_def of_option_Inr_iff)
    show ?thesis
    proof (cases "st = Some ''unsupported''")
      case unsupported: True
      then show ?thesis using assms c st True by (intro skip) (simp_all add: add_asset_def field_def pays_def)
    next
      case False
      with assms c st True obtain token n e where t: "bindR (value_field pool ''claim_token'') token_of = Inr token"
          "int_or_zero_field pool ''claimable_raw'' = Inr n" "table' = dict_set token e table" "as_claimable e = claimable_in table token + n"
        by (auto simp: add_asset_def bindR_Inr_iff field_def [of pool "''claim_chain''"] field_def [of pool "''status''"] Let_def split: if_splits option.splits)
      then show ?thesis using c st True False by (intro pay [of token n e]) (auto simp: pays_def)
    qed
  qed
qed

lemma pays_unique: "pays chain t pool \<Longrightarrow> pays chain t' pool \<longleftrightarrow> t' = t"
  by (auto simp: pays_def)

lemma add_asset_step:
  assumes "add_asset chain table pool = Inr table'"
  shows "claimable_in table' token = claimable_in table token + pool_claimable chain token [pool]"
    "distinct (dict_keys table) \<Longrightarrow> distinct (dict_keys table')"
  by (rule add_asset_cases [OF assms]; auto simp: pool_claimable_def distinct_dict_set pays_unique)+

lemma asset_table_claimable:
  assumes "asset_table pools chain = Inr assets"
  shows "claimable_in assets token = pool_claimable chain token pools" "distinct (dict_keys assets)"
proof -
  have add: "pool_claimable chain token (seen @ [p]) = pool_claimable chain token seen + pool_claimable chain token [p]" for seen p
    by (simp add: pool_claimable_def)
  have "claimable_in assets token = pool_claimable chain token pools \<and> distinct (dict_keys assets)"
    using assms unfolding asset_table_def
    by (rule foldM_invariant [where I = "\<lambda>seen t. claimable_in t token = pool_claimable chain token seen \<and> distinct (dict_keys t)"])
      (use add_asset_step in \<open>auto simp: add pool_claimable_def [of _ _ "[]"]\<close>)
  then show "claimable_in assets token = pool_claimable chain token pools" "distinct (dict_keys assets)" by auto
qed

section \<open>Rows of the claim list\<close>

definition listed_key :: "listed_claim \<Rightarrow> string \<times> string" where
  "listed_key r = (cr_account r, cr_token r)"

definition token_total :: "string \<Rightarrow> listed_claim list \<Rightarrow> int" where
  "token_total token rows = sum_list (map cr_amount (filter (\<lambda>r. cr_token r = token) rows))"

lemma token_total_append [simp]: "token_total token (xs @ ys) = token_total token xs + token_total token ys"
  by (simp add: token_total_def)

lemma read_claims_rows:
  assumes "read_claims fs path assets = Inr rows"
  shows "distinct (map listed_key rows)" "\<forall>r \<in> set rows. 0 < cr_amount r \<and> cr_amount r < 2 ^ 256 \<and> dict_get assets (cr_token r) \<noteq> None"
proof -
  obtain raw where "foldM (add_listed_claim assets) [] raw = Inr rows" using assms by (auto simp: read_claims_def bindR_Inr_iff)
  then have "distinct (map listed_key rows) \<and> (\<forall>r \<in> set rows. 0 < cr_amount r \<and> cr_amount r < 2 ^ 256 \<and> dict_get assets (cr_token r) \<noteq> None)"
    by (rule foldM_keeps) (auto simp: add_listed_claim_def bindR_Inr_iff listed_key_def split: if_splits)
  then show "distinct (map listed_key rows)" "\<forall>r \<in> set rows. 0 < cr_amount r \<and> cr_amount r < 2 ^ 256 \<and> dict_get assets (cr_token r) \<noteq> None"
    by auto
qed

lemma claim_totals_token: "get_amount (claim_totals rows) token = token_total token rows"
proof -
  have "get_amount (foldl (\<lambda>t r. add_amount (cr_token r) (cr_amount r) t) d rows) token = get_amount d token + token_total token rows" for d
    by (induction rows arbitrary: d) (auto simp: add_amount_def get_amount_def token_total_def)
  from this [of "[]"] show ?thesis by (simp add: claim_totals_def get_amount_def)
qed

lemma chain_totals_claimable:
  assumes "check_chain_totals rows assets = Inr u" "distinct (dict_keys assets)" "\<forall>r \<in> set rows. dict_get assets (cr_token r) \<noteq> None"
  shows "token_total token rows = claimable_in assets token"
proof (cases "dict_get assets token")
  case None
  then have "filter (\<lambda>r. cr_token r = token) rows = []" using assms(3) by (auto simp: filter_empty_conv)
  then show ?thesis using None by (simp add: token_total_def)
next
  case (Some e)
  then have "(token, e) \<in> set assets" by (rule map_of_SomeD)
  then have "get_amount (claim_totals rows) token = as_claimable e"
    using assms(1) by (auto simp: check_chain_totals_def bindR_Inr_iff simp del: mapM_Inr_iff dest: mapM_accepts split: if_splits)
  then show ?thesis using Some by (simp add: claim_totals_token)
qed

section \<open>Contracts divide the rows\<close>

lemma mset_filters: "mset (filter P xs @ filter (\<lambda>x. \<not> P x) xs) = mset xs"
  by simp

lemma contract_groups_cases:
  assumes "contract_groups config chain rows = Inr gs"
  obtains (one) f where "gs = [\<lparr>cg_label = chain, cg_funder = f, cg_source = ''custody_multisig'', cg_rows = rows\<rparr>]"
  | (two) t f f' src where "gs = filter (\<lambda>g. cg_rows g \<noteq> [])
      [\<lparr>cg_label = chain, cg_funder = f, cg_source = ''custody_multisig'', cg_rows = filter (\<lambda>r. JStr (cr_token r) \<noteq> t) rows\<rparr>,
       \<lparr>cg_label = chain @ ''-one'', cg_funder = f', cg_source = src, cg_rows = filter (\<lambda>r. JStr (cr_token r) = t) rows\<rparr>]"
proof -
  obtain custody one one_funder claim_chain where c:
    "(if claim_chain = JStr chain \<and> one_funder \<noteq> custody then
       bindR (json_item one ''claim_token'') (\<lambda>claim_token.
       bindR (json_get one ''custody_multisig'') (\<lambda>own.
       let one_rows = filter (\<lambda>r. JStr (cr_token r) = claim_token) rows; rest = filter (\<lambda>r. JStr (cr_token r) \<noteq> claim_token) rows;
           source = (if json_falsy own then ''custody_multisig'' else ''one_claims.custody_multisig'');
           groups = (if rest = [] then [] else [\<lparr>cg_label = chain, cg_funder = custody, cg_source = ''custody_multisig'', cg_rows = rest\<rparr>]) @
             [\<lparr>cg_label = chain @ ''-one'', cg_funder = one_funder, cg_source = source, cg_rows = one_rows\<rparr>]
       in Inr (filter (\<lambda>g. cg_rows g \<noteq> []) groups)))
     else Inr [\<lparr>cg_label = chain, cg_funder = custody, cg_source = ''custody_multisig'', cg_rows = rows\<rparr>]) = Inr gs"
    using assms unfolding contract_groups_def bindR_Inr_iff by blast
  show ?thesis
  proof (cases "claim_chain = JStr chain \<and> one_funder \<noteq> custody")
    case False
    show ?thesis using c unfolding if_not_P [OF False] by (intro one [of custody]) simp
  next
    case True
    then obtain t own where "gs = filter (\<lambda>g. cg_rows g \<noteq> []) ((if filter (\<lambda>r. JStr (cr_token r) \<noteq> t) rows = [] then []
        else [\<lparr>cg_label = chain, cg_funder = custody, cg_source = ''custody_multisig'', cg_rows = filter (\<lambda>r. JStr (cr_token r) \<noteq> t) rows\<rparr>]) @
        [\<lparr>cg_label = chain @ ''-one'', cg_funder = one_funder, cg_source = (if json_falsy own then ''custody_multisig'' else ''one_claims.custody_multisig''),
          cg_rows = filter (\<lambda>r. JStr (cr_token r) = t) rows\<rparr>])"
      using c unfolding if_P [OF True] bindR_Inr_iff Let_def by blast
    then show ?thesis by (intro two [of custody t one_funder "if json_falsy own then ''custody_multisig'' else ''one_claims.custody_multisig''"]) simp
  qed
qed

lemma mset_concat_rows: "mset (concat (map cg_rows (filter (\<lambda>g. cg_rows g \<noteq> []) gs))) = mset (concat (map cg_rows gs))"
  by (induction gs) auto

lemma contract_groups_rows:
  assumes "contract_groups config chain rows = Inr gs"
  shows "mset (concat (map cg_rows gs)) = mset rows" "distinct (map cg_label gs)"
proof -
  have "mset (concat (map cg_rows gs)) = mset rows \<and> distinct (map cg_label gs)"
    using assms
  proof (cases rule: contract_groups_cases)
    case (two t f f' src)
    have "mset (filter (\<lambda>r. JStr (cr_token r) \<noteq> t) rows) + mset (filter (\<lambda>r. JStr (cr_token r) = t) rows) = mset rows"
      using mset_filters [of "\<lambda>r. JStr (cr_token r) = t" rows] by simp
    moreover have "distinct (map cg_label gs)" unfolding two by (rule distinct_map_filter) simp
    ultimately show ?thesis unfolding two mset_concat_rows by simp
  qed simp
  then show "mset (concat (map cg_rows gs)) = mset rows" "distinct (map cg_label gs)" by blast+
qed

section \<open>Totals of a contract\<close>

lemma per_asset_entry:
  "dict_get (per_asset rows) token =
     (if token \<in> cr_token ` set rows then Some (int (length (filter (\<lambda>r. cr_token r = token) rows)), token_total token rows) else None)"
proof (induction rows rule: rev_induct)
  case (snoc r rows)
  have "filter (\<lambda>x. cr_token x = t) rows = []" if "t \<notin> cr_token ` set rows" for t using that by (auto simp: filter_empty_conv)
  with snoc show ?case by (auto simp: per_asset_def token_total_def Let_def split: if_splits)
qed (simp add: per_asset_def)

lemma per_asset_keys: "distinct (dict_keys (per_asset rows))" "set (dict_keys (per_asset rows)) = cr_token ` set rows"
  by (induction rows rule: rev_induct) (auto simp: per_asset_def Let_def distinct_dict_set)

definition sum_by :: "('a \<Rightarrow> 'k) \<Rightarrow> ('a \<Rightarrow> int) \<Rightarrow> 'a list \<Rightarrow> 'k \<Rightarrow> int" where
  "sum_by key amount xs k = sum_list (map amount (filter (\<lambda>x. key x = k) xs))"

abbreviation approved_in :: "(string option, approval) dict \<Rightarrow> string option \<Rightarrow> int" where
  "approved_in d token \<equiv> (case dict_get d token of None \<Rightarrow> 0 | Some a \<Rightarrow> ap_amount a)"

definition totals_ok :: "string option \<Rightarrow> listed_claim list \<Rightarrow> string list \<Rightarrow> asset_total list \<times> (string option, approval) dict \<Rightarrow> bool" where
  "totals_ok wrapped rows seen st \<longleftrightarrow> map at_token (fst st) = seen \<and> distinct (dict_keys (snd st)) \<and>
     (\<forall>a \<in> set (fst st). at_total a = token_total (at_token a) rows \<and> at_approve a = (if at_token a = NATIVE_TOKEN then wrapped else Some (at_token a))) \<and>
     (\<forall>t. approved_in (snd st) t = sum_by at_approve at_total (fst st) t)"

lemma approved_add:
  "approved_in (add_approval tok native info amount funds d) t = approved_in d t + (if t = tok then amount else 0)"
  "distinct (dict_keys d) \<Longrightarrow> distinct (dict_keys (add_approval tok native info amount funds d))"
  by (auto simp: add_approval_def Let_def distinct_dict_set split: option.splits)

lemma add_total_ok:
  assumes "totals_ok wrapped rows seen st" "token \<in> cr_token ` set rows" "add_total assets wrapped sources (per_asset rows) st token = Inr st'"
  shows "totals_ok wrapped rows (seen @ [token]) st'"
proof -
  let ?tok = "if token = NATIVE_TOKEN then wrapped else Some token"
  obtain a native info funds where st': "st' = (fst st @ [a], add_approval ?tok native info (token_total token rows) funds (snd st))"
    and a: "at_token a = token" "at_total a = token_total token rows" "at_approve a = ?tok"
    using assms(2, 3) by (auto simp: add_total_def bindR_Inr_iff of_option_Inr_iff per_asset_entry Let_def)
  have "approved_in (snd st') t = sum_by at_approve at_total (fst st') t" for t
    using assms(1) unfolding st' snd_conv fst_conv approved_add(1) by (simp add: totals_ok_def sum_by_def a(2, 3))
  moreover have "distinct (dict_keys (snd st'))" using assms(1) approved_add(2) by (simp add: st' totals_ok_def)
  ultimately show ?thesis using assms(1) a by (simp add: totals_ok_def) (simp add: st')
qed

lemma sum_by_dict:
  assumes "distinct (dict_keys d)"
  shows "sum_by fst (\<lambda>x. f (snd x)) d t = (case dict_get d t of None \<Rightarrow> 0 | Some v \<Rightarrow> f v)"
  using assms
proof (induction d)
  case (Cons p d)
  then have "dict_get d (fst p) = None" by (simp add: map_of_eq_None_iff)
  with Cons show ?case by (cases p) (auto simp: sum_by_def)
qed (simp add: sum_by_def)

lemma asset_totals_ok:
  assumes "asset_totals assets wrapped sources rows = Inr (asset_list, approvals)"
  shows "distinct (map at_token asset_list)" "set (map at_token asset_list) = cr_token ` set rows"
    "\<And>a. a \<in> set asset_list \<Longrightarrow> at_total a = token_total (at_token a) rows \<and> at_approve a = (if at_token a = NATIVE_TOKEN then wrapped else Some (at_token a))"
    "distinct (map fst approvals)" "sum_by fst (\<lambda>x. ap_amount (fst (snd x))) approvals t = sum_by at_approve at_total asset_list t"
proof -
  let ?keys = "sort_key (symbol_key assets) (dict_keys (per_asset rows))"
  obtain d where d: "foldM (add_total assets wrapped sources (per_asset rows)) ([], []) ?keys = Inr (asset_list, d)"
    and ap: "mapM (\<lambda>(token, a). bindR (format_amount (ap_amount a) (ap_decimals a)) (\<lambda>text. Inr (token, a, text))) d = Inr approvals"
    using assms by (auto simp: asset_totals_def bindR_Inr_iff Let_def simp del: mapM_Inr_iff)
  have keys: "set ?keys = cr_token ` set rows" "distinct ?keys" using per_asset_keys [of rows] by simp_all
  have "totals_ok wrapped rows ?keys (asset_list, d)"
  proof (rule foldM_invariant [OF d])
    show "totals_ok wrapped rows [] ([], [])" by (simp add: totals_ok_def sum_by_def)
  qed (use keys(1) in \<open>blast intro: add_total_ok\<close>)
  then have ok: "map at_token asset_list = ?keys" "distinct (dict_keys d)" "approved_in d t = sum_by at_approve at_total asset_list t"
    "\<And>a. a \<in> set asset_list \<Longrightarrow> at_total a = token_total (at_token a) rows \<and> at_approve a = (if at_token a = NATIVE_TOKEN then wrapped else Some (at_token a))"
    by (simp_all add: totals_ok_def)
  then show "distinct (map at_token asset_list)" "set (map at_token asset_list) = cr_token ` set rows" using keys by simp_all
  show "\<And>a. a \<in> set asset_list \<Longrightarrow> at_total a = token_total (at_token a) rows \<and> at_approve a = (if at_token a = NATIVE_TOKEN then wrapped else Some (at_token a))"
    by (rule ok(4))
  have "list_all2 (\<lambda>p q. fst q = fst p \<and> fst (snd q) = snd p) d approvals"
    using ap unfolding mapM_Inr_iff by (rule list_all2_mono) (auto simp: bindR_Inr_iff)
  then have fsts: "map fst approvals = map fst d" "map (\<lambda>x. (fst x, fst (snd x))) approvals = d"
    by (induction rule: list_all2_induct) auto
  then show "distinct (map fst approvals)" using ok(2) by simp
  have "sum_by fst (\<lambda>x. ap_amount (fst (snd x))) approvals t = sum_by fst (\<lambda>x. ap_amount (snd x)) d t"
    unfolding fsts(2) [symmetric] by (simp add: sum_by_def filter_map o_def)
  also have "\<dots> = approved_in d t" using sum_by_dict [OF ok(2), of ap_amount] .
  finally show "sum_by fst (\<lambda>x. ap_amount (fst (snd x))) approvals t = sum_by at_approve at_total asset_list t" using ok(3) by simp
qed

section \<open>The contracts of a chain\<close>

lemma write_tree_Inr_iff [proc_simps]:
  "write_tree fs path levels = (fs', Inr u) \<longleftrightarrow> fs (partial path) = None \<and> fs' = fs(path \<mapsto> tree_text levels)"
  by (auto simp: write_tree_def)

lemma build_group_Inr:
  assumes "build_group keccak256 started args constants chain g assets compiled sources fs = Some (fs', Inr m)"
  obtains list_rows leaf_list tree samples where
    "cm_rows m = sort_key listed_key (cg_rows g)" "cm_label m = cg_label g" "cm_funder m = cg_funder g"
    "mapM (list_row assets) (enumerate 0 (cm_rows m)) = Inr list_rows"
    "claim_leaves keccak256 started (bg_workers args) (leaf_rows (cm_rows m)) = Inr leaf_list"
    "claim_levels keccak256 started (bg_workers args) leaf_list = Some (Inr tree)" "tree_root tree = Inr (cm_root m)"
    "cm_level_sizes m = map length tree" "asset_totals assets (cm_wrapped m) sources (cm_rows m) = Inr (cm_assets m, cm_approvals m)"
    "NATIVE_TOKEN \<notin> cr_token ` set (cm_rows m) \<or> cm_wrapped m \<noteq> None"
    "fs' = fs(join_path (join_path (bg_output_dir args) (cg_label g)) ''claims.csv'' \<mapsto> csv_text (LIST_FIELDS # list_rows),
      join_path (join_path (bg_output_dir args) (cg_label g)) ''tree.txt'' \<mapsto> tree_text tree,
      join_path (join_path (bg_output_dir args) (cg_label g)) ''samples.json'' \<mapsto> json_file 2 samples,
      join_path (join_path (bg_output_dir args) (cg_label g)) ''manifest.json'' \<mapsto> json_file 2 (manifest_json m))"
proof -
  have key: "(\<lambda>r. (cr_account r, cr_token r)) = listed_key" by (simp add: listed_key_def fun_eq_iff)
  have native: "\<not> list_ex (\<lambda>r. cr_token r = NATIVE_TOKEN) rows \<or> P \<longleftrightarrow> NATIVE_TOKEN \<notin> cr_token ` set rows \<or> P" for rows P
    by (auto simp: list_ex_iff image_iff)
  show ?thesis
    using assms unfolding build_group_def Let_def key bindP_Inr_iff fromR_Inr_iff readP_Inr_iff writeP_Inr_iff loopP_Inr_iff require_Inr_iff de_Morgan_conj native
    by (auto simp: proc_simps split: prod.splits intro!: that)
qed

definition contract_total :: "contract_manifest \<Rightarrow> string \<Rightarrow> int" where
  "contract_total m token = sum_by at_token at_total (cm_assets m) token"

definition approved :: "contract_manifest \<Rightarrow> string \<Rightarrow> int" where
  "approved m token = sum_by fst (\<lambda>x. ap_amount (fst (snd x))) (cm_approvals m) (Some token)"

text \<open>A contract whose totals are those of its rows and whose funder approves, per token to be paid from, what the rows take from it. Native rows
  are paid from the wrapped coin.\<close>

definition approve_of :: "contract_manifest \<Rightarrow> listed_claim \<Rightarrow> string option" where
  "approve_of m r = (if cr_token r = NATIVE_TOKEN then cm_wrapped m else Some (cr_token r))"

definition contract_covered :: "contract_manifest \<Rightarrow> bool" where
  "contract_covered m \<longleftrightarrow> (\<forall>token. contract_total m token = token_total token (cm_rows m)) \<and>
     (\<forall>token. approved m token = sum_by (approve_of m) cr_amount (cm_rows m) (Some token)) \<and> (\<forall>r \<in> set (cm_rows m). approve_of m r \<noteq> None)"

lemma sum_by_distinct:
  assumes "distinct (map key xs)" "\<And>x. x \<in> set xs \<Longrightarrow> f x = F (key x)"
  shows "sum_by key f xs k = (if k \<in> key ` set xs then F k else 0)"
  using assms by (induction xs) (auto simp: sum_by_def filter_empty_conv)

lemma sum_by_tokens:
  assumes "distinct toks" "cr_token ` set rows \<subseteq> set toks"
  shows "sum_list (map (\<lambda>tok. token_total tok rows) (filter (\<lambda>tok. A tok = k) toks)) = sum_by (\<lambda>r. A (cr_token r)) cr_amount rows k"
proof -
  let ?rows = "filter (\<lambda>r. A (cr_token r) = k) rows" and ?toks = "filter (\<lambda>tok. A tok = k) toks"
  have "token_total tok rows = sum_list (map cr_amount (filter (\<lambda>r. cr_token r = tok) ?rows))" if "tok \<in> set ?toks" for tok
    using that unfolding token_total_def filter_filter by (intro arg_cong [where f = sum_list] map_cong filter_cong) auto
  then have "map (\<lambda>tok. token_total tok rows) ?toks = map (\<lambda>tok. sum_list (map cr_amount (filter (\<lambda>r. cr_token r = tok) ?rows))) ?toks"
    by (intro map_cong refl)
  moreover have "sum_list (map (\<lambda>tok. sum_list (map cr_amount (filter (\<lambda>r. cr_token r = tok) ?rows))) ?toks) = sum_list (map cr_amount ?rows)"
    using assms by (intro sum_list_groups) auto
  ultimately show ?thesis by (simp only: sum_by_def)
qed

lemma build_group_covered:
  assumes "build_group keccak256 started args constants chain g assets compiled sources fs = Some (fs', Inr m)"
  shows "contract_covered m"
  using assms
proof (cases rule: build_group_Inr)
  case (1 list_rows leaf_list tree samples)
  let ?rows = "cm_rows m" and ?A = "\<lambda>tok. if tok = NATIVE_TOKEN then cm_wrapped m else Some tok"
  note ok = asset_totals_ok [OF 1(9)]
  have total: "contract_total m token = token_total token ?rows" for token
  proof -
    have "contract_total m token = (if token \<in> at_token ` set (cm_assets m) then token_total token ?rows else 0)"
      unfolding contract_total_def using ok(1, 3) by (intro sum_by_distinct) auto
    moreover have "token_total token ?rows = 0" if "token \<notin> cr_token ` set ?rows"
    proof -
      have "filter (\<lambda>r. cr_token r = token) ?rows = []" using that by (auto simp: filter_empty_conv)
      then show ?thesis by (simp add: token_total_def)
    qed
    ultimately show ?thesis using ok(2) by auto
  qed
  have "sum_by at_approve at_total (cm_assets m) k = sum_list (map (\<lambda>tok. token_total tok ?rows) (filter (\<lambda>tok. ?A tok = k) (map at_token (cm_assets m))))" for k
    using ok(3) unfolding sum_by_def filter_map map_map by (intro arg_cong [where f = sum_list] map_cong filter_cong) auto
  then have "approved m token = sum_by (approve_of m) cr_amount ?rows (Some token)" for token
    using sum_by_tokens [of "map at_token (cm_assets m)" ?rows ?A] ok(1, 2, 5) by (simp add: approved_def approve_of_def [abs_def])
  moreover have "\<forall>r \<in> set ?rows. approve_of m r \<noteq> None" using 1(10) by (auto simp: approve_of_def image_iff)
  ultimately show ?thesis using total by (simp add: contract_covered_def)
qed

lemma build_groups_manifests:
  assumes "foldP (\<lambda>st g. bindP (build_group keccak256 started args constants chain (override_funder overrides g) assets compiled sources)
      (\<lambda>m. fromR (Inr (st\<lparr>bs_manifests := bs_manifests st @ [m], bs_labels := bs_labels st @ [cg_label g]\<rparr>)))) st gs fs = Some (fs', Inr st')"
  shows "\<exists>new. bs_manifests st' = bs_manifests st @ new \<and>
    list_all2 (\<lambda>g m. contract_covered m \<and> cm_label m = cg_label g \<and> cm_rows m = sort_key listed_key (cg_rows g)) gs new"
  using assms
proof (induction gs arbitrary: st fs)
  case (Cons g gs)
  then obtain m fs1 where m: "build_group keccak256 started args constants chain (override_funder overrides g) assets compiled sources fs = Some (fs1, Inr m)"
    and rest: "\<exists>new. bs_manifests st' = (bs_manifests st @ [m]) @ new \<and>
      list_all2 (\<lambda>g m. contract_covered m \<and> cm_label m = cg_label g \<and> cm_rows m = sort_key listed_key (cg_rows g)) gs new"
    by (fastforce simp: proc_simps)
  have "cg_label (override_funder overrides g) = cg_label g" "cg_rows (override_funder overrides g) = cg_rows g"
    by (simp_all add: override_funder_def split: option.splits)
  then have "contract_covered m \<and> cm_label m = cg_label g \<and> cm_rows m = sort_key listed_key (cg_rows g)"
    using build_group_covered [OF m] build_group_Inr [OF m, of "cm_label m = cg_label g \<and> cm_rows m = sort_key listed_key (cg_rows g)"] by simp
  with rest show ?case by auto
qed (simp add: proc_simps)

lemma token_total_mset: "mset xs = mset ys \<Longrightarrow> token_total token xs = token_total token ys"
  unfolding token_total_def by (intro sum_list_map_mset) (metis mset_filter)

lemma built_rows:
  assumes "list_all2 (\<lambda>g m. contract_covered m \<and> cm_label m = cg_label g \<and> cm_rows m = sort_key listed_key (cg_rows g)) gs new"
  shows "mset (concat (map cm_rows new)) = mset (concat (map cg_rows gs))" "map cm_label new = map cg_label gs" "\<forall>m \<in> set new. contract_covered m"
    "sum_list (map (\<lambda>m. contract_total m token) new) = token_total token (concat (map cm_rows new))"
  using assms by (induction rule: list_all2_induct) (auto simp: contract_covered_def token_total_def)

lemma build_chain_Inr:
  assumes "build_chain keccak256 started args config constants summary pools overrides compiled sources st chain fs = Some (fs', Inr st')"
  obtains assets rows u gs inputs where "asset_table pools chain = Inr assets"
      "read_claims fs (join_path (bg_allocations_dir args) (''claims/'' @ chain @ ''.csv'')) assets = Inr rows" "check_chain_totals rows assets = Inr u"
      "contract_groups config chain rows = Inr gs"
      "foldP (\<lambda>st g. bindP (build_group keccak256 started args constants chain (override_funder overrides g) assets compiled sources)
        (\<lambda>m. fromR (Inr (st\<lparr>bs_manifests := bs_manifests st @ [m], bs_labels := bs_labels st @ [cg_label g]\<rparr>)))) (st\<lparr>bs_inputs := inputs\<rparr>) gs fs = Some (fs', Inr st')"
  using assms unfolding build_chain_def Let_def bindP_Inr_iff [of "fromR m" for m] bindP_Inr_iff [of "readP m" for m] fromR_Inr_iff readP_Inr_iff
  by (elim exE conjE) (simp only: that)

text \<open>C14. The contracts of a chain pay what its pools allocate. When the tool has processed a chain, the rows of its new contracts have every payee and
  token at most once, and for every token their totals add up to the claimable amounts of the pools that pay this token on this chain; the
  totals of each contract are those of its rows, and its funder is asked to approve, for every token, exactly what the rows take from it, the wrapped
  coin standing in for the native one. The contracts have different labels.\<close>

theorem contracts_pay_pools:
  assumes "build_chain keccak256 started args config constants summary pools overrides compiled sources st chain fs = Some (fs', Inr st')"
  shows "\<exists>new. bs_manifests st' = bs_manifests st @ new \<and> distinct (map cm_label new) \<and> distinct (map listed_key (concat (map cm_rows new))) \<and>
    (\<forall>token. sum_list (map (\<lambda>m. contract_total m token) new) = pool_claimable chain token pools) \<and> (\<forall>m \<in> set new. contract_covered m)"
proof -
  from assms obtain assets rows u gs inputs where run: "asset_table pools chain = Inr assets"
      "read_claims fs (join_path (bg_allocations_dir args) (''claims/'' @ chain @ ''.csv'')) assets = Inr rows" "check_chain_totals rows assets = Inr u"
      "contract_groups config chain rows = Inr gs" and
      loop: "foldP (\<lambda>st g. bindP (build_group keccak256 started args constants chain (override_funder overrides g) assets compiled sources)
        (\<lambda>m. fromR (Inr (st\<lparr>bs_manifests := bs_manifests st @ [m], bs_labels := bs_labels st @ [cg_label g]\<rparr>)))) (st\<lparr>bs_inputs := inputs\<rparr>) gs fs = Some (fs', Inr st')"
    by (rule build_chain_Inr)
  obtain new where new: "bs_manifests st' = bs_manifests st @ new"
      "list_all2 (\<lambda>g m. contract_covered m \<and> cm_label m = cg_label g \<and> cm_rows m = sort_key listed_key (cg_rows g)) gs new"
    using build_groups_manifests [OF loop] by auto
  note built = built_rows [OF new(2)] and groups = contract_groups_rows [OF run(4)]
  have rows: "mset (concat (map cm_rows new)) = mset rows" using built(1) groups(1) by simp
  have "distinct (map listed_key (concat (map cm_rows new)))"
    using read_claims_rows(1) [OF run(2)] rows by (metis mset_eq_imp_distinct_iff mset_map)
  moreover have "sum_list (map (\<lambda>m. contract_total m token) new) = pool_claimable chain token pools" for token
    using built(4) [of token] token_total_mset [OF rows, of token] chain_totals_claimable [OF run(3) asset_table_claimable(2) [OF run(1)], of token]
      read_claims_rows(2) [OF run(2)] asset_table_claimable(1) [OF run(1), of token] by simp
  ultimately show ?thesis using new(1) built(2, 3) groups(2) by (intro exI [of _ new]) simp
qed

section \<open>A chain with one row\<close>

definition eth_account :: string where "eth_account = ''0x00000000000000000000000000000000000000a1''"

definition eth_token :: string where "eth_token = ''0x00000000000000000000000000000000000000b2''"

definition eth_pools :: "csv_row list" where
  "eth_pools = [[(''pool_id'', Some ''p1''), (''claim_chain'', Some ''eth''), (''claim_token'', Some eth_token), (''symbol'', Some ''USD''),
     (''decimals'', Some ''6''), (''status'', Some ''ready''), (''claimable_raw'', Some ''1500000'')]]"

definition eth_assets :: "(string, asset) dict" where
  "eth_assets = [(eth_token, \<lparr>as_symbol = ''USD'', as_decimals = 6, as_pools = [''p1''], as_claimable = 1500000\<rparr>)]"

definition eth_list :: string where
  "eth_list = ''account,token,amount_raw,pools'' @ [LF] @ eth_account @ '','' @ eth_token @ '',1500000,p1'' @ [LF]"

definition eth_claim :: listed_claim where
  "eth_claim = \<lparr>cr_account = eth_account, cr_token = eth_token, cr_amount = 1500000, cr_pools = ''p1''\<rparr>"

definition eth_args :: build_claims_args where
  "eth_args = \<lparr>bg_chains_file = ''c'', bg_allocations_dir = ''a'', bg_output_dir = ''o'', bg_bytecode = [], bg_funder = [], bg_chains = [],
     bg_workers = 1, bg_replace = False\<rparr>"

definition eth_config :: json where
  "eth_config = JObj [(''chains'', JObj [(''eth'', JObj [(''chain_id'', JInt 1)])]),
     (''one_claims'', JObj [(''claim_chain'', JStr ''bsc''), (''custody_multisig'', JStr eth_account)])]"

definition eth_constants :: json where
  "eth_constants = JObj [(''chains'', JObj [(''eth'', JObj [(''chain_id'', JInt 1), (''wrapped_native'', JNull)])]),
     (''salt'', JStr ''0x00''), (''create2_deployer'', JStr eth_account)]"

definition eth_summary :: json where
  "eth_summary = JObj [(''claim_lists'', JArr [JStr ''eth'']), (''outputs'', JObj [(''claims/eth.csv'', JStr (text_sha256 eth_list))])]"

definition eth_hash :: "bytes \<Rightarrow> bytes" where
  "eth_hash d = replicate 32 7"

lemma eth_asset_table: "asset_table eth_pools ''eth'' = Inr eth_assets" by code_simp

lemma eth_read: "read_claims [''a/claims/eth.csv'' \<mapsto> eth_list] ''a/claims/eth.csv'' eth_assets = Inr [eth_claim]"
proof -
  have "foldM (add_listed_claim eth_assets) [] (dict_reader eth_list) = Inr [eth_claim]" by code_simp
  then show ?thesis by (simp add: read_claims_def read_csv_def read_text_def)
qed

lemma eth_groups: "contract_groups eth_config ''eth'' [eth_claim] =
    Inr [\<lparr>cg_label = ''eth'', cg_funder = None, cg_source = ''custody_multisig'', cg_rows = [eth_claim]\<rparr>]" by code_simp

lemma eth_row: "list_row eth_assets (0, eth_claim) = Inr [''0'', eth_account, eth_token, ''USD'', ''1500000'', ''1.5'', ''p1'']"
  by code_simp

lemma eth_leaf: "claim_leaf eth_hash (0, eth_account, eth_token, 1500000) = Inr (replicate 32 7)"
proof -
  have "address_int eth_account = Inr 161" "address_int eth_token = Inr 178" by code_simp+
  then show ?thesis by (simp add: claim_leaf_def encode_row_def claim_word_def eth_hash_def)
qed

lemma eth_tuple: "leaf_rows [eth_claim] = [(0, eth_account, eth_token, 1500000)]"
  by (simp add: leaf_rows_def eth_claim_def)

lemma eth_leaves: "claim_leaves eth_hash False 1 (leaf_rows [eth_claim]) = Inr [replicate 32 7]"
  by (simp add: claim_leaves_def has_pool_def eth_tuple eth_leaf del: mapM_Inr_iff)

lemma eth_levels: "claim_levels eth_hash False 1 [replicate 32 7] = Some (Inr [[replicate 32 7]])"
  by (simp add: claim_levels_def levels_loop.simps)

lemma eth_checks: "mapM (check_sample eth_hash [[replicate 32 7]] (replicate 32 7) (leaf_rows [eth_claim])) (sample_indices (Suc 0)) = Inr [()]"
proof -
  have "sample_indices (Suc 0) = [0]" by code_simp
  moreover have "tree_proof [[replicate 32 7 :: byte list]] 0 = []" by (simp add: tree_proof_def)
  ultimately show ?thesis by (simp add: check_sample_def eth_tuple eth_leaf tree_verify_def)
qed

lemma eth_totals: "asset_totals eth_assets None [] [eth_claim] =
  Inr ([\<lparr>at_token = eth_token, at_symbol = ''USD'', at_decimals = 6, at_pools = [''p1''], at_rows = 1, at_total = 1500000, at_total_text = ''1.5'',
      at_approve = Some eth_token\<rparr>],
    [(Some eth_token, \<lparr>ap_symbol = ''USD'', ap_decimals = 6, ap_amount = 1500000, ap_covers = [''USD''], ap_sources = []\<rparr>, ''1.5'')])"
  by code_simp

lemma eth_samples: "\<exists>x. samples_json ''eth'' (replicate 32 7) eth_assets [eth_claim] [[replicate 32 7]] = Inr x"
proof -
  have "sort (dict_values (first_rows [eth_claim])) = [0]" by (simp add: first_rows_def setdefaults_def setdefault_def)
  moreover have "dict_get eth_assets (cr_token eth_claim) \<noteq> None" by code_simp
  ultimately show ?thesis by (auto simp: samples_json_def)
qed

definition eth_group :: contract_group where
  "eth_group = \<lparr>cg_label = ''eth'', cg_funder = None, cg_source = ''custody_multisig'', cg_rows = [eth_claim]\<rparr>"

lemma eth_paths: "join_path (join_path ''o'' ''eth'') f = ''o/eth/'' @ f" if "f \<in> {''claims.csv'', ''tree.txt'', ''samples.json'', ''manifest.json''}"
  using that by (auto simp: join_path_def startswith_def)

lemma eth_constants_items:
  "bindR (json_item eth_constants ''chains'') (\<lambda>cs. json_item cs ''eth'') = Inr (JObj [(''chain_id'', JInt 1), (''wrapped_native'', JNull)])"
  "json_item eth_constants ''salt'' = Inr (JStr ''0x00'')"
  "bindR (bindR (json_item eth_constants ''create2_deployer'') json_text) bridge_address = Inr eth_account"
  "bindR (json_get (JObj [(''chain_id'', JInt 1), (''wrapped_native'', JNull)]) ''wrapped_native'') address_or_none = Inr None"
  "bindR (json_item (JObj [(''chain_id'', JInt 1), (''wrapped_native'', JNull)]) ''chain_id'') json_int = Inr 1"
  by code_simp+

lemma eth_build:
  "\<exists>fs' m. build_group eth_hash False eth_args eth_constants ''eth'' eth_group eth_assets None [] [''a/claims/eth.csv'' \<mapsto> eth_list] = Some (fs', Inr m)"
proof -
  obtain x where x: "samples_json ''eth'' (replicate 32 7) eth_assets [eth_claim] [[replicate 32 7]] = Inr x" using eth_samples by blast
  have native: "cr_token eth_claim \<noteq> NATIVE_TOKEN" by code_simp
  have root: "tree_root [[replicate 32 7 :: byte list]] = Inr (replicate 32 7)" by (simp add: tree_root_def)
  note eq = eth_row eth_leaves eth_levels eth_checks eth_totals eth_constants_items x native root
  show ?thesis
    unfolding build_group_def Let_def eth_group_def eth_args_def
    by (simp add: proc_simps eq eth_paths prepare_outputs_def partial_def deployment_of_def read_text_def del: mapM_Inr_iff)
qed

lemma eth_chain:
  "\<exists>fs' st. build_chain eth_hash False eth_args eth_config eth_constants eth_summary eth_pools [] None []
     \<lparr>bs_manifests = [], bs_labels = [], bs_inputs = []\<rparr> ''eth'' [''a/claims/eth.csv'' \<mapsto> eth_list] = Some (fs', Inr st)"
proof -
  have path: "join_path ''a'' ''claims/eth.csv'' = ''a/claims/eth.csv''" by (simp add: join_path_def startswith_def)
  have digest: "check_input eth_summary ''a'' ''claims/eth.csv'' [''a/claims/eth.csv'' \<mapsto> eth_list] = Inr (text_sha256 eth_list)"
    by (simp add: check_input_def output_digest_def eth_summary_def json_item_def json_get_def read_text_def path)
  have lists: "bindR (json_item eth_summary ''claim_lists'') json_list = Inr [JStr ''eth'']"
    by (simp add: eth_summary_def json_item_def json_list_def)
  have constants: "bindR (json_item eth_constants ''chains'') (\<lambda>cs. json_get cs ''eth'') = Inr (JObj [(''chain_id'', JInt 1), (''wrapped_native'', JNull)])"
    "bindR (json_item eth_config ''chains'') (\<lambda>cs. bindR (json_item cs ''eth'') (\<lambda>c. bindR (json_item c ''chain_id'') json_int)) = Inr 1"
    "check_chain_totals [eth_claim] eth_assets = Inr ()"
    by code_simp+
  have group: "override_funder [] eth_group = eth_group" by (simp add: override_funder_def)
  show ?thesis
    using eth_build unfolding build_chain_def Let_def
    by (auto simp: proc_simps lists constants eth_constants_items path digest eth_asset_table eth_read
        eth_groups [folded eth_group_def] group eth_args_def simp del: mapM_Inr_iff)
qed

theorem contracts_pay_pools_witness:
  "\<exists>fs' st. build_chain eth_hash False eth_args eth_config eth_constants eth_summary eth_pools [] None []
      \<lparr>bs_manifests = [], bs_labels = [], bs_inputs = []\<rparr> ''eth'' [''a/claims/eth.csv'' \<mapsto> eth_list] = Some (fs', Inr st) \<and>
    sum_list (map (\<lambda>m. contract_total m eth_token) (bs_manifests st)) = 1500000 \<and> (\<forall>m \<in> set (bs_manifests st). contract_covered m)"
proof -
  obtain fs' st where run: "build_chain eth_hash False eth_args eth_config eth_constants eth_summary eth_pools [] None []
      \<lparr>bs_manifests = [], bs_labels = [], bs_inputs = []\<rparr> ''eth'' [''a/claims/eth.csv'' \<mapsto> eth_list] = Some (fs', Inr st)"
    using eth_chain by blast
  have "pool_claimable ''eth'' eth_token eth_pools = 1500000" by code_simp
  with contracts_pay_pools [OF run] run show ?thesis by auto
qed

end
