(* ===== verification/ProofLookup.thy ===== *)
theory ProofLookup
  imports ClaimProof ContractTotals
begin

text \<open>
  \<^verbatim>\<open>proof.py\<close> on the directory of a contract that \<^verbatim>\<open>build_claims.py\<close> built: the manifest, the list and the tree read back, and every row of a
  payee is found with a proof that verifies.
\<close>

section \<open>Reading the files back\<close>

lemma join_path_inject:
  assumes "join_path d x = join_path d y" "\<not> startswith x ''/''" "\<not> startswith y ''/''"
  shows "x = y"
  using assms by (auto simp: join_path_def split: if_splits)

lemma loads_json_file: "json_plain j \<Longrightarrow> loads (json_file w j) = Inr (sort_keys j)"
  using loads_dumps_space [OF sort_keys_plain, of j "[CHR 0x0A]" w] by (simp add: json_file_def json_space_def)

lemma sort_keys_item:
  assumes "distinct (map fst items)" "map_of items k = Some v"
  shows "map_of (sort_key fst (map (\<lambda>(k, v). (k, sort_keys v)) items)) k = Some (sort_keys v)"
proof (rule map_of_is_SomeI)
  have "map fst (map (\<lambda>(k, v). (k, sort_keys v)) items) = map fst items" by (simp add: case_prod_beta)
  then show "distinct (map fst (sort_key fst (map (\<lambda>(k, v). (k, sort_keys v)) items)))" using assms(1) by (simp only: distinct_keys_sort)
  show "(k, sort_keys v) \<in> set (sort_key fst (map (\<lambda>(k, v). (k, sort_keys v)) items))" using map_of_SomeD [OF assms(2)] by force
qed

lemma json_item_sorted:
  assumes "json_plain j" "json_item j k = Inr v"
  shows "json_item (sort_keys j) k = Inr (sort_keys v)"
  using sort_keys_item [of _ k v] assms by (cases j) (simp_all add: json_item_def of_option_Inr_iff)

lemma read_tree_text:
  assumes "fs path = Some (tree_text levels)"
  shows "read_tree fs path (map length levels) = Inr levels"
proof -
  have "mapM read_node (raw_lines (tree_text levels)) = Inr (concat levels)"
    unfolding tree_text_lines by (simp only: mapM_Inr_iff list_all2_map1 list_all2_same read_node_line) simp
  then show ?thesis
    by (simp add: read_tree_def read_text_def assms cut_levels_concat length_concat del: mapM_Inr_iff)
qed

lemma dict_reader_text:
  assumes "plain_row header" "\<forall>r \<in> set rows. plain_row r"
  shows "dict_reader (csv_text (header # rows)) = map (dict_of_record header) rows"
proof -
  have "filter (\<lambda>r. r \<noteq> []) rows = rows" using assms(2) by (auto simp: plain_row_def filter_id_conv)
  then show ?thesis using csv_reader_text [of "header # rows"] assms by (simp add: dict_reader_def)
qed

section \<open>Plain cells\<close>

lemma hex_plain: "hex_value_acc a s = Some n \<Longrightarrow> \<not> needs_quotes s"
proof (induction s arbitrary: a)
  case (Cons c s)
  then obtain d where "hex_digit_value c = Some d" by (cases "hex_digit_value c") auto
  then have "\<not> is_special c" by (auto simp: is_special_def is_newline_def hex_digit_value_def is_digit_def split: if_splits)
  with Cons show ?case by (auto split: option.splits)
qed (simp add: needs_quotes_def)

lemma special_cases: "is_special c \<longleftrightarrow> c \<in> {CHR '','', CHR 0x22, LF, CR}"
  by (auto simp: is_special_def is_newline_def)

lemma digit_not_special: "is_digit c \<Longrightarrow> \<not> is_special c"
  by (auto simp: special_cases is_digit_def)

lemma digits_plain:
  assumes "\<forall>c \<in> set s. is_digit c \<or> c \<in> {CHR ''.'', CHR ''-''}"
  shows "\<not> needs_quotes s"
proof -
  have "\<not> is_special (CHR ''.'')" "\<not> is_special (CHR ''-'')" by (simp_all add: special_cases)
  with assms digit_not_special show ?thesis unfolding needs_quotes_def by blast
qed

lemma lower_special: "is_special c \<Longrightarrow> is_special (lower_char c)"
  unfolding special_cases by (elim insertE) (simp_all add: lower_char_def is_upper_def)

lemma address_int_plain:
  assumes "address_int a = Inr n"
  shows "\<not> needs_quotes a"
proof (cases "startswith (lower a) ''0x''")
  case True
  then obtain c d s where a: "a = c # d # s" "lower_char c = CHR ''0''" "lower_char d = CHR ''x''"
    by (cases a; cases "tl a") (auto simp: startswith_def)
  have "\<not> is_special (CHR ''0'')" "\<not> is_special (CHR ''x'')" by (simp_all add: special_cases)
  then have "\<not> is_special c" "\<not> is_special d" using a(2, 3) lower_special by metis+
  moreover have "\<not> needs_quotes s" using assms True hex_plain by (auto simp: address_int_def hex_int_def a(1) of_option_Inr_iff split: if_splits)
  ultimately show ?thesis by (simp add: a(1))
next
  case False
  then show ?thesis using assms hex_plain by (auto simp: address_int_def hex_int_def of_option_Inr_iff split: if_splits)
qed

lemma str_int_chars: "c \<in> set (str_int n) \<Longrightarrow> is_digit c \<or> c = CHR ''-''"
  using str_nat_digits by (auto simp: str_int_abs list_all_iff split: if_splits)

lemma rstrip_zero_subset: "set (rstrip_zero s) \<subseteq> set s"
  using rstrip_zero_decomp [of s] by (metis Un_upper1 set_append)

lemma format_units_chars: "c \<in> set (format_units raw d) \<Longrightarrow> is_digit c \<or> c \<in> {CHR ''.'', CHR ''-''}"
  by (auto simp: format_units_def Let_def zfill_def is_digit_def split: if_splits dest!: str_int_chars)

lemma format_amount_plain:
  assumes "format_amount raw d = Inr text"
  shows "\<not> needs_quotes text"
proof -
  have "set text \<subseteq> set (format_units raw (nat d))"
    using assms rstrip_zero_subset [of "format_units raw (nat d)"]
    by (auto simp: format_amount_def Let_def split: if_splits dest: in_set_butlastD)
  then show ?thesis by (intro digits_plain) (blast dest: format_units_chars)
qed

section \<open>What the claim lists have\<close>

lemma bridge_address_length: "bridge_address v = Inr a \<Longrightarrow> length a = 42"
  by (auto simp: bridge_address_def of_option_Inr_iff any_to_hex_def crl_normalize_address_def bech32_to_hex_def Let_def
      split: if_splits option.splits prod.splits)

lemma read_claims_lengths:
  assumes "read_claims fs path assets = Inr rows" "r \<in> set rows"
  shows "length (cr_account r) = 42" "length (cr_token r) = 42"
proof -
  have native: "length NATIVE_TOKEN = 42" by (simp add: NATIVE_TOKEN_def)
  obtain raw where "foldM (add_listed_claim assets) [] raw = Inr rows" using assms by (auto simp: read_claims_def bindR_Inr_iff)
  then have "\<forall>r \<in> set rows. length (cr_account r) = 42 \<and> length (cr_token r) = 42"
  proof (rule foldM_keeps)
    fix seen x seen' assume "add_listed_claim assets seen x = Inr seen'" and seen: "\<forall>r \<in> set seen. length (cr_account r) = 42 \<and> length (cr_token r) = 42"
    then obtain account token amount pools v v' where "seen' = seen @ [\<lparr>cr_account = account, cr_token = token, cr_amount = amount, cr_pools = pools\<rparr>]"
      "bridge_address v = Inr account" "token_of v' = Inr token"
      by (auto simp: add_listed_claim_def bindR_Inr_iff split: if_splits)
    moreover have "length token = 42" if "token_of v' = Inr token" for v' token
      using that bridge_address_length native by (simp add: token_of_def split: if_splits)
    ultimately show "\<forall>r \<in> set seen'. length (cr_account r) = 42 \<and> length (cr_token r) = 42" using seen bridge_address_length by auto
  qed simp
  then show "length (cr_account r) = 42" "length (cr_token r) = 42" using assms(2) by auto
qed

lemma to_checksum_returns:
  assumes "\<And>d. length (k d) = 32" "length a = 42"
  obtains c where "to_checksum k a = Inr c"
proof -
  have "\<exists>c. to_checksum k a = Inr c" using assms by (auto simp: to_checksum_def Let_def removeprefix_def not_less)
  then show ?thesis using that by blast
qed

lemma list_record:
  "dict_of_record LIST_FIELDS [a, b, c, d, e, f, g] =
     [(''index'', Some a), (''account'', Some b), (''token'', Some c), (''symbol'', Some d), (''amount_raw'', Some e), (''amount'', Some f), (''pools'', Some g)]"
  by (simp add: dict_of_record_def LIST_FIELDS_def)

lemma list_header: "plain_row LIST_FIELDS"
  by (simp add: plain_row_def LIST_FIELDS_def needs_quotes_def special_cases)

section \<open>The manifest reads back\<close>

definition code_plain :: "bytecode option \<Rightarrow> bool" where
  "code_plain c \<longleftrightarrow> (case c of None \<Rightarrow> True | Some b \<Rightarrow> json_plain (by_compiler b) \<and> json_plain (by_evm_version b) \<and> json_plain (by_optimizer b))"

lemma opt_json_plain [simp]: "json_plain (opt_json x)"
  by (simp add: opt_json_def split: option.splits)

lemma deployment_of_parts:
  "deployment_of k deployer salt funder wrapped chain_id root n list_sha compiled = Inr d \<Longrightarrow>
   dp_salt d = salt \<and> (dp_code d = None \<or> (\<exists>a h h' c. dp_code d = Some (a, h, h', c) \<and> compiled = Some c))"
  by (cases funder; cases compiled) (auto simp: deployment_of_def bindR_Inr_iff)

lemma deployment_plain:
  assumes "json_plain (dp_salt (cm_deployment m))" "dp_code (cm_deployment m) = None \<or> (\<exists>a h h' c. dp_code (cm_deployment m) = Some (a, h, h', c) \<and> compiled = Some c)"
    and "code_plain compiled"
  shows "json_plain (deployment_json m)"
  using assms by (cases "dp_args (cm_deployment m)"; cases "dp_code (cm_deployment m)") (auto simp: deployment_json_def code_plain_def Let_def)

lemma manifest_plain: "json_plain (deployment_json m) \<Longrightarrow> json_plain (manifest_json m)"
  by (auto simp: manifest_json_def asset_json_def approval_json_def list_all_iff)

lemma json_item_plain: "json_plain j \<Longrightarrow> json_item j k = Inr v \<Longrightarrow> json_plain v"
  by (cases j) (auto simp: json_item_def of_option_Inr_iff list_all_iff dest!: map_of_SomeD)

lemma build_group_plain:
  assumes "build_group keccak256 started args constants chain g assets compiled sources fs = Some (fs', Inr m)" "json_plain constants" "code_plain compiled"
  shows "json_plain (manifest_json m)"
proof -
  obtain deployer salt wrapped chain_id root n sha where salt: "json_item constants ''salt'' = Inr salt"
    and d: "deployment_of keccak256 deployer salt (cm_funder m) wrapped chain_id root n sha compiled = Inr (cm_deployment m)"
    using assms(1) unfolding build_group_def Let_def bindP_Inr_iff fromR_Inr_iff readP_Inr_iff writeP_Inr_iff loopP_Inr_iff
    by (auto simp: proc_simps split: prod.splits)
  have "json_plain (deployment_json m)"
    using deployment_of_parts [OF d] json_item_plain [OF assms(2) salt] assms(3) by (intro deployment_plain [where compiled = compiled]) auto
  then show ?thesis by (rule manifest_plain)
qed

lemma manifest_items:
  assumes "json_plain (manifest_json m)"
  shows "json_item (sort_keys (manifest_json m)) ''list_file'' = Inr (JStr ''claims.csv'')" "json_item (sort_keys (manifest_json m)) ''tree_file'' = Inr (JStr ''tree.txt'')"
    "json_item (sort_keys (manifest_json m)) ''label'' = Inr (JStr (cm_label m))" "json_item (sort_keys (manifest_json m)) ''chain'' = Inr (JStr (cm_chain m))"
    "json_item (sort_keys (manifest_json m)) ''chain_id'' = Inr (JInt (cm_chain_id m))" "json_item (sort_keys (manifest_json m)) ''root'' = Inr (JStr (hex0x (cm_root m)))"
    "json_item (sort_keys (manifest_json m)) ''deployment'' = Inr (sort_keys (deployment_json m))"
    "json_item (sort_keys (manifest_json m)) ''level_sizes'' = Inr (JArr (map (\<lambda>n. JInt (int n)) (cm_level_sizes m)))"
proof -
  have item: "json_item (sort_keys (manifest_json m)) k = Inr v" if "json_item (manifest_json m) k = Inr w" "sort_keys w = v" for k v w
    using json_item_sorted [OF assms that(1)] that(2) by simp
  show "json_item (sort_keys (manifest_json m)) ''list_file'' = Inr (JStr ''claims.csv'')" "json_item (sort_keys (manifest_json m)) ''tree_file'' = Inr (JStr ''tree.txt'')"
    "json_item (sort_keys (manifest_json m)) ''label'' = Inr (JStr (cm_label m))" "json_item (sort_keys (manifest_json m)) ''chain'' = Inr (JStr (cm_chain m))"
    "json_item (sort_keys (manifest_json m)) ''chain_id'' = Inr (JInt (cm_chain_id m))" "json_item (sort_keys (manifest_json m)) ''root'' = Inr (JStr (hex0x (cm_root m)))"
    "json_item (sort_keys (manifest_json m)) ''deployment'' = Inr (sort_keys (deployment_json m))"
    "json_item (sort_keys (manifest_json m)) ''level_sizes'' = Inr (JArr (map (\<lambda>n. JInt (int n)) (cm_level_sizes m)))"
    by (rule item, simp add: manifest_json_def json_item_def, simp add: o_def)+
qed

lemma level_sizes_nat: "mapM json_nat (map (\<lambda>n. JInt (int n)) sizes) = Inr sizes"
  by (induction sizes) (simp_all add: json_nat_def del: mapM_Inr_iff)

lemma deployment_address: "\<exists>a. json_get (sort_keys (deployment_json m)) key = Inr a"
  by (simp add: deployment_json_def Let_def json_get_def)

lemma claim_unhex_hex0x: "claim_unhex (hex0x b) = Inr b"
  by (simp add: claim_unhex_def hex0x_def startswith_def)

section \<open>The list reads back\<close>

text \<open>The record of a row in the published list.\<close>

definition list_entry :: "(string, asset) dict \<Rightarrow> nat \<times> listed_claim \<Rightarrow> csv_row" where
  "list_entry assets = (\<lambda>(i, r). case list_row assets (i, r) of Inr cells \<Rightarrow> dict_of_record LIST_FIELDS cells | Inl _ \<Rightarrow> [])"

definition cells_plain :: "(string, asset) dict \<Rightarrow> listed_claim \<Rightarrow> bool" where
  "cells_plain assets r \<longleftrightarrow> \<not> needs_quotes (cr_pools r) \<and> (\<forall>info. dict_get assets (cr_token r) = Some info \<longrightarrow> \<not> needs_quotes (as_symbol info))"

lemma list_row_fields:
  assumes "list_row assets (i, r) = Inr cells"
  obtains symbol shown where "cells = [str_nat i, cr_account r, cr_token r, symbol, str_int (cr_amount r), shown, cr_pools r]" "\<not> needs_quotes shown"
    "\<exists>info. dict_get assets (cr_token r) = Some info \<and> symbol = as_symbol info"
  using assms format_amount_plain by (auto simp: list_row_def bindR_Inr_iff of_option_Inr_iff)

lemma list_row_plain:
  assumes "list_row assets (i, r) = Inr cells" "cells_plain assets r" "address_int (cr_account r) = Inr a" "address_int (cr_token r) = Inr t"
  shows "plain_row cells"
proof -
  obtain symbol shown where c: "cells = [str_nat i, cr_account r, cr_token r, symbol, str_int (cr_amount r), shown, cr_pools r]" "\<not> needs_quotes shown"
      "\<not> needs_quotes symbol"
    using assms(1, 2) by (auto simp: cells_plain_def elim: list_row_fields)
  have "\<not> needs_quotes (str_nat i)" "\<not> needs_quotes (str_int (cr_amount r))"
    using str_nat_digits [of i] str_int_chars by (auto intro!: digits_plain simp: list_all_iff)
  then show ?thesis using c address_int_plain [OF assms(3)] address_int_plain [OF assms(4)] assms(2) by (simp add: plain_row_def cells_plain_def)
qed

lemma list_entry_fields:
  assumes "list_row assets (i, r) = Inr cells"
  shows "int_of_field (list_entry assets (i, r)) ''index'' = Inr (int i)" "int_of_field (list_entry assets (i, r)) ''amount_raw'' = Inr (cr_amount r)"
    "field (list_entry assets (i, r)) ''account'' = Inr (Some (cr_account r))" "value_field (list_entry assets (i, r)) ''token'' = Inr (cr_token r)"
    "\<exists>v. value_field (list_entry assets (i, r)) ''symbol'' = Inr v" "\<exists>v. value_field (list_entry assets (i, r)) ''amount'' = Inr v"
  using assms
  by (auto elim!: list_row_fields simp: list_entry_def list_record int_of_field_def value_field_def field_def py_int_digits)

lemma list_entries:
  assumes "mapM (list_row assets) (enumerate 0 rows) = Inr list_rows" "\<forall>r \<in> set rows. cells_plain assets r"
    and "\<forall>r \<in> set rows. \<exists>a t. address_int (cr_account r) = Inr a \<and> address_int (cr_token r) = Inr t"
  shows "dict_reader (csv_text (LIST_FIELDS # list_rows)) = map (list_entry assets) (enumerate 0 rows)"
proof -
  have all: "list_all2 (\<lambda>x cells. list_row assets x = Inr cells) (enumerate 0 rows) list_rows" using assms(1) by (simp add: mapM_Inr_iff)
  have mem: "snd x \<in> set rows" if "x \<in> set (enumerate 0 rows)" for x using that by (auto simp: enumerate_eq_zip in_set_zip) (metis nth_mem)
  have "plain_row cells" if cells: "cells \<in> set list_rows" for cells
  proof -
    obtain i r where "(i, r) \<in> set (enumerate 0 rows)" "list_row assets (i, r) = Inr cells"
      using mapM_mem [OF assms(1) cells] by auto
    then show ?thesis using mem [of "(i, r)"] assms(2, 3) by (auto intro: list_row_plain)
  qed
  then have "dict_reader (csv_text (LIST_FIELDS # list_rows)) = map (dict_of_record LIST_FIELDS) list_rows"
    by (intro dict_reader_text list_header) auto
  also have "\<dots> = map (list_entry assets) (enumerate 0 rows)"
    using all by (rule list_all2_map_eq) (auto simp: list_entry_def split: prod.splits)
  finally show ?thesis .
qed

section \<open>The lookup\<close>

lemma payee_rows_list:
  assumes "mapM (list_row assets) xs = Inr list_rows"
  shows "payee_rows payee (map (list_entry assets) xs) = Inr (map (list_entry assets) (filter (\<lambda>(i, r). cr_account r = payee) xs))"
proof -
  have "field (list_entry assets x) ''account'' = Inr (case x of (i, r) \<Rightarrow> Some (cr_account r))" if x: "x \<in> set xs" for x
  proof (cases x)
    case (Pair i r)
    then show ?thesis using mapM_accepts [OF assms x] by (auto simp: list_entry_fields(3))
  qed
  then have "mapM (\<lambda>r. field r ''account'') (map (list_entry assets) xs) = Inr (map (\<lambda>(i, r). Some (cr_account r)) xs)"
    by (simp add: mapM_Inr_iff list_all2_map1 list_all2_map2 list_all2_same)
  moreover have "map fst (filter (\<lambda>(r, a). a = Some payee) (zip (map (list_entry assets) xs) (map (\<lambda>(i, r). Some (cr_account r)) xs))) =
      map (list_entry assets) (filter (\<lambda>(i, r). cr_account r = payee) xs)"
    by (induction xs) (auto split: prod.splits)
  ultimately show ?thesis by (simp add: payee_rows_def)
qed

text \<open>A printed row that pays row \<open>r\<close> of the list: its number, token and amount, and a proof that verifies against the root.\<close>

definition pays_row :: "(bytes \<Rightarrow> bytes) \<Rightarrow> bytes \<Rightarrow> nat \<times> listed_claim \<Rightarrow> proof_row \<Rightarrow> bool" where
  "pays_row keccak256 root = (\<lambda>(i, r) p. pr_index p = int i \<and> to_checksum keccak256 (cr_token r) = Inr (pr_token p) \<and> pr_amount_raw p = str_int (cr_amount r) \<and>
     (\<exists>leaf nodes. claim_leaf keccak256 (int i, cr_account r, cr_token r, cr_amount r) = Inr leaf \<and> pr_proof p = map hex0x nodes \<and>
        tree_verify keccak256 nodes root leaf))"

lemma lookup_row_pays:
  assumes "list_row assets (i, r) = Inr cells" "claim_leaf k (int i, cr_account r, cr_token r, cr_amount r) = Inr (leaf_list ! i)" "i < length leaf_list"
    and "tree_levels k leaf_list = Inr tree" "tree_root tree = Inr root" "to_checksum k (cr_token r) = Inr c"
  shows "\<exists>p. lookup_row k tree root (list_entry assets (i, r)) = Inr p \<and> pays_row k root (i, r) p"
proof -
  have tree: "tree \<noteq> []" "hd tree = leaf_list"
    using tree_levels_root(2) [OF assms(4, 5)] by (simp, subst tree_levels_root(2) [OF assms(4, 5)], subst levels_from.simps) simp
  have verify: "tree_verify k (tree_proof tree i) root (leaf_list ! i)" using assms(3-5) by (rule tree_proof_reaches_root [rotated 2])
  have account: "value_field (list_entry assets (i, r)) ''account'' = Inr (cr_account r)"
    using list_entry_fields(3) [OF assms(1)] by (simp add: value_field_def)
  obtain sy am where "value_field (list_entry assets (i, r)) ''symbol'' = Inr sy" "value_field (list_entry assets (i, r)) ''amount'' = Inr am"
    using list_entry_fields(5, 6) [OF assms(1)] by blast
  then show ?thesis using assms verify account tree list_entry_fields [OF assms(1)]
    by (auto simp: lookup_row_def pays_row_def Let_def)
qed

lemma mapM_map_list: "mapM f (map g xs) = mapM (\<lambda>x. f (g x)) xs"
  by (induction xs) (simp_all del: mapM_Inr_iff)

lemma list_all2_mapM:
  assumes "\<And>x. x \<in> set xs \<Longrightarrow> \<exists>y. f x = Inr y \<and> P x y"
  shows "\<exists>ys. mapM f xs = Inr ys \<and> list_all2 P xs ys"
  using assms
proof (induction xs)
  case (Cons x xs)
  obtain ys where "mapM f xs = Inr ys" "list_all2 P xs ys" using Cons.IH Cons.prems by (metis list.set_intros(2))
  moreover obtain y where "f x = Inr y" "P x y" using Cons.prems by (metis list.set_intros(1))
  ultimately show ?case by (auto simp del: mapM_Inr_iff)
qed simp

lemma leaf_rows_nth:
  assumes "mapM (claim_leaf k) (leaf_rows rows) = Inr leaf_list" "(i, r) \<in> set (enumerate 0 rows)"
  shows "claim_leaf k (int i, cr_account r, cr_token r, cr_amount r) = Inr (leaf_list ! i)" "i < length leaf_list"
proof -
  have i: "i < length rows" "r = rows ! i" using assms(2) by (auto simp: in_set_enumerate_eq)
  have all: "list_all2 (\<lambda>x y. claim_leaf k x = Inr y) (leaf_rows rows) leaf_list" using assms(1) by (simp add: mapM_Inr_iff)
  have "length leaf_list = length rows" using list_all2_lengthD [OF all] by (simp add: leaf_rows_def)
  then show "i < length leaf_list" using i by simp
  show "claim_leaf k (int i, cr_account r, cr_token r, cr_amount r) = Inr (leaf_list ! i)"
    using list_all2_nthD [OF all, of i] i by (simp add: leaf_rows_def nth_enumerate_eq)
qed

lemma leaf_addresses: "claim_leaf k (i, a, t, n) = Inr l \<Longrightarrow> \<exists>x y. address_int a = Inr x \<and> address_int t = Inr y"
  by (auto simp: claim_leaf_def encode_row_def bindR_Inr_iff)

lemma row_addresses:
  assumes "mapM (claim_leaf k) (leaf_rows rows) = Inr leaf_list" "r \<in> set rows"
  shows "\<exists>a t. address_int (cr_account r) = Inr a \<and> address_int (cr_token r) = Inr t"
proof -
  obtain i where "i < length rows" "r = rows ! i" using assms(2) by (auto simp: in_set_conv_nth)
  then have "(i, r) \<in> set (enumerate 0 rows)" by (simp add: in_set_enumerate_eq)
  from leaf_rows_nth(1) [OF assms(1) this] show ?thesis by (rule leaf_addresses)
qed

lemma built_tree:
  assumes "\<And>d. length (k d) = 32" "claim_leaves k started workers tuples = Inr leaf_list" "claim_levels k started workers leaf_list = Some (Inr tree)"
  shows "mapM (claim_leaf k) tuples = Inr leaf_list" "tree_levels k leaf_list = Inr tree"
proof -
  show leaves: "mapM (claim_leaf k) tuples = Inr leaf_list" using assms(2) by (simp add: claim_leaves_sequential assms(1))
  have "\<forall>x \<in> set leaf_list. length x = 32" using mapM_mem [OF leaves] claim_leaf_length assms(1) by blast
  then show "tree_levels k leaf_list = Inr tree"
    using assms(3) levels_loop_levels [OF assms(1), of leaf_list] by (auto simp: claim_levels_def tree_levels_def split: if_splits)
qed

text \<open>The files of a contract directory, and what the lookup makes of them.\<close>

lemma lookup_files:
  assumes "fs (join_path dir ''manifest.json'') = Some (json_file 2 (manifest_json m))" "json_plain (manifest_json m)"
    and "fs (join_path dir ''claims.csv'') = Some content" "payee_rows payee (dict_reader content) = Inr mine"
    and "fs (join_path dir ''tree.txt'') = Some (tree_text tree)" "cm_level_sizes m = map length tree" "tree_root tree = Inr (cm_root m)"
    and "to_checksum k payee = Inr account" "mapM (lookup_row k tree (cm_root m)) mine = Inr items"
  shows "\<exists>res. lookup k fs dir payee = Inr res \<and> lr_root res = JStr (hex0x (cm_root m)) \<and> lr_rows res = items"
proof -
  obtain a where a: "json_get (sort_keys (deployment_json m)) ''address'' = Inr a" using deployment_address by blast
  have sizes: "bindR (json_list (JArr (map (\<lambda>n. JInt (int n)) (cm_level_sizes m)))) (mapM json_nat) = Inr (map length tree)"
    unfolding assms(6) [symmetric] by (simp only: json_list_def json.case bindR.simps level_sizes_nat)
  have tree: "read_tree fs (join_path dir ''tree.txt'') (map length tree) = Inr tree" using assms(5) by (rule read_tree_text)
  show ?thesis
    using assms(3, 4, 7-9)
    by (simp add: lookup_def read_text_def read_csv_def assms(1) loads_json_file [OF assms(2)] manifest_items [OF assms(2)] json_text_def a Let_def sizes tree
        claim_unhex_hex0x del: mapM_Inr_iff) auto
qed

text \<open>C15. Every payee finds all rows that the builder wrote. On the directory of a contract that \<^verbatim>\<open>build_claims.py\<close> built from rows of a claim list, the lookup
  of any address returns, with the root of the manifest, and prints exactly the rows of this payee in list order, each with its number, token and amount and
  with a proof that verifies against the root; for an address without rows it returns no row. The hash is any with 32-byte digests; the
  symbols and pool names need no quoting in the list.\<close>

theorem lookup_finds_rows:
  assumes "build_group k started args constants chain g assets compiled sources fs = Some (fs', Inr m)"
    and "read_claims fs0 path assets = Inr rows" "set (cg_rows g) \<subseteq> set rows" "\<forall>r \<in> set (cg_rows g). cells_plain assets r"
    and "json_plain constants" "code_plain compiled" "\<And>d. length (k d) = 32" "length payee = 42"
  shows "\<exists>res. lookup k fs' (join_path (bg_output_dir args) (cg_label g)) payee = Inr res \<and> lr_root res = JStr (hex0x (cm_root m)) \<and>
    list_all2 (pays_row k (cm_root m)) (filter (\<lambda>(i, r). cr_account r = payee) (enumerate 0 (cm_rows m))) (lr_rows res)"
  using assms(1)
proof (cases rule: build_group_Inr)
  case (1 list_rows leaf_list tree samples)
  let ?dir = "join_path (bg_output_dir args) (cg_label g)" and ?rows = "cm_rows m"
  let ?mine = "filter (\<lambda>(i, r). cr_account r = payee) (enumerate 0 ?rows)"
  note leaves = built_tree(1) [OF assms(7) 1(5, 6)] and levels = built_tree(2) [OF assms(7) 1(5, 6)]
  have mem: "r \<in> set rows \<and> cells_plain assets r" if "r \<in> set ?rows" for r using that assms(3, 4) 1(1) by auto
  have entries: "dict_reader (csv_text (LIST_FIELDS # list_rows)) = map (list_entry assets) (enumerate 0 ?rows)"
    using mem row_addresses [OF leaves] by (intro list_entries [OF 1(4)]) blast+
  have found: "\<exists>p. lookup_row k tree (cm_root m) (list_entry assets x) = Inr p \<and> pays_row k (cm_root m) x p" if x: "x \<in> set ?mine" for x
  proof (cases x)
    case (Pair i r)
    have ir: "(i, r) \<in> set (enumerate 0 ?rows)" using x Pair by simp
    then have "length (cr_token r) = 42" using mem read_claims_lengths [OF assms(2)] by (auto simp: in_set_enumerate_eq)
    then obtain c where "to_checksum k (cr_token r) = Inr c" using to_checksum_returns [of k "cr_token r"] assms(7) by blast
    then show ?thesis
      using lookup_row_pays [OF _ leaf_rows_nth [OF leaves ir] levels 1(7)] mapM_accepts [OF 1(4) ir] by (auto simp: Pair)
  qed
  obtain items where items: "mapM (\<lambda>x. lookup_row k tree (cm_root m) (list_entry assets x)) ?mine = Inr items" "list_all2 (pays_row k (cm_root m)) ?mine items"
    using list_all2_mapM [of ?mine "\<lambda>x. lookup_row k tree (cm_root m) (list_entry assets x)", OF found] by blast
  obtain account where account: "to_checksum k payee = Inr account" using to_checksum_returns [of k payee] assms(7, 8) by blast
  have other: "join_path ?dir x \<noteq> join_path ?dir y" if "x \<noteq> y" "\<not> startswith x ''/''" "\<not> startswith y ''/''" for x y
    using that join_path_inject by blast
  have files: "fs' (join_path ?dir ''manifest.json'') = Some (json_file 2 (manifest_json m))"
    "fs' (join_path ?dir ''claims.csv'') = Some (csv_text (LIST_FIELDS # list_rows))" "fs' (join_path ?dir ''tree.txt'') = Some (tree_text tree)"
    unfolding 1(11) by (simp_all add: other startswith_def)
  have mine: "payee_rows payee (dict_reader (csv_text (LIST_FIELDS # list_rows))) = Inr (map (list_entry assets) ?mine)"
    unfolding entries by (rule payee_rows_list [OF 1(4)])
  have "mapM (lookup_row k tree (cm_root m)) (map (list_entry assets) ?mine) = Inr items" using items(1) by (simp only: mapM_map_list)
  from lookup_files [OF files(1) build_group_plain [OF assms(1, 5, 6)] files(2) mine files(3) 1(8, 7) account this]
  show ?thesis using items(2) by auto
qed

theorem lookup_finds_rows_witness:
  "\<exists>fs' m res. build_group eth_hash False eth_args eth_constants ''eth'' eth_group eth_assets None [] [''a/claims/eth.csv'' \<mapsto> eth_list] =
      Some (fs', Inr m) \<and> lookup eth_hash fs' (join_path ''o'' ''eth'') eth_account = Inr res \<and>
    list_all2 (pays_row eth_hash (cm_root m)) [(0, eth_claim)] (lr_rows res)"
proof -
  obtain fs' m where run: "build_group eth_hash False eth_args eth_constants ''eth'' eth_group eth_assets None [] [''a/claims/eth.csv'' \<mapsto> eth_list] =
      Some (fs', Inr m)" using eth_build by blast
  then have rows: "cm_rows m = [eth_claim]" by (rule build_group_Inr) (simp add: eth_group_def)
  have plain: "cells_plain eth_assets eth_claim" by (simp add: cells_plain_def eth_claim_def eth_assets_def needs_quotes_def special_cases)
  have "length eth_account = 42" "json_plain eth_constants" "cr_account eth_claim = eth_account" by code_simp+
  then show ?thesis
    using lookup_finds_rows [OF run eth_read, of eth_account] plain run
    by (simp add: rows eth_group_def code_plain_def eth_hash_def eth_args_def) blast
qed

end
