(* ===== verification/Spec2Isabelle.thy ===== *)
theory Spec2Isabelle
  imports KeccakVector RunDir SelectBatch Census Supply ClaimCsvs FilterClaims Eligibility VaultShares ClaimTree Allocations
    PackageProps RefreshRecord Progress ProofLookup
begin

text \<open>
  The Harmony migration accounting: from the state exports of two shards to the claims of every account, the eligibility
  decision, the committed batches of the airdrop, the claim tree of the bridge and the packages its signers load. The programs are Python scripts that read
  and write CSV and JSON files; the theories follow their modules. Paths are relative to \<^verbatim>\<open>src/\<close>.

  \<^bold>\<open>How the parts fit together.\<close> \<^verbatim>\<open>account-balance-merge.py\<close> merges the exports of the two shards by secure key (the
  census). \<^verbatim>\<open>actual-supply-ledger.py\<close> merges liquid balances, staking and pending receipts into one claim per key.
  \<^verbatim>\<open>migration-claim-csvs.py\<close> turns the ledger into the claim tables, \<^verbatim>\<open>filter-claims-by-one.py\<close> applies the threshold
  and \<^verbatim>\<open>apply-eligibility-policy.py\<close> splits the claims above it into categories; \<^verbatim>\<open>build-vault-share-allocation.py\<close>
  turns the staked part of the claims into shares of validator vaults. \<^verbatim>\<open>airdrop/tools\<close> takes a list of
  recipients: \<^verbatim>\<open>select_batch.py\<close> chooses who is paid now, \<^verbatim>\<open>build.py\<close> writes a run directory with a Merkle tree over
  batches, \<^verbatim>\<open>verify.py\<close> checks it. For the bridge, \<^verbatim>\<open>toolkit/scripts/bridge/build-bridge-allocations.py\<close> shares the collateral
  of every pool among the holders of the bridged tokens, on top of \<^verbatim>\<open>bridge_lib.py\<close>; \<^verbatim>\<open>bridge-claims/tools/claim_tree.py\<close>
  builds the same kind of tree over single claims. \<^verbatim>\<open>build_claims.py\<close> turns the claim list of every chain into one claim contract per funding
  multisig, with its list, tree and manifest, and \<^verbatim>\<open>proof.py\<close> gives a payee his rows with their proofs. What the signers of the bridge load from a claims run are packages:
  \<^verbatim>\<open>bridge-claims/tools/package.py\<close> builds, lists and verifies them, \<^verbatim>\<open>quarantine.py\<close> takes rejected ones out of the run and
  completes an interrupted quarantine. Both share the run record \<^verbatim>\<open>PACKAGES.json\<close> and its lock.

  \<^bold>\<open>Values shared by all parts.\<close>
  \<^item> \<^theory_text>\<open>Prelude\<close>: exceptions as a sum type (\<open>py_error\<close>, \<open>result\<close>), loops as \<open>foldM\<close> and \<open>mapM\<close> with their
    invariant rules, slices, dictionaries in insertion order.
  \<^item> \<^theory_text>\<open>PyText\<close>, \<^theory_text>\<open>Csv\<close>, \<^theory_text>\<open>Json\<close>, \<^theory_text>\<open>Files\<close>, \<^theory_text>\<open>Merge\<close>: what the scripts use of Python's strings, \<^verbatim>\<open>csv\<close>,
    \<^verbatim>\<open>json\<close> and files, rows of \<^verbatim>\<open>DictReader\<close>, and the merge of sorted streams with its grouping theorem.
  \<^item> \<^theory_text>\<open>Amounts\<close>: the parsers and printers of ONE amounts; they invert each other, agree where they overlap, and
    \<^verbatim>\<open>parse_amount\<close> rounds every amount beyond its 28 digits: the exact condition under which it returns another amount is proved.
  \<^item> \<^theory_text>\<open>Keccak\<close>, \<^theory_text>\<open>KeccakRounds\<close>, \<^theory_text>\<open>KeccakVector\<close>, \<^theory_text>\<open>Sha256\<close>: the hashes on 64- and 32-bit words; the hash of
    the empty string is the code hash the census compares with. \<^theory_text>\<open>ZeroAddress\<close>: the secure key of the zero address.
  \<^item> \<^theory_text>\<open>Bech32\<close>, \<^theory_text>\<open>Addresses\<close>: EIP-55 and bech32 addresses; round trip, and detection of any single wrong character of the alphabet.

  \<^bold>\<open>The airdrop.\<close>
  \<^item> \<^theory_text>\<open>HashTree\<close>: levels, proofs and roots for any commutative pair hash (locale \<open>pair_hash\<close>, extended by
    \<open>binding_pair_hash\<close>); \<^theory_text>\<open>BatchTree\<close> interprets both on the code's hash and proves that every batch is provable and that
    the root commits to the batches.
  \<^item> \<^theory_text>\<open>Recipients\<close>: reading and consolidating recipient lists. \<^theory_text>\<open>SelectBatch\<close>: the choice of recipients, with its
    partition, its limits and the reproducible draw. \<^theory_text>\<open>RunDir\<close>: building, reading and verifying a run. The files of a run are
    written one after the other and every write may fail (\<open>faults\<close>: the file is not created, is cut short, or is whole when closing it fails), so a failing build has
    a definite directory that the verifier is run on.

  \<^bold>\<open>The ledgers.\<close> \<^theory_text>\<open>Census\<close>, \<^theory_text>\<open>Supply\<close>, \<^theory_text>\<open>ClaimCsvs\<close>, \<^theory_text>\<open>FilterClaims\<close>, \<^theory_text>\<open>Eligibility\<close>: each script as a function from the
    files and the arguments to the files it leaves and its result. The theorems say what a successful run wrote in terms of the inputs
    alone: totals are conserved component by component, every row is in one output, failures leave what the code leaves. Outputs are written under
    \<^verbatim>\<open>.partial\<close> names and renamed; that an output path may be the partial path of another output is part of the model.

    \<^theory_text>\<open>VaultShares\<close>: the shares add up to the stake per claim and per validator, and the checks after the first output never fail.

  \<^bold>\<open>The bridge.\<close> \<^theory_text>\<open>BridgeLib\<close>: payloads, the search for the deployment block, the log fetch that splits its ranges on errors
    (a partial function over the answers of the endpoint, which is a parameter; that it returns all logs is a theorem about every endpoint that
    answers single blocks). \<^theory_text>\<open>Allocations\<close>: the status and the share of every account; a pool never pays more than its collateral and the claim
    lists pay what the pools allocate. \<^theory_text>\<open>ClaimTree\<close>: rows, leaves and levels of the claim tree, in one process or in workers, the tree file and
    the code of the contract. The loop over the levels is a partial function, because it shrinks only if the hash has 32-byte digests;
    that it returns is a theorem. \<^theory_text>\<open>JsonProps\<close>: JSON documents read back. \<^theory_text>\<open>BuildClaims\<close>: \<^verbatim>\<open>build_claims.py\<close> as programs on files that may fail or not
    return (the loop over the levels). \<^theory_text>\<open>ContractTotals\<close>: the contracts of a chain pay what its pools allocate and funders approve exactly that. \<^theory_text>\<open>ClaimProof\<close>:
    \<^verbatim>\<open>proof.py\<close>; \<^theory_text>\<open>ProofLookup\<close>: on a directory the builder wrote, it finds every row of every payee, with a proof that verifies.

  \<^bold>\<open>Packages of a claims run.\<close> These tools are written to survive a failure at any point, so their model has every point.
  \<^item> \<^theory_text>\<open>RunTree\<close>: the files of a run as a list of paths with entries (plain, directory or link), and the \<open>world\<close> of a tool: files,
    the record it holds in memory, clock, random names and a schedule that says for every system call whether it runs, fails, is interrupted or
    is the last one before a crash, and how much of a write is done by then. A program (\<open>io\<close>) ends with a value, an exception or a crash. The
    locales \<open>io_relation\<close> and \<open>clock_relation\<close> carry a relation between the worlds before and after through every construct; they are
    interpreted on the frame, memory, well-formedness and the other relations of the proofs. \<open>ensures\<close> is a Hoare triple with
    a postcondition for values, for exceptions and for crashes.
  \<^item> \<^theory_text>\<open>Package\<close>: \<^verbatim>\<open>package.py\<close> function by function. \<^theory_text>\<open>PackageProps\<close>: a sealed package passes the check it is listed with, and a package
    that passes has the files that were sealed. \<^theory_text>\<open>RefreshRecord\<close>: whatever call of a refresh fails, the record file
    is the earlier one, or lists no package of the targets, or lists all of them with one generation drawn by this refresh; a counterexample bounds what \<^verbatim>\<open>fail_closed\<close> promises.
  \<^item> \<^theory_text>\<open>Quarantine\<close>: \<^verbatim>\<open>quarantine.py\<close> and the states of an interrupted move. \<^theory_text>\<open>Recovery\<close>: the triples of \<open>quarantine\<close> and \<open>recover\<close>.
    \<^theory_text>\<open>Progress\<close>: under any schedule a quarantine moves all, moves nothing, or leaves a state in which \<open>recover\<close> works; a
    recovery that is itself interrupted leaves such a state again; one that is not interrupted completes the move (\<open>runs\<close>, a triple of total correctness);
    on the abstract view of a run (what is listed, what lies where, what is pending) a quarantine is the one step \<open>withdraw\<close>.
  \<^item> Bounds: \<open>mkdtemp\<close> tries as many names as \<^verbatim>\<open>tempfile\<close>; the search of a free name needs no more numbers than the run has entries. The
    hypothesis \<open>unreserved\<close> of the theorems on quarantine and recovery excludes an \<^verbatim>\<open>--include\<close> at or below these names at the top of the run: \<^verbatim>\<open>PACKAGES.json\<close>,
    the names that the quarantine gives its own journal and note, and every name that starts with a dot, not only the lock and the partial files.

  \<^bold>\<open>Choices of the model.\<close> A character is a byte, so texts are Latin-1. The text of an error has no interpolated
  path or line. JSON floats keep their text, and \<open>json_int\<close> refuses them where Python truncates; \<open>hex_int\<close> refuses
  signs, white space and underscores, which Python accepts around and in hex digits. The batch files and the manifest of an airdrop run are typed records: a torn or missing file is
  modelled, a document with other keys or with numbers in place of texts is not. A row whose key column is missing is refused where the key is read. A file is its
  text under its path; a script that fails leaves the files as the model returns them with the error. \<^verbatim>\<open>common.keccak256\<close> is a parameter
  where pycryptodome may replace the pure version; what is used of it, the length of its digests and the absence of collisions among the strings
  that are hashed, are hypotheses. Loops over rows need no fuel: they are folds. Random draws end because every draw removes a candidate.
  In the packages of a run, the record and the journal are values of their own that stand for the JSON texts their hashes are taken of; a partial write
  leaves a prefix of the text, which is no record. Paths are lists of names below the run, and no other process writes to a run while its lock is held.

  \<^bold>\<open>Not modelled.\<close> Progress messages and reports for operators, the command lines of \<^verbatim>\<open>package.py\<close> and \<^verbatim>\<open>quarantine.py\<close>,
  the Markdown report of \<^verbatim>\<open>build_claims.py\<close>,
  the block that fills the staging directories (a parameter of \<open>staged\<close>), file modes, RPC endpoints and wallets, the
  scripts for exchanges, routing, stages, contract review, archive and forensics, the Go exporters and the Solidity contracts.
\<close>

end
